(* ===== verification/Prelude.thy ===== *)
theory Prelude
  imports Main "HOL-Library.Word"
begin

text \<open>
  Shared by every theory of the development: the lemma collections, and the generic facts on
  tables. A PostgreSQL table is a list of rows; \<open>SELECT ... WHERE key = k\<close> is \<open>lookup\<close>,
  \<open>UPDATE ... WHERE P\<close> is \<open>update_where\<close>, and the number of affected rows is
  \<open>count_where\<close>. The facts below carry the proofs of the repositories.
\<close>

named_theorems branch_defs \<open>definitions a branch-by-branch proof unfolds\<close>
named_theorems frame \<open>parts of the state an operation leaves alone\<close>
named_theorems preserves \<open>invariants an operation keeps\<close>

type_synonym uuid = "128 word"

abbreviation uuid_Nil :: uuid where
  "uuid_Nil \<equiv> 0"

section \<open>Tables\<close>

definition lookup :: "('r \<Rightarrow> 'k) \<Rightarrow> 'k \<Rightarrow> 'r list \<Rightarrow> 'r option" where
  "lookup key k rs = find (\<lambda>r. key r = k) rs"

definition update_where :: "('r \<Rightarrow> bool) \<Rightarrow> ('r \<Rightarrow> 'r) \<Rightarrow> 'r list \<Rightarrow> 'r list" where
  "update_where P f rs = map (\<lambda>r. if P r then f r else r) rs"

definition count_where :: "('r \<Rightarrow> bool) \<Rightarrow> 'r list \<Rightarrow> nat" where
  "count_where P rs = length (filter P rs)"

lemma lookup_simps [simp]:
  "lookup key k [] = None"
  "lookup key k (r # rs) = (if key r = k then Some r else lookup key k rs)"
  by (simp_all add: lookup_def)

lemma update_where_simps [simp]:
  "update_where P f [] = []"
  "update_where P f (r # rs) = (if P r then f r else r) # update_where P f rs"
  by (simp_all add: update_where_def)

lemma count_where_simps [simp]:
  "count_where P [] = 0"
  "count_where P (r # rs) = (if P r then Suc (count_where P rs) else count_where P rs)"
  by (simp_all add: count_where_def)

lemma lookup_in_set: "lookup key k rs = Some r \<Longrightarrow> r \<in> set rs \<and> key r = k"
  by (induction rs) (auto split: if_splits)

lemma lookup_None_iff: "lookup key k rs = None \<longleftrightarrow> k \<notin> key ` set rs"
  by (induction rs) auto

lemma lookup_of_set:
  "distinct (map key rs) \<Longrightarrow> r \<in> set rs \<Longrightarrow> lookup key (key r) rs = Some r"
  by (induction rs) (auto simp: image_iff)

lemma lookup_append:
  "lookup key k (xs @ ys) = (case lookup key k xs of None \<Rightarrow> lookup key k ys | Some r \<Rightarrow> Some r)"
  by (induction xs) auto

lemma keys_update_where:
  "(\<And>r. P r \<Longrightarrow> key (f r) = key r) \<Longrightarrow> map key (update_where P f rs) = map key rs"
  by (induction rs) auto

lemma lookup_update_where:
  assumes "\<And>r. P r \<Longrightarrow> key (f r) = key r"
  shows "lookup key k (update_where P f rs) =
    map_option (\<lambda>r. if P r then f r else r) (lookup key k rs)"
  using assms by (induction rs) auto

lemma count_where_0_iff: "count_where P rs = 0 \<longleftrightarrow> (\<forall>r \<in> set rs. \<not> P r)"
  by (induction rs) auto

lemma update_where_idle: "(\<forall>r \<in> set rs. \<not> P r) \<Longrightarrow> update_where P f rs = rs"
  by (induction rs) auto

text \<open>A statement that names one key touches at most that row: when the keys are distinct, the
  number of affected rows is 1 or 0 according to the row that \<open>lookup\<close> finds.\<close>

lemma count_where_key:
  assumes "distinct (map key rs)"
  shows "count_where (\<lambda>r. key r = k \<and> Q r) rs =
    (case lookup key k rs of None \<Rightarrow> 0 | Some r \<Rightarrow> if Q r then 1 else 0)"
  using assms
proof (induction rs)
  case Nil
  then show ?case by simp
next
  case (Cons r rs)
  show ?case
  proof (cases "key r = k")
    case True
    with Cons.prems have "\<forall>x \<in> set rs. \<not> (key x = k \<and> Q x)" by (auto simp: image_iff)
    then have "count_where (\<lambda>r. key r = k \<and> Q r) rs = 0" by (simp add: count_where_0_iff)
    with True show ?thesis by simp
  next
    case False
    with Cons show ?thesis by simp
  qed
qed

lemma lookup_other_key:
  assumes "\<And>r. key (f r) = key r"
  shows "lookup key k' (update_where (\<lambda>r. key r = k \<and> Q r) f rs) =
    (if k' = k then map_option (\<lambda>r. if Q r then f r else r) (lookup key k rs)
     else lookup key k' rs)"
proof -
  have "lookup key k' (update_where (\<lambda>r. key r = k \<and> Q r) f rs) =
      map_option (\<lambda>r. if key r = k \<and> Q r then f r else r) (lookup key k' rs)"
    by (rule lookup_update_where) (simp add: assms)
  then show ?thesis
    by (cases "lookup key k' rs") (auto dest: lookup_in_set)
qed

text \<open>Sums over a table: what an \<open>UPDATE\<close> of one row does to a per-row measure.\<close>

lemma sum_list_update_where:
  assumes "\<And>r. P r \<Longrightarrow> m (f r) = m r + d"
  shows "sum_list (map m (update_where P f rs)) =
    sum_list (map m rs) + int (count_where P rs) * (d :: int)"
  using assms by (induction rs) (auto simp: algebra_simps)

lemma sum_list_update_key:
  fixes m :: "'r \<Rightarrow> int"
  assumes dist: "distinct (map key rs)" and row: "lookup key k rs = Some r"
  shows "sum_list (map m (update_where (\<lambda>x. key x = k) f rs)) = sum_list (map m rs) + (m (f r) - m r)"
  using assms
proof (induction rs)
  case Nil
  then show ?case by simp
next
  case (Cons x xs)
  show ?case
  proof (cases "key x = k")
    case True
    with Cons.prems have "\<forall>y \<in> set xs. key y \<noteq> k" by (auto simp: image_iff)
    then have "update_where (\<lambda>x. key x = k) f xs = xs" by (simp add: update_where_idle)
    with True Cons.prems show ?thesis by simp
  next
    case False
    with Cons show ?thesis by simp
  qed
qed

lemma sum_list_filter_nonneg:
  "(\<And>x. x \<in> set xs \<Longrightarrow> (0 :: int) \<le> m x) \<Longrightarrow> 0 \<le> sum_list (map m xs)"
  by (induction xs) auto

lemma member_le_sum_list_int:
  fixes m :: "'r \<Rightarrow> int"
  assumes "\<And>x. x \<in> set xs \<Longrightarrow> 0 \<le> m x" and "y \<in> set xs"
  shows "m y \<le> sum_list (map m xs)"
  using assms
proof (induction xs)
  case Nil
  then show ?case by simp
next
  case (Cons x xs)
  have "0 \<le> sum_list (map m xs)" by (rule sum_list_filter_nonneg) (simp add: Cons.prems)
  with Cons show ?case by fastforce
qed

section \<open>Results\<close>

text \<open>A Go call returns a value or an error: \<open>Inr\<close> the value, \<open>Inl\<close> the error.\<close>

definition is_ok :: "'e + 'a \<Rightarrow> bool" where
  "is_ok r = (case r of Inl _ \<Rightarrow> False | Inr _ \<Rightarrow> True)"

lemma is_ok_simps [simp]: "is_ok (Inr a)" "\<not> is_ok (Inl e)"
  by (simp_all add: is_ok_def)

lemma is_ok_iff: "is_ok r \<longleftrightarrow> (\<exists>a. r = Inr a)"
  by (cases r) auto

text \<open>\<open>x, err := f(); if err != nil { return ..., err }\<close> as a bind, for chains of such steps.\<close>

definition try_bind :: "'e + 'a \<Rightarrow> ('a \<Rightarrow> 'e + 'b) \<Rightarrow> 'e + 'b" where
  "try_bind r f = (case r of Inl e \<Rightarrow> Inl e | Inr a \<Rightarrow> f a)"

definition some_or :: "'e \<Rightarrow> 'a option \<Rightarrow> 'e + 'a" where
  "some_or e x = (case x of None \<Rightarrow> Inl e | Some a \<Rightarrow> Inr a)"

lemma try_bind_simps [simp]: "try_bind (Inl e) f = Inl e" "try_bind (Inr a) f = f a"
  by (simp_all add: try_bind_def)

lemma some_or_simps [simp]: "some_or e None = Inl e" "some_or e (Some a) = Inr a"
  by (simp_all add: some_or_def)

lemma try_bind_Inr [simp]: "try_bind r f = Inr b \<longleftrightarrow> (\<exists>a. r = Inr a \<and> f a = Inr b)"
  by (cases r) simp_all

lemma some_or_Inr [simp]: "some_or e x = Inr a \<longleftrightarrow> x = Some a"
  by (cases x) simp_all

end
