(* ===== verification/Go_Runtime.thy ===== *)
theory Go_Runtime
  imports Prelude
begin

text \<open>
  What the code uses of the Go language and its standard library: error chains
  (\<open>errors.Is\<close>, \<open>fmt.Errorf\<close> with \<open>%w\<close>, \<open>errors.Join\<close>), \<open>strconv\<close>
  (\<open>Itoa\<close>, \<open>Atoi\<close>, \<open>ParseInt\<close> on 64 bits), \<open>strings\<close> (\<open>ToLower\<close>,
  \<open>TrimSpace\<close>), \<open>time.Time\<close> and 64-bit wrap-around. Third-party code (google/uuid,
  the Unicode tables, the ids Redis gives its stream entries, the C library's number parser,
  the calendar text of a time) is a parameter, the record
  \<open>ext\<close>.
\<close>

section \<open>Third-party code, as parameters\<close>

record ext =
  uuid_String :: "uuid \<Rightarrow> string"
  uuid_Parse :: "string \<Rightarrow> uuid option"
  unicode_ToLower :: "string \<Rightarrow> string"
  unicode_TrimSpace :: "string \<Rightarrow> string"
  redis_StreamID :: "nat \<Rightarrow> string"
  lua_IsNumber :: "string \<Rightarrow> bool"
  time_RFC3339 :: "int \<Rightarrow> string"

text \<open>google/uuid documents that \<open>Parse\<close> decodes the form \<open>String\<close> returns.\<close>

definition uuid_codec :: "ext \<Rightarrow> bool" where
  "uuid_codec X \<longleftrightarrow> (\<forall>u. uuid_Parse X (uuid_String X u) = Some u)"

section \<open>Signed 64-bit integers\<close>

text \<open>Go's \<open>int\<close> and \<open>int64\<close> are 64 bits wide on the deployment platforms; arithmetic wraps.
  A value is an \<open>int\<close> in range, and each arithmetic operation that can leave the range is
  followed by \<open>wrap64\<close>.\<close>

definition in_int64 :: "int \<Rightarrow> bool" where
  "in_int64 i \<longleftrightarrow> - (2 ^ 63) \<le> i \<and> i < 2 ^ 63"

definition wrap64 :: "int \<Rightarrow> int" where
  "wrap64 i = (i + 2 ^ 63) mod 2 ^ 64 - 2 ^ 63"

lemma in_int64_wrap64: "in_int64 (wrap64 i)"
proof -
  have "0 \<le> (i + 2 ^ 63) mod 2 ^ 64" and "(i + 2 ^ 63) mod 2 ^ 64 < 2 ^ 64" by simp_all
  then show ?thesis by (simp add: in_int64_def wrap64_def)
qed

lemma wrap64_id: "in_int64 i \<Longrightarrow> wrap64 i = i"
  by (simp add: in_int64_def wrap64_def mod_pos_pos_trivial)

section \<open>strconv\<close>

definition digit_char :: "nat \<Rightarrow> char" where
  "digit_char d = char_of (48 + d)"

definition is_digit :: "char \<Rightarrow> bool" where
  "is_digit c \<longleftrightarrow> 48 \<le> (of_char c :: nat) \<and> (of_char c :: nat) \<le> 57"

definition digit_val :: "char \<Rightarrow> nat" where
  "digit_val c = of_char c - 48"

fun show_nat :: "nat \<Rightarrow> string" where
  "show_nat n = (if n < 10 then [digit_char n] else show_nat (n div 10) @ [digit_char (n mod 10)])"

declare show_nat.simps [simp del]

definition dec_val :: "string \<Rightarrow> nat" where
  "dec_val s = foldl (\<lambda>a c. 10 * a + digit_val c) 0 s"

definition strconv_Itoa :: "int \<Rightarrow> string" where
  "strconv_Itoa i = (if i < 0 then CHR ''-'' # show_nat (nat (- i)) else show_nat (nat i))"

text \<open>\<open>strconv.ParseInt(s, 10, 64)\<close>, which \<open>strconv.Atoi\<close> equals on a 64-bit platform: an optional
  sign, at least one digit, digits only, and a value in range.\<close>

definition strconv_ParseInt :: "string \<Rightarrow> int option" where
  "strconv_ParseInt s = (case s of [] \<Rightarrow> None | c # cs \<Rightarrow>
     (let neg = (c = CHR ''-'');
          body = (if c = CHR ''-'' \<or> c = CHR ''+'' then cs else s)
      in if body = [] \<or> \<not> list_all is_digit body then None
         else let v = int (dec_val body); i = (if neg then - v else v)
              in if in_int64 i then Some i else None))"

text \<open>Lua's \<open>tonumber\<close> (the C library's \<open>strtod\<close>) reads every non-empty string of digits.\<close>

definition lua_numbers :: "ext \<Rightarrow> bool" where
  "lua_numbers X \<longleftrightarrow> (\<forall>s. s \<noteq> [] \<and> list_all is_digit s \<longrightarrow> lua_IsNumber X s)"

lemma of_char_digit_char: "d < 10 \<Longrightarrow> (of_char (digit_char d) :: nat) = 48 + d"
  by (simp add: digit_char_def)

lemma is_digit_digit_char: "d < 10 \<Longrightarrow> is_digit (digit_char d)"
  by (simp add: is_digit_def of_char_digit_char)

lemma digit_val_digit_char: "d < 10 \<Longrightarrow> digit_val (digit_char d) = d"
  by (simp add: digit_val_def of_char_digit_char)

lemma digit_val_bound: "is_digit c \<Longrightarrow> digit_val c \<le> 9"
  unfolding is_digit_def digit_val_def by linarith

lemma digit_char_digit_val: "is_digit c \<Longrightarrow> digit_char (digit_val c) = c"
  by (simp add: is_digit_def digit_val_def digit_char_def)

lemma dec_val_Nil [simp]: "dec_val [] = 0"
  by (simp add: dec_val_def)

lemma dec_val_snoc: "dec_val (s @ [c]) = 10 * dec_val s + digit_val c"
  by (simp add: dec_val_def)

lemma show_nat_nonempty: "show_nat n \<noteq> []"
  by (subst show_nat.simps) simp

lemma show_nat_digits: "list_all is_digit (show_nat n)"
proof (induction n rule: show_nat.induct)
  case (1 n)
  show ?case
  proof (cases "n < 10")
    case True
    then show ?thesis by (subst show_nat.simps) (simp add: is_digit_digit_char)
  next
    case False
    with 1 have "list_all is_digit (show_nat (n div 10))" by simp
    with False show ?thesis by (subst show_nat.simps) (simp add: is_digit_digit_char)
  qed
qed

lemma dec_val_show_nat: "dec_val (show_nat n) = n"
proof (induction n rule: show_nat.induct)
  case (1 n)
  show ?case
  proof (cases "n < 10")
    case True
    then show ?thesis
      by (subst show_nat.simps) (simp add: dec_val_def digit_val_digit_char)
  next
    case False
    with 1 have "dec_val (show_nat (n div 10)) = n div 10" by simp
    with False show ?thesis
      by (subst show_nat.simps) (simp add: dec_val_snoc digit_val_digit_char)
  qed
qed

lemma show_nat_no_sign:
  assumes "show_nat n = c # cs"
  shows "c \<noteq> CHR ''-'' \<and> c \<noteq> CHR ''+''"
proof -
  have "is_digit c" using show_nat_digits [of n] assms by simp
  then show ?thesis by (auto simp: is_digit_def)
qed

lemma ParseInt_Itoa:
  assumes "in_int64 i"
  shows "strconv_ParseInt (strconv_Itoa i) = Some i"
proof (cases "i < 0")
  case True
  then show ?thesis using assms
    by (simp add: strconv_ParseInt_def strconv_Itoa_def show_nat_nonempty show_nat_digits
        dec_val_show_nat)
next
  case False
  obtain c cs where c: "show_nat (nat i) = c # cs"
    by (cases "show_nat (nat i)") (auto simp: show_nat_nonempty)
  have "list_all is_digit (c # cs)" and "dec_val (c # cs) = nat i"
    using show_nat_digits [of "nat i"] dec_val_show_nat [of "nat i"] by (simp_all add: c)
  with False assms show_nat_no_sign [OF c] show ?thesis
    by (simp add: strconv_ParseInt_def strconv_Itoa_def c)
qed

lemma ParseInt_range: "strconv_ParseInt s = Some i \<Longrightarrow> in_int64 i"
  by (auto simp: strconv_ParseInt_def Let_def split: list.splits if_splits)

lemma ParseInt_digits:
  assumes "s \<noteq> []" and "list_all is_digit s" and "dec_val s < 2 ^ 63"
  shows "strconv_ParseInt s = Some (int (dec_val s))"
proof -
  obtain c cs where s: "s = c # cs" using assms(1) by (cases s) auto
  with assms(2) have "c \<noteq> CHR ''-''" and "c \<noteq> CHR ''+''" by (auto simp: is_digit_def)
  moreover have "in_int64 (int (dec_val s))"
    using assms(3) by (simp add: in_int64_def)
  ultimately show ?thesis using assms(2) by (simp add: strconv_ParseInt_def s)
qed

section \<open>strings\<close>

definition is_ascii :: "string \<Rightarrow> bool" where
  "is_ascii s \<longleftrightarrow> list_all (\<lambda>c. (of_char c :: nat) < 128) s"

definition ascii_lower :: "char \<Rightarrow> char" where
  "ascii_lower c = (if 65 \<le> (of_char c :: nat) \<and> (of_char c :: nat) \<le> 90
     then char_of ((of_char c :: nat) + 32) else c)"

text \<open>\<open>strings.ToLower\<close> has a fast path for ASCII strings and maps runes otherwise.\<close>

definition strings_ToLower :: "ext \<Rightarrow> string \<Rightarrow> string" where
  "strings_ToLower X s = (if is_ascii s then map ascii_lower s else unicode_ToLower X s)"

text \<open>Lower-casing leaves no upper-case ASCII letter.\<close>

definition unicode_lowers :: "ext \<Rightarrow> bool" where
  "unicode_lowers X \<longleftrightarrow> (\<forall>s. list_all (\<lambda>c. \<not> (65 \<le> (of_char c :: nat) \<and> (of_char c :: nat) \<le> 90)) (unicode_ToLower X s))"

lemma ascii_lower_not_upper: "\<not> (65 \<le> (of_char (ascii_lower c) :: nat) \<and> (of_char (ascii_lower c) :: nat) \<le> 90)"
  by (auto simp: ascii_lower_def)

definition ascii_space :: "char \<Rightarrow> bool" where
  "ascii_space c \<longleftrightarrow> c = CHR '' '' \<or> (9 \<le> (of_char c :: nat) \<and> (of_char c :: nat) \<le> 13)"

text \<open>\<open>strings.TrimSpace\<close> has a fast path for ASCII strings too.\<close>

definition strings_TrimSpace :: "ext \<Rightarrow> string \<Rightarrow> string" where
  "strings_TrimSpace X s = (if is_ascii s then rev (dropWhile ascii_space (rev (dropWhile ascii_space s))) else unicode_TrimSpace X s)"

text \<open>\<open>strings.TrimSpace(s) == ""\<close>.\<close>

definition strings_IsBlank :: "ext \<Rightarrow> string \<Rightarrow> bool" where
  "strings_IsBlank X s \<longleftrightarrow> strings_TrimSpace X s = ''''"

section \<open>time\<close>

text \<open>A \<open>time.Time\<close> is the number of nanoseconds since Go's zero time (January 1 of year 1, UTC),
  so \<open>IsZero\<close> is being 0, \<open>After\<close> is \<open>>\<close>, and a \<open>time.Duration\<close> is a difference.\<close>

type_synonym time = int
type_synonym duration = int

abbreviation second :: duration where
  "second \<equiv> 1000000000"

abbreviation unix_to_internal :: int where
  "unix_to_internal \<equiv> 62135596800"

definition time_Unix :: "int \<Rightarrow> time" where
  "time_Unix s = (s + unix_to_internal) * second"

definition Unix_of :: "time \<Rightarrow> int" where
  "Unix_of t = t div second - unix_to_internal"

lemma Unix_of_time_Unix [simp]: "Unix_of (time_Unix s) = s"
  by (simp add: Unix_of_def time_Unix_def)

lemma time_Unix_Unix_of_le: "time_Unix (Unix_of t) \<le> t"
proof -
  have "t div second * second \<le> t" by (simp add: minus_mod_eq_div_mult [symmetric])
  then show ?thesis by (simp add: Unix_of_def time_Unix_def)
qed

section \<open>An instance of the parameters\<close>

text \<open>Concrete functions with the documented laws: they show that the laws can hold together.\<close>

definition plain_ext :: ext where
  "plain_ext = \<lparr>uuid_String = (\<lambda>u. show_nat (unat u)), uuid_Parse = (\<lambda>s. Some (of_nat (dec_val s))),
     unicode_ToLower = map ascii_lower, unicode_TrimSpace = (\<lambda>s. s), redis_StreamID = show_nat,
     lua_IsNumber = (\<lambda>s. s \<noteq> [] \<and> list_all is_digit s),
     time_RFC3339 = (\<lambda>t. show_nat (nat t))\<rparr>"

lemma plain_ext_laws: "uuid_codec plain_ext" "lua_numbers plain_ext" "unicode_lowers plain_ext"
  using ascii_lower_not_upper
  by (simp_all add: plain_ext_def uuid_codec_def lua_numbers_def dec_val_show_nat unicode_lowers_def
      list_all_iff)

end
