(* ===== verification/Domain_Errors.thy ===== *)
theory Domain_Errors
  imports Go_Runtime
begin

text \<open>
  The error values of the program. A Go error is a chain: a sentinel, a wrapped error
  (\<open>fmt.Errorf("...: %w", err)\<close>; the formatted ids of the message are left out) or a join.
  \<open>errors_Is\<close> is \<open>errors.Is\<close>. The sentinels are those of \<open>internal/domain\<close>,
  \<open>application/payment\<close>, \<open>application/booking\<close> and \<open>application/expiry\<close>, and the failures
  of the infrastructure that the code tells apart: a PostgreSQL unique violation (SQLSTATE 23505)
  and a check violation, an unreachable database, Redis or gateway, a cancelled context.
\<close>

datatype sentinel =
    ErrOrderNotFound
  | ErrInvalidOrderID | ErrInvalidUserID | ErrInvalidEventID | ErrInvalidQuantity
  | ErrInvalidReservedUntil | ErrInvalidAmountCents | ErrInvalidCurrency
  | ErrInvalidOrderTicketTypeID
  | ErrInvalidTransition | ErrReservationExpired
  | ErrEventNotFound | ErrSoldOut | ErrUserAlreadyBought
  | ErrInvalidEventName | ErrInvalidTotalTickets
  | ErrTicketTypeNotFound | ErrTicketTypeNameTaken | ErrTicketTypeSoldOut
  | ErrInvalidTicketTypeID | ErrInvalidTicketTypeEventID | ErrInvalidTicketTypeName
  | ErrInvalidTicketTypePrice | ErrInvalidTicketTypeCurrency | ErrInvalidTicketTypeTotal | ErrInvalidTicketTypeAvailable
  | ErrInvalidTicketTypeSaleWindow | ErrInvalidTicketTypePerUser
  | ErrTicketTypeRuntimeMetadataMissing
  | ErrOrderNotAwaitingPayment | ErrOrderMissingPriceSnapshot
  | ErrPaymentDeclined | ErrPaymentTransient | ErrPaymentMisconfigured | ErrPaymentInvalid
  | ErrSignatureMissing | ErrSignatureMalformed | ErrSignatureSkewExceeded | ErrSignatureMismatch
  | ErrConfigError
  | ErrWebhookUnknownIntent | ErrWebhookIntentMismatch | ErrWebhookUnexpectedStatus
  | ErrStage5PublishFailed | ErrCompensateNotEligible
  | ErrOutboxCreateFailed | ErrShutdownDuringBackoff | ErrUnexpectedLuaResult
  | PgUniqueViolation | PgCheckViolation
  | DbUnavailable | RedisUnavailable | GatewayUnavailable | BrokerUnavailable
  | ContextCanceled | ContextDeadlineExceeded

datatype err =
    Sentinel sentinel
  | Plain string
  | Wrap string err
  | Join "err list"

primrec errors_Is :: "err \<Rightarrow> sentinel \<Rightarrow> bool" where
  "errors_Is (Sentinel t) s = (t = s)"
| "errors_Is (Plain m) s = False"
| "errors_Is (Wrap m e) s = errors_Is e s"
| "errors_Is (Join es) s = list_ex (\<lambda>b. b) (map (\<lambda>e. errors_Is e s) es)"

definition IsMalformedOrderInput :: "err \<Rightarrow> bool" where
  "IsMalformedOrderInput e \<longleftrightarrow>
     errors_Is e ErrInvalidOrderID \<or>
     errors_Is e ErrInvalidUserID \<or>
     errors_Is e ErrInvalidEventID \<or>
     errors_Is e ErrInvalidQuantity \<or>
     errors_Is e ErrInvalidReservedUntil \<or>
     errors_Is e ErrInvalidAmountCents \<or>
     errors_Is e ErrInvalidCurrency \<or>
     errors_Is e ErrInvalidOrderTicketTypeID"

lemma IsMalformed_Wrap [simp]: "IsMalformedOrderInput (Wrap m e) = IsMalformedOrderInput e"
  by (simp add: IsMalformedOrderInput_def)

lemma IsMalformed_Sentinel [simp]:
  "IsMalformedOrderInput (Sentinel s) \<longleftrightarrow>
     s \<in> {ErrInvalidOrderID, ErrInvalidUserID, ErrInvalidEventID, ErrInvalidQuantity,
          ErrInvalidReservedUntil, ErrInvalidAmountCents, ErrInvalidCurrency,
          ErrInvalidOrderTicketTypeID}"
  by (auto simp: IsMalformedOrderInput_def)

end
