(* ===== verification/Domain_Order.thy ===== *)
theory Domain_Order
  imports Domain_Errors
begin

text \<open>
  \<open>internal/domain/order.go\<close> and \<open>currency.go\<close>: the order aggregate, its two factories and its
  status machine. The transition methods are stated once as a contract, the locale
  \<open>status_machine\<close>: a transition succeeds exactly on the edges of the graph documented at
  \<open>ErrInvalidTransition\<close>. Its consequences (terminal statuses are final, a life has at most
  three transitions, no life visits both a success and a failure) are proved inside the locale
  and hold for every provider; this theory interprets it on the methods of \<open>Order\<close>, and
  \<open>Postgres\<close> interprets it on the SQL transitions of a row.
\<close>

section \<open>Statuses\<close>

datatype order_status =
    Confirmed | Pending | Charging | Failed
  | AwaitingPayment | Paid | Expired | PaymentFailed
  | Compensated

instantiation order_status :: enum
begin

definition enum_order_status :: "order_status list" where
  "enum_order_status =
     [Confirmed, Pending, Charging, Failed, AwaitingPayment, Paid, Expired, PaymentFailed, Compensated]"

definition enum_all_order_status :: "(order_status \<Rightarrow> bool) \<Rightarrow> bool" where
  "enum_all_order_status P \<longleftrightarrow> list_all P enum_class.enum"

definition enum_ex_order_status :: "(order_status \<Rightarrow> bool) \<Rightarrow> bool" where
  "enum_ex_order_status P \<longleftrightarrow> list_ex P enum_class.enum"

instance
proof
  show univ: "(UNIV :: order_status set) = set enum_class.enum"
    by (auto simp: enum_order_status_def intro: order_status.exhaust)
  show "distinct (enum_class.enum :: order_status list)"
    by (simp add: enum_order_status_def)
  show "enum_class.enum_all P \<longleftrightarrow> Ball UNIV P" for P :: "order_status \<Rightarrow> bool"
    by (simp add: univ enum_all_order_status_def list_all_iff)
  show "enum_class.enum_ex P \<longleftrightarrow> Bex UNIV P" for P :: "order_status \<Rightarrow> bool"
    by (simp add: univ enum_ex_order_status_def list_ex_iff)
qed

end

text \<open>The wire form: the string constants, and the conversion \<open>OrderStatus(s)\<close> of a recognised
  string.\<close>

primrec status_string :: "order_status \<Rightarrow> string" where
  "status_string Confirmed = ''confirmed''"
| "status_string Pending = ''pending''"
| "status_string Charging = ''charging''"
| "status_string Failed = ''failed''"
| "status_string AwaitingPayment = ''awaiting_payment''"
| "status_string Paid = ''paid''"
| "status_string Expired = ''expired''"
| "status_string PaymentFailed = ''payment_failed''"
| "status_string Compensated = ''compensated''"

definition status_of_string :: "string \<Rightarrow> order_status option" where
  "status_of_string s = find (\<lambda>t. status_string t = s) enum_class.enum"

definition IsValid :: "string \<Rightarrow> bool" where
  "IsValid s \<longleftrightarrow>
     s \<in> set [''confirmed'', ''pending'', ''charging'', ''failed''] \<or>
     s \<in> set [''awaiting_payment'', ''paid'', ''expired'', ''payment_failed''] \<or>
     s = ''compensated''"

lemma status_of_string_status [simp]: "status_of_string (status_string t) = Some t"
  by (cases t) (simp_all add: status_of_string_def enum_order_status_def)

lemma status_of_string_Some: "status_of_string s = Some t \<Longrightarrow> status_string t = s"
  by (auto simp: status_of_string_def find_Some_iff)

lemma IsValid_iff: "IsValid s \<longleftrightarrow> (\<exists>t. status_of_string s = Some t)"
proof
  assume "IsValid s"
  then have "\<exists>t. s = status_string t"
    unfolding IsValid_def by (auto intro: exI [of _ Confirmed] exI [of _ Pending]
        exI [of _ Charging] exI [of _ Failed] exI [of _ AwaitingPayment] exI [of _ Paid]
        exI [of _ Expired] exI [of _ PaymentFailed] exI [of _ Compensated])
  then show "\<exists>t. status_of_string s = Some t" by auto
next
  assume "\<exists>t. status_of_string s = Some t"
  then obtain t where "s = status_string t" by (auto dest: status_of_string_Some)
  then show "IsValid s" by (cases t) (simp_all add: IsValid_def)
qed

section \<open>The transition graph\<close>

datatype mark_op =
    MarkCharging | MarkConfirmed | MarkFailed | MarkCompensated
  | MarkAwaitingPayment | MarkPaid | MarkExpired | MarkPaymentFailed

text \<open>The graph in the documentation of \<open>ErrInvalidTransition\<close>.\<close>

inductive edge :: "order_status \<Rightarrow> mark_op \<Rightarrow> order_status \<Rightarrow> bool" where
  "edge Pending MarkAwaitingPayment AwaitingPayment"
| "edge AwaitingPayment MarkPaid Paid"
| "edge AwaitingPayment MarkExpired Expired"
| "edge AwaitingPayment MarkPaymentFailed PaymentFailed"
| "edge Expired MarkCompensated Compensated"
| "edge PaymentFailed MarkCompensated Compensated"
| "edge Pending MarkCharging Charging"
| "edge Pending MarkConfirmed Confirmed"
| "edge Pending MarkFailed Failed"
| "edge Charging MarkConfirmed Confirmed"
| "edge Charging MarkFailed Failed"
| "edge Failed MarkCompensated Compensated"

code_pred edge .

inductive_cases edge_from_terminal [elim!]:
  "edge Paid m s" "edge Confirmed m s" "edge Compensated m s"
inductive_simps edge_simps: "edge s m t"

definition terminal :: "order_status \<Rightarrow> bool" where
  "terminal s \<longleftrightarrow> s \<in> {Paid, Confirmed, Compensated}"

definition success :: "order_status \<Rightarrow> bool" where
  "success s \<longleftrightarrow> s \<in> {Paid, Confirmed}"

definition failure :: "order_status \<Rightarrow> bool" where
  "failure s \<longleftrightarrow> s \<in> {Failed, Expired, PaymentFailed, Compensated}"

text \<open>A status's depth in the graph: every edge increases it, and it is at most 3.\<close>

primrec depth :: "order_status \<Rightarrow> nat" where
  "depth Pending = 0"
| "depth Charging = 1"
| "depth AwaitingPayment = 1"
| "depth Failed = 2"
| "depth Expired = 2"
| "depth PaymentFailed = 2"
| "depth Confirmed = 3"
| "depth Paid = 3"
| "depth Compensated = 3"

lemma depth_le_3: "depth s \<le> 3"
  by (cases s) simp_all

lemma edge_depth: "edge s m t \<Longrightarrow> depth s < depth t"
  by (auto simp: edge_simps)

lemma edge_deterministic: "edge s m t \<Longrightarrow> edge s m t' \<Longrightarrow> t = t'"
  by (auto simp: edge_simps)

lemma no_edge_from_terminal: "terminal s \<Longrightarrow> \<not> edge s m t"
  by (auto simp: terminal_def)

lemma edge_failure: "edge s m t \<Longrightarrow> failure s \<Longrightarrow> failure t"
  by (auto simp: edge_simps failure_def)

lemma non_terminal_has_edge: "\<not> terminal s \<Longrightarrow> \<exists>m t. edge s m t"
  by (cases s) (auto simp: edge_simps terminal_def)

section \<open>The contract of the transitions\<close>

text \<open>A life: a sequence of transitions, each of which succeeded.\<close>

fun life :: "('m \<Rightarrow> 's \<Rightarrow> err + 's) \<Rightarrow> 's \<Rightarrow> 'm list \<Rightarrow> 's option" where
  "life mark s [] = Some s"
| "life mark s (m # ms) = (case mark m s of Inl _ \<Rightarrow> None | Inr s' \<Rightarrow> life mark s' ms)"

locale status_machine =
  fixes status_of :: "'s \<Rightarrow> order_status"
    and mark :: "mark_op \<Rightarrow> 's \<Rightarrow> err + 's"
  assumes mark_ok: "mark m s = Inr s' \<Longrightarrow> edge (status_of s) m (status_of s')"
begin

lemma life_depth: "life mark s ms = Some s' \<Longrightarrow> depth (status_of s) + length ms \<le> depth (status_of s')"
proof (induction ms arbitrary: s)
  case Nil
  then show ?case by simp
next
  case (Cons m ms)
  then obtain s1 where s1: "mark m s = Inr s1" and rest: "life mark s1 ms = Some s'"
    by (auto split: sum.splits)
  have "depth (status_of s) < depth (status_of s1)" by (rule edge_depth [OF mark_ok [OF s1]])
  moreover have "depth (status_of s1) + length ms \<le> depth (status_of s')"
    using rest by (rule Cons.IH)
  ultimately show ?case by simp
qed

lemma life_at_most_three: "life mark s ms = Some s' \<Longrightarrow> length ms \<le> 3"
  using life_depth [of s ms s'] depth_le_3 [of "status_of s'"] by linarith

lemma terminal_final: "terminal (status_of s) \<Longrightarrow> life mark s ms = Some s' \<Longrightarrow> ms = [] \<and> s' = s"
proof (cases ms)
  case (Cons m ms')
  assume t: "terminal (status_of s)" and l: "life mark s ms = Some s'"
  from l Cons obtain s1 where "mark m s = Inr s1" by (auto split: sum.splits)
  then have "edge (status_of s) m (status_of s1)" by (rule mark_ok)
  with no_edge_from_terminal [OF t] show ?thesis by simp
qed simp

lemma failure_persists: "failure (status_of s) \<Longrightarrow> life mark s ms = Some s' \<Longrightarrow> failure (status_of s')"
proof (induction ms arbitrary: s)
  case Nil
  then show ?case by simp
next
  case (Cons m ms)
  then obtain s1 where s1: "mark m s = Inr s1" and rest: "life mark s1 ms = Some s'"
    by (auto split: sum.splits)
  have "failure (status_of s1)" by (rule edge_failure [OF mark_ok [OF s1] Cons.prems(1)])
  with rest show ?case by (intro Cons.IH)
qed

end

text \<open>A machine whose only failure is the rejected transition.\<close>

locale strict_status_machine = status_machine +
  assumes mark_rejects: "mark m s = Inl e \<Longrightarrow> errors_Is e ErrInvalidTransition"
begin

lemma mark_error_iff:
  "\<not> (\<exists>t. edge (status_of s) m t) \<Longrightarrow> \<exists>e. mark m s = Inl e \<and> errors_Is e ErrInvalidTransition"
  by (cases "mark m s") (auto dest: mark_ok mark_rejects)

end

section \<open>currency.go\<close>

definition NormalizeCurrency :: "ext \<Rightarrow> string \<Rightarrow> string" where
  "NormalizeCurrency X s = strings_ToLower X s"

definition isValidCurrencyCode :: "string \<Rightarrow> bool" where
  "isValidCurrencyCode s \<longleftrightarrow>
     length s = 3 \<and>
     list_all (\<lambda>c. let b = (of_char c :: nat) in
       \<not> ((b < 97 \<or> b > 122) \<and> (b < 65 \<or> b > 90))) s"

lemma ascii_lower_idem: "ascii_lower (ascii_lower c) = ascii_lower c"
  by (auto simp: ascii_lower_def)

lemma is_ascii_lower: "is_ascii s \<Longrightarrow> is_ascii (map ascii_lower s)"
  by (auto simp: is_ascii_def ascii_lower_def list_all_iff)

lemma currency_is_ascii: "isValidCurrencyCode s \<Longrightarrow> is_ascii s"
  by (auto simp: isValidCurrencyCode_def is_ascii_def list_all_iff Let_def)

lemma NormalizeCurrency_idem_ascii:
  "is_ascii s \<Longrightarrow> NormalizeCurrency X (NormalizeCurrency X s) = NormalizeCurrency X s"
  by (simp add: NormalizeCurrency_def strings_ToLower_def is_ascii_lower ascii_lower_idem)

lemma NormalizeCurrency_fixed:
  assumes "unicode_lowers X" and "is_ascii (NormalizeCurrency X s)"
  shows "NormalizeCurrency X (NormalizeCurrency X s) = NormalizeCurrency X s"
proof -
  have "list_all (\<lambda>c. \<not> (65 \<le> (of_char c :: nat) \<and> (of_char c :: nat) \<le> 90)) (NormalizeCurrency X s)"
    using assms(1) ascii_lower_not_upper
    by (auto simp: NormalizeCurrency_def strings_ToLower_def unicode_lowers_def list_all_iff)
  then have "map ascii_lower (NormalizeCurrency X s) = NormalizeCurrency X s"
    by (intro map_idI) (auto simp: ascii_lower_def list_all_iff)
  with assms(2) show ?thesis by (simp add: NormalizeCurrency_def [of X "NormalizeCurrency X s"] strings_ToLower_def)
qed

section \<open>The order aggregate\<close>

record order =
  id_of :: uuid
  eventID :: uuid
  userID :: int
  quantity :: int
  status :: order_status
  createdAt :: time
  reservedUntil :: time
  paymentIntentID :: string
  ticketTypeID :: uuid
  amountCents :: int
  currency :: string

text \<open>\<open>NewOrder\<close> and \<open>NewReservation\<close> read the clock once: \<open>now\<close> is \<open>time.Now()\<close>.\<close>

definition NewOrder :: "time \<Rightarrow> uuid \<Rightarrow> int \<Rightarrow> uuid \<Rightarrow> int \<Rightarrow> err + order" where
  "NewOrder now i user ev qty =
    (if i = uuid_Nil then Inl (Sentinel ErrInvalidOrderID)
     else if user \<le> 0 then Inl (Sentinel ErrInvalidUserID)
     else if ev = uuid_Nil then Inl (Sentinel ErrInvalidEventID)
     else if qty \<le> 0 then Inl (Sentinel ErrInvalidQuantity)
     else Inr \<lparr>id_of = i, eventID = ev, userID = user, quantity = qty, status = Pending,
               createdAt = now, reservedUntil = 0, paymentIntentID = '''',
               ticketTypeID = uuid_Nil, amountCents = 0, currency = ''''\<rparr>)"

definition NewReservation ::
    "ext \<Rightarrow> time \<Rightarrow> uuid \<Rightarrow> int \<Rightarrow> uuid \<Rightarrow> uuid \<Rightarrow> int \<Rightarrow> time \<Rightarrow> int \<Rightarrow> string \<Rightarrow> err + order" where
  "NewReservation X now i user ev tt qty until amount cur =
    (if i = uuid_Nil then Inl (Sentinel ErrInvalidOrderID)
     else if user \<le> 0 then Inl (Sentinel ErrInvalidUserID)
     else if ev = uuid_Nil then Inl (Sentinel ErrInvalidEventID)
     else if tt = uuid_Nil then Inl (Sentinel ErrInvalidOrderTicketTypeID)
     else if qty \<le> 0 then Inl (Sentinel ErrInvalidQuantity)
     else if until = 0 \<or> \<not> until > now then Inl (Sentinel ErrInvalidReservedUntil)
     else if amount \<le> 0 then Inl (Sentinel ErrInvalidAmountCents)
     else let cur' = NormalizeCurrency X cur
       in if \<not> isValidCurrencyCode cur' then Inl (Sentinel ErrInvalidCurrency)
          else Inr \<lparr>id_of = i, eventID = ev, userID = user, quantity = qty,
                    status = AwaitingPayment, createdAt = now, reservedUntil = until,
                    paymentIntentID = '''', ticketTypeID = tt, amountCents = amount,
                    currency = cur'\<rparr>)"

definition ReconstructOrder ::
    "uuid \<Rightarrow> int \<Rightarrow> uuid \<Rightarrow> uuid \<Rightarrow> int \<Rightarrow> order_status \<Rightarrow> time \<Rightarrow> time \<Rightarrow> string \<Rightarrow> int \<Rightarrow> string \<Rightarrow> order" where
  "ReconstructOrder i user ev tt qty st created until intent amount cur =
     \<lparr>id_of = i, eventID = ev, userID = user, quantity = qty, status = st,
      createdAt = created, reservedUntil = until, paymentIntentID = intent,
      ticketTypeID = tt, amountCents = amount, currency = cur\<rparr>"

definition HasPriceSnapshot :: "order \<Rightarrow> bool" where
  "HasPriceSnapshot o' \<longleftrightarrow> amountCents o' > 0 \<and> currency o' \<noteq> ''''"

text \<open>The eight transition methods of \<open>Order\<close>.\<close>

definition Order_MarkCharging :: "order \<Rightarrow> err + order" where
  "Order_MarkCharging o' = (if status o' \<noteq> Pending
     then Inl (Wrap ''cannot start charging'' (Sentinel ErrInvalidTransition))
     else Inr (o'\<lparr>status := Charging\<rparr>))"

definition Order_MarkConfirmed :: "order \<Rightarrow> err + order" where
  "Order_MarkConfirmed o' = (if status o' \<noteq> Pending \<and> status o' \<noteq> Charging
     then Inl (Wrap ''cannot confirm'' (Sentinel ErrInvalidTransition))
     else Inr (o'\<lparr>status := Confirmed\<rparr>))"

definition Order_MarkFailed :: "order \<Rightarrow> err + order" where
  "Order_MarkFailed o' = (if status o' \<noteq> Pending \<and> status o' \<noteq> Charging
     then Inl (Wrap ''cannot fail'' (Sentinel ErrInvalidTransition))
     else Inr (o'\<lparr>status := Failed\<rparr>))"

definition Order_MarkCompensated :: "order \<Rightarrow> err + order" where
  "Order_MarkCompensated o' =
    (if status o' \<noteq> Failed \<and> status o' \<noteq> Expired \<and> status o' \<noteq> PaymentFailed
     then Inl (Wrap ''cannot compensate'' (Sentinel ErrInvalidTransition))
     else Inr (o'\<lparr>status := Compensated\<rparr>))"

definition Order_MarkAwaitingPayment :: "order \<Rightarrow> err + order" where
  "Order_MarkAwaitingPayment o' = (if status o' \<noteq> Pending
     then Inl (Wrap ''cannot start awaiting_payment'' (Sentinel ErrInvalidTransition))
     else Inr (o'\<lparr>status := AwaitingPayment\<rparr>))"

definition Order_MarkPaid :: "order \<Rightarrow> err + order" where
  "Order_MarkPaid o' = (if status o' \<noteq> AwaitingPayment
     then Inl (Wrap ''cannot mark paid'' (Sentinel ErrInvalidTransition))
     else Inr (o'\<lparr>status := Paid\<rparr>))"

definition Order_MarkExpired :: "order \<Rightarrow> err + order" where
  "Order_MarkExpired o' = (if status o' \<noteq> AwaitingPayment
     then Inl (Wrap ''cannot expire'' (Sentinel ErrInvalidTransition))
     else Inr (o'\<lparr>status := Expired\<rparr>))"

definition Order_MarkPaymentFailed :: "order \<Rightarrow> err + order" where
  "Order_MarkPaymentFailed o' = (if status o' \<noteq> AwaitingPayment
     then Inl (Wrap ''cannot mark payment_failed'' (Sentinel ErrInvalidTransition))
     else Inr (o'\<lparr>status := PaymentFailed\<rparr>))"

fun Order_mark :: "mark_op \<Rightarrow> order \<Rightarrow> err + order" where
  "Order_mark MarkCharging o' = Order_MarkCharging o'"
| "Order_mark MarkConfirmed o' = Order_MarkConfirmed o'"
| "Order_mark MarkFailed o' = Order_MarkFailed o'"
| "Order_mark MarkCompensated o' = Order_MarkCompensated o'"
| "Order_mark MarkAwaitingPayment o' = Order_MarkAwaitingPayment o'"
| "Order_mark MarkPaid o' = Order_MarkPaid o'"
| "Order_mark MarkExpired o' = Order_MarkExpired o'"
| "Order_mark MarkPaymentFailed o' = Order_MarkPaymentFailed o'"

lemmas Order_Mark_defs [branch_defs] =
  Order_MarkCharging_def Order_MarkConfirmed_def Order_MarkFailed_def Order_MarkCompensated_def
  Order_MarkAwaitingPayment_def Order_MarkPaid_def Order_MarkExpired_def Order_MarkPaymentFailed_def

lemma Order_mark_edge:
  "Order_mark m o' = Inr o'' \<longleftrightarrow> edge (status o') m (status o'') \<and> o'' = o'\<lparr>status := status o''\<rparr>"
  by (cases m; cases "status o'"; cases "status o''"; auto simp: Order_Mark_defs edge_simps)

lemma Order_mark_Inl: "Order_mark m o' = Inl e \<Longrightarrow> errors_Is e ErrInvalidTransition"
  by (cases m) (auto simp: Order_Mark_defs split: if_splits)

interpretation order_life: strict_status_machine status Order_mark
  by unfold_locales (auto simp: Order_mark_edge dest: Order_mark_Inl)

section \<open>What the factories guarantee\<close>

definition valid_reservation :: "order \<Rightarrow> bool" where
  "valid_reservation o' \<longleftrightarrow>
     id_of o' \<noteq> uuid_Nil \<and> userID o' > 0 \<and> eventID o' \<noteq> uuid_Nil \<and>
     ticketTypeID o' \<noteq> uuid_Nil \<and> quantity o' > 0 \<and>
     status o' = AwaitingPayment \<and> reservedUntil o' > createdAt o' \<and> reservedUntil o' \<noteq> 0 \<and>
     paymentIntentID o' = '''' \<and> amountCents o' > 0 \<and> isValidCurrencyCode (currency o')"

lemma NewReservation_Inr:
  assumes "NewReservation X now i user ev tt qty until amount cur = Inr o'"
  shows "valid_reservation o' \<and> id_of o' = i \<and> userID o' = user \<and> eventID o' = ev \<and>
    ticketTypeID o' = tt \<and> quantity o' = qty \<and> reservedUntil o' = until \<and> createdAt o' = now \<and>
    amountCents o' = amount \<and> currency o' = NormalizeCurrency X cur"
  using assms
  by (auto simp: NewReservation_def valid_reservation_def Let_def split: if_splits)

lemma NewReservation_Inl:
  "NewReservation X now i user ev tt qty until amount cur = Inl e \<Longrightarrow> IsMalformedOrderInput e"
  by (auto simp: NewReservation_def Let_def split: if_splits)

lemma valid_reservation_price: "valid_reservation o' \<Longrightarrow> HasPriceSnapshot o'"
  by (auto simp: valid_reservation_def HasPriceSnapshot_def isValidCurrencyCode_def)

section \<open>Properties\<close>

text \<open>C4: the life of an order. However its transition methods are called, at most three calls succeed,
  an order in a terminal status never changes again, and an order that has failed, expired or
  been compensated never becomes paid or confirmed.\<close>

theorem order_life_bounded:
  assumes "life Order_mark o' ms = Some o''"
  shows "length ms \<le> 3 \<and> (terminal (status o') \<longrightarrow> ms = [] \<and> o'' = o') \<and>
    (failure (status o') \<longrightarrow> \<not> success (status o''))"
  using order_life.life_at_most_three [OF assms] order_life.terminal_final [OF _ assms]
    order_life.failure_persists [OF _ assms] by (auto simp: failure_def success_def)

definition demo_order :: order where
  "demo_order = \<lparr>id_of = 9, eventID = 3, userID = 7, quantity = 2, status = Pending, createdAt = 1,
     reservedUntil = 100, paymentIntentID = '''', ticketTypeID = 5, amountCents = 500, currency = ''usd''\<rparr>"

lemma order_life_bounded_witness:
  "life Order_mark demo_order [MarkAwaitingPayment, MarkExpired, MarkCompensated] =
     Some (demo_order\<lparr>status := Compensated\<rparr>) \<and>
   length [MarkAwaitingPayment, MarkExpired, MarkCompensated] \<le> 3 \<and> \<not> terminal (status demo_order)"
proof -
  have "life Order_mark demo_order [MarkAwaitingPayment, MarkExpired, MarkCompensated] =
     Some (demo_order\<lparr>status := Compensated\<rparr>)"
    by (simp add: demo_order_def Order_Mark_defs)
  with order_life_bounded [OF this] show ?thesis by simp
qed

text \<open>A transition method succeeds exactly on the edges of the documented graph, changes nothing but
  the status, and otherwise returns an error that is \<open>ErrInvalidTransition\<close>.\<close>

theorem transitions_follow_graph:
  "case Order_mark m o' of
     Inr o'' \<Rightarrow> edge (status o') m (status o'') \<and> o'' = o'\<lparr>status := status o''\<rparr>
   | Inl e \<Rightarrow> \<not> (\<exists>t. edge (status o') m t) \<and> errors_Is e ErrInvalidTransition"
proof (cases "Order_mark m o'")
  case (Inl e)
  have "\<not> edge (status o') m t" for t
  proof
    assume "edge (status o') m t"
    then have "Order_mark m o' = Inr (o'\<lparr>status := t\<rparr>)" by (simp add: Order_mark_edge)
    with Inl show False by simp
  qed
  with Inl Order_mark_Inl show ?thesis by auto
qed (simp add: Order_mark_edge [symmetric])

text \<open>The reservation factory accepts exactly the valid inputs, and classifies every rejection as
  malformed input, so that the worker does not retry it.\<close>

theorem NewReservation_decides:
  "case NewReservation X now i user ev tt qty until amount cur of
     Inr o' \<Rightarrow> valid_reservation o' \<and> createdAt o' = now \<and> currency o' = NormalizeCurrency X cur
   | Inl e \<Rightarrow> IsMalformedOrderInput e \<and>
      (i = uuid_Nil \<or> user \<le> 0 \<or> ev = uuid_Nil \<or> tt = uuid_Nil \<or> qty \<le> 0 \<or> until = 0 \<or> until \<le> now \<or>
       amount \<le> 0 \<or> \<not> isValidCurrencyCode (NormalizeCurrency X cur))"
proof (cases "NewReservation X now i user ev tt qty until amount cur")
  case (Inl e)
  with NewReservation_Inl [OF Inl] show ?thesis
    by (auto simp: NewReservation_def Let_def split: if_splits)
next
  case (Inr o')
  with NewReservation_Inr [OF Inr] show ?thesis by simp
qed

lemma NewReservation_decides_witness:
  "\<exists>o'. NewReservation plain_ext 1 9 7 3 5 2 100 500 ''USD'' = Inr o' \<and> valid_reservation o' \<and> createdAt o' = 1"
proof -
  have ok: "is_ok (NewReservation plain_ext 1 9 7 3 5 2 100 500 ''USD'')"
    by (simp add: NewReservation_def NormalizeCurrency_def strings_ToLower_def is_ascii_def ascii_lower_def
        isValidCurrencyCode_def)
  with NewReservation_decides [where X = plain_ext and now = 1 and i = 9 and user = 7 and ev = 3
      and tt = 5 and qty = 2 and until = 100 and amount = 500 and cur = "''USD''"] show ?thesis
    by (auto simp: is_ok_iff)
qed

end
