(* ===== verification/Domain_Catalog.thy ===== *)
theory Domain_Catalog
  imports Domain_Order
begin

text \<open>
  \<open>internal/domain/event.go\<close> and \<open>ticket_type.go\<close>: the event and ticket-type aggregates, their
  factories with every rejection in the code's order, the outbox event of a failed order
  (\<open>application/order_events.go\<close>) and the result of the Redis gate (\<open>inventory.go\<close>). A fresh
  UUIDv7 is an argument, \<open>None\<close> when the generator fails.
\<close>

section \<open>Events\<close>

record event =
  ev_id :: uuid
  ev_name :: string
  ev_totalTickets :: int
  ev_availableTickets :: int
  ev_version :: int

definition NewEvent :: "ext \<Rightarrow> uuid option \<Rightarrow> string \<Rightarrow> int \<Rightarrow> err + event" where
  "NewEvent X newv7 name tot =
    (if strings_IsBlank X name then Inl (Sentinel ErrInvalidEventName)
     else if tot \<le> 0 then Inl (Sentinel ErrInvalidTotalTickets)
     else case newv7 of
       None \<Rightarrow> Inl (Wrap ''generate event id'' (Plain ''uuid''))
     | Some i \<Rightarrow> Inr \<lparr>ev_id = i, ev_name = name, ev_totalTickets = tot,
                      ev_availableTickets = tot, ev_version = 0\<rparr>)"

definition ReconstructEvent :: "uuid \<Rightarrow> string \<Rightarrow> int \<Rightarrow> int \<Rightarrow> int \<Rightarrow> event" where
  "ReconstructEvent i name tot avail ver =
     \<lparr>ev_id = i, ev_name = name, ev_totalTickets = tot, ev_availableTickets = avail,
      ev_version = ver\<rparr>"

definition Event_Deduct :: "event \<Rightarrow> int \<Rightarrow> err + event" where
  "Event_Deduct e q =
    (if q < 0 then Inl (Plain ''invalid quantity'')
     else if ev_availableTickets e < q then Inl (Sentinel ErrSoldOut)
     else Inr (e\<lparr>ev_availableTickets := ev_availableTickets e - q\<rparr>))"

definition event_wf :: "event \<Rightarrow> bool" where
  "event_wf e \<longleftrightarrow> 0 \<le> ev_availableTickets e \<and> ev_availableTickets e \<le> ev_totalTickets e"

lemma NewEvent_wf: "NewEvent X nv name tot = Inr e \<Longrightarrow>
    event_wf e \<and> ev_availableTickets e = tot \<and> ev_totalTickets e = tot"
  by (auto simp: NewEvent_def event_wf_def split: if_splits option.splits)

lemma Event_Deduct_wf: "event_wf e \<Longrightarrow> Event_Deduct e q = Inr e' \<Longrightarrow>
    event_wf e' \<and> ev_availableTickets e' + q = ev_availableTickets e \<and>
    ev_totalTickets e' = ev_totalTickets e"
  by (auto simp: Event_Deduct_def event_wf_def split: if_splits)

section \<open>Ticket types\<close>

record ticket_type =
  tt_id :: uuid
  tt_eventID :: uuid
  tt_name :: string
  tt_priceCents :: int
  tt_currency :: string
  tt_totalTickets :: int
  tt_availableTickets :: int
  tt_saleStartsAt :: "time option"
  tt_saleEndsAt :: "time option"
  tt_perUserLimit :: "int option"
  tt_areaLabel :: string
  tt_version :: int

abbreviation MaxInt32 :: int where
  "MaxInt32 \<equiv> 2147483647"

definition NewTicketType ::
    "ext \<Rightarrow> uuid \<Rightarrow> uuid \<Rightarrow> string \<Rightarrow> int \<Rightarrow> string \<Rightarrow> int \<Rightarrow> time option \<Rightarrow> time option \<Rightarrow>
     int option \<Rightarrow> string \<Rightarrow> err + ticket_type" where
  "NewTicketType X i ev name price cur tot starts ends limit area =
    (if i = uuid_Nil then Inl (Sentinel ErrInvalidTicketTypeID)
     else if ev = uuid_Nil then Inl (Sentinel ErrInvalidTicketTypeEventID)
     else if strings_IsBlank X name then Inl (Sentinel ErrInvalidTicketTypeName)
     else if price \<le> 0 then Inl (Sentinel ErrInvalidTicketTypePrice)
     else let cur' = NormalizeCurrency X cur in
       if \<not> isValidCurrencyCode cur' then Inl (Sentinel ErrInvalidTicketTypeCurrency)
     else if tot \<le> 0 then Inl (Sentinel ErrInvalidTicketTypeTotal)
     else if starts = None \<and> ends \<noteq> None then Inl (Sentinel ErrInvalidTicketTypeSaleWindow)
     else if (case (starts, ends) of (Some a, Some b) \<Rightarrow> \<not> b > a | _ \<Rightarrow> False)
       then Inl (Sentinel ErrInvalidTicketTypeSaleWindow)
     else if (case limit of Some l \<Rightarrow> l \<le> 0 \<or> l > MaxInt32 | None \<Rightarrow> False)
       then Inl (Sentinel ErrInvalidTicketTypePerUser)
     else Inr \<lparr>tt_id = i, tt_eventID = ev, tt_name = name, tt_priceCents = price,
               tt_currency = cur', tt_totalTickets = tot, tt_availableTickets = tot,
               tt_saleStartsAt = starts, tt_saleEndsAt = ends, tt_perUserLimit = limit,
               tt_areaLabel = area, tt_version = 0\<rparr>)"

definition ReconstructTicketType ::
    "ext \<Rightarrow> uuid \<Rightarrow> uuid \<Rightarrow> string \<Rightarrow> int \<Rightarrow> string \<Rightarrow> int \<Rightarrow> int \<Rightarrow> time option \<Rightarrow> time option \<Rightarrow>
     int option \<Rightarrow> string \<Rightarrow> int \<Rightarrow> ticket_type" where
  "ReconstructTicketType X i ev name price cur tot avail starts ends limit area ver =
     \<lparr>tt_id = i, tt_eventID = ev, tt_name = name, tt_priceCents = price,
      tt_currency = NormalizeCurrency X cur, tt_totalTickets = tot, tt_availableTickets = avail,
      tt_saleStartsAt = starts, tt_saleEndsAt = ends, tt_perUserLimit = limit,
      tt_areaLabel = area, tt_version = ver\<rparr>"

definition ticket_type_wf :: "ticket_type \<Rightarrow> bool" where
  "ticket_type_wf t \<longleftrightarrow>
     tt_id t \<noteq> uuid_Nil \<and> tt_eventID t \<noteq> uuid_Nil \<and> tt_priceCents t > 0 \<and>
     isValidCurrencyCode (tt_currency t) \<and> tt_totalTickets t > 0 \<and>
     0 \<le> tt_availableTickets t \<and> tt_availableTickets t \<le> tt_totalTickets t \<and>
     (case tt_saleEndsAt t of None \<Rightarrow> True
      | Some e \<Rightarrow> (case tt_saleStartsAt t of None \<Rightarrow> False | Some s \<Rightarrow> s < e)) \<and>
     (case tt_perUserLimit t of None \<Rightarrow> True | Some l \<Rightarrow> 0 < l \<and> l \<le> MaxInt32)"

lemma NewTicketType_Inr:
  assumes "NewTicketType X i ev name price cur tot starts ends limit area = Inr t"
  shows "ticket_type_wf t \<and> tt_id t = i \<and> tt_eventID t = ev \<and> tt_priceCents t = price \<and>
    tt_currency t = NormalizeCurrency X cur \<and>
    tt_totalTickets t = tot \<and> tt_availableTickets t = tot"
  using assms
  by (auto simp: NewTicketType_def ticket_type_wf_def Let_def split: if_splits option.splits)

section \<open>The failed-order event and its outbox row\<close>

record order_failed_event =
  ofe_EventID :: uuid
  ofe_OrderID :: uuid
  ofe_UserID :: int
  ofe_TicketTypeID :: uuid
  ofe_Quantity :: int
  ofe_FailedAt :: time
  ofe_Reason :: string
  ofe_Version :: int

abbreviation OrderEventVersion :: int where
  "OrderEventVersion \<equiv> 3"

definition NewOrderFailedEventFromOrder :: "time \<Rightarrow> order \<Rightarrow> string \<Rightarrow> order_failed_event" where
  "NewOrderFailedEventFromOrder now o' reason =
     \<lparr>ofe_EventID = eventID o', ofe_OrderID = id_of o', ofe_UserID = userID o',
      ofe_TicketTypeID = ticketTypeID o', ofe_Quantity = quantity o', ofe_FailedAt = now,
      ofe_Reason = reason, ofe_Version = OrderEventVersion\<rparr>"

text \<open>An outbox payload is JSON text: the text \<open>json.Marshal\<close> makes of an event is represented by
  the event, any other text by \<open>Malformed\<close>; \<open>json.Unmarshal\<close> succeeds on the former only.\<close>

datatype payload = OrderFailedJSON order_failed_event | Malformed string

primrec json_Unmarshal :: "payload \<Rightarrow> order_failed_event option" where
  "json_Unmarshal (OrderFailedJSON e) = Some e"
| "json_Unmarshal (Malformed s) = None"

record outbox_event =
  ob_id :: uuid
  ob_eventType :: string
  ob_payload :: payload
  ob_status :: string
  ob_createdAt :: time
  ob_processedAt :: "time option"

definition NewOrderFailedOutbox :: "time \<Rightarrow> uuid option \<Rightarrow> payload \<Rightarrow> err + outbox_event" where
  "NewOrderFailedOutbox now newv7 p = (case newv7 of
     None \<Rightarrow> Inl (Wrap ''generate outbox event id'' (Plain ''uuid''))
   | Some i \<Rightarrow> Inr \<lparr>ob_id = i, ob_eventType = ''order.failed'', ob_payload = p,
                    ob_status = ''PENDING'', ob_createdAt = now, ob_processedAt = None\<rparr>)"

section \<open>The result of the Redis gate\<close>

record deduct_result =
  dr_Accepted :: bool
  dr_EventID :: uuid
  dr_AmountCents :: int
  dr_Currency :: string

definition not_accepted :: deduct_result where
  "not_accepted = \<lparr>dr_Accepted = False, dr_EventID = uuid_Nil, dr_AmountCents = 0, dr_Currency = ''''\<rparr>"

end
