(* ===== verification/State.thy ===== *)
theory State
  imports Domain_Catalog
begin

text \<open>
  The state the components share, and how a call to the outside fails.

  \<^item> \<open>pg\<close> is the PostgreSQL database: one list of rows per table of \<open>deploy/postgres/migrations\<close>
    and the clock of \<open>NOW()\<close>. \<open>redis\<close> is the Redis server: one map per key namespace
    (\<open>ticket_type_qty:\<close>, \<open>ticket_type_meta:\<close>, \<open>saga:reverted:\<close>; the prefixes differ, so the
    namespaces never share a key), the order stream with its pending list, and the dead-letter
    stream. \<open>world\<close> adds the application clock, the Kafka topics, the admin bus and the metrics.
  \<^item> Every call that leaves the process takes one entry of \<open>w_faults\<close>: it works, or the request
    is lost (error, no effect), or the reply is lost (error, although the effect took place). An
    empty list means that everything works. The theorems quantify over the list, so they cover
    every pattern of failures.
  \<^item> \<open>PostgresUnitOfWork.Do\<close> runs a body in a transaction. Its promise is the locale
    \<open>unit_of_work\<close>: the database afterwards is the one before, or the one the body committed.
\<close>

section \<open>Tables\<close>

record order_row =
  or_id :: uuid
  or_event :: uuid
  or_user :: int
  or_qty :: int
  or_status :: order_status
  or_created :: time
  or_reserved :: "time option"
  or_intent :: "string option"
  or_tt :: "uuid option"
  or_amount :: "int option"
  or_cur :: "string option"
  or_updated :: time

record ticket_type_row =
  tr_id :: uuid
  tr_event :: uuid
  tr_name :: string
  tr_price :: int
  tr_cur :: string
  tr_total :: int
  tr_available :: int
  tr_starts :: "time option"
  tr_ends :: "time option"
  tr_limit :: "int option"
  tr_area :: "string option"
  tr_version :: int

record history_row =
  hi_order :: uuid
  hi_from :: order_status
  hi_to :: order_status

record saga_row =
  sg_id :: string
  sg_order :: uuid
  sg_reverted :: "time option"

record pg =
  pg_orders :: "order_row list"
  pg_history :: "history_row list"
  pg_outbox :: "outbox_event list"
  pg_events :: "event list"
  pg_types :: "ticket_type_row list"
  pg_saga :: "saga_row list"
  pg_now :: time

section \<open>Redis and the world\<close>

record xmessage =
  xm_ID :: string
  xm_Values :: "string \<rightharpoonup> string"

text \<open>An entry of the dead-letter stream: the original entry's id and fields, the error and the time,
  which the code stores as text.\<close>

record dlq_entry =
  dl_original :: string
  dl_error :: err
  dl_failedAt :: time
  dl_values :: "string \<rightharpoonup> string"

text \<open>\<open>rd_stream\<close> holds the entries of \<open>orders:stream\<close> that the consumer group has not been given yet,
  \<open>rd_pending\<close> those delivered and not acknowledged, \<open>rd_group\<close> says whether the group exists.\<close>

record redis =
  rd_qty :: "uuid \<rightharpoonup> int \<times> time option"
  rd_meta :: "uuid \<rightharpoonup> (string \<rightharpoonup> string) \<times> time option"
  rd_reverted :: "string \<rightharpoonup> time"
  rd_seq :: nat
  rd_stream :: "xmessage list"
  rd_pending :: "xmessage list"
  rd_group :: bool
  rd_dlq :: "dlq_entry list"
  rd_now :: time

record intake_message =
  im_OrderID :: uuid
  im_UserID :: int
  im_EventID :: uuid
  im_TicketTypeID :: uuid
  im_Quantity :: int
  im_ReservedUntil :: int
  im_AmountCents :: int
  im_Currency :: string

record admin_payload =
  ap_OrderID :: uuid
  ap_UserID :: int
  ap_TicketTypeID :: uuid
  ap_Quantity :: int
  ap_FromStatus :: string
  ap_ToStatus :: string

record admin_event =
  ae_EventID :: uuid
  ae_EventType :: string
  ae_OccurredAt :: time
  ae_SchemaVersion :: int
  ae_Data :: admin_payload

datatype fault = Works | Lost | Unacked

record world =
  w_pg :: pg
  w_rd :: redis
  w_now :: time
  w_faults :: "fault list"
  w_uuids :: "uuid option list"
  w_intake :: "intake_message list"
  w_failed :: "outbox_event list"
  w_bus :: "admin_event list"
  w_metrics :: "string list"

section \<open>Calls that leave the process\<close>

definition io :: "world \<Rightarrow> fault \<times> world" where
  "io w = (case w_faults w of [] \<Rightarrow> (Works, w) | f # fs \<Rightarrow> (f, w\<lparr>w_faults := fs\<rparr>))"

definition uuid_NewV7 :: "world \<Rightarrow> uuid option \<times> world" where
  "uuid_NewV7 w = (case w_uuids w of [] \<Rightarrow> (None, w) | u # us \<Rightarrow> (u, w\<lparr>w_uuids := us\<rparr>))"

definition ctx_Err :: "world \<Rightarrow> bool \<times> world" where
  "ctx_Err w = (case io w of (f, w1) \<Rightarrow> (f \<noteq> Works, w1))"

definition metric :: "string \<Rightarrow> world \<Rightarrow> world" where
  "metric m w = w\<lparr>w_metrics := w_metrics w @ [m]\<rparr>"

text \<open>\<open>sleepCtx\<close>: waits, unless the context is cancelled meanwhile.\<close>

definition time_passes :: "duration \<Rightarrow> world \<Rightarrow> world" where
  "time_passes d w = w\<lparr>w_now := w_now w + d, w_pg := (w_pg w)\<lparr>pg_now := pg_now (w_pg w) + d\<rparr>,
     w_rd := (w_rd w)\<lparr>rd_now := rd_now (w_rd w) + d\<rparr>\<rparr>"

definition sleepCtx :: "duration \<Rightarrow> world \<Rightarrow> bool \<times> world" where
  "sleepCtx d w = (case io w of (f, w1) \<Rightarrow> if f = Works then (True, time_passes d w1) else (False, w1))"

text \<open>A statement: it returns the number of affected rows or a constraint violation. When the
  request is lost nothing happens; when the reply is lost the caller sees an error although the
  statement ran.\<close>

definition sql_exec :: "(pg \<Rightarrow> err + nat \<times> pg) \<Rightarrow> world \<Rightarrow> (err + nat) \<times> world" where
  "sql_exec stmt w = (case io w of
     (Works, w1) \<Rightarrow> (case stmt (w_pg w1) of
        Inl e \<Rightarrow> (Inl e, w1)
      | Inr (n, p) \<Rightarrow> (Inr n, w1\<lparr>w_pg := p\<rparr>))
   | (Lost, w1) \<Rightarrow> (Inl (Sentinel DbUnavailable), w1)
   | (Unacked, w1) \<Rightarrow> (case stmt (w_pg w1) of
        Inl e \<Rightarrow> (Inl e, w1)
      | Inr (n, p) \<Rightarrow> (Inl (Sentinel DbUnavailable), w1\<lparr>w_pg := p\<rparr>)))"

definition sql_query :: "(pg \<Rightarrow> 'a) \<Rightarrow> world \<Rightarrow> (err + 'a) \<times> world" where
  "sql_query q w = (case io w of
     (Works, w1) \<Rightarrow> (Inr (q (w_pg w1)), w1)
   | (_, w1) \<Rightarrow> (Inl (Sentinel DbUnavailable), w1))"

definition redis_call :: "(redis \<Rightarrow> 'a \<times> redis) \<Rightarrow> world \<Rightarrow> (err + 'a) \<times> world" where
  "redis_call cmd w = (case io w of
     (Works, w1) \<Rightarrow> (case cmd (w_rd w1) of (a, r) \<Rightarrow> (Inr a, w1\<lparr>w_rd := r\<rparr>))
   | (Lost, w1) \<Rightarrow> (Inl (Sentinel RedisUnavailable), w1)
   | (Unacked, w1) \<Rightarrow> (case cmd (w_rd w1) of
        (a, r) \<Rightarrow> (Inl (Sentinel RedisUnavailable), w1\<lparr>w_rd := r\<rparr>)))"

text \<open>\<open>PostgresUnitOfWork.Do\<close>: begin, run, then roll back on an error of the body or commit. A
  failed rollback is reported by a metric only (the server drops the transaction with the
  connection); a commit whose reply is lost has committed.\<close>

definition db_tx :: "string \<Rightarrow> string \<Rightarrow> (world \<Rightarrow> world) \<Rightarrow> (world \<Rightarrow> (err + 'a) \<times> world) \<Rightarrow> world \<Rightarrow> (err + 'a) \<times> world" where
  "db_tx begin_msg commit_msg rollback_failed fn w = (case io w of
     (Lost, w1) \<Rightarrow> (Inl (Wrap begin_msg (Sentinel DbUnavailable)), w1)
   | (Unacked, w1) \<Rightarrow> (Inl (Wrap begin_msg (Sentinel DbUnavailable)), w1)
   | (Works, w1) \<Rightarrow> (case fn w1 of
        (Inl e, w2) \<Rightarrow> (case io w2 of (f, w3) \<Rightarrow>
           (Inl e, (if f = Works then w3 else rollback_failed w3)\<lparr>w_pg := w_pg w1\<rparr>))
      | (Inr a, w2) \<Rightarrow> (case io w2 of
           (Works, w3) \<Rightarrow> (Inr a, w3)
         | (Lost, w3) \<Rightarrow>
             (Inl (Wrap commit_msg (Sentinel DbUnavailable)), w3\<lparr>w_pg := w_pg w1\<rparr>)
         | (Unacked, w3) \<Rightarrow> (Inl (Wrap commit_msg (Sentinel DbUnavailable)), w3))))"

definition uow_Do :: "(world \<Rightarrow> (err + 'a) \<times> world) \<Rightarrow> world \<Rightarrow> (err + 'a) \<times> world" where
  "uow_Do = db_tx ''begin tx'' ''commit tx'' (metric ''rollback_failure'')"

text \<open>A \<open>for\<close> loop whose body returns early with an error.\<close>

fun for_each :: "('a \<Rightarrow> 'w \<Rightarrow> (err + unit) \<times> 'w) \<Rightarrow> 'a list \<Rightarrow> 'w \<Rightarrow> (err + unit) \<times> 'w" where
  "for_each body [] w = (Inr (), w)"
| "for_each body (x # xs) w = (case body x w of
     (Inl e, w1) \<Rightarrow> (Inl e, w1)
   | (Inr _, w1) \<Rightarrow> for_each body xs w1)"

lemma for_each_invariant:
  assumes "for_each body xs w = (r, w')" and "I w"
    and "\<And>x w r w'. x \<in> set xs \<Longrightarrow> I w \<Longrightarrow> body x w = (r, w') \<Longrightarrow> I w'"
  shows "I w'"
  using assms
proof (induction xs arbitrary: w)
  case Nil
  then show ?case by simp
next
  case (Cons x xs)
  obtain rx wx where b: "body x w = (rx, wx)" by (cases "body x w")
  have Iwx: "I wx" using Cons.prems(3) [OF _ Cons.prems(2) b] by simp
  show ?case
  proof (cases rx)
    case (Inl e)
    with Cons.prems(1) b Iwx show ?thesis by simp
  next
    case (Inr a)
    with Cons.prems(1) b have "for_each body xs wx = (r, w')" by simp
    then show ?thesis by (rule Cons.IH [OF _ Iwx]) (use Cons.prems(3) in auto)
  qed
qed

section \<open>Admin events\<close>

text \<open>\<open>application/admin/event.go\<close>: the envelope of an order lifecycle event, and its publication.\<close>

definition isOrderLifecycleType :: "string \<Rightarrow> bool" where
  "isOrderLifecycleType t \<longleftrightarrow> t \<in> set [''order.created'', ''order.paid'', ''order.failed'',
     ''order.expired'', ''order.compensated'']"

definition NewOrderLifecycleEvent :: "string \<Rightarrow> admin_payload \<Rightarrow> world \<Rightarrow> (err + admin_event) \<times> world" where
  "NewOrderLifecycleEvent t p w =
    (if \<not> isOrderLifecycleType t then (Inl (Plain ''admin event: event_type''), w)
     else if ap_OrderID p = uuid_Nil then (Inl (Plain ''admin event: order_id must not be nil''), w)
     else if ap_TicketTypeID p = uuid_Nil
       then (Inl (Plain ''admin event: ticket_type_id must not be nil''), w)
     else case uuid_NewV7 w of
       (None, w1) \<Rightarrow> (Inl (Wrap ''generate admin event id'' (Plain ''uuid'')), w1)
     | (Some i, w1) \<Rightarrow> (Inr \<lparr>ae_EventID = i, ae_EventType = t, ae_OccurredAt = w_now w1,
                             ae_SchemaVersion = 1, ae_Data = p\<rparr>, w1))"

definition bus_Publish :: "admin_event \<Rightarrow> world \<Rightarrow> world" where
  "bus_Publish e w = w\<lparr>w_bus := w_bus w @ [e]\<rparr>"

section \<open>What a call leaves alone\<close>

lemma io_frame [frame]:
  "w_pg (snd (io w)) = w_pg w" "w_rd (snd (io w)) = w_rd w" "w_now (snd (io w)) = w_now w"
  "w_intake (snd (io w)) = w_intake w" "w_failed (snd (io w)) = w_failed w"
  "w_bus (snd (io w)) = w_bus w" "w_metrics (snd (io w)) = w_metrics w"
  "w_uuids (snd (io w)) = w_uuids w"
  by (simp_all add: io_def split: list.splits)

lemma io_pair:
  "io w = (f, w1) \<Longrightarrow> w_pg w1 = w_pg w \<and> w_rd w1 = w_rd w \<and> w_now w1 = w_now w \<and>
    w_intake w1 = w_intake w \<and> w_failed w1 = w_failed w \<and> w_bus w1 = w_bus w \<and>
    w_metrics w1 = w_metrics w \<and> w_uuids w1 = w_uuids w"
  using io_frame [of w] by simp

lemma metric_frame [simp]:
  "w_pg (metric m w) = w_pg w" "w_rd (metric m w) = w_rd w" "w_now (metric m w) = w_now w"
  "w_intake (metric m w) = w_intake w" "w_failed (metric m w) = w_failed w"
  "w_bus (metric m w) = w_bus w" "w_uuids (metric m w) = w_uuids w"
  "w_faults (metric m w) = w_faults w" "w_metrics (metric m w) = w_metrics w @ [m]"
  by (simp_all add: metric_def)

lemma uuid_NewV7_frame:
  "uuid_NewV7 w = (u, w1) \<Longrightarrow> w_pg w1 = w_pg w \<and> w_rd w1 = w_rd w \<and> w_now w1 = w_now w \<and>
    w_intake w1 = w_intake w \<and> w_failed w1 = w_failed w \<and> w_bus w1 = w_bus w \<and>
    w_metrics w1 = w_metrics w \<and> w_faults w1 = w_faults w"
  by (auto simp: uuid_NewV7_def split: list.splits)

lemma io_Works [simp]: "w_faults w = [] \<Longrightarrow> io w = (Works, w)"
  by (simp add: io_def)

text \<open>The two shapes of a statement's outcome: the database is untouched, or the statement ran.\<close>

lemma sql_exec_cases:
  assumes "sql_exec stmt w = (r, w')"
  obtains (untouched) e where "r = Inl e" "w_pg w' = w_pg w"
  | (ran) n p where "stmt (w_pg w) = Inr (n, p)" "w_pg w' = p" "r = Inr n \<or> r = Inl (Sentinel DbUnavailable)"
proof -
  obtain f w1 where io: "io w = (f, w1)" by (cases "io w")
  note fr = io_pair [OF io]
  show thesis
  proof (cases f)
    case Works
    show ?thesis
    proof (cases "stmt (w_pg w1)")
      case (Inl e)
      with assms io Works fr show ?thesis by (intro untouched) (auto simp: sql_exec_def)
    next
      case (Inr np)
      with assms io Works fr show ?thesis
        by (cases np) (intro ran, auto simp: sql_exec_def)
    qed
  next
    case Lost
    with assms io fr show ?thesis by (intro untouched) (auto simp: sql_exec_def)
  next
    case Unacked
    show ?thesis
    proof (cases "stmt (w_pg w1)")
      case (Inl e)
      with assms io Unacked fr show ?thesis by (intro untouched) (auto simp: sql_exec_def)
    next
      case (Inr np)
      with assms io Unacked fr show ?thesis
        by (cases np) (intro ran, auto simp: sql_exec_def)
    qed
  qed
qed

lemma sql_exec_Inr:
  "sql_exec stmt w = (Inr n, w') \<Longrightarrow> stmt (w_pg w) = Inr (n, w_pg w')"
  by (erule sql_exec_cases) auto

lemma sql_exec_frame:
  "sql_exec stmt w = (r, w') \<Longrightarrow> w_rd w' = w_rd w \<and> w_now w' = w_now w \<and>
    w_intake w' = w_intake w \<and> w_failed w' = w_failed w \<and> w_bus w' = w_bus w \<and>
    w_metrics w' = w_metrics w \<and> w_uuids w' = w_uuids w"
  using io_frame [of w]
  by (auto simp: sql_exec_def split: prod.splits fault.splits sum.splits)

lemma sql_query_frame:
  "sql_query q w = (r, w') \<Longrightarrow> w_pg w' = w_pg w \<and> w_rd w' = w_rd w \<and> w_now w' = w_now w \<and>
    w_intake w' = w_intake w \<and> w_failed w' = w_failed w \<and> w_bus w' = w_bus w \<and>
    w_metrics w' = w_metrics w \<and> w_uuids w' = w_uuids w"
  using io_frame [of w] by (auto simp: sql_query_def split: prod.splits fault.splits)

lemma sql_query_result: "sql_query q w = (Inr a, w') \<Longrightarrow> a = q (w_pg w)"
  using io_frame [of w] by (auto simp: sql_query_def split: prod.splits fault.splits)

lemma redis_call_frame:
  "redis_call c w = (r, w') \<Longrightarrow> w_pg w' = w_pg w \<and> w_now w' = w_now w \<and>
    w_intake w' = w_intake w \<and> w_failed w' = w_failed w \<and> w_bus w' = w_bus w \<and>
    w_metrics w' = w_metrics w \<and> w_uuids w' = w_uuids w"
  using io_frame [of w] by (auto simp: redis_call_def split: prod.splits fault.splits)

lemma redis_call_cases:
  assumes "redis_call c w = (r, w')"
  obtains (ok) "c (w_rd w) = (case r of Inr a \<Rightarrow> (a, w_rd w'))" "is_ok r"
  | (lost) "r = Inl (Sentinel RedisUnavailable)" "w_rd w' = w_rd w"
  | (unacked) "r = Inl (Sentinel RedisUnavailable)" "w_rd w' = snd (c (w_rd w))"
  using assms io_frame [of w] that
  by (cases r) (auto simp: redis_call_def split: prod.splits fault.splits)

lemma NewOrderLifecycleEvent_frame:
  "NewOrderLifecycleEvent t p w = (r, w') \<Longrightarrow> w_pg w' = w_pg w \<and> w_rd w' = w_rd w \<and> w_now w' = w_now w \<and>
    w_intake w' = w_intake w \<and> w_failed w' = w_failed w \<and> w_bus w' = w_bus w \<and>
    w_metrics w' = w_metrics w \<and> w_faults w' = w_faults w"
  by (auto simp: NewOrderLifecycleEvent_def split: if_splits prod.splits option.splits
      dest!: uuid_NewV7_frame)

lemma bus_Publish_frame [simp]:
  "w_pg (bus_Publish e w) = w_pg w" "w_rd (bus_Publish e w) = w_rd w" "w_now (bus_Publish e w) = w_now w"
  "w_intake (bus_Publish e w) = w_intake w" "w_failed (bus_Publish e w) = w_failed w"
  "w_metrics (bus_Publish e w) = w_metrics w" "w_faults (bus_Publish e w) = w_faults w"
  by (simp_all add: bus_Publish_def)

lemma sleepCtx_frame:
  assumes "sleepCtx d w = (b, w')"
  shows "\<exists>t u. w_pg w' = (w_pg w)\<lparr>pg_now := t\<rparr> \<and> w_rd w' = (w_rd w)\<lparr>rd_now := u\<rparr> \<and>
     w_metrics w' = w_metrics w \<and> w_intake w' = w_intake w \<and> w_failed w' = w_failed w \<and> w_bus w' = w_bus w"
proof -
  obtain f w1 where i: "io w = (f, w1)" by (cases "io w")
  note fr = io_pair [OF i]
  show ?thesis
  proof (cases "f = Works")
    case True
    with assms i fr show ?thesis by (auto simp: sleepCtx_def time_passes_def)
  next
    case False
    with assms i fr show ?thesis
      by (intro exI [of _ "pg_now (w_pg w)"] exI [of _ "rd_now (w_rd w)"]) (simp add: sleepCtx_def)
  qed
qed

section \<open>The unit of work\<close>

locale unit_of_work =
  fixes run_tx :: "('w \<Rightarrow> (err + 'a) \<times> 'w) \<Rightarrow> 'w \<Rightarrow> (err + 'a) \<times> 'w"
    and db :: "'w \<Rightarrow> 'd"
  assumes committed: "run_tx body w = (Inr a, w') \<Longrightarrow>
      \<exists>w1 w2. db w1 = db w \<and> body w1 = (Inr a, w2) \<and> db w' = db w2"
    and atomic: "run_tx body w = (r, w') \<Longrightarrow>
      db w' = db w \<or> (\<exists>w1 a w2. db w1 = db w \<and> body w1 = (Inr a, w2) \<and> db w' = db w2)"
begin

text \<open>What the body keeps when it commits, the transaction keeps whatever fails.\<close>

lemma keeps:
  assumes "run_tx body w = (r, w')" and "I (db w)"
    and "\<And>w1 a w2. db w1 = db w \<Longrightarrow> body w1 = (Inr a, w2) \<Longrightarrow> I (db w2)"
  shows "I (db w')"
  using atomic [OF assms(1)] assms(2,3) by metis

lemma all_or_nothing:
  assumes "run_tx body w = (r, w')"
    and "\<And>w1 a w2. db w1 = db w \<Longrightarrow> body w1 = (Inr a, w2) \<Longrightarrow> P (db w2)"
  shows "db w' = db w \<or> P (db w')"
  using atomic [OF assms(1)] assms(2) by metis

lemma success:
  assumes "run_tx body w = (Inr a, w')"
    and "\<And>w1 w2. db w1 = db w \<Longrightarrow> body w1 = (Inr a, w2) \<Longrightarrow> P (db w2)"
  shows "P (db w')"
  using committed [OF assms(1)] assms(2) by metis

end

lemma uow_Do_committed:
  assumes "uow_Do body w = (Inr a, w')"
  obtains w1 w2 where "io w = (Works, w1)" "body w1 = (Inr a, w2)" "io w2 = (Works, w')"
  using assms that by (auto simp: uow_Do_def db_tx_def split: prod.splits fault.splits sum.splits)

lemma uow_Do_cases:
  assumes "uow_Do body w = (r, w')"
  obtains (no_tx) "r = Inl (Wrap ''begin tx'' (Sentinel DbUnavailable))" "w_pg w' = w_pg w"
      "w_rd w' = w_rd w"
  | (rolled_back) w1 e w2 where "w_pg w1 = w_pg w" "w_rd w1 = w_rd w" "w_now w1 = w_now w"
      "body w1 = (Inl e, w2)" "r = Inl e" "w_pg w' = w_pg w" "w_rd w' = w_rd w2"
  | (committed) w1 a w2 where "w_pg w1 = w_pg w" "w_rd w1 = w_rd w" "w_now w1 = w_now w"
      "body w1 = (Inr a, w2)"
      "r = Inr a \<or> r = Inl (Wrap ''commit tx'' (Sentinel DbUnavailable))" "w_pg w' = w_pg w2"
      "w_rd w' = w_rd w2"
  | (lost_commit) w1 a w2 where "w_pg w1 = w_pg w" "w_rd w1 = w_rd w" "w_now w1 = w_now w"
      "body w1 = (Inr a, w2)"
      "r = Inl (Wrap ''commit tx'' (Sentinel DbUnavailable))" "w_pg w' = w_pg w"
      "w_rd w' = w_rd w2"
proof -
  obtain f w1 where io1: "io w = (f, w1)" by (cases "io w")
  note fr1 = io_pair [OF io1]
  show thesis
  proof (cases "f = Works")
    case False
    with assms io1 fr1 show ?thesis
      by (intro no_tx) (auto simp: uow_Do_def db_tx_def split: fault.splits)
  next
    case True
    obtain rb w2 where body: "body w1 = (rb, w2)" by (cases "body w1")
    obtain g w3 where io2: "io w2 = (g, w3)" by (cases "io w2")
    note fr2 = io_pair [OF io2]
    show ?thesis
    proof (cases rb)
      case (Inl e)
      with assms io1 io2 body True fr1 fr2 show ?thesis
        by (intro rolled_back [of w1 e w2]) (auto simp: uow_Do_def db_tx_def)
    next
      case (Inr a)
      with assms io1 io2 body True fr1 fr2 show ?thesis
        by (cases g) (auto simp: uow_Do_def db_tx_def intro: committed [of w1 a w2] lost_commit [of w1 a w2])
    qed
  qed
qed

text \<open>What the body keeps of the rest of the world, the transaction keeps.\<close>

lemma uow_Do_projection:
  assumes run: "uow_Do body w = (r, w')"
    and body: "\<And>w1 x w2. body w1 = (x, w2) \<Longrightarrow> f w2 = f w1"
    and io: "\<And>v. f (snd (io v)) = f v" and pg: "\<And>v p. f (v\<lparr>w_pg := p\<rparr>) = f v"
    and metric: "\<And>v m. f (metric m v) = f v"
  shows "f w' = f w"
proof -
  obtain g w1 where i1: "io w = (g, w1)" by (cases "io w")
  obtain x w2 where b: "body w1 = (x, w2)" by (cases "body w1")
  obtain h w3 where i2: "io w2 = (h, w3)" by (cases "io w2")
  have "f w1 = f w" "f w3 = f w2" using io [of w] io [of w2] i1 i2 by simp_all
  with run i1 b i2 body [OF b] pg metric show ?thesis
    by (auto simp: uow_Do_def db_tx_def split: fault.splits sum.splits if_splits)
qed

lemma uow_Do_redis:
  assumes "uow_Do body w = (r, w')"
    and "\<And>w1 x w2. body w1 = (x, w2) \<Longrightarrow> w_rd w2 = w_rd w1 \<and> w_now w2 = w_now w1"
  shows "w_rd w' = w_rd w \<and> w_now w' = w_now w"
  using uow_Do_projection [OF assms(1), where f = "\<lambda>v. (w_rd v, w_now v)"] assms(2)
  by (simp add: frame)

lemma db_tx_is_unit_of_work: "unit_of_work (db_tx b c rb) w_pg"
proof
  have io_same: "w_pg v' = w_pg v" if "io v = (f, v')" for v f v' using io_pair [OF that] by simp
  show "\<exists>w1 w2. w_pg w1 = w_pg w \<and> body w1 = (Inr a, w2) \<and> w_pg w' = w_pg w2"
    if "db_tx b c rb body w = (Inr a, w')" for body :: "world \<Rightarrow> (err + 'a) \<times> world" and w a w'
    using that by (auto simp: db_tx_def split: prod.splits fault.splits sum.splits) (metis io_same)
  show "w_pg w' = w_pg w \<or>
      (\<exists>w1 a w2. w_pg w1 = w_pg w \<and> body w1 = (Inr a, w2) \<and> w_pg w' = w_pg w2)"
    if "db_tx b c rb body w = (r, w')" for body :: "world \<Rightarrow> (err + 'a) \<times> world" and w r w'
    using that
    by (auto simp: db_tx_def split: prod.splits fault.splits sum.splits) (metis io_same)+
qed

interpretation uow: unit_of_work uow_Do w_pg
  unfolding uow_Do_def by (rule db_tx_is_unit_of_work)

section \<open>Concrete states\<close>

text \<open>An empty deployment at time 0 with every call working; the witnesses fill in what they need.\<close>

definition empty_pg :: pg where
  "empty_pg = \<lparr>pg_orders = [], pg_history = [], pg_outbox = [], pg_events = [], pg_types = [],
     pg_saga = [], pg_now = 0\<rparr>"

definition empty_redis :: redis where
  "empty_redis = \<lparr>rd_qty = Map.empty, rd_meta = Map.empty, rd_reverted = Map.empty, rd_seq = 0,
     rd_stream = [], rd_pending = [], rd_group = True, rd_dlq = [], rd_now = 0\<rparr>"

definition empty_world :: world where
  "empty_world = \<lparr>w_pg = empty_pg, w_rd = empty_redis, w_now = 0, w_faults = [], w_uuids = [],
     w_intake = [], w_failed = [], w_bus = [], w_metrics = []\<rparr>"

end
