(* ===== verification/Postgres.thy ===== *)
theory Postgres
  imports State
begin

text \<open>
  \<open>internal/infrastructure/persistence/postgres\<close>: the row mappings and the repositories. Each SQL
  statement is a function on \<open>pg\<close> (\<open>sql_...\<close>), with the constraints of the migrations it can
  violate; the repository method around it adds the Go code: executing it, reading the number of
  affected rows, classifying zero rows. The invariant \<open>pg_wf\<close> is what the constraints promise.
\<close>

section \<open>Row mappings\<close>

definition order_toDomain :: "order_row \<Rightarrow> order" where
  "order_toDomain r = ReconstructOrder (or_id r) (or_user r) (or_event r)
     (case or_tt r of Some t \<Rightarrow> t | None \<Rightarrow> uuid_Nil) (or_qty r) (or_status r) (or_created r)
     (case or_reserved r of Some t \<Rightarrow> t | None \<Rightarrow> 0)
     (case or_intent r of Some s \<Rightarrow> s | None \<Rightarrow> '''')
     (case or_amount r of Some a \<Rightarrow> a | None \<Rightarrow> 0)
     (case or_cur r of Some c \<Rightarrow> c | None \<Rightarrow> '''')"

text \<open>\<open>updated\<close> is the column default \<open>NOW()\<close> of \<open>orders.updated_at\<close>.\<close>

definition orderRowFromDomain :: "time \<Rightarrow> order \<Rightarrow> order_row" where
  "orderRowFromDomain updated o' =
     \<lparr>or_id = id_of o', or_event = eventID o', or_user = userID o', or_qty = quantity o',
      or_status = status o', or_created = createdAt o',
      or_reserved = (if reservedUntil o' \<noteq> 0 then Some (reservedUntil o') else None),
      or_intent = (if paymentIntentID o' \<noteq> '''' then Some (paymentIntentID o') else None),
      or_tt = (if ticketTypeID o' \<noteq> uuid_Nil then Some (ticketTypeID o') else None),
      or_amount = (if amountCents o' > 0 then Some (amountCents o') else None),
      or_cur = (if currency o' \<noteq> '''' then Some (currency o') else None),
      or_updated = updated\<rparr>"

lemma order_row_fields [simp]:
  "or_id (orderRowFromDomain u o') = id_of o'" "or_user (orderRowFromDomain u o') = userID o'"
  "or_event (orderRowFromDomain u o') = eventID o'" "or_qty (orderRowFromDomain u o') = quantity o'"
  "or_status (orderRowFromDomain u o') = status o'"
  by (simp_all add: orderRowFromDomain_def)

lemma order_row_roundtrip:
  "0 \<le> amountCents o' \<Longrightarrow> order_toDomain (orderRowFromDomain u o') = o'"
  by (auto simp: order_toDomain_def orderRowFromDomain_def ReconstructOrder_def
      intro!: order.equality)

lemma order_toDomain_fields [simp]:
  "id_of (order_toDomain r) = or_id r" "status (order_toDomain r) = or_status r"
  "quantity (order_toDomain r) = or_qty r" "userID (order_toDomain r) = or_user r"
  "eventID (order_toDomain r) = or_event r"
  by (simp_all add: order_toDomain_def ReconstructOrder_def)

definition ticket_type_toDomain :: "ext \<Rightarrow> ticket_type_row \<Rightarrow> ticket_type" where
  "ticket_type_toDomain X r = ReconstructTicketType X (tr_id r) (tr_event r) (tr_name r)
     (tr_price r) (tr_cur r) (tr_total r) (tr_available r) (tr_starts r) (tr_ends r)
     (tr_limit r) (case tr_area r of Some a \<Rightarrow> a | None \<Rightarrow> '''') (tr_version r)"

text \<open>\<open>int32(*v)\<close> narrows the per-user limit.\<close>

definition to_int32 :: "int \<Rightarrow> int" where
  "to_int32 i = (i + 2 ^ 31) mod 2 ^ 32 - 2 ^ 31"

definition ticketTypeRowFromDomain :: "ticket_type \<Rightarrow> ticket_type_row" where
  "ticketTypeRowFromDomain t =
     \<lparr>tr_id = tt_id t, tr_event = tt_eventID t, tr_name = tt_name t, tr_price = tt_priceCents t,
      tr_cur = tt_currency t, tr_total = tt_totalTickets t, tr_available = tt_availableTickets t,
      tr_starts = tt_saleStartsAt t, tr_ends = tt_saleEndsAt t,
      tr_limit = map_option to_int32 (tt_perUserLimit t),
      tr_area = (if tt_areaLabel t \<noteq> '''' then Some (tt_areaLabel t) else None),
      tr_version = tt_version t\<rparr>"

lemma ticket_type_roundtrip:
  assumes "ticket_type_wf t" and "NormalizeCurrency X (tt_currency t) = tt_currency t"
  shows "ticket_type_toDomain X (ticketTypeRowFromDomain t) = t"
proof -
  have "map_option to_int32 (tt_perUserLimit t) = tt_perUserLimit t"
    using assms(1) by (auto simp: ticket_type_wf_def to_int32_def split: option.splits)
  with assms(2) show ?thesis
    by (auto simp: ticket_type_toDomain_def ticketTypeRowFromDomain_def ReconstructTicketType_def
        intro!: ticket_type.equality)
qed

section \<open>What the schema promises\<close>

text \<open>The partial unique index \<open>uq_orders_user_event\<close> (\<open>WHERE status != 'failed'\<close>), the unique index
  on \<open>payment_intent_id\<close> and the primary keys.\<close>

definition user_event_clash :: "order_row \<Rightarrow> order_row \<Rightarrow> bool" where
  "user_event_clash r r' \<longleftrightarrow> or_id r \<noteq> or_id r' \<and> or_user r = or_user r' \<and> or_event r = or_event r' \<and>
     or_status r \<noteq> Failed \<and> or_status r' \<noteq> Failed"

definition intent_clash :: "order_row \<Rightarrow> order_row \<Rightarrow> bool" where
  "intent_clash r r' \<longleftrightarrow> or_id r \<noteq> or_id r' \<and> or_intent r \<noteq> None \<and> or_intent r = or_intent r'"

definition order_violation :: "order_row \<Rightarrow> order_row list \<Rightarrow> bool" where
  "order_violation r rs \<longleftrightarrow> list_ex (\<lambda>x. user_event_clash r x \<or> intent_clash r x) rs"

definition orders_wf :: "order_row list \<Rightarrow> bool" where
  "orders_wf rs \<longleftrightarrow> distinct (map or_id rs) \<and> list_all (\<lambda>r. \<not> order_violation r rs) rs"

definition type_row_ok :: "ticket_type_row \<Rightarrow> bool" where
  "type_row_ok r \<longleftrightarrow> 0 \<le> tr_available r \<and> tr_available r \<le> tr_total r"

definition pg_wf :: "pg \<Rightarrow> bool" where
  "pg_wf p \<longleftrightarrow> orders_wf (pg_orders p) \<and> distinct (map tr_id (pg_types p)) \<and>
     list_all type_row_ok (pg_types p) \<and> distinct (map ob_id (pg_outbox p)) \<and>
     distinct (map sg_id (pg_saga p)) \<and> distinct (map ev_id (pg_events p))"

lemma clash_sym: "user_event_clash r x \<Longrightarrow> user_event_clash x r" "intent_clash r x \<Longrightarrow> intent_clash x r"
  unfolding user_event_clash_def intent_clash_def by metis+

lemma orders_wf_snoc:
  assumes "orders_wf rs" and "or_id r \<notin> or_id ` set rs" and "\<not> order_violation r rs"
  shows "orders_wf (rs @ [r])"
  using assms
  by (auto simp: orders_wf_def order_violation_def list_all_iff list_ex_iff
      dest: clash_sym) (auto simp: user_event_clash_def intent_clash_def)

lemma orders_wf_update:
  assumes wf: "orders_wf rs" and row: "lookup or_id i rs = Some r" and same: "or_id r' = or_id r"
    and ok: "\<not> order_violation r' rs"
  shows "orders_wf (update_where (\<lambda>x. or_id x = i) (\<lambda>_. r') rs)"
proof -
  let ?rs' = "update_where (\<lambda>x. or_id x = i) (\<lambda>_. r') rs"
  have i: "or_id r' = i" using lookup_in_set [OF row] same by simp
  have ids: "map or_id ?rs' = map or_id rs" by (rule keys_update_where) (simp add: i)
  have mem: "x \<in> set ?rs' \<Longrightarrow> x = r' \<or> (x \<in> set rs \<and> or_id x \<noteq> i)" for x
    by (auto simp: update_where_def)
  have "\<not> user_event_clash x y \<and> \<not> intent_clash x y" if "x \<in> set ?rs'" and "y \<in> set ?rs'" for x y
  proof -
    have old: "\<not> user_event_clash a b \<and> \<not> intent_clash a b" if "a \<in> set rs" "b \<in> set rs" for a b
      using wf that by (auto simp: orders_wf_def order_violation_def list_all_iff list_ex_iff)
    have new: "\<not> user_event_clash r' b \<and> \<not> intent_clash r' b" if "b \<in> set rs" for b
      using ok that by (auto simp: order_violation_def list_ex_iff)
    have self: "\<not> user_event_clash a a \<and> \<not> intent_clash a a" for a
      by (simp add: user_event_clash_def intent_clash_def)
    show ?thesis using mem [OF that(1)] mem [OF that(2)] old new self clash_sym by metis
  qed
  with wf ids show ?thesis
    by (auto simp: orders_wf_def order_violation_def list_all_iff list_ex_iff)
qed

section \<open>Statements on orders\<close>

definition sql_insert_order :: "order_row \<Rightarrow> pg \<Rightarrow> err + nat \<times> pg" where
  "sql_insert_order r p =
    (if lookup or_id (or_id r) (pg_orders p) \<noteq> None \<or> order_violation r (pg_orders p)
     then Inl (Sentinel PgUniqueViolation)
     else Inr (1, p\<lparr>pg_orders := pg_orders p @ [r]\<rparr>))"

text \<open>The shared shape of the three statements that move a status: lock the row, update it when the
  guard holds, insert the history row. The update can violate the partial unique index when the
  row leaves \<open>failed\<close>.\<close>

definition sql_transition ::
    "uuid \<Rightarrow> order_status \<Rightarrow> (time \<Rightarrow> order_row \<Rightarrow> bool) \<Rightarrow> pg \<Rightarrow> err + nat \<times> pg" where
  "sql_transition i to guard p = (case lookup or_id i (pg_orders p) of
     None \<Rightarrow> Inr (0, p)
   | Some r \<Rightarrow>
       if \<not> guard (pg_now p) r then Inr (0, p)
       else let r' = r\<lparr>or_status := to, or_updated := pg_now p\<rparr> in
         if order_violation r' (pg_orders p) then Inl (Sentinel PgUniqueViolation)
         else Inr (1, p\<lparr>pg_orders := update_where (\<lambda>x. or_id x = i) (\<lambda>_. r') (pg_orders p),
                        pg_history := pg_history p @
                          [\<lparr>hi_order = i, hi_from = or_status r, hi_to = to\<rparr>]\<rparr>))"

definition payable_row :: "time \<Rightarrow> order_row \<Rightarrow> bool" where
  "payable_row now r \<longleftrightarrow> or_status r = AwaitingPayment \<and>
     (case or_reserved r of Some t \<Rightarrow> t > now | None \<Rightarrow> False)"

definition sql_set_intent :: "uuid \<Rightarrow> string \<Rightarrow> pg \<Rightarrow> err + nat \<times> pg" where
  "sql_set_intent i intent p = (case lookup or_id i (pg_orders p) of
     None \<Rightarrow> Inr (0, p)
   | Some r \<Rightarrow>
       if \<not> (payable_row (pg_now p) r \<and> (or_intent r = None \<or> or_intent r = Some intent))
       then Inr (0, p)
       else let r' = r\<lparr>or_intent := Some intent\<rparr> in
         if order_violation r' (pg_orders p) then Inl (Sentinel PgUniqueViolation)
         else Inr (1, p\<lparr>pg_orders := update_where (\<lambda>x. or_id x = i) (\<lambda>_. r') (pg_orders p)\<rparr>))"

section \<open>The order repository\<close>

definition orderRepo_Create :: "order \<Rightarrow> world \<Rightarrow> (err + order) \<times> world" where
  "orderRepo_Create o' w =
    (let row = orderRowFromDomain (pg_now (w_pg w)) o' in
     case sql_exec (sql_insert_order row) w of
       (Inl e, w1) \<Rightarrow>
         (if errors_Is e PgUniqueViolation then (Inl (Sentinel ErrUserAlreadyBought), w1)
          else (Inl (Wrap ''orderRepository.Create'' e), w1))
     | (Inr n, w1) \<Rightarrow> (Inr (order_toDomain row), w1))"

definition orderRepo_GetByID :: "uuid \<Rightarrow> world \<Rightarrow> (err + order) \<times> world" where
  "orderRepo_GetByID i w = (case sql_query (\<lambda>p. lookup or_id i (pg_orders p)) w of
     (Inl e, w1) \<Rightarrow> (Inl (Wrap ''orderRepository.GetByID'' e), w1)
   | (Inr None, w1) \<Rightarrow> (Inl (Sentinel ErrOrderNotFound), w1)
   | (Inr (Some r), w1) \<Rightarrow> (Inr (order_toDomain r), w1))"

definition orderRepo_transition ::
    "uuid \<Rightarrow> order_status \<Rightarrow> order_status list \<Rightarrow> world \<Rightarrow> (err + unit) \<times> world" where
  "orderRepo_transition i to from w =
    (if from = [] then (Inl (Plain ''transitionStatus: at least one from status required''), w)
     else case sql_exec (sql_transition i to (\<lambda>_ r. or_status r \<in> set from)) w of
       (Inl e, w1) \<Rightarrow> (Inl (Wrap ''orderRepository.transitionStatus'' e), w1)
     | (Inr n, w1) \<Rightarrow>
         (if n = 1 then (Inr (), w1)
          else case orderRepo_GetByID i w1 of
            (Inl e, w2) \<Rightarrow>
              (if errors_Is e ErrOrderNotFound then (Inl (Sentinel ErrOrderNotFound), w2)
               else (Inl (Wrap ''transitionStatus disambiguate via GetByID'' e), w2))
          | (Inr _, w2) \<Rightarrow>
              (Inl (Wrap ''orderRepository.transitionStatus'' (Sentinel ErrInvalidTransition)), w2)))"

definition orderRepo_MarkCharging :: "uuid \<Rightarrow> world \<Rightarrow> (err + unit) \<times> world" where
  "orderRepo_MarkCharging i = orderRepo_transition i Charging [Pending]"

definition orderRepo_MarkConfirmed :: "uuid \<Rightarrow> world \<Rightarrow> (err + unit) \<times> world" where
  "orderRepo_MarkConfirmed i = orderRepo_transition i Confirmed [Pending, Charging]"

definition orderRepo_MarkFailed :: "uuid \<Rightarrow> world \<Rightarrow> (err + unit) \<times> world" where
  "orderRepo_MarkFailed i = orderRepo_transition i Failed [Pending, Charging]"

definition orderRepo_MarkCompensated :: "uuid \<Rightarrow> world \<Rightarrow> (err + unit) \<times> world" where
  "orderRepo_MarkCompensated i = orderRepo_transition i Compensated [Failed, Expired, PaymentFailed]"

definition orderRepo_MarkAwaitingPayment :: "uuid \<Rightarrow> world \<Rightarrow> (err + unit) \<times> world" where
  "orderRepo_MarkAwaitingPayment i = orderRepo_transition i AwaitingPayment [Pending]"

definition orderRepo_MarkExpired :: "uuid \<Rightarrow> world \<Rightarrow> (err + unit) \<times> world" where
  "orderRepo_MarkExpired i = orderRepo_transition i Expired [AwaitingPayment]"

definition orderRepo_MarkPaymentFailed :: "uuid \<Rightarrow> world \<Rightarrow> (err + unit) \<times> world" where
  "orderRepo_MarkPaymentFailed i = orderRepo_transition i PaymentFailed [AwaitingPayment]"

text \<open>Zero rows under the payment guard: which of the three sentinels, by the application's clock.\<close>

definition classifyPaidGuardFailure :: "uuid \<Rightarrow> string \<Rightarrow> world \<Rightarrow> (err + unit) \<times> world" where
  "classifyPaidGuardFailure i expected w = (case orderRepo_GetByID i w of
     (Inl e, w1) \<Rightarrow>
       (if errors_Is e ErrOrderNotFound then (Inl (Sentinel ErrOrderNotFound), w1)
        else (Inl (Wrap ''classifyPaidGuardFailure'' e), w1))
   | (Inr cur, w1) \<Rightarrow>
       (if status cur \<noteq> AwaitingPayment
        then (Inl (Wrap ''orderRepository'' (Sentinel ErrInvalidTransition)), w1)
        else if \<not> reservedUntil cur > w_now w1
        then (Inl (Wrap ''orderRepository'' (Sentinel ErrReservationExpired)), w1)
        else if expected \<noteq> '''' \<and> paymentIntentID cur \<noteq> '''' \<and> paymentIntentID cur \<noteq> expected
        then (Inl (Wrap ''intent id mismatch'' (Sentinel ErrInvalidTransition)), w1)
        else (Inl (Plain ''0 rows under apparently-valid predicate''), w1)))"

definition orderRepo_MarkPaid :: "uuid \<Rightarrow> world \<Rightarrow> (err + unit) \<times> world" where
  "orderRepo_MarkPaid i w = (case sql_exec (sql_transition i Paid payable_row) w of
     (Inl e, w1) \<Rightarrow> (Inl (Wrap ''orderRepository.MarkPaid'' e), w1)
   | (Inr n, w1) \<Rightarrow> (if n = 1 then (Inr (), w1) else classifyPaidGuardFailure i '''' w1))"

definition orderRepo_SetPaymentIntentID :: "uuid \<Rightarrow> string \<Rightarrow> world \<Rightarrow> (err + unit) \<times> world" where
  "orderRepo_SetPaymentIntentID i intent w = (case sql_exec (sql_set_intent i intent) w of
     (Inl e, w1) \<Rightarrow> (Inl (Wrap ''orderRepository.SetPaymentIntentID'' e), w1)
   | (Inr n, w1) \<Rightarrow> (if n = 0 then classifyPaidGuardFailure i intent w1 else (Inr (), w1)))"

definition orderRepo_FindByPaymentIntentID :: "string \<Rightarrow> world \<Rightarrow> (err + order) \<times> world" where
  "orderRepo_FindByPaymentIntentID intent w =
    (if intent = '''' then (Inl (Plain ''FindByPaymentIntentID: empty payment_intent_id''), w)
     else case sql_query (\<lambda>p. lookup or_intent (Some intent) (pg_orders p)) w of
       (Inl e, w1) \<Rightarrow> (Inl (Wrap ''orderRepository.FindByPaymentIntentID'' e), w1)
     | (Inr None, w1) \<Rightarrow> (Inl (Sentinel ErrOrderNotFound), w1)
     | (Inr (Some r), w1) \<Rightarrow> (Inr (order_toDomain r), w1))"

text \<open>Ages are computed by the database; \<open>ORDER BY ... LIMIT\<close> is a stable sort and a prefix.\<close>

definition sql_find_stuck :: "order_status list \<Rightarrow> duration \<Rightarrow> int \<Rightarrow> pg \<Rightarrow> order_row list" where
  "sql_find_stuck sts minAge limit p = take (nat limit) (sort_key or_updated
     (filter (\<lambda>r. or_status r \<in> set sts \<and> or_updated r < pg_now p - minAge) (pg_orders p)))"

definition orderRepo_FindStuckCharging ::
    "duration \<Rightarrow> int \<Rightarrow> world \<Rightarrow> (err + (uuid \<times> duration \<times> string) list) \<times> world" where
  "orderRepo_FindStuckCharging minAge limit w = (case sql_query (\<lambda>p.
       map (\<lambda>r. (or_id r, pg_now p - or_updated r, case or_intent r of Some s \<Rightarrow> s | None \<Rightarrow> ''''))
         (sql_find_stuck [Charging] minAge limit p)) w of
     (Inl e, w1) \<Rightarrow> (Inl (Wrap ''orderRepository.FindStuckCharging'' e), w1)
   | (Inr xs, w1) \<Rightarrow> (Inr xs, w1))"

definition orderRepo_FindStuckFailed ::
    "duration \<Rightarrow> int \<Rightarrow> world \<Rightarrow> (err + (uuid \<times> duration) list) \<times> world" where
  "orderRepo_FindStuckFailed minAge limit w = (case sql_query (\<lambda>p.
       map (\<lambda>r. (or_id r, pg_now p - or_updated r))
         (sql_find_stuck [Failed, Expired, PaymentFailed] minAge limit p)) w of
     (Inl e, w1) \<Rightarrow> (Inl (Wrap ''orderRepository.FindStuckFailed'' e), w1)
   | (Inr xs, w1) \<Rightarrow> (Inr xs, w1))"

definition overdue_row :: "duration \<Rightarrow> time \<Rightarrow> order_row \<Rightarrow> bool" where
  "overdue_row grace now r \<longleftrightarrow> or_status r = AwaitingPayment \<and>
     (case or_reserved r of Some t \<Rightarrow> t \<le> now - grace | None \<Rightarrow> False)"

abbreviation reserved_key :: "order_row \<Rightarrow> time" where
  "reserved_key r \<equiv> (case or_reserved r of Some t \<Rightarrow> t | None \<Rightarrow> 0)"

definition orderRepo_FindExpiredReservations ::
    "duration \<Rightarrow> int \<Rightarrow> world \<Rightarrow> (err + (uuid \<times> duration) list) \<times> world" where
  "orderRepo_FindExpiredReservations grace limit w = (case sql_query (\<lambda>p.
       map (\<lambda>r. (or_id r, pg_now p - reserved_key r))
         (take (nat limit) (sort_key reserved_key
            (filter (overdue_row grace (pg_now p)) (pg_orders p))))) w of
     (Inl e, w1) \<Rightarrow> (Inl (Wrap ''orderRepository.FindExpiredReservations'' e), w1)
   | (Inr xs, w1) \<Rightarrow> (Inr xs, w1))"

definition orderRepo_CountOverdueAfterCutoff ::
    "duration \<Rightarrow> world \<Rightarrow> (err + nat \<times> duration) \<times> world" where
  "orderRepo_CountOverdueAfterCutoff grace w = (case sql_query (\<lambda>p.
       let rs = filter (overdue_row grace (pg_now p)) (pg_orders p) in
       (length rs, if rs = [] then 0 else pg_now p - Min (reserved_key ` set rs))) w of
     (Inl e, w1) \<Rightarrow> (Inl (Wrap ''orderRepository.CountOverdueAfterCutoff'' e), w1)
   | (Inr x, w1) \<Rightarrow> (Inr x, w1))"

definition orderRepo_ListOrders ::
    "int \<Rightarrow> int \<Rightarrow> order_status option \<Rightarrow> world \<Rightarrow> (err + order list \<times> nat) \<times> world" where
  "orderRepo_ListOrders limit offset st w =
    (let sel = (\<lambda>p. filter (\<lambda>r. case st of None \<Rightarrow> True | Some s \<Rightarrow> or_status r = s) (pg_orders p)) in
     case sql_query (\<lambda>p. length (sel p)) w of
       (Inl e, w1) \<Rightarrow> (Inl (Wrap ''orderRepository.ListOrders count'' e), w1)
     | (Inr n, w1) \<Rightarrow>
         (case sql_query (\<lambda>p. map order_toDomain
             (take (nat limit) (drop (nat offset) (rev (sort_key or_created (sel p)))))) w1 of
            (Inl e, w2) \<Rightarrow> (Inl (Wrap ''orderRepository.ListOrders query'' e), w2)
          | (Inr os, w2) \<Rightarrow> (Inr (os, n), w2)))"


section \<open>The other repositories\<close>

definition sql_insert_type :: "ticket_type_row \<Rightarrow> pg \<Rightarrow> err + nat \<times> pg" where
  "sql_insert_type r p =
    (if list_ex (\<lambda>x. tr_id x = tr_id r \<or> (tr_event x = tr_event r \<and> tr_name x = tr_name r)) (pg_types p)
     then Inl (Sentinel PgUniqueViolation)
     else if tr_available r < 0 then Inl (Sentinel PgCheckViolation)
     else Inr (1, p\<lparr>pg_types := pg_types p @ [r]\<rparr>))"

definition sql_decrement_type :: "uuid \<Rightarrow> int \<Rightarrow> pg \<Rightarrow> err + nat \<times> pg" where
  "sql_decrement_type i q p =
    (let P = (\<lambda>r. tr_id r = i \<and> tr_available r \<ge> q) in
     Inr (count_where P (pg_types p),
          p\<lparr>pg_types := update_where P (\<lambda>r. r\<lparr>tr_available := tr_available r - q\<rparr>) (pg_types p)\<rparr>))"

definition sql_increment_type :: "uuid \<Rightarrow> int \<Rightarrow> pg \<Rightarrow> err + nat \<times> pg" where
  "sql_increment_type i q p =
    (let P = (\<lambda>r. tr_id r = i \<and> tr_available r + q \<le> tr_total r) in
     if list_ex (\<lambda>r. P r \<and> tr_available r + q < 0) (pg_types p) then Inl (Sentinel PgCheckViolation)
     else Inr (count_where P (pg_types p),
          p\<lparr>pg_types := update_where P (\<lambda>r. r\<lparr>tr_available := tr_available r + q\<rparr>) (pg_types p)\<rparr>))"

definition ticketTypeRepo_Create :: "ext \<Rightarrow> ticket_type \<Rightarrow> world \<Rightarrow> (err + ticket_type) \<times> world" where
  "ticketTypeRepo_Create X t w =
    (let row = ticketTypeRowFromDomain t in
     case sql_exec (sql_insert_type row) w of
       (Inl e, w1) \<Rightarrow>
         (if errors_Is e PgUniqueViolation then (Inl (Sentinel ErrTicketTypeNameTaken), w1)
          else (Inl (Wrap ''ticketTypeRepository.Create'' e), w1))
     | (Inr n, w1) \<Rightarrow> (Inr (ticket_type_toDomain X row), w1))"

definition ticketTypeRepo_GetByID :: "ext \<Rightarrow> uuid \<Rightarrow> world \<Rightarrow> (err + ticket_type) \<times> world" where
  "ticketTypeRepo_GetByID X i w = (case sql_query (\<lambda>p. lookup tr_id i (pg_types p)) w of
     (Inl e, w1) \<Rightarrow> (Inl (Wrap ''ticketTypeRepository.GetByID'' e), w1)
   | (Inr None, w1) \<Rightarrow> (Inl (Sentinel ErrTicketTypeNotFound), w1)
   | (Inr (Some r), w1) \<Rightarrow> (Inr (ticket_type_toDomain X r), w1))"

definition ticketTypeRepo_Delete :: "uuid \<Rightarrow> world \<Rightarrow> (err + unit) \<times> world" where
  "ticketTypeRepo_Delete i w = (case sql_exec (\<lambda>p. Inr (count_where (\<lambda>r. tr_id r = i) (pg_types p),
       p\<lparr>pg_types := filter (\<lambda>r. tr_id r \<noteq> i) (pg_types p)\<rparr>)) w of
     (Inl e, w1) \<Rightarrow> (Inl (Wrap ''ticketTypeRepository.Delete'' e), w1)
   | (Inr _, w1) \<Rightarrow> (Inr (), w1))"

definition ticketTypeRepo_ListByEventID ::
    "ext \<Rightarrow> uuid \<Rightarrow> world \<Rightarrow> (err + ticket_type list) \<times> world" where
  "ticketTypeRepo_ListByEventID X ev w = (case sql_query (\<lambda>p. map (ticket_type_toDomain X)
       (sort_key tr_id (filter (\<lambda>r. tr_event r = ev) (pg_types p)))) w of
     (Inl e, w1) \<Rightarrow> (Inl (Wrap ''ticketTypeRepository.ListByEventID'' e), w1)
   | (Inr ts, w1) \<Rightarrow> (Inr ts, w1))"

definition ticketTypeRepo_DecrementTicket :: "uuid \<Rightarrow> int \<Rightarrow> world \<Rightarrow> (err + unit) \<times> world" where
  "ticketTypeRepo_DecrementTicket i q w = (case sql_exec (sql_decrement_type i q) w of
     (Inl e, w1) \<Rightarrow> (Inl (Wrap ''ticketTypeRepository.DecrementTicket exec'' e), w1)
   | (Inr n, w1) \<Rightarrow> (if n = 0 then (Inl (Sentinel ErrTicketTypeSoldOut), w1) else (Inr (), w1)))"

definition ticketTypeRepo_IncrementTicket :: "uuid \<Rightarrow> int \<Rightarrow> world \<Rightarrow> (err + unit) \<times> world" where
  "ticketTypeRepo_IncrementTicket i q w = (case sql_exec (sql_increment_type i q) w of
     (Inl e, w1) \<Rightarrow> (Inl (Wrap ''ticketTypeRepository.IncrementTicket exec'' e), w1)
   | (Inr n, w1) \<Rightarrow>
       (if n = 0 then (Inl (Plain ''IncrementTicket: not found or exceeds total tickets''), w1)
        else (Inr (), w1)))"

definition ticketTypeRepo_SumAvailableByEventID :: "uuid \<Rightarrow> world \<Rightarrow> (err + int) \<times> world" where
  "ticketTypeRepo_SumAvailableByEventID ev w = (case sql_query (\<lambda>p.
       sum_list (map tr_available (filter (\<lambda>r. tr_event r = ev) (pg_types p)))) w of
     (Inl e, w1) \<Rightarrow> (Inl (Wrap ''ticketTypeRepository.SumAvailableByEventID'' e), w1)
   | (Inr n, w1) \<Rightarrow> (Inr n, w1))"

definition eventRepo_Create :: "event \<Rightarrow> world \<Rightarrow> (err + event) \<times> world" where
  "eventRepo_Create e w = (case sql_exec (\<lambda>p.
       if lookup ev_id (ev_id e) (pg_events p) \<noteq> None then Inl (Sentinel PgUniqueViolation)
       else if ev_availableTickets e < 0 then Inl (Sentinel PgCheckViolation)
       else Inr (1, p\<lparr>pg_events := pg_events p @ [e]\<rparr>)) w of
     (Inl x, w1) \<Rightarrow> (Inl (Wrap ''eventRepository.Create'' x), w1)
   | (Inr _, w1) \<Rightarrow> (Inr e, w1))"

definition eventRepo_GetByID :: "uuid \<Rightarrow> world \<Rightarrow> (err + event) \<times> world" where
  "eventRepo_GetByID i w = (case sql_query (\<lambda>p. lookup ev_id i (pg_events p)) w of
     (Inl e, w1) \<Rightarrow> (Inl (Wrap ''eventRepository.GetByID'' e), w1)
   | (Inr None, w1) \<Rightarrow> (Inl (Sentinel ErrEventNotFound), w1)
   | (Inr (Some e), w1) \<Rightarrow> (Inr e, w1))"

definition eventRepo_ListAvailable :: "world \<Rightarrow> (err + event list) \<times> world" where
  "eventRepo_ListAvailable w = (case sql_query (\<lambda>p.
       rev (sort_key ev_id (filter (\<lambda>e. ev_availableTickets e > 0) (pg_events p)))) w of
     (Inl e, w1) \<Rightarrow> (Inl (Wrap ''eventRepository.ListAvailable'' e), w1)
   | (Inr es, w1) \<Rightarrow> (Inr es, w1))"

definition eventRepo_Delete :: "uuid \<Rightarrow> world \<Rightarrow> (err + unit) \<times> world" where
  "eventRepo_Delete i w = (case sql_exec (\<lambda>p. Inr (count_where (\<lambda>r. ev_id r = i) (pg_events p),
       p\<lparr>pg_events := filter (\<lambda>r. ev_id r \<noteq> i) (pg_events p)\<rparr>)) w of
     (Inl e, w1) \<Rightarrow> (Inl (Wrap ''eventRepository.Delete'' e), w1)
   | (Inr _, w1) \<Rightarrow> (Inr (), w1))"

definition sql_insert_outbox :: "outbox_event \<Rightarrow> pg \<Rightarrow> err + nat \<times> pg" where
  "sql_insert_outbox e p =
    (if lookup ob_id (ob_id e) (pg_outbox p) \<noteq> None then Inl (Sentinel PgUniqueViolation)
     else Inr (1, p\<lparr>pg_outbox := pg_outbox p @ [e]\<rparr>))"

definition outboxRepo_Create :: "outbox_event \<Rightarrow> world \<Rightarrow> (err + outbox_event) \<times> world" where
  "outboxRepo_Create e w = (case sql_exec (sql_insert_outbox (e\<lparr>ob_processedAt := None\<rparr>)) w of
     (Inl x, w1) \<Rightarrow> (Inl (Wrap ''outboxRepository.Create'' x), w1)
   | (Inr _, w1) \<Rightarrow> (Inr (e\<lparr>ob_processedAt := None\<rparr>), w1))"

definition outboxRepo_ListPending :: "int \<Rightarrow> world \<Rightarrow> (err + outbox_event list) \<times> world" where
  "outboxRepo_ListPending limit w = (case sql_query (\<lambda>p. take (nat limit)
       (sort_key ob_id (filter (\<lambda>e. ob_processedAt e = None) (pg_outbox p)))) w of
     (Inl e, w1) \<Rightarrow> (Inl (Wrap ''outboxRepository.ListPending'' e), w1)
   | (Inr es, w1) \<Rightarrow> (Inr es, w1))"

definition sql_mark_processed :: "uuid \<Rightarrow> pg \<Rightarrow> err + nat \<times> pg" where
  "sql_mark_processed i p = Inr (count_where (\<lambda>e. ob_id e = i) (pg_outbox p),
     p\<lparr>pg_outbox := update_where (\<lambda>e. ob_id e = i) (\<lambda>e. e\<lparr>ob_processedAt := Some (pg_now p)\<rparr>)
        (pg_outbox p)\<rparr>)"

definition outboxRepo_MarkProcessed :: "uuid \<Rightarrow> world \<Rightarrow> (err + unit) \<times> world" where
  "outboxRepo_MarkProcessed i w = (case sql_exec (sql_mark_processed i) w of
     (Inl e, w1) \<Rightarrow> (Inl (Wrap ''outboxRepository.MarkProcessed'' e), w1)
   | (Inr _, w1) \<Rightarrow> (Inr (), w1))"

definition sql_record_completion :: "string \<Rightarrow> uuid \<Rightarrow> pg \<Rightarrow> err + nat \<times> pg" where
  "sql_record_completion cid i p =
    (if lookup sg_id cid (pg_saga p) \<noteq> None then Inr (0, p)
     else Inr (1, p\<lparr>pg_saga := pg_saga p @ [\<lparr>sg_id = cid, sg_order = i, sg_reverted = None\<rparr>]\<rparr>))"

definition sagaRepo_RecordCompletion :: "string \<Rightarrow> uuid \<Rightarrow> world \<Rightarrow> (err + nat) \<times> world" where
  "sagaRepo_RecordCompletion cid i w = (case sql_exec (sql_record_completion cid i) w of
     (Inl e, w1) \<Rightarrow> (Inl (Wrap ''sagaCompRepo.RecordCompletion'' e), w1)
   | (Inr n, w1) \<Rightarrow> (Inr n, w1))"

definition sagaRepo_WasRedisReverted :: "string \<Rightarrow> world \<Rightarrow> (err + bool) \<times> world" where
  "sagaRepo_WasRedisReverted cid w = (case sql_query (\<lambda>p. lookup sg_id cid (pg_saga p)) w of
     (Inl e, w1) \<Rightarrow> (Inl (Wrap ''sagaCompRepo.WasRedisReverted'' e), w1)
   | (Inr None, w1) \<Rightarrow> (Inr False, w1)
   | (Inr (Some r), w1) \<Rightarrow> (Inr (sg_reverted r \<noteq> None), w1))"

definition sql_mark_reverted :: "string \<Rightarrow> pg \<Rightarrow> err + nat \<times> pg" where
  "sql_mark_reverted cid p = Inr (count_where (\<lambda>r. sg_id r = cid) (pg_saga p),
     p\<lparr>pg_saga := update_where (\<lambda>r. sg_id r = cid) (\<lambda>r. r\<lparr>sg_reverted := Some (pg_now p)\<rparr>) (pg_saga p)\<rparr>)"

definition sagaRepo_MarkRedisReverted :: "string \<Rightarrow> world \<Rightarrow> (err + unit) \<times> world" where
  "sagaRepo_MarkRedisReverted cid w = (case sql_exec (sql_mark_reverted cid) w of
     (Inl e, w1) \<Rightarrow> (Inl (Wrap ''sagaCompRepo.MarkRedisReverted'' e), w1)
   | (Inr n, w1) \<Rightarrow>
       (if n = 0 then (Inl (Plain ''sagaCompRepo.MarkRedisReverted: no row found''), w1)
        else (Inr (), w1)))"

section \<open>The advisory lock\<close>

text \<open>\<open>advisory_lock.go\<close>: \<open>conn\<close> says whether this process pins a connection for the lock,
  \<open>held\<close> whether another session holds it.\<close>

definition pgAdvisoryLock_TryLock :: "bool \<Rightarrow> bool \<Rightarrow> world \<Rightarrow> (err + bool) \<times> bool \<times> world" where
  "pgAdvisoryLock_TryLock held conn w =
    (if conn then (Inr True, True, w)
     else case io w of
       (Works, w1) \<Rightarrow> (case sql_query (\<lambda>_. \<not> held) w1 of
          (Inl e, w2) \<Rightarrow> (Inl e, False, w2)
        | (Inr acquired, w2) \<Rightarrow> (Inr acquired, acquired, w2))
     | (_, w1) \<Rightarrow> (Inl (Sentinel DbUnavailable), False, w1))"

definition pgAdvisoryLock_Unlock :: "bool \<Rightarrow> world \<Rightarrow> (err + unit) \<times> bool \<times> world" where
  "pgAdvisoryLock_Unlock conn w =
    (if \<not> conn then (Inr (), False, w)
     else case sql_query (\<lambda>_. ()) w of (r, w1) \<Rightarrow> (r, False, w1))"

section \<open>The statements keep the schema's promise\<close>

lemma pg_wf_insert_order [preserves]:
  "sql_insert_order r p = Inr (n, p') \<Longrightarrow> pg_wf p \<Longrightarrow> pg_wf p'"
  by (auto simp: sql_insert_order_def pg_wf_def lookup_None_iff split: if_splits
      intro!: orders_wf_snoc)

lemma pg_wf_transition [preserves]:
  "sql_transition i to g p = Inr (n, p') \<Longrightarrow> pg_wf p \<Longrightarrow> pg_wf p'"
  by (auto simp: sql_transition_def pg_wf_def Let_def split: option.splits if_splits)
    (rule orders_wf_update; (assumption | simp))

lemma pg_wf_set_intent [preserves]:
  "sql_set_intent i s p = Inr (n, p') \<Longrightarrow> pg_wf p \<Longrightarrow> pg_wf p'"
  by (auto simp: sql_set_intent_def pg_wf_def Let_def split: option.splits if_splits)
    (rule orders_wf_update; (assumption | simp))+

lemma pg_wf_insert_type [preserves]:
  "sql_insert_type r p = Inr (n, p') \<Longrightarrow> type_row_ok r \<Longrightarrow> pg_wf p \<Longrightarrow> pg_wf p'"
  by (auto simp: sql_insert_type_def pg_wf_def list_ex_iff split: if_splits) metis

lemma types_update_ok:
  assumes "list_all type_row_ok rs" and "\<And>r. P r \<Longrightarrow> type_row_ok r \<Longrightarrow> type_row_ok (f r)"
  shows "list_all type_row_ok (update_where P f rs)"
  using assms by (induction rs) auto

lemma pg_wf_decrement [preserves]:
  assumes "sql_decrement_type i q p = Inr (n, p')" and "0 \<le> q" and "pg_wf p"
  shows "pg_wf p'"
  using assms
  by (auto simp: sql_decrement_type_def pg_wf_def Let_def keys_update_where type_row_ok_def
      intro!: types_update_ok)

lemma pg_wf_increment [preserves]:
  assumes "sql_increment_type i q p = Inr (n, p')" and "0 \<le> q" and "pg_wf p"
  shows "pg_wf p'"
  using assms
  by (auto simp: sql_increment_type_def pg_wf_def Let_def keys_update_where type_row_ok_def
      intro!: types_update_ok split: if_splits)

lemma sql_increment_type_runs:
  "pg_wf p \<Longrightarrow> 0 \<le> q \<Longrightarrow> sql_increment_type i q p =
     (let P = (\<lambda>r. tr_id r = i \<and> tr_available r + q \<le> tr_total r) in
      Inr (count_where P (pg_types p), p\<lparr>pg_types := update_where P (\<lambda>r. r\<lparr>tr_available := tr_available r + q\<rparr>) (pg_types p)\<rparr>))"
  by (fastforce simp: sql_increment_type_def Let_def list_ex_iff pg_wf_def list_all_iff type_row_ok_def)

lemma pg_wf_insert_outbox [preserves]:
  "sql_insert_outbox e p = Inr (n, p') \<Longrightarrow> pg_wf p \<Longrightarrow> pg_wf p'"
  by (auto simp: sql_insert_outbox_def pg_wf_def lookup_None_iff image_iff split: if_splits)

lemma pg_wf_mark_processed [preserves]:
  "sql_mark_processed i p = Inr (n, p') \<Longrightarrow> pg_wf p \<Longrightarrow> pg_wf p'"
  by (auto simp: sql_mark_processed_def pg_wf_def keys_update_where)

lemma pg_wf_record_completion [preserves]:
  "sql_record_completion c i p = Inr (n, p') \<Longrightarrow> pg_wf p \<Longrightarrow> pg_wf p'"
  by (auto simp: sql_record_completion_def pg_wf_def lookup_None_iff image_iff split: if_splits)

lemma pg_wf_mark_reverted [preserves]:
  "sql_mark_reverted c p = Inr (n, p') \<Longrightarrow> pg_wf p \<Longrightarrow> pg_wf p'"
  by (auto simp: sql_mark_reverted_def pg_wf_def keys_update_where)

lemma pg_wf_clock [simp]: "pg_wf (p\<lparr>pg_now := t\<rparr>) = pg_wf p"
  by (simp add: pg_wf_def)

lemma sql_exec_keeps:
  assumes "sql_exec stmt w = (r, w')" and "I (w_pg w)"
    and "\<And>n p. stmt (w_pg w) = Inr (n, p) \<Longrightarrow> I p"
  shows "I (w_pg w')"
  using assms(1) by (rule sql_exec_cases) (use assms(2,3) in auto)

section \<open>The status machine of a row\<close>

fun orderRepo_mark :: "mark_op \<Rightarrow> uuid \<Rightarrow> world \<Rightarrow> (err + unit) \<times> world" where
  "orderRepo_mark MarkCharging i = orderRepo_MarkCharging i"
| "orderRepo_mark MarkConfirmed i = orderRepo_MarkConfirmed i"
| "orderRepo_mark MarkFailed i = orderRepo_MarkFailed i"
| "orderRepo_mark MarkCompensated i = orderRepo_MarkCompensated i"
| "orderRepo_mark MarkAwaitingPayment i = orderRepo_MarkAwaitingPayment i"
| "orderRepo_mark MarkPaid i = orderRepo_MarkPaid i"
| "orderRepo_mark MarkExpired i = orderRepo_MarkExpired i"
| "orderRepo_mark MarkPaymentFailed i = orderRepo_MarkPaymentFailed i"

lemmas orderRepo_Mark_defs [branch_defs] =
  orderRepo_MarkCharging_def orderRepo_MarkConfirmed_def orderRepo_MarkFailed_def
  orderRepo_MarkCompensated_def orderRepo_MarkAwaitingPayment_def orderRepo_MarkExpired_def
  orderRepo_MarkPaymentFailed_def

primrec mark_target :: "mark_op \<Rightarrow> order_status" where
  "mark_target MarkCharging = Charging"
| "mark_target MarkConfirmed = Confirmed"
| "mark_target MarkFailed = Failed"
| "mark_target MarkCompensated = Compensated"
| "mark_target MarkAwaitingPayment = AwaitingPayment"
| "mark_target MarkPaid = Paid"
| "mark_target MarkExpired = Expired"
| "mark_target MarkPaymentFailed = PaymentFailed"

definition mark_guard :: "mark_op \<Rightarrow> time \<Rightarrow> order_row \<Rightarrow> bool" where
  "mark_guard m now r \<longleftrightarrow> edge (or_status r) m (mark_target m) \<and> (m = MarkPaid \<longrightarrow> payable_row now r)"

primrec mark_from :: "mark_op \<Rightarrow> order_status list" where
  "mark_from MarkCharging = [Pending]"
| "mark_from MarkConfirmed = [Pending, Charging]"
| "mark_from MarkFailed = [Pending, Charging]"
| "mark_from MarkCompensated = [Failed, Expired, PaymentFailed]"
| "mark_from MarkAwaitingPayment = [Pending]"
| "mark_from MarkPaid = [AwaitingPayment]"
| "mark_from MarkExpired = [AwaitingPayment]"
| "mark_from MarkPaymentFailed = [AwaitingPayment]"

lemma mark_is_transition:
  "m \<noteq> MarkPaid \<Longrightarrow> orderRepo_mark m i = orderRepo_transition i (mark_target m) (mark_from m)"
  by (cases m) (simp_all add: orderRepo_Mark_defs)

lemma mark_from_guard:
  "m \<noteq> MarkPaid \<Longrightarrow> (or_status r \<in> set (mark_from m)) = mark_guard m now r"
  by (cases m) (auto simp: mark_guard_def edge_simps)

lemma edge_target: "edge s m t \<longleftrightarrow> t = mark_target m \<and> edge s m (mark_target m)"
  by (cases m) (auto simp: edge_simps)

lemma GetByID_frame:
  "orderRepo_GetByID i w = (r, w') \<Longrightarrow> w_pg w' = w_pg w \<and> w_rd w' = w_rd w \<and> w_now w' = w_now w \<and>
    w_intake w' = w_intake w \<and> w_failed w' = w_failed w \<and> w_bus w' = w_bus w \<and>
    w_metrics w' = w_metrics w \<and> w_uuids w' = w_uuids w"
  by (auto simp: orderRepo_GetByID_def split: prod.splits sum.splits option.splits dest!: sql_query_frame)

lemma GetByID_result:
  "orderRepo_GetByID i w = (Inr o', w') \<Longrightarrow> \<exists>r. lookup or_id i (pg_orders (w_pg w)) = Some r \<and> o' = order_toDomain r"
  by (auto simp: orderRepo_GetByID_def split: prod.splits sum.splits option.splits dest!: sql_query_result)
    metis

lemma classify_frame:
  "classifyPaidGuardFailure i s w = (r, w') \<Longrightarrow> \<not> is_ok r \<and> w_pg w' = w_pg w \<and> w_rd w' = w_rd w \<and>
    w_now w' = w_now w \<and> w_intake w' = w_intake w \<and> w_failed w' = w_failed w \<and> w_bus w' = w_bus w"
  by (auto simp: classifyPaidGuardFailure_def split: prod.splits sum.splits if_splits
      dest!: GetByID_frame)

lemma sql_transition_effect:
  assumes "sql_transition i to g p = Inr (n, p')"
  shows "n = 0 \<and> p' = p \<or>
    (\<exists>r. n = 1 \<and> lookup or_id i (pg_orders p) = Some r \<and> g (pg_now p) r \<and>
       \<not> order_violation (r\<lparr>or_status := to, or_updated := pg_now p\<rparr>) (pg_orders p) \<and>
       p' = p\<lparr>pg_orders := update_where (\<lambda>x. or_id x = i)
                (\<lambda>_. r\<lparr>or_status := to, or_updated := pg_now p\<rparr>) (pg_orders p),
              pg_history := pg_history p @ [\<lparr>hi_order = i, hi_from = or_status r, hi_to = to\<rparr>]\<rparr>)"
  using assms by (auto simp: sql_transition_def Let_def split: option.splits if_splits)

text \<open>Whatever fails, a transition either leaves the database or moves the one row along its edge.\<close>

definition moved :: "mark_op \<Rightarrow> uuid \<Rightarrow> pg \<Rightarrow> pg \<Rightarrow> bool" where
  "moved m i p p' \<longleftrightarrow> (\<exists>r. lookup or_id i (pg_orders p) = Some r \<and> mark_guard m (pg_now p) r \<and>
     \<not> order_violation (r\<lparr>or_status := mark_target m, or_updated := pg_now p\<rparr>) (pg_orders p) \<and>
     p' = p\<lparr>pg_orders := update_where (\<lambda>x. or_id x = i)
              (\<lambda>_. r\<lparr>or_status := mark_target m, or_updated := pg_now p\<rparr>) (pg_orders p),
            pg_history := pg_history p @
              [\<lparr>hi_order = i, hi_from = or_status r, hi_to = mark_target m\<rparr>]\<rparr>)"

lemma sql_transition_moved:
  assumes "sql_transition i (mark_target m) g p = Inr (n, p')"
    and "\<And>r. g (pg_now p) r = mark_guard m (pg_now p) r"
  shows "n = 0 \<and> p' = p \<or> n = 1 \<and> moved m i p p'"
  using sql_transition_effect [OF assms(1)] by (auto simp: moved_def assms(2))

lemma orderRepo_transition_outcome:
  assumes run: "orderRepo_transition i (mark_target m) sts w = (res, w')"
    and guard: "\<And>r now. (or_status r \<in> set sts) = mark_guard m now r"
  shows "(is_ok res \<longrightarrow> moved m i (w_pg w) (w_pg w')) \<and>
    (w_pg w' = w_pg w \<or> moved m i (w_pg w) (w_pg w')) \<and> w_rd w' = w_rd w \<and> w_now w' = w_now w \<and>
    w_intake w' = w_intake w \<and> w_failed w' = w_failed w \<and> w_bus w' = w_bus w"
proof (cases "sts = []")
  case True
  with run show ?thesis by (auto simp: orderRepo_transition_def)
next
  case False
  let ?st = "sql_transition i (mark_target m) (\<lambda>_ r. or_status r \<in> set sts)"
  obtain re w1 where e: "sql_exec ?st w = (re, w1)" by (cases "sql_exec ?st w")
  have tr: "?st (w_pg w) = Inr (n, p) \<Longrightarrow> n = 0 \<and> p = w_pg w \<or> n = 1 \<and> moved m i (w_pg w) p" for n p
    by (erule sql_transition_moved) (simp add: guard)
  have ok: "re = Inr n \<Longrightarrow> n = 0 \<and> w_pg w1 = w_pg w \<or> n = 1 \<and> moved m i (w_pg w) (w_pg w1)" for n
    using tr sql_exec_Inr e by blast
  have any: "w_pg w1 = w_pg w \<or> moved m i (w_pg w) (w_pg w1)"
    using e by (rule sql_exec_cases) (use tr in auto)
  show ?thesis using run False e ok any sql_exec_frame [OF e]
    by (auto simp: orderRepo_transition_def split: sum.splits prod.splits if_splits
        dest!: GetByID_frame)
qed

lemma orderRepo_MarkPaid_outcome:
  assumes run: "orderRepo_MarkPaid i w = (res, w')"
  shows "(is_ok res \<longrightarrow> moved MarkPaid i (w_pg w) (w_pg w')) \<and>
    (w_pg w' = w_pg w \<or> moved MarkPaid i (w_pg w) (w_pg w')) \<and> w_rd w' = w_rd w \<and> w_now w' = w_now w \<and>
    w_intake w' = w_intake w \<and> w_failed w' = w_failed w \<and> w_bus w' = w_bus w"
proof -
  let ?st = "sql_transition i (mark_target MarkPaid) payable_row"
  obtain re w1 where e: "sql_exec ?st w = (re, w1)" by (cases "sql_exec ?st w")
  have tr: "?st (w_pg w) = Inr (n, p) \<Longrightarrow> n = 0 \<and> p = w_pg w \<or> n = 1 \<and> moved MarkPaid i (w_pg w) p" for n p
    by (erule sql_transition_moved) (auto simp: mark_guard_def payable_row_def edge_simps)
  have ok: "re = Inr n \<Longrightarrow> n = 0 \<and> w_pg w1 = w_pg w \<or> n = 1 \<and> moved MarkPaid i (w_pg w) (w_pg w1)" for n
    using tr sql_exec_Inr e by blast
  have any: "w_pg w1 = w_pg w \<or> moved MarkPaid i (w_pg w) (w_pg w1)"
    using e by (rule sql_exec_cases) (use tr in auto)
  show ?thesis using run e ok any sql_exec_frame [OF e]
    by (auto simp: orderRepo_MarkPaid_def split: sum.splits prod.splits if_splits
        dest!: classify_frame)
qed

lemma orderRepo_mark_outcome:
  assumes run: "orderRepo_mark m i w = (res, w')"
  shows "(is_ok res \<longrightarrow> moved m i (w_pg w) (w_pg w')) \<and>
    (w_pg w' = w_pg w \<or> moved m i (w_pg w) (w_pg w')) \<and> w_rd w' = w_rd w \<and> w_now w' = w_now w \<and>
    w_intake w' = w_intake w \<and> w_failed w' = w_failed w \<and> w_bus w' = w_bus w"
proof (cases "m = MarkPaid")
  case True
  with orderRepo_MarkPaid_outcome run show ?thesis by simp
next
  case False
  note f = mark_is_transition [OF this]
  from orderRepo_transition_outcome [OF run [unfolded f] mark_from_guard [OF False]] show ?thesis .
qed

lemma moved_pg_wf: "moved m i p p' \<Longrightarrow> pg_wf p \<Longrightarrow> pg_wf p'"
  by (auto simp: moved_def pg_wf_def) (rule orders_wf_update; (assumption | simp))

lemma moved_row:
  assumes "moved m i p p'"
  shows "\<exists>r. lookup or_id i (pg_orders p) = Some r \<and> mark_guard m (pg_now p) r \<and>
    lookup or_id i (pg_orders p') = Some (r\<lparr>or_status := mark_target m, or_updated := pg_now p\<rparr>) \<and>
    (\<forall>j. j \<noteq> i \<longrightarrow> lookup or_id j (pg_orders p') = lookup or_id j (pg_orders p))"
proof -
  obtain r where r: "lookup or_id i (pg_orders p) = Some r" "mark_guard m (pg_now p) r"
    and p': "pg_orders p' = update_where (\<lambda>x. or_id x = i)
        (\<lambda>_. r\<lparr>or_status := mark_target m, or_updated := pg_now p\<rparr>) (pg_orders p)"
    using assms by (auto simp: moved_def)
  have "or_id r = i" using lookup_in_set [OF r(1)] by simp
  then have look: "lookup or_id j (pg_orders p') =
      map_option (\<lambda>x. if or_id x = i then r\<lparr>or_status := mark_target m, or_updated := pg_now p\<rparr> else x)
        (lookup or_id j (pg_orders p))" for j
    unfolding p' by (intro lookup_update_where) simp
  have "lookup or_id i (pg_orders p') = Some (r\<lparr>or_status := mark_target m, or_updated := pg_now p\<rparr>)"
    using r(1) \<open>or_id r = i\<close> by (simp add: look)
  moreover have "lookup or_id j (pg_orders p') = lookup or_id j (pg_orders p)" if "j \<noteq> i" for j
    using that by (cases "lookup or_id j (pg_orders p)") (auto simp: look dest: lookup_in_set)
  ultimately show ?thesis using r by blast
qed

text \<open>The status of an order in the database, for the contract; a missing order has no transitions.\<close>

definition row_status :: "uuid \<Rightarrow> world \<Rightarrow> order_status" where
  "row_status i w = (case lookup or_id i (pg_orders (w_pg w)) of Some r \<Rightarrow> or_status r | None \<Rightarrow> Compensated)"

definition row_mark :: "uuid \<Rightarrow> mark_op \<Rightarrow> world \<Rightarrow> err + world" where
  "row_mark i m w = (case orderRepo_mark m i w of (Inl e, _) \<Rightarrow> Inl e | (Inr _, w') \<Rightarrow> Inr w')"

interpretation row_life: status_machine "row_status i" "row_mark i" for i
proof
  fix m w w'
  assume "row_mark i m w = Inr w'"
  then have "orderRepo_mark m i w = (Inr (), w')"
    by (auto simp: row_mark_def split: prod.splits sum.splits)
  then have "moved m i (w_pg w) (w_pg w')" using orderRepo_mark_outcome by fastforce
  then show "edge (row_status i w) m (row_status i w')"
    by (auto simp: row_status_def mark_guard_def dest!: moved_row)
qed

text \<open>The SQL transitions refine the methods of the aggregate: on a database that answers, a row moves
  exactly when the domain method accepts, to exactly the aggregate the method returns.\<close>

lemma Order_mark_guard:
  "Order_mark m (order_toDomain r) = Inr o' \<longleftrightarrow>
     edge (or_status r) m (mark_target m) \<and> o' = (order_toDomain r)\<lparr>status := mark_target m\<rparr>"
  by (auto simp: Order_mark_edge edge_target [of "or_status r" m "status o'"])

lemma sql_exec_Works: "w_faults w = [] \<Longrightarrow> sql_exec st w = (case st (w_pg w) of
    Inl e \<Rightarrow> (Inl e, w) | Inr (n, p) \<Rightarrow> (Inr n, w\<lparr>w_pg := p\<rparr>))"
  by (simp add: sql_exec_def)

lemma sql_query_Works: "w_faults w = [] \<Longrightarrow> sql_query q w = (Inr (q (w_pg w)), w)"
  by (simp add: sql_query_def)

lemma redis_call_Works: "w_faults w = [] \<Longrightarrow> redis_call c w =
    (case c (w_rd w) of (a, r) \<Rightarrow> (Inr a, w\<lparr>w_rd := r\<rparr>))"
  by (simp add: redis_call_def)

lemma uow_Do_Works:
  assumes "w_faults w = []" and "w_faults (snd (fn w)) = []"
  shows "uow_Do fn w = (case fn w of (Inl e, w2) \<Rightarrow> (Inl e, w2\<lparr>w_pg := w_pg w\<rparr>) | (Inr a, w2) \<Rightarrow> (Inr a, w2))"
  using assms by (auto simp: uow_Do_def db_tx_def split: prod.splits sum.splits)

lemma transition_accepts:
  assumes nf: "w_faults w = []" and row: "lookup or_id i (pg_orders (w_pg w)) = Some r"
    and g: "or_status r \<in> set sts"
    and nv: "\<not> order_violation (r\<lparr>or_status := to, or_updated := pg_now (w_pg w)\<rparr>) (pg_orders (w_pg w))"
  shows "fst (orderRepo_transition i to sts w) = Inr ()"
  using assms by (auto simp: orderRepo_transition_def sql_exec_Works sql_transition_def Let_def)

lemma transition_rejects:
  assumes nf: "w_faults w = []" and row: "lookup or_id i (pg_orders (w_pg w)) = Some r"
    and g: "or_status r \<notin> set sts" and ne: "sts \<noteq> []"
  shows "\<exists>e. orderRepo_transition i to sts w = (Inl e, w) \<and> errors_Is e ErrInvalidTransition"
  using assms
  by (simp add: orderRepo_transition_def sql_exec_Works sql_transition_def orderRepo_GetByID_def
      sql_query_Works)

lemma row_mark_accepts:
  assumes nf: "w_faults w = []" and row: "lookup or_id i (pg_orders (w_pg w)) = Some r"
    and g: "mark_guard m (pg_now (w_pg w)) r"
    and nv: "\<not> order_violation (r\<lparr>or_status := mark_target m, or_updated := pg_now (w_pg w)\<rparr>)
       (pg_orders (w_pg w))"
  shows "fst (orderRepo_mark m i w) = Inr ()"
proof (cases "m = MarkPaid")
  case True
  with assms show ?thesis
    by (auto simp: orderRepo_MarkPaid_def sql_exec_Works sql_transition_def Let_def mark_guard_def)
next
  case False
  with assms mark_from_guard [OF False, of r "pg_now (w_pg w)"] show ?thesis
    by (simp add: mark_is_transition transition_accepts)
qed

lemma row_mark_rejects:
  assumes nf: "w_faults w = []" and row: "lookup or_id i (pg_orders (w_pg w)) = Some r"
    and g: "\<not> edge (or_status r) m (mark_target m)"
  shows "\<exists>e. orderRepo_mark m i w = (Inl e, w) \<and> errors_Is e ErrInvalidTransition"
proof (cases "m = MarkPaid")
  case True
  with g have "or_status r \<noteq> AwaitingPayment" by (auto simp: edge_simps)
  with assms True show ?thesis
    by (auto simp: orderRepo_MarkPaid_def sql_exec_Works sql_transition_def payable_row_def
        classifyPaidGuardFailure_def orderRepo_GetByID_def sql_query_Works)
next
  case False
  then have "or_status r \<notin> set (mark_from m)" and "mark_from m \<noteq> []"
    using g mark_from_guard [OF False, of r] by (auto simp: mark_guard_def) (cases m; simp)
  with transition_rejects [OF nf row] False show ?thesis by (simp add: mark_is_transition)
qed

text \<open>With every call working, what a transition of a stored order does is decided by the method of
  \<open>Order\<close>, by the deadline in the payment guard and by the unique indexes.\<close>

lemma row_mark_decides:
  assumes nf: "w_faults w = []" and row: "lookup or_id i (pg_orders (w_pg w)) = Some r"
    and run: "orderRepo_mark m i w = (res, w')"
  shows "case Order_mark m (order_toDomain r) of
      Inl _ \<Rightarrow> (\<exists>e. res = Inl e \<and> errors_Is e ErrInvalidTransition) \<and> w' = w
    | Inr o' \<Rightarrow>
        if m = MarkPaid \<and> \<not> payable_row (pg_now (w_pg w)) r
        then (\<exists>e. res = Inl e \<and> (reservedUntil o' \<le> w_now w \<longrightarrow> errors_Is e ErrReservationExpired)) \<and> w' = w
        else if order_violation (r\<lparr>or_status := mark_target m, or_updated := pg_now (w_pg w)\<rparr>) (pg_orders (w_pg w))
        then (\<exists>e. res = Inl e \<and> errors_Is e PgUniqueViolation) \<and> w' = w
        else res = Inr ()"
proof (cases "Order_mark m (order_toDomain r)")
  case (Inl e)
  then have "\<not> edge (or_status r) m (mark_target m)"
    using Order_mark_guard [of m r] by (metis Inl_Inr_False)
  with Inl row_mark_rejects [OF nf row] run show ?thesis by fastforce
next
  case (Inr o')
  then have e: "edge (or_status r) m (mark_target m)" and o': "o' = (order_toDomain r)\<lparr>status := mark_target m\<rparr>"
    using Order_mark_guard [of m r o'] by auto
  consider (late) "m = MarkPaid" "\<not> payable_row (pg_now (w_pg w)) r"
    | (clash) "m = MarkPaid \<longrightarrow> payable_row (pg_now (w_pg w)) r"
        "order_violation (r\<lparr>or_status := mark_target m, or_updated := pg_now (w_pg w)\<rparr>) (pg_orders (w_pg w))"
    | (free) "m = MarkPaid \<longrightarrow> payable_row (pg_now (w_pg w)) r"
        "\<not> order_violation (r\<lparr>or_status := mark_target m, or_updated := pg_now (w_pg w)\<rparr>) (pg_orders (w_pg w))"
    by blast
  then show ?thesis
  proof cases
    case late
    with e have "or_status r = AwaitingPayment" by (auto simp: edge_simps)
    then have "status (order_toDomain r) = AwaitingPayment" by (simp add: order_toDomain_def ReconstructOrder_def)
    with late(2) nf row have paid: "orderRepo_MarkPaid i w = (Inl (if reservedUntil (order_toDomain r) > w_now w
        then Plain ''0 rows under apparently-valid predicate''
        else Wrap ''orderRepository'' (Sentinel ErrReservationExpired)), w)"
      by (simp add: orderRepo_MarkPaid_def sql_exec_Works sql_transition_def classifyPaidGuardFailure_def
          orderRepo_GetByID_def sql_query_Works del: not_less)
    have "reservedUntil o' = reservedUntil (order_toDomain r)" using o' by simp
    with late run Inr paid show ?thesis by (cases "reservedUntil (order_toDomain r) > w_now w") auto
  next
    case clash
    have "\<exists>e. res = Inl e \<and> errors_Is e PgUniqueViolation \<and> w' = w"
    proof (cases "m = MarkPaid")
      case True
      with clash run nf row show ?thesis
        by (auto simp: orderRepo_MarkPaid_def sql_exec_Works sql_transition_def Let_def)
    next
      case False
      with e mark_from_guard [OF False, of r 0] have "or_status r \<in> set (mark_from m)" by (simp add: mark_guard_def)
      then have "orderRepo_transition i (mark_target m) (mark_from m) w =
          (Inl (Wrap ''orderRepository.transitionStatus'' (Sentinel PgUniqueViolation)), w)"
        using clash(2) nf row by (auto simp: orderRepo_transition_def sql_exec_Works sql_transition_def Let_def)
      with run False show ?thesis by (auto simp: mark_is_transition)
    qed
    with clash Inr show ?thesis by auto
  next
    case free
    with e have "mark_guard m (pg_now (w_pg w)) r" by (simp add: mark_guard_def)
    with row_mark_accepts [OF nf row _ free(2)] run free Inr show ?thesis by auto
  qed
qed

lemma missing_row_mark:
  assumes "w_faults w = []" and "lookup or_id i (pg_orders (w_pg w)) = None" and "orderRepo_mark m i w = (res, w')"
  shows "res = Inl (Sentinel ErrOrderNotFound) \<and> w' = w"
proof (cases "m = MarkPaid")
  case True
  with assms show ?thesis
    by (auto simp: orderRepo_MarkPaid_def sql_exec_Works sql_transition_def classifyPaidGuardFailure_def
        orderRepo_GetByID_def sql_query_Works)
next
  case False
  moreover have "mark_from m \<noteq> []" by (cases m) simp_all
  ultimately show ?thesis using assms
    by (auto simp: mark_is_transition orderRepo_transition_def sql_exec_Works sql_transition_def
        orderRepo_GetByID_def sql_query_Works)
qed

text \<open>A row that moved is the result of the method of \<open>Order\<close>, and it is the only one that changed.\<close>

definition row_moved :: "mark_op \<Rightarrow> uuid \<Rightarrow> pg \<Rightarrow> pg \<Rightarrow> bool" where
  "row_moved m i p p' \<longleftrightarrow> (case (lookup or_id i (pg_orders p), lookup or_id i (pg_orders p')) of
     (Some r, Some r') \<Rightarrow> Order_mark m (order_toDomain r) = Inr (order_toDomain r')
   | _ \<Rightarrow> False) \<and> (\<forall>j. j \<noteq> i \<longrightarrow> lookup or_id j (pg_orders p') = lookup or_id j (pg_orders p))"

lemma toDomain_moved: "order_toDomain (r\<lparr>or_status := s, or_updated := t\<rparr>) = (order_toDomain r)\<lparr>status := s\<rparr>"
  by (simp add: order_toDomain_def ReconstructOrder_def)

lemma moved_row_moved: "moved m i p p' \<Longrightarrow> row_moved m i p p'"
  by (auto simp: row_moved_def Order_mark_guard mark_guard_def toDomain_moved dest!: moved_row)

section \<open>Properties\<close>


definition demo_row :: order_row where
  "demo_row = orderRowFromDomain 0 (demo_order\<lparr>status := AwaitingPayment\<rparr>)"

definition demo_db :: world where
  "demo_db = empty_world\<lparr>w_pg := empty_pg\<lparr>pg_orders := [demo_row]\<rparr>\<rparr>"


text \<open>A stored order obeys the same life, under every pattern of failing calls: between two states
  linked by repository transitions that reported success there are at most three of them, and an
  order in a terminal status has none.\<close>

theorem stored_order_life_bounded:
  assumes "life (row_mark i) w ms = Some w'"
  shows "length ms \<le> 3 \<and> (terminal (row_status i w) \<longrightarrow> ms = []) \<and>
    (failure (row_status i w) \<longrightarrow> \<not> success (row_status i w'))"
  using row_life.life_at_most_three [OF assms] row_life.terminal_final [OF _ assms]
    row_life.failure_persists [OF _ assms] by (auto simp: failure_def success_def)

lemma stored_order_life_bounded_witness:
  "\<exists>w'. life (row_mark 9) demo_db [MarkPaid] = Some w' \<and> length [MarkPaid] \<le> 3 \<and>
     \<not> terminal (row_status 9 demo_db)"
proof -
  have "\<exists>w'. life (row_mark 9) demo_db [MarkPaid] = Some w'"
    by (simp add: row_mark_def demo_db_def empty_world_def empty_pg_def orderRepo_MarkPaid_def
        sql_exec_Works sql_transition_def payable_row_def order_violation_def user_event_clash_def
        intent_clash_def demo_row_def demo_order_def orderRowFromDomain_def Let_def)
  then obtain w' where "life (row_mark 9) demo_db [MarkPaid] = Some w'" by blast
  with stored_order_life_bounded [OF this] show ?thesis by auto
qed

text \<open>What the factories made survives the database: a new reservation and a new ticket type are stored
  and loaded unchanged.\<close>

theorem store_load_roundtrip:
  assumes "unicode_lowers X"
  shows "(case NewReservation X now i user ev tt qty until amount cur of
      Inr o' \<Rightarrow> order_toDomain (orderRowFromDomain u o') = o' | Inl _ \<Rightarrow> True) \<and>
   (case NewTicketType X i ev name price cur tot starts ends limit area of
      Inr t \<Rightarrow> ticket_type_toDomain X (ticketTypeRowFromDomain t) = t | Inl _ \<Rightarrow> True)"
proof (intro conjI)
  show "case NewReservation X now i user ev tt qty until amount cur of
      Inr o' \<Rightarrow> order_toDomain (orderRowFromDomain u o') = o' | Inl _ \<Rightarrow> True"
    by (auto split: sum.splits dest!: NewReservation_Inr intro!: order_row_roundtrip
        simp: valid_reservation_def)
  have norm: "NormalizeCurrency X (tt_currency t) = tt_currency t \<and> ticket_type_wf t"
    if "NewTicketType X i ev name price cur tot starts ends limit area = Inr t" for t
  proof -
    note t = NewTicketType_Inr [OF that]
    then have "isValidCurrencyCode (tt_currency t)" "tt_currency t = NormalizeCurrency X cur"
      by (auto simp: ticket_type_wf_def)
    then show ?thesis using currency_is_ascii NormalizeCurrency_fixed [OF assms, of cur] t by metis
  qed
  show "case NewTicketType X i ev name price cur tot starts ends limit area of
      Inr t \<Rightarrow> ticket_type_toDomain X (ticketTypeRowFromDomain t) = t | Inl _ \<Rightarrow> True"
    using norm by (auto split: sum.splits intro!: ticket_type_roundtrip)
qed

lemma store_load_roundtrip_witness:
  "case NewTicketType plain_ext 5 3 ''floor'' 250 ''USD'' 10 None None (Some 4) '''' of
     Inr t \<Rightarrow> tt_priceCents t = 250 \<and> ticket_type_toDomain plain_ext (ticketTypeRowFromDomain t) = t
   | Inl _ \<Rightarrow> False"
  using store_load_roundtrip [OF plain_ext_laws(3), where i = 5 and ev = 3 and name = "''floor''"
      and price = 250 and cur = "''USD''" and tot = 10 and starts = None and ends = None
      and limit = "Some 4" and area = "''''"]
  by (simp add: NewTicketType_def strings_IsBlank_def strings_TrimSpace_def is_ascii_def ascii_space_def NormalizeCurrency_def
      strings_ToLower_def ascii_lower_def isValidCurrencyCode_def)

end
