(* ===== verification/Lua_Inventory.thy ===== *)
theory Lua_Inventory
  imports Postgres
begin

text \<open>
  The Redis inventory gate: \<open>internal/infrastructure/cache/redis.go\<close>,
  \<open>sync_lua_deducter.go\<close>, \<open>rehydrate.go\<close> and the four scripts under \<open>cache/lua\<close>. A script runs
  atomically, so it is a function on the Redis state; the Go method around it parses what the
  script returns. Each script is written out as its file has it. The locale \<open>inventory_gate\<close> is
  the contract of a gate (an accepted deduction takes exactly its quantity from a sufficient
  stock, a refused one takes nothing, a compensation id reverts at most once); it is interpreted
  on the three deduct scripts, each paired with \<open>revert.lua\<close>. Stock stays far inside the 64-bit
  range that Redis checks on \<open>DECRBY\<close>, so counters are plain integers.
\<close>

section \<open>Redis commands\<close>

definition alive :: "time \<Rightarrow> time option \<Rightarrow> bool" where
  "alive now ttl \<longleftrightarrow> (case ttl of None \<Rightarrow> True | Some t \<Rightarrow> now < t)"

definition redis_get_qty :: "uuid \<Rightarrow> redis \<Rightarrow> (int \<times> time option) option" where
  "redis_get_qty i r = (case rd_qty r i of None \<Rightarrow> None
     | Some (v, ttl) \<Rightarrow> if alive (rd_now r) ttl then Some (v, ttl) else None)"

definition redis_get_meta :: "uuid \<Rightarrow> redis \<Rightarrow> ((string \<rightharpoonup> string) \<times> time option) option" where
  "redis_get_meta i r = (case rd_meta r i of None \<Rightarrow> None
     | Some (h, ttl) \<Rightarrow> if alive (rd_now r) ttl then Some (h, ttl) else None)"

text \<open>\<open>INCRBY\<close> and \<open>DECRBY\<close> create a missing key as 0 without a TTL and keep the TTL of a live one.\<close>

definition redis_INCRBY :: "uuid \<Rightarrow> int \<Rightarrow> redis \<Rightarrow> int \<times> redis" where
  "redis_INCRBY i n r = (case redis_get_qty i r of
     None \<Rightarrow> (n, r\<lparr>rd_qty := (rd_qty r)(i \<mapsto> (n, None))\<rparr>)
   | Some (v, ttl) \<Rightarrow> (v + n, r\<lparr>rd_qty := (rd_qty r)(i \<mapsto> (v + n, ttl))\<rparr>))"

definition redis_DECRBY :: "uuid \<Rightarrow> int \<Rightarrow> redis \<Rightarrow> int \<times> redis" where
  "redis_DECRBY i n r = redis_INCRBY i (- n) r"

definition redis_HMGET :: "uuid \<Rightarrow> string \<Rightarrow> redis \<Rightarrow> string option" where
  "redis_HMGET i f r = (case redis_get_meta i r of None \<Rightarrow> None | Some (h, _) \<Rightarrow> h f)"

definition redis_XADD :: "ext \<Rightarrow> (string \<times> string) list \<Rightarrow> redis \<Rightarrow> redis" where
  "redis_XADD X fvs r = r\<lparr>rd_seq := Suc (rd_seq r),
     rd_stream := rd_stream r @ [\<lparr>xm_ID = redis_StreamID X (rd_seq r), xm_Values = map_of fvs\<rparr>]\<rparr>"

definition stock :: "redis \<Rightarrow> uuid \<Rightarrow> int" where
  "stock r i = (case redis_get_qty i r of None \<Rightarrow> 0 | Some (v, _) \<Rightarrow> v)"

definition stocked :: "redis \<Rightarrow> uuid \<Rightarrow> bool" where
  "stocked r i \<longleftrightarrow> redis_get_qty i r \<noteq> None"

section \<open>The decimal product of the deduct scripts\<close>

text \<open>The loop over the digits from the last to the first: \<open>out\<close> is in the order the loop appends
  (least significant digit first). Lua numbers are doubles; every intermediate value is at most
  \<open>10 * multiplier\<close>, so the arithmetic is exact (\<open>lua_digits_small\<close>).\<close>

fun lua_digits :: "string \<Rightarrow> int \<Rightarrow> int \<Rightarrow> string \<Rightarrow> (string \<times> int) option" where
  "lua_digits [] m carry out = Some (out, carry)"
| "lua_digits (c # cs) m carry out =
    (let digit = int (of_char c) - 48 in
     if digit < 0 \<or> digit > 9 then None
     else let product = digit * m + carry in
       lua_digits cs m (product div 10) (out @ [char_of (nat (product mod 10 + 48))]))"

function lua_flush :: "int \<Rightarrow> string \<Rightarrow> string" where
  "lua_flush carry out =
    (if carry > 0 then lua_flush (carry div 10) (out @ [char_of (nat (carry mod 10 + 48))]) else out)"
  by auto
termination
  by (relation "measure (\<lambda>(carry, _). nat carry)") auto

declare lua_flush.simps [simp del]

definition multiply_decimal_string_by_int :: "string \<Rightarrow> int \<Rightarrow> string option" where
  "multiply_decimal_string_by_int s m =
    (if m = 0 then Some ''0''
     else case lua_digits (rev s) m 0 [] of
       None \<Rightarrow> None
     | Some (out, carry) \<Rightarrow> Some (rev (lua_flush carry out)))"

section \<open>The scripts\<close>

definition deduct_lua ::
    "ext \<Rightarrow> uuid \<Rightarrow> int \<Rightarrow> int \<Rightarrow> string \<Rightarrow> int \<Rightarrow> redis \<Rightarrow> string list \<times> redis" where
  "deduct_lua X tt count user order_id reserved_until r =
    (case redis_DECRBY tt count r of (new_val, r1) \<Rightarrow>
     if new_val < 0 then ([''sold_out''], snd (redis_INCRBY tt count r1))
     else case (redis_HMGET tt ''event_id'' r1, redis_HMGET tt ''price_cents'' r1,
                redis_HMGET tt ''currency'' r1) of
       (Some ev, Some price, Some cur) \<Rightarrow>
         (if \<not> lua_IsNumber X price
          then ([''metadata_missing''], snd (redis_INCRBY tt count r1))
          else case multiply_decimal_string_by_int price count of
            None \<Rightarrow> ([''metadata_missing''], snd (redis_INCRBY tt count r1))
          | Some amount \<Rightarrow>
              ([''ok'', ev, amount, cur],
               redis_XADD X [(''order_id'', order_id), (''user_id'', strconv_Itoa user),
                 (''event_id'', ev), (''quantity'', strconv_Itoa count),
                 (''reserved_until'', strconv_Itoa reserved_until),
                 (''ticket_type_id'', uuid_String X tt), (''amount_cents'', amount),
                 (''currency'', cur)] r1))
     | _ \<Rightarrow> ([''metadata_missing''], snd (redis_INCRBY tt count r1)))"

definition deduct_no_xadd_lua :: "ext \<Rightarrow> uuid \<Rightarrow> int \<Rightarrow> redis \<Rightarrow> string list \<times> redis" where
  "deduct_no_xadd_lua X tt count r =
    (case redis_DECRBY tt count r of (new_val, r1) \<Rightarrow>
     if new_val < 0 then ([''sold_out''], snd (redis_INCRBY tt count r1))
     else case (redis_HMGET tt ''event_id'' r1, redis_HMGET tt ''price_cents'' r1,
                redis_HMGET tt ''currency'' r1) of
       (Some ev, Some price, Some cur) \<Rightarrow>
         (if \<not> lua_IsNumber X price
          then ([''metadata_missing''], snd (redis_INCRBY tt count r1))
          else case multiply_decimal_string_by_int price count of
            None \<Rightarrow> ([''metadata_missing''], snd (redis_INCRBY tt count r1))
          | Some amount \<Rightarrow> ([''ok'', ev, amount, cur], r1))
     | _ \<Rightarrow> ([''metadata_missing''], snd (redis_INCRBY tt count r1)))"

definition deduct_sync_lua :: "ext \<Rightarrow> uuid \<Rightarrow> int \<Rightarrow> redis \<Rightarrow> string list \<times> redis" where
  "deduct_sync_lua X tt count r =
    (case redis_DECRBY tt count r of (new_val, r1) \<Rightarrow>
     if new_val < 0 then ([''sold_out''], snd (redis_INCRBY tt count r1))
     else case (redis_HMGET tt ''event_id'' r1, redis_HMGET tt ''price_cents'' r1,
                redis_HMGET tt ''currency'' r1) of
       (Some ev, Some price, Some cur) \<Rightarrow>
         (if \<not> lua_IsNumber X price
          then ([''metadata_missing''], snd (redis_INCRBY tt count r1))
          else case multiply_decimal_string_by_int price count of
            None \<Rightarrow> ([''metadata_missing''], snd (redis_INCRBY tt count r1))
          | Some amount \<Rightarrow> ([''ok'', ev, amount, cur], r1))
     | _ \<Rightarrow> ([''metadata_missing''], snd (redis_INCRBY tt count r1)))"

text \<open>\<open>revert.lua\<close>: the marker key \<open>saga:reverted:<compensation id>\<close> lives for seven days.\<close>

definition reverted :: "redis \<Rightarrow> string \<Rightarrow> bool" where
  "reverted r cid \<longleftrightarrow> (case rd_reverted r cid of None \<Rightarrow> False | Some t \<Rightarrow> rd_now r < t)"

definition revert_lua :: "uuid \<Rightarrow> int \<Rightarrow> string \<Rightarrow> redis \<Rightarrow> int \<times> redis" where
  "revert_lua tt count cid r =
    (if reverted r cid then (0, r)
     else let r1 = (if redis_get_qty tt r \<noteq> None then snd (redis_INCRBY tt count r) else r) in
       (1, r1\<lparr>rd_reverted := (rd_reverted r1)(cid \<mapsto> rd_now r1 + 604800 * second)\<rparr>))"

section \<open>The Go methods\<close>

definition parse_deduct_result :: "ext \<Rightarrow> string list \<Rightarrow> err + deduct_result" where
  "parse_deduct_result X res =
    (if res = [] then Inl (Wrap ''redis: unexpected lua result'' (Sentinel ErrUnexpectedLuaResult))
     else if res ! 0 = ''ok'' then
       (if length res \<noteq> 4
        then Inl (Wrap ''redis: unexpected ok payload'' (Sentinel ErrUnexpectedLuaResult))
        else case uuid_Parse X (res ! 1) of
          None \<Rightarrow> Inl (Wrap ''redis: parse event_id'' (Plain ''uuid''))
        | Some ev \<Rightarrow> (case strconv_ParseInt (res ! 2) of
            None \<Rightarrow> Inl (Wrap ''redis: parse amount_cents'' (Plain ''strconv''))
          | Some amount \<Rightarrow> Inr \<lparr>dr_Accepted = True, dr_EventID = ev, dr_AmountCents = amount,
                               dr_Currency = res ! 3\<rparr>))
     else if res ! 0 = ''sold_out'' then Inr not_accepted
     else if res ! 0 = ''metadata_missing'' then Inl (Sentinel ErrTicketTypeRuntimeMetadataMissing)
     else Inl (Wrap ''redis: unexpected lua status'' (Sentinel ErrUnexpectedLuaResult)))"

definition DeductInventory ::
    "ext \<Rightarrow> uuid \<Rightarrow> uuid \<Rightarrow> int \<Rightarrow> int \<Rightarrow> time \<Rightarrow> world \<Rightarrow> (err + deduct_result) \<times> world" where
  "DeductInventory X orderID ticketTypeID' user count until w =
    (case redis_call (deduct_lua X ticketTypeID' count user (uuid_String X orderID) (Unix_of until)) w of
       (Inl e, w1) \<Rightarrow> (Inl e, w1)
     | (Inr res, w1) \<Rightarrow> (parse_deduct_result X res, w1))"

definition DeductInventoryNoStream :: "ext \<Rightarrow> uuid \<Rightarrow> int \<Rightarrow> world \<Rightarrow> (err + deduct_result) \<times> world" where
  "DeductInventoryNoStream X ticketTypeID' count w =
    (case redis_call (deduct_no_xadd_lua X ticketTypeID' count) w of
       (Inl e, w1) \<Rightarrow> (Inl (Wrap ''DeductInventoryNoStream'' e), w1)
     | (Inr res, w1) \<Rightarrow> (parse_deduct_result X res, w1))"

definition SyncDeducter_Deduct :: "ext \<Rightarrow> uuid \<Rightarrow> int \<Rightarrow> world \<Rightarrow> (err + deduct_result) \<times> world" where
  "SyncDeducter_Deduct X ticketTypeID' qty w =
    (case redis_call (deduct_sync_lua X ticketTypeID' qty) w of
       (Inl e, w1) \<Rightarrow> (Inl e, w1)
     | (Inr res, w1) \<Rightarrow> (parse_deduct_result X res, w1))"

definition RevertInventory :: "uuid \<Rightarrow> int \<Rightarrow> string \<Rightarrow> world \<Rightarrow> (err + unit) \<times> world" where
  "RevertInventory tt count cid w = (case redis_call (revert_lua tt count cid) w of
     (Inl e, w1) \<Rightarrow> (Inl e, w1)
   | (Inr _, w1) \<Rightarrow> (Inr (), w1))"

definition GetInventory :: "uuid \<Rightarrow> world \<Rightarrow> (err + int \<times> bool) \<times> world" where
  "GetInventory tt w = (case redis_call (\<lambda>r. (redis_get_qty tt r, r)) w of
     (Inl e, w1) \<Rightarrow> (Inl (Wrap ''redisInventoryRepository.GetInventory'' e), w1)
   | (Inr None, w1) \<Rightarrow> (Inr (0, False), w1)
   | (Inr (Some (v, _)), w1) \<Rightarrow> (Inr (v, True), w1))"

definition ticketTypeMetaValues :: "ext \<Rightarrow> ticket_type \<Rightarrow> string \<rightharpoonup> string" where
  "ticketTypeMetaValues X t = map_of
     [(''event_id'', uuid_String X (tt_eventID t)), (''price_cents'', strconv_Itoa (tt_priceCents t)),
      (''currency'', tt_currency t)]"

text \<open>\<open>HSET\<close> merges into the live hash and keeps its TTL; \<open>EXPIRE\<close> with a TTL of at most 0 deletes
  the key, \<open>SET\<close> with the zero TTL stores without one. The configured TTL is whole seconds.\<close>

definition redis_HSET :: "uuid \<Rightarrow> (string \<rightharpoonup> string) \<Rightarrow> redis \<Rightarrow> redis" where
  "redis_HSET i vals r = (case redis_get_meta i r of
     None \<Rightarrow> r\<lparr>rd_meta := (rd_meta r)(i \<mapsto> (vals, None))\<rparr>
   | Some (h, ttl) \<Rightarrow> r\<lparr>rd_meta := (rd_meta r)(i \<mapsto> (h ++ vals, ttl))\<rparr>)"

definition redis_EXPIRE_meta :: "uuid \<Rightarrow> duration \<Rightarrow> redis \<Rightarrow> redis" where
  "redis_EXPIRE_meta i ttl r = (case redis_get_meta i r of
     None \<Rightarrow> r
   | Some (h, _) \<Rightarrow> r\<lparr>rd_meta := (rd_meta r)(i :=
       if ttl \<le> 0 then None else Some (h, Some (rd_now r + ttl)))\<rparr>)"

definition redis_SET_qty :: "uuid \<Rightarrow> int \<Rightarrow> duration \<Rightarrow> redis \<Rightarrow> redis" where
  "redis_SET_qty i n ttl r =
     r\<lparr>rd_qty := (rd_qty r)(i \<mapsto> (n, if ttl > 0 then Some (rd_now r + ttl) else None))\<rparr>"

definition redis_SETNX_qty :: "uuid \<Rightarrow> int \<Rightarrow> duration \<Rightarrow> redis \<Rightarrow> bool \<times> redis" where
  "redis_SETNX_qty i n ttl r =
    (if redis_get_qty i r \<noteq> None then (False, r) else (True, redis_SET_qty i n ttl r))"

definition SetTicketTypeRuntime :: "ext \<Rightarrow> duration \<Rightarrow> ticket_type \<Rightarrow> world \<Rightarrow> (err + unit) \<times> world" where
  "SetTicketTypeRuntime X ttl t w = (case redis_call (\<lambda>r. ((),
       redis_SET_qty (tt_id t) (tt_availableTickets t) ttl
         (redis_EXPIRE_meta (tt_id t) ttl (redis_HSET (tt_id t) (ticketTypeMetaValues X t) r)))) w of
     (Inl e, w1) \<Rightarrow> (Inl (Wrap ''redisInventoryRepository.SetTicketTypeRuntime'' e), w1)
   | (Inr _, w1) \<Rightarrow> (Inr (), w1))"

definition SetTicketTypeMetadata :: "ext \<Rightarrow> duration \<Rightarrow> ticket_type \<Rightarrow> world \<Rightarrow> (err + unit) \<times> world" where
  "SetTicketTypeMetadata X ttl t w = (case redis_call (\<lambda>r. ((),
       redis_EXPIRE_meta (tt_id t) ttl (redis_HSET (tt_id t) (ticketTypeMetaValues X t) r))) w of
     (Inl e, w1) \<Rightarrow> (Inl (Wrap ''redisInventoryRepository.SetTicketTypeMetadata'' e), w1)
   | (Inr _, w1) \<Rightarrow> (Inr (), w1))"

definition DeleteTicketTypeRuntime :: "uuid \<Rightarrow> world \<Rightarrow> (err + unit) \<times> world" where
  "DeleteTicketTypeRuntime i w = (case redis_call (\<lambda>r. ((),
       r\<lparr>rd_meta := (rd_meta r)(i := None), rd_qty := (rd_qty r)(i := None)\<rparr>)) w of
     (Inl e, w1) \<Rightarrow> (Inl (Wrap ''redisInventoryRepository.DeleteTicketTypeRuntime'' e), w1)
   | (Inr _, w1) \<Rightarrow> (Inr (), w1))"

section \<open>The product is exact\<close>

lemma dec_val_Cons: "dec_val (c # s) = digit_val c * 10 ^ length s + dec_val s"
proof (induction s rule: rev_induct)
  case Nil
  then show ?case by (simp add: dec_val_def)
next
  case (snoc d s)
  have "dec_val ((c # s) @ [d]) = 10 * dec_val (c # s) + digit_val d" by (rule dec_val_snoc)
  with snoc show ?case by (simp add: dec_val_snoc algebra_simps)
qed

lemma lua_digit_char:
  assumes "0 \<le> p"
  shows "char_of (nat (p mod 10 + 48)) = digit_char (nat (p mod 10))"
    and "is_digit (digit_char (nat (p mod 10)))"
    and "int (digit_val (digit_char (nat (p mod 10)))) = p mod 10"
proof -
  have m: "0 \<le> p mod 10" "p mod 10 < 10" by simp_all
  then have "nat (p mod 10 + 48) = 48 + nat (p mod 10)" by (simp add: nat_add_distrib)
  then show "char_of (nat (p mod 10 + 48)) = digit_char (nat (p mod 10))"
    by (simp add: digit_char_def)
  from m have lt: "nat (p mod 10) < 10" by linarith
  then show "is_digit (digit_char (nat (p mod 10)))" by (rule is_digit_digit_char)
  from lt m show "int (digit_val (digit_char (nat (p mod 10)))) = p mod 10"
    by (simp add: digit_val_digit_char)
qed

lemma lua_digits_Cons:
  assumes "is_digit c"
  shows "lua_digits (c # cs) m carry out =
    lua_digits cs m ((int (digit_val c) * m + carry) div 10)
      (out @ [char_of (nat ((int (digit_val c) * m + carry) mod 10 + 48))])"
proof -
  have "int (of_char c) - 48 = int (digit_val c)" and "int (digit_val c) \<le> 9"
    using assms digit_val_bound [OF assms] by (auto simp: is_digit_def digit_val_def of_nat_diff)
  then show ?thesis by (simp add: Let_def)
qed

lemma dec_val_rev_snoc: "dec_val (rev (out @ [c])) = digit_val c * 10 ^ length out + dec_val (rev out)"
  by (simp add: dec_val_Cons)

lemma digit_step:
  fixes a b k v :: int
  assumes "a + 10 * b = d * m + carry"
  shows "a * k + 10 * k * (v * m + b) = k * ((10 * v + d) * m + carry)"
proof -
  have a: "a = d * m + carry - 10 * b" using assms by simp
  show ?thesis unfolding a by (simp add: algebra_simps)
qed

lemma lua_digits_correct:
  assumes "list_all is_digit cs" and "list_all is_digit out" and "0 < m" and "0 \<le> carry" and "carry < m"
  shows "\<exists>out' carry'. lua_digits cs m carry out = Some (out', carry') \<and> list_all is_digit out' \<and>
    0 \<le> carry' \<and> carry' < m \<and> length out' = length out + length cs \<and>
    int (dec_val (rev out')) + 10 ^ length out' * carry' =
      int (dec_val (rev out)) + 10 ^ length out * (int (dec_val (rev cs)) * m + carry)"
  using assms
proof (induction cs arbitrary: carry out)
  case Nil
  then show ?case by simp
next
  case (Cons c cs)
  define p where "p = int (digit_val c) * m + carry"
  define d where "d = digit_char (nat (p mod 10))"
  from Cons.prems have c: "is_digit c" and cs: "list_all is_digit cs" by simp_all
  have p0: "0 \<le> p" using Cons.prems by (simp add: p_def)
  have "int (digit_val c) * m \<le> 9 * m"
    using digit_val_bound [OF c] Cons.prems by (intro mult_right_mono) simp_all
  then have "p < 10 * m" unfolding p_def using Cons.prems by linarith
  then have carry: "0 \<le> p div 10" "p div 10 < m" using p0 by (simp_all add: pos_imp_zdiv_nonneg_iff)
  have d: "list_all is_digit (out @ [d])" and vd: "int (digit_val d) = p mod 10"
    using lua_digit_char [OF p0] Cons.prems by (simp_all add: d_def)
  from Cons.IH [OF cs d \<open>0 < m\<close> carry] obtain out' carry' where
    run: "lua_digits cs m (p div 10) (out @ [d]) = Some (out', carry')" and
    dig: "list_all is_digit out'" and c': "0 \<le> carry'" "carry' < m" and
    len: "length out' = length (out @ [d]) + length cs" and
    val: "int (dec_val (rev out')) + 10 ^ length out' * carry' =
      int (dec_val (rev (out @ [d]))) + 10 ^ length (out @ [d]) * (int (dec_val (rev cs)) * m + p div 10)"
    by blast
  have "lua_digits (c # cs) m carry out = Some (out', carry')"
    using lua_digits_Cons [OF c] lua_digit_char(1) [OF p0] run by (simp add: p_def d_def)
  moreover have "int (dec_val (rev (out @ [d]))) + 10 ^ length (out @ [d]) * (int (dec_val (rev cs)) * m + p div 10)
      = int (dec_val (rev out)) + 10 ^ length out * (int (dec_val (rev (c # cs))) * m + carry)"
  proof -
    have "p mod 10 + 10 * (p div 10) = int (digit_val c) * m + carry"
      by (simp add: p_def [symmetric])
    from digit_step [OF this, of "10 ^ length out" "int (dec_val (rev cs))"]
    show ?thesis by (simp add: dec_val_rev_snoc dec_val_snoc vd del: rev_append)
  qed
  ultimately show ?case using dig c' len val by auto
qed

lemma split_scaled: "(c mod 10) * k + 10 * ((c div 10) * k) = c * (k :: int)"
  by (metis distrib_right mod_mult_div_eq mult.assoc)

lemma lua_flush_correct:
  assumes "0 \<le> carry" and "list_all is_digit out"
  shows "list_all is_digit (lua_flush carry out) \<and> length out \<le> length (lua_flush carry out) \<and>
    int (dec_val (rev (lua_flush carry out))) = int (dec_val (rev out)) + 10 ^ length out * carry"
  using assms
proof (induction carry out rule: lua_flush.induct)
  case (1 carry out)
  show ?case
  proof (cases "carry > 0")
    case False
    with 1 show ?thesis by (subst (1 2 3) lua_flush.simps) simp
  next
    case True
    define d where "d = digit_char (nat (carry mod 10))"
    have flush: "lua_flush carry out = lua_flush (carry div 10) (out @ [d])"
      using True lua_digit_char(1) [OF 1(2)] by (subst lua_flush.simps) (simp add: d_def)
    have vd: "int (digit_val d) = carry mod 10" and dd: "list_all is_digit (out @ [d])"
      using lua_digit_char [OF 1(2)] 1(3) by (simp_all add: d_def)
    have IH: "list_all is_digit (lua_flush (carry div 10) (out @ [d])) \<and>
      length (out @ [d]) \<le> length (lua_flush (carry div 10) (out @ [d])) \<and>
      int (dec_val (rev (lua_flush (carry div 10) (out @ [d])))) =
        int (dec_val (rev (out @ [d]))) + 10 ^ length (out @ [d]) * (carry div 10)"
      using 1(1) [OF True] 1(2) dd lua_digit_char(1) [OF 1(2)]
      by (simp add: d_def pos_imp_zdiv_nonneg_iff)
    with flush vd show ?thesis by (simp add: dec_val_Cons algebra_simps split_scaled)
  qed
qed

lemma multiply_correct:
  assumes "s \<noteq> []" and "list_all is_digit s" and "0 < m"
  shows "\<exists>r. multiply_decimal_string_by_int s m = Some r \<and> r \<noteq> [] \<and> list_all is_digit r \<and>
    int (dec_val r) = int (dec_val s) * m"
proof -
  obtain out carry where run: "lua_digits (rev s) m 0 [] = Some (out, carry)"
    and out: "list_all is_digit out" "0 \<le> carry" "length out = length s"
    and val: "int (dec_val (rev out)) + 10 ^ length out * carry = int (dec_val s) * m"
    using lua_digits_correct [of "rev s" "[]" m 0] assms by auto
  have "length s \<le> length (lua_flush carry out)" using lua_flush_correct [OF out(2,1)] out(3) by simp
  then have "rev (lua_flush carry out) \<noteq> []" using assms(1) by auto
  then show ?thesis using run lua_flush_correct [OF out(2,1)] val assms(3)
    by (simp add: multiply_decimal_string_by_int_def)
qed

lemma lua_digits_None: "lua_digits cs m carry out = None \<longleftrightarrow> \<not> list_all is_digit cs"
  by (induction cs arbitrary: carry out) (auto simp: Let_def is_digit_def)

lemma multiply_None_iff: "m \<noteq> 0 \<Longrightarrow> multiply_decimal_string_by_int s m = None \<longleftrightarrow> \<not> list_all is_digit s"
  using lua_digits_None [of "rev s" m 0 "[]"]
  by (auto simp: multiply_decimal_string_by_int_def split: option.splits prod.splits)

section \<open>The contract of the gate\<close>

text \<open>The calls of a gate, and the passing of time between them: \<open>Wait d\<close> lets the clock of Redis
  advance by \<open>d\<close> nanoseconds, so that keys with a TTL may expire.\<close>

datatype 'q gate_op = Deduct 'q uuid int | Revert uuid int string | Wait nat

text \<open>The journal of the calls that took effect; a revert is entered with its time.\<close>

datatype gate_entry = Sold uuid int | Restored time uuid int string

fun gate_step :: "('r \<Rightarrow> time) \<Rightarrow> (nat \<Rightarrow> 'r \<Rightarrow> 'r) \<Rightarrow> ('q \<Rightarrow> uuid \<Rightarrow> int \<Rightarrow> 'r \<Rightarrow> bool \<times> 'r) \<Rightarrow>
    (uuid \<Rightarrow> int \<Rightarrow> string \<Rightarrow> 'r \<Rightarrow> int \<times> 'r) \<Rightarrow> 'q gate_op \<Rightarrow> 'r \<Rightarrow> gate_entry list \<times> 'r" where
  "gate_step clock wait deduct rvt (Deduct q t n) r =
    (case deduct q t n r of (ok, r1) \<Rightarrow> (if ok then [Sold t n] else [], r1))"
| "gate_step clock wait deduct rvt (Revert t n c) r =
    (case rvt t n c r of (k, r1) \<Rightarrow> (if k = 1 then [Restored (clock r) t n c] else [], r1))"
| "gate_step clock wait deduct rvt (Wait d) r = ([], wait d r)"

fun gate_run :: "('r \<Rightarrow> time) \<Rightarrow> (nat \<Rightarrow> 'r \<Rightarrow> 'r) \<Rightarrow> ('q \<Rightarrow> uuid \<Rightarrow> int \<Rightarrow> 'r \<Rightarrow> bool \<times> 'r) \<Rightarrow>
    (uuid \<Rightarrow> int \<Rightarrow> string \<Rightarrow> 'r \<Rightarrow> int \<times> 'r) \<Rightarrow> 'q gate_op list \<Rightarrow> 'r \<Rightarrow> gate_entry list \<times> 'r" where
  "gate_run clock wait deduct rvt [] r = ([], r)"
| "gate_run clock wait deduct rvt (op # ops) r = (case gate_step clock wait deduct rvt op r of (js, r1) \<Rightarrow>
     apfst (append js) (gate_run clock wait deduct rvt ops r1))"

lemma gate_run_append:
  "gate_run clock wait deduct rvt (ops @ ops') r = (case gate_run clock wait deduct rvt ops r of (js, r1) \<Rightarrow>
     apfst (append js) (gate_run clock wait deduct rvt ops' r1))"
proof (induction ops arbitrary: r)
  case (Cons op ops)
  show ?case
    by (cases "gate_step clock wait deduct rvt op r") (auto simp: Cons.IH apfst_def map_prod_def split: prod.splits)
qed (simp add: apfst_def map_prod_def)

fun entry_delta :: "uuid \<Rightarrow> gate_entry \<Rightarrow> int" where
  "entry_delta t (Sold t' n) = (if t' = t then - n else 0)"
| "entry_delta t (Restored s t' n c) = (if t' = t then n else 0)"

text \<open>The effective reverts, each with its compensation id and its time.\<close>

fun restores :: "gate_entry \<Rightarrow> (string \<times> time) list" where
  "restores (Sold t n) = []"
| "restores (Restored s t n c) = [(c, s)]"

fun sold_of :: "uuid \<Rightarrow> gate_entry \<Rightarrow> int" where
  "sold_of t (Sold t' n) = (if t' = t then n else 0)"
| "sold_of t (Restored s t' n c) = 0"

fun op_nonneg :: "'q gate_op \<Rightarrow> bool" where
  "op_nonneg (Deduct q t n) \<longleftrightarrow> 0 \<le> n"
| "op_nonneg (Revert t n c) \<longleftrightarrow> 0 \<le> n"
| "op_nonneg (Wait d) \<longleftrightarrow> True"

fun no_revert :: "'q gate_op \<Rightarrow> bool" where
  "no_revert (Deduct q t n) \<longleftrightarrow> True"
| "no_revert (Revert t n c) \<longleftrightarrow> False"
| "no_revert (Wait d) \<longleftrightarrow> True"

text \<open>Two effective reverts of one compensation id are at least the life of its marker apart.\<close>

definition apart_by :: "duration \<Rightarrow> string \<times> time \<Rightarrow> string \<times> time \<Rightarrow> bool" where
  "apart_by ttl x y \<longleftrightarrow> (fst x = fst y \<longrightarrow> snd x + ttl \<le> snd y)"

text \<open>\<open>live r t T\<close>: the counter of \<open>t\<close> is there and does not expire up to the time \<open>T\<close>;
  \<open>marked r c T\<close>: the marker of the compensation id \<open>c\<close> is there at the time \<open>T\<close>.\<close>

locale inventory_gate =
  fixes clock :: "'r \<Rightarrow> time"
    and wait :: "nat \<Rightarrow> 'r \<Rightarrow> 'r"
    and qty :: "'r \<Rightarrow> uuid \<Rightarrow> int"
    and live :: "'r \<Rightarrow> uuid \<Rightarrow> time \<Rightarrow> bool"
    and marked :: "'r \<Rightarrow> string \<Rightarrow> time \<Rightarrow> bool"
    and ttl :: duration
    and deduct :: "'q \<Rightarrow> uuid \<Rightarrow> int \<Rightarrow> 'r \<Rightarrow> bool \<times> 'r"
    and rvt :: "uuid \<Rightarrow> int \<Rightarrow> string \<Rightarrow> 'r \<Rightarrow> int \<times> 'r"
  assumes accepted: "deduct q t n r = (True, r') \<Longrightarrow>
      n \<le> qty r t \<and> (\<forall>u. qty r' u = (if u = t then qty r t - n else qty r u))"
    and refused: "deduct q t n r = (False, r') \<Longrightarrow> qty r' u = qty r u"
    and deduct_frame: "deduct q t n r = (b, r') \<Longrightarrow> clock r' = clock r \<and>
      marked r' = marked r \<and> (\<forall>u T. clock r \<le> T \<longrightarrow> live r u T \<longrightarrow> live r' u T)"
    and rev_again: "marked r c (clock r) \<Longrightarrow> rvt t n c r = (0, r)"
    and rev_first: "\<not> marked r c (clock r) \<Longrightarrow> rvt t n c r = (k, r') \<Longrightarrow> k = 1 \<and> clock r' = clock r \<and>
      marked r' = (marked r)(c := (\<lambda>T. T < clock r + ttl)) \<and>
      (\<forall>u T. clock r \<le> T \<longrightarrow> live r u T \<longrightarrow> live r' u T) \<and>
      (\<forall>u. qty r' u = (if u = t \<and> live r t (clock r) then qty r t + n else qty r u))"
    and wait_frame: "clock (wait d r) = clock r + int d" "marked (wait d r) = marked r"
      "live (wait d r) = live r"
    and wait_qty: "qty (wait d r) u = qty r u \<or> \<not> live r u (clock r + int d) \<and> qty (wait d r) u = 0"
    and mark_ends: "marked r c T \<Longrightarrow> S \<le> T \<Longrightarrow> marked r c S"
    and life_ends: "live r u T \<Longrightarrow> S \<le> T \<Longrightarrow> live r u S"
begin

text \<open>What one call or one wait can do.\<close>

lemma step_cases:
  assumes "gate_step clock wait deduct rvt op r = (js, r')"
  obtains (sold) q u n where "op = Deduct q u n" "js = [Sold u n]" "deduct q u n r = (True, r')"
  | (refuse) q u n where "op = Deduct q u n" "js = []" "deduct q u n r = (False, r')"
  | (repeat) u n c where "op = Revert u n c" "js = []" "r' = r" "marked r c (clock r)"
  | (restore) u n c where "op = Revert u n c" "js = [Restored (clock r) u n c]" "\<not> marked r c (clock r)"
      "rvt u n c r = (1, r')"
  | (pass) d where "op = Wait d" "js = []" "r' = wait d r"
proof (cases op)
  case (Deduct q u n)
  obtain ok r1 where "deduct q u n r = (ok, r1)" by (cases "deduct q u n r")
  with assms Deduct that(1) [of q u n] that(2) [of q u n] show thesis by (cases ok) simp_all
next
  case (Revert u n c)
  obtain k r1 where d: "rvt u n c r = (k, r1)" by (cases "rvt u n c r")
  show thesis
  proof (cases "marked r c (clock r)")
    case True
    with assms Revert rev_again [OF True, of u n] that(3) [of u n c] show thesis by simp
  next
    case False
    with assms Revert d rev_first [OF False d] that(4) [of u n c] show thesis by simp
  qed
qed (use assms that(5) in simp)

text \<open>Time does not run backwards.\<close>

lemma step_clock:
  assumes "gate_step clock wait deduct rvt op r = (js, r')"
  shows "clock r \<le> clock r'"
  using assms
proof (cases rule: step_cases)
  case (sold q u n)
  then show ?thesis using deduct_frame by simp
next
  case (refuse q u n)
  then show ?thesis using deduct_frame by simp
next
  case (restore u n c)
  with rev_first [OF restore(3,4)] show ?thesis by simp
next
  case (pass d)
  then show ?thesis using wait_frame by simp
qed simp

lemma run_clock: "gate_run clock wait deduct rvt ops r = (js, r') \<Longrightarrow> clock r \<le> clock r'"
proof (induction ops arbitrary: r js)
  case (Cons op ops)
  then obtain js1 r1 js2 where "gate_step clock wait deduct rvt op r = (js1, r1)"
    "gate_run clock wait deduct rvt ops r1 = (js2, r')"
    by (auto simp: apfst_def map_prod_def split: prod.splits)
  with Cons.IH step_clock show ?case by fastforce
qed simp

text \<open>A run is its first step and the rest.\<close>

lemma run_cases:
  assumes "gate_run clock wait deduct rvt (op # ops) r = (js, r')"
  obtains js1 r1 js2 where "gate_step clock wait deduct rvt op r = (js1, r1)"
    "gate_run clock wait deduct rvt ops r1 = (js2, r')" "js = js1 @ js2" "clock r \<le> clock r1" "clock r1 \<le> clock r'"
  using assms step_clock run_clock by (auto simp: apfst_def map_prod_def split: prod.splits)

lemma step_conserves:
  assumes "gate_step clock wait deduct rvt op r = (js, r')" and "live r t T" and "clock r' \<le> T"
  shows "live r' t T \<and> qty r' t = qty r t + sum_list (map (entry_delta t) js)"
proof -
  have T: "clock r \<le> T" using step_clock [OF assms(1)] assms(3) by simp
  from assms(1) show ?thesis
  proof (cases rule: step_cases)
    case (sold q u n)
    with accepted [OF sold(3)] deduct_frame [OF sold(3)] T assms(2) show ?thesis by simp
  next
    case (refuse q u n)
    with refused [OF refuse(3)] deduct_frame [OF refuse(3)] T assms(2) show ?thesis by simp
  next
    case (restore u n c)
    have "live r t (clock r)" by (rule life_ends [OF assms(2) T])
    with restore rev_first [OF restore(3,4)] T assms(2) show ?thesis by simp
  next
    case (pass d)
    have "live r t (clock r + int d)" using life_ends [OF assms(2)] assms(3) pass wait_frame(1) by simp
    with pass wait_frame(3) wait_qty [of d r t] assms(2) show ?thesis by simp
  qed (use assms in simp)
qed

text \<open>The stock is the initial stock plus the journal, as long as the counter does not expire:
  nothing is lost and nothing is invented.\<close>

lemma conservation:
  "gate_run clock wait deduct rvt ops r = (js, r') \<Longrightarrow> live r t (clock r') \<Longrightarrow>
     live r' t (clock r') \<and> qty r' t = qty r t + sum_list (map (entry_delta t) js)"
proof (induction ops arbitrary: r js)
  case (Cons op ops)
  then obtain js1 r1 js2 where st: "gate_step clock wait deduct rvt op r = (js1, r1)" and
    run: "gate_run clock wait deduct rvt ops r1 = (js2, r')" "js = js1 @ js2" "clock r1 \<le> clock r'"
    by (elim run_cases)
  from step_conserves [OF st Cons.prems(2) run(3)] Cons.IH [OF run(1)] run(2) show ?case by simp
qed simp

lemma step_restores:
  assumes "gate_step clock wait deduct rvt op r = (js, r')"
  shows "concat (map restores js) = [] \<and> marked r' = marked r \<or>
    (\<exists>c. concat (map restores js) = [(c, clock r)] \<and> \<not> marked r c (clock r) \<and>
      marked r' = (marked r)(c := (\<lambda>T. T < clock r + ttl)))"
  using assms
proof (cases rule: step_cases)
  case (sold q u n)
  then show ?thesis using deduct_frame by simp
next
  case (refuse q u n)
  then show ?thesis using deduct_frame by simp
next
  case (restore u n c)
  with rev_first [OF restore(3,4)] show ?thesis by (intro disjI2 exI [of _ c]) simp
next
  case (pass d)
  then show ?thesis using wait_frame by simp
qed simp

text \<open>A compensation id restores stock at most once in the life of a marker, and never while an
  earlier marker is there.\<close>

lemma restored_apart:
  "gate_run clock wait deduct rvt ops r = (js, r') \<Longrightarrow>
     sorted_wrt (apart_by ttl) (concat (map restores js)) \<and>
     (\<forall>x \<in> set (concat (map restores js)). clock r \<le> snd x \<and> snd x \<le> clock r' \<and> \<not> marked r (fst x) (snd x))"
proof (induction ops arbitrary: r js)
  case Nil
  then show ?case by simp
next
  case (Cons op ops)
  then obtain js1 r1 js2 where st: "gate_step clock wait deduct rvt op r = (js1, r1)" and
    run: "gate_run clock wait deduct rvt ops r1 = (js2, r')" "js = js1 @ js2" "clock r \<le> clock r1" "clock r1 \<le> clock r'"
    by (elim run_cases)
  note IH = Cons.IH [OF run(1)]
  define xs where "xs = concat (map restores js2)"
  have split: "concat (map restores js) = concat (map restores js1) @ xs" using run by (simp add: xs_def)
  have sorted: "sorted_wrt (apart_by ttl) xs" using IH by (simp add: xs_def)
  have late: "clock r1 \<le> snd x" "snd x \<le> clock r'" "\<not> marked r1 (fst x) (snd x)" if "x \<in> set xs" for x
    using IH that unfolding xs_def by blast+
  from step_restores [OF st] show ?case
  proof (elim disjE exE conjE)
    assume c: "concat (map restores js1) = []" "marked r1 = marked r"
    have "clock r \<le> snd x \<and> snd x \<le> clock r' \<and> \<not> marked r (fst x) (snd x)" if "x \<in> set xs" for x
      using late [OF that] c(2) run(3) by simp
    with split sorted c(1) show ?thesis by simp
  next
    fix c
    assume c: "concat (map restores js1) = [(c, clock r)]" "\<not> marked r c (clock r)"
      "marked r1 = (marked r)(c := (\<lambda>T. T < clock r + ttl))"
    have "apart_by ttl (c, clock r) x \<and> clock r \<le> snd x \<and> snd x \<le> clock r' \<and> \<not> marked r (fst x) (snd x)"
      if x: "x \<in> set xs" for x
    proof (cases "fst x = c")
      case True
      then show ?thesis
        using late [OF x] c(2,3) run(3) mark_ends [of r c "snd x" "clock r"] by (auto simp: apart_by_def)
    next
      case False
      then show ?thesis using late [OF x] c(3) run(3) by (simp add: apart_by_def)
    qed
    with split sorted c run(3,4) show ?thesis by simp
  qed
qed

text \<open>A run without an effective revert leaves the markers alone.\<close>

lemma run_unmarked:
  "gate_run clock wait deduct rvt ops r = (js, r') \<Longrightarrow> concat (map restores js) = [] \<Longrightarrow> marked r' = marked r"
proof (induction ops arbitrary: r js)
  case (Cons op ops)
  from Cons.prems(1) obtain js1 r1 js2 where st: "gate_step clock wait deduct rvt op r = (js1, r1)" and
    run: "gate_run clock wait deduct rvt ops r1 = (js2, r')" "js = js1 @ js2" by (rule run_cases)
  have none: "concat (map restores js1) = []" "concat (map restores js2) = []" using Cons.prems(2) run(2) by simp_all
  have "marked r1 = marked r" using step_restores [OF st] unfolding none(1) by simp
  with Cons.IH [OF run(1) none(2)] show ?case by simp
qed simp

text \<open>So within the life of a marker it restores at most once.\<close>

lemma restored_once:
  assumes "gate_run clock wait deduct rvt ops r = (js, r')" and "clock r' < clock r + ttl"
  shows "distinct (map fst (concat (map restores js)))"
proof -
  define xs where "xs = concat (map restores js)"
  have "sorted_wrt (apart_by ttl) xs" "\<forall>x \<in> set xs. clock r \<le> snd x \<and> snd x \<le> clock r'"
    using restored_apart [OF assms(1)] by (auto simp: xs_def)
  then have "distinct (map fst xs)"
  proof (induction xs)
    case (Cons x xs)
    have "fst x \<noteq> fst y" if "y \<in> set xs" for y
      using Cons.prems that assms(2) by (fastforce simp: apart_by_def)
    with Cons show ?case by auto
  qed simp
  then show ?thesis by (simp add: xs_def)
qed

lemma step_nonneg:
  assumes "gate_step clock wait deduct rvt op r = (js, r')" and "op_nonneg op" and "0 \<le> qty r t"
  shows "0 \<le> qty r' t"
  using assms(1)
proof (cases rule: step_cases)
  case (sold q u n)
  with accepted [OF sold(3)] assms(3) show ?thesis by simp
next
  case (refuse q u n)
  with refused [OF refuse(3)] assms(3) show ?thesis by simp
next
  case (restore u n c)
  with rev_first [OF restore(3,4)] assms(2,3) show ?thesis by (cases "t = u") simp_all
next
  case (pass d)
  with wait_qty [of d r t] assms(3) show ?thesis by auto
qed (use assms in simp)

lemma stock_nonneg:
  "gate_run clock wait deduct rvt ops r = (js, r') \<Longrightarrow> list_all op_nonneg ops \<Longrightarrow> 0 \<le> qty r t \<Longrightarrow> 0 \<le> qty r' t"
proof (induction ops arbitrary: r js)
  case (Cons op ops)
  then obtain js1 r1 js2 where st: "gate_step clock wait deduct rvt op r = (js1, r1)" and
    run: "gate_run clock wait deduct rvt ops r1 = (js2, r')" by (elim run_cases)
  from step_nonneg [OF st] Cons.IH [OF run] Cons.prems show ?case by simp
qed simp

lemma step_sells:
  assumes "gate_step clock wait deduct rvt op r = (js, r')" and "no_revert op" and "0 \<le> qty r t"
  shows "sum_list (map (sold_of t) js) + qty r' t \<le> qty r t \<and> 0 \<le> qty r' t"
  using assms(1)
proof (cases rule: step_cases)
  case (sold q u n)
  with accepted [OF sold(3)] assms(3) show ?thesis by simp
next
  case (refuse q u n)
  with refused [OF refuse(3)] assms(3) show ?thesis by simp
next
  case (pass d)
  with wait_qty [of d r t] assms(3) show ?thesis by auto
qed (use assms in simp_all)

text \<open>No overselling: without a revert, what is sold of a ticket type fits in its stock.\<close>

lemma no_oversell:
  assumes run: "gate_run clock wait deduct rvt ops r = (js, r')" and "list_all no_revert ops"
    and "0 \<le> qty r t"
  shows "sum_list (map (sold_of t) js) \<le> qty r t"
  using assms
proof (induction ops arbitrary: r js)
  case (Cons op ops)
  then obtain js1 r1 js2 where st: "gate_step clock wait deduct rvt op r = (js1, r1)" and
    run: "gate_run clock wait deduct rvt ops r1 = (js2, r')" "js = js1 @ js2" by (elim run_cases)
  from step_sells [OF st, of t] Cons.IH [OF run(1)] Cons.prems run(2) show ?case by simp
qed simp

end

section \<open>The scripts keep the contract\<close>

lemma redis_INCRBY_stock:
  assumes "redis_INCRBY i n r = (v, r')"
  shows "v = stock r i + n" "stock r' j = (if j = i then stock r i + n else stock r j)"
    "stocked r' j \<longleftrightarrow> j = i \<or> stocked r j" "rd_now r' = rd_now r" "rd_reverted r' = rd_reverted r"
    "rd_meta r' = rd_meta r" "rd_stream r' = rd_stream r" "rd_seq r' = rd_seq r"
    "rd_pending r' = rd_pending r" "rd_dlq r' = rd_dlq r"
proof -
  obtain ttl where ttl: "alive (rd_now r) ttl" and v: "v = stock r i + n"
    and r': "r' = r\<lparr>rd_qty := (rd_qty r)(i \<mapsto> (stock r i + n, ttl))\<rparr>"
  proof (cases "redis_get_qty i r")
    case None
    with assms that [of None] show ?thesis by (auto simp: redis_INCRBY_def stock_def alive_def)
  next
    case (Some p)
    then obtain x ttl where p: "redis_get_qty i r = Some (x, ttl)" by (cases p) auto
    then have "alive (rd_now r) ttl" by (auto simp: redis_get_qty_def split: option.splits if_splits)
    with assms p that [of ttl] show ?thesis by (auto simp: redis_INCRBY_def stock_def)
  qed
  have get: "redis_get_qty u r' = (if u = i then Some (stock r i + n, ttl) else redis_get_qty u r)" for u
    using ttl by (simp add: r' redis_get_qty_def cong: option.case_cong)
  show "v = stock r i + n" by (rule v)
  show "stock r' j = (if j = i then stock r i + n else stock r j)"
    by (simp add: stock_def [of r'] get) (simp add: stock_def)
  show "stocked r' j \<longleftrightarrow> j = i \<or> stocked r j" by (simp add: stocked_def get)
  show "rd_now r' = rd_now r" "rd_reverted r' = rd_reverted r"
    "rd_meta r' = rd_meta r" "rd_stream r' = rd_stream r" "rd_seq r' = rd_seq r"
    "rd_pending r' = rd_pending r" "rd_dlq r' = rd_dlq r" by (simp_all add: r')
qed

lemma reverted_same:
  "rd_reverted r' = rd_reverted r \<Longrightarrow> rd_now r' = rd_now r \<Longrightarrow> reverted r' = reverted r"
  by (rule ext) (simp add: reverted_def cong: option.case_cong)

lemma redis_DECRBY_stock:
  assumes "redis_DECRBY i n r = (v, r')"
  shows "v = stock r i - n" "stock r' j = (if j = i then stock r i - n else stock r j)"
    "stocked r' j \<longleftrightarrow> j = i \<or> stocked r j" "rd_now r' = rd_now r" "rd_reverted r' = rd_reverted r"
    "rd_meta r' = rd_meta r" "rd_stream r' = rd_stream r" "rd_seq r' = rd_seq r"
    "rd_pending r' = rd_pending r" "rd_dlq r' = rd_dlq r"
  using redis_INCRBY_stock [of i "- n" r v r'] assms by (simp_all add: redis_DECRBY_def)

lemma redis_DECRBY_INCRBY:
  assumes "redis_DECRBY i n r = (v, r1)"
  shows "stock (snd (redis_INCRBY i n r1)) j = stock r j"
    "stocked (snd (redis_INCRBY i n r1)) j \<longleftrightarrow> j = i \<or> stocked r j"
    "reverted (snd (redis_INCRBY i n r1)) = reverted r"
    "rd_stream (snd (redis_INCRBY i n r1)) = rd_stream r"
proof -
  obtain v' r2 where i: "redis_INCRBY i n r1 = (v', r2)" by (cases "redis_INCRBY i n r1")
  note d = redis_DECRBY_stock [OF assms] and i' = redis_INCRBY_stock [OF i]
  show "stock (snd (redis_INCRBY i n r1)) j = stock r j"
    and "stocked (snd (redis_INCRBY i n r1)) j \<longleftrightarrow> j = i \<or> stocked r j"
    and "reverted (snd (redis_INCRBY i n r1)) = reverted r"
    and "rd_stream (snd (redis_INCRBY i n r1)) = rd_stream r"
    by (auto simp: i d i' reverted_def fun_eq_iff cong: option.case_cong)
qed

lemma redis_XADD_frame [simp]:
  "rd_qty (redis_XADD X fs r) = rd_qty r" "rd_meta (redis_XADD X fs r) = rd_meta r"
  "rd_now (redis_XADD X fs r) = rd_now r" "rd_reverted (redis_XADD X fs r) = rd_reverted r"
  "redis_get_qty i (redis_XADD X fs r) = redis_get_qty i r"
  "stock (redis_XADD X fs r) i = stock r i" "stocked (redis_XADD X fs r) i = stocked r i"
  "reverted (redis_XADD X fs r) c = reverted r c"
  by (simp_all add: redis_XADD_def redis_get_qty_def stock_def stocked_def reverted_def
      cong: option.case_cong)

lemma redis_INCRBY_seq: "rd_seq (snd (redis_INCRBY i n r)) = rd_seq r"
  by (metis redis_INCRBY_stock(8) prod.collapse)

text \<open>What the three scripts share: the state is touched through the counter only, and the stream
  gets an entry only on acceptance.\<close>

lemma deduct_no_xadd_cases:
  assumes "deduct_no_xadd_lua X tt n r = (res, r')"
  obtains (sold_out) v r1 where "redis_DECRBY tt n r = (v, r1)" "v < 0" "res = [''sold_out'']"
      "r' = snd (redis_INCRBY tt n r1)"
  | (metadata_missing) v r1 where "redis_DECRBY tt n r = (v, r1)" "0 \<le> v"
      "res = [''metadata_missing'']" "r' = snd (redis_INCRBY tt n r1)"
  | (ok) v r1 ev price cur amount where "redis_DECRBY tt n r = (v, r1)" "0 \<le> v"
      "res = [''ok'', ev, amount, cur]" "r' = r1"
      "redis_HMGET tt ''event_id'' r1 = Some ev" "redis_HMGET tt ''price_cents'' r1 = Some price"
      "redis_HMGET tt ''currency'' r1 = Some cur"
      "lua_IsNumber X price" "multiply_decimal_string_by_int price n = Some amount"
proof -
  obtain v r1 where d: "redis_DECRBY tt n r = (v, r1)" by (cases "redis_DECRBY tt n r")
  show thesis using assms d that
    by (auto simp: deduct_no_xadd_lua_def split: if_splits option.splits)
qed

lemma deduct_sync_eq: "deduct_sync_lua X tt n r = deduct_no_xadd_lua X tt n r"
  by (simp add: deduct_sync_lua_def deduct_no_xadd_lua_def)

lemma deduct_lua_eq:
  "deduct_lua X tt n user oid until r =
    (case deduct_no_xadd_lua X tt n r of (res, r') \<Rightarrow>
       (res, if hd res = ''ok'' then redis_XADD X [(''order_id'', oid),
           (''user_id'', strconv_Itoa user), (''event_id'', res ! 1), (''quantity'', strconv_Itoa n),
           (''reserved_until'', strconv_Itoa until), (''ticket_type_id'', uuid_String X tt),
           (''amount_cents'', res ! 2), (''currency'', res ! 3)] r' else r'))"
  by (auto simp: deduct_lua_def deduct_no_xadd_lua_def split: prod.splits option.splits)

lemma deduct_no_xadd_effect:
  assumes "deduct_no_xadd_lua X tt n r = (res, r')"
  shows "hd res = ''ok'' \<Longrightarrow> n \<le> stock r tt \<and> (\<forall>u. stock r' u = (if u = tt then stock r tt - n else stock r u))"
    and "hd res \<noteq> ''ok'' \<Longrightarrow> stock r' u = stock r u"
    and "reverted r' = reverted r" and "stocked r u \<Longrightarrow> stocked r' u"
proof -
  show "n \<le> stock r tt \<and> (\<forall>u. stock r' u = (if u = tt then stock r tt - n else stock r u))"
    if "hd res = ''ok''"
    using assms that
  proof (cases rule: deduct_no_xadd_cases)
    case (ok v r1 ev price cur amount)
    note d = redis_DECRBY_stock [OF ok(1)]
    show ?thesis using d(1,2) ok(2,4) by auto
  qed simp_all
  show "stock r' u = stock r u" if "hd res \<noteq> ''ok''"
    using assms that by (cases rule: deduct_no_xadd_cases) (auto simp: redis_DECRBY_INCRBY)
  show "reverted r' = reverted r"
    using assms
  proof (cases rule: deduct_no_xadd_cases)
    case (ok v r1 ev price cur amount)
    with redis_DECRBY_stock(4,5) [OF ok(1)] show ?thesis by (intro reverted_same) simp_all
  qed (auto simp: redis_DECRBY_INCRBY)
  show "stocked r' u" if "stocked r u"
    using assms that
    by (cases rule: deduct_no_xadd_cases) (auto simp: redis_DECRBY_INCRBY dest: redis_DECRBY_stock(3))
qed

lemma revert_again: "reverted r c \<Longrightarrow> revert_lua t n c r = (0, r)"
  by (simp add: revert_lua_def)

lemma stocked_iff: "stocked r t \<longleftrightarrow> redis_get_qty t r \<noteq> None"
  by (simp add: stocked_def)

lemma revert_first:
  assumes "\<not> reverted r c" and "revert_lua t n c r = (k, r')"
  shows "k = 1 \<and> reverted r' = (reverted r)(c := True) \<and> (\<forall>u. stocked r u \<longrightarrow> stocked r' u) \<and>
    (\<forall>u. stock r' u = (if u = t \<and> stocked r t then stock r t + n else stock r u))"
proof -
  define r1 where "r1 = (if stocked r t then snd (redis_INCRBY t n r) else r)"
  have r': "k = 1" "r' = r1\<lparr>rd_reverted := (rd_reverted r1)(c \<mapsto> rd_now r1 + 604800 * second)\<rparr>"
    using assms by (auto simp: revert_lua_def r1_def stocked_def Let_def)
  have q: "stock r' u = stock r1 u" "stocked r' u = stocked r1 u" for u
    by (simp_all add: r' stock_def stocked_def redis_get_qty_def cong: option.case_cong)
  obtain v r2 where i: "redis_INCRBY t n r = (v, r2)" by (cases "redis_INCRBY t n r")
  note inc = redis_INCRBY_stock [OF i]
  have same: "rd_now r1 = rd_now r" "rd_reverted r1 = rd_reverted r"
    by (simp_all add: r1_def i inc)
  have "reverted r' = (reverted r)(c := True)"
    by (auto simp: r' reverted_def same fun_eq_iff cong: option.case_cong)
  moreover have "stock r1 u = (if u = t \<and> stocked r t then stock r t + n else stock r u)" for u
    by (simp add: r1_def i inc)
  moreover have "stocked r u \<Longrightarrow> stocked r1 u" for u
    by (simp add: r1_def i inc)
  ultimately show ?thesis using r'(1) q by simp
qed

text \<open>The clock of Redis: it advances by itself, and nothing else changes; a key whose TTL has passed is
  then no longer seen.\<close>

definition redis_wait :: "nat \<Rightarrow> redis \<Rightarrow> redis" where
  "redis_wait d r = r\<lparr>rd_now := rd_now r + int d\<rparr>"

definition stocked_until :: "redis \<Rightarrow> uuid \<Rightarrow> time \<Rightarrow> bool" where
  "stocked_until r i T \<longleftrightarrow> (case rd_qty r i of None \<Rightarrow> False | Some (v, ttl) \<Rightarrow> alive T ttl)"

definition marked_until :: "redis \<Rightarrow> string \<Rightarrow> time \<Rightarrow> bool" where
  "marked_until r c T \<longleftrightarrow> (case rd_reverted r c of None \<Rightarrow> False | Some e \<Rightarrow> T < e)"

lemma stocked_now: "stocked r i \<longleftrightarrow> stocked_until r i (rd_now r)"
  by (auto simp: stocked_def stocked_until_def redis_get_qty_def split: option.splits)

lemma reverted_now: "reverted r c \<longleftrightarrow> marked_until r c (rd_now r)"
  by (simp add: reverted_def marked_until_def)

lemma alive_le: "alive T ttl \<Longrightarrow> S \<le> T \<Longrightarrow> alive S ttl"
  by (auto simp: alive_def split: option.splits)

lemma until_le:
  "stocked_until r i T \<Longrightarrow> S \<le> T \<Longrightarrow> stocked_until r i S"
  "marked_until r c T \<Longrightarrow> S \<le> T \<Longrightarrow> marked_until r c S"
  by (auto simp: stocked_until_def marked_until_def alive_le split: option.splits)

lemma marked_until_same: "rd_reverted r' = rd_reverted r \<Longrightarrow> marked_until r' = marked_until r"
  by (simp add: fun_eq_iff marked_until_def)

lemma wait_stock:
  "stock (redis_wait d r) i = stock r i \<or>
    \<not> stocked_until r i (rd_now r + int d) \<and> stock (redis_wait d r) i = 0"
  by (auto simp: stock_def redis_get_qty_def redis_wait_def stocked_until_def alive_def split: option.splits)

lemma redis_wait_frame [simp]:
  "rd_now (redis_wait d r) = rd_now r + int d" "rd_reverted (redis_wait d r) = rd_reverted r"
  "rd_qty (redis_wait d r) = rd_qty r" "marked_until (redis_wait d r) = marked_until r"
  "stocked_until (redis_wait d r) = stocked_until r"
  by (simp_all add: redis_wait_def fun_eq_iff marked_until_def stocked_until_def)

text \<open>A counter keeps its TTL when it is changed.\<close>

lemma redis_INCRBY_until:
  assumes "stocked_until r u T" and "rd_now r \<le> T"
  shows "stocked_until (snd (redis_INCRBY i n r)) u T"
proof (cases "u = i")
  case True
  with until_le(1) [OF assms] assms(1) show ?thesis
    by (auto simp: stocked_until_def redis_INCRBY_def redis_get_qty_def split: option.splits)
next
  case False
  then show ?thesis using assms(1) by (cases "redis_get_qty i r") (auto simp: stocked_until_def redis_INCRBY_def)
qed

lemma deduct_no_xadd_clock:
  assumes "deduct_no_xadd_lua X tt n r = (res, r')"
  shows "rd_now r' = rd_now r" and "rd_reverted r' = rd_reverted r"
    and "stocked_until r u T \<Longrightarrow> rd_now r \<le> T \<Longrightarrow> stocked_until r' u T"
proof -
  have *: "rd_now r' = rd_now r \<and> rd_reverted r' = rd_reverted r \<and>
      (stocked_until r u T \<longrightarrow> rd_now r \<le> T \<longrightarrow> stocked_until r' u T)"
    if d: "redis_DECRBY tt n r = (v, r1)" and r': "r' = r1 \<or> r' = snd (redis_INCRBY tt n r1)" for v r1
  proof -
    note fr = redis_DECRBY_stock(4,5) [OF d] redis_INCRBY_stock(4,5) [of tt n r1 "fst (redis_INCRBY tt n r1)" "snd (redis_INCRBY tt n r1)"]
    have "stocked_until r1 u T" if "stocked_until r u T" "rd_now r \<le> T"
      using redis_INCRBY_until [OF that, of tt "- n"] d by (simp add: redis_DECRBY_def)
    with r' fr redis_INCRBY_until [of r1 u T tt n] show ?thesis by auto
  qed
  have "rd_now r' = rd_now r \<and> rd_reverted r' = rd_reverted r \<and>
      (stocked_until r u T \<longrightarrow> rd_now r \<le> T \<longrightarrow> stocked_until r' u T)"
    using assms by (cases rule: deduct_no_xadd_cases) (metis *)+
  then show "rd_now r' = rd_now r" and "rd_reverted r' = rd_reverted r"
    and "stocked_until r u T \<Longrightarrow> rd_now r \<le> T \<Longrightarrow> stocked_until r' u T" by simp_all
qed

text \<open>The marker that a revert sets lives for seven days.\<close>

abbreviation marker_life :: duration where
  "marker_life \<equiv> 7 * 24 * 60 * 60 * second"

lemma revert_first_until:
  assumes "\<not> reverted r c" and "revert_lua t n c r = (k, r')"
  shows "k = 1 \<and> rd_now r' = rd_now r \<and> marked_until r' = (marked_until r)(c := (\<lambda>T. T < rd_now r + marker_life)) \<and>
    (\<forall>u T. rd_now r \<le> T \<longrightarrow> stocked_until r u T \<longrightarrow> stocked_until r' u T) \<and>
    (\<forall>u. stock r' u = (if u = t \<and> stocked_until r t (rd_now r) then stock r t + n else stock r u))"
proof -
  define r1 where "r1 = (if stocked r t then snd (redis_INCRBY t n r) else r)"
  have r': "k = 1" "r' = r1\<lparr>rd_reverted := (rd_reverted r1)(c \<mapsto> rd_now r1 + 604800 * second)\<rparr>"
    using assms by (auto simp: revert_lua_def r1_def stocked_def Let_def)
  have same: "rd_now r1 = rd_now r" "rd_reverted r1 = rd_reverted r"
    using redis_INCRBY_stock(4,5) [of t n r "fst (redis_INCRBY t n r)" "snd (redis_INCRBY t n r)"] by (simp_all add: r1_def)
  have "marked_until r' = (marked_until r)(c := (\<lambda>T. T < rd_now r + marker_life))"
    by (auto simp: r' same fun_eq_iff marked_until_def)
  moreover have "stocked_until r' u T" if "rd_now r \<le> T" "stocked_until r u T" for u T
    using redis_INCRBY_until [OF that(2,1), of t n] that(2) by (simp add: r' r1_def stocked_until_def)
  ultimately show ?thesis using r' same revert_first [OF assms] stocked_now by auto
qed

text \<open>The requests of a gate: what each script takes besides the ticket type and the quantity.\<close>

definition stage4_gate :: "ext \<Rightarrow> int \<times> string \<times> int \<Rightarrow> uuid \<Rightarrow> int \<Rightarrow> redis \<Rightarrow> bool \<times> redis" where
  "stage4_gate X q t n r = (case q of (user, oid, until) \<Rightarrow>
     (case deduct_lua X t n user oid until r of (res, r') \<Rightarrow> (hd res = ''ok'', r')))"

definition stage5_gate :: "ext \<Rightarrow> unit \<Rightarrow> uuid \<Rightarrow> int \<Rightarrow> redis \<Rightarrow> bool \<times> redis" where
  "stage5_gate X q t n r = (case deduct_no_xadd_lua X t n r of (res, r') \<Rightarrow> (hd res = ''ok'', r'))"

definition sync_gate :: "ext \<Rightarrow> unit \<Rightarrow> uuid \<Rightarrow> int \<Rightarrow> redis \<Rightarrow> bool \<times> redis" where
  "sync_gate X q t n r = (case deduct_sync_lua X t n r of (res, r') \<Rightarrow> (hd res = ''ok'', r'))"

interpretation gate5: inventory_gate rd_now redis_wait stock stocked_until marked_until marker_life "stage5_gate X" revert_lua for X
proof
  fix q :: unit and t n r r'
  assume "stage5_gate X q t n r = (True, r')"
  then obtain res where "deduct_no_xadd_lua X t n r = (res, r')" "hd res = ''ok''"
    by (auto simp: stage5_gate_def split: prod.splits)
  then show "n \<le> stock r t \<and> (\<forall>u. stock r' u = (if u = t then stock r t - n else stock r u))"
    by (rule deduct_no_xadd_effect(1))
next
  fix q :: unit and t n r r' u
  assume "stage5_gate X q t n r = (False, r')"
  then show "stock r' u = stock r u"
    by (auto simp: stage5_gate_def split: prod.splits intro: deduct_no_xadd_effect(2))
next
  fix q :: unit and t n r b r'
  assume "stage5_gate X q t n r = (b, r')"
  then obtain res where "deduct_no_xadd_lua X t n r = (res, r')"
    by (auto simp: stage5_gate_def split: prod.splits)
  note * = deduct_no_xadd_clock [OF this]
  show "rd_now r' = rd_now r \<and> marked_until r' = marked_until r \<and>
      (\<forall>u T. rd_now r \<le> T \<longrightarrow> stocked_until r u T \<longrightarrow> stocked_until r' u T)"
    using * marked_until_same by blast
qed (auto simp: reverted_now [symmetric] revert_again wait_stock intro: until_le dest: revert_first_until)

interpretation gate_sync: inventory_gate rd_now redis_wait stock stocked_until marked_until marker_life "sync_gate X" revert_lua for X
proof -
  have "sync_gate X = stage5_gate X"
    by (simp add: fun_eq_iff sync_gate_def stage5_gate_def deduct_sync_eq)
  then show "inventory_gate rd_now redis_wait stock stocked_until marked_until marker_life (sync_gate X) revert_lua"
    using gate5.inventory_gate_axioms by simp
qed

interpretation gate4: inventory_gate rd_now redis_wait stock stocked_until marked_until marker_life "stage4_gate X" revert_lua for X
proof
  fix q t n r r'
  assume "stage4_gate X q t n r = (True, r')"
  then obtain res r1 where r1: "deduct_no_xadd_lua X t n r = (res, r1)" "hd res = ''ok''"
    and st: "\<forall>u. stock r' u = stock r1 u"
    by (auto simp: stage4_gate_def deduct_lua_eq split: prod.splits)
  from deduct_no_xadd_effect(1) [OF r1] st
  show "n \<le> stock r t \<and> (\<forall>u. stock r' u = (if u = t then stock r t - n else stock r u))" by simp
next
  fix q t n r r' u
  assume "stage4_gate X q t n r = (False, r')"
  then show "stock r' u = stock r u"
    by (auto simp: stage4_gate_def deduct_lua_eq split: prod.splits intro: deduct_no_xadd_effect(2))
next
  fix q t n r b r'
  assume "stage4_gate X q t n r = (b, r')"
  then obtain res r1 where r1: "deduct_no_xadd_lua X t n r = (res, r1)"
    and st: "rd_qty r' = rd_qty r1" "rd_now r' = rd_now r1" "rd_reverted r' = rd_reverted r1"
    by (auto simp: stage4_gate_def deduct_lua_eq split: prod.splits if_splits)
  have "stocked_until r' u T = stocked_until r1 u T" for u T by (simp add: stocked_until_def st(1))
  with deduct_no_xadd_clock [OF r1] st
  show "rd_now r' = rd_now r \<and> marked_until r' = marked_until r \<and>
      (\<forall>u T. rd_now r \<le> T \<longrightarrow> stocked_until r u T \<longrightarrow> stocked_until r' u T)"
    using marked_until_same [of r' r] by simp
qed (auto simp: reverted_now [symmetric] revert_again wait_stock intro: until_le dest: revert_first_until)

section \<open>Rehydration\<close>

text \<open>\<open>rehydrate.go\<close>: metadata is always refreshed, the counter is written with \<open>SETNX\<close> only.\<close>

definition rehydrate_type :: "ext \<Rightarrow> duration \<Rightarrow> ticket_type \<Rightarrow> world \<Rightarrow> (err + unit) \<times> world" where
  "rehydrate_type X ttl t w =
    (case redis_call (\<lambda>r. ((), redis_HSET (tt_id t) (ticketTypeMetaValues X t) r)) w of
       (Inl e, w1) \<Rightarrow> (Inl (Wrap ''inventoryRehydrate HSET metadata'' e), w1)
     | (Inr _, w1) \<Rightarrow>
    (case redis_call (\<lambda>r. ((), redis_EXPIRE_meta (tt_id t) ttl r)) w1 of
       (Inl e, w2) \<Rightarrow> (Inl (Wrap ''inventoryRehydrate EXPIRE metadata'' e), w2)
     | (Inr _, w2) \<Rightarrow>
    (case redis_call (redis_SETNX_qty (tt_id t) (tt_availableTickets t) ttl) w2 of
       (Inl e, w3) \<Rightarrow> (Inl (Wrap ''inventoryRehydrate SETNX'' e), w3)
     | (Inr True, w3) \<Rightarrow> (Inr (), w3)
     | (Inr False, w3) \<Rightarrow>
    (case redis_call (\<lambda>r. (redis_get_qty (tt_id t) r, r)) w3 of
       (Inl e, w4) \<Rightarrow> (Inr (), w4)
     | (Inr None, w4) \<Rightarrow> (Inr (), w4)
     | (Inr (Some (existing, _)), w4) \<Rightarrow>
         (if existing > tt_availableTickets t
          then (Inr (), metric ''inventory_rehydrate_drift_total'' w4) else (Inr (), w4))))))"

definition rehydrate_event :: "ext \<Rightarrow> duration \<Rightarrow> event \<Rightarrow> world \<Rightarrow> (err + unit) \<times> world" where
  "rehydrate_event X ttl e w = (case ticketTypeRepo_ListByEventID X (ev_id e) w of
     (Inl x, w1) \<Rightarrow> (Inl (Wrap ''inventoryRehydrate list ticket_types'' x), w1)
   | (Inr ts, w1) \<Rightarrow> for_each (rehydrate_type X ttl) ts w1)"

definition RehydrateInventory :: "ext \<Rightarrow> duration \<Rightarrow> bool \<Rightarrow> world \<Rightarrow> (err + unit) \<times> world" where
  "RehydrateInventory X ttl held w = (case pgAdvisoryLock_TryLock held False w of
     (Inl e, _, w1) \<Rightarrow> (Inl (Wrap ''inventoryRehydrate try-lock'' e), w1)
   | (Inr False, _, w1) \<Rightarrow> (Inr (), w1)
   | (Inr True, conn, w1) \<Rightarrow>
       (case (case eventRepo_ListAvailable w1 of
                (Inl e, w2) \<Rightarrow> (Inl (Wrap ''inventoryRehydrate list events'' e), w2)
              | (Inr es, w2) \<Rightarrow> for_each (rehydrate_event X ttl) es w2) of
          (r, w3) \<Rightarrow> (case pgAdvisoryLock_Unlock conn w3 of (_, _, w4) \<Rightarrow> (r, w4))))"

section \<open>What the methods promise\<close>

lemma redis_call_rd:
  assumes "redis_call c w = (r, w')"
  shows "w_rd w' = w_rd w \<or> w_rd w' = snd (c (w_rd w))"
  using assms by (rule redis_call_cases) (auto simp: is_ok_iff split: sum.splits)

lemma redis_call_Inr: "redis_call c w = (Inr a, w') \<Longrightarrow> c (w_rd w) = (a, w_rd w')"
  by (erule redis_call_cases) auto

lemma Itoa_pos:
  assumes "0 < p"
  shows "strconv_Itoa p \<noteq> []" "list_all is_digit (strconv_Itoa p)" "int (dec_val (strconv_Itoa p)) = p"
  using assms
  by (simp_all add: strconv_Itoa_def show_nat_nonempty show_nat_digits dec_val_show_nat)

definition quoted :: "ext \<Rightarrow> ticket_type \<Rightarrow> redis \<Rightarrow> bool" where
  "quoted X t r \<longleftrightarrow> redis_HMGET (tt_id t) ''event_id'' r = Some (uuid_String X (tt_eventID t)) \<and>
     redis_HMGET (tt_id t) ''price_cents'' r = Some (strconv_Itoa (tt_priceCents t)) \<and>
     redis_HMGET (tt_id t) ''currency'' r = Some (tt_currency t)"

lemma HMGET_same: "rd_meta r' = rd_meta r \<Longrightarrow> rd_now r' = rd_now r \<Longrightarrow> redis_HMGET i f r' = redis_HMGET i f r"
  by (simp add: redis_HMGET_def redis_get_meta_def cong: option.case_cong prod.case_cong)

text \<open>Rehydration leaves every live counter as it is.\<close>

definition keeps_stock :: "redis \<Rightarrow> redis \<Rightarrow> bool" where
  "keeps_stock r r' \<longleftrightarrow> rd_now r' = rd_now r \<and> (\<forall>i. stocked r i \<longrightarrow> stocked r' i \<and> stock r' i = stock r i)"

lemma keeps_stock_refl [simp]: "keeps_stock r r"
  by (simp add: keeps_stock_def)

lemma keeps_stock_trans: "keeps_stock r r1 \<Longrightarrow> keeps_stock r1 r2 \<Longrightarrow> keeps_stock r r2"
  by (simp add: keeps_stock_def)

lemma keeps_stock_same_qty: "rd_now r' = rd_now r \<Longrightarrow> rd_qty r' = rd_qty r \<Longrightarrow> keeps_stock r r'"
  by (simp add: keeps_stock_def stocked_def stock_def redis_get_qty_def cong: option.case_cong)

lemma HSET_EXPIRE_frame [simp]:
  "rd_qty (redis_HSET i h r) = rd_qty r" "rd_now (redis_HSET i h r) = rd_now r"
  "rd_qty (redis_EXPIRE_meta i ttl r) = rd_qty r" "rd_now (redis_EXPIRE_meta i ttl r) = rd_now r"
  by (simp_all add: redis_HSET_def redis_EXPIRE_meta_def split: option.splits)

lemma SETNX_keeps: "keeps_stock r (snd (redis_SETNX_qty i n ttl r))"
  by (auto simp: keeps_stock_def redis_SETNX_qty_def redis_SET_qty_def stocked_def stock_def
      redis_get_qty_def alive_def split: option.splits if_splits)

lemma redis_call_keeps:
  assumes "redis_call c w = (x, w')" and "\<And>r. keeps_stock r (snd (c r))"
  shows "keeps_stock (w_rd w) (w_rd w')"
  using redis_call_rd [OF assms(1)] assms(2) by auto

lemma rehydrate_type_keeps:
  assumes "rehydrate_type X ttl t w = (x, w')"
  shows "keeps_stock (w_rd w) (w_rd w') \<and> w_pg w' = w_pg w"
proof -
  have H: "keeps_stock (w_rd a) (w_rd b) \<and> w_pg b = w_pg a"
    if "redis_call (\<lambda>r. ((), redis_HSET (tt_id t) (ticketTypeMetaValues X t) r)) a = (y, b)" for a b y
    using redis_call_keeps [OF that] redis_call_frame [OF that] by (simp add: keeps_stock_same_qty)
  have E: "keeps_stock (w_rd a) (w_rd b) \<and> w_pg b = w_pg a"
    if "redis_call (\<lambda>r. ((), redis_EXPIRE_meta (tt_id t) ttl r)) a = (y, b)" for a b y
    using redis_call_keeps [OF that] redis_call_frame [OF that] by (simp add: keeps_stock_same_qty)
  have S: "keeps_stock (w_rd a) (w_rd b) \<and> w_pg b = w_pg a"
    if "redis_call (redis_SETNX_qty (tt_id t) (tt_availableTickets t) ttl) a = (y, b)" for a b y
    using redis_call_keeps [OF that] redis_call_frame [OF that] by (simp add: SETNX_keeps)
  have G: "keeps_stock (w_rd a) (w_rd b) \<and> w_pg b = w_pg a"
    if "redis_call (\<lambda>r. (redis_get_qty (tt_id t) r, r)) a = (y, b)" for a b y
    using redis_call_keeps [OF that] redis_call_frame [OF that] by simp
  show ?thesis using assms
    by (auto simp: rehydrate_type_def split: prod.splits sum.splits bool.splits option.splits if_splits
        dest!: H E S G) (meson keeps_stock_trans)+
qed

lemma sql_query_wrap_frame:
  "ticketTypeRepo_ListByEventID X e w = (r, w') \<Longrightarrow> w_rd w' = w_rd w \<and> w_pg w' = w_pg w"
  "eventRepo_ListAvailable w = (r', w') \<Longrightarrow> w_rd w' = w_rd w \<and> w_pg w' = w_pg w"
  by (auto simp: ticketTypeRepo_ListByEventID_def eventRepo_ListAvailable_def
      split: prod.splits sum.splits dest!: sql_query_frame)

lemma advisory_lock_frame:
  "pgAdvisoryLock_TryLock held conn w = (r, c, w') \<Longrightarrow> w_rd w' = w_rd w \<and> w_pg w' = w_pg w"
  "pgAdvisoryLock_Unlock conn w = (r', c, w') \<Longrightarrow> w_rd w' = w_rd w \<and> w_pg w' = w_pg w"
  by (auto simp: pgAdvisoryLock_TryLock_def pgAdvisoryLock_Unlock_def
      split: prod.splits sum.splits fault.splits if_splits dest!: sql_query_frame io_pair)

lemma rehydrate_event_keeps:
  assumes "rehydrate_event X ttl e w = (x, w')"
  shows "keeps_stock (w_rd w) (w_rd w') \<and> w_pg w' = w_pg w"
proof -
  obtain r1 w1 where l: "ticketTypeRepo_ListByEventID X (ev_id e) w = (r1, w1)"
    by (cases "ticketTypeRepo_ListByEventID X (ev_id e) w")
  note fr = sql_query_wrap_frame(1) [OF l]
  show ?thesis
  proof (cases r1)
    case (Inl a)
    with assms l fr show ?thesis by (simp add: rehydrate_event_def)
  next
    case (Inr ts)
    with assms l have run: "for_each (rehydrate_type X ttl) ts w1 = (x, w')"
      by (simp add: rehydrate_event_def)
    from run show ?thesis
      by (rule for_each_invariant) (use fr in \<open>auto dest: rehydrate_type_keeps intro: keeps_stock_trans\<close>)
  qed
qed

lemma RehydrateInventory_keeps:
  assumes "RehydrateInventory X ttl held w = (x, w')"
  shows "keeps_stock (w_rd w) (w_rd w') \<and> w_pg w' = w_pg w"
proof -
  have loop: "keeps_stock (w_rd a) (w_rd b) \<and> w_pg b = w_pg a"
    if "for_each (rehydrate_event X ttl) es a = (y, b)" for es a y b
    using that
    by (rule for_each_invariant) (auto dest: rehydrate_event_keeps intro: keeps_stock_trans)
  show ?thesis using assms
    by (auto simp: RehydrateInventory_def split: prod.splits sum.splits bool.splits
        dest!: advisory_lock_frame sql_query_wrap_frame(2) loop)
qed

text \<open>A missing counter gets the database's value when the call goes through.\<close>

lemma SETNX_fills:
  "\<not> stocked r i \<Longrightarrow> redis_SETNX_qty i n ttl r = (True, r') \<and> stock r' i = n"
  if "r' = snd (redis_SETNX_qty i n ttl r)"
  using that
  by (auto simp: redis_SETNX_qty_def redis_SET_qty_def stocked_def stock_def redis_get_qty_def alive_def
      split: option.splits if_splits)

text \<open>A refused deduction creates the counter it did not find, as 0 and without a TTL.\<close>

lemma refusal_creates_counter:
  assumes "\<not> stocked r tt" and "0 < n"
  shows "\<exists>r'. deduct_no_xadd_lua X tt n r = ([''sold_out''], r') \<and> stocked r' tt \<and> stock r' tt = 0"
proof -
  obtain v r1 where d: "redis_DECRBY tt n r = (v, r1)" by (cases "redis_DECRBY tt n r")
  have "stock r tt = 0" using assms(1) by (auto simp: stock_def stocked_def split: option.splits)
  with redis_DECRBY_stock(1) [OF d] assms(2) have "v < 0" by simp
  with d \<open>stock r tt = 0\<close> show ?thesis
    by (auto simp: deduct_no_xadd_lua_def redis_DECRBY_INCRBY [OF d])
qed

section \<open>Properties\<close>

lemma exact_quote:
  assumes laws: "uuid_codec X" "lua_numbers X" and q: "quoted X t r" and pos: "0 < tt_priceCents t" "0 < n"
    and run: "deduct_no_xadd_lua X (tt_id t) n r = (res, r')"
  shows "(n \<le> stock r (tt_id t) \<longrightarrow> (if tt_priceCents t * n < 2 ^ 63
            then parse_deduct_result X res = Inr \<lparr>dr_Accepted = True, dr_EventID = tt_eventID t,
                   dr_AmountCents = tt_priceCents t * n, dr_Currency = tt_currency t\<rparr>
            else \<not> is_ok (parse_deduct_result X res))) \<and>
         (stock r (tt_id t) < n \<longrightarrow> parse_deduct_result X res = Inr not_accepted)"
proof -
  let ?p = "strconv_Itoa (tt_priceCents t)"
  obtain v r1 where d: "redis_DECRBY (tt_id t) n r = (v, r1)" by (cases "redis_DECRBY (tt_id t) n r")
  note ds = redis_DECRBY_stock [OF d]
  have hm: "redis_HMGET (tt_id t) f r1 = redis_HMGET (tt_id t) f r" for f
    by (rule HMGET_same) (simp_all add: ds)
  obtain amount where m: "multiply_decimal_string_by_int ?p n = Some amount" and
    a: "amount \<noteq> []" "list_all is_digit amount" "int (dec_val amount) = tt_priceCents t * n"
    using multiply_correct [OF Itoa_pos(1,2) [OF pos(1)] pos(2)] Itoa_pos(3) [OF pos(1)] by auto
  have num: "lua_IsNumber X ?p"
    using laws(2) Itoa_pos(1,2) [OF pos(1)] by (simp add: lua_numbers_def)
  have sold_out: "stock r (tt_id t) < n \<Longrightarrow> res = [''sold_out'']"
    using run d ds(1) by (simp add: deduct_no_xadd_lua_def)
  have ok: "n \<le> stock r (tt_id t) \<Longrightarrow> res = [''ok'', uuid_String X (tt_eventID t), amount, tt_currency t]"
    using run d ds(1) q by (simp add: deduct_no_xadd_lua_def hm quoted_def num m)
  have parsed: "strconv_ParseInt amount = (if tt_priceCents t * n < 2 ^ 63 then Some (tt_priceCents t * n) else None)"
  proof (cases "tt_priceCents t * n < 2 ^ 63")
    case True
    then have "int (dec_val amount) < 2 ^ 63" by (simp add: a(3))
    then have "dec_val amount < 2 ^ 63" by simp
    with ParseInt_digits [OF a(1,2)] a(3) True show ?thesis by simp
  next
    case False
    have "strconv_ParseInt amount = None"
    proof (cases amount)
      case (Cons c cs)
      with a(2) have "c \<noteq> CHR ''-''" "c \<noteq> CHR ''+''" by (auto simp: is_digit_def)
      with a False Cons show ?thesis by (simp add: strconv_ParseInt_def in_int64_def)
    qed (use a(1) in simp)
    with False show ?thesis by simp
  qed
  show ?thesis using ok sold_out parsed laws(1)
    by (auto simp: parse_deduct_result_def uuid_codec_def not_accepted_def)
qed

text \<open>The price quote is exact. When the metadata of a ticket type is what the event service wrote
  and the stock suffices, the deduction is accepted with the exact product of price and quantity
  (the digit-by-digit product of the script never rounds); a product outside 64 bits is an
  error, never a wrapped amount; without stock the result is the plain refusal.\<close>

theorem quote_exact:
  assumes laws: "uuid_codec X" "lua_numbers X" and q: "quoted X t r" and pos: "0 < tt_priceCents t" "0 < n"
    and run: "deduct_no_xadd_lua X (tt_id t) n r = (res, r')"
  shows "(n \<le> stock r (tt_id t) \<longrightarrow> (if tt_priceCents t * n < 2 ^ 63
            then parse_deduct_result X res = Inr \<lparr>dr_Accepted = True, dr_EventID = tt_eventID t,
                   dr_AmountCents = tt_priceCents t * n, dr_Currency = tt_currency t\<rparr>
            else \<not> is_ok (parse_deduct_result X res))) \<and>
         (stock r (tt_id t) < n \<longrightarrow> parse_deduct_result X res = Inr not_accepted)"
  using assms by (rule exact_quote)

definition demo_tt :: ticket_type where
  "demo_tt = \<lparr>tt_id = 5, tt_eventID = 3, tt_name = ''floor'', tt_priceCents = 250, tt_currency = ''usd'',
     tt_totalTickets = 10, tt_availableTickets = 10, tt_saleStartsAt = None, tt_saleEndsAt = None,
     tt_perUserLimit = None, tt_areaLabel = '''', tt_version = 0\<rparr>"

definition demo_redis :: redis where
  "demo_redis = empty_redis\<lparr>rd_qty := [5 \<mapsto> (10, None)],
     rd_meta := [5 \<mapsto> (ticketTypeMetaValues plain_ext demo_tt, None)]\<rparr>"

lemma demo_redis_quoted: "quoted plain_ext demo_tt demo_redis"
  by (simp add: quoted_def demo_redis_def demo_tt_def redis_HMGET_def redis_get_meta_def alive_def
      ticketTypeMetaValues_def)

lemma demo_redis_stock: "stock demo_redis 5 = 10" "stocked demo_redis 5" "\<not> reverted demo_redis c"
  by (simp_all add: demo_redis_def empty_redis_def stock_def stocked_def redis_get_qty_def alive_def reverted_def)

lemma quote_exact_witness:
  "parse_deduct_result plain_ext (fst (deduct_no_xadd_lua plain_ext 5 3 demo_redis)) =
     Inr \<lparr>dr_Accepted = True, dr_EventID = 3, dr_AmountCents = 750, dr_Currency = ''usd''\<rparr>"
proof -
  obtain res r' where run: "deduct_no_xadd_lua plain_ext (tt_id demo_tt) 3 demo_redis = (res, r')"
    by (metis surj_pair)
  have "0 < tt_priceCents demo_tt" "(0::int) < 3" "tt_id demo_tt = 5" by (simp_all add: demo_tt_def)
  with quote_exact [OF plain_ext_laws(1,2) demo_redis_quoted this(1,2) run] run demo_redis_stock
  show ?thesis by (simp add: demo_tt_def)
qed



text \<open>After the seven days the marker no longer protects: a second revert with the same compensation id
  gives the tickets back once more.\<close>

lemma second_revert_after_the_marker:
  assumes "\<not> reverted r c" and live: "stocked_until r t (rd_now r + marker_life)"
    and run: "gate_run rd_now redis_wait (stage4_gate X) revert_lua
      [Revert t n c, Wait (nat marker_life), Revert t n c] r = (js, r')"
  shows "js = [Restored (rd_now r) t n c, Restored (rd_now r + marker_life) t n c] \<and> stock r' t = stock r t + n + n"
proof -
  obtain k r1 where r1: "revert_lua t n c r = (k, r1)" by (cases "revert_lua t n c r")
  note f1 = revert_first_until [OF assms(1) r1]
  let ?r2 = "redis_wait (nat marker_life) r1"
  have now: "rd_now ?r2 = rd_now r + marker_life" using f1 by simp
  have "\<not> reverted ?r2 c" using f1 now by (simp add: reverted_now)
  moreover obtain k' r3 where r3: "revert_lua t n c ?r2 = (k', r3)" by (cases "revert_lua t n c ?r2")
  ultimately have f2: "k' = 1" "stock r3 t = (if stocked_until ?r2 t (rd_now ?r2) then stock ?r2 t + n else stock ?r2 t)"
    using revert_first_until by simp_all
  have "js = [Restored (rd_now r) t n c, Restored (rd_now r + marker_life) t n c]" "r' = r3"
    using run r1 r3 f1 f2(1) now by simp_all
  with gate4.conservation [OF run, of t] live now r3 f2 f1 show ?thesis
    using revert_first_until [OF \<open>\<not> reverted ?r2 c\<close> r3] by simp
qed

text \<open>C19: no gate oversells. Through any of the three deduct scripts, the quantities accepted for a
  ticket type, whatever is asked in whatever order and at whatever times, fit in the stock it had.\<close>

theorem gates_never_oversell:
  assumes "0 \<le> stock r t" and "list_all no_revert ops4" and "list_all no_revert ops5"
  shows "sum_list (map (sold_of t) (fst (gate_run rd_now redis_wait (stage4_gate X) revert_lua ops4 r))) \<le> stock r t \<and>
    sum_list (map (sold_of t) (fst (gate_run rd_now redis_wait (stage5_gate X) revert_lua ops5 r))) \<le> stock r t \<and>
    sum_list (map (sold_of t) (fst (gate_run rd_now redis_wait (sync_gate X) revert_lua ops5 r))) \<le> stock r t"
  using gate4.no_oversell [OF _ assms(2,1)] gate5.no_oversell [OF _ assms(3,1)]
    gate_sync.no_oversell [OF _ assms(3,1)]
  by (metis surj_pair fst_conv)

lemma gates_never_oversell_witness:
  "sum_list (map (sold_of 5) (fst (gate_run rd_now redis_wait (stage5_gate plain_ext) revert_lua
     [Deduct () 5 6, Deduct () 5 6, Wait 100, Deduct () 5 4] demo_redis))) \<le> 10"
  using gates_never_oversell [of demo_redis 5 "[Deduct (7, ''9'', 100) 5 2]"
      "[Deduct () 5 6, Deduct () 5 6, Wait 100, Deduct () 5 4]" plain_ext]
  by (simp add: demo_redis_stock)

text \<open>C24: the copies of the script agree. On every state the three scripts give the same reply and
  leave the same counters, metadata and markers; the stage-5 and the synchronous script never touch
  the stream or its pending entries, and the stage-4 script appends to it exactly one entry when it
  accepts, with the order, the user, the quantity, the deadline and the ticket type of the call and
  the event, amount and currency of the reply, and leaves it alone when it refuses.\<close>

theorem deduct_scripts_agree:
  "case (deduct_lua X tt n user oid until r, deduct_no_xadd_lua X tt n r, deduct_sync_lua X tt n r) of
     ((res4, r4), (res5, r5), (res_sync, r_sync)) \<Rightarrow>
       res4 = res5 \<and> res_sync = res5 \<and> r_sync = r5 \<and> rd_stream r5 = rd_stream r \<and> rd_seq r5 = rd_seq r \<and>
       r4\<lparr>rd_stream := rd_stream r, rd_seq := rd_seq r\<rparr> = r5 \<and>
       rd_stream r4 = rd_stream r @ (if hd res4 = ''ok''
         then [\<lparr>xm_ID = redis_StreamID X (rd_seq r), xm_Values = map_of
           [(''order_id'', oid), (''user_id'', strconv_Itoa user), (''event_id'', res4 ! 1),
            (''quantity'', strconv_Itoa n), (''reserved_until'', strconv_Itoa until),
            (''ticket_type_id'', uuid_String X tt), (''amount_cents'', res4 ! 2), (''currency'', res4 ! 3)]\<rparr>]
         else [])"
proof -
  obtain res r' where g: "deduct_no_xadd_lua X tt n r = (res, r')" by (cases "deduct_no_xadd_lua X tt n r")
  then have "rd_stream r' = rd_stream r \<and> rd_seq r' = rd_seq r"
    by (cases rule: deduct_no_xadd_cases)
      (auto simp: redis_DECRBY_INCRBY redis_DECRBY_stock(8) redis_INCRBY_seq dest: redis_DECRBY_stock(7,8))
  with g show ?thesis by (simp add: deduct_sync_eq deduct_lua_eq) (simp add: redis_XADD_def)
qed

text \<open>Rehydration is safe while bookings run: whatever fails and whoever holds the lock, it changes no
  live counter and not the database.\<close>

theorem rehydration_keeps_live_counters:
  assumes "RehydrateInventory X ttl held w = (x, w')" and "stocked (w_rd w) i"
  shows "stocked (w_rd w') i \<and> stock (w_rd w') i = stock (w_rd w) i \<and> w_pg w' = w_pg w"
  using RehydrateInventory_keeps [OF assms(1)] assms(2) by (simp add: keeps_stock_def)

lemma rehydration_keeps_live_counters_witness:
  "stock (w_rd (snd (RehydrateInventory plain_ext 100 False (empty_world\<lparr>w_rd := demo_redis\<rparr>)))) 5 = 10"
  using rehydration_keeps_live_counters [of plain_ext 100 False "empty_world\<lparr>w_rd := demo_redis\<rparr>" _
      "snd (RehydrateInventory plain_ext 100 False (empty_world\<lparr>w_rd := demo_redis\<rparr>))" 5]
  by (simp add: demo_redis_stock prod_eq_iff)

text \<open>A request that arrives before rehydration blocks it. With the counter missing and every call
  working, one refused deduction leaves a counter of 0, and rehydrating the ticket type after it
  succeeds without restoring the available tickets of the database.\<close>

theorem early_request_blocks_rehydration:
  assumes missing: "\<not> stocked (w_rd w) (tt_id t)" and nf: "w_faults w = []" and n: "0 < n"
    and avail: "0 < tt_availableTickets t"
  shows "\<exists>w1 w2. DeductInventoryNoStream X (tt_id t) n w = (Inr not_accepted, w1) \<and>
    rehydrate_type X ttl t w1 = (Inr (), w2) \<and> stock (w_rd w2) (tt_id t) = 0"
proof -
  obtain r1 where r1: "deduct_no_xadd_lua X (tt_id t) n (w_rd w) = ([''sold_out''], r1)"
    "stocked r1 (tt_id t)" "stock r1 (tt_id t) = 0"
    using refusal_creates_counter [OF missing n] by blast
  let ?w1 = "w\<lparr>w_rd := r1\<rparr>"
  have d: "DeductInventoryNoStream X (tt_id t) n w = (Inr not_accepted, ?w1)"
    using nf r1(1) by (simp add: DeductInventoryNoStream_def redis_call_Works parse_deduct_result_def)
  obtain x w2 where h: "rehydrate_type X ttl t ?w1 = (x, w2)" by (cases "rehydrate_type X ttl t ?w1")
  have "stock (w_rd w2) (tt_id t) = 0"
    using rehydrate_type_keeps [OF h] r1(2,3) by (simp add: keeps_stock_def)
  moreover have "x = Inr ()"
    using h nf by (auto simp: rehydrate_type_def redis_call_Works split: prod.splits bool.splits option.splits if_splits)
  ultimately show ?thesis using d h by auto
qed

lemma early_request_blocks_rehydration_witness:
  "\<exists>w1 w2. DeductInventoryNoStream plain_ext 5 1 empty_world = (Inr not_accepted, w1) \<and>
    rehydrate_type plain_ext 100 demo_tt w1 = (Inr (), w2) \<and> stock (w_rd w2) 5 = 0"
proof -
  have "tt_id demo_tt = 5" "0 < tt_availableTickets demo_tt" by (simp_all add: demo_tt_def)
  moreover have "\<not> stocked (w_rd empty_world) 5" "w_faults empty_world = []"
    by (simp_all add: empty_world_def empty_redis_def stocked_def redis_get_qty_def)
  ultimately show ?thesis using early_request_blocks_rehydration [of empty_world demo_tt 1 plain_ext 100] by simp
qed

end
