(* ===== verification/Ledger.thy ===== *)
theory Ledger
  imports Postgres
begin

text \<open>
  The accounting of tickets in PostgreSQL, shared by the worker, the intake consumer and the
  compensators. \<open>ledger_ok\<close>: for every ticket type, the available tickets and the quantities of
  its orders that are not compensated add up to its total. The lemmas say how the statements
  move the two sides.
\<close>

definition held :: "uuid \<Rightarrow> order_row \<Rightarrow> int" where
  "held tt r = (if or_tt r = Some tt \<and> or_status r \<noteq> Compensated then or_qty r else 0)"

definition held_of :: "uuid \<Rightarrow> order_row list \<Rightarrow> int" where
  "held_of tt rs = sum_list (map (held tt) rs)"

definition ledger_ok :: "pg \<Rightarrow> bool" where
  "ledger_ok p \<longleftrightarrow> list_all (\<lambda>t. tr_available t + held_of (tr_id t) (pg_orders p) = tr_total t) (pg_types p) \<and>
     list_all (\<lambda>r. 0 < or_qty r) (pg_orders p)"

definition db_ok :: "pg \<Rightarrow> bool" where
  "db_ok p \<longleftrightarrow> pg_wf p \<and> ledger_ok p"

lemma ledger_clock [simp]: "ledger_ok (p\<lparr>pg_now := t\<rparr>) = ledger_ok p" "db_ok (p\<lparr>pg_now := t\<rparr>) = db_ok p"
  by (simp_all add: ledger_ok_def db_ok_def)

lemma held_of_append [simp]: "held_of tt (xs @ ys) = held_of tt xs + held_of tt ys"
  by (simp add: held_of_def)

lemma held_of_single [simp]: "held_of tt [r] = held tt r"
  by (simp add: held_of_def)

lemma held_nonneg: "list_all (\<lambda>r. 0 < or_qty r) rs \<Longrightarrow> 0 \<le> held_of tt rs"
  unfolding held_of_def
  by (rule sum_list_filter_nonneg) (auto simp: held_def list_all_iff split: if_splits)

text \<open>The available tickets never exceed the total, and never more is held than the total.\<close>

lemma ledger_bounds:
  assumes "db_ok p" and "t \<in> set (pg_types p)"
  shows "0 \<le> tr_available t \<and> 0 \<le> held_of (tr_id t) (pg_orders p) \<and>
    held_of (tr_id t) (pg_orders p) \<le> tr_total t"
proof -
  have "type_row_ok t" and "tr_available t + held_of (tr_id t) (pg_orders p) = tr_total t"
    and "list_all (\<lambda>r. 0 < or_qty r) (pg_orders p)"
    using assms by (auto simp: db_ok_def pg_wf_def ledger_ok_def list_all_iff)
  with held_nonneg [of "pg_orders p" "tr_id t"] show ?thesis by (auto simp: type_row_ok_def)
qed

lemma held_of_update:
  assumes "distinct (map or_id rs)" and "lookup or_id i rs = Some r" and "or_id r' = or_id r"
  shows "held_of tt (update_where (\<lambda>x. or_id x = i) (\<lambda>_. r') rs) = held_of tt rs + (held tt r' - held tt r)"
  unfolding held_of_def by (rule sum_list_update_key) (use assms in auto)

lemma qty_update:
  assumes "list_all (\<lambda>r. 0 < or_qty r) rs" and "0 < or_qty r'"
  shows "list_all (\<lambda>r. 0 < or_qty r) (update_where (\<lambda>x. or_id x = i) (\<lambda>_. r') rs)"
  using assms by (induction rs) auto

lemma lookup_qty:
  "list_all (\<lambda>r. 0 < or_qty r) rs \<Longrightarrow> lookup or_id i rs = Some r \<Longrightarrow> 0 < or_qty r"
  by (auto simp: list_all_iff dest: lookup_in_set)

text \<open>A transition other than the compensation moves no tickets.\<close>

lemma moved_held:
  assumes mv: "moved m i p p'" and wf: "db_ok p"
  shows "held_of tt (pg_orders p') = held_of tt (pg_orders p) -
    (case lookup or_id i (pg_orders p) of None \<Rightarrow> 0
     | Some r \<Rightarrow> if m = MarkCompensated \<and> or_tt r = Some tt then or_qty r else 0)"
proof -
  obtain r where r: "lookup or_id i (pg_orders p) = Some r" "mark_guard m (pg_now p) r"
    and p': "pg_orders p' = update_where (\<lambda>x. or_id x = i)
        (\<lambda>_. r\<lparr>or_status := mark_target m, or_updated := pg_now p\<rparr>) (pg_orders p)"
    using mv by (auto simp: moved_def)
  have d: "distinct (map or_id (pg_orders p))"
    using wf by (simp add: db_ok_def pg_wf_def orders_wf_def)
  have h: "held tt (r\<lparr>or_status := mark_target m, or_updated := pg_now p\<rparr>) - held tt r =
      - (if m = MarkCompensated \<and> or_tt r = Some tt then or_qty r else 0)"
    using r(2) by (cases m) (auto simp: held_def mark_guard_def edge_simps)
  show ?thesis unfolding p' using held_of_update [OF d r(1)] h r(1) by simp
qed

lemma moved_frame:
  "moved m i p p' \<Longrightarrow> pg_types p' = pg_types p \<and> pg_events p' = pg_events p \<and> pg_outbox p' = pg_outbox p \<and>
     pg_saga p' = pg_saga p \<and> pg_now p' = pg_now p"
  by (auto simp: moved_def)

lemma moved_qty: "moved m i p p' \<Longrightarrow> list_all (\<lambda>r. 0 < or_qty r) (pg_orders p) \<Longrightarrow>
    list_all (\<lambda>r. 0 < or_qty r) (pg_orders p')"
  by (auto simp: moved_def intro!: qty_update) (erule (1) lookup_qty)

lemma moved_db_ok [preserves]:
  assumes mv: "moved m i p p'" and wf: "db_ok p" and m: "m \<noteq> MarkCompensated"
  shows "db_ok p'"
proof -
  have "held_of tt (pg_orders p') = held_of tt (pg_orders p)" for tt
    using moved_held [OF mv wf, of tt] m by (auto split: option.splits)
  with wf moved_frame [OF mv] moved_qty [OF mv] moved_pg_wf [OF mv] show ?thesis
    by (simp add: db_ok_def ledger_ok_def)
qed

section \<open>Booking\<close>

text \<open>What the booking transaction does to the database: take the tickets, insert the order.\<close>

definition booked :: "uuid \<Rightarrow> int \<Rightarrow> order \<Rightarrow> pg \<Rightarrow> pg \<Rightarrow> bool" where
  "booked tt q o' p p' \<longleftrightarrow> (\<exists>n p1. sql_decrement_type tt q p = Inr (n, p1) \<and> n \<noteq> 0 \<and>
     sql_insert_order (orderRowFromDomain (pg_now p) o') p1 = Inr (1, p'))"

lemma booked_row:
  assumes "booked tt q o' p p'"
  shows "lookup or_id (id_of o') (pg_orders p') = Some (orderRowFromDomain (pg_now p) o')"
    and "lookup or_id (id_of o') (pg_orders p) = None"
    and "pg_orders p' = pg_orders p @ [orderRowFromDomain (pg_now p) o']"
    and "pg_history p' = pg_history p" and "pg_saga p' = pg_saga p" and "pg_now p' = pg_now p"
  using assms
  by (auto simp: booked_def sql_decrement_type_def sql_insert_order_def lookup_append Let_def
      split: if_splits option.splits)

lemma decrement_types:
  "sql_decrement_type tt q p = Inr (n, p1) \<Longrightarrow> pg_orders p1 = pg_orders p \<and>
     n = count_where (\<lambda>r. tr_id r = tt \<and> tr_available r \<ge> q) (pg_types p) \<and>
     pg_types p1 = update_where (\<lambda>r. tr_id r = tt \<and> tr_available r \<ge> q)
       (\<lambda>r. r\<lparr>tr_available := tr_available r - q\<rparr>) (pg_types p)"
  by (auto simp: sql_decrement_type_def Let_def)

lemma booked_type:
  assumes "booked tt q o' p p'" and "distinct (map tr_id (pg_types p))"
  shows "\<exists>t. lookup tr_id tt (pg_types p) = Some t \<and> q \<le> tr_available t \<and>
    lookup tr_id tt (pg_types p') = Some (t\<lparr>tr_available := tr_available t - q\<rparr>)"
proof -
  obtain n p1 where d: "sql_decrement_type tt q p = Inr (n, p1)" "n \<noteq> 0"
    and types: "pg_types p' = pg_types p1"
    using assms(1) by (auto simp: booked_def sql_insert_order_def split: if_splits)
  note dt = decrement_types [OF d(1)]
  have "count_where (\<lambda>r. tr_id r = tt \<and> tr_available r \<ge> q) (pg_types p) \<noteq> 0" using dt d(2) by simp
  then obtain t where t: "lookup tr_id tt (pg_types p) = Some t" "q \<le> tr_available t"
    using count_where_key [OF assms(2), of tt "\<lambda>r. tr_available r \<ge> q"] by (auto split: option.splits if_splits)
  have "lookup tr_id tt (pg_types p1) = Some (t\<lparr>tr_available := tr_available t - q\<rparr>)"
    using lookup_other_key [of tr_id "\<lambda>r. r\<lparr>tr_available := tr_available r - q\<rparr>" tt tt
        "\<lambda>r. tr_available r \<ge> q" "pg_types p"] dt t by simp
  with t types show ?thesis by auto
qed

text \<open>Taking \<open>q\<close> tickets from the row of \<open>tt\<close> and inserting a live order over them keeps the books.\<close>

lemma take_and_insert_db_ok:
  assumes wf: "db_ok p" and t: "lookup tr_id tt (pg_types p) = Some t" "q \<le> tr_available t" "P t"
    and P: "\<And>x. P x \<Longrightarrow> tr_id x = tt"
    and f: "\<And>x. tr_id (f x) = tr_id x \<and> tr_total (f x) = tr_total x \<and> tr_available (f x) = tr_available x - q"
    and ins: "sql_insert_order row (p\<lparr>pg_types := update_where P f (pg_types p)\<rparr>) = Inr (k, p')"
    and row: "or_tt row = Some tt" "or_qty row = q" "0 < q" "or_status row \<noteq> Compensated"
  shows "db_ok p'"
proof -
  have dist: "distinct (map tr_id (pg_types p))" using wf by (simp add: db_ok_def pg_wf_def)
  have one: "x = t" if "x \<in> set (pg_types p)" "P x" for x
    using lookup_of_set [OF dist that(1)] P [OF that(2)] t(1) by simp
  have p': "p' = p\<lparr>pg_types := update_where P f (pg_types p), pg_orders := pg_orders p @ [row]\<rparr>"
    and fresh: "lookup or_id (or_id row) (pg_orders p) = None" "\<not> order_violation row (pg_orders p)"
    using ins by (auto simp: sql_insert_order_def split: if_splits)
  have types: "x' \<in> set (pg_types p') \<Longrightarrow> \<exists>x \<in> set (pg_types p). x' = (if P x then f x else x)" for x'
    by (auto simp: p' update_where_def)
  have ok: "type_row_ok x" "tr_available x + held_of (tr_id x) (pg_orders p) = tr_total x"
    if "x \<in> set (pg_types p)" for x
    using wf that by (auto simp: db_ok_def pg_wf_def ledger_ok_def list_all_iff)
  have held: "held u row = (if u = tt then q else 0)" for u
    using row by (auto simp: held_def)
  have "type_row_ok x' \<and> tr_available x' + held_of (tr_id x') (pg_orders p') = tr_total x'"
    if "x' \<in> set (pg_types p')" for x'
  proof -
    from types [OF that] obtain x where x: "x \<in> set (pg_types p)" and x': "x' = (if P x then f x else x)" by blast
    show ?thesis
    proof (cases "P x")
      case True
      then have "x = t" "tr_id x = tt" using one [OF x] P by auto
      then show ?thesis using ok [OF x] x' True f [of x] t(2) row(3)
        by (auto simp: p' held type_row_ok_def)
    next
      case False
      then have "tr_id x \<noteq> tt" using lookup_of_set [OF dist x] t(1,3) by auto
      with ok [OF x] x' False show ?thesis by (auto simp: p' held)
    qed
  qed
  moreover have "map tr_id (pg_types p') = map tr_id (pg_types p)"
    by (simp add: p' keys_update_where f)
  moreover have "orders_wf (pg_orders p')"
    using wf fresh by (auto simp: p' db_ok_def pg_wf_def lookup_None_iff intro!: orders_wf_snoc)
  ultimately show ?thesis
    using wf row by (auto simp: db_ok_def pg_wf_def ledger_ok_def list_all_iff) (auto simp: p')
qed

lemma booked_db_ok [preserves]:
  assumes b: "booked tt q o' p p'" and wf: "db_ok p" and tt: "tt = ticketTypeID o'" "tt \<noteq> uuid_Nil"
    and q: "q = quantity o'" "0 < q" and st: "status o' \<noteq> Compensated"
  shows "db_ok p'"
proof -
  obtain n p1 where d: "sql_decrement_type tt q p = Inr (n, p1)" "n \<noteq> 0"
    and ins: "sql_insert_order (orderRowFromDomain (pg_now p) o') p1 = Inr (1, p')"
    using b by (auto simp: booked_def)
  have dist: "distinct (map tr_id (pg_types p))" using wf by (simp add: db_ok_def pg_wf_def)
  obtain t where t: "lookup tr_id tt (pg_types p) = Some t" "q \<le> tr_available t"
    using booked_type [OF b dist] by auto
  have p1: "p1 = p\<lparr>pg_types := update_where (\<lambda>r. tr_id r = tt \<and> tr_available r \<ge> q)
      (\<lambda>r. r\<lparr>tr_available := tr_available r - q\<rparr>) (pg_types p)\<rparr>"
    using d(1) by (auto simp: sql_decrement_type_def Let_def)
  show ?thesis
    by (rule take_and_insert_db_ok [OF wf t _ _ _ ins [unfolded p1]])
      (use t tt q st lookup_in_set [OF t(1)] in \<open>auto simp: orderRowFromDomain_def\<close>)
qed

section \<open>Compensation\<close>

text \<open>Giving the tickets of an order back and compensating it, in one transaction.\<close>

lemma increment_types:
  "sql_increment_type tt q p = Inr (n, p1) \<Longrightarrow> pg_orders p1 = pg_orders p \<and> pg_now p1 = pg_now p \<and>
     n = count_where (\<lambda>r. tr_id r = tt \<and> tr_available r + q \<le> tr_total r) (pg_types p) \<and>
     pg_types p1 = update_where (\<lambda>r. tr_id r = tt \<and> tr_available r + q \<le> tr_total r)
       (\<lambda>r. r\<lparr>tr_available := tr_available r + q\<rparr>) (pg_types p)"
  by (auto simp: sql_increment_type_def Let_def split: if_splits)

lemma compensated_db_ok:
  assumes inc: "sql_increment_type tt q p = Inr (n, p1)" and n: "n \<noteq> 0"
    and mv: "moved MarkCompensated i p1 p2" and wf: "db_ok p"
    and row: "lookup or_id i (pg_orders p) = Some r" and tt: "or_tt r = Some tt" and q: "or_qty r = q"
  shows "db_ok p2"
proof -
  note it = increment_types [OF inc]
  have q0: "0 < q" using wf row q lookup_qty by (auto simp: db_ok_def ledger_ok_def)
  have dist: "distinct (map tr_id (pg_types p))" using wf by (simp add: db_ok_def pg_wf_def)
  have wf1: "pg_wf p1" using pg_wf_increment [OF inc] wf q0 by (simp add: db_ok_def)
  then have wf2: "pg_wf p2" by (rule moved_pg_wf [OF mv])
  obtain t where t: "lookup tr_id tt (pg_types p) = Some t" "tr_available t + q \<le> tr_total t"
    using count_where_key [OF dist, of tt "\<lambda>r. tr_available r + q \<le> tr_total r"] it n
    by (auto split: option.splits if_splits)
  obtain r' where r': "lookup or_id i (pg_orders p1) = Some r'" "mark_guard MarkCompensated (pg_now p1) r'"
    and p2: "pg_orders p2 = update_where (\<lambda>x. or_id x = i)
        (\<lambda>_. r'\<lparr>or_status := Compensated, or_updated := pg_now p1\<rparr>) (pg_orders p1)"
    using mv by (auto simp: moved_def)
  have "r' = r" using r' row it by simp
  have dO: "distinct (map or_id (pg_orders p))" using wf by (simp add: db_ok_def pg_wf_def orders_wf_def)
  have "held u (r\<lparr>or_status := Compensated, or_updated := pg_now p1\<rparr>) - held u r = (if u = tt then - q else 0)" for u
    using r'(2) \<open>r' = r\<close> tt q by (auto simp: held_def mark_guard_def edge_simps)
  then have held: "held_of u (pg_orders p2) = held_of u (pg_orders p) + (if u = tt then - q else 0)" for u
    using held_of_update [OF dO row] p2 it \<open>r' = r\<close> by simp
  have types: "pg_types p2 = pg_types p1" using moved_frame [OF mv] by simp
  have "tr_available x' + held_of (tr_id x') (pg_orders p2) = tr_total x'" if "x' \<in> set (pg_types p2)" for x'
  proof -
    from that obtain x where x: "x \<in> set (pg_types p)" and
      x': "x' = (if tr_id x = tt \<and> tr_available x + q \<le> tr_total x then x\<lparr>tr_available := tr_available x + q\<rparr> else x)"
      by (auto simp: types it update_where_def)
    have ok: "tr_available x + held_of (tr_id x) (pg_orders p) = tr_total x"
      using wf x by (auto simp: db_ok_def ledger_ok_def list_all_iff)
    have "tr_id x = tt \<Longrightarrow> x = t" using lookup_of_set [OF dist x] t(1) by simp
    then show ?thesis using ok x' t(2) by (auto simp: held)
  qed
  then have "ledger_ok p2"
    using wf moved_qty [OF mv] it by (auto simp: ledger_ok_def db_ok_def list_all_iff)
  with wf2 show ?thesis by (simp add: db_ok_def)
qed

end
