(* ===== verification/Worker.thy ===== *)
theory Worker
  imports Lua_Inventory Ledger
begin

text \<open>
  The stream worker: \<open>application/worker\<close> (the message processor, its metrics decorator, the retry
  policy) and \<open>infrastructure/cache/redis_queue.go\<close> (parsing, retry, compensation, the dead-letter
  stream, the pending-entries recovery and the subscription loop). The two loops that run until
  the process stops take fuel, one unit per round; \<open>None\<close> means that the loop is still running.
\<close>

section \<open>Messages\<close>

record queue_message =
  qm_MessageID :: string
  qm_OrderID :: uuid
  qm_UserID :: int
  qm_EventID :: uuid
  qm_Quantity :: int
  qm_ReservedUntil :: time
  qm_TicketTypeID :: uuid
  qm_AmountCents :: int
  qm_Currency :: string

definition message_field :: "xmessage \<Rightarrow> string \<Rightarrow> err + string" where
  "message_field m f = some_or (Plain (''missing '' @ f)) (xm_Values m f)"

definition parseMessage :: "ext \<Rightarrow> xmessage \<Rightarrow> err + queue_message" where
  "parseMessage X m =
    try_bind (message_field m ''order_id'') (\<lambda>orderIDStr.
    try_bind (message_field m ''user_id'') (\<lambda>userIDStr.
    try_bind (message_field m ''event_id'') (\<lambda>eventIDStr.
    try_bind (message_field m ''quantity'') (\<lambda>qtyStr.
    try_bind (message_field m ''reserved_until'') (\<lambda>reservedUntilStr.
    try_bind (message_field m ''ticket_type_id'') (\<lambda>ticketTypeIDStr.
    try_bind (message_field m ''amount_cents'') (\<lambda>amountCentsStr.
    try_bind (message_field m ''currency'') (\<lambda>cur.
    try_bind (some_or (Wrap ''invalid order_id'' (Plain ''uuid'')) (uuid_Parse X orderIDStr)) (\<lambda>orderID.
    if orderID = uuid_Nil then Inl (Plain ''invalid order_id: zero UUID'') else
    try_bind (some_or (Wrap ''invalid user_id'' (Plain ''strconv'')) (strconv_ParseInt userIDStr)) (\<lambda>user.
    try_bind (some_or (Wrap ''invalid event_id'' (Plain ''uuid'')) (uuid_Parse X eventIDStr)) (\<lambda>ev.
    try_bind (some_or (Wrap ''invalid quantity'' (Plain ''strconv'')) (strconv_ParseInt qtyStr)) (\<lambda>qty.
    try_bind (some_or (Wrap ''invalid reserved_until'' (Plain ''strconv''))
      (strconv_ParseInt reservedUntilStr)) (\<lambda>reservedUnix.
    if reservedUnix \<le> 0 then Inl (Plain ''invalid reserved_until: must be a positive unix timestamp'') else
    try_bind (some_or (Wrap ''invalid ticket_type_id'' (Plain ''uuid'')) (uuid_Parse X ticketTypeIDStr)) (\<lambda>tt.
    if tt = uuid_Nil then Inl (Plain ''invalid ticket_type_id: zero UUID'') else
    try_bind (some_or (Wrap ''invalid amount_cents'' (Plain ''strconv''))
      (strconv_ParseInt amountCentsStr)) (\<lambda>amount.
    if amount \<le> 0 then Inl (Plain ''invalid amount_cents: must be positive'') else
    if cur = '''' then Inl (Plain ''invalid currency: empty'') else
    Inr \<lparr>qm_MessageID = xm_ID m, qm_OrderID = orderID, qm_UserID = user, qm_EventID = ev,
         qm_Quantity = qty, qm_ReservedUntil = time_Unix reservedUnix, qm_TicketTypeID = tt,
         qm_AmountCents = amount, qm_Currency = cur\<rparr>)))))))))))))))"

definition parseRevertHints :: "ext \<Rightarrow> xmessage \<Rightarrow> (uuid \<times> int) option" where
  "parseRevertHints X m =
    (case Option.bind (xm_Values m ''ticket_type_id'') (uuid_Parse X) of
       None \<Rightarrow> None
     | Some tt \<Rightarrow>
        if tt = uuid_Nil then None
        else case Option.bind (xm_Values m ''quantity'') strconv_ParseInt of
          None \<Rightarrow> None
        | Some qty \<Rightarrow> if qty \<le> 0 then None else Some (tt, qty))"

section \<open>The message processor\<close>

definition process_tx :: "queue_message \<Rightarrow> order \<Rightarrow> world \<Rightarrow> (err + unit) \<times> world" where
  "process_tx msg newOrder w =
    (case ticketTypeRepo_DecrementTicket (qm_TicketTypeID msg) (qm_Quantity msg) w of
       (Inl e, w1) \<Rightarrow> (Inl e, w1)
     | (Inr _, w1) \<Rightarrow> (case orderRepo_Create newOrder w1 of
          (Inl e, w2) \<Rightarrow> (Inl e, w2)
        | (Inr created, w2) \<Rightarrow> (Inr (), w2)))"

definition Process :: "ext \<Rightarrow> queue_message \<Rightarrow> world \<Rightarrow> (err + unit) \<times> world" where
  "Process X msg w =
    (case NewReservation X (w_now w) (qm_OrderID msg) (qm_UserID msg) (qm_EventID msg)
        (qm_TicketTypeID msg) (qm_Quantity msg) (qm_ReservedUntil msg) (qm_AmountCents msg)
        (qm_Currency msg) of
       Inl e \<Rightarrow> (Inl e, w)
     | Inr newOrder \<Rightarrow> (case uow_Do (process_tx msg newOrder) w of
          (Inl e, w1) \<Rightarrow> (Inl e, w1)
        | (Inr _, w1) \<Rightarrow>
           (case NewOrderLifecycleEvent ''order.created''
               \<lparr>ap_OrderID = id_of newOrder, ap_UserID = userID newOrder,
                ap_TicketTypeID = ticketTypeID newOrder, ap_Quantity = quantity newOrder,
                ap_FromStatus = '''', ap_ToStatus = status_string AwaitingPayment\<rparr> w1 of
              (Inl _, w2) \<Rightarrow> (Inr (), w2)
            | (Inr evt, w2) \<Rightarrow> (Inr (), bus_Publish evt w2))))"

text \<open>The decorator counts one outcome per message.\<close>

definition processing_outcome :: "err + unit \<Rightarrow> string" where
  "processing_outcome r = (case r of
     Inr _ \<Rightarrow> ''success''
   | Inl e \<Rightarrow>
      if errors_Is e ErrSoldOut \<or> errors_Is e ErrTicketTypeSoldOut then ''sold_out''
      else if errors_Is e ErrUserAlreadyBought then ''duplicate''
      else if errors_Is e ErrInvalidUserID \<or> errors_Is e ErrInvalidEventID \<or> errors_Is e ErrInvalidQuantity
        then ''malformed_message''
      else ''db_error'')"

definition Process_metered ::
    "(queue_message \<Rightarrow> world \<Rightarrow> (err + unit) \<times> world) \<Rightarrow> queue_message \<Rightarrow> world \<Rightarrow> (err + unit) \<times> world" where
  "Process_metered next_Process msg w = (case next_Process msg w of (r, w1) \<Rightarrow>
     (r, metric (processing_outcome r)
           (if processing_outcome r = ''sold_out'' then metric ''inventory_conflict'' w1 else w1)))"

definition DefaultRetryPolicy :: "err \<Rightarrow> bool" where
  "DefaultRetryPolicy e \<longleftrightarrow> \<not> IsMalformedOrderInput e"

section \<open>Retry, compensation and the dead-letter stream\<close>

record queue_config =
  qc_streamReadCount :: nat
  qc_maxRetries :: nat
  qc_retryBaseDelay :: duration
  qc_maxConsecutiveReadErrors :: nat
  qc_readErrorBackoff :: duration

text \<open>The loop \<open>for i := 0; i < maxRetries; i++\<close>: \<open>n\<close> iterations are left. The error is \<open>None\<close> when the
  handler succeeded.\<close>

fun processWithRetry_loop ::
    "('m \<Rightarrow> world \<Rightarrow> (err + unit) \<times> world) \<Rightarrow> (err \<Rightarrow> bool) \<Rightarrow> duration \<Rightarrow> 'm \<Rightarrow> nat \<Rightarrow> nat \<Rightarrow>
     err option \<Rightarrow> world \<Rightarrow> (err option \<times> bool) \<times> world" where
  "processWithRetry_loop handler policy base m i 0 lastErr w = ((lastErr, False), w)"
| "processWithRetry_loop handler policy base m i (Suc n) lastErr w = (case handler m w of
     (Inr _, w1) \<Rightarrow> ((None, False), w1)
   | (Inl e, w1) \<Rightarrow>
       if \<not> policy e then ((Some e, True), w1)
       else case sleepCtx (int (i + 1) * base) w1 of
         (False, w2) \<Rightarrow> ((Some (Sentinel ErrShutdownDuringBackoff), False), w2)
       | (True, w2) \<Rightarrow> processWithRetry_loop handler policy base m (i + 1) n (Some e) w2)"

definition processWithRetry ::
    "queue_config \<Rightarrow> (err \<Rightarrow> bool) \<Rightarrow> ('m \<Rightarrow> world \<Rightarrow> (err + unit) \<times> world) \<Rightarrow> 'm \<Rightarrow> world \<Rightarrow>
     (err option \<times> bool) \<times> world" where
  "processWithRetry cfg policy handler m w =
     processWithRetry_loop handler policy (qc_retryBaseDelay cfg) m 0 (qc_maxRetries cfg) None w"

text \<open>The dead-letter stream's approximate trimming by age is left out: entries are only added.\<close>

definition moveToDLQ :: "xmessage \<Rightarrow> err \<Rightarrow> world \<Rightarrow> (err + unit) \<times> world" where
  "moveToDLQ m e w =
    (let entry = \<lparr>dl_original = xm_ID m, dl_error = e, dl_failedAt = w_now w, dl_values = xm_Values m\<rparr> in
     case redis_call (\<lambda>r. ((), r\<lparr>rd_dlq := rd_dlq r @ [entry]\<rparr>)) w of
       (Inl x, w1) \<Rightarrow> (Inl (Wrap ''moveToDLQ XAdd'' x), metric ''xadd_failure_dlq'' w1)
     | (Inr _, w1) \<Rightarrow> (Inr (), w1))"

definition handleFailure :: "queue_message \<Rightarrow> xmessage \<Rightarrow> err \<Rightarrow> world \<Rightarrow> bool \<times> world" where
  "handleFailure om m e w =
    (case RevertInventory (qm_TicketTypeID om) (qm_Quantity om) (xm_ID m) w of
       (Inl _, w1) \<Rightarrow> (False, metric ''revert_failure'' w1)
     | (Inr _, w1) \<Rightarrow> (case moveToDLQ m e w1 of
          (Inl _, w2) \<Rightarrow> (False, w2)
        | (Inr _, w2) \<Rightarrow> (True, w2)))"

definition handleParseFailure :: "ext \<Rightarrow> xmessage \<Rightarrow> err \<Rightarrow> world \<Rightarrow> string option \<times> world" where
  "handleParseFailure X m e w = (case parseRevertHints X m of
     None \<Rightarrow> (case moveToDLQ m e w of
        (Inl _, w1) \<Rightarrow> (None, w1)
      | (Inr _, w1) \<Rightarrow> (Some ''malformed_unrecoverable'', w1))
   | Some (tt, qty) \<Rightarrow> (case RevertInventory tt qty (xm_ID m) w of
        (Inl _, w1) \<Rightarrow> (None, metric ''revert_failure'' w1)
      | (Inr _, w1) \<Rightarrow> (case moveToDLQ m e w1 of
           (Inl _, w2) \<Rightarrow> (None, w2)
         | (Inr _, w2) \<Rightarrow> (Some ''malformed_reverted_legacy'', w2))))"

definition redis_XACK :: "string \<Rightarrow> redis \<Rightarrow> redis" where
  "redis_XACK mid r = r\<lparr>rd_pending := filter (\<lambda>m. xm_ID m \<noteq> mid) (rd_pending r)\<rparr>"

definition ackOrLog :: "string \<Rightarrow> world \<Rightarrow> world" where
  "ackOrLog mid w = (case redis_call (\<lambda>r. ((), redis_XACK mid r)) w of
     (Inl _, w1) \<Rightarrow> metric ''xack_failure'' w1
   | (Inr _, w1) \<Rightarrow> w1)"

text \<open>One message of a batch; both loops treat it the same way. The result says whether the backoff was
  cut short by a shutdown.\<close>

definition handle_message ::
    "ext \<Rightarrow> queue_config \<Rightarrow> (err \<Rightarrow> bool) \<Rightarrow> (queue_message \<Rightarrow> world \<Rightarrow> (err + unit) \<times> world) \<Rightarrow>
     xmessage \<Rightarrow> world \<Rightarrow> bool \<times> world" where
  "handle_message X cfg policy handler m w = (case parseMessage X m of
     Inl e \<Rightarrow> (case handleParseFailure X m e w of
        (None, w1) \<Rightarrow> (False, w1)
      | (Some reason, w1) \<Rightarrow> (False, ackOrLog (xm_ID m) (metric (''dlq_'' @ reason) w1)))
   | Inr om \<Rightarrow> (case processWithRetry cfg policy handler om w of
        ((None, _), w1) \<Rightarrow> (False, ackOrLog (xm_ID m) w1)
      | ((Some e, malformed), w1) \<Rightarrow>
          if errors_Is e ErrShutdownDuringBackoff then (True, w1)
          else case handleFailure om m e w1 of
            (False, w2) \<Rightarrow> (False, w2)
          | (True, w2) \<Rightarrow> (False, ackOrLog (xm_ID m)
               (metric (if malformed then ''dlq_malformed_classified'' else ''dlq_exhausted_retries'') w2))))"

section \<open>The loops\<close>

datatype read_reply = Messages "xmessage list" | Nil_Reply | NOGROUP

definition redis_XREADGROUP_new :: "nat \<Rightarrow> redis \<Rightarrow> read_reply \<times> redis" where
  "redis_XREADGROUP_new cnt r =
    (if \<not> rd_group r then (NOGROUP, r)
     else if rd_stream r = [] then (Nil_Reply, r)
     else (Messages (take cnt (rd_stream r)),
           r\<lparr>rd_stream := drop cnt (rd_stream r), rd_pending := rd_pending r @ take cnt (rd_stream r)\<rparr>))"

definition redis_XREADGROUP_pending :: "nat \<Rightarrow> redis \<Rightarrow> read_reply \<times> redis" where
  "redis_XREADGROUP_pending cnt r =
    (if \<not> rd_group r then (NOGROUP, r) else (Messages (take cnt (rd_pending r)), r))"

text \<open>\<open>XGROUP CREATE ... $ MKSTREAM\<close>: a new group starts after the last entry, so what waits in the
  stream is never delivered; on an existing group the \<open>BUSYGROUP\<close> error is ignored.\<close>

definition EnsureGroup :: "world \<Rightarrow> (err + unit) \<times> world" where
  "EnsureGroup w = (case redis_call (\<lambda>r. ((), if rd_group r then r
       else r\<lparr>rd_group := True, rd_stream := [], rd_pending := []\<rparr>)) w of
     (Inl e, w1) \<Rightarrow> (Inl (Wrap ''XGroupCreateMkStream'' e), w1)
   | (Inr _, w1) \<Rightarrow> (Inr (), w1))"

fun pending_batch ::
    "(xmessage \<Rightarrow> world \<Rightarrow> bool \<times> world) \<Rightarrow> xmessage list \<Rightarrow> world \<Rightarrow> bool \<times> world" where
  "pending_batch handle [] w = (False, w)"
| "pending_batch handle (m # ms) w = (case handle m w of
     (True, w1) \<Rightarrow> (True, w1)
   | (False, w1) \<Rightarrow> pending_batch handle ms w1)"

fun processPending ::
    "nat \<Rightarrow> queue_config \<Rightarrow> (xmessage \<Rightarrow> world \<Rightarrow> bool \<times> world) \<Rightarrow> world \<Rightarrow> (err + unit) option \<times> world" where
  "processPending 0 cfg handle w = (None, w)"
| "processPending (Suc fuel) cfg handle w =
    (case redis_call (redis_XREADGROUP_pending (qc_streamReadCount cfg)) w of
       (Inl e, w1) \<Rightarrow> (Some (Inl (Wrap ''processPending XReadGroup'' e)), w1)
     | (Inr Nil_Reply, w1) \<Rightarrow> (Some (Inr ()), w1)
     | (Inr NOGROUP, w1) \<Rightarrow> (Some (Inl (Wrap ''processPending XReadGroup'' (Plain ''NOGROUP''))),
                             metric ''consumer_group_recreated'' w1)
     | (Inr (Messages ms), w1) \<Rightarrow>
         if ms = [] then (Some (Inr ()), w1)
         else case pending_batch handle ms w1 of
           (True, w2) \<Rightarrow> (Some (Inr ()), w2)
         | (False, w2) \<Rightarrow> processPending fuel cfg handle w2)"

fun subscribe_batch :: "(xmessage \<Rightarrow> world \<Rightarrow> bool \<times> world) \<Rightarrow> xmessage list \<Rightarrow> world \<Rightarrow> world" where
  "subscribe_batch handle [] w = w"
| "subscribe_batch handle (m # ms) w = (case handle m w of (_, w1) \<Rightarrow> subscribe_batch handle ms w1)"

fun subscribe_loop ::
    "nat \<Rightarrow> queue_config \<Rightarrow> (xmessage \<Rightarrow> world \<Rightarrow> bool \<times> world) \<Rightarrow> nat \<Rightarrow> world \<Rightarrow> err option \<times> world" where
  "subscribe_loop 0 cfg handle errs w = (None, w)"
| "subscribe_loop (Suc fuel) cfg handle errs w = (case ctx_Err w of
     (True, w1) \<Rightarrow> (Some (Sentinel ContextCanceled), w1)
   | (False, w1) \<Rightarrow>
    (case redis_call (redis_XREADGROUP_new (qc_streamReadCount cfg)) w1 of
       (Inr Nil_Reply, w2) \<Rightarrow> subscribe_loop fuel cfg handle 0 w2
     | (Inr (Messages ms), w2) \<Rightarrow> subscribe_loop fuel cfg handle 0 (subscribe_batch handle ms w2)
     | (Inr NOGROUP, w2) \<Rightarrow>
         if errs + 1 \<ge> qc_maxConsecutiveReadErrors cfg
         then (Some (Wrap ''XReadGroup: consecutive errors'' (Plain ''NOGROUP'')), w2)
         else (case EnsureGroup (metric ''consumer_group_recreated'' w2) of (r, w3) \<Rightarrow>
           (case sleepCtx (qc_readErrorBackoff cfg) w3 of
              (False, w4) \<Rightarrow> (Some (Sentinel ContextCanceled), w4)
            | (True, w4) \<Rightarrow> subscribe_loop fuel cfg handle (if is_ok r then 0 else errs + 1) w4))
     | (Inl e, w2) \<Rightarrow>
         if errs + 1 \<ge> qc_maxConsecutiveReadErrors cfg
         then (Some (Wrap ''XReadGroup: consecutive errors'' e), w2)
         else (case sleepCtx (qc_readErrorBackoff cfg) w2 of
              (False, w3) \<Rightarrow> (Some (Sentinel ContextCanceled), w3)
            | (True, w3) \<Rightarrow> subscribe_loop fuel cfg handle (errs + 1) w3)))"

definition Subscribe ::
    "nat \<Rightarrow> queue_config \<Rightarrow> (xmessage \<Rightarrow> world \<Rightarrow> bool \<times> world) \<Rightarrow> world \<Rightarrow> err option \<times> world" where
  "Subscribe fuel cfg handle w = (case processPending fuel cfg handle w of
     (None, w1) \<Rightarrow> (None, w1)
   | (Some (Inl e), w1) \<Rightarrow> subscribe_loop fuel cfg handle 0 (metric ''pel_recovery_failure'' w1)
   | (Some (Inr _), w1) \<Rightarrow> subscribe_loop fuel cfg handle 0 w1)"

definition Worker_Start :: "ext \<Rightarrow> nat \<Rightarrow> queue_config \<Rightarrow> world \<Rightarrow> (err + unit) option \<times> world" where
  "Worker_Start X fuel cfg w = (case EnsureGroup w of
     (Inl e, w1) \<Rightarrow> (Some (if errors_Is e ContextCanceled then Inr () else Inl (Wrap ''worker ensure group'' e)), w1)
   | (Inr _, w1) \<Rightarrow>
      (case Subscribe fuel cfg (handle_message X cfg DefaultRetryPolicy (Process_metered (Process X))) w1 of
         (None, w2) \<Rightarrow> (None, w2)
       | (Some e, w2) \<Rightarrow>
           (Some (if errors_Is e ContextCanceled then Inr () else Inl (Wrap ''worker subscribe'' e)), w2)))"

section \<open>The processor books atomically\<close>

lemma DecrementTicket_outcome:
  assumes "ticketTypeRepo_DecrementTicket tt q w = (r, w')"
  shows "w_rd w' = w_rd w \<and> w_now w' = w_now w \<and> w_bus w' = w_bus w \<and> w_intake w' = w_intake w \<and>
    (r = Inr () \<longrightarrow> (\<exists>n. sql_decrement_type tt q (w_pg w) = Inr (n, w_pg w') \<and> n \<noteq> 0))"
proof -
  obtain re w1 where e: "sql_exec (sql_decrement_type tt q) w = (re, w1)"
    by (cases "sql_exec (sql_decrement_type tt q) w")
  with assms sql_exec_frame [OF e] sql_exec_Inr [of "sql_decrement_type tt q" w] show ?thesis
    by (auto simp: ticketTypeRepo_DecrementTicket_def split: sum.splits if_splits)
qed

lemma orderRepo_Create_outcome:
  assumes "orderRepo_Create o' w = (r, w')"
  shows "w_rd w' = w_rd w \<and> w_now w' = w_now w \<and> w_bus w' = w_bus w \<and> w_intake w' = w_intake w \<and>
    (\<forall>c. r = Inr c \<longrightarrow>
       (\<exists>n. sql_insert_order (orderRowFromDomain (pg_now (w_pg w)) o') (w_pg w) = Inr (n, w_pg w')))"
proof -
  let ?st = "sql_insert_order (orderRowFromDomain (pg_now (w_pg w)) o')"
  obtain re w1 where e: "sql_exec ?st w = (re, w1)" by (cases "sql_exec ?st w")
  with assms sql_exec_frame [OF e] sql_exec_Inr [of ?st w] show ?thesis
    by (auto simp: orderRepo_Create_def Let_def split: sum.splits if_splits)
qed

lemma sql_decrement_now: "sql_decrement_type tt q p = Inr (n, p') \<Longrightarrow> pg_now p' = pg_now p"
  by (auto simp: sql_decrement_type_def Let_def)

lemma process_tx_outcome:
  assumes "process_tx msg o' w = (r, w')"
  shows "w_rd w' = w_rd w \<and> w_now w' = w_now w \<and> w_bus w' = w_bus w \<and>
    (r = Inr () \<longrightarrow> booked (qm_TicketTypeID msg) (qm_Quantity msg) o' (w_pg w) (w_pg w'))"
proof -
  obtain r1 w1 where d: "ticketTypeRepo_DecrementTicket (qm_TicketTypeID msg) (qm_Quantity msg) w = (r1, w1)"
    by (cases "ticketTypeRepo_DecrementTicket (qm_TicketTypeID msg) (qm_Quantity msg) w")
  obtain r2 w2 where c: "orderRepo_Create o' w1 = (r2, w2)" by (cases "orderRepo_Create o' w1")
  have "sql_insert_order x p = Inr (n, p') \<Longrightarrow> n = 1" for x p n p'
    by (auto simp: sql_insert_order_def split: if_splits)
  with assms d c DecrementTicket_outcome [OF d] orderRepo_Create_outcome [OF c] show ?thesis
    by (auto simp: process_tx_def booked_def split: sum.splits dest: sql_decrement_now)
qed

definition msg_order :: "ext \<Rightarrow> time \<Rightarrow> queue_message \<Rightarrow> err + order" where
  "msg_order X now msg = NewReservation X now (qm_OrderID msg) (qm_UserID msg) (qm_EventID msg)
     (qm_TicketTypeID msg) (qm_Quantity msg) (qm_ReservedUntil msg) (qm_AmountCents msg) (qm_Currency msg)"

text \<open>Whatever fails: the message is booked completely or the database is as before; success means
  booked; Redis is not touched.\<close>

lemma Process_outcome:
  assumes "Process X msg w = (r, w')"
  shows "w_rd w' = w_rd w \<and> w_now w' = w_now w \<and>
    (w_pg w' = w_pg w \<or> (\<exists>o'. msg_order X (w_now w) msg = Inr o' \<and>
       booked (qm_TicketTypeID msg) (qm_Quantity msg) o' (w_pg w) (w_pg w'))) \<and>
    (r = Inr () \<longrightarrow> (\<exists>o'. msg_order X (w_now w) msg = Inr o' \<and>
       booked (qm_TicketTypeID msg) (qm_Quantity msg) o' (w_pg w) (w_pg w')))"
proof (cases "msg_order X (w_now w) msg")
  case (Inl e)
  with assms show ?thesis by (auto simp: Process_def msg_order_def)
next
  case (Inr o')
  obtain r1 w1 where tx: "uow_Do (process_tx msg o') w = (r1, w1)" by (cases "uow_Do (process_tx msg o') w")
  have pg: "w_pg w1 = w_pg w \<or> booked (qm_TicketTypeID msg) (qm_Quantity msg) o' (w_pg w) (w_pg w1)"
    using uow.all_or_nothing [OF tx, of "booked (qm_TicketTypeID msg) (qm_Quantity msg) o' (w_pg w)"]
    by (metis process_tx_outcome old.unit.exhaust)
  have ok: "r1 = Inr () \<Longrightarrow> booked (qm_TicketTypeID msg) (qm_Quantity msg) o' (w_pg w) (w_pg w1)"
    using uow.success [of "process_tx msg o'" w "()" w1 "booked (qm_TicketTypeID msg) (qm_Quantity msg) o' (w_pg w)"] tx
    by (metis process_tx_outcome)
  have fr: "w_rd w1 = w_rd w \<and> w_now w1 = w_now w"
    using tx by (rule uow_Do_redis) (auto dest: process_tx_outcome)
  show ?thesis using assms Inr tx pg ok fr
    by (auto simp: Process_def msg_order_def split: sum.splits prod.splits dest!: NewOrderLifecycleEvent_frame)
qed

section \<open>The retry loop\<close>

lemma retry_success:
  assumes "processWithRetry_loop h policy base m i n lastErr w = ((None, b), w')"
    and "lastErr \<noteq> None \<or> 0 < n"
  shows "\<exists>w1. h m w1 = (Inr (), w')"
  using assms
proof (induction n arbitrary: i lastErr w)
  case 0
  then show ?case by simp
next
  case (Suc n)
  obtain r w1 where h: "h m w = (r, w1)" by (cases "h m w")
  show ?case
  proof (cases r)
    case (Inr u)
    with Suc.prems h show ?thesis by auto
  next
    case (Inl e)
    obtain b2 w2 where s: "sleepCtx (int (i + 1) * base) w1 = (b2, w2)"
      by (cases "sleepCtx (int (i + 1) * base) w1")
    with Suc.prems(1) h Inl have "b2" and
      "processWithRetry_loop h policy base m (i + 1) n (Some e) w2 = ((None, b), w')"
      by (auto split: if_splits bool.splits)
    then show ?thesis by (intro Suc.IH [of "i + 1" "Some e" w2]) simp_all
  qed
qed

text \<open>What the handler and the waiting keep, the loop keeps.\<close>

lemma retry_invariant:
  assumes "processWithRetry_loop h policy base m i n lastErr w = (res, w')" and "I w"
    and "\<And>w r w'. h m w = (r, w') \<Longrightarrow> I w \<Longrightarrow> I w'"
    and "\<And>d w b w'. sleepCtx d w = (b, w') \<Longrightarrow> I w \<Longrightarrow> I w'"
  shows "I w'"
  using assms(1,2)
proof (induction n arbitrary: i lastErr w)
  case 0
  then show ?case by simp
next
  case (Suc n)
  obtain r w1 where h: "h m w = (r, w1)" by (cases "h m w")
  have I1: "I w1" by (rule assms(3) [OF h Suc.prems(2)])
  obtain b2 w2 where s: "sleepCtx (int (i + 1) * base) w1 = (b2, w2)"
    by (cases "sleepCtx (int (i + 1) * base) w1")
  have I2: "I w2" by (rule assms(4) [OF s I1])
  show ?case
  proof (cases r)
    case (Inr u)
    with Suc.prems(1) h I1 show ?thesis by simp
  next
    case (Inl e)
    show ?thesis
    proof (cases "policy e \<and> b2")
      case True
      with Suc.prems(1) h s Inl
      have "processWithRetry_loop h policy base m (i + 1) n (Some e) w2 = (res, w')" by simp
      then show ?thesis by (rule Suc.IH) (rule I2)
    next
      case False
      with Suc.prems(1) h s Inl I1 I2 show ?thesis by (auto split: if_splits)
    qed
  qed
qed

lemma Process_metered_eq:
  assumes "Process_metered h msg w = (r, w')"
  obtains w1 where "h msg w = (r, w1)" "w_pg w' = w_pg w1" "w_rd w' = w_rd w1" "w_now w' = w_now w1"
    "w_faults w' = w_faults w1"
proof -
  obtain r1 w1 where h: "h msg w = (r1, w1)" by (cases "h msg w")
  show thesis using assms h by (intro that [of w1]) (auto simp: Process_metered_def)
qed

abbreviation worker_handler :: "ext \<Rightarrow> queue_message \<Rightarrow> world \<Rightarrow> (err + unit) \<times> world" where
  "worker_handler X \<equiv> Process_metered (Process X)"

lemma worker_handler_outcome:
  assumes "worker_handler X msg w = (r, w')"
  shows "w_rd w' = w_rd w \<and>
    (w_pg w' = w_pg w \<or> (\<exists>o'. msg_order X (w_now w) msg = Inr o' \<and>
       booked (qm_TicketTypeID msg) (qm_Quantity msg) o' (w_pg w) (w_pg w'))) \<and>
    (r = Inr () \<longrightarrow> (\<exists>o'. msg_order X (w_now w) msg = Inr o' \<and>
       booked (qm_TicketTypeID msg) (qm_Quantity msg) o' (w_pg w) (w_pg w')))"
  using assms by (rule Process_metered_eq) (auto dest: Process_outcome)

lemma msg_order_Inr: "msg_order X now msg = Inr o' \<Longrightarrow> valid_reservation o' \<and> id_of o' = qm_OrderID msg \<and>
    ticketTypeID o' = qm_TicketTypeID msg \<and> quantity o' = qm_Quantity msg \<and> userID o' = qm_UserID msg \<and>
    eventID o' = qm_EventID msg"
  by (auto simp: msg_order_def dest: NewReservation_Inr)

lemma booked_msg_db_ok:
  "msg_order X now msg = Inr o' \<Longrightarrow> booked (qm_TicketTypeID msg) (qm_Quantity msg) o' p p' \<Longrightarrow> db_ok p \<Longrightarrow> db_ok p'"
  by (erule booked_db_ok) (auto dest!: msg_order_Inr simp: valid_reservation_def)

lemma worker_handler_db_ok:
  "worker_handler X msg w = (r, w') \<Longrightarrow> db_ok (w_pg w) \<Longrightarrow> db_ok (w_pg w')"
  by (drule worker_handler_outcome) (auto dest: booked_msg_db_ok)

lemma sleepCtx_db_ok: "sleepCtx d w = (b, w') \<Longrightarrow> db_ok (w_pg w) \<Longrightarrow> db_ok (w_pg w')"
  by (auto dest!: sleepCtx_frame)

section \<open>What a message can do to Redis\<close>

lemma RevertInventory_frame:
  "RevertInventory tt n c w = (r, w') \<Longrightarrow> w_pg w' = w_pg w \<and> w_now w' = w_now w \<and>
    rd_pending (w_rd w') = rd_pending (w_rd w) \<and> rd_dlq (w_rd w') = rd_dlq (w_rd w) \<and>
    rd_stream (w_rd w') = rd_stream (w_rd w) \<and> w_bus w' = w_bus w \<and> w_intake w' = w_intake w \<and>
    w_failed w' = w_failed w"
proof -
  assume run: "RevertInventory tt n c w = (r, w')"
  obtain x w1 where c: "redis_call (revert_lua tt n c) w = (x, w1)" by (cases "redis_call (revert_lua tt n c) w")
  have "rd_pending (snd (revert_lua tt n c s)) = rd_pending s \<and> rd_dlq (snd (revert_lua tt n c s)) = rd_dlq s \<and>
      rd_stream (snd (revert_lua tt n c s)) = rd_stream s" for s
    by (auto simp: revert_lua_def Let_def redis_INCRBY_def split: option.splits)
  with run c redis_call_frame [OF c] redis_call_rd [OF c] show ?thesis
    by (auto simp: RevertInventory_def split: sum.splits)
qed

lemma moveToDLQ_effect:
  "moveToDLQ m e w = (r, w') \<Longrightarrow> w_pg w' = w_pg w \<and> rd_pending (w_rd w') = rd_pending (w_rd w) \<and>
    set (rd_dlq (w_rd w)) \<subseteq> set (rd_dlq (w_rd w')) \<and>
    (is_ok r \<longrightarrow> (\<exists>d \<in> set (rd_dlq (w_rd w')). dl_original d = xm_ID m \<and> dl_values d = xm_Values m))"
proof -
  assume run: "moveToDLQ m e w = (r, w')"
  let ?c = "\<lambda>r. ((), r\<lparr>rd_dlq := rd_dlq r @ [\<lparr>dl_original = xm_ID m, dl_error = e, dl_failedAt = w_now w,
      dl_values = xm_Values m\<rparr>]\<rparr>)"
  obtain x w1 where c: "redis_call ?c w = (x, w1)" by (cases "redis_call ?c w")
  have "x = Inr a \<Longrightarrow> w_rd w1 = snd (?c (w_rd w))" for a
    using c redis_call_Inr [of ?c w a w1] by (metis snd_conv)
  with run c redis_call_frame [OF c] redis_call_rd [OF c] show ?thesis
    by (auto simp: moveToDLQ_def split: sum.splits)
qed

lemma ackOrLog_frame: "w_pg (ackOrLog mid w) = w_pg w \<and> rd_dlq (w_rd (ackOrLog mid w)) = rd_dlq (w_rd w) \<and>
    rd_qty (w_rd (ackOrLog mid w)) = rd_qty (w_rd w)"
proof -
  obtain x w1 where c: "redis_call (\<lambda>r. ((), redis_XACK mid r)) w = (x, w1)"
    by (cases "redis_call (\<lambda>r. ((), redis_XACK mid r)) w")
  with redis_call_frame [OF c] redis_call_rd [OF c] show ?thesis
    by (auto simp: ackOrLog_def redis_XACK_def split: sum.splits)
qed

lemma handleFailure_effect:
  "handleFailure om m e w = (b, w') \<Longrightarrow> w_pg w' = w_pg w \<and> rd_pending (w_rd w') = rd_pending (w_rd w) \<and>
    (b \<longrightarrow> (\<exists>d \<in> set (rd_dlq (w_rd w')). dl_original d = xm_ID m \<and> dl_values d = xm_Values m))"
  by (auto simp: handleFailure_def split: prod.splits sum.splits
      dest!: RevertInventory_frame moveToDLQ_effect)

lemma handleParseFailure_effect:
  "handleParseFailure X m e w = (b, w') \<Longrightarrow> w_pg w' = w_pg w \<and> rd_pending (w_rd w') = rd_pending (w_rd w) \<and>
    (b \<noteq> None \<longrightarrow> (\<exists>d \<in> set (rd_dlq (w_rd w')). dl_original d = xm_ID m \<and> dl_values d = xm_Values m))"
  by (auto simp: handleParseFailure_def split: prod.splits sum.splits option.splits
      dest!: RevertInventory_frame moveToDLQ_effect)

lemma retry_keeps_redis:
  assumes "processWithRetry cfg policy (worker_handler X) om w = (res, w')"
  shows "rd_pending (w_rd w') = rd_pending (w_rd w) \<and> rd_dlq (w_rd w') = rd_dlq (w_rd w) \<and>
    rd_qty (w_rd w') = rd_qty (w_rd w) \<and> rd_reverted (w_rd w') = rd_reverted (w_rd w)"
  using assms unfolding processWithRetry_def
proof (rule retry_invariant)
  show "rd_pending (w_rd w) = rd_pending (w_rd w) \<and> rd_dlq (w_rd w) = rd_dlq (w_rd w) \<and>
    rd_qty (w_rd w) = rd_qty (w_rd w) \<and> rd_reverted (w_rd w) = rd_reverted (w_rd w)" by simp
qed (auto dest!: worker_handler_outcome sleepCtx_frame)

section \<open>The worker keeps the books\<close>

lemma processWithRetry_db_ok:
  "processWithRetry cfg policy (worker_handler X) om w = (res, w') \<Longrightarrow> db_ok (w_pg w) \<Longrightarrow> db_ok (w_pg w')"
  unfolding processWithRetry_def
  by (erule retry_invariant) (auto intro: worker_handler_db_ok sleepCtx_db_ok)

lemma handle_message_db_ok:
  assumes "handle_message X cfg policy (worker_handler X) m w = (b, w')" and "db_ok (w_pg w)"
  shows "db_ok (w_pg w')"
proof (cases "parseMessage X m")
  case (Inl e)
  with assms show ?thesis
    by (auto simp: handle_message_def ackOrLog_frame split: prod.splits option.splits
        dest!: handleParseFailure_effect)
next
  case (Inr om)
  obtain o1 b1 w1 where p: "processWithRetry cfg policy (worker_handler X) om w = ((o1, b1), w1)"
    by (metis surj_pair)
  have "db_ok (w_pg w1)" by (rule processWithRetry_db_ok [OF p assms(2)])
  with assms(1) Inr p show ?thesis
    by (auto simp: handle_message_def ackOrLog_frame split: option.splits if_splits prod.splits bool.splits
        dest!: handleFailure_effect)
qed

lemma pending_batch_invariant:
  assumes "pending_batch handle ms w = (b, w')" and "I w"
    and "\<And>m w b w'. handle m w = (b, w') \<Longrightarrow> I w \<Longrightarrow> I w'"
  shows "I w'"
  using assms(1,2)
proof (induction ms arbitrary: w)
  case Nil
  then show ?case by simp
next
  case (Cons m ms)
  obtain c w1 where h: "handle m w = (c, w1)" by (cases "handle m w")
  have "I w1" by (rule assms(3) [OF h Cons.prems(2)])
  with Cons h show ?case by (cases c) auto
qed

lemma subscribe_batch_invariant:
  assumes "I w" and "\<And>m w b w'. handle m w = (b, w') \<Longrightarrow> I w \<Longrightarrow> I w'"
  shows "I (subscribe_batch handle ms w)"
  using assms(1)
proof (induction ms arbitrary: w)
  case Nil
  then show ?case by simp
next
  case (Cons m ms)
  obtain c w1 where h: "handle m w = (c, w1)" by (cases "handle m w")
  have "I w1" by (rule assms(2) [OF h Cons.prems])
  with Cons.IH h show ?case by simp
qed

lemma processPending_db_ok:
  assumes "processPending fuel cfg handle w = (r, w')" and "db_ok (w_pg w)"
    and H: "\<And>m w b w'. handle m w = (b, w') \<Longrightarrow> db_ok (w_pg w) \<Longrightarrow> db_ok (w_pg w')"
  shows "db_ok (w_pg w')"
  using assms(1,2)
proof (induction fuel arbitrary: w)
  case 0
  then show ?case by simp
next
  case (Suc fuel)
  obtain a w1 where c: "redis_call (redis_XREADGROUP_pending (qc_streamReadCount cfg)) w = (a, w1)"
    by (cases "redis_call (redis_XREADGROUP_pending (qc_streamReadCount cfg)) w")
  have I1: "db_ok (w_pg w1)" using redis_call_frame [OF c] Suc.prems(2) by simp
  show ?case
  proof (cases "\<exists>ms. a = Inr (Messages ms) \<and> ms \<noteq> []")
    case False
    with Suc.prems c I1 show ?thesis
      by (auto split: sum.splits read_reply.splits if_splits)
  next
    case True
    then obtain ms where ms: "a = Inr (Messages ms)" "ms \<noteq> []" by blast
    obtain b w2 where pb: "pending_batch handle ms w1 = (b, w2)" by (cases "pending_batch handle ms w1")
    have "db_ok (w_pg w2)"
      using pb I1 by (rule pending_batch_invariant [where I = "\<lambda>v. db_ok (w_pg v)"]) (rule H)
    with Suc.prems(1) Suc.IH [of w2] c ms pb show ?thesis by (cases b) auto
  qed
qed

lemma EnsureGroup_frame: "EnsureGroup w = (r, w') \<Longrightarrow> w_pg w' = w_pg w"
  by (auto simp: EnsureGroup_def split: prod.splits sum.splits dest!: redis_call_frame)

lemma ctx_Err_frame: "ctx_Err w = (b, w') \<Longrightarrow> w_pg w' = w_pg w \<and> w_rd w' = w_rd w \<and> w_now w' = w_now w \<and>
    w_bus w' = w_bus w \<and> w_intake w' = w_intake w \<and> w_failed w' = w_failed w \<and> w_metrics w' = w_metrics w"
  by (auto simp: ctx_Err_def split: prod.splits dest!: io_pair)

lemma subscribe_loop_db_ok:
  assumes "subscribe_loop fuel cfg handle errs w = (r, w')" and "db_ok (w_pg w)"
    and H: "\<And>m w b w'. handle m w = (b, w') \<Longrightarrow> db_ok (w_pg w) \<Longrightarrow> db_ok (w_pg w')"
  shows "db_ok (w_pg w')"
  using assms(1,2)
proof (induction fuel arbitrary: errs w)
  case 0
  then show ?case by simp
next
  case (Suc fuel)
  obtain b w1 where c1: "ctx_Err w = (b, w1)" by (cases "ctx_Err w")
  obtain a w2 where c2: "redis_call (redis_XREADGROUP_new (qc_streamReadCount cfg)) w1 = (a, w2)"
    by (cases "redis_call (redis_XREADGROUP_new (qc_streamReadCount cfg)) w1")
  have I2: "db_ok (w_pg w2)" using ctx_Err_frame [OF c1] redis_call_frame [OF c2] Suc.prems(2) by simp
  have batch: "db_ok (w_pg (subscribe_batch handle ms w2))" for ms
    using I2 H by (rule subscribe_batch_invariant [where I = "\<lambda>v. db_ok (w_pg v)"])
  show ?case
  proof (cases b)
    case True
    with Suc.prems c1 ctx_Err_frame [OF c1] show ?thesis by simp
  next
    case False
    with Suc.prems(1) c1 c2 I2 batch show ?thesis
      by (auto split: sum.splits read_reply.splits if_splits prod.splits bool.splits
          dest!: EnsureGroup_frame dest: Suc.IH sleepCtx_db_ok intro: Suc.IH)
  qed
qed

section \<open>Properties\<close>

text \<open>C8: the worker never unbalances the database. Whatever messages wait in the stream and whatever
  calls fail, a run of the worker keeps the schema's constraints and, for every ticket type, the
  equation between the available tickets, the quantities of its live orders and its total.\<close>

theorem worker_keeps_books:
  assumes "Worker_Start X fuel cfg w = (r, w')" and "db_ok (w_pg w)"
  shows "db_ok (w_pg w')"
proof -
  let ?h = "handle_message X cfg DefaultRetryPolicy (worker_handler X)"
  obtain e1 w1 where g: "EnsureGroup w = (e1, w1)" by (cases "EnsureGroup w")
  obtain e2 w2 where p: "processPending fuel cfg ?h w1 = (e2, w2)" by (cases "processPending fuel cfg ?h w1")
  have I1: "db_ok (w_pg w1)" using EnsureGroup_frame [OF g] assms(2) by simp
  have I2: "db_ok (w_pg w2)"
    using p I1 by (rule processPending_db_ok) (rule handle_message_db_ok)
  have loop: "db_ok (w_pg b)" if "subscribe_loop fuel cfg ?h 0 a = (x, b)" "w_pg a = w_pg w2" for a x b
    using that(1) by (rule subscribe_loop_db_ok) (use that I2 in \<open>auto intro: handle_message_db_ok\<close>)
  show ?thesis using assms(1) g p I1 I2
    by (auto simp: Worker_Start_def Subscribe_def split: sum.splits option.splits prod.splits
        dest!: loop)
qed

definition demo_type :: ticket_type_row where
  "demo_type = \<lparr>tr_id = 5, tr_event = 3, tr_name = ''floor'', tr_price = 250, tr_cur = ''usd'',
     tr_total = 10, tr_available = 10, tr_starts = None, tr_ends = None, tr_limit = None,
     tr_area = None, tr_version = 0\<rparr>"

definition demo_world :: world where
  "demo_world = empty_world\<lparr>w_pg := empty_pg\<lparr>pg_types := [demo_type]\<rparr>\<rparr>"

definition demo_config :: queue_config where
  "demo_config = \<lparr>qc_streamReadCount = 10, qc_maxRetries = 3, qc_retryBaseDelay = 100,
     qc_maxConsecutiveReadErrors = 3, qc_readErrorBackoff = 1000\<rparr>"

lemma demo_world_ok: "db_ok (w_pg demo_world)"
  by (simp add: demo_world_def demo_type_def empty_world_def empty_pg_def db_ok_def pg_wf_def orders_wf_def
      ledger_ok_def held_of_def type_row_ok_def)

lemma worker_keeps_books_witness:
  "db_ok (w_pg (snd (Worker_Start plain_ext 5 demo_config demo_world)))"
  using worker_keeps_books [of plain_ext 5 demo_config demo_world _ "snd (Worker_Start plain_ext 5 demo_config demo_world)"]
    demo_world_ok by (metis surj_pair snd_conv)

text \<open>C7: no message is lost. A message that leaves the pending list was booked, its order being in
  the database, or lies in the dead-letter stream with all its fields, whatever calls failed.\<close>

theorem acked_is_booked_or_dead:
  assumes run: "handle_message X cfg DefaultRetryPolicy (worker_handler X) m w = (b, w')"
    and retries: "0 < qc_maxRetries cfg"
    and before: "m \<in> set (rd_pending (w_rd w))" and acked: "m \<notin> set (rd_pending (w_rd w'))"
  shows "(\<exists>om. parseMessage X m = Inr om \<and> lookup or_id (qm_OrderID om) (pg_orders (w_pg w')) \<noteq> None) \<or>
    (\<exists>d \<in> set (rd_dlq (w_rd w')). dl_original d = xm_ID m \<and> dl_values d = xm_Values m)"
proof (cases "parseMessage X m")
  case (Inl e)
  obtain res w1 where h: "handleParseFailure X m e w = (res, w1)" by (cases "handleParseFailure X m e w")
  show ?thesis
    using run Inl h handleParseFailure_effect [OF h] before acked
    by (cases res) (auto simp: handle_message_def ackOrLog_frame)
next
  case (Inr om)
  obtain o1 b1 w1 where p: "processWithRetry cfg DefaultRetryPolicy (worker_handler X) om w = ((o1, b1), w1)"
    by (metis surj_pair)
  have pend: "rd_pending (w_rd w1) = rd_pending (w_rd w)" using retry_keeps_redis [OF p] by simp
  show ?thesis
  proof (cases o1)
    case None
    obtain w0 where "worker_handler X om w0 = (Inr (), w1)"
      using retry_success [OF p [unfolded processWithRetry_def None]] retries by blast
    from worker_handler_outcome [OF this] obtain o' where o': "msg_order X (w_now w0) om = Inr o'"
      and bk: "booked (qm_TicketTypeID om) (qm_Quantity om) o' (w_pg w0) (w_pg w1)" by blast
    have "w_pg w' = w_pg w1" using run Inr p None by (auto simp: handle_message_def ackOrLog_frame)
    with booked_row(1) [OF bk] msg_order_Inr [OF o'] Inr show ?thesis by simp
  next
    case (Some e)
    obtain b2 w2 where f: "handleFailure om m e w1 = (b2, w2)" by (cases "handleFailure om m e w1")
    show ?thesis using run Inr p Some f handleFailure_effect [OF f] before acked pend
      by (auto simp: handle_message_def ackOrLog_frame split: if_splits bool.splits)
  qed
qed

definition demo_garbage :: xmessage where
  "demo_garbage = \<lparr>xm_ID = ''1-0'', xm_Values = Map.empty\<rparr>"

lemma acked_is_booked_or_dead_witness:
  "\<exists>w'. handle_message plain_ext demo_config DefaultRetryPolicy (worker_handler plain_ext) demo_garbage
      (empty_world\<lparr>w_rd := empty_redis\<lparr>rd_pending := [demo_garbage]\<rparr>\<rparr>) = (False, w') \<and>
    (\<exists>d \<in> set (rd_dlq (w_rd w')). dl_original d = ''1-0'' \<and> dl_values d = Map.empty)"
proof -
  let ?w = "empty_world\<lparr>w_rd := empty_redis\<lparr>rd_pending := [demo_garbage]\<rparr>\<rparr>"
  obtain b w' where run: "handle_message plain_ext demo_config DefaultRetryPolicy (worker_handler plain_ext)
      demo_garbage ?w = (b, w')" by (metis surj_pair)
  have bad: "parseMessage plain_ext demo_garbage = Inl (Plain ''missing order_id'')"
    by (simp add: parseMessage_def message_field_def demo_garbage_def)
  from run bad have "\<not> b" and acked: "demo_garbage \<notin> set (rd_pending (w_rd w'))"
    by (auto simp: handle_message_def handleParseFailure_def parseRevertHints_def moveToDLQ_def
        redis_call_Works empty_world_def ackOrLog_def redis_XACK_def demo_garbage_def Let_def)
  have retries: "0 < qc_maxRetries demo_config" by (simp add: demo_config_def)
  from acked_is_booked_or_dead [OF run retries _ acked] run \<open>\<not> b\<close> bad show ?thesis
    by (auto simp: demo_garbage_def)
qed

text \<open>A message whose fields the order's factory rejects is not retried: one call of the handler,
  no database access, and the verdict that it is malformed.\<close>

theorem malformed_is_not_retried:
  assumes "msg_order X (w_now w) om = Inl e" and "0 < qc_maxRetries cfg"
  shows "processWithRetry cfg DefaultRetryPolicy (Process X) om w = ((Some e, True), w)"
proof -
  obtain n where n: "qc_maxRetries cfg = Suc n" using assms(2) by (cases "qc_maxRetries cfg") auto
  have "IsMalformedOrderInput e" using assms(1) by (auto simp: msg_order_def dest: NewReservation_Inl)
  with assms(1) n show ?thesis
    by (simp add: processWithRetry_def Process_def msg_order_def DefaultRetryPolicy_def)
qed

definition demo_message :: queue_message where
  "demo_message = \<lparr>qm_MessageID = ''1-0'', qm_OrderID = 9, qm_UserID = 7, qm_EventID = 3, qm_Quantity = 2,
     qm_ReservedUntil = 1000, qm_TicketTypeID = 5, qm_AmountCents = 500, qm_Currency = ''usd''\<rparr>"

lemma malformed_is_not_retried_witness:
  "processWithRetry demo_config DefaultRetryPolicy (Process plain_ext) (demo_message\<lparr>qm_UserID := 0\<rparr>) demo_world =
     ((Some (Sentinel ErrInvalidUserID), True), demo_world)"
  by (rule malformed_is_not_retried)
    (simp_all add: msg_order_def NewReservation_def demo_message_def demo_config_def)

text \<open>C22: the entry that \<open>deduct.lua\<close> appends to the stream is read back by the worker as the booking
  that the API answered: the same order, user, event, ticket type, quantity, amount, currency,
  and the deadline at whole seconds.\<close>

theorem stream_roundtrip:
  assumes laws: "uuid_codec X"
    and run: "deduct_lua X tt n user (uuid_String X oid) (Unix_of until) r = (res, r')"
    and ok: "parse_deduct_result X res = Inr d" "dr_Accepted d" "0 < dr_AmountCents d" "dr_Currency d \<noteq> ''''"
    and ids: "oid \<noteq> uuid_Nil" "tt \<noteq> uuid_Nil"
    and range: "in_int64 user" "in_int64 n" "in_int64 (Unix_of until)" "0 < Unix_of until"
  shows "\<exists>m. rd_stream r' = rd_stream r @ [m] \<and> parseMessage X m =
    Inr \<lparr>qm_MessageID = xm_ID m, qm_OrderID = oid, qm_UserID = user, qm_EventID = dr_EventID d,
         qm_Quantity = n, qm_ReservedUntil = time_Unix (Unix_of until), qm_TicketTypeID = tt,
         qm_AmountCents = dr_AmountCents d, qm_Currency = dr_Currency d\<rparr>"
proof -
  obtain res1 r1 where g: "deduct_no_xadd_lua X tt n r = (res1, r1)" by (cases "deduct_no_xadd_lua X tt n r")
  from run g have res: "res = res1" by (simp add: deduct_lua_eq)
  show ?thesis using g
  proof (cases rule: deduct_no_xadd_cases)
    case (ok v r2 ev price cur amount)
    then have stream: "rd_stream r1 = rd_stream r" using redis_DECRBY_stock(7) by blast
    have parts: "uuid_Parse X ev = Some (dr_EventID d)" "strconv_ParseInt amount = Some (dr_AmountCents d)"
      "cur = dr_Currency d"
      using assms(3) res ok(3) by (auto simp: parse_deduct_result_def split: option.splits)
    define vals where "vals = [(''order_id'', uuid_String X oid), (''user_id'', strconv_Itoa user),
      (''event_id'', ev), (''quantity'', strconv_Itoa n),
      (''reserved_until'', strconv_Itoa (Unix_of until)), (''ticket_type_id'', uuid_String X tt),
      (''amount_cents'', amount), (''currency'', cur)]"
    define m where "m = \<lparr>xm_ID = redis_StreamID X (rd_seq r1), xm_Values = map_of vals\<rparr>"
    have "rd_stream r' = rd_stream r @ [m]"
      using run g ok(3) stream by (auto simp: deduct_lua_eq redis_XADD_def m_def vals_def)
    moreover have "uuid_Parse X (uuid_String X u) = Some u" for u
      using laws by (simp add: uuid_codec_def)
    then have "parseMessage X m =
      Inr \<lparr>qm_MessageID = xm_ID m, qm_OrderID = oid, qm_UserID = user, qm_EventID = dr_EventID d,
         qm_Quantity = n, qm_ReservedUntil = time_Unix (Unix_of until), qm_TicketTypeID = tt,
         qm_AmountCents = dr_AmountCents d, qm_Currency = dr_Currency d\<rparr>"
      using parts(1,2) ok(3) assms(5) assms(6) ids range
      by (simp add: parseMessage_def message_field_def m_def vals_def ParseInt_Itoa parts(3))
    ultimately show ?thesis by blast
  qed (use assms(3,4) res in \<open>auto simp: parse_deduct_result_def not_accepted_def\<close>)
qed

lemma stream_roundtrip_witness:
  "\<exists>res r' m. deduct_lua plain_ext 5 3 7 (uuid_String plain_ext 9) (Unix_of (time_Unix 100)) demo_redis = (res, r') \<and>
    rd_stream r' = rd_stream demo_redis @ [m] \<and>
    map_sum id qm_AmountCents (parseMessage plain_ext m) = Inr 750"
proof -
  obtain res0 r0 where run0: "deduct_no_xadd_lua plain_ext (tt_id demo_tt) 3 demo_redis = (res0, r0)"
    by (metis surj_pair)
  have t: "0 < tt_priceCents demo_tt" "(0::int) < 3" "tt_id demo_tt = 5" by (simp_all add: demo_tt_def)
  from exact_quote [OF plain_ext_laws(1,2) demo_redis_quoted t(1,2) run0] have
    d: "parse_deduct_result plain_ext res0 = Inr \<lparr>dr_Accepted = True, dr_EventID = 3, dr_AmountCents = 750,
      dr_Currency = ''usd''\<rparr>"
    by (simp add: demo_redis_stock demo_tt_def)
  obtain res r' where run: "deduct_lua plain_ext 5 3 7 (uuid_String plain_ext 9) (Unix_of (time_Unix 100)) demo_redis = (res, r')"
    by (metis surj_pair)
  have "res = res0" using run run0 t(3) by (simp add: deduct_lua_eq)
  with d have "parse_deduct_result plain_ext res = Inr \<lparr>dr_Accepted = True, dr_EventID = 3, dr_AmountCents = 750,
      dr_Currency = ''usd''\<rparr>" by simp
  from stream_roundtrip [OF plain_ext_laws(1) run this] run show ?thesis
    by (auto simp: in_int64_def)
qed

text \<open>A message whose order is already in the database: each attempt of the processor fails and
  changes nothing.\<close>

lemma insert_order_exists:
  "lookup or_id (or_id r) (pg_orders p) \<noteq> None \<Longrightarrow> sql_insert_order r p = Inl (Sentinel PgUniqueViolation)"
  by (simp add: sql_insert_order_def)

lemma Process_duplicate:
  assumes nf: "w_faults w = []" and dup: "lookup or_id (qm_OrderID om) (pg_orders (w_pg w)) \<noteq> None"
  shows "\<exists>e. Process X om w = (Inl e, w) \<and> \<not> errors_Is e ErrShutdownDuringBackoff"
proof (cases "msg_order X (w_now w) om")
  case (Inl e)
  have "e \<in> Sentinel ` {ErrInvalidOrderID, ErrInvalidUserID, ErrInvalidEventID, ErrInvalidQuantity,
      ErrInvalidOrderTicketTypeID, ErrInvalidReservedUntil, ErrInvalidAmountCents, ErrInvalidCurrency}"
    using Inl by (auto simp: msg_order_def NewReservation_def Let_def split: if_splits)
  with Inl show ?thesis by (auto simp: Process_def msg_order_def)
next
  case (Inr o')
  let ?tt = "qm_TicketTypeID om" and ?q = "qm_Quantity om"
  obtain n p1 where d: "sql_decrement_type ?tt ?q (w_pg w) = Inr (n, p1)"
    by (auto simp: sql_decrement_type_def Let_def)
  have dup1: "lookup or_id (id_of o') (pg_orders p1) \<noteq> None"
    using dup decrement_types [OF d] msg_order_Inr [OF Inr] by simp
  have "\<exists>e v. process_tx om o' w = (Inl e, w\<lparr>w_pg := v\<rparr>) \<and> (e = Sentinel ErrTicketTypeSoldOut \<or> e = Sentinel ErrUserAlreadyBought)"
    using nf d dup1
    by (simp add: process_tx_def ticketTypeRepo_DecrementTicket_def sql_exec_Works orderRepo_Create_def
        Let_def insert_order_exists) blast
  then obtain e v where tx: "process_tx om o' w = (Inl e, w\<lparr>w_pg := v\<rparr>)"
    "e = Sentinel ErrTicketTypeSoldOut \<or> e = Sentinel ErrUserAlreadyBought" by blast
  have "uow_Do (process_tx om o') w = (Inl e, w)" using nf tx(1) by (simp add: uow_Do_Works)
  with tx(2) Inr show ?thesis by (auto simp: Process_def msg_order_def)
qed

lemma retry_duplicate:
  assumes "w_faults w = []" and "lookup or_id (qm_OrderID om) (pg_orders (w_pg w)) \<noteq> None"
    and "0 < n" 
  shows "\<exists>e mal w'. processWithRetry_loop (worker_handler X) policy base om i n lastErr w = ((Some e, mal), w') \<and>
    \<not> errors_Is e ErrShutdownDuringBackoff \<and> w_faults w' = [] \<and>
    pg_orders (w_pg w') = pg_orders (w_pg w) \<and> rd_qty (w_rd w') = rd_qty (w_rd w) \<and>
    rd_reverted (w_rd w') = rd_reverted (w_rd w)"
  using assms
proof (induction n arbitrary: i lastErr w)
  case 0
  then show ?case by simp
next
  case (Suc n)
  obtain e where e: "Process X om w = (Inl e, w)" "\<not> errors_Is e ErrShutdownDuringBackoff"
    using Process_duplicate [OF Suc.prems(1,2)] by blast
  obtain w1 where h: "worker_handler X om w = (Inl e, w1)" and w1: "w_faults w1 = []"
    "w_pg w1 = w_pg w" "w_rd w1 = w_rd w"
    using Suc.prems(1) e by (simp add: Process_metered_def)
  let ?w2 = "time_passes (int (i + 1) * base) w1"
  have s: "sleepCtx (int (i + 1) * base) w1 = (True, ?w2)" using w1 by (simp add: sleepCtx_def)
  show ?case
  proof (cases "policy e \<and> 0 < n")
    case True
    have "\<exists>e' mal w'. processWithRetry_loop (worker_handler X) policy base om (i + 1) n (Some e) ?w2 = ((Some e', mal), w') \<and>
      \<not> errors_Is e' ErrShutdownDuringBackoff \<and> w_faults w' = [] \<and>
      pg_orders (w_pg w') = pg_orders (w_pg ?w2) \<and> rd_qty (w_rd w') = rd_qty (w_rd ?w2) \<and>
      rd_reverted (w_rd w') = rd_reverted (w_rd ?w2)"
      by (rule Suc.IH) (use True Suc.prems(2) w1 in \<open>simp_all add: time_passes_def\<close>)
    then show ?thesis using h s True w1 by (simp add: time_passes_def)
  next
    case False
    then show ?thesis using h w1 s e(2) by (cases n) (auto simp: time_passes_def)
  qed
qed

text \<open>A redelivered message gives its tickets back although they are sold. When the order of a
  message is already in the database (the acknowledgement was lost after the commit), handling
  the message again, with every call working, ends in the compensation: the order stays and the
  stock in Redis grows by its quantity.\<close>

theorem redelivery_reverts_live_booking:
  assumes nf: "w_faults w = []" and parsed: "parseMessage X m = Inr om"
    and live: "lookup or_id (qm_OrderID om) (pg_orders (w_pg w)) = Some r"
    and retries: "0 < qc_maxRetries cfg"
    and stock: "rd_qty (w_rd w) (qm_TicketTypeID om) = Some (v, None)"
    and fresh: "rd_reverted (w_rd w) (xm_ID m) = None"
  shows "\<exists>w'. handle_message X cfg DefaultRetryPolicy (worker_handler X) m w = (False, w') \<and>
    lookup or_id (qm_OrderID om) (pg_orders (w_pg w')) = Some r \<and>
    rd_qty (w_rd w') (qm_TicketTypeID om) = Some (v + qm_Quantity om, None)"
proof -
  obtain e mal w1 where p: "processWithRetry cfg DefaultRetryPolicy (worker_handler X) om w = ((Some e, mal), w1)"
    and e: "\<not> errors_Is e ErrShutdownDuringBackoff" and w1: "w_faults w1 = []"
    "pg_orders (w_pg w1) = pg_orders (w_pg w)" "rd_qty (w_rd w1) = rd_qty (w_rd w)"
    "rd_reverted (w_rd w1) = rd_reverted (w_rd w)"
    using retry_duplicate [OF nf _ retries] live unfolding processWithRetry_def
    by (metis option.distinct(1))
  have rev: "rd_qty (snd (revert_lua (qm_TicketTypeID om) (qm_Quantity om) (xm_ID m) (w_rd w1))) (qm_TicketTypeID om) =
      Some (v + qm_Quantity om, None)"
    using fresh stock w1 by (simp add: revert_lua_def reverted_def redis_get_qty_def alive_def redis_INCRBY_def Let_def)
  obtain k r1 where k: "revert_lua (qm_TicketTypeID om) (qm_Quantity om) (xm_ID m) (w_rd w1) = (k, r1)"
    by (cases "revert_lua (qm_TicketTypeID om) (qm_Quantity om) (xm_ID m) (w_rd w1)")
  have "\<exists>w2. handleFailure om m e w1 = (True, w2) \<and> w_pg w2 = w_pg w1 \<and> rd_qty (w_rd w2) = rd_qty r1"
    using w1(1) k by (simp add: handleFailure_def RevertInventory_def redis_call_Works moveToDLQ_def Let_def)
  then obtain w2 where w2: "handleFailure om m e w1 = (True, w2)" "w_pg w2 = w_pg w1" "rd_qty (w_rd w2) = rd_qty r1"
    by blast
  show ?thesis using parsed p e w2 w1(2) live rev k
    by (simp add: handle_message_def ackOrLog_frame)
qed

definition demo_sold :: xmessage where
  "demo_sold = \<lparr>xm_ID = ''1-0'', xm_Values = map_of [(''order_id'', show_nat 9), (''user_id'', show_nat 7),
      (''event_id'', show_nat 3), (''quantity'', show_nat 2), (''reserved_until'', show_nat 50),
      (''ticket_type_id'', show_nat 5), (''amount_cents'', show_nat 500), (''currency'', ''usd'')]\<rparr>"

lemma redelivery_reverts_live_booking_witness:
  "\<exists>w'. handle_message plain_ext demo_config DefaultRetryPolicy (worker_handler plain_ext) demo_sold
      (demo_db\<lparr>w_rd := demo_redis\<rparr>) = (False, w') \<and>
    lookup or_id 9 (pg_orders (w_pg w')) = Some demo_row \<and> rd_qty (w_rd w') 5 = Some (12, None)"
proof -
  let ?om = "\<lparr>qm_MessageID = ''1-0'', qm_OrderID = 9, qm_UserID = 7, qm_EventID = 3, qm_Quantity = 2,
     qm_ReservedUntil = time_Unix 50, qm_TicketTypeID = 5, qm_AmountCents = 500, qm_Currency = ''usd''\<rparr>"
  have Itoa: "0 \<le> i \<Longrightarrow> i < 2 ^ 63 \<Longrightarrow> strconv_ParseInt (show_nat (nat i)) = Some i" for i
    using ParseInt_Itoa [of i] by (simp add: strconv_Itoa_def in_int64_def)
  have parsed: "parseMessage plain_ext demo_sold = Inr ?om"
    using Itoa [of 7] Itoa [of 2] Itoa [of 50] Itoa [of 500]
    by (simp add: parseMessage_def message_field_def demo_sold_def plain_ext_def dec_val_show_nat)
  have live: "lookup or_id (qm_OrderID ?om) (pg_orders (w_pg (demo_db\<lparr>w_rd := demo_redis\<rparr>))) = Some demo_row"
    by (simp add: demo_db_def empty_world_def empty_pg_def demo_row_def demo_order_def)
  have "w_faults (demo_db\<lparr>w_rd := demo_redis\<rparr>) = []" by (simp add: demo_db_def empty_world_def)
  from redelivery_reverts_live_booking [OF this parsed live, of demo_config 10] show ?thesis
    by (simp add: demo_redis_def demo_config_def empty_redis_def)
qed

end
