(* ===== verification/Booking.thy ===== *)
theory Booking
  imports Worker
begin

text \<open>
  The booking services: stage 4 (\<open>application/booking/service.go\<close>, Redis gate and stream), stage 5
  (\<open>service_kafka_intake.go\<close>, Redis gate and the Kafka intake topic with a compensating revert).
  \<open>PublishIntake\<close> is the publisher of \<open>messaging/kafka_intake_publisher.go\<close>.
  What a service does to the stock is compared with what it answers.
\<close>

section \<open>Shared steps\<close>

definition SetMetadata_of :: "ext \<Rightarrow> duration \<Rightarrow> uuid \<Rightarrow> world \<Rightarrow> (err + unit) \<times> world" where
  "SetMetadata_of X ttl tt w = (case ticketTypeRepo_GetByID X tt w of
     (Inl e, w1) \<Rightarrow> (Inl (Wrap ''BookTicket lookup ticket_type_id'' e), w1)
   | (Inr t, w1) \<Rightarrow> (case SetTicketTypeMetadata X ttl t w1 of
        (Inl e, w2) \<Rightarrow> (Inl (Wrap ''BookTicket repair metadata'' e), w2)
      | (Inr _, w2) \<Rightarrow> (Inr (), w2)))"

text \<open>Every gate service deducts, and on missing metadata repairs it from the database and deducts once
  more; they differ in the test and in the messages.\<close>

definition with_repair ::
    "(err \<Rightarrow> bool) \<Rightarrow> string \<Rightarrow> string \<Rightarrow> (world \<Rightarrow> (err + deduct_result) \<times> world) \<Rightarrow>
     (world \<Rightarrow> (err + unit) \<times> world) \<Rightarrow> world \<Rightarrow> (err + deduct_result) \<times> world" where
  "with_repair is_missing msg msg_after deduct repair w = (case deduct w of
     (Inr res, w1) \<Rightarrow> (Inr res, w1)
   | (Inl e, w1) \<Rightarrow>
      if \<not> is_missing e then (Inl (Wrap msg e), w1)
      else case repair w1 of
        (Inl re, w2) \<Rightarrow> (Inl re, w2)
      | (Inr _, w2) \<Rightarrow> (case deduct w2 of
           (Inr res, w3) \<Rightarrow> (Inr res, w3)
         | (Inl e2, w3) \<Rightarrow>
             if is_missing e2
             then (Inl (Wrap ''redis runtime metadata still missing after repair'' e2), w3)
             else (Inl (Wrap msg_after e2), w3)))"

definition GetBookingHistory ::
    "int \<Rightarrow> int \<Rightarrow> order_status option \<Rightarrow> world \<Rightarrow> (err + order list \<times> nat) \<times> world" where
  "GetBookingHistory page pageSize st w =
    (let page' = (if page < 1 then 1 else page);
         pageSize' = (if pageSize < 1 then 10 else pageSize)
     in orderRepo_ListOrders pageSize' (wrap64 ((page' - 1) * pageSize')) st w)"

section \<open>Stage 4\<close>

definition BookTicket :: "ext \<Rightarrow> duration \<Rightarrow> duration \<Rightarrow> int \<Rightarrow> uuid \<Rightarrow> int \<Rightarrow> world \<Rightarrow> (err + order) \<times> world" where
  "BookTicket X window ttl user tt qty w = (case uuid_NewV7 w of
     (None, w1) \<Rightarrow> (Inl (Wrap ''generate order id'' (Plain ''uuid'')), w1)
   | (Some oid, w1) \<Rightarrow>
      if user \<le> 0 then (Inl (Sentinel ErrInvalidUserID), w1)
      else if tt = uuid_Nil then (Inl (Sentinel ErrInvalidOrderTicketTypeID), w1)
      else if qty \<le> 0 then (Inl (Sentinel ErrInvalidQuantity), w1)
      else let until = w_now w1 + window in
      if until = 0 \<or> \<not> until > w_now w1 then (Inl (Sentinel ErrInvalidReservedUntil), w1)
      else case with_repair (\<lambda>e. e = Sentinel ErrTicketTypeRuntimeMetadataMissing)
            ''redis inventory error'' ''redis inventory error''
            (DeductInventory X oid tt user qty until) (SetMetadata_of X ttl tt) w1 of
        (Inl e, w2) \<Rightarrow> (Inl e, w2)
      | (Inr res, w2) \<Rightarrow>
         if \<not> dr_Accepted res then (Inl (Sentinel ErrSoldOut), w2)
         else (NewReservation X (w_now w2) oid user (dr_EventID res) tt qty until (dr_AmountCents res)
                 (dr_Currency res), w2))"

definition booking_outcome :: "err + order \<Rightarrow> string" where
  "booking_outcome r = (case r of Inr _ \<Rightarrow> ''success''
     | Inl e \<Rightarrow> if errors_Is e ErrSoldOut then ''sold_out'' else ''error'')"

definition BookTicket_metered ::
    "(int \<Rightarrow> uuid \<Rightarrow> int \<Rightarrow> world \<Rightarrow> (err + order) \<times> world) \<Rightarrow> int \<Rightarrow> uuid \<Rightarrow> int \<Rightarrow> world \<Rightarrow> (err + order) \<times> world" where
  "BookTicket_metered next_BookTicket user tt qty w = (case next_BookTicket user tt qty w of (r, w1) \<Rightarrow>
     (r, metric (''booking_'' @ booking_outcome r) w1))"

section \<open>Stage 5\<close>

text \<open>The broker appends the message, or the write fails before or after the append.\<close>

definition PublishIntake :: "intake_message \<Rightarrow> world \<Rightarrow> (err + unit) \<times> world" where
  "PublishIntake msg w =
    (if im_OrderID msg = uuid_Nil
     then (Inl (Plain ''intake publisher: refusing to publish with zero order_id''), w)
     else case io w of
       (Works, w1) \<Rightarrow> (Inr (), w1\<lparr>w_intake := w_intake w1 @ [msg]\<rparr>)
     | (Lost, w1) \<Rightarrow> (Inl (Wrap ''intake publisher: write'' (Sentinel BrokerUnavailable)), w1)
     | (Unacked, w1) \<Rightarrow> (Inl (Wrap ''intake publisher: write'' (Sentinel BrokerUnavailable)),
                        w1\<lparr>w_intake := w_intake w1 @ [msg]\<rparr>))"

definition deductWithMetadataRepair ::
    "ext \<Rightarrow> duration \<Rightarrow> uuid \<Rightarrow> int \<Rightarrow> world \<Rightarrow> (err + deduct_result) \<times> world" where
  "deductWithMetadataRepair X ttl tt qty =
     with_repair (\<lambda>e. errors_Is e ErrTicketTypeRuntimeMetadataMissing)
       ''redis inventory error'' ''redis inventory error after repair''
       (DeductInventoryNoStream X tt qty) (SetMetadata_of X ttl tt)"

definition BookTicket5 :: "ext \<Rightarrow> duration \<Rightarrow> duration \<Rightarrow> int \<Rightarrow> uuid \<Rightarrow> int \<Rightarrow> world \<Rightarrow> (err + order) \<times> world" where
  "BookTicket5 X window ttl user tt qty w = (case uuid_NewV7 w of
     (None, w1) \<Rightarrow> (Inl (Wrap ''generate order id'' (Plain ''uuid'')), w1)
   | (Some oid, w1) \<Rightarrow>
      if user \<le> 0 then (Inl (Sentinel ErrInvalidUserID), w1)
      else if tt = uuid_Nil then (Inl (Sentinel ErrInvalidOrderTicketTypeID), w1)
      else if qty \<le> 0 then (Inl (Sentinel ErrInvalidQuantity), w1)
      else let until = w_now w1 + window in
      if until = 0 \<or> \<not> until > w_now w1 then (Inl (Sentinel ErrInvalidReservedUntil), w1)
      else case deductWithMetadataRepair X ttl tt qty w1 of
        (Inl e, w2) \<Rightarrow> (Inl e, w2)
      | (Inr res, w2) \<Rightarrow>
         if \<not> dr_Accepted res then (Inl (Sentinel ErrSoldOut), w2)
         else let msg = \<lparr>im_OrderID = oid, im_UserID = user, im_EventID = dr_EventID res,
                im_TicketTypeID = tt, im_Quantity = qty, im_ReservedUntil = Unix_of until,
                im_AmountCents = dr_AmountCents res, im_Currency = dr_Currency res\<rparr> in
         case PublishIntake msg w2 of
           (Inl pe, w3) \<Rightarrow> (case RevertInventory tt qty (uuid_String X oid) w3 of
              (Inl re, w4) \<Rightarrow>
                (Inl (Wrap ''stage5 drift (publish+revert both failed)''
                   (Join [Sentinel ErrStage5PublishFailed, Join [pe, re]])), metric ''publish_failure_drift'' w4)
            | (Inr _, w4) \<Rightarrow>
                (Inl (Wrap ''(reverted)'' (Join [Sentinel ErrStage5PublishFailed, pe])),
                 metric ''publish_failure_reverted'' w4))
         | (Inr _, w3) \<Rightarrow>
             (NewReservation X (w_now w3) oid user (dr_EventID res) tt qty until (dr_AmountCents res)
                (dr_Currency res), w3))"

section \<open>What a deduction call does\<close>

text \<open>The outcome of a deduction on Redis: taken, refused, or (the reply being an error) either.\<close>

definition took :: "uuid \<Rightarrow> int \<Rightarrow> redis \<Rightarrow> redis \<Rightarrow> bool" where
  "took tt n r r' \<longleftrightarrow> n \<le> stock r tt \<and> (\<forall>u. stock r' u = (if u = tt then stock r tt - n else stock r u)) \<and>
     reverted r' = reverted r \<and> stocked r' tt \<and> rd_now r' = rd_now r"

definition same_stock :: "redis \<Rightarrow> redis \<Rightarrow> bool" where
  "same_stock r r' \<longleftrightarrow> stock r' = stock r \<and> reverted r' = reverted r \<and> rd_now r' = rd_now r"

lemma same_stock_refl [simp]: "same_stock r r"
  by (simp add: same_stock_def)

lemma same_stock_trans: "same_stock a b \<Longrightarrow> same_stock b c \<Longrightarrow> same_stock a c"
  by (simp add: same_stock_def)

lemma same_stock_took: "same_stock a b \<Longrightarrow> took tt n b c \<Longrightarrow> took tt n a c"
  by (simp add: same_stock_def took_def)

lemma parse_accepted: "parse_deduct_result X res = Inr d \<Longrightarrow> (dr_Accepted d \<longleftrightarrow> hd res = ''ok'')"
  by (cases res) (auto simp: parse_deduct_result_def not_accepted_def split: if_splits option.splits)

lemma deduct_no_xadd_live:
  assumes "deduct_no_xadd_lua X tt n r = (res, r')"
  shows "stocked r' tt \<and> rd_now r' = rd_now r"
  using assms
proof (cases rule: deduct_no_xadd_cases)
  case (sold_out v r1)
  with redis_DECRBY_stock [OF sold_out(1)] show ?thesis
    by (cases "redis_INCRBY tt n r1") (auto dest: redis_INCRBY_stock(3,4))
next
  case (metadata_missing v r1)
  with redis_DECRBY_stock [OF metadata_missing(1)] show ?thesis
    by (cases "redis_INCRBY tt n r1") (auto dest: redis_INCRBY_stock(3,4))
next
  case (ok v r1 ev price cur amount)
  with redis_DECRBY_stock(3,4) [OF ok(1)] show ?thesis by auto
qed

lemma no_xadd_took:
  assumes "deduct_no_xadd_lua X tt n r = (res, r')"
  shows "if hd res = ''ok'' then took tt n r r' else same_stock r r'"
  using deduct_no_xadd_effect(1) [OF assms] deduct_no_xadd_effect(2) [OF assms] deduct_no_xadd_effect(3) [OF assms]
    deduct_no_xadd_live [OF assms]
  by (auto simp: took_def same_stock_def fun_eq_iff)

lemma deduct_took:
  assumes "deduct_lua X tt n user oid until r = (res, r')"
  shows "if hd res = ''ok'' then took tt n r r' else same_stock r r'"
proof -
  obtain res1 r1 where g: "deduct_no_xadd_lua X tt n r = (res1, r1)" by (cases "deduct_no_xadd_lua X tt n r")
  from assms g have "res = res1" and r': "stock r' = stock r1" "reverted r' = reverted r1"
    "stocked r' = stocked r1" "rd_now r' = rd_now r1"
    by (auto simp: deduct_lua_eq fun_eq_iff split: if_splits)
  with no_xadd_took [OF g] show ?thesis by (auto simp: took_def same_stock_def split: if_splits)
qed

text \<open>The three deduct methods in one contract: a call keeps everything but the stock, an accepted call
  took the quantity, a refused one nothing.\<close>

locale deducter =
  fixes call :: "uuid \<Rightarrow> int \<Rightarrow> world \<Rightarrow> (err + deduct_result) \<times> world"
  assumes frame: "call tt n w = (r, w') \<Longrightarrow> w_pg w' = w_pg w \<and> w_now w' = w_now w \<and> w_intake w' = w_intake w \<and>
      w_failed w' = w_failed w \<and> w_bus w' = w_bus w"
    and answered: "call tt n w = (Inr d, w') \<Longrightarrow>
      (if dr_Accepted d then took tt n (w_rd w) (w_rd w') else same_stock (w_rd w) (w_rd w'))"
    and failed: "call tt n w = (Inl e, w') \<Longrightarrow> took tt n (w_rd w) (w_rd w') \<or> same_stock (w_rd w) (w_rd w')"
    and missing: "call tt n w = (Inl e, w') \<Longrightarrow> errors_Is e ErrTicketTypeRuntimeMetadataMissing \<Longrightarrow>
      same_stock (w_rd w) (w_rd w')"
begin

lemma any: "call tt n w = (r, w') \<Longrightarrow> took tt n (w_rd w) (w_rd w') \<or> same_stock (w_rd w) (w_rd w')"
  by (cases r) (auto dest: failed answered split: if_splits)

end

lemma deducter_of_script:
  fixes wrap :: "err \<Rightarrow> err"
  assumes script: "\<And>r res r'. script r = (res, r') \<Longrightarrow> if hd res = ''ok'' then took tt n r r' else same_stock r r'"
    and wrap: "\<And>e s. errors_Is (wrap e) s = errors_Is e s"
    and run: "(case redis_call script w of (Inl e, w1) \<Rightarrow> (Inl (wrap e), w1)
      | (Inr res, w1) \<Rightarrow> (parse_deduct_result X res, w1)) = (r, w')"
  shows "w_pg w' = w_pg w \<and> w_now w' = w_now w \<and> w_intake w' = w_intake w \<and> w_failed w' = w_failed w \<and> w_bus w' = w_bus w"
    and "r = Inr d \<Longrightarrow> if dr_Accepted d then took tt n (w_rd w) (w_rd w') else same_stock (w_rd w) (w_rd w')"
    and "r = Inl e \<Longrightarrow> took tt n (w_rd w) (w_rd w') \<or> same_stock (w_rd w) (w_rd w')"
    and "r = Inl e \<Longrightarrow> errors_Is e ErrTicketTypeRuntimeMetadataMissing \<Longrightarrow> same_stock (w_rd w) (w_rd w')"
proof -
  obtain x w1 where c: "redis_call script w = (x, w1)" by (cases "redis_call script w")
  have w': "w' = w1" using run c by (cases x) auto
  have any: "took tt n (w_rd w) (w_rd w1) \<or> same_stock (w_rd w) (w_rd w1)"
    using redis_call_rd [OF c] script [of "w_rd w"] by (cases "script (w_rd w)") (auto split: if_splits)
  have ok: "x = Inr res \<Longrightarrow> r = parse_deduct_result X res \<and>
      (if hd res = ''ok'' then took tt n (w_rd w) (w_rd w1) else same_stock (w_rd w) (w_rd w1))" for res
    using run c redis_call_Inr [of script w res w1] script by auto
  show "w_pg w' = w_pg w \<and> w_now w' = w_now w \<and> w_intake w' = w_intake w \<and> w_failed w' = w_failed w \<and> w_bus w' = w_bus w"
    using redis_call_frame [OF c] w' by simp
  show "if dr_Accepted d then took tt n (w_rd w) (w_rd w') else same_stock (w_rd w) (w_rd w')" if "r = Inr d"
    using that run c ok w' parse_accepted by (cases x) (auto split: if_splits)
  show "took tt n (w_rd w) (w_rd w') \<or> same_stock (w_rd w) (w_rd w')" using any w' by simp
  show "same_stock (w_rd w) (w_rd w')" if "r = Inl e" "errors_Is e ErrTicketTypeRuntimeMetadataMissing"
  proof (cases x)
    case (Inl a)
    then have "a = Sentinel RedisUnavailable" using c by (auto simp: redis_call_def split: prod.splits fault.splits)
    with that run c Inl wrap show ?thesis by auto
  next
    case (Inr res)
    have "hd res \<noteq> ''ok''"
      using that ok [OF Inr] by (cases res) (auto simp: parse_deduct_result_def split: if_splits option.splits)
    with ok [OF Inr] w' show ?thesis by simp
  qed
qed

interpretation deduct4: deducter "\<lambda>tt n. DeductInventory X oid tt user n until" for X oid user until
proof
  fix tt n w r w' d e
  note D = deducter_of_script [where wrap = "\<lambda>e. e" and script = "deduct_lua X tt n user (uuid_String X oid) (Unix_of until)"
      and tt = tt and n = n and X = X and w = w]
  show "DeductInventory X oid tt user n until w = (r, w') \<Longrightarrow> w_pg w' = w_pg w \<and> w_now w' = w_now w \<and>
      w_intake w' = w_intake w \<and> w_failed w' = w_failed w \<and> w_bus w' = w_bus w"
    unfolding DeductInventory_def by (rule D(1)) (auto simp: deduct_took)
  show "DeductInventory X oid tt user n until w = (Inr d, w') \<Longrightarrow>
      (if dr_Accepted d then took tt n (w_rd w) (w_rd w') else same_stock (w_rd w) (w_rd w'))"
    unfolding DeductInventory_def by (rule D(2)) (auto simp: deduct_took)
  show "DeductInventory X oid tt user n until w = (Inl e, w') \<Longrightarrow>
      took tt n (w_rd w) (w_rd w') \<or> same_stock (w_rd w) (w_rd w')"
    unfolding DeductInventory_def by (rule D(3)) (auto simp: deduct_took)
  show "DeductInventory X oid tt user n until w = (Inl e, w') \<Longrightarrow>
      errors_Is e ErrTicketTypeRuntimeMetadataMissing \<Longrightarrow> same_stock (w_rd w) (w_rd w')"
    unfolding DeductInventory_def by (rule D(4)) (auto simp: deduct_took)
qed

interpretation deduct5: deducter "DeductInventoryNoStream X" for X
proof
  fix tt n w r w' d e
  note D = deducter_of_script [where wrap = "Wrap ''DeductInventoryNoStream''"
      and script = "deduct_no_xadd_lua X tt n" and tt = tt and n = n and X = X and w = w]
  show "DeductInventoryNoStream X tt n w = (r, w') \<Longrightarrow> w_pg w' = w_pg w \<and> w_now w' = w_now w \<and>
      w_intake w' = w_intake w \<and> w_failed w' = w_failed w \<and> w_bus w' = w_bus w"
    unfolding DeductInventoryNoStream_def by (rule D(1)) (auto simp: no_xadd_took)
  show "DeductInventoryNoStream X tt n w = (Inr d, w') \<Longrightarrow>
      (if dr_Accepted d then took tt n (w_rd w) (w_rd w') else same_stock (w_rd w) (w_rd w'))"
    unfolding DeductInventoryNoStream_def by (rule D(2)) (auto simp: no_xadd_took)
  show "DeductInventoryNoStream X tt n w = (Inl e, w') \<Longrightarrow>
      took tt n (w_rd w) (w_rd w') \<or> same_stock (w_rd w) (w_rd w')"
    unfolding DeductInventoryNoStream_def by (rule D(3)) (auto simp: no_xadd_took)
  show "DeductInventoryNoStream X tt n w = (Inl e, w') \<Longrightarrow>
      errors_Is e ErrTicketTypeRuntimeMetadataMissing \<Longrightarrow> same_stock (w_rd w) (w_rd w')"
    unfolding DeductInventoryNoStream_def by (rule D(4)) (auto simp: no_xadd_took)
qed

interpretation deduct_sync: deducter "SyncDeducter_Deduct X" for X
proof
  fix tt n w r w' d e
  note D = deducter_of_script [where wrap = "\<lambda>e. e" and script = "deduct_sync_lua X tt n"
      and tt = tt and n = n and X = X and w = w]
  show "SyncDeducter_Deduct X tt n w = (r, w') \<Longrightarrow> w_pg w' = w_pg w \<and> w_now w' = w_now w \<and>
      w_intake w' = w_intake w \<and> w_failed w' = w_failed w \<and> w_bus w' = w_bus w"
    unfolding SyncDeducter_Deduct_def by (rule D(1)) (auto simp: deduct_sync_eq no_xadd_took)
  show "SyncDeducter_Deduct X tt n w = (Inr d, w') \<Longrightarrow>
      (if dr_Accepted d then took tt n (w_rd w) (w_rd w') else same_stock (w_rd w) (w_rd w'))"
    unfolding SyncDeducter_Deduct_def by (rule D(2)) (auto simp: deduct_sync_eq no_xadd_took)
  show "SyncDeducter_Deduct X tt n w = (Inl e, w') \<Longrightarrow>
      took tt n (w_rd w) (w_rd w') \<or> same_stock (w_rd w) (w_rd w')"
    unfolding SyncDeducter_Deduct_def by (rule D(3)) (auto simp: deduct_sync_eq no_xadd_took)
  show "SyncDeducter_Deduct X tt n w = (Inl e, w') \<Longrightarrow>
      errors_Is e ErrTicketTypeRuntimeMetadataMissing \<Longrightarrow> same_stock (w_rd w) (w_rd w')"
    unfolding SyncDeducter_Deduct_def by (rule D(4)) (auto simp: deduct_sync_eq no_xadd_took)
qed

section \<open>Giving back\<close>

definition gave :: "uuid \<Rightarrow> int \<Rightarrow> string \<Rightarrow> redis \<Rightarrow> redis \<Rightarrow> bool" where
  "gave tt n c r r' \<longleftrightarrow> revert_lua tt n c r = (1, r') \<and> \<not> reverted r c \<and>
     reverted r' = (reverted r)(c := True) \<and> rd_now r' = rd_now r \<and>
     (\<forall>u. stock r' u = (if u = tt \<and> stocked r tt then stock r tt + n else stock r u))"

lemma revert_lua_gave:
  assumes "revert_lua tt n c r = (k, r')"
  shows "if reverted r c then r' = r else gave tt n c r r'"
proof -
  have "rd_now r' = rd_now r"
    using assms by (cases "redis_INCRBY tt n r") (auto simp: revert_lua_def Let_def dest: redis_INCRBY_stock(4) split: if_splits)
  then show ?thesis using assms revert_again [of r c tt n] revert_first [of r c tt n k r'] by (auto simp: gave_def)
qed

lemma RevertInventory_outcome:
  assumes "RevertInventory tt n c w = (x, w')"
  shows "if reverted (w_rd w) c then w_rd w' = w_rd w
    else gave tt n c (w_rd w) (w_rd w') \<or> (x \<noteq> Inr () \<and> w_rd w' = w_rd w)"
proof -
  obtain y w1 where c: "redis_call (revert_lua tt n c) w = (y, w1)" by (cases "redis_call (revert_lua tt n c) w")
  have w': "w' = w1" and xy: "x = Inr () \<longleftrightarrow> is_ok y" using assms c by (auto simp: RevertInventory_def split: sum.splits)
  obtain k r1 where k: "revert_lua tt n c (w_rd w) = (k, r1)" by (cases "revert_lua tt n c (w_rd w)")
  from c show ?thesis
    by (rule redis_call_cases) (use k revert_lua_gave [OF k] w' xy in \<open>auto split: sum.splits\<close>)
qed

text \<open>The reverts of one compensation id over time: what Redis saw between \<open>r\<close> and \<open>r'\<close> is a run of the
  gate without deductions, and \<open>es\<close> are the times at which a revert took effect.\<close>

definition revert_history :: "ext \<Rightarrow> uuid \<Rightarrow> int \<Rightarrow> string \<Rightarrow> redis \<Rightarrow> time list \<Rightarrow> redis \<Rightarrow> bool" where
  "revert_history X tt n c r es r' \<longleftrightarrow> (\<exists>ops. gate_run rd_now redis_wait (stage5_gate X) revert_lua ops r =
     (map (\<lambda>t. Restored t tt n c) es, r'))"

lemma history_refl: "revert_history X tt n c r [] r"
  unfolding revert_history_def by (rule exI [of _ "[]"]) simp

lemma history_wait: "revert_history X tt n c r [] (redis_wait d r)"
  unfolding revert_history_def by (rule exI [of _ "[Wait d]"]) simp

lemma history_gave: "gave tt n c r r' \<Longrightarrow> revert_history X tt n c r [rd_now r] r'"
  unfolding revert_history_def gave_def by (rule exI [of _ "[Revert tt n c]"]) simp

lemma history_trans:
  assumes "revert_history X tt n c r es r1" and "revert_history X tt n c r1 es' r'"
  shows "revert_history X tt n c r (es @ es') r'"
proof -
  obtain ops ops' where
    "gate_run rd_now redis_wait (stage5_gate X) revert_lua ops r = (map (\<lambda>t. Restored t tt n c) es, r1)"
    "gate_run rd_now redis_wait (stage5_gate X) revert_lua ops' r1 = (map (\<lambda>t. Restored t tt n c) es', r')"
    using assms by (auto simp: revert_history_def)
  then show ?thesis unfolding revert_history_def
    by (intro exI [of _ "ops @ ops'"]) (simp add: gate_run_append)
qed

lemma history_restores: "concat (map restores (map (\<lambda>t. Restored t tt n c) es)) = map (Pair c) es"
  by (induction es) simp_all

lemma history_delta: "sum_list (map (entry_delta tt) (map (\<lambda>t. Restored t tt n c) es)) = int (length es) * n"
  by (induction es) (simp_all add: algebra_simps)

text \<open>Two effective reverts are seven days apart, and none falls into the life of an earlier marker; a
  counter that does not expire grows by the quantity with each.\<close>

lemma history_apart:
  assumes "revert_history X tt n c r es r'"
  shows "sorted_wrt (\<lambda>s t. s + marker_life \<le> t) es"
    and "t \<in> set es \<Longrightarrow> rd_now r \<le> t \<and> t \<le> rd_now r' \<and> \<not> marked_until r c t"
    and "rd_now r \<le> rd_now r'"
proof -
  obtain ops where run: "gate_run rd_now redis_wait (stage5_gate X) revert_lua ops r = (map (\<lambda>t. Restored t tt n c) es, r')"
    using assms by (auto simp: revert_history_def)
  note ap = gate5.restored_apart [OF run, unfolded history_restores]
  show "sorted_wrt (\<lambda>s t. s + marker_life \<le> t) es"
    using ap by (auto simp: sorted_wrt_map apart_by_def)
  show "t \<in> set es \<Longrightarrow> rd_now r \<le> t \<and> t \<le> rd_now r' \<and> \<not> marked_until r c t" using ap by auto
  show "rd_now r \<le> rd_now r'" by (rule gate5.run_clock [OF run])
qed

lemma history_unmarked:
  assumes "revert_history X tt n c r [] r'"
  shows "marked_until r' = marked_until r"
proof -
  obtain ops where "gate_run rd_now redis_wait (stage5_gate X) revert_lua ops r = ([], r')"
    using assms by (auto simp: revert_history_def)
  from gate5.run_unmarked [OF this] show ?thesis by simp
qed

lemma history_stock:
  assumes "revert_history X tt n c r es r'" and "stocked_until r tt (rd_now r')"
  shows "stock r' tt = stock r tt + int (length es) * n"
proof -
  obtain ops where run: "gate_run rd_now redis_wait (stage5_gate X) revert_lua ops r = (map (\<lambda>t. Restored t tt n c) es, r')"
    using assms by (auto simp: revert_history_def)
  from gate5.conservation [OF run assms(2)] show ?thesis by (simp only: history_delta)
qed

lemma history_once:
  assumes "revert_history X tt n c r es r'" and "rd_now r' < rd_now r + marker_life"
  shows "length es \<le> 1"
proof (cases es)
  case (Cons s ts)
  show ?thesis
  proof (cases ts)
    case tl: (Cons t us)
    have "s + marker_life \<le> t" using history_apart(1) [OF assms(1)] Cons tl by simp
    with history_apart(2) [OF assms(1), of s] history_apart(2) [OF assms(1), of t] Cons tl assms(2) show ?thesis by simp
  qed (simp add: Cons)
qed simp

text \<open>Whether a step gave back under this compensation id.\<close>

definition gives_back :: "string \<Rightarrow> redis \<Rightarrow> redis \<Rightarrow> bool" where
  "gives_back c r r' \<longleftrightarrow> \<not> reverted r c \<and> reverted r' c"

text \<open>A step that waits and then does nothing to Redis or gives back once.\<close>

lemma history_step:
  assumes "r' = redis_wait d r \<or> gave tt n c (redis_wait d r) r'"
  shows "revert_history X tt n c r (if gives_back c (redis_wait d r) r' then [rd_now (redis_wait d r)] else []) r'"
  using assms
proof
  assume "r' = redis_wait d r"
  then show ?thesis using history_wait by (simp add: gives_back_def)
next
  assume g: "gave tt n c (redis_wait d r) r'"
  then have "gives_back c (redis_wait d r) r'" by (simp add: gives_back_def gave_def)
  with history_trans [OF history_wait history_gave [OF g]] show ?thesis by simp
qed

text \<open>What was taken and given back is as before.\<close>

lemma took_gave: "took tt n r r1 \<Longrightarrow> gave tt n c r1 r2 \<Longrightarrow> stock r2 = stock r"
  by (auto simp: took_def gave_def fun_eq_iff)

lemma SetMetadata_frame:
  assumes "SetMetadata_of X ttl tt w = (r, w')"
  shows "same_stock (w_rd w) (w_rd w') \<and> w_pg w' = w_pg w \<and> w_now w' = w_now w \<and> w_intake w' = w_intake w"
proof -
  have G: "w_rd b = w_rd a \<and> w_pg b = w_pg a \<and> w_now b = w_now a \<and> w_intake b = w_intake a"
    if "ticketTypeRepo_GetByID X tt a = (x, b)" for a x b
    using that by (auto simp: ticketTypeRepo_GetByID_def split: prod.splits sum.splits option.splits dest!: sql_query_frame)
  have S: "same_stock (w_rd a) (w_rd b) \<and> w_pg b = w_pg a \<and> w_now b = w_now a \<and> w_intake b = w_intake a"
    if "SetTicketTypeMetadata X ttl t a = (x, b)" for a x b t
  proof -
    let ?c = "\<lambda>r. ((), redis_EXPIRE_meta (tt_id t) ttl (redis_HSET (tt_id t) (ticketTypeMetaValues X t) r))"
    obtain y v where c: "redis_call ?c a = (y, v)" by (cases "redis_call ?c a")
    have same: "same_stock r (snd (?c r))" for r
    proof -
      have "rd_qty (snd (?c r)) = rd_qty r \<and> rd_now (snd (?c r)) = rd_now r \<and> rd_reverted (snd (?c r)) = rd_reverted r"
        by (simp add: redis_HSET_def redis_EXPIRE_meta_def split: option.splits)
      then show ?thesis
        by (auto simp: same_stock_def stock_def redis_get_qty_def fun_eq_iff reverted_def cong: option.case_cong)
    qed
    with that c redis_call_frame [OF c] redis_call_rd [OF c] same [of "w_rd a"] show ?thesis
      by (auto simp: SetTicketTypeMetadata_def split: sum.splits)
  qed
  show ?thesis using assms by (auto simp: SetMetadata_of_def split: prod.splits sum.splits dest!: G S)
qed

context deducter
begin

lemma repaired:
  assumes run: "with_repair miss m1 m2 (call tt n) (SetMetadata_of X ttl t) w = (r, w')"
    and miss: "\<And>e. miss e \<Longrightarrow> errors_Is e ErrTicketTypeRuntimeMetadataMissing"
  shows "w_pg w' = w_pg w \<and> w_now w' = w_now w \<and> w_intake w' = w_intake w \<and>
    (took tt n (w_rd w) (w_rd w') \<or> same_stock (w_rd w) (w_rd w')) \<and>
    (\<forall>d. r = Inr d \<longrightarrow> (if dr_Accepted d then took tt n (w_rd w) (w_rd w') else same_stock (w_rd w) (w_rd w')))"
proof -
  obtain r1 w1 where c1: "call tt n w = (r1, w1)" by (cases "call tt n w")
  note f1 = frame [OF c1] and any1 = any [OF c1]
  show ?thesis
  proof (cases "\<exists>e. r1 = Inl e \<and> miss e")
    case False
    then have "w' = w1" "(\<exists>d. r1 = Inr d \<and> r = Inr d) \<or> (\<exists>e. r = Inl e)"
      using run c1 by (auto simp: with_repair_def split: sum.splits if_splits)
    with f1 any1 answered [of tt n w _ w1] c1 show ?thesis by auto
  next
    case True
    then obtain e where e: "r1 = Inl e" "miss e" by blast
    have s1: "same_stock (w_rd w) (w_rd w1)" using missing [of tt n w e w1] c1 e miss by simp
    obtain r2 w2 where c2: "SetMetadata_of X ttl t w1 = (r2, w2)" by (cases "SetMetadata_of X ttl t w1")
    note f2 = SetMetadata_frame [OF c2]
    have s2: "same_stock (w_rd w) (w_rd w2)" using s1 f2 same_stock_trans by blast
    obtain r3 w3 where c3: "call tt n w2 = (r3, w3)" by (cases "call tt n w2")
    note f3 = frame [OF c3] and any3 = any [OF c3]
    have "(w' = w2 \<and> \<not> is_ok r) \<or> (w' = w3 \<and> (r = r3 \<or> \<not> is_ok r))"
      using run c1 c2 c3 e by (auto simp: with_repair_def split: sum.splits if_splits)
    then show ?thesis
    proof
      assume "w' = w2 \<and> \<not> is_ok r"
      then show ?thesis using f1 f2 s2 by auto
    next
      assume w3: "w' = w3 \<and> (r = r3 \<or> \<not> is_ok r)"
      have "took tt n (w_rd w) (w_rd w3) \<or> same_stock (w_rd w) (w_rd w3)"
        using any3 s2 same_stock_took same_stock_trans by blast
      moreover have "if dr_Accepted d then took tt n (w_rd w) (w_rd w3) else same_stock (w_rd w) (w_rd w3)"
        if "r3 = Inr d" for d
        using answered [of tt n w2 d w3] c3 that s2 same_stock_took same_stock_trans by (auto split: if_splits)
      ultimately show ?thesis using w3 f1 f2 f3 by auto
    qed
  qed
qed

end

lemma repaired_error:
  assumes run: "with_repair miss m1 m2 deduct (SetMetadata_of X ttl t) w = (Inl e, w')"
  shows "\<exists>m x. e = Wrap m x \<and> m \<in> {m1, m2, ''redis runtime metadata still missing after repair'',
    ''BookTicket lookup ticket_type_id'', ''BookTicket repair metadata''}"
proof -
  have repair: "\<exists>m x. y = Wrap m x \<and> m \<in> {''BookTicket lookup ticket_type_id'', ''BookTicket repair metadata''}"
    if "SetMetadata_of X ttl t v = (Inl y, v')" for v y v'
    using that by (auto simp: SetMetadata_of_def split: prod.splits sum.splits)
  obtain r1 w1 where c1: "deduct w = (r1, w1)" by (cases "deduct w")
  obtain r2 w2 where c2: "SetMetadata_of X ttl t w1 = (r2, w2)" by (cases "SetMetadata_of X ttl t w1")
  obtain r3 w3 where c3: "deduct w2 = (r3, w3)" by (cases "deduct w2")
  from run c1 c2 c3 repair [of w1 _ w2] show ?thesis
    by (cases r1; cases r2; cases r3) (auto simp: with_repair_def split: if_splits)
qed

text \<open>The four ways a stage-4 booking ends.\<close>

lemma BookTicket_cases:
  assumes run: "BookTicket X window ttl user tt qty w = (r, w')"
  obtains (rejected) e where "r = Inl e" "e \<noteq> Sentinel ErrSoldOut" "w_rd w' = w_rd w" "w_pg w' = w_pg w"
  | (gate_error) e where "r = Inl e" "e \<noteq> Sentinel ErrSoldOut" "w_pg w' = w_pg w"
      "took tt qty (w_rd w) (w_rd w') \<or> same_stock (w_rd w) (w_rd w')"
  | (refused) "r = Inl (Sentinel ErrSoldOut)" "w_pg w' = w_pg w" "same_stock (w_rd w) (w_rd w')"
  | (taken) oid and d :: deduct_result where "r = NewReservation X (w_now w) oid user (dr_EventID d) tt qty (w_now w + window)
        (dr_AmountCents d) (dr_Currency d)"
      "w_pg w' = w_pg w" "took tt qty (w_rd w) (w_rd w')"
proof -
  obtain u w1 where u: "uuid_NewV7 w = (u, w1)" by (cases "uuid_NewV7 w")
  note f1 = uuid_NewV7_frame [OF u]
  let ?until = "w_now w1 + window"
  show thesis
  proof (cases "u = None \<or> user \<le> 0 \<or> tt = uuid_Nil \<or> qty \<le> 0 \<or> ?until = 0 \<or> \<not> ?until > w_now w1")
    case True
    then have "\<exists>e. r = Inl e \<and> e \<noteq> Sentinel ErrSoldOut \<and> w' = w1"
      using run u by (cases u) (auto simp: BookTicket_def Let_def split: if_splits)
    with f1 show ?thesis by (auto intro: rejected)
  next
    case False
    then obtain oid where oid: "u = Some oid" by auto
    obtain rg w2 where g: "with_repair (\<lambda>e. e = Sentinel ErrTicketTypeRuntimeMetadataMissing)
        ''redis inventory error'' ''redis inventory error''
        (DeductInventory X oid tt user qty ?until) (SetMetadata_of X ttl tt) w1 = (rg, w2)"
      by (metis surj_pair)
    note gate = deduct4.repaired [OF g, simplified]
    show ?thesis
    proof (cases rg)
      case (Inl e)
      then have "r = Inl e" "w' = w2" using run u oid False g by (simp_all add: BookTicket_def Let_def)
      moreover have "e \<noteq> Sentinel ErrSoldOut" using repaired_error g Inl by blast
      ultimately show ?thesis using gate f1 by (intro gate_error [of e]) auto
    next
      case (Inr d)
      with run u oid False g have r: "w' = w2" "r = (if \<not> dr_Accepted d then Inl (Sentinel ErrSoldOut)
          else NewReservation X (w_now w2) oid user (dr_EventID d) tt qty ?until (dr_AmountCents d) (dr_Currency d))"
        by (auto simp: BookTicket_def Let_def split: if_splits)
      show ?thesis
      proof (cases "dr_Accepted d")
        case True
        with r gate f1 Inr show ?thesis by (intro taken [of oid d]) auto
      next
        case False
        with r gate f1 Inr show ?thesis by (intro refused) auto
      qed
    qed
  qed
qed

text \<open>How a stage-5 booking ends: nothing published, published, or the publication failed and the tickets
  were offered back.\<close>

definition intake_of :: "order \<Rightarrow> deduct_result \<Rightarrow> intake_message" where
  "intake_of o' d = \<lparr>im_OrderID = id_of o', im_UserID = userID o', im_EventID = eventID o',
     im_TicketTypeID = ticketTypeID o', im_Quantity = quantity o', im_ReservedUntil = Unix_of (reservedUntil o'),
     im_AmountCents = amountCents o', im_Currency = dr_Currency d\<rparr>"

lemma PublishIntake_outcome:
  assumes "PublishIntake msg w = (r, w')"
  shows "w_pg w' = w_pg w \<and> w_rd w' = w_rd w \<and> w_now w' = w_now w \<and> w_metrics w' = w_metrics w \<and>
    (r = Inr () \<longrightarrow> w_intake w' = w_intake w @ [msg]) \<and>
    (w_intake w' = w_intake w \<or> w_intake w' = w_intake w @ [msg])"
  using assms
  by (auto simp: PublishIntake_def split: prod.splits fault.splits if_splits dest!: io_pair)

text \<open>What an error of the gate is wrapped in, after its reply was lost or refused.\<close>

definition gate_errors :: "string list" where
  "gate_errors = [''redis inventory error'', ''redis inventory error after repair'',
     ''redis runtime metadata still missing after repair'', ''BookTicket lookup ticket_type_id'',
     ''BookTicket repair metadata'']"

lemma deductWithMetadataRepair_metrics:
  assumes "deductWithMetadataRepair X ttl tt qty w = (r, w')"
  shows "w_metrics w' = w_metrics w"
proof -
  have D: "w_metrics b = w_metrics a" if "DeductInventoryNoStream X tt qty a = (x, b)" for a x b
    using that by (auto simp: DeductInventoryNoStream_def split: prod.splits sum.splits dest!: redis_call_frame)
  have G: "w_metrics b = w_metrics a" if "ticketTypeRepo_GetByID X tt a = (x, b)" for a x b
    using that by (auto simp: ticketTypeRepo_GetByID_def split: prod.splits sum.splits option.splits dest!: sql_query_frame)
  have S: "w_metrics b = w_metrics a" if "SetTicketTypeMetadata X ttl t a = (x, b)" for a x b t
    using that by (auto simp: SetTicketTypeMetadata_def split: prod.splits sum.splits dest!: redis_call_frame)
  have M: "w_metrics b = w_metrics a" if "SetMetadata_of X ttl tt a = (x, b)" for a x b
    using that by (auto simp: SetMetadata_of_def split: prod.splits sum.splits dest!: G S)
  show ?thesis using assms
    by (auto simp: deductWithMetadataRepair_def with_repair_def split: prod.splits sum.splits if_splits dest!: D M)
qed

lemma BookTicket5_cases:
  assumes run: "BookTicket5 X window ttl user tt qty w = (r, w')"
  obtains (unpublished) e where "r = Inl e" "\<And>x. e \<noteq> Wrap ''(reverted)'' x" "w_intake w' = w_intake w"
      "w_pg w' = w_pg w" "took tt qty (w_rd w) (w_rd w') \<or> same_stock (w_rd w) (w_rd w')"
      "\<And>x. e \<noteq> Wrap ''stage5 drift (publish+revert both failed)'' x"
      "w_metrics w' = w_metrics w" "(\<exists>m x. e = Wrap m x \<and> m \<in> set gate_errors) \<or> same_stock (w_rd w) (w_rd w')"
  | (published) oid us and d :: deduct_result where "w_uuids w = Some oid # us"
      "r = NewReservation X (w_now w) oid user (dr_EventID d) tt qty (w_now w + window)
        (dr_AmountCents d) (dr_Currency d)"
      "w_pg w' = w_pg w" "took tt qty (w_rd w) (w_rd w')"
      "w_intake w' = w_intake w @ [\<lparr>im_OrderID = oid, im_UserID = user, im_EventID = dr_EventID d,
         im_TicketTypeID = tt, im_Quantity = qty, im_ReservedUntil = Unix_of (w_now w + window),
         im_AmountCents = dr_AmountCents d, im_Currency = dr_Currency d\<rparr>]"
      "w_metrics w' = w_metrics w"
  | (publish_failed) oid us v rr where "w_uuids w = Some oid # us" "\<not> is_ok r"
      "took tt qty (w_rd w) (w_rd v)" "RevertInventory tt qty (uuid_String X oid) v = (rr, w'\<lparr>w_metrics := w_metrics v\<rparr>)"
      "(\<exists>x. r = Inl (Wrap ''(reverted)'' x)) \<longrightarrow> rr = Inr ()" "w_pg w' = w_pg w"
      "case rr of
         Inr _ \<Rightarrow> \<exists>x. r = Inl (Wrap ''(reverted)'' (Join [Sentinel ErrStage5PublishFailed, x])) \<and>
           w_metrics w' = w_metrics w @ [''publish_failure_reverted'']
       | Inl _ \<Rightarrow> \<exists>x. r = Inl (Wrap ''stage5 drift (publish+revert both failed)'' (Join [Sentinel ErrStage5PublishFailed, x])) \<and>
           w_metrics w' = w_metrics w @ [''publish_failure_drift'']"
proof -
  obtain u w1 where u: "uuid_NewV7 w = (u, w1)" by (cases "uuid_NewV7 w")
  note f1 = uuid_NewV7_frame [OF u]
  let ?until = "w_now w1 + window"
  show thesis
  proof (cases "u = None \<or> user \<le> 0 \<or> tt = uuid_Nil \<or> qty \<le> 0 \<or> ?until = 0 \<or> \<not> ?until > w_now w1")
    case True
    then have "\<exists>e. r = Inl e \<and> (\<forall>x. e \<noteq> Wrap ''(reverted)'' x \<and>
          e \<noteq> Wrap ''stage5 drift (publish+revert both failed)'' x) \<and> w' = w1"
      using run u by (cases u) (auto simp: BookTicket5_def Let_def split: if_splits)
    with f1 show ?thesis by (auto intro!: unpublished)
  next
    case False
    then obtain oid where oid: "u = Some oid" by auto
    obtain rg w2 where g: "deductWithMetadataRepair X ttl tt qty w1 = (rg, w2)" by (metis surj_pair)
    note gate = deduct5.repaired [OF g [unfolded deductWithMetadataRepair_def], simplified]
    have quiet: "w_metrics w2 = w_metrics w" using deductWithMetadataRepair_metrics [OF g] f1 by simp
    show ?thesis
    proof (cases "\<exists>d. rg = Inr d \<and> dr_Accepted d")
      case not_accepted: False
      have "\<exists>e. r = Inl e \<and> (\<forall>x. e \<noteq> Wrap ''(reverted)'' x \<and>
          e \<noteq> Wrap ''stage5 drift (publish+revert both failed)'' x) \<and> w' = w2 \<and>
          ((\<exists>m x. e = Wrap m x \<and> m \<in> set gate_errors) \<or> same_stock (w_rd w1) (w_rd w2))"
      proof (cases rg)
        case (Inl e)
        have G: "set gate_errors = {''redis inventory error'', ''redis inventory error after repair'',
            ''redis runtime metadata still missing after repair'', ''BookTicket lookup ticket_type_id'',
            ''BookTicket repair metadata''}"
          by (simp only: gate_errors_def list.set)
        obtain m x where e: "e = Wrap m x" "m \<in> set gate_errors"
          using repaired_error [OF g [unfolded deductWithMetadataRepair_def Inl], folded G] by blast
        have b: "(r, w') = (Inl e, w2)"
          by (rule trans [OF run [symmetric]], unfold BookTicket5_def u oid prod.case option.case g Inl Let_def)
            (use False in auto)
        then have "r = Inl e" "w' = w2" by simp_all
        moreover have "\<forall>x. e \<noteq> Wrap ''(reverted)'' x \<and>
            e \<noteq> Wrap ''stage5 drift (publish+revert both failed)'' x" using e by (auto simp: gate_errors_def)
        ultimately show ?thesis using e by blast
      next
        case (Inr d)
        with not_accepted run u oid False g gate show ?thesis by (auto simp: BookTicket5_def Let_def)
      qed
      with gate f1 quiet show ?thesis by (auto intro!: unpublished)
    next
      case True
      then obtain d where d: "rg = Inr d" "dr_Accepted d" by blast
      define msg where "msg = \<lparr>im_OrderID = oid, im_UserID = user, im_EventID = dr_EventID d,
         im_TicketTypeID = tt, im_Quantity = qty, im_ReservedUntil = Unix_of ?until,
         im_AmountCents = dr_AmountCents d, im_Currency = dr_Currency d\<rparr>"
      have tk: "took tt qty (w_rd w) (w_rd w2)" using gate d f1 by auto
      obtain rp w3 where p: "PublishIntake msg w2 = (rp, w3)" by (cases "PublishIntake msg w2")
      note fp = PublishIntake_outcome [OF p]
      have uuids: "w_uuids w = Some oid # w_uuids w1"
        using u oid by (auto simp: uuid_NewV7_def split: list.splits)
      have body: "(case rp of Inl pe \<Rightarrow> (case RevertInventory tt qty (uuid_String X oid) w3 of
              (Inl re, w4) \<Rightarrow>
                (Inl (Wrap ''stage5 drift (publish+revert both failed)''
                   (Join [Sentinel ErrStage5PublishFailed, Join [pe, re]])), metric ''publish_failure_drift'' w4)
            | (Inr _, w4) \<Rightarrow>
                (Inl (Wrap ''(reverted)'' (Join [Sentinel ErrStage5PublishFailed, pe])),
                 metric ''publish_failure_reverted'' w4))
          | Inr _ \<Rightarrow> (NewReservation X (w_now w3) oid user (dr_EventID d) tt qty ?until (dr_AmountCents d)
                (dr_Currency d), w3)) = (r, w')"
        using run u oid False g d p by (cases rp) (auto simp: BookTicket5_def Let_def msg_def)
      show ?thesis
      proof (cases rp)
        case (Inr x)
        with body fp gate f1 tk uuids quiet show ?thesis by (intro published [of oid "w_uuids w1" d]) (auto simp: msg_def)
      next
        case (Inl pe)
        obtain rr w4 where rv: "RevertInventory tt qty (uuid_String X oid) w3 = (rr, w4)"
          by (cases "RevertInventory tt qty (uuid_String X oid) w3")
        have w4: "w4 = w'\<lparr>w_metrics := w_metrics w3\<rparr> \<and> w_metrics w4 = w_metrics w"
        proof -
          obtain y v where c: "redis_call (revert_lua tt qty (uuid_String X oid)) w3 = (y, v)"
            by (cases "redis_call (revert_lua tt qty (uuid_String X oid)) w3")
          then have "w_metrics w4 = w_metrics w3"
            using redis_call_frame [OF c] rv by (auto simp: RevertInventory_def split: sum.splits)
          then show ?thesis using body Inl rv fp quiet by (cases rr) (auto simp: metric_def)
        qed
        have how: "case rr of
         Inr _ \<Rightarrow> \<exists>x. r = Inl (Wrap ''(reverted)'' (Join [Sentinel ErrStage5PublishFailed, x])) \<and>
           w_metrics w' = w_metrics w @ [''publish_failure_reverted'']
       | Inl _ \<Rightarrow> \<exists>x. r = Inl (Wrap ''stage5 drift (publish+revert both failed)'' (Join [Sentinel ErrStage5PublishFailed, x])) \<and>
           w_metrics w' = w_metrics w @ [''publish_failure_drift'']"
        proof -
          have "w_metrics (metric k w4) = w_metrics w @ [k]" for k using conjunct2 [OF w4] by (simp add: metric_def)
          with body Inl rv show ?thesis by (cases rr) auto
        qed
        show ?thesis using uuids body Inl rv tk fp gate f1 w4 how RevertInventory_frame [OF rv]
          by (intro publish_failed [of oid "w_uuids w1" w3 rr]) (cases rr; auto)+
      qed
    qed
  qed
qed

section \<open>Properties\<close>

text \<open>The stage-4 booking answer is true. A returned order is a valid reservation for what was asked, and
  exactly its quantity was taken from a sufficient stock; an error took the quantity at most
  once, \<open>ErrSoldOut\<close> took nothing; the database is never written on this path.\<close>

lemma BookTicket_outcome:
  assumes run: "BookTicket X window ttl user tt qty w = (r, w')"
  shows "w_pg w' = w_pg w \<and> (took tt qty (w_rd w) (w_rd w') \<or> same_stock (w_rd w) (w_rd w')) \<and>
    (case r of
       Inr o' \<Rightarrow> took tt qty (w_rd w) (w_rd w') \<and> valid_reservation o' \<and> userID o' = user \<and>
         ticketTypeID o' = tt \<and> quantity o' = qty \<and> reservedUntil o' = w_now w + window
     | Inl e \<Rightarrow> e = Sentinel ErrSoldOut \<longrightarrow> same_stock (w_rd w) (w_rd w'))"
  using run
proof (cases rule: BookTicket_cases)
  case (taken oid d)
  show ?thesis
  proof (cases r)
    case (Inl e)
    with taken have "IsMalformedOrderInput e" using NewReservation_Inl by metis
    with Inl taken show ?thesis by auto
  next
    case (Inr o')
    with taken(1) have "NewReservation X (w_now w) oid user (dr_EventID d) tt qty (w_now w + window)
        (dr_AmountCents d) (dr_Currency d) = Inr o'" by simp
    from NewReservation_Inr [OF this] show ?thesis using Inr taken(2,3) by simp
  qed
qed auto


text \<open>An ambiguous publication sells the same tickets twice. When the broker appended the intake
  message but its reply was lost, the service gives the tickets back although the message stays
  in the topic; and the key it reverts under is not the one of the saga compensator, so the
  failure of that order would give the tickets back once more.\<close>

theorem stage5_unacked_publish_oversells:
  assumes uuid: "w_uuids w = Some oid # us" "oid \<noteq> uuid_Nil"
    and input: "0 < user" "tt \<noteq> uuid_Nil" "0 < qty" "0 < window" "0 \<le> w_now w"
    and gate: "DeductInventoryNoStream X tt qty (w\<lparr>w_uuids := us\<rparr>) = (Inr d, w2)" "dr_Accepted d"
    and faults: "w_faults w2 = [Unacked]"
    and fresh: "\<not> reverted (w_rd w) (uuid_String X oid)" "\<not> reverted (w_rd w) (''order:'' @ uuid_String X oid)"
  shows "\<exists>x w' msg. BookTicket5 X window ttl user tt qty w = (Inl (Wrap ''(reverted)'' x), w') \<and>
    w_intake w' = w_intake w @ [msg] \<and> im_OrderID msg = oid \<and> im_Quantity msg = qty \<and>
    stock (w_rd w') = stock (w_rd w) \<and> \<not> reverted (w_rd w') (''order:'' @ uuid_String X oid)"
proof -
  have u: "uuid_NewV7 w = (Some oid, w\<lparr>w_uuids := us\<rparr>)" using uuid by (simp add: uuid_NewV7_def)
  define msg where "msg = \<lparr>im_OrderID = oid, im_UserID = user, im_EventID = dr_EventID d,
     im_TicketTypeID = tt, im_Quantity = qty, im_ReservedUntil = Unix_of (w_now w + window),
     im_AmountCents = dr_AmountCents d, im_Currency = dr_Currency d\<rparr>"
  let ?w3 = "w2\<lparr>w_faults := [], w_intake := w_intake w2 @ [msg]\<rparr>"
  have p: "PublishIntake msg w2 = (Inl (Wrap ''intake publisher: write'' (Sentinel BrokerUnavailable)), ?w3)"
    using faults uuid by (simp add: PublishIntake_def io_def msg_def)
  have tk: "took tt qty (w_rd w) (w_rd w2)" and fr: "w_intake w2 = w_intake w"
    using deduct5.answered [OF gate(1)] deduct5.frame [OF gate(1)] gate(2) by simp_all
  obtain k r1 where k: "revert_lua tt qty (uuid_String X oid) (w_rd w2) = (k, r1)"
    by (cases "revert_lua tt qty (uuid_String X oid) (w_rd w2)")
  then have rv: "RevertInventory tt qty (uuid_String X oid) ?w3 = (Inr (), ?w3\<lparr>w_rd := r1\<rparr>)"
    by (simp add: RevertInventory_def redis_call_Works)
  have g: "gave tt qty (uuid_String X oid) (w_rd w2) r1"
    using revert_lua_gave [OF k] fresh(1) tk by (simp add: took_def)
  have "BookTicket5 X window ttl user tt qty w = (Inl (Wrap ''(reverted)'' (Join [Sentinel ErrStage5PublishFailed,
      Wrap ''intake publisher: write'' (Sentinel BrokerUnavailable)])), metric ''publish_failure_reverted'' (?w3\<lparr>w_rd := r1\<rparr>))"
    using u input gate p rv unfolding msg_def
    by (simp add: BookTicket5_def deductWithMetadataRepair_def with_repair_def Let_def)
  moreover have "\<not> reverted r1 (''order:'' @ uuid_String X oid)" using g tk fresh(2) by (auto simp: gave_def took_def)
  ultimately show ?thesis using took_gave [OF tk g] fr by (auto simp: msg_def)
qed

lemma demo_quote:
  "\<exists>res r'. deduct_no_xadd_lua plain_ext 5 3 demo_redis = (res, r') \<and>
    parse_deduct_result plain_ext res =
      Inr \<lparr>dr_Accepted = True, dr_EventID = 3, dr_AmountCents = 750, dr_Currency = ''usd''\<rparr>"
proof -
  obtain res r' where run: "deduct_no_xadd_lua plain_ext (tt_id demo_tt) 3 demo_redis = (res, r')"
    by (metis surj_pair)
  have "0 < tt_priceCents demo_tt" "(0::int) < 3" "tt_id demo_tt = 5" by (simp_all add: demo_tt_def)
  with exact_quote [OF plain_ext_laws(1,2) demo_redis_quoted this(1,2) run] run demo_redis_stock
  show ?thesis by (simp add: demo_tt_def)
qed


lemma stage5_unacked_publish_oversells_witness:
  "\<exists>x w' msg. BookTicket5 plain_ext 900 100 7 5 3
      (empty_world\<lparr>w_uuids := [Some 9], w_rd := demo_redis, w_faults := [Works, Unacked]\<rparr>) =
      (Inl (Wrap ''(reverted)'' x), w') \<and> w_intake w' = [msg] \<and> im_Quantity msg = 3 \<and>
    stock (w_rd w') = stock demo_redis"
proof -
  let ?w = "empty_world\<lparr>w_uuids := [Some 9], w_rd := demo_redis, w_faults := [Works, Unacked]\<rparr>"
  let ?d = "\<lparr>dr_Accepted = True, dr_EventID = 3, dr_AmountCents = 750, dr_Currency = ''usd''\<rparr>"
  obtain w2 where gate: "DeductInventoryNoStream plain_ext 5 3 (?w\<lparr>w_uuids := []\<rparr>) = (Inr ?d, w2)" "w_faults w2 = [Unacked]"
    using demo_quote by (force simp: DeductInventoryNoStream_def redis_call_def io_def)
  have "\<exists>x w' msg. BookTicket5 plain_ext 900 100 7 5 3 ?w = (Inl (Wrap ''(reverted)'' x), w') \<and>
    w_intake w' = w_intake ?w @ [msg] \<and> im_OrderID msg = 9 \<and> im_Quantity msg = 3 \<and>
    stock (w_rd w') = stock (w_rd ?w) \<and> \<not> reverted (w_rd w') (''order:'' @ uuid_String plain_ext 9)"
    by (rule stage5_unacked_publish_oversells [OF _ _ _ _ _ _ _ gate(1) _ gate(2)])
      (simp_all add: demo_redis_stock, simp_all add: empty_world_def)
  moreover have "w_intake ?w = []" "w_rd ?w = demo_redis" by (simp_all add: empty_world_def)
  ultimately show ?thesis by (metis append_Nil)
qed

end
