(* ===== verification/Booking_Sync.thy ===== *)
theory Booking_Sync
  imports Booking
begin

text \<open>
  The synchronous booking services: stage 1 (\<open>booking/sync/service.go\<close>, one PostgreSQL transaction
  under a row lock) and stage 2 (\<open>booking/synclua/service.go\<close>, the Redis gate and a direct insert
  with a compensating revert).
\<close>

section \<open>Stage 1: one transaction\<close>

text \<open>The row lock makes the read and the update of the counter one step for other transactions.\<close>

definition sync_tx :: "ext \<Rightarrow> duration \<Rightarrow> uuid \<Rightarrow> int \<Rightarrow> uuid \<Rightarrow> int \<Rightarrow> world \<Rightarrow> (err + order) \<times> world" where
  "sync_tx X window oid user tt qty w =
    (case sql_query (\<lambda>p. lookup tr_id tt (pg_types p)) w of
       (Inl e, w1) \<Rightarrow> (Inl (Wrap ''select for update ticket_type'' e), w1)
     | (Inr None, w1) \<Rightarrow> (Inl (Sentinel ErrTicketTypeNotFound), w1)
     | (Inr (Some t), w1) \<Rightarrow>
        if tr_available t < qty then (Inl (Sentinel ErrSoldOut), w1)
        else case sql_exec (\<lambda>p. Inr (count_where (\<lambda>r. tr_id r = tt) (pg_types p),
               p\<lparr>pg_types := update_where (\<lambda>r. tr_id r = tt)
                  (\<lambda>r. r\<lparr>tr_available := tr_available r - qty, tr_version := tr_version r + 1\<rparr>) (pg_types p)\<rparr>)) w1 of
          (Inl e, w2) \<Rightarrow> (Inl (Wrap ''decrement available_tickets'' e), w2)
        | (Inr _, w2) \<Rightarrow>
           (case NewReservation X (w_now w2) oid user (tr_event t) tt qty (w_now w2 + window)
               (wrap64 (tr_price t * qty)) (tr_cur t) of
              Inl e \<Rightarrow> (Inl (Wrap ''construct reservation'' e), w2)
            | Inr o' \<Rightarrow>
               (case sql_exec (sql_insert_order (orderRowFromDomain (pg_now (w_pg w2)) o')) w2 of
                  (Inl e, w3) \<Rightarrow>
                    (if errors_Is e PgUniqueViolation then (Inl (Sentinel ErrUserAlreadyBought), w3)
                     else (Inl (Wrap ''insert order'' e), w3))
                | (Inr _, w3) \<Rightarrow> (Inr o', w3))))"

definition sync_Do :: "(world \<Rightarrow> (err + 'a) \<times> world) \<Rightarrow> world \<Rightarrow> (err + 'a) \<times> world" where
  "sync_Do = db_tx ''begin tx'' ''commit booking tx'' (\<lambda>w. w)"

interpretation sync_uow: unit_of_work sync_Do w_pg
  unfolding sync_Do_def by (rule db_tx_is_unit_of_work)

definition sync_BookTicket :: "ext \<Rightarrow> duration \<Rightarrow> int \<Rightarrow> uuid \<Rightarrow> int \<Rightarrow> world \<Rightarrow> (err + order) \<times> world" where
  "sync_BookTicket X window user tt qty w =
    (if user \<le> 0 then (Inl (Sentinel ErrInvalidUserID), w)
     else if tt = uuid_Nil then (Inl (Sentinel ErrInvalidOrderTicketTypeID), w)
     else if qty \<le> 0 then (Inl (Sentinel ErrInvalidQuantity), w)
     else case uuid_NewV7 w of
       (None, w1) \<Rightarrow> (Inl (Wrap ''mint order id'' (Plain ''uuid'')), w1)
     | (Some oid, w1) \<Rightarrow> sync_Do (sync_tx X window oid user tt qty) w1)"

section \<open>Stage 2: gate and direct insert\<close>

definition synclua_insertOrder :: "order \<Rightarrow> world \<Rightarrow> (err + unit) \<times> world" where
  "synclua_insertOrder o' w =
    (case sql_exec (sql_insert_order (orderRowFromDomain (pg_now (w_pg w)) o')) w of
       (Inl e, w1) \<Rightarrow>
         (if errors_Is e PgUniqueViolation then (Inl (Sentinel ErrUserAlreadyBought), w1)
          else (Inl (Wrap ''insert order'' e), w1))
     | (Inr _, w1) \<Rightarrow> (Inr (), w1))"

definition revertAfterFailure :: "ext \<Rightarrow> uuid \<Rightarrow> int \<Rightarrow> uuid \<Rightarrow> world \<Rightarrow> (err + unit) \<times> world" where
  "revertAfterFailure X tt qty oid = RevertInventory tt qty (''order:'' @ uuid_String X oid)"

definition synclua_deduct :: "ext \<Rightarrow> duration \<Rightarrow> uuid \<Rightarrow> int \<Rightarrow> world \<Rightarrow> (err + deduct_result) \<times> world" where
  "synclua_deduct X ttl tt qty =
     with_repair (\<lambda>e. errors_Is e ErrTicketTypeRuntimeMetadataMissing) ''redis deduct'' ''redis deduct''
       (SyncDeducter_Deduct X tt qty) (SetMetadata_of X ttl tt)"

definition synclua_BookTicket ::
    "ext \<Rightarrow> duration \<Rightarrow> duration \<Rightarrow> int \<Rightarrow> uuid \<Rightarrow> int \<Rightarrow> world \<Rightarrow> (err + order) \<times> world" where
  "synclua_BookTicket X window ttl user tt qty w =
    (if user \<le> 0 then (Inl (Sentinel ErrInvalidUserID), w)
     else if tt = uuid_Nil then (Inl (Sentinel ErrInvalidOrderTicketTypeID), w)
     else if qty \<le> 0 then (Inl (Sentinel ErrInvalidQuantity), w)
     else case uuid_NewV7 w of
       (None, w1) \<Rightarrow> (Inl (Wrap ''mint order id'' (Plain ''uuid'')), w1)
     | (Some oid, w1) \<Rightarrow>
        let until = w_now w1 + window in
        case synclua_deduct X ttl tt qty w1 of
          (Inl e, w2) \<Rightarrow> (Inl e, w2)
        | (Inr res, w2) \<Rightarrow>
           if \<not> dr_Accepted res then (Inl (Sentinel ErrSoldOut), w2)
           else case NewReservation X (w_now w2) oid user (dr_EventID res) tt qty until
                  (dr_AmountCents res) (dr_Currency res) of
             Inl e \<Rightarrow> (case revertAfterFailure X tt qty oid w2 of
                (Inl re, w3) \<Rightarrow> (Inl (Wrap ''redis revert failed after construct reservation'' re), w3)
              | (Inr _, w3) \<Rightarrow> (Inl (Wrap ''construct reservation'' e), w3))
           | Inr o' \<Rightarrow> (case synclua_insertOrder o' w2 of
                (Inl e, w3) \<Rightarrow> (case revertAfterFailure X tt qty oid w3 of
                   (Inl re, w4) \<Rightarrow> (Inl (Wrap ''redis revert failed after insert order'' re), w4)
                 | (Inr _, w4) \<Rightarrow> (Inl e, w4))
              | (Inr _, w3) \<Rightarrow> (Inr o', w3)))"

section \<open>Stage 1 keeps the books\<close>

lemma db_tx_error:
  "db_tx b c rb body w = (Inl e, w') \<Longrightarrow> w_pg w' = w_pg w \<or> e = Wrap c (Sentinel DbUnavailable)"
  by (auto simp: db_tx_def split: prod.splits fault.splits sum.splits if_splits dest!: io_pair)

lemma sync_tx_outcome:
  assumes run: "sync_tx X window oid user tt qty w = (Inr o', w')"
  obtains t now p1 n where "lookup tr_id tt (pg_types (w_pg w)) = Some t" "qty \<le> tr_available t"
    "NewReservation X now oid user (tr_event t) tt qty (now + window) (wrap64 (tr_price t * qty)) (tr_cur t) = Inr o'"
    "p1 = (w_pg w)\<lparr>pg_types := update_where (\<lambda>r. tr_id r = tt)
        (\<lambda>r. r\<lparr>tr_available := tr_available r - qty, tr_version := tr_version r + 1\<rparr>) (pg_types (w_pg w))\<rparr>"
    "sql_insert_order (orderRowFromDomain (pg_now (w_pg w)) o') p1 = Inr (n, w_pg w')"
proof -
  obtain rq w1 where q: "sql_query (\<lambda>p. lookup tr_id tt (pg_types p)) w = (rq, w1)"
    by (cases "sql_query (\<lambda>p. lookup tr_id tt (pg_types p)) w")
  from run q obtain t where t: "rq = Inr (Some t)" "qty \<le> tr_available t"
    by (auto simp: sync_tx_def split: sum.splits option.splits if_splits)
  note fr = sql_query_frame [OF q]
  have row: "lookup tr_id tt (pg_types (w_pg w)) = Some t" using sql_query_result [OF q [unfolded t(1)]] by simp
  let ?upd = "\<lambda>p. Inr (count_where (\<lambda>r. tr_id r = tt) (pg_types p),
               p\<lparr>pg_types := update_where (\<lambda>r. tr_id r = tt)
                  (\<lambda>r. r\<lparr>tr_available := tr_available r - qty, tr_version := tr_version r + 1\<rparr>) (pg_types p)\<rparr>)"
  obtain ru w2 where u: "sql_exec ?upd w1 = (ru, w2)" by (cases "sql_exec ?upd w1")
  from run q t u obtain k where k: "ru = Inr k" by (auto simp: sync_tx_def split: sum.splits)
  have pg2: "w_pg w2 = (w_pg w)\<lparr>pg_types := update_where (\<lambda>r. tr_id r = tt)
        (\<lambda>r. r\<lparr>tr_available := tr_available r - qty, tr_version := tr_version r + 1\<rparr>) (pg_types (w_pg w))\<rparr>"
    using sql_exec_Inr [OF u [unfolded k]] fr by auto
  let ?N = "NewReservation X (w_now w2) oid user (tr_event t) tt qty (w_now w2 + window)
               (wrap64 (tr_price t * qty)) (tr_cur t)"
  have N: "?N = Inr o'" and ins: "\<exists>n. sql_exec (sql_insert_order (orderRowFromDomain (pg_now (w_pg w2)) o')) w2 = (Inr n, w')"
    using run q t u k by (auto simp: sync_tx_def split: sum.splits prod.splits if_splits)
  from ins obtain n where "sql_insert_order (orderRowFromDomain (pg_now (w_pg w2)) o') (w_pg w2) = Inr (n, w_pg w')"
    using sql_exec_Inr by blast
  with row t N pg2 show thesis using that by simp
qed


lemma sync_order_fields:
  assumes "NewReservation X now oid user ev tt qty until amount cur = Inr o'"
  shows "id_of o' = oid \<and> userID o' = user \<and> eventID o' = ev \<and> ticketTypeID o' = tt \<and> quantity o' = qty \<and>
    amountCents o' = amount \<and> status o' = AwaitingPayment \<and> 0 < qty \<and> tt \<noteq> uuid_Nil \<and> 0 < amount"
  using assms by (auto simp: NewReservation_def Let_def split: if_splits)

text \<open>What a committed stage-1 booking leaves in the database.\<close>

definition sync_booked :: "uuid \<Rightarrow> int \<Rightarrow> int \<Rightarrow> order \<Rightarrow> pg \<Rightarrow> pg \<Rightarrow> bool" where
  "sync_booked tt user qty o' p p' \<longleftrightarrow> (\<exists>t. lookup tr_id tt (pg_types p) = Some t \<and> 0 < qty \<and> qty \<le> tr_available t \<and>
     lookup tr_id tt (pg_types p') = Some (t\<lparr>tr_available := tr_available t - qty, tr_version := tr_version t + 1\<rparr>) \<and>
     lookup or_id (id_of o') (pg_orders p) = None \<and> pg_orders p' = pg_orders p @ [orderRowFromDomain (pg_now p) o'] \<and>
     userID o' = user \<and> ticketTypeID o' = tt \<and> quantity o' = qty \<and> eventID o' = tr_event t \<and>
     status o' = AwaitingPayment \<and> amountCents o' = wrap64 (tr_price t * qty) \<and> 0 < amountCents o')"

lemma sync_tx_booked:
  assumes run: "sync_tx X window oid user tt qty w = (Inr o', w')" and wf: "db_ok (w_pg w)"
  shows "sync_booked tt user qty o' (w_pg w) (w_pg w') \<and> db_ok (w_pg w')"
proof -
  from run obtain t now p1 n where t: "lookup tr_id tt (pg_types (w_pg w)) = Some t" "qty \<le> tr_available t"
    and N: "NewReservation X now oid user (tr_event t) tt qty (now + window) (wrap64 (tr_price t * qty)) (tr_cur t) = Inr o'"
    and p1: "p1 = (w_pg w)\<lparr>pg_types := update_where (\<lambda>r. tr_id r = tt)
        (\<lambda>r. r\<lparr>tr_available := tr_available r - qty, tr_version := tr_version r + 1\<rparr>) (pg_types (w_pg w))\<rparr>"
    and ins: "sql_insert_order (orderRowFromDomain (pg_now (w_pg w)) o') p1 = Inr (n, w_pg w')"
    by (rule sync_tx_outcome)
  note f = sync_order_fields [OF N]
  have ttid: "tr_id t = tt" using lookup_in_set [OF t(1)] by simp
  have pg': "w_pg w' = p1\<lparr>pg_orders := pg_orders (w_pg w) @ [orderRowFromDomain (pg_now (w_pg w)) o']\<rparr>"
    and new: "lookup or_id (id_of o') (pg_orders (w_pg w)) = None"
    using ins by (auto simp: sql_insert_order_def p1 split: if_splits)
  have "db_ok (w_pg w')"
    by (rule take_and_insert_db_ok [OF wf t _ _ _ ins [unfolded p1]])
      (use f ttid in \<open>auto simp: orderRowFromDomain_def\<close>)
  moreover have "lookup tr_id tt (pg_types (w_pg w')) =
      Some (t\<lparr>tr_available := tr_available t - qty, tr_version := tr_version t + 1\<rparr>)"
    using t(1) lookup_other_key [of tr_id "\<lambda>r. r\<lparr>tr_available := tr_available r - qty, tr_version := tr_version r + 1\<rparr>"
        tt tt "\<lambda>_. True" "pg_types (w_pg w)"]
    by (simp add: pg' p1)
  ultimately show ?thesis using f t new by (auto simp: sync_booked_def pg' p1)
qed

text \<open>A stage-1 booking is one transaction. It keeps the schema and the books; an order is returned
  only with its tickets taken from the locked row and its row inserted; an error other than a
  lost commit reply changes nothing. The amount is price times quantity in 64-bit arithmetic,
  without an overflow check.\<close>

theorem sync_booking_is_atomic:
  assumes run: "sync_BookTicket X window user tt qty w = (r, w')" and wf: "db_ok (w_pg w)"
  shows "db_ok (w_pg w') \<and> (w_pg w' = w_pg w \<or> (\<exists>o'. sync_booked tt user qty o' (w_pg w) (w_pg w'))) \<and>
    (case r of Inr o' \<Rightarrow> sync_booked tt user qty o' (w_pg w) (w_pg w')
     | Inl e \<Rightarrow> w_pg w' = w_pg w \<or> e = Wrap ''commit booking tx'' (Sentinel DbUnavailable))"
proof -
  obtain u w1 where u: "uuid_NewV7 w = (u, w1)" by (cases "uuid_NewV7 w")
  note f1 = uuid_NewV7_frame [OF u]
  show ?thesis
  proof (cases "user \<le> 0 \<or> tt = uuid_Nil \<or> qty \<le> 0 \<or> u = None")
    case True
    with run u f1 wf show ?thesis by (auto simp: sync_BookTicket_def split: if_splits)
  next
    case False
    then obtain oid where tx: "sync_Do (sync_tx X window oid user tt qty) w1 = (r, w')"
      using run u by (auto simp: sync_BookTicket_def)
    have B: "w_pg v = w_pg w1 \<Longrightarrow> sync_tx X window oid user tt qty v = (Inr o', v') \<Longrightarrow>
        sync_booked tt user qty o' (w_pg w) (w_pg v') \<and> db_ok (w_pg v')" for v o' v'
      using sync_tx_booked [of X window oid user tt qty v o' v'] f1 wf by simp
    have "db_ok (w_pg w')" using sync_uow.keeps [OF tx, of db_ok] f1 wf B by auto
    moreover have "w_pg w' = w_pg w1 \<or> (\<exists>o'. sync_booked tt user qty o' (w_pg w) (w_pg w'))"
      using sync_uow.atomic [OF tx] B by metis
    moreover have "sync_booked tt user qty o' (w_pg w) (w_pg w')" if "r = Inr o'" for o'
      using sync_uow.committed [OF tx [unfolded that]] B by metis
    moreover have "w_pg w' = w_pg w1 \<or> e = Wrap ''commit booking tx'' (Sentinel DbUnavailable)" if "r = Inl e" for e
      using db_tx_error [OF tx [unfolded that sync_Do_def]] .
    ultimately show ?thesis using f1 by (auto split: sum.splits)
  qed
qed

lemma sync_booking_is_atomic_witness:
  "db_ok (w_pg (snd (sync_BookTicket plain_ext 900 7 5 3 (demo_world\<lparr>w_uuids := [Some 9]\<rparr>))))"
proof -
  obtain r w' where run: "sync_BookTicket plain_ext 900 7 5 3 (demo_world\<lparr>w_uuids := [Some 9]\<rparr>) = (r, w')"
    by (metis surj_pair)
  from sync_booking_is_atomic [OF run] demo_world_ok run show ?thesis by simp
qed

section \<open>How a stage-2 booking ends\<close>

lemma synclua_insertOrder_outcome:
  assumes "synclua_insertOrder o' w = (r, w')"
  shows "w_rd w' = w_rd w \<and>
    (w_pg w' = w_pg w \<or> sql_insert_order (orderRowFromDomain (pg_now (w_pg w)) o') (w_pg w) = Inr (1, w_pg w')) \<and>
    (r = Inr () \<longrightarrow> sql_insert_order (orderRowFromDomain (pg_now (w_pg w)) o') (w_pg w) = Inr (1, w_pg w')) \<and>
    (r = Inl (Sentinel ErrUserAlreadyBought) \<longrightarrow> w_pg w' = w_pg w)"
proof -
  let ?st = "sql_insert_order (orderRowFromDomain (pg_now (w_pg w)) o')"
  obtain x w1 where e: "sql_exec ?st w = (x, w1)" by (cases "sql_exec ?st w")
  have one: "?st p = Inr (n, p') \<Longrightarrow> n = 1" for p n p' by (auto simp: sql_insert_order_def split: if_splits)
  have w': "w' = w1" and r: "r = (case x of Inl e \<Rightarrow> if errors_Is e PgUniqueViolation then Inl (Sentinel ErrUserAlreadyBought)
      else Inl (Wrap ''insert order'' e) | Inr _ \<Rightarrow> Inr ())"
    using assms e by (auto simp: synclua_insertOrder_def split: sum.splits if_splits)
  from e show ?thesis
  proof (cases rule: sql_exec_cases)
    case (untouched err)
    with r w' sql_exec_frame [OF e] show ?thesis by auto
  next
    case (ran n p)
    with r w' sql_exec_frame [OF e] one [OF ran(1)] show ?thesis by (auto split: if_splits)
  qed
qed

text \<open>How a stage-2 booking ends: before the gate took tickets, or after, with the insert tried or not.\<close>

lemma synclua_cases:
  assumes run: "synclua_BookTicket X window ttl user tt qty w = (r, w')"
  obtains (refused) e where "r = Inl e" "e \<noteq> Sentinel ErrUserAlreadyBought" "w_pg w' = w_pg w"
      "took tt qty (w_rd w) (w_rd w') \<or> same_stock (w_rd w) (w_rd w')"
  | (not_inserted) oid us m e rr v where "w_uuids w = Some oid # us" "r = Inl (Wrap m e)" "w_pg w' = w_pg w"
      "took tt qty (w_rd w) (w_rd v)" "revertAfterFailure X tt qty oid v = (rr, w')"
  | (inserted) oid us v o' and d :: deduct_result where "w_uuids w = Some oid # us" "w_pg v = w_pg w"
      "took tt qty (w_rd w) (w_rd v)"
      "NewReservation X (w_now w) oid user (dr_EventID d) tt qty (w_now w + window) (dr_AmountCents d) (dr_Currency d) = Inr o'"
      "synclua_insertOrder o' v = (Inr (), w')" "r = Inr o'"
  | (insert_failed) oid us v o' e u rr where "w_uuids w = Some oid # us" "w_pg v = w_pg w"
      "took tt qty (w_rd w) (w_rd v)" "synclua_insertOrder o' v = (Inl e, u)" "id_of o' = oid"
      "revertAfterFailure X tt qty oid u = (rr, w')"
      "r = (case rr of Inl re \<Rightarrow> Inl (Wrap ''redis revert failed after insert order'' re) | Inr _ \<Rightarrow> Inl e)"
proof -
  obtain u w1 where u: "uuid_NewV7 w = (u, w1)" by (cases "uuid_NewV7 w")
  note f1 = uuid_NewV7_frame [OF u]
  show thesis
  proof (cases "user \<le> 0 \<or> tt = uuid_Nil \<or> qty \<le> 0 \<or> u = None")
    case True
    then have "\<exists>e. r = Inl e \<and> e \<noteq> Sentinel ErrUserAlreadyBought \<and> (w' = w \<or> w' = w1)"
      using run u by (auto simp: synclua_BookTicket_def split: if_splits)
    with f1 show ?thesis by (auto intro!: refused)
  next
    case False
    then obtain oid where oid: "u = Some oid" by auto
    then have us: "w_uuids w = Some oid # w_uuids w1" using u by (auto simp: uuid_NewV7_def split: list.splits)
    obtain rg w2 where g: "synclua_deduct X ttl tt qty w1 = (rg, w2)" by (metis surj_pair)
    note gate = deduct_sync.repaired [OF g [unfolded synclua_deduct_def], simplified]
    show ?thesis
    proof (cases "\<exists>d. rg = Inr d \<and> dr_Accepted d")
      case not_accepted: False
      have "\<exists>e. r = Inl e \<and> e \<noteq> Sentinel ErrUserAlreadyBought \<and> w' = w2"
      proof (cases rg)
        case (Inl e)
        then have "r = Inl e" "w' = w2" using g run u oid False by (simp_all add: synclua_BookTicket_def Let_def)
        moreover obtain m x where "e = Wrap m x"
          using repaired_error [OF g [unfolded Inl synclua_deduct_def]] by blast
        ultimately show ?thesis by simp
      next
        case (Inr d)
        with not_accepted run u oid False g show ?thesis by (auto simp: synclua_BookTicket_def Let_def)
      qed
      with gate f1 show ?thesis by (auto intro!: refused)
    next
      case True
      then obtain d where d: "rg = Inr d" "dr_Accepted d" by blast
      have tk: "took tt qty (w_rd w) (w_rd w2)" and pg2: "w_pg w2 = w_pg w" and now2: "w_now w2 = w_now w"
        using gate d f1 by auto
      let ?N = "NewReservation X (w_now w) oid user (dr_EventID d) tt qty (w_now w + window) (dr_AmountCents d) (dr_Currency d)"
      have body: "(r, w') = (case ?N of
             Inl e \<Rightarrow> (case revertAfterFailure X tt qty oid w2 of
                (Inl re, w3) \<Rightarrow> (Inl (Wrap ''redis revert failed after construct reservation'' re), w3)
              | (Inr _, w3) \<Rightarrow> (Inl (Wrap ''construct reservation'' e), w3))
           | Inr o' \<Rightarrow> (case synclua_insertOrder o' w2 of
                (Inl e, w3) \<Rightarrow> (case revertAfterFailure X tt qty oid w3 of
                   (Inl re, w4) \<Rightarrow> (Inl (Wrap ''redis revert failed after insert order'' re), w4)
                 | (Inr _, w4) \<Rightarrow> (Inl e, w4))
              | (Inr _, w3) \<Rightarrow> (Inr o', w3)))"
        using run u oid False g d f1 now2 by (simp add: synclua_BookTicket_def Let_def)
      show ?thesis
      proof (cases ?N)
        case (Inl e)
        obtain x w3 where rv: "revertAfterFailure X tt qty oid w2 = (x, w3)" by (metis surj_pair)
        have pg3: "w_pg w3 = w_pg w" using RevertInventory_frame [OF rv [unfolded revertAfterFailure_def]] pg2 by simp
        show ?thesis by (cases x) (use body Inl rv pg3 tk us in \<open>auto intro: not_inserted\<close>)
      next
        case (Inr o')
        obtain ri w3 where ins: "synclua_insertOrder o' w2 = (ri, w3)" by (metis surj_pair)
        show ?thesis
        proof (cases ri)
          case (Inr a)
          with body \<open>?N = Inr o'\<close> ins tk pg2 us show ?thesis by (intro inserted) auto
        next
          case (Inl e)
          obtain rr w4 where rv: "revertAfterFailure X tt qty oid w3 = (rr, w4)" by (metis surj_pair)
          with body Inl ins \<open>?N = Inr o'\<close> have "w' = w4" "r = (case rr of Inl re \<Rightarrow> Inl (Wrap ''redis revert failed after insert order'' re) | Inr _ \<Rightarrow> Inl e)"
            by (auto split: sum.splits)
          with Inl ins tk pg2 us rv NewReservation_Inr [OF \<open>?N = Inr o'\<close>] show ?thesis by (intro insert_failed) auto
        qed
      qed
    qed
  qed
qed


text \<open>A stage-2 booking answer is true. The order is returned only with its tickets taken from the
  stock and its row inserted; the answer that the user already bought leaves stock and database
  as they were (for a fresh order id); at most the row of that one order is ever inserted.\<close>

theorem synclua_answer_is_true:
  assumes run: "synclua_BookTicket X window ttl user tt qty w = (r, w')"
    and uuid: "w_uuids w = Some oid # us" and fresh: "\<not> reverted (w_rd w) (''order:'' @ uuid_String X oid)"
  shows "(w_pg w' = w_pg w \<or> (\<exists>o'. sql_insert_order (orderRowFromDomain (pg_now (w_pg w)) o') (w_pg w) = Inr (1, w_pg w') \<and>
      id_of o' = oid)) \<and>
    (case r of
       Inr o' \<Rightarrow> took tt qty (w_rd w) (w_rd w') \<and> valid_reservation o' \<and> id_of o' = oid \<and> userID o' = user \<and>
         ticketTypeID o' = tt \<and> quantity o' = qty \<and> reservedUntil o' = w_now w + window \<and>
         sql_insert_order (orderRowFromDomain (pg_now (w_pg w)) o') (w_pg w) = Inr (1, w_pg w')
     | Inl e \<Rightarrow> e = Sentinel ErrUserAlreadyBought \<longrightarrow> w_pg w' = w_pg w \<and>
         (stock (w_rd w') = stock (w_rd w)))"
  using run
proof (cases rule: synclua_cases)
  case (inserted oid2 us2 v o' d)
  with synclua_insertOrder_outcome [OF inserted(5)] NewReservation_Inr [OF inserted(4)] uuid show ?thesis by auto
next
  case (insert_failed oid2 us2 v o' e u rr)
  note S = synclua_insertOrder_outcome [OF insert_failed(4)]
  have pg: "w_pg w' = w_pg u" using RevertInventory_frame insert_failed(6) by (simp add: revertAfterFailure_def)
  have "stock (w_rd w') = stock (w_rd w)" if "rr = Inr ()"
  proof -
    have "\<not> reverted (w_rd u) (''order:'' @ uuid_String X oid2)"
      using insert_failed(1,3) S uuid fresh by (simp add: took_def)
    then have "gave tt qty (''order:'' @ uuid_String X oid2) (w_rd v) (w_rd w')"
      using RevertInventory_outcome [OF insert_failed(6) [unfolded revertAfterFailure_def that]] S by simp
    with insert_failed(3) show ?thesis by (rule took_gave)
  qed
  with insert_failed S pg uuid show ?thesis by (cases rr) auto
qed auto

lemma synclua_answer_is_true_witness:
  "case synclua_BookTicket plain_ext 900 100 7 5 3 (demo_world\<lparr>w_uuids := [Some 9], w_rd := demo_redis\<rparr>) of
     (r, w') \<Rightarrow> (case r of Inr o' \<Rightarrow> took 5 3 demo_redis (w_rd w') | Inl _ \<Rightarrow> True)"
proof -
  let ?w = "demo_world\<lparr>w_uuids := [Some 9], w_rd := demo_redis\<rparr>"
  obtain r w' where run: "synclua_BookTicket plain_ext 900 100 7 5 3 ?w = (r, w')" by (metis surj_pair)
  have "w_uuids ?w = [Some 9]" "\<not> reverted (w_rd ?w) (''order:'' @ uuid_String plain_ext 9)"
    by (simp_all add: demo_redis_stock)
  from synclua_answer_is_true [OF run this] run show ?thesis by (simp split: sum.splits)
qed

text \<open>An ambiguous insert sells the same tickets twice. When PostgreSQL committed the insert but the
  reply was lost, the stage-2 service answers with an error and gives the tickets back to Redis
  although the order is live.\<close>

theorem synclua_unacked_insert_oversells:
  assumes uuid: "w_uuids w = Some oid # us" and input: "0 < user" "tt \<noteq> uuid_Nil" "0 < qty"
    and gate: "SyncDeducter_Deduct X tt qty (w\<lparr>w_uuids := us\<rparr>) = (Inr d, w2)" "dr_Accepted d"
    and order: "NewReservation X (w_now w) oid user (dr_EventID d) tt qty (w_now w + window) (dr_AmountCents d) (dr_Currency d) = Inr o'"
    and row: "sql_insert_order (orderRowFromDomain (pg_now (w_pg w)) o') (w_pg w) = Inr (1, p)"
    and faults: "w_faults w2 = [Unacked]" and fresh: "\<not> reverted (w_rd w) (''order:'' @ uuid_String X oid)"
  shows "\<exists>e w'. synclua_BookTicket X window ttl user tt qty w = (Inl e, w') \<and> w_pg w' = p \<and>
    stock (w_rd w') = stock (w_rd w)"
proof -
  have u: "uuid_NewV7 w = (Some oid, w\<lparr>w_uuids := us\<rparr>)" using uuid by (simp add: uuid_NewV7_def)
  have tk: "took tt qty (w_rd w) (w_rd w2)" and fr: "w_pg w2 = w_pg w" "w_now w2 = w_now w"
    using deduct_sync.answered [OF gate(1)] deduct_sync.frame [OF gate(1)] gate(2) by simp_all
  let ?w3 = "w2\<lparr>w_faults := [], w_pg := p\<rparr>"
  have i: "synclua_insertOrder o' w2 = (Inl (Wrap ''insert order'' (Sentinel DbUnavailable)), ?w3)"
    using faults row fr by (simp add: synclua_insertOrder_def sql_exec_def io_def)
  obtain k r1 where k: "revert_lua tt qty (''order:'' @ uuid_String X oid) (w_rd w2) = (k, r1)"
    by (cases "revert_lua tt qty (''order:'' @ uuid_String X oid) (w_rd w2)")
  have g: "gave tt qty (''order:'' @ uuid_String X oid) (w_rd w2) r1"
    using revert_lua_gave [OF k] fresh tk by (simp add: took_def)
  have "revertAfterFailure X tt qty oid ?w3 = (Inr (), ?w3\<lparr>w_rd := r1\<rparr>)"
    using k by (simp add: revertAfterFailure_def RevertInventory_def redis_call_Works)
  then have "synclua_BookTicket X window ttl user tt qty w =
      (Inl (Wrap ''insert order'' (Sentinel DbUnavailable)), ?w3\<lparr>w_rd := r1\<rparr>)"
    using u input gate order fr i by (simp add: synclua_BookTicket_def synclua_deduct_def with_repair_def Let_def)
  with took_gave [OF tk g] show ?thesis by auto
qed

lemma synclua_unacked_insert_oversells_witness:
  "\<exists>e w'. synclua_BookTicket plain_ext 900 100 7 5 3
      (demo_world\<lparr>w_uuids := [Some 9], w_rd := demo_redis, w_faults := [Works, Unacked]\<rparr>) = (Inl e, w') \<and>
    map or_id (pg_orders (w_pg w')) = [9] \<and> stock (w_rd w') = stock demo_redis"
proof -
  let ?w = "demo_world\<lparr>w_uuids := [Some 9], w_rd := demo_redis, w_faults := [Works, Unacked]\<rparr>"
  let ?d = "\<lparr>dr_Accepted = True, dr_EventID = 3, dr_AmountCents = 750, dr_Currency = ''usd''\<rparr>"
  let ?o = "\<lparr>id_of = 9, eventID = 3, userID = 7, quantity = 3, status = AwaitingPayment, createdAt = 0,
    reservedUntil = 900, paymentIntentID = '''', ticketTypeID = 5, amountCents = 750, currency = ''usd''\<rparr>"
  let ?p = "(w_pg ?w)\<lparr>pg_orders := [orderRowFromDomain (pg_now (w_pg ?w)) ?o]\<rparr>"
  have w: "w_now ?w = 0" "w_pg ?w = empty_pg\<lparr>pg_types := [demo_type]\<rparr>"
    by (simp_all add: demo_world_def empty_world_def)
  obtain w2 where gate: "SyncDeducter_Deduct plain_ext 5 3 (?w\<lparr>w_uuids := []\<rparr>) = (Inr ?d, w2)" "w_faults w2 = [Unacked]"
    using demo_quote by (force simp: SyncDeducter_Deduct_def deduct_sync_eq redis_call_def io_def)
  have new: "NewReservation plain_ext (w_now ?w) 9 7 (dr_EventID ?d) 5 3 (w_now ?w + 900) (dr_AmountCents ?d) (dr_Currency ?d) = Inr ?o"
    by (simp add: w NewReservation_def isValidCurrencyCode_def NormalizeCurrency_def strings_ToLower_def is_ascii_def
        ascii_lower_def Let_def)
  have row: "sql_insert_order (orderRowFromDomain (pg_now (w_pg ?w)) ?o) (w_pg ?w) = Inr (1, ?p)"
    by (simp add: w sql_insert_order_def empty_pg_def order_violation_def)
  have "\<exists>e w'. synclua_BookTicket plain_ext 900 100 7 5 3 ?w = (Inl e, w') \<and> w_pg w' = ?p \<and> stock (w_rd w') = stock (w_rd ?w)"
    by (rule synclua_unacked_insert_oversells [OF _ _ _ _ gate(1) _ new row gate(2)]) (simp_all add: demo_redis_stock)
  then show ?thesis by fastforce
qed

end
