(* ===== verification/Saga.thy ===== *)
theory Saga
  imports Booking_Sync
begin

text \<open>
  The saga that gives the tickets of a failed order back: the compensator
  (\<open>application/saga/compensator.go\<close>), called for every message of the \<open>order.failed\<close> topic, and
  the watchdog (\<open>watchdog.go\<close>) that drives orders stuck in a failed status through it again.
\<close>

section \<open>The compensator\<close>

text \<open>A \<open>stepError\<close> is a wrapped error whose message carries the step.\<close>

definition step_error :: "string \<Rightarrow> err \<Rightarrow> err" where
  "step_error step e = Wrap (''compensator step '' @ step) e"

fun outcomeForStepError :: "err \<Rightarrow> string" where
  "outcomeForStepError (Wrap m e) =
    (if take 17 m = ''compensator step '' then drop 17 m @ ''_error'' else outcomeForStepError e)"
| "outcomeForStepError _ = ''''"

definition resolveTicketTypeID :: "ext \<Rightarrow> order_failed_event \<Rightarrow> world \<Rightarrow> (err + uuid) \<times> world" where
  "resolveTicketTypeID X ev w =
    (if ofe_TicketTypeID ev \<noteq> uuid_Nil then (Inr (ofe_TicketTypeID ev), w)
     else case ticketTypeRepo_ListByEventID X (ofe_EventID ev) w of
       (Inl e, w1) \<Rightarrow> (Inl (Wrap ''ticketTypeRepo.ListByEventID (legacy event fallback)'' e), w1)
     | (Inr ts, w1) \<Rightarrow> (case ts of [t] \<Rightarrow> (Inr (tt_id t), w1) | _ \<Rightarrow> (Inr uuid_Nil, w1)))"

text \<open>The transaction: the result says whether the order was compensated before, and the ticket type
  to restore in Redis.\<close>

definition compensate_tx :: "ext \<Rightarrow> order_failed_event \<Rightarrow> string \<Rightarrow> world \<Rightarrow> (err + bool \<times> uuid) \<times> world" where
  "compensate_tx X ev cid w = (case orderRepo_GetByID (ofe_OrderID ev) w of
     (Inl e, w1) \<Rightarrow> (Inl (step_error ''getbyid'' (Wrap ''orderRepo.GetByID'' e)), w1)
   | (Inr o', w1) \<Rightarrow>
      if status o' = Compensated
      then (case resolveTicketTypeID X ev w1 of
          (Inl e, w2) \<Rightarrow> (Inl (step_error ''list_ticket_type'' e), w2)
        | (Inr tt, w2) \<Rightarrow> (Inr (True, tt), w2))
      else case resolveTicketTypeID X ev w1 of
          (Inl e, w2) \<Rightarrow> (Inl (step_error ''list_ticket_type'' e), w2)
        | (Inr tt, w2) \<Rightarrow>
           (case (if tt \<noteq> uuid_Nil then ticketTypeRepo_IncrementTicket tt (ofe_Quantity ev) w2
                  else (Inr (), w2)) of
              (Inl e, w3) \<Rightarrow> (Inl (step_error ''incrementticket'' (Wrap ''ticketTypeRepo.IncrementTicket'' e)), w3)
            | (Inr _, w3) \<Rightarrow> (case orderRepo_MarkCompensated (ofe_OrderID ev) w3 of
                 (Inl e, w4) \<Rightarrow> (Inl (step_error ''markcompensated'' (Wrap ''orderRepo.MarkCompensated'' e)), w4)
               | (Inr _, w4) \<Rightarrow> (case sagaRepo_RecordCompletion cid (ofe_OrderID ev) w4 of
                    (Inl e, w5) \<Rightarrow> (Inl (step_error ''record_completion'' (Wrap ''sagaCompRepo.RecordCompletion'' e)), w5)
                  | (Inr n, w5) \<Rightarrow> (Inr (False, tt), w5)))))"

abbreviation record_outcome :: "string \<Rightarrow> world \<Rightarrow> world" where
  "record_outcome s \<equiv> metric (''saga_event_'' @ s)"

definition compensationID_of :: "ext \<Rightarrow> uuid \<Rightarrow> string" where
  "compensationID_of X i = ''order:'' @ uuid_String X i"

text \<open>After the transaction: the Redis part. An order that was compensated before and whose revert is
  recorded needs no more.\<close>

definition revert_and_mark :: "bool \<Rightarrow> uuid \<Rightarrow> int \<Rightarrow> string \<Rightarrow> world \<Rightarrow> (err + unit) \<times> world" where
  "revert_and_mark already tt q cid w =
    (if tt = uuid_Nil
     then (Inr (), record_outcome (if already then ''already_compensated'' else ''path_c_skipped'') w)
     else case RevertInventory tt q cid w of
       (Inl e, w1) \<Rightarrow> (Inl (Wrap ''inventoryRepo.RevertInventory'' e),
          record_outcome (if already then ''already_compensated_redis_error'' else ''redis_revert_error'') w1)
     | (Inr _, w1) \<Rightarrow> (case sagaRepo_MarkRedisReverted cid w1 of
          (Inl e, w2) \<Rightarrow> (Inl (Wrap ''saga: MarkRedisReverted'' e),
             record_outcome (if already then ''already_compensated_redis_mark_failed''
                             else ''compensated_redis_mark_failed'') (metric ''mark_redis_reverted_error'' w2))
        | (Inr _, w2) \<Rightarrow>
            (if already then (Inr (), record_outcome ''already_compensated'' w2)
             else (Inr (), record_outcome ''compensated'' (metric ''loop_duration'' w2)))))"

definition HandleOrderFailed :: "ext \<Rightarrow> payload \<Rightarrow> world \<Rightarrow> (err + unit) \<times> world" where
  "HandleOrderFailed X p w = (case json_Unmarshal p of
     None \<Rightarrow> (Inl (Wrap ''compensator.HandleOrderFailed unmarshal'' (Plain ''json'')),
              record_outcome ''unmarshal_error'' w)
   | Some ev \<Rightarrow>
      (let cid = compensationID_of X (ofe_OrderID ev) in
       case uow_Do (compensate_tx X ev cid) w of
         (Inl e, w1) \<Rightarrow> (Inl e, record_outcome
            (if outcomeForStepError e \<noteq> '''' then outcomeForStepError e
             else if errors_Is e ContextCanceled \<or> errors_Is e ContextDeadlineExceeded then ''context_error'' else ''uow_infra_error'') w1)
       | (Inr (already, tt), w1) \<Rightarrow>
           (if already \<and> tt \<noteq> uuid_Nil
            then (case sagaRepo_WasRedisReverted cid w1 of
                (Inl e, w2) \<Rightarrow> revert_and_mark already tt (ofe_Quantity ev) cid (metric ''was_redis_reverted_error'' w2)
              | (Inr done, w2) \<Rightarrow>
                  (if done then (Inr (), record_outcome ''already_compensated'' w2)
                   else revert_and_mark already tt (ofe_Quantity ev) cid w2))
            else revert_and_mark already tt (ofe_Quantity ev) cid w1)))"

section \<open>The watchdog\<close>

record saga_config =
  sc_WatchdogInterval :: duration
  sc_StuckThreshold :: duration
  sc_BatchSize :: int
  sc_MaxFailedAge :: duration

definition Watchdog_resolve :: "ext \<Rightarrow> saga_config \<Rightarrow> uuid \<times> duration \<Rightarrow> world \<Rightarrow> world" where
  "Watchdog_resolve X cfg s w = (case s of (i, age) \<Rightarrow>
     if age > sc_MaxFailedAge cfg then metric ''watchdog_max_age_exceeded'' w
     else case orderRepo_GetByID i w of
       (Inl e, w1) \<Rightarrow> metric ''watchdog_getbyid_error'' w1
     | (Inr o', w1) \<Rightarrow>
         if status o' = Compensated then metric ''watchdog_already_compensated'' w1
         else case HandleOrderFailed X (OrderFailedJSON (NewOrderFailedEventFromOrder (w_now w1) o'
                 ''saga_watchdog: re-driven from stuck Failed state'')) w1 of
           (Inl e, w2) \<Rightarrow> metric ''watchdog_compensator_error'' w2
         | (Inr _, w2) \<Rightarrow> metric ''watchdog_compensated'' w2)"

definition Watchdog_Sweep :: "ext \<Rightarrow> saga_config \<Rightarrow> world \<Rightarrow> (err + unit) \<times> world" where
  "Watchdog_Sweep X cfg w = (case orderRepo_FindStuckFailed (sc_StuckThreshold cfg) (sc_BatchSize cfg) w of
     (Inl e, w1) \<Rightarrow> (Inl (Wrap ''saga watchdog Sweep: find stuck'' e), metric ''find_stuck_error'' w1)
   | (Inr stuck, w1) \<Rightarrow>
       for_each (\<lambda>s v. case ctx_Err v of
           (True, v1) \<Rightarrow> (Inl (Sentinel ContextCanceled), v1)
         | (False, v1) \<Rightarrow> (Inr (), Watchdog_resolve X cfg s v1)) stuck w1)"

section \<open>What the transaction does\<close>

lemma IncrementTicket_outcome:
  assumes "ticketTypeRepo_IncrementTicket tt q w = (r, w')"
  shows "w_rd w' = w_rd w \<and> w_now w' = w_now w \<and> w_bus w' = w_bus w \<and> w_intake w' = w_intake w \<and> w_failed w' = w_failed w \<and>
    (r = Inr () \<longrightarrow> (\<exists>n. sql_increment_type tt q (w_pg w) = Inr (n, w_pg w') \<and> n \<noteq> 0))"
proof -
  obtain re w1 where e: "sql_exec (sql_increment_type tt q) w = (re, w1)"
    by (cases "sql_exec (sql_increment_type tt q) w")
  with assms sql_exec_frame [OF e] sql_exec_Inr [of "sql_increment_type tt q" w] show ?thesis
    by (auto simp: ticketTypeRepo_IncrementTicket_def split: sum.splits if_splits)
qed

lemma RecordCompletion_outcome:
  assumes "sagaRepo_RecordCompletion cid i w = (r, w')"
  shows "w_rd w' = w_rd w \<and> w_now w' = w_now w \<and> w_bus w' = w_bus w \<and> w_intake w' = w_intake w \<and> w_failed w' = w_failed w \<and>
    (\<forall>n. r = Inr n \<longrightarrow> sql_record_completion cid i (w_pg w) = Inr (n, w_pg w'))"
proof -
  obtain re w1 where e: "sql_exec (sql_record_completion cid i) w = (re, w1)"
    by (cases "sql_exec (sql_record_completion cid i) w")
  with assms sql_exec_frame [OF e] sql_exec_Inr [of "sql_record_completion cid i" w] show ?thesis
    by (auto simp: sagaRepo_RecordCompletion_def split: sum.splits)
qed

lemma resolve_outcome:
  assumes "resolveTicketTypeID X ev w = (r, w')"
  shows "w_pg w' = w_pg w \<and> w_rd w' = w_rd w \<and> w_now w' = w_now w \<and> w_bus w' = w_bus w \<and> w_intake w' = w_intake w \<and>
    w_failed w' = w_failed w \<and>
    (ofe_TicketTypeID ev \<noteq> uuid_Nil \<longrightarrow> r = Inr (ofe_TicketTypeID ev))"
  using assms
  by (auto simp: resolveTicketTypeID_def ticketTypeRepo_ListByEventID_def split: if_splits prod.splits sum.splits list.splits
      dest!: sql_query_frame)

text \<open>The database of a compensated order: its tickets are back, its row is \<open>compensated\<close>, and the
  completion is recorded.\<close>

definition compensated :: "uuid \<Rightarrow> int \<Rightarrow> uuid \<Rightarrow> string \<Rightarrow> pg \<Rightarrow> pg \<Rightarrow> bool" where
  "compensated tt q i cid p p' \<longleftrightarrow> (\<exists>p1 p2 n.
     (if tt \<noteq> uuid_Nil then \<exists>k. k \<noteq> 0 \<and> sql_increment_type tt q p = Inr (k, p1) else p1 = p) \<and>
     moved MarkCompensated i p1 p2 \<and> sql_record_completion cid i p2 = Inr (n, p'))"

lemma compensate_tx_outcome:
  assumes run: "compensate_tx X ev cid w = (r, w')"
  shows "w_rd w' = w_rd w \<and> w_now w' = w_now w \<and> w_bus w' = w_bus w \<and> w_intake w' = w_intake w \<and> w_failed w' = w_failed w \<and>
    (\<forall>already tt. r = Inr (already, tt) \<longrightarrow> (ofe_TicketTypeID ev \<noteq> uuid_Nil \<longrightarrow> tt = ofe_TicketTypeID ev) \<and>
      (\<exists>x. lookup or_id (ofe_OrderID ev) (pg_orders (w_pg w)) = Some x \<and> already = (or_status x = Compensated)) \<and>
      (if already then w_pg w' = w_pg w else compensated tt (ofe_Quantity ev) (ofe_OrderID ev) cid (w_pg w) (w_pg w')))"
proof -
  obtain r1 w1 where g: "orderRepo_GetByID (ofe_OrderID ev) w = (r1, w1)" by (metis surj_pair)
  obtain r2 w2 where t: "resolveTicketTypeID X ev w1 = (r2, w2)" by (metis surj_pair)
  note f1 = GetByID_frame [OF g] and f2 = resolve_outcome [OF t]
  show ?thesis
  proof (cases "\<exists>o' tt. r1 = Inr o' \<and> r2 = Inr tt \<and> status o' \<noteq> Compensated")
    case False
    with run g t f1 f2 GetByID_result [of "ofe_OrderID ev" w _ w1] show ?thesis
      by (cases r1; cases r2) (auto simp: compensate_tx_def split: if_splits)
  next
    case True
    then obtain o' tt where ok: "r1 = Inr o'" "r2 = Inr tt" "status o' \<noteq> Compensated" by blast
    obtain x where x: "lookup or_id (ofe_OrderID ev) (pg_orders (w_pg w)) = Some x" "o' = order_toDomain x"
      using GetByID_result g ok by blast
    obtain r3 w3 where i: "(if tt \<noteq> uuid_Nil then ticketTypeRepo_IncrementTicket tt (ofe_Quantity ev) w2
        else (Inr (), w2)) = (r3, w3)" by (metis surj_pair)
    obtain r4 w4 where m: "orderRepo_MarkCompensated (ofe_OrderID ev) w3 = (r4, w4)" by (metis surj_pair)
    obtain r5 w5 where c: "sagaRepo_RecordCompletion cid (ofe_OrderID ev) w4 = (r5, w5)" by (metis surj_pair)
    have f3: "w_rd w3 = w_rd w2 \<and> w_now w3 = w_now w2 \<and> w_bus w3 = w_bus w2 \<and> w_intake w3 = w_intake w2 \<and> w_failed w3 = w_failed w2"
      and i3: "r3 = Inr () \<Longrightarrow> if tt \<noteq> uuid_Nil then \<exists>k. k \<noteq> 0 \<and> sql_increment_type tt (ofe_Quantity ev) (w_pg w2) = Inr (k, w_pg w3)
        else w_pg w3 = w_pg w2"
      using i IncrementTicket_outcome [of tt "ofe_Quantity ev" w2 r3 w3] by (auto split: if_splits)
    note f4 = orderRepo_mark_outcome [of MarkCompensated, simplified, OF m]
    note f5 = RecordCompletion_outcome [OF c]
    have res: "(\<exists>e. r = Inl e) \<and> w' \<in> {w3, w4, w5} \<or> w' = w5 \<and> r = Inr (False, tt) \<and> r3 = Inr () \<and> r4 = Inr () \<and> (\<exists>n. r5 = Inr n)"
      using run g t ok i m c by (cases r3; cases r4; cases r5) (auto simp: compensate_tx_def)
    have "compensated tt (ofe_Quantity ev) (ofe_OrderID ev) cid (w_pg w) (w_pg w5)"
      if "r3 = Inr ()" "r4 = Inr ()" "r5 = Inr n" for n
      using that i3 f4 f5 f1 f2 unfolding compensated_def by fastforce
    with res x ok f1 f2 f3 f4 f5 show ?thesis by auto
  qed
qed

lemma compensate_tx_Inr:
  assumes "compensate_tx X ev cid w = (Inr (already, tt), w')"
  shows "if already then w_pg w' = w_pg w else compensated tt (ofe_Quantity ev) (ofe_OrderID ev) cid (w_pg w) (w_pg w')"
  using compensate_tx_outcome [OF assms] by (auto split: if_splits)

section \<open>The compensator keeps the books\<close>

text \<open>An event that speaks of the stored order: the only events the application writes.\<close>

definition speaks_of :: "order_failed_event \<Rightarrow> order_row \<Rightarrow> bool" where
  "speaks_of ev r \<longleftrightarrow> ofe_OrderID ev = or_id r \<and> or_tt r = Some (ofe_TicketTypeID ev) \<and>
     ofe_TicketTypeID ev \<noteq> uuid_Nil \<and> ofe_Quantity ev = or_qty r"

definition faithful :: "pg \<Rightarrow> order_failed_event \<Rightarrow> bool" where
  "faithful p ev \<longleftrightarrow> (case lookup or_id (ofe_OrderID ev) (pg_orders p) of None \<Rightarrow> False | Some r \<Rightarrow> speaks_of ev r)"

lemma faithful_row:
  "faithful p ev \<Longrightarrow> lookup or_id (ofe_OrderID ev) (pg_orders p) = Some r \<Longrightarrow> speaks_of ev r"
  by (simp add: faithful_def)

lemma moved_faithful: "moved m i p p' \<Longrightarrow> faithful p ev \<Longrightarrow> faithful p' ev"
proof -
  assume mv: "moved m i p p'" and f: "faithful p ev"
  then obtain r where r: "lookup or_id (ofe_OrderID ev) (pg_orders p) = Some r" "speaks_of ev r"
    by (auto simp: faithful_def split: option.splits)
  from moved_row [OF mv] r show ?thesis
    by (cases "ofe_OrderID ev = i") (auto simp: faithful_def speaks_of_def)
qed

lemma record_completion_frame:
  "sql_record_completion cid i p = Inr (n, p') \<Longrightarrow> pg_orders p' = pg_orders p \<and> pg_types p' = pg_types p \<and>
     pg_outbox p' = pg_outbox p \<and> pg_events p' = pg_events p \<and> pg_history p' = pg_history p \<and>
     pg_now p' = pg_now p \<and> lookup sg_id cid (pg_saga p') \<noteq> None \<and> (db_ok p \<longrightarrow> db_ok p')"
proof -
  assume a: "sql_record_completion cid i p = Inr (n, p')"
  then have "pg_orders p' = pg_orders p \<and> pg_types p' = pg_types p" and "lookup sg_id cid (pg_saga p') \<noteq> None"
    by (auto simp: sql_record_completion_def lookup_append split: if_splits)
  with a pg_wf_record_completion [OF a] show ?thesis
    by (auto simp: db_ok_def ledger_ok_def sql_record_completion_def split: if_splits)
qed

lemma compensated_keeps:
  assumes c: "compensated tt (ofe_Quantity ev) (ofe_OrderID ev) cid p p'" and tt: "tt = ofe_TicketTypeID ev"
    and f: "faithful p ev" and wf: "db_ok p"
  shows "db_ok p' \<and> faithful p' ev"
proof -
  obtain r where r: "lookup or_id (ofe_OrderID ev) (pg_orders p) = Some r" "speaks_of ev r"
    using f by (auto simp: faithful_def split: option.splits)
  obtain p1 p2 n k where inc: "sql_increment_type tt (ofe_Quantity ev) p = Inr (k, p1)" "k \<noteq> 0"
    and mv: "moved MarkCompensated (ofe_OrderID ev) p1 p2" and rc: "sql_record_completion cid (ofe_OrderID ev) p2 = Inr (n, p')"
    using c r(2) tt by (auto simp: compensated_def speaks_of_def)
  have "db_ok p2" by (rule compensated_db_ok [OF inc mv wf r(1)]) (use r(2) tt in \<open>auto simp: speaks_of_def\<close>)
  moreover have "faithful p1 ev" using f increment_types [OF inc(1)] by (simp add: faithful_def)
  then have "faithful p2 ev" using moved_faithful [OF mv] by blast
  ultimately show ?thesis using record_completion_frame [OF rc] by (auto simp: faithful_def)
qed

text \<open>Marking the revert touches the saga table only.\<close>

lemma MarkRedisReverted_outcome:
  assumes "sagaRepo_MarkRedisReverted cid w = (r, w')"
  shows "w_rd w' = w_rd w \<and> w_now w' = w_now w \<and> w_bus w' = w_bus w \<and> w_intake w' = w_intake w \<and> w_failed w' = w_failed w \<and>
    (w_pg w' = w_pg w \<or> (\<exists>n. sql_mark_reverted cid (w_pg w) = Inr (n, w_pg w')))"
proof -
  obtain re w1 where e: "sql_exec (sql_mark_reverted cid) w = (re, w1)" by (metis surj_pair)
  have "w_pg w1 = w_pg w \<or> (\<exists>n. sql_mark_reverted cid (w_pg w) = Inr (n, w_pg w1))"
    using e by (rule sql_exec_cases) auto
  with assms e sql_exec_frame [OF e] show ?thesis
    by (auto simp: sagaRepo_MarkRedisReverted_def split: sum.splits if_splits)
qed

lemma mark_reverted_frame:
  "sql_mark_reverted cid p = Inr (n, p') \<Longrightarrow> pg_orders p' = pg_orders p \<and> pg_types p' = pg_types p \<and>
     pg_outbox p' = pg_outbox p \<and> pg_events p' = pg_events p \<and> pg_history p' = pg_history p \<and> pg_now p' = pg_now p \<and>
     (db_ok p \<longrightarrow> db_ok p')"
  using pg_wf_mark_reverted [of cid p n p'] by (auto simp: sql_mark_reverted_def db_ok_def ledger_ok_def)

lemma revert_and_mark_outcome:
  assumes run: "revert_and_mark already tt q cid w = (r, w')"
  shows "w_now w' = w_now w \<and> w_bus w' = w_bus w \<and> w_intake w' = w_intake w \<and> w_failed w' = w_failed w \<and>
    (w_pg w' = w_pg w \<or> (\<exists>n. sql_mark_reverted cid (w_pg w) = Inr (n, w_pg w'))) \<and>
    (w_rd w' = w_rd w \<or> gave tt q cid (w_rd w) (w_rd w')) \<and>
    (r = Inr () \<longrightarrow> tt = uuid_Nil \<or> reverted (w_rd w') cid)"
proof (cases "tt = uuid_Nil")
  case True
  with run show ?thesis by (auto simp: revert_and_mark_def)
next
  case False
  obtain x w1 where rv: "RevertInventory tt q cid w = (x, w1)" by (metis surj_pair)
  obtain y w2 where mk: "sagaRepo_MarkRedisReverted cid w1 = (y, w2)" by (metis surj_pair)
  note f1 = RevertInventory_frame [OF rv] and f2 = MarkRedisReverted_outcome [OF mk]
  have rd: "w_rd w1 = w_rd w \<or> gave tt q cid (w_rd w) (w_rd w1)" "x = Inr () \<Longrightarrow> reverted (w_rd w1) cid"
    using RevertInventory_outcome [OF rv] by (auto simp: gave_def split: if_splits)
  show ?thesis
  proof (cases x)
    case (Inl e)
    with run False rv f1 rd show ?thesis by (auto simp: revert_and_mark_def)
  next
    case (Inr u)
    with run False rv mk have "w_pg w' = w_pg w2 \<and> w_rd w' = w_rd w2 \<and> w_now w' = w_now w2 \<and> w_bus w' = w_bus w2 \<and>
        w_intake w' = w_intake w2 \<and> w_failed w' = w_failed w2"
      by (cases y; cases already) (auto simp: revert_and_mark_def)
    with Inr f1 f2 rd show ?thesis by auto
  qed
qed

text \<open>One delivery of a failed-order event, whatever fails: \<open>p\<close> is the database after the transaction.\<close>

lemma HandleOrderFailed_outcome:
  assumes run: "HandleOrderFailed X (OrderFailedJSON ev) w = (r, w')" and nn: "ofe_TicketTypeID ev \<noteq> uuid_Nil"
  obtains p where
    "p = w_pg w \<or> compensated (ofe_TicketTypeID ev) (ofe_Quantity ev) (ofe_OrderID ev) (compensationID_of X (ofe_OrderID ev)) (w_pg w) p"
    "w_pg w' = p \<or> (\<exists>n. sql_mark_reverted (compensationID_of X (ofe_OrderID ev)) p = Inr (n, w_pg w'))"
    "w_rd w' = w_rd w \<or> gave (ofe_TicketTypeID ev) (ofe_Quantity ev) (compensationID_of X (ofe_OrderID ev)) (w_rd w) (w_rd w')"
    "w_now w' = w_now w" "w_failed w' = w_failed w" "w_intake w' = w_intake w" "w_bus w' = w_bus w"
    "r = Inr () \<longrightarrow> (\<exists>x. lookup or_id (ofe_OrderID ev) (pg_orders p) = Some x \<and> or_status x = Compensated)"
proof -
  let ?cid = "compensationID_of X (ofe_OrderID ev)" and ?tt = "ofe_TicketTypeID ev" and ?q = "ofe_Quantity ev"
  let ?comp = "compensated ?tt ?q (ofe_OrderID ev) ?cid"
  obtain ru w1 where tx: "uow_Do (compensate_tx X ev ?cid) w = (ru, w1)" by (metis surj_pair)
  have fr1: "w_rd w1 = w_rd w \<and> w_now w1 = w_now w \<and> w_bus w1 = w_bus w \<and> w_intake w1 = w_intake w \<and> w_failed w1 = w_failed w"
    using uow_Do_projection [OF tx, where f = "\<lambda>v. (w_rd v, w_now v, w_bus v, w_intake v, w_failed v)"]
    by (simp add: frame) (use compensate_tx_outcome in blast)
  have body: "w_pg v = w_pg w \<Longrightarrow> compensate_tx X ev ?cid v = (Inr (already, tt), v') \<Longrightarrow> tt = ?tt \<and>
      (\<exists>x. lookup or_id (ofe_OrderID ev) (pg_orders (w_pg w)) = Some x \<and> already = (or_status x = Compensated)) \<and>
      (if already then w_pg v' = w_pg w else ?comp (w_pg w) (w_pg v'))" for v already tt v'
    using compensate_tx_outcome [of X ev ?cid v "Inr (already, tt)" v'] nn by (auto split: if_splits)
  have pg1: "w_pg w1 = w_pg w \<or> ?comp (w_pg w) (w_pg w1)"
    using uow.atomic [OF tx] body by (metis surj_pair)
  have marked: "\<exists>x. lookup or_id (ofe_OrderID ev) (pg_orders p) = Some x \<and> or_status x = Compensated" if "?comp (w_pg w) p" for p
    using that moved_row record_completion_frame unfolding compensated_def by fastforce
  show thesis
  proof (cases ru)
    case (Inl e)
    then have "w_pg w' = w_pg w1 \<and> w_rd w' = w_rd w1 \<and> w_now w' = w_now w1 \<and> w_bus w' = w_bus w1 \<and> w_intake w' = w_intake w1 \<and>
        w_failed w' = w_failed w1 \<and> r = Inl e"
      using run tx by (auto simp: HandleOrderFailed_def Let_def)
    with pg1 fr1 show ?thesis by (intro that [of "w_pg w1"]) auto
  next
    case (Inr at)
    obtain already tt where at: "at = (already, tt)" by (cases at)
    have ok: "tt = ?tt" "if already then w_pg w1 = w_pg w else ?comp (w_pg w) (w_pg w1)"
      "\<exists>x. lookup or_id (ofe_OrderID ev) (pg_orders (w_pg w)) = Some x \<and> already = (or_status x = Compensated)"
      using uow.committed [OF tx [unfolded Inr at]] body by metis+
    have cmp: "\<exists>x. lookup or_id (ofe_OrderID ev) (pg_orders (w_pg w1)) = Some x \<and> or_status x = Compensated"
      using ok(2,3) marked by (cases already) auto
    obtain rq w2 where q: "sagaRepo_WasRedisReverted ?cid w1 = (rq, w2)" by (metis surj_pair)
    then have fq: "w_pg w2 = w_pg w1 \<and> w_rd w2 = w_rd w1 \<and> w_now w2 = w_now w1 \<and> w_bus w2 = w_bus w1 \<and> w_intake w2 = w_intake w1 \<and>
        w_failed w2 = w_failed w1"
      by (auto simp: sagaRepo_WasRedisReverted_def split: prod.splits sum.splits option.splits dest!: sql_query_frame)
    have "(\<exists>v a. w_pg v = w_pg w1 \<and> w_rd v = w_rd w1 \<and> w_now v = w_now w1 \<and> w_bus v = w_bus w1 \<and> w_intake v = w_intake w1 \<and>
          w_failed v = w_failed w1 \<and> revert_and_mark a ?tt ?q ?cid v = (r, w')) \<or>
        w_pg w' = w_pg w1 \<and> w_rd w' = w_rd w1 \<and> w_now w' = w_now w1 \<and> w_bus w' = w_bus w1 \<and> w_intake w' = w_intake w1 \<and>
          w_failed w' = w_failed w1"
      using run tx Inr at ok(1) q fq
      by (simp add: HandleOrderFailed_def Let_def split: sum.splits if_splits) (metis metric_frame)+
    then show ?thesis
    proof
      assume "\<exists>v a. w_pg v = w_pg w1 \<and> w_rd v = w_rd w1 \<and> w_now v = w_now w1 \<and> w_bus v = w_bus w1 \<and> w_intake v = w_intake w1 \<and>
          w_failed v = w_failed w1 \<and> revert_and_mark a ?tt ?q ?cid v = (r, w')"
      then obtain v a where v: "w_pg v = w_pg w1" "w_rd v = w_rd w1" "w_now v = w_now w1" "w_bus v = w_bus w1"
        "w_intake v = w_intake w1" "w_failed v = w_failed w1" "revert_and_mark a ?tt ?q ?cid v = (r, w')" by blast
      from revert_and_mark_outcome [OF v(7)] v pg1 fr1 cmp show ?thesis by (intro that [of "w_pg w1"]) auto
    qed (use pg1 fr1 cmp in \<open>intro that [of "w_pg w1"]; auto\<close>)
  qed
qed

section \<open>Deliveries\<close>

text \<open>Kafka delivers a message at least once, and the watchdog drives an order again: a list of events,
  each with the time that passes before it is delivered. The result holds the times at which a
  delivery gave the tickets back in Redis.\<close>

fun deliver :: "ext \<Rightarrow> (nat \<times> order_failed_event) list \<Rightarrow> world \<Rightarrow> time list \<times> world" where
  "deliver X [] w = ([], w)"
| "deliver X ((d, ev) # evs) w =
    (let w1 = time_passes (int d) w; w2 = snd (HandleOrderFailed X (OrderFailedJSON ev) w1) in
     apfst (append (if gives_back (compensationID_of X (ofe_OrderID ev)) (w_rd w1) (w_rd w2) then [rd_now (w_rd w1)] else []))
       (deliver X evs w2))"

text \<open>The fence of the database: the revert of this compensation id is recorded.\<close>

definition revert_recorded :: "string \<Rightarrow> pg \<Rightarrow> bool" where
  "revert_recorded cid p \<longleftrightarrow> (case lookup sg_id cid (pg_saga p) of None \<Rightarrow> False | Some s \<Rightarrow> sg_reverted s \<noteq> None)"

definition available_of :: "uuid \<Rightarrow> pg \<Rightarrow> int option" where
  "available_of tt p = map_option tr_available (lookup tr_id tt (pg_types p))"

lemma compensated_effect:
  assumes c: "compensated tt q i cid p p'" and nn: "tt \<noteq> uuid_Nil" and wf: "db_ok p"
    and r: "lookup or_id i (pg_orders p) = Some r"
  shows "available_of tt p' = map_option (\<lambda>n. n + q) (available_of tt p)"
    and "\<exists>u. lookup or_id i (pg_orders p') = Some (r\<lparr>or_status := Compensated, or_updated := u\<rparr>)"
    and "or_status r \<noteq> Compensated" and "lookup sg_id cid (pg_saga p') \<noteq> None"
proof -
  obtain k p1 p2 n where inc: "sql_increment_type tt q p = Inr (k, p1)" "k \<noteq> 0"
    and mv: "moved MarkCompensated i p1 p2" and rc: "sql_record_completion cid i p2 = Inr (n, p')"
    using c nn by (auto simp: compensated_def)
  note it = increment_types [OF inc(1)] and rf = record_completion_frame [OF rc]
  have dist: "distinct (map tr_id (pg_types p))" using wf by (simp add: db_ok_def pg_wf_def)
  obtain t where t: "lookup tr_id tt (pg_types p) = Some t" "tr_available t + q \<le> tr_total t"
    using count_where_key [OF dist, of tt "\<lambda>r. tr_available r + q \<le> tr_total r"] it inc(2)
    by (auto split: option.splits if_splits)
  have "lookup tr_id tt (pg_types p1) = Some (t\<lparr>tr_available := tr_available t + q\<rparr>)"
    using lookup_other_key [of tr_id "\<lambda>r. r\<lparr>tr_available := tr_available r + q\<rparr>" tt tt
        "\<lambda>r. tr_available r + q \<le> tr_total r" "pg_types p"] it t by simp
  with t moved_frame [OF mv] rf show "available_of tt p' = map_option (\<lambda>n. n + q) (available_of tt p)"
    by (simp add: available_of_def)
  have r1: "lookup or_id i (pg_orders p1) = Some r" using it r by simp
  from moved_row [OF mv] r1 rf show "\<exists>u. lookup or_id i (pg_orders p') = Some (r\<lparr>or_status := Compensated, or_updated := u\<rparr>)"
    by auto
  from moved_row [OF mv] r1 show "or_status r \<noteq> Compensated" by (auto simp: mark_guard_def edge_simps)
  show "lookup sg_id cid (pg_saga p') \<noteq> None" using rf by simp
qed

text \<open>How far the compensation of one order has come in the database.\<close>

definition progress :: "order_row \<Rightarrow> uuid \<Rightarrow> pg \<Rightarrow> pg \<Rightarrow> bool" where
  "progress r0 tt p0 p \<longleftrightarrow> db_ok p \<and> (\<exists>r. lookup or_id (or_id r0) (pg_orders p) = Some r \<and>
     or_tt r = or_tt r0 \<and> or_qty r = or_qty r0 \<and> or_id r = or_id r0 \<and>
     (or_status r0 = Compensated \<longrightarrow> or_status r = Compensated) \<and>
     available_of tt p = (if or_status r = Compensated \<and> or_status r0 \<noteq> Compensated
        then map_option (\<lambda>n. n + or_qty r0) (available_of tt p0) else available_of tt p0))"

lemma progress_later: "progress r0 tt p0 p \<Longrightarrow> progress r0 tt p0 (p\<lparr>pg_now := t\<rparr>)"
  by (auto simp: progress_def db_ok_def ledger_ok_def available_of_def pg_wf_clock)

lemma HandleOrderFailed_progress:
  assumes pr: "progress r0 tt p0 (w_pg w)" and ev: "ofe_OrderID ev = or_id r0" "speaks_of ev r0" "ofe_TicketTypeID ev = tt"
    and run: "HandleOrderFailed X (OrderFailedJSON ev) w = (res, w')"
  shows "progress r0 tt p0 (w_pg w') \<and>
    (w_rd w' = w_rd w \<or> gave tt (or_qty r0) (compensationID_of X (or_id r0)) (w_rd w) (w_rd w'))"
proof -
  let ?cid = "compensationID_of X (or_id r0)"
  have nn: "tt \<noteq> uuid_Nil" and q: "ofe_Quantity ev = or_qty r0" using ev by (auto simp: speaks_of_def)
  obtain r where r: "lookup or_id (or_id r0) (pg_orders (w_pg w)) = Some r" "or_tt r = or_tt r0" "or_qty r = or_qty r0"
    "or_id r = or_id r0"
    using pr by (auto simp: progress_def)
  then have fa: "faithful (w_pg w) ev" using ev by (simp add: faithful_def speaks_of_def)
  from run nn ev(3) obtain p where
    p: "p = w_pg w \<or> compensated tt (or_qty r0) (or_id r0) ?cid (w_pg w) p"
    and p': "w_pg w' = p \<or> (\<exists>n. sql_mark_reverted ?cid p = Inr (n, w_pg w'))"
    and rd: "w_rd w' = w_rd w \<or> gave tt (or_qty r0) ?cid (w_rd w) (w_rd w')"
    using HandleOrderFailed_outcome [of X ev w res w'] ev(1) q by metis
  have same: "db_ok p \<Longrightarrow> db_ok (w_pg w')" "pg_orders (w_pg w') = pg_orders p" "pg_types (w_pg w') = pg_types p"
    using p' mark_reverted_frame [of ?cid p _ "w_pg w'"] by auto
  have wf: "db_ok (w_pg w)" using pr by (simp add: progress_def)
  from p show ?thesis
  proof
    assume "p = w_pg w"
    with pr same rd show ?thesis by (simp add: progress_def available_of_def)
  next
    assume c: "compensated tt (or_qty r0) (or_id r0) ?cid (w_pg w) p"
    then have "db_ok p" using compensated_keeps [OF _ ev(3) [symmetric] fa wf, of ?cid p] ev(1) q by simp
    note eff = compensated_effect [OF c nn wf r(1)]
    obtain u where row: "lookup or_id (or_id r0) (pg_orders (w_pg w')) = Some (r\<lparr>or_status := Compensated, or_updated := u\<rparr>)"
      using eff(2) same by auto
    have r0: "or_status r0 \<noteq> Compensated" and av0: "available_of tt (w_pg w) = available_of tt p0"
      using pr r(1) eff(3) by (auto simp: progress_def)
    have "available_of tt (w_pg w') = map_option (\<lambda>n. n + or_qty r0) (available_of tt p0)"
      using eff(1) same av0 by (simp add: available_of_def)
    with row r r0 same(1) [OF \<open>db_ok p\<close>] rd show ?thesis by (simp add: progress_def)
  qed
qed

lemma redis_wait_passes: "w_rd (time_passes (int d) w) = redis_wait d (w_rd w)"
  by (simp add: time_passes_def redis_wait_def)

abbreviation all_about :: "order_row \<Rightarrow> uuid \<Rightarrow> (nat \<times> order_failed_event) list \<Rightarrow> bool" where
  "all_about r0 tt evs \<equiv> list_all (\<lambda>x. ofe_OrderID (snd x) = or_id r0 \<and> speaks_of (snd x) r0 \<and> ofe_TicketTypeID (snd x) = tt) evs"

text \<open>Any deliveries, whatever fails: the database makes its progress, and Redis sees a history of reverts.\<close>

lemma deliver_outcome:
  assumes "progress r0 tt p0 (w_pg w)" and "all_about r0 tt evs" and "deliver X evs w = (es, w')"
  shows "progress r0 tt p0 (w_pg w') \<and>
    revert_history X tt (or_qty r0) (compensationID_of X (or_id r0)) (w_rd w) es (w_rd w')"
  using assms
proof (induction evs arbitrary: w es)
  case Nil
  then show ?case by (simp add: history_refl)
next
  case (Cons x evs)
  obtain d ev where x: "x = (d, ev)" by (cases x)
  let ?cid = "compensationID_of X (or_id r0)" and ?w1 = "time_passes (int d) w"
  have ev: "ofe_OrderID ev = or_id r0" "speaks_of ev r0" "ofe_TicketTypeID ev = tt" and rest: "all_about r0 tt evs"
    using Cons.prems(2) x by simp_all
  obtain res w2 where run: "HandleOrderFailed X (OrderFailedJSON ev) ?w1 = (res, w2)" by (metis surj_pair)
  obtain es2 where es: "deliver X evs w2 = (es2, w')"
    "es = (if gives_back ?cid (w_rd ?w1) (w_rd w2) then [rd_now (w_rd ?w1)] else []) @ es2"
    using Cons.prems(3) x run ev(1) by (cases "deliver X evs w2") (auto simp: Let_def)
  have "progress r0 tt p0 (w_pg ?w1)" using progress_later [OF Cons.prems(1)] by (simp add: time_passes_def)
  from HandleOrderFailed_progress [OF this ev run]
  have pr: "progress r0 tt p0 (w_pg w2)"
    and rd: "w_rd w2 = redis_wait d (w_rd w) \<or> gave tt (or_qty r0) ?cid (redis_wait d (w_rd w)) (w_rd w2)"
    by (simp_all add: redis_wait_passes)
  note IH = Cons.IH [OF pr rest es(1)]
  have "revert_history X tt (or_qty r0) ?cid (w_rd w) es (w_rd w')"
    unfolding es(2) redis_wait_passes by (rule history_trans [OF history_step [OF rd] conjunct2 [OF IH]])
  with IH show ?case by simp
qed

text \<open>With every call working: a delivery for a compensated order whose revert is recorded changes neither
  store, and one that compensates the order records the revert; one that fails changes neither.\<close>

lemma HandleOrderFailed_fenced:
  assumes nf: "w_faults w = []" and row: "lookup or_id (ofe_OrderID ev) (pg_orders (w_pg w)) = Some r" "or_status r = Compensated"
    and nn: "ofe_TicketTypeID ev \<noteq> uuid_Nil" and rec: "revert_recorded (compensationID_of X (ofe_OrderID ev)) (w_pg w)"
  shows "snd (HandleOrderFailed X (OrderFailedJSON ev) w) = record_outcome ''already_compensated'' w"
proof -
  let ?cid = "compensationID_of X (ofe_OrderID ev)"
  have "compensate_tx X ev ?cid w = (Inr (True, ofe_TicketTypeID ev), w)"
    using nf row nn by (simp add: compensate_tx_def orderRepo_GetByID_def sql_query_Works resolveTicketTypeID_def)
  then have "uow_Do (compensate_tx X ev ?cid) w = (Inr (True, ofe_TicketTypeID ev), w)"
    using nf by (simp add: uow_Do_Works)
  moreover have "sagaRepo_WasRedisReverted ?cid w = (Inr True, w)"
    using nf rec by (auto simp: sagaRepo_WasRedisReverted_def sql_query_Works revert_recorded_def split: option.splits)
  ultimately show ?thesis using nn by (simp add: HandleOrderFailed_def Let_def)
qed

section \<open>Properties of the compensator\<close>

definition demo_expired :: order_row where
  "demo_expired = \<lparr>or_id = 9, or_event = 3, or_user = 7, or_qty = 2, or_status = Expired, or_created = 0,
     or_reserved = Some 50, or_intent = None, or_tt = Some 5, or_amount = Some 500, or_cur = Some ''usd'', or_updated = 60\<rparr>"

definition demo_failed_event :: order_failed_event where
  "demo_failed_event = \<lparr>ofe_EventID = 3, ofe_OrderID = 9, ofe_UserID = 7, ofe_TicketTypeID = 5, ofe_Quantity = 2,
     ofe_FailedAt = 60, ofe_Reason = ''expired'', ofe_Version = 3\<rparr>"

definition demo_saga_world :: world where
  "demo_saga_world = empty_world\<lparr>w_rd := demo_redis,
     w_pg := empty_pg\<lparr>pg_types := [demo_type\<lparr>tr_available := 8\<rparr>], pg_orders := [demo_expired], pg_now := 100\<rparr>\<rparr>"

lemma demo_saga_world_ok: "db_ok (w_pg demo_saga_world)"
  by (simp add: demo_saga_world_def demo_expired_def demo_type_def empty_world_def empty_pg_def db_ok_def pg_wf_def
      orders_wf_def order_violation_def user_event_clash_def intent_clash_def ledger_ok_def held_of_def held_def type_row_ok_def)

lemma demo_saga_row: "lookup or_id 9 (pg_orders (w_pg demo_saga_world)) = Some demo_expired"
  by (simp add: demo_saga_world_def demo_expired_def empty_world_def empty_pg_def)

section \<open>Progress: with every call working, the compensation goes through\<close>

lemma leave_unviolated:
  assumes "orders_wf rs" and "r \<in> set rs" and "or_status r \<noteq> Failed"
  shows "\<not> order_violation (r\<lparr>or_status := s, or_updated := u\<rparr>) rs"
  using assms by (auto simp: orders_wf_def order_violation_def list_all_iff list_ex_iff user_event_clash_def intent_clash_def)

text \<open>An order that the compensator can drive: failed, of a known ticket type, and no other order of the
  user stands in the way of the unique index.\<close>

definition compensable :: "pg \<Rightarrow> order_row \<Rightarrow> bool" where
  "compensable p r \<longleftrightarrow> or_status r \<in> {Failed, Expired, PaymentFailed} \<and>
     (case or_tt r of None \<Rightarrow> False | Some tt \<Rightarrow> tt \<noteq> uuid_Nil \<and> lookup tr_id tt (pg_types p) \<noteq> None) \<and>
     \<not> order_violation (r\<lparr>or_status := Compensated, or_updated := pg_now p\<rparr>) (pg_orders p)"

lemma compensableI:
  assumes "db_ok p" and "r \<in> set (pg_orders p)" and "or_status r \<in> {Expired, PaymentFailed}"
    and "or_tt r = Some tt" "tt \<noteq> uuid_Nil" "lookup tr_id tt (pg_types p) \<noteq> None"
  shows "compensable p r"
  using assms leave_unviolated [of "pg_orders p" r] by (auto simp: compensable_def db_ok_def pg_wf_def)

lemma room_for:
  assumes wf: "db_ok p" and r: "r \<in> set (pg_orders p)" "or_tt r = Some tt" "or_status r \<noteq> Compensated"
    and t: "lookup tr_id tt (pg_types p) = Some t"
  shows "tr_available t + or_qty r \<le> tr_total t"
proof -
  have "t \<in> set (pg_types p)" "tr_id t = tt" using lookup_in_set [OF t] by auto
  then have "tr_available t + held_of tt (pg_orders p) = tr_total t"
    using wf by (auto simp: db_ok_def ledger_ok_def list_all_iff)
  moreover have "held tt r \<le> held_of tt (pg_orders p)"
    unfolding held_of_def
    by (rule member_le_sum_list_int) (use wf r in \<open>auto simp: held_def db_ok_def ledger_ok_def list_all_iff dest!: bspec\<close>)
  ultimately show ?thesis using r by (simp add: held_def)
qed

lemma compensate_tx_works:
  assumes nf: "w_faults w = []" and wf: "db_ok (w_pg w)" and row: "lookup or_id (ofe_OrderID ev) (pg_orders (w_pg w)) = Some r"
    and c: "compensable (w_pg w) r" and ev: "speaks_of ev r"
  obtains p where "compensate_tx X ev cid w = (Inr (False, ofe_TicketTypeID ev), w\<lparr>w_pg := p\<rparr>)"
proof -
  let ?tt = "ofe_TicketTypeID ev" and ?q = "ofe_Quantity ev" and ?i = "ofe_OrderID ev"
  have nn: "?tt \<noteq> uuid_Nil" using ev by (simp add: speaks_of_def)
  obtain t where t: "lookup tr_id ?tt (pg_types (w_pg w)) = Some t" using c ev by (auto simp: compensable_def speaks_of_def)
  have "tr_available t + ?q \<le> tr_total t"
    using room_for [OF wf _ _ _ t, of r] lookup_in_set [OF row] c ev by (auto simp: speaks_of_def compensable_def)
  moreover have "distinct (map tr_id (pg_types (w_pg w)))" using wf by (simp add: db_ok_def pg_wf_def)
  ultimately obtain n p1 where inc: "sql_increment_type ?tt ?q (w_pg w) = Inr (n, p1)" "n \<noteq> 0"
    using count_where_key [of tr_id "pg_types (w_pg w)" ?tt "\<lambda>r. tr_available r + ?q \<le> tr_total r"] t
      sql_increment_type_runs [of "w_pg w" ?q] wf ev lookup_in_set [OF row]
    by (auto simp: Let_def db_ok_def ledger_ok_def list_all_iff speaks_of_def)
  note it = increment_types [OF inc(1)]
  have stc: "or_status r \<in> set [Failed, Expired, PaymentFailed]" using c by (simp add: compensable_def)
  obtain p2 where mv: "sql_transition ?i Compensated (\<lambda>_ r. or_status r \<in> set [Failed, Expired, PaymentFailed]) p1 = Inr (1, p2)"
    using row c stc it by (auto simp: sql_transition_def Let_def compensable_def)
  obtain k p3 where rc: "sql_record_completion cid ?i p2 = Inr (k, p3)"
    by (cases "lookup sg_id cid (pg_saga p2)") (auto simp: sql_record_completion_def)
  have "orderRepo_GetByID ?i w = (Inr (order_toDomain r), w)" "status (order_toDomain r) \<noteq> Compensated"
    using nf row stc by (auto simp: orderRepo_GetByID_def sql_query_Works)
  moreover have "resolveTicketTypeID X ev w = (Inr ?tt, w)" using nn by (simp add: resolveTicketTypeID_def)
  moreover have "ticketTypeRepo_IncrementTicket ?tt ?q w = (Inr (), w\<lparr>w_pg := p1\<rparr>)"
    using nf inc by (simp add: ticketTypeRepo_IncrementTicket_def sql_exec_Works)
  moreover have "orderRepo_MarkCompensated ?i (w\<lparr>w_pg := p1\<rparr>) = (Inr (), w\<lparr>w_pg := p2\<rparr>)"
    using nf mv by (simp add: orderRepo_MarkCompensated_def orderRepo_transition_def sql_exec_Works)
  moreover have "sagaRepo_RecordCompletion cid ?i (w\<lparr>w_pg := p2\<rparr>) = (Inr k, w\<lparr>w_pg := p3\<rparr>)"
    using nf rc by (simp add: sagaRepo_RecordCompletion_def sql_exec_Works)
  ultimately have "compensate_tx X ev cid w = (Inr (False, ?tt), w\<lparr>w_pg := p3\<rparr>)"
    using nn by (simp add: compensate_tx_def)
  then show thesis by (rule that)
qed

lemma revert_and_mark_works:
  assumes nf: "w_faults w = []" and nn: "tt \<noteq> uuid_Nil" and saga: "lookup sg_id cid (pg_saga (w_pg w)) \<noteq> None"
  shows "\<exists>w'. revert_and_mark already tt q cid w = (Inr (), w') \<and> w_faults w' = [] \<and>
    sql_mark_reverted cid (w_pg w) = Inr (count_where (\<lambda>r. sg_id r = cid) (pg_saga (w_pg w)), w_pg w') \<and>
    w_rd w' = snd (revert_lua tt q cid (w_rd w))"
proof -
  obtain k r1 where k: "revert_lua tt q cid (w_rd w) = (k, r1)" by (metis surj_pair)
  then have rv: "RevertInventory tt q cid w = (Inr (), w\<lparr>w_rd := r1\<rparr>)"
    using nf by (simp add: RevertInventory_def redis_call_Works)
  have "count_where (\<lambda>r. sg_id r = cid) (pg_saga (w_pg w)) \<noteq> 0"
    using saga by (auto simp: count_where_0_iff lookup_None_iff)
  then obtain p where p: "sql_mark_reverted cid (w_pg w) = Inr (count_where (\<lambda>r. sg_id r = cid) (pg_saga (w_pg w)), p)"
    and mk: "sagaRepo_MarkRedisReverted cid (w\<lparr>w_rd := r1\<rparr>) = (Inr (), w\<lparr>w_rd := r1, w_pg := p\<rparr>)"
    using nf by (simp add: sagaRepo_MarkRedisReverted_def sql_exec_Works sql_mark_reverted_def)
  show ?thesis using nn rv mk p k nf by (cases already) (simp_all add: revert_and_mark_def)
qed

text \<open>A mark that went through is recorded.\<close>

lemma marked_is_recorded:
  assumes "sql_mark_reverted cid p = Inr (n, p')" and "lookup sg_id cid (pg_saga p) \<noteq> None"
  shows "revert_recorded cid p'"
proof -
  obtain x where x: "lookup sg_id cid (pg_saga p) = Some x" using assms(2) by auto
  have "pg_saga p' = update_where (\<lambda>r. sg_id r = cid) (\<lambda>r. r\<lparr>sg_reverted := Some (pg_now p)\<rparr>) (pg_saga p)"
    using assms(1) by (auto simp: sql_mark_reverted_def)
  moreover have "lookup sg_id cid (update_where (\<lambda>r. sg_id r = cid) (\<lambda>r. r\<lparr>sg_reverted := Some (pg_now p)\<rparr>) (pg_saga p)) =
      map_option (\<lambda>r. if sg_id r = cid then r\<lparr>sg_reverted := Some (pg_now p)\<rparr> else r) (lookup sg_id cid (pg_saga p))"
    by (intro lookup_update_where) simp
  ultimately show ?thesis using x lookup_in_set [OF x] by (simp add: revert_recorded_def)
qed

lemma HandleOrderFailed_works:
  assumes nf: "w_faults w = []" and wf: "db_ok (w_pg w)" and row: "lookup or_id i (pg_orders (w_pg w)) = Some r"
    and c: "compensable (w_pg w) r" and ev: "speaks_of ev r" "ofe_OrderID ev = i"
  shows "\<exists>w' u. HandleOrderFailed X (OrderFailedJSON ev) w = (Inr (), w') \<and> w_faults w' = [] \<and> db_ok (w_pg w') \<and>
    lookup or_id i (pg_orders (w_pg w')) = Some (r\<lparr>or_status := Compensated, or_updated := u\<rparr>) \<and>
    available_of (ofe_TicketTypeID ev) (w_pg w') = map_option (\<lambda>n. n + or_qty r) (available_of (ofe_TicketTypeID ev) (w_pg w)) \<and>
    w_rd w' = snd (revert_lua (ofe_TicketTypeID ev) (or_qty r) (compensationID_of X i) (w_rd w))"
proof -
  let ?cid = "compensationID_of X i" and ?tt = "ofe_TicketTypeID ev"
  have nn: "?tt \<noteq> uuid_Nil" and q: "ofe_Quantity ev = or_qty r" using ev by (simp_all add: speaks_of_def)
  have fa: "faithful (w_pg w) ev" using row ev by (simp add: faithful_def)
  obtain p where tx: "compensate_tx X ev ?cid w = (Inr (False, ?tt), w\<lparr>w_pg := p\<rparr>)"
    using compensate_tx_works [OF nf wf _ c ev(1), of X ?cid] row ev(2) by metis
  then have cmp: "compensated ?tt (or_qty r) i ?cid (w_pg w) p"
    using compensate_tx_Inr [OF tx] q ev(2) by simp
  note eff = compensated_effect [OF cmp nn wf row]
  have wfp: "db_ok p" using compensated_keeps [OF _ refl fa wf, of ?cid p] cmp q ev(2) by simp
  have uow: "uow_Do (compensate_tx X ev ?cid) w = (Inr (False, ?tt), w\<lparr>w_pg := p\<rparr>)"
    using tx nf by (subst uow_Do_Works) auto
  have "\<exists>w'. revert_and_mark False ?tt (or_qty r) ?cid (w\<lparr>w_pg := p\<rparr>) = (Inr (), w') \<and> w_faults w' = [] \<and>
      sql_mark_reverted ?cid p = Inr (count_where (\<lambda>r. sg_id r = ?cid) (pg_saga p), w_pg w') \<and>
      w_rd w' = snd (revert_lua ?tt (or_qty r) ?cid (w_rd w))"
    using revert_and_mark_works [of "w\<lparr>w_pg := p\<rparr>" ?tt ?cid False "or_qty r"] nf nn eff(4) by simp
  then obtain w' where w': "revert_and_mark False ?tt (or_qty r) ?cid (w\<lparr>w_pg := p\<rparr>) = (Inr (), w')" "w_faults w' = []"
    "sql_mark_reverted ?cid p = Inr (count_where (\<lambda>r. sg_id r = ?cid) (pg_saga p), w_pg w')"
    "w_rd w' = snd (revert_lua ?tt (or_qty r) ?cid (w_rd w))" by blast
  have "HandleOrderFailed X (OrderFailedJSON ev) w = (Inr (), w')"
    using uow w'(1) q ev(2) by (simp add: HandleOrderFailed_def Let_def)
  with w' eff mark_reverted_frame [OF w'(3)] wfp show ?thesis by (auto simp: available_of_def)
qed

section \<open>A compensation happens once\<close>

lemma calls_calm:
  "w_faults w = [] \<Longrightarrow> orderRepo_GetByID i w = (r1, w') \<Longrightarrow> w_faults w' = []"
  "w_faults w = [] \<Longrightarrow> resolveTicketTypeID X ev w = (r2, w') \<Longrightarrow> w_faults w' = []"
  "w_faults w = [] \<Longrightarrow> ticketTypeRepo_IncrementTicket tt q w = (r3, w') \<Longrightarrow> w_faults w' = []"
  "w_faults w = [] \<Longrightarrow> orderRepo_MarkCompensated i w = (r4, w') \<Longrightarrow> w_faults w' = []"
  "w_faults w = [] \<Longrightarrow> sagaRepo_RecordCompletion cid i w = (r5, w') \<Longrightarrow> w_faults w' = []"
  by (auto simp: orderRepo_GetByID_def sql_query_Works resolveTicketTypeID_def ticketTypeRepo_ListByEventID_def
      ticketTypeRepo_IncrementTicket_def sql_exec_Works orderRepo_MarkCompensated_def orderRepo_transition_def sagaRepo_RecordCompletion_def
      split: option.splits sum.splits prod.splits list.splits if_splits)

lemma compensate_tx_calm: "w_faults w = [] \<Longrightarrow> compensate_tx X ev cid w = (r, w') \<Longrightarrow> w_faults w' = []"
  by (auto simp: compensate_tx_def split: sum.splits prod.splits if_splits dest: calls_calm) (meson calls_calm)+

lemma HandleOrderFailed_calm:
  assumes nf: "w_faults w = []" and wf: "db_ok (w_pg w)" and row: "lookup or_id (ofe_OrderID ev) (pg_orders (w_pg w)) = Some r"
    and todo: "or_status r \<noteq> Compensated" and nn: "ofe_TicketTypeID ev \<noteq> uuid_Nil"
    and run: "HandleOrderFailed X (OrderFailedJSON ev) w = (res, w')"
  shows "w_faults w' = [] \<and> (w_pg w' = w_pg w \<and> w_rd w' = w_rd w \<or>
    (\<exists>x. lookup or_id (ofe_OrderID ev) (pg_orders (w_pg w')) = Some x \<and> or_status x = Compensated) \<and>
    revert_recorded (compensationID_of X (ofe_OrderID ev)) (w_pg w'))"
proof -
  let ?cid = "compensationID_of X (ofe_OrderID ev)" and ?tt = "ofe_TicketTypeID ev"
  obtain rt w1 where tx: "compensate_tx X ev ?cid w = (rt, w1)" by (metis surj_pair)
  have f1: "w_faults w1 = []" by (rule compensate_tx_calm [OF nf tx])
  note out = compensate_tx_outcome [OF tx]
  show ?thesis
  proof (cases rt)
    case (Inl e)
    then have "uow_Do (compensate_tx X ev ?cid) w = (Inl e, w1\<lparr>w_pg := w_pg w\<rparr>)"
      using tx f1 nf by (subst uow_Do_Works) auto
    with run f1 out show ?thesis by (auto simp: HandleOrderFailed_def Let_def)
  next
    case (Inr at)
    obtain already tt where at: "at = (already, tt)" by (cases at)
    have ok: "\<not> already" "tt = ?tt" "compensated ?tt (ofe_Quantity ev) (ofe_OrderID ev) ?cid (w_pg w) (w_pg w1)"
      using out Inr at row todo nn by auto
    have uow: "uow_Do (compensate_tx X ev ?cid) w = (Inr (False, ?tt), w1)"
      using tx f1 nf Inr at ok(1,2) by (subst uow_Do_Works) auto
    note eff = compensated_effect [OF ok(3) nn wf row]
    obtain v where v: "revert_and_mark False ?tt (ofe_Quantity ev) ?cid w1 = (Inr (), v)" "w_faults v = []"
      "sql_mark_reverted ?cid (w_pg w1) = Inr (count_where (\<lambda>r. sg_id r = ?cid) (pg_saga (w_pg w1)), w_pg v)"
      using revert_and_mark_works [OF f1 nn eff(4), of False "ofe_Quantity ev"] by blast
    have "w' = v" using run uow v(1) by (simp add: HandleOrderFailed_def Let_def)
    moreover have "revert_recorded ?cid (w_pg v)" by (rule marked_is_recorded [OF v(3) eff(4)])
    ultimately show ?thesis using v(2) eff(2) mark_reverted_frame [OF v(3)] by auto
  qed
qed

lemma time_passes_frame:
  "w_faults (time_passes d w) = w_faults w" "pg_orders (w_pg (time_passes d w)) = pg_orders (w_pg w)"
  "revert_recorded cid (w_pg (time_passes d w)) = revert_recorded cid (w_pg w)"
  "db_ok (w_pg (time_passes d w)) = db_ok (w_pg w)"
  by (simp_all add: time_passes_def revert_recorded_def db_ok_def ledger_ok_def pg_wf_clock)

text \<open>Once the revert is recorded, nothing is given back again, however long it takes.\<close>

lemma deliver_fenced:
  assumes "w_faults w = []" and "lookup or_id (or_id r0) (pg_orders (w_pg w)) = Some r" and "or_status r = Compensated"
    and "revert_recorded (compensationID_of X (or_id r0)) (w_pg w)" and "all_about r0 tt evs"
  shows "fst (deliver X evs w) = []"
  using assms
proof (induction evs arbitrary: w)
  case Nil
  then show ?case by simp
next
  case (Cons x evs)
  obtain d ev where x: "x = (d, ev)" by (cases x)
  let ?w1 = "time_passes (int d) w"
  have ev: "ofe_OrderID ev = or_id r0" "ofe_TicketTypeID ev \<noteq> uuid_Nil" using Cons.prems(5) x by (auto simp: speaks_of_def)
  have fence: "snd (HandleOrderFailed X (OrderFailedJSON ev) ?w1) = record_outcome ''already_compensated'' ?w1"
    by (rule HandleOrderFailed_fenced) (use Cons.prems ev in \<open>auto simp: time_passes_frame\<close>)
  have "fst (deliver X evs (record_outcome ''already_compensated'' ?w1)) = []"
    by (rule Cons.IH) (use Cons.prems x in \<open>auto simp: metric_def time_passes_frame\<close>)
  with x fence show ?case by (simp add: Let_def gives_back_def apfst_def map_prod_def metric_def split: prod.splits)
qed

lemma deliver_calm:
  assumes "w_faults w = []" and "db_ok (w_pg w)" and "lookup or_id (or_id r0) (pg_orders (w_pg w)) = Some r"
    and "or_status r \<noteq> Compensated" and "all_about r0 tt evs"
  shows "length (fst (deliver X evs w)) \<le> 1"
  using assms
proof (induction evs arbitrary: w)
  case Nil
  then show ?case by simp
next
  case (Cons x evs)
  obtain d ev where x: "x = (d, ev)" by (cases x)
  let ?w1 = "time_passes (int d) w" and ?cid = "compensationID_of X (or_id r0)"
  have ev: "ofe_OrderID ev = or_id r0" "ofe_TicketTypeID ev \<noteq> uuid_Nil" and rest: "all_about r0 tt evs"
    using Cons.prems(5) x by (auto simp: speaks_of_def)
  obtain res w2 where run: "HandleOrderFailed X (OrderFailedJSON ev) ?w1 = (res, w2)" by (metis surj_pair)
  have es: "fst (deliver X (x # evs) w) = (if gives_back ?cid (w_rd ?w1) (w_rd w2) then [rd_now (w_rd ?w1)] else []) @ fst (deliver X evs w2)"
    using x run ev(1) by (simp add: Let_def apfst_def map_prod_def split: prod.splits)
  have w2: "w_faults w2 = []" "w_pg w2 = w_pg ?w1 \<and> w_rd w2 = w_rd ?w1 \<or>
      (\<exists>x. lookup or_id (or_id r0) (pg_orders (w_pg w2)) = Some x \<and> or_status x = Compensated) \<and> revert_recorded ?cid (w_pg w2)"
    using HandleOrderFailed_calm [OF _ _ _ Cons.prems(4) ev(2) run] Cons.prems(1,2,3) ev(1) by (simp_all add: time_passes_frame)
  from w2(2) show ?case
  proof
    assume same: "w_pg w2 = w_pg ?w1 \<and> w_rd w2 = w_rd ?w1"
    then have "length (fst (deliver X evs w2)) \<le> 1"
      using Cons.IH [OF w2(1) _ _ Cons.prems(4) rest] Cons.prems(2,3) by (simp add: time_passes_frame)
    with es same show ?thesis by (simp add: gives_back_def)
  next
    assume "(\<exists>x. lookup or_id (or_id r0) (pg_orders (w_pg w2)) = Some x \<and> or_status x = Compensated) \<and> revert_recorded ?cid (w_pg w2)"
    then have "fst (deliver X evs w2) = []" using deliver_fenced [OF w2(1) _ _ _ rest] by blast
    with es show ?thesis by simp
  qed
qed

text \<open>The clock of Redis advances by the waits alone.\<close>

lemma HandleOrderFailed_rd_now:
  assumes "HandleOrderFailed X (OrderFailedJSON ev) w = (res, w')" and "ofe_TicketTypeID ev \<noteq> uuid_Nil"
  shows "rd_now (w_rd w') = rd_now (w_rd w)"
  using HandleOrderFailed_outcome [OF assms] by (metis gave_def)

lemma deliver_clock:
  "deliver X evs w = (es, w') \<Longrightarrow> list_all (\<lambda>x. ofe_TicketTypeID (snd x) \<noteq> uuid_Nil) evs \<Longrightarrow>
     rd_now (w_rd w') = rd_now (w_rd w) + int (sum_list (map fst evs))"
proof (induction evs arbitrary: w es)
  case (Cons x evs)
  obtain d ev where x: "x = (d, ev)" by (cases x)
  obtain res w2 where run: "HandleOrderFailed X (OrderFailedJSON ev) (time_passes (int d) w) = (res, w2)" by (metis surj_pair)
  obtain es2 where "deliver X evs w2 = (es2, w')"
    using Cons.prems(1) x run by (cases "deliver X evs w2") (auto simp: Let_def)
  with Cons.IH [OF this] HandleOrderFailed_rd_now [OF run] Cons.prems(2) x show ?case by (simp add: time_passes_def)
qed simp



text \<open>What the record is for. A delivery for a compensated order whose revert is not recorded, when the marker
  in Redis has expired, gives the tickets back a second time.\<close>

lemma unrecorded_revert_is_repeated:
  assumes nf: "w_faults w = []" and row: "lookup or_id (ofe_OrderID ev) (pg_orders (w_pg w)) = Some r" "or_status r = Compensated"
    and nn: "ofe_TicketTypeID ev = tt" "tt \<noteq> uuid_Nil"
    and saga: "lookup sg_id (compensationID_of X (ofe_OrderID ev)) (pg_saga (w_pg w)) = Some s" "sg_reverted s = None"
    and gone: "\<not> reverted (w_rd w) (compensationID_of X (ofe_OrderID ev))" and live: "stocked (w_rd w) tt"
  shows "\<exists>w'. HandleOrderFailed X (OrderFailedJSON ev) w = (Inr (), w') \<and> stock (w_rd w') tt = stock (w_rd w) tt + ofe_Quantity ev"
proof -
  let ?cid = "compensationID_of X (ofe_OrderID ev)"
  have "compensate_tx X ev ?cid w = (Inr (True, tt), w)"
    using nf row nn by (simp add: compensate_tx_def orderRepo_GetByID_def sql_query_Works resolveTicketTypeID_def)
  then have "uow_Do (compensate_tx X ev ?cid) w = (Inr (True, tt), w)" using nf by (simp add: uow_Do_Works)
  moreover have "sagaRepo_WasRedisReverted ?cid w = (Inr False, w)"
    using nf saga by (simp add: sagaRepo_WasRedisReverted_def sql_query_Works)
  moreover obtain w' where w': "revert_and_mark True tt (ofe_Quantity ev) ?cid w = (Inr (), w')"
      "w_rd w' = snd (revert_lua tt (ofe_Quantity ev) ?cid (w_rd w))"
    using revert_and_mark_works [OF nf nn(2), of ?cid True "ofe_Quantity ev"] saga by auto
  ultimately have "HandleOrderFailed X (OrderFailedJSON ev) w = (Inr (), w')" using nn by (simp add: HandleOrderFailed_def Let_def)
  moreover have "stock (w_rd w') tt = stock (w_rd w) tt + ofe_Quantity ev"
    using revert_lua_gave [of tt "ofe_Quantity ev" ?cid "w_rd w"] w'(2) gone live by (metis gave_def prod.collapse)
  ultimately show ?thesis by blast
qed

text \<open>A failed order is compensated. With every call working, one delivery of the event of an order
  that expired or whose payment failed returns without error; then the order is \<open>compensated\<close>,
  its tickets are back in the database, and back in Redis if they were not before.\<close>

theorem compensation_completes:
  assumes nf: "w_faults w = []" and wf: "db_ok (w_pg w)" and row: "lookup or_id i (pg_orders (w_pg w)) = Some r"
    and st: "or_status r \<in> {Expired, PaymentFailed}"
    and tt: "or_tt r = Some tt" "tt \<noteq> uuid_Nil" "lookup tr_id tt (pg_types (w_pg w)) \<noteq> None"
    and ev: "ofe_OrderID ev = i" "ofe_TicketTypeID ev = tt" "ofe_Quantity ev = or_qty r"
  shows "\<exists>w' u. HandleOrderFailed X (OrderFailedJSON ev) w = (Inr (), w') \<and>
    lookup or_id i (pg_orders (w_pg w')) = Some (r\<lparr>or_status := Compensated, or_updated := u\<rparr>) \<and>
    available_of tt (w_pg w') = map_option (\<lambda>n. n + or_qty r) (available_of tt (w_pg w)) \<and>
    reverted (w_rd w') (compensationID_of X i) \<and>
    stock (w_rd w') tt = stock (w_rd w) tt +
      (if reverted (w_rd w) (compensationID_of X i) \<or> \<not> stocked (w_rd w) tt then 0 else or_qty r)"
proof -
  have "r \<in> set (pg_orders (w_pg w))" and i: "or_id r = i" using lookup_in_set [OF row] by auto
  then have c: "compensable (w_pg w) r" using compensableI [OF wf _ st tt] by blast
  have "speaks_of ev r" using tt ev i by (simp add: speaks_of_def)
  from HandleOrderFailed_works [OF nf wf row c this ev(1), of X] obtain w' u where
    w': "HandleOrderFailed X (OrderFailedJSON ev) w = (Inr (), w')"
      "lookup or_id i (pg_orders (w_pg w')) = Some (r\<lparr>or_status := Compensated, or_updated := u\<rparr>)"
      "available_of tt (w_pg w') = map_option (\<lambda>n. n + or_qty r) (available_of tt (w_pg w))"
      "w_rd w' = snd (revert_lua tt (or_qty r) (compensationID_of X i) (w_rd w))"
    using ev by auto
  have "if reverted (w_rd w) (compensationID_of X i) then w_rd w' = w_rd w
      else gave tt (or_qty r) (compensationID_of X i) (w_rd w) (w_rd w')"
    using revert_lua_gave [of tt "or_qty r" "compensationID_of X i" "w_rd w"] w'(4) by (metis prod.collapse)
  with w'(1,2,3) show ?thesis by (auto simp: gave_def split: if_splits)
qed

lemma compensation_completes_witness:
  "\<exists>w'. HandleOrderFailed plain_ext (OrderFailedJSON demo_failed_event) demo_saga_world = (Inr (), w') \<and>
    available_of 5 (w_pg w') = Some 10 \<and> stock (w_rd w') 5 = 12"
proof -
  have nf: "w_faults demo_saga_world = []" by (simp add: demo_saga_world_def empty_world_def)
  have w: "lookup tr_id 5 (pg_types (w_pg demo_saga_world)) = Some (demo_type\<lparr>tr_available := 8\<rparr>)" "w_rd demo_saga_world = demo_redis"
    by (simp_all add: demo_saga_world_def demo_type_def)
  have e: "or_status demo_expired \<in> {Expired, PaymentFailed}" "or_tt demo_expired = Some 5" "(5 :: uuid) \<noteq> uuid_Nil"
    "ofe_OrderID demo_failed_event = 9" "ofe_TicketTypeID demo_failed_event = 5"
    "ofe_Quantity demo_failed_event = or_qty demo_expired" "or_qty demo_expired = 2"
    by (simp_all add: demo_expired_def demo_failed_event_def)
  from compensation_completes [OF nf demo_saga_world_ok demo_saga_row e(1,2,3) _ e(4,5,6), of plain_ext]
  show ?thesis using w e(7) by (auto simp: available_of_def demo_redis_stock)
qed

section \<open>The watchdog drives every stuck order\<close>

lemma compensated_others:
  assumes "compensated tt q i cid p p'"
  shows "j \<noteq> i \<Longrightarrow> lookup or_id j (pg_orders p') = lookup or_id j (pg_orders p)"
    and "map tr_id (pg_types p') = map tr_id (pg_types p)"
proof -
  obtain p1 p2 n where inc: "p1 = p \<or> (\<exists>k. sql_increment_type tt q p = Inr (k, p1))"
    and mv: "moved MarkCompensated i p1 p2" and rc: "sql_record_completion cid i p2 = Inr (n, p')"
    using assms by (auto simp: compensated_def split: if_splits)
  have o1: "pg_orders p1 = pg_orders p" using inc increment_types by auto
  have t1: "map tr_id (pg_types p1) = map tr_id (pg_types p)"
    using inc increment_types [of tt q p _ p1] by (auto simp: keys_update_where)
  show "lookup or_id j (pg_orders p') = lookup or_id j (pg_orders p)" if "j \<noteq> i"
    using that moved_row [OF mv] record_completion_frame [OF rc] o1 by auto
  show "map tr_id (pg_types p') = map tr_id (pg_types p)"
    using moved_frame [OF mv] record_completion_frame [OF rc] t1 by simp
qed

lemma lookup_keys: "map key xs = map key ys \<Longrightarrow> (lookup key k xs = None) = (lookup key k ys = None)"
  by (metis image_set lookup_None_iff)

text \<open>An order the watchdog may meet: it expired or its payment failed, or it is compensated already, and
  its ticket type is known.\<close>

definition drivable :: "pg \<Rightarrow> uuid \<Rightarrow> bool" where
  "drivable p i \<longleftrightarrow> (case lookup or_id i (pg_orders p) of None \<Rightarrow> False | Some r \<Rightarrow>
     or_status r \<in> {Expired, PaymentFailed, Compensated} \<and>
     (case or_tt r of None \<Rightarrow> False | Some tt \<Rightarrow> tt \<noteq> uuid_Nil \<and> lookup tr_id tt (pg_types p) \<noteq> None))"

definition is_compensated :: "pg \<Rightarrow> uuid \<Rightarrow> bool" where
  "is_compensated p i \<longleftrightarrow> (case lookup or_id i (pg_orders p) of None \<Rightarrow> False | Some r \<Rightarrow> or_status r = Compensated)"

text \<open>Compensating one order keeps the others as they are.\<close>

lemma resolve_works:
  assumes nf: "w_faults w = []" and wf: "db_ok (w_pg w)" and d: "drivable (w_pg w) i"
    and w': "w' = Watchdog_resolve X cfg (i, age) w"
  shows "w_faults w' = [] \<and> db_ok (w_pg w') \<and> (age \<le> sc_MaxFailedAge cfg \<longrightarrow> is_compensated (w_pg w') i) \<and>
    (\<forall>j. drivable (w_pg w) j \<longrightarrow> drivable (w_pg w') j) \<and> (\<forall>j. is_compensated (w_pg w) j \<longrightarrow> is_compensated (w_pg w') j)"
proof -
  obtain r where r: "lookup or_id i (pg_orders (w_pg w)) = Some r" using d by (auto simp: drivable_def split: option.splits)
  have get: "orderRepo_GetByID i w = (Inr (order_toDomain r), w)" using nf r by (simp add: orderRepo_GetByID_def sql_query_Works)
  consider (old) "age > sc_MaxFailedAge cfg" | (closed) "age \<le> sc_MaxFailedAge cfg" "or_status r = Compensated"
    | (drive) "age \<le> sc_MaxFailedAge cfg" "or_status r \<noteq> Compensated" by linarith
  then show ?thesis
  proof cases
    case drive
    obtain tt where tt: "or_tt r = Some tt" "tt \<noteq> uuid_Nil" "lookup tr_id tt (pg_types (w_pg w)) \<noteq> None"
      using d r by (auto simp: drivable_def split: option.splits)
    have st: "or_status r \<in> {Expired, PaymentFailed}" using d r drive by (auto simp: drivable_def)
    have i: "or_id r = i" "r \<in> set (pg_orders (w_pg w))" using lookup_in_set [OF r] by auto
    define ev where "ev = NewOrderFailedEventFromOrder (w_now w) (order_toDomain r) ''saga_watchdog: re-driven from stuck Failed state''"
    have ev: "speaks_of ev r" "ofe_OrderID ev = i" "ofe_TicketTypeID ev = tt"
      using tt i by (auto simp: ev_def NewOrderFailedEventFromOrder_def speaks_of_def order_toDomain_def ReconstructOrder_def)
    obtain v u where v: "HandleOrderFailed X (OrderFailedJSON ev) w = (Inr (), v)" "w_faults v = []" "db_ok (w_pg v)"
      "lookup or_id i (pg_orders (w_pg v)) = Some (r\<lparr>or_status := Compensated, or_updated := u\<rparr>)"
      using HandleOrderFailed_works [OF nf wf r compensableI [OF wf i(2) st tt] ev(1,2), of X] by blast
    have "ofe_TicketTypeID ev \<noteq> uuid_Nil" using ev tt by simp
    from HandleOrderFailed_outcome [OF v(1) this] obtain p where
      p: "p = w_pg w \<or> compensated tt (ofe_Quantity ev) i (compensationID_of X i) (w_pg w) p"
      and p': "w_pg v = p \<or> (\<exists>n. sql_mark_reverted (compensationID_of X i) p = Inr (n, w_pg v))"
      using ev by metis
    have others: "lookup or_id j (pg_orders (w_pg v)) = lookup or_id j (pg_orders (w_pg w))" if "j \<noteq> i" for j
      using p p' mark_reverted_frame [of _ p _ "w_pg v"] compensated_others(1) [OF _ that] by fastforce
    have types: "(lookup tr_id k (pg_types (w_pg v)) = None) = (lookup tr_id k (pg_types (w_pg w)) = None)" for k
      using p p' mark_reverted_frame [of _ p _ "w_pg v"] compensated_others(2) lookup_keys by metis
    have "w_pg w' = w_pg v" "w_faults w' = w_faults v"
      using w' drive get v(1) unfolding ev_def Watchdog_resolve_def by simp_all
    moreover have "drivable (w_pg v) j" if "drivable (w_pg w) j" for j
      using that others [of j] v(4) r types by (cases "j = i") (auto simp: drivable_def split: option.splits)
    moreover have "is_compensated (w_pg v) j" if "is_compensated (w_pg w) j" for j
      using that others [of j] v(4) by (cases "j = i") (auto simp: is_compensated_def)
    ultimately show ?thesis using v by (simp add: is_compensated_def)
  qed (use w' nf wf get r in \<open>simp_all add: Watchdog_resolve_def is_compensated_def\<close>)
qed

lemma sweep_works:
  assumes "w_faults w = []" and "db_ok (w_pg w)" and "list_all (\<lambda>s. drivable (w_pg w) (fst s)) stuck"
  shows "\<exists>w'. for_each (\<lambda>s v. case ctx_Err v of
           (True, v1) \<Rightarrow> (Inl (Sentinel ContextCanceled), v1)
         | (False, v1) \<Rightarrow> (Inr (), Watchdog_resolve X cfg s v1)) stuck w = (Inr (), w') \<and> db_ok (w_pg w') \<and>
     list_all (\<lambda>s. snd s \<le> sc_MaxFailedAge cfg \<longrightarrow> is_compensated (w_pg w') (fst s)) stuck \<and>
     (\<forall>j. is_compensated (w_pg w) j \<longrightarrow> is_compensated (w_pg w') j)"
  using assms
proof (induction stuck arbitrary: w)
  case Nil
  then show ?case by simp
next
  case (Cons s stuck)
  obtain i age where s: "s = (i, age)" by (cases s)
  let ?v = "Watchdog_resolve X cfg (i, age) w"
  have v: "w_faults ?v = []" "db_ok (w_pg ?v)" "age \<le> sc_MaxFailedAge cfg \<longrightarrow> is_compensated (w_pg ?v) i"
    "\<And>j. drivable (w_pg w) j \<Longrightarrow> drivable (w_pg ?v) j" "\<And>j. is_compensated (w_pg w) j \<Longrightarrow> is_compensated (w_pg ?v) j"
    using resolve_works [OF Cons.prems(1,2) _ refl, of i X cfg age] Cons.prems(3) s by auto
  have "list_all (\<lambda>s. drivable (w_pg ?v) (fst s)) stuck" using Cons.prems(3) v(4) by (auto simp: list_all_iff)
  from Cons.IH [OF v(1,2) this] v(3,5) s Cons.prems(1) show ?case by (auto simp: ctx_Err_def)
qed



section \<open>What blocks a compensation\<close>

text \<open>A failed order whose user booked the event again is never compensated. Leaving \<open>failed\<close>
  re-enters the partial unique index, so the transition violates it: the delivery fails with a
  unique violation and changes neither the database nor Redis, every time.\<close>

theorem rebooked_order_is_never_compensated:
  assumes nf: "w_faults w = []" and wf: "db_ok (w_pg w)" and row: "lookup or_id i (pg_orders (w_pg w)) = Some r"
    and st: "or_status r = Failed" and other: "x \<in> set (pg_orders (w_pg w))" "or_id x \<noteq> i" "or_user x = or_user r"
      "or_event x = or_event r" "or_status x \<noteq> Failed"
    and tt: "or_tt r = Some tt" "tt \<noteq> uuid_Nil" "lookup tr_id tt (pg_types (w_pg w)) \<noteq> None"
    and ev: "ofe_OrderID ev = i" "ofe_TicketTypeID ev = tt" "ofe_Quantity ev = or_qty r"
  shows "\<exists>e w'. HandleOrderFailed X (OrderFailedJSON ev) w = (Inl e, w') \<and> errors_Is e PgUniqueViolation \<and>
    w_pg w' = w_pg w \<and> w_rd w' = w_rd w"
proof -
  have i: "or_id r = i" "r \<in> set (pg_orders (w_pg w))" using lookup_in_set [OF row] by auto
  obtain t where t: "lookup tr_id tt (pg_types (w_pg w)) = Some t" using tt by auto
  have "tr_available t + or_qty r \<le> tr_total t" using room_for [OF wf i(2) tt(1) _ t] st by simp
  moreover have "distinct (map tr_id (pg_types (w_pg w)))" using wf by (simp add: db_ok_def pg_wf_def)
  ultimately obtain n p1 where inc: "sql_increment_type tt (or_qty r) (w_pg w) = Inr (n, p1)" "n \<noteq> 0"
    using count_where_key [of tr_id "pg_types (w_pg w)" tt "\<lambda>x. tr_available x + or_qty r \<le> tr_total x"] t
      sql_increment_type_runs [of "w_pg w" "or_qty r"] wf i(2)
    by (auto simp: Let_def db_ok_def ledger_ok_def list_all_iff)
  note it = increment_types [OF inc(1)]
  have "order_violation (r\<lparr>or_status := Compensated, or_updated := pg_now p1\<rparr>) (pg_orders (w_pg w))"
    unfolding order_violation_def list_ex_iff user_event_clash_def using other i by (intro bexI [of _ x]) auto
  then have tr: "sql_transition i Compensated (\<lambda>_ r. or_status r \<in> set [Failed, Expired, PaymentFailed]) p1 = Inl (Sentinel PgUniqueViolation)"
    using row st it by (simp add: sql_transition_def Let_def)
  have "compensate_tx X ev cid w = (Inl (step_error ''markcompensated'' (Wrap ''orderRepo.MarkCompensated''
      (Wrap ''orderRepository.transitionStatus'' (Sentinel PgUniqueViolation)))), w\<lparr>w_pg := p1\<rparr>)" for cid
    using nf row st ev tt inc tr
    by (simp add: compensate_tx_def orderRepo_GetByID_def sql_query_Works resolveTicketTypeID_def
        ticketTypeRepo_IncrementTicket_def sql_exec_Works orderRepo_MarkCompensated_def orderRepo_transition_def)
  then show ?thesis using nf
    by (simp add: HandleOrderFailed_def Let_def uow_Do_Works step_error_def)
qed

lemma rebooked_order_is_never_compensated_witness:
  "\<exists>e w'. HandleOrderFailed plain_ext (OrderFailedJSON demo_failed_event) (demo_saga_world\<lparr>w_pg := (w_pg demo_saga_world)\<lparr>
      pg_orders := [demo_expired\<lparr>or_status := Failed\<rparr>, demo_expired\<lparr>or_id := 8, or_status := Compensated\<rparr>]\<rparr>\<rparr>) = (Inl e, w') \<and>
    errors_Is e PgUniqueViolation \<and> w_rd w' = demo_redis"
proof -
  let ?r = "demo_expired\<lparr>or_status := Failed\<rparr>" and ?x = "demo_expired\<lparr>or_id := 8, or_status := Compensated\<rparr>"
  let ?w = "demo_saga_world\<lparr>w_pg := (w_pg demo_saga_world)\<lparr>pg_orders := [?r, ?x]\<rparr>\<rparr>"
  have nf: "w_faults ?w = []" by (simp add: demo_saga_world_def empty_world_def)
  have wf: "db_ok (w_pg ?w)"
    by (simp add: demo_saga_world_def demo_expired_def demo_type_def empty_world_def empty_pg_def db_ok_def pg_wf_def
      orders_wf_def order_violation_def user_event_clash_def intent_clash_def ledger_ok_def held_of_def held_def type_row_ok_def)
  have row: "lookup or_id 9 (pg_orders (w_pg ?w)) = Some ?r" by (simp add: demo_expired_def)
  have "w_rd ?w = demo_redis" by (simp add: demo_saga_world_def)
  moreover have "\<exists>e w'. HandleOrderFailed plain_ext (OrderFailedJSON demo_failed_event) ?w = (Inl e, w') \<and>
      errors_Is e PgUniqueViolation \<and> w_pg w' = w_pg ?w \<and> w_rd w' = w_rd ?w"
    by (rule rebooked_order_is_never_compensated [OF nf wf row, of ?x 5])
      (simp_all add: demo_expired_def demo_failed_event_def demo_saga_world_def demo_type_def empty_pg_def)
  ultimately show ?thesis by metis
qed

end
