(* ===== verification/Kafka.thy ===== *)
theory Kafka
  imports Saga
begin

text \<open>
  The Kafka consumers share one shape: fetch the next message of the partition, handle it, commit its
  offset or not. A partition assigned to a member of a consumer group is a log with the member's
  read position and the offset the group has committed: \<open>FetchMessage\<close> returns the message at the
  position and advances it, whether or not the message is committed later; \<open>CommitMessages\<close>
  commits the offset after the given message; a member that is assigned the partition starts at
  the committed offset. What a handler must do with the log is the locale \<open>partition_handler\<close>.
\<close>

section \<open>A partition and its consumer\<close>

record 'm partition =
  kp_log :: "'m list"
  kp_pos :: nat
  kp_committed :: nat

text \<open>The consumer: the world, its partition, the retry counters in Redis (\<open>saga:retry:p:o\<close>, with their
  expiry) and the dead-letter topic (original offset, value, cause).\<close>

record 'm consumer =
  kc_world :: world
  kc_part :: "'m partition"
  kc_retries :: "nat \<rightharpoonup> int \<times> time"
  kc_dlq :: "(nat \<times> 'm \<times> err) list"

definition in_world :: "(world \<Rightarrow> 'a \<times> world) \<Rightarrow> 'm consumer \<Rightarrow> 'a \<times> 'm consumer" where
  "in_world f s = (case f (kc_world s) of (a, w) \<Rightarrow> (a, s\<lparr>kc_world := w\<rparr>))"

definition FetchMessage :: "'m consumer \<Rightarrow> (err + (nat \<times> 'm) option) \<times> 'm consumer" where
  "FetchMessage s = (case in_world io s of
     (Works, s1) \<Rightarrow>
       (let p = kc_part s1 in
        if kp_pos p < length (kp_log p)
        then (Inr (Some (kp_pos p, kp_log p ! kp_pos p)), s1\<lparr>kc_part := p\<lparr>kp_pos := Suc (kp_pos p)\<rparr>\<rparr>)
        else (Inr None, s1))
   | (_, s1) \<Rightarrow> (Inl (Sentinel BrokerUnavailable), s1))"

definition CommitMessages :: "nat \<Rightarrow> 'm consumer \<Rightarrow> (err + unit) \<times> 'm consumer" where
  "CommitMessages off s = (case in_world io s of
     (Works, s1) \<Rightarrow> (Inr (), s1\<lparr>kc_part := (kc_part s1)\<lparr>kp_committed := Suc off\<rparr>\<rparr>)
   | (Lost, s1) \<Rightarrow> (Inl (Sentinel BrokerUnavailable), s1)
   | (Unacked, s1) \<Rightarrow> (Inl (Sentinel BrokerUnavailable), s1\<lparr>kc_part := (kc_part s1)\<lparr>kp_committed := Suc off\<rparr>\<rparr>))"

definition commitOrLog :: "nat \<Rightarrow> 'm consumer \<Rightarrow> 'm consumer" where
  "commitOrLog off s = snd (CommitMessages off s)"

text \<open>A crash and restart, or a rebalance: the new member starts at the committed offset.\<close>

definition reassign :: "'m consumer \<Rightarrow> 'm consumer" where
  "reassign s = s\<lparr>kc_part := (kc_part s)\<lparr>kp_pos := kp_committed (kc_part s)\<rparr>\<rparr>"

text \<open>The loop of \<open>Start\<close>: \<open>None\<close> is still running. A fetch blocks on an exhausted log until the
  context ends, so the run stops there.\<close>

fun consume :: "nat \<Rightarrow> (nat \<Rightarrow> 'm \<Rightarrow> 'm consumer \<Rightarrow> 'm consumer) \<Rightarrow> 'm consumer \<Rightarrow> unit option \<times> 'm consumer" where
  "consume 0 handle s = (None, s)"
| "consume (Suc fuel) handle s = (case FetchMessage s of
     (Inl e, s1) \<Rightarrow> (case in_world ctx_Err s1 of
        (True, s2) \<Rightarrow> (Some (), s2)
      | (False, s2) \<Rightarrow> (case in_world (sleepCtx second) s2 of
           (False, s3) \<Rightarrow> (Some (), s3)
         | (True, s3) \<Rightarrow> consume fuel handle s3))
   | (Inr None, s1) \<Rightarrow> (Some (), s1)
   | (Inr (Some (off, m)), s1) \<Rightarrow> consume fuel handle (handle off m s1))"

text \<open>\<open>shouldResetLag\<close>: the lag gauge is reset when nothing arrived for longer than the threshold.\<close>

definition shouldResetLag :: "int \<Rightarrow> time \<Rightarrow> duration \<Rightarrow> bool" where
  "shouldResetLag lastUnixNano now threshold \<longleftrightarrow>
     (if lastUnixNano = 0 then True else now - (time_Unix 0 + lastUnixNano) > threshold)"

lemma in_world_frame [simp]:
  "in_world f s = (a, s') \<Longrightarrow> kc_part s' = kc_part s \<and> kc_retries s' = kc_retries s \<and> kc_dlq s' = kc_dlq s"
  by (auto simp: in_world_def split: prod.splits)

lemma in_world_result: "in_world f s = (a, s') \<longleftrightarrow> (\<exists>w. f (kc_world s) = (a, w) \<and> s' = s\<lparr>kc_world := w\<rparr>)"
  by (auto simp: in_world_def split: prod.splits)

lemma CommitMessages_outcome:
  assumes "CommitMessages off s = (r, s')"
  shows "kp_log (kc_part s') = kp_log (kc_part s) \<and> kp_pos (kc_part s') = kp_pos (kc_part s) \<and>
    kp_committed (kc_part s') \<in> {kp_committed (kc_part s), Suc off} \<and> (r = Inr () \<longrightarrow> kp_committed (kc_part s') = Suc off) \<and>
    kc_retries s' = kc_retries s \<and> kc_dlq s' = kc_dlq s \<and> w_pg (kc_world s') = w_pg (kc_world s) \<and>
    w_rd (kc_world s') = w_rd (kc_world s) \<and> w_now (kc_world s') = w_now (kc_world s)"
  using assms by (auto simp: CommitMessages_def in_world_result split: prod.splits fault.splits dest!: io_pair)

lemma commitOrLog_outcome:
  "kp_log (kc_part (commitOrLog off s)) = kp_log (kc_part s)" "kp_pos (kc_part (commitOrLog off s)) = kp_pos (kc_part s)"
  "kp_committed (kc_part (commitOrLog off s)) \<in> {kp_committed (kc_part s), Suc off}"
  "kc_retries (commitOrLog off s) = kc_retries s" "kc_dlq (commitOrLog off s) = kc_dlq s"
  "w_pg (kc_world (commitOrLog off s)) = w_pg (kc_world s)" "w_rd (kc_world (commitOrLog off s)) = w_rd (kc_world s)"
  "w_now (kc_world (commitOrLog off s)) = w_now (kc_world s)"
  using CommitMessages_outcome [of off s "fst (CommitMessages off s)" "commitOrLog off s"]
  by (auto simp: commitOrLog_def)

lemma CommitMessages_Works:
  "w_faults (kc_world s) = [] \<Longrightarrow> CommitMessages off s = (Inr (), s\<lparr>kc_part := (kc_part s)\<lparr>kp_committed := Suc off\<rparr>\<rparr>)"
  by (simp add: CommitMessages_def in_world_def)

lemma commitOrLog_Works:
  "w_faults (kc_world s) = [] \<Longrightarrow> commitOrLog off s = s\<lparr>kc_part := (kc_part s)\<lparr>kp_committed := Suc off\<rparr>\<rparr>"
  by (simp add: commitOrLog_def CommitMessages_Works)

section \<open>What a handler does with the log\<close>

text \<open>The life of a consumer: polls (one round of the loop), crashes or rebalances, messages that arrive, and
  whatever else happens to the world between two polls (other processes, the passing of time). The
  journal keeps each handled message with the consumer before and after its handling.\<close>

datatype 'm consumer_event = Poll | Crash | Arrive 'm | Elsewhere "world \<Rightarrow> world"

type_synonym 'm handling = "nat \<times> 'm \<times> 'm consumer \<times> 'm consumer"

fun consumer_step :: "(nat \<Rightarrow> 'm \<Rightarrow> 'm consumer \<Rightarrow> 'm consumer) \<Rightarrow> 'm consumer_event \<Rightarrow> 'm consumer \<Rightarrow> 'm handling list \<times> 'm consumer" where
  "consumer_step handle Poll s = (case FetchMessage s of
     (Inr (Some (off, m)), s1) \<Rightarrow> ([(off, m, s1, handle off m s1)], handle off m s1)
   | (Inr None, s1) \<Rightarrow> ([], s1)
   | (Inl e, s1) \<Rightarrow> ([], snd (in_world (sleepCtx second) (snd (in_world ctx_Err s1)))))"
| "consumer_step handle Crash s = ([], reassign s)"
| "consumer_step handle (Arrive m) s = ([], s\<lparr>kc_part := (kc_part s)\<lparr>kp_log := kp_log (kc_part s) @ [m]\<rparr>\<rparr>)"
| "consumer_step handle (Elsewhere f) s = ([], s\<lparr>kc_world := f (kc_world s)\<rparr>)"

fun consumer_run :: "(nat \<Rightarrow> 'm \<Rightarrow> 'm consumer \<Rightarrow> 'm consumer) \<Rightarrow> 'm consumer_event list \<Rightarrow> 'm consumer \<Rightarrow> 'm handling list \<times> 'm consumer" where
  "consumer_run handle [] s = ([], s)"
| "consumer_run handle (st # sts) s = (case consumer_step handle st s of (js, s1) \<Rightarrow>
     apfst (append js) (consumer_run handle sts s1))"

lemma consumer_run_Cons:
  assumes "consumer_run handle (st # sts) s = (js, s')"
  obtains js1 s1 js2 where "consumer_step handle st s = (js1, s1)" "consumer_run handle sts s1 = (js2, s')" "js = js1 @ js2"
  using assms by (auto simp: apfst_def map_prod_def split: prod.splits)

lemma FetchMessage_cases:
  assumes "FetchMessage s = (x, s1)"
  obtains (message) "kp_pos (kc_part s) < length (kp_log (kc_part s))"
      "x = Inr (Some (kp_pos (kc_part s), kp_log (kc_part s) ! kp_pos (kc_part s)))"
      "kc_part s1 = (kc_part s)\<lparr>kp_pos := Suc (kp_pos (kc_part s))\<rparr>"
  | (nothing) "x = Inr None" "kc_part s1 = kc_part s"
  | (failed) e where "x = Inl e" "kc_part s1 = kc_part s"
  using assms
  by (auto simp: FetchMessage_def Let_def split: prod.splits fault.splits if_splits dest!: in_world_frame)

text \<open>The loop of \<open>Start\<close> is such a run.\<close>

lemma consume_is_a_run:
  assumes "consume fuel handle s = (Some (), s')"
  shows "\<exists>n js w. consumer_run handle (replicate n Poll) s = (js, s'\<lparr>kc_world := w\<rparr>)"
  using assms
proof (induction fuel arbitrary: s)
  case (Suc fuel)
  obtain x s1 where f: "FetchMessage s = (x, s1)" by (metis surj_pair)
  have more: "\<exists>n js w. consumer_run handle (replicate n Poll) s = (js, s'\<lparr>kc_world := w\<rparr>)"
    if st: "consumer_step handle Poll s = (js1, s2)" and go: "consume fuel handle s2 = (Some (), s')" for js1 s2
  proof -
    obtain n js w where "consumer_run handle (replicate n Poll) s2 = (js, s'\<lparr>kc_world := w\<rparr>)"
      using Suc.IH [OF go] by blast
    with st have "consumer_run handle (replicate (Suc n) Poll) s = (js1 @ js, s'\<lparr>kc_world := w\<rparr>)" by simp
    then show ?thesis by blast
  qed
  have last: "\<exists>n js w. consumer_run handle (replicate n Poll) s = (js, s'\<lparr>kc_world := w\<rparr>)"
    if "consumer_step handle Poll s = (js1, s'\<lparr>kc_world := w\<rparr>)" for js1 w
    by (rule exI [of _ 1], rule exI [of _ js1], rule exI [of _ w]) (use that in simp)
  show ?case
  proof (cases x)
    case (Inl e)
    obtain c s2 where c: "in_world ctx_Err s1 = (c, s2)" by (metis surj_pair)
    obtain t s3 where t: "in_world (sleepCtx second) s2 = (t, s3)" by (metis surj_pair)
    have st: "consumer_step handle Poll s = ([], s3)" using f Inl c t by simp
    show ?thesis
    proof (cases "c \<or> \<not> t")
      case True
      with Suc.prems f Inl c t have "s' = s2 \<or> s' = s3" by (cases c; cases t) simp_all
      moreover have "s3 = s2\<lparr>kc_world := kc_world s3\<rparr>" using t by (auto simp: in_world_result)
      ultimately have "s3 = s'\<lparr>kc_world := kc_world s3\<rparr>" by auto
      with st last show ?thesis by metis
    next
      case False
      with Suc.prems f Inl c t st show ?thesis by (intro more [OF st]) simp
    qed
  next
    case (Inr y)
    show ?thesis
    proof (cases y)
      case None
      with Suc.prems f Inr have "s' = s1" by simp
      with f Inr None show ?thesis by (intro last [of "[]" "kc_world s1"]) simp
    next
      case (Some om)
      obtain off m where om: "om = (off, m)" by (cases om)
      with Suc.prems f Inr Some show ?thesis by (intro more [of "[(off, m, s1, handle off m s1)]"]) simp_all
    qed
  qed
qed simp

text \<open>A handler commits at most its own message, and only a settled one; a message that it does not settle
  it leaves behind. \<open>settled\<close> is what the handler owes the message, said of the consumer before and
  after the call; \<open>left\<close> is the reason for which it may give up, said of the consumer before it.\<close>

locale partition_handler =
  fixes handle :: "nat \<Rightarrow> 'm \<Rightarrow> 'm consumer \<Rightarrow> 'm consumer"
    and settled :: "nat \<Rightarrow> 'm \<Rightarrow> 'm consumer \<Rightarrow> 'm consumer \<Rightarrow> bool"
    and left :: "nat \<Rightarrow> 'm \<Rightarrow> 'm consumer \<Rightarrow> bool"
  assumes log_kept: "kp_log (kc_part (handle off m s)) = kp_log (kc_part s)"
    and pos_kept: "kp_pos (kc_part (handle off m s)) = kp_pos (kc_part s)"
    and commits: "kp_committed (kc_part (handle off m s)) = kp_committed (kc_part s) \<or>
      kp_committed (kc_part (handle off m s)) = Suc off \<and> settled off m s (handle off m s)"
    and outcome: "settled off m s (handle off m s) \<or> left off m s"
begin

text \<open>One step: the log only grows, the offsets stay in order, and the read position passes a message only
  when it is handled.\<close>

lemma step_offsets:
  assumes "consumer_step handle st s = (js, s')" and "kp_committed (kc_part s) \<le> kp_pos (kc_part s)"
    and "kp_pos (kc_part s) \<le> length (kp_log (kc_part s))"
  shows "kp_committed (kc_part s) \<le> kp_committed (kc_part s') \<and>
    kp_committed (kc_part s') \<le> kp_pos (kc_part s') \<and> kp_pos (kc_part s') \<le> length (kp_log (kc_part s')) \<and>
    (\<exists>ms. kp_log (kc_part s') = kp_log (kc_part s) @ ms) \<and>
    (\<forall>off. kp_pos (kc_part s) \<le> off \<longrightarrow> off < kp_pos (kc_part s') \<longrightarrow>
      (\<exists>a z. (off, kp_log (kc_part s') ! off, a, z) \<in> set js)) \<and>
    (\<forall>off m a z. (off, m, a, z) \<in> set js \<longrightarrow> z = handle off m a)"
proof (cases st)
  case Poll
  obtain x s1 where f: "FetchMessage s = (x, s1)" by (metis surj_pair)
  from f show ?thesis
  proof (cases rule: FetchMessage_cases)
    case message
    let ?off = "kp_pos (kc_part s)" and ?m = "kp_log (kc_part s) ! kp_pos (kc_part s)"
    have s': "s' = handle ?off ?m s1" "js = [(?off, ?m, s1, s')]" using assms(1) Poll f message(2) by auto
    have p: "kp_log (kc_part s') = kp_log (kc_part s)" "kp_pos (kc_part s') = Suc ?off"
      "kp_committed (kc_part s') = kp_committed (kc_part s) \<or> kp_committed (kc_part s') = Suc ?off"
      using log_kept [of ?off ?m s1] pos_kept [of ?off ?m s1] commits [of ?off ?m s1] message(3) s'(1) by auto
    show ?thesis using p(1,2) p(3) assms(2) message(1) s' by (auto simp: less_Suc_eq)
  next
    case nothing
    with assms Poll f show ?thesis by auto
  next
    case (failed e)
    then have "kc_part s' = kc_part s" "js = []"
      using assms(1) Poll f by (auto simp: in_world_def split: prod.splits)
    with assms(2,3) show ?thesis by simp
  qed
qed (use assms in \<open>auto simp: reassign_def\<close>)

text \<open>So every message below the committed offset was handled.\<close>

lemma run_handles:
  assumes "consumer_run handle sts s = (js, s')" and "kp_committed (kc_part s) \<le> kp_pos (kc_part s)"
    and "kp_pos (kc_part s) \<le> length (kp_log (kc_part s))"
  shows "kp_committed (kc_part s) \<le> kp_committed (kc_part s') \<and> kp_committed (kc_part s') \<le> kp_pos (kc_part s') \<and>
    kp_pos (kc_part s') \<le> length (kp_log (kc_part s')) \<and> (\<exists>ms. kp_log (kc_part s') = kp_log (kc_part s) @ ms) \<and>
    (\<forall>off. kp_pos (kc_part s) \<le> off \<longrightarrow> off < kp_committed (kc_part s') \<longrightarrow>
      (\<exists>a z. (off, kp_log (kc_part s') ! off, a, z) \<in> set js)) \<and>
    (\<forall>off m a z. (off, m, a, z) \<in> set js \<longrightarrow> z = handle off m a)"
  using assms
proof (induction sts arbitrary: s js)
  case Nil
  then show ?case by simp
next
  case (Cons st sts)
  from Cons.prems(1) obtain js1 s1 js2 where st: "consumer_step handle st s = (js1, s1)" and
    run: "consumer_run handle sts s1 = (js2, s')" and js: "js = js1 @ js2" by (rule consumer_run_Cons)
  note h1 = step_offsets [OF st Cons.prems(2,3)]
  then have h2: "kp_committed (kc_part s1) \<le> kp_committed (kc_part s') \<and> kp_committed (kc_part s') \<le> kp_pos (kc_part s') \<and>
    kp_pos (kc_part s') \<le> length (kp_log (kc_part s')) \<and> (\<exists>ms. kp_log (kc_part s') = kp_log (kc_part s1) @ ms) \<and>
    (\<forall>off. kp_pos (kc_part s1) \<le> off \<longrightarrow> off < kp_committed (kc_part s') \<longrightarrow>
      (\<exists>a z. (off, kp_log (kc_part s') ! off, a, z) \<in> set js2)) \<and>
    (\<forall>off m a z. (off, m, a, z) \<in> set js2 \<longrightarrow> z = handle off m a)"
    by (intro Cons.IH [OF run]) blast+
  have entry: "\<exists>a z. (off, kp_log (kc_part s') ! off, a, z) \<in> set js"
    if off: "kp_pos (kc_part s) \<le> off" "off < kp_committed (kc_part s')" for off
  proof (cases "kp_pos (kc_part s1) \<le> off")
    case True
    then obtain a z where "(off, kp_log (kc_part s') ! off, a, z) \<in> set js2" using h2 off(2) by blast
    then show ?thesis using js by auto
  next
    case False
    then obtain a z where e: "(off, kp_log (kc_part s1) ! off, a, z) \<in> set js1" using h1 off(1) by force
    have "off < length (kp_log (kc_part s1))" using False h1 by linarith
    then have "kp_log (kc_part s') ! off = kp_log (kc_part s1) ! off" using h2 by (auto simp: nth_append)
    with e js show ?thesis by auto
  qed
  have "z = handle off m a" if "(off, m, a, z) \<in> set js" for off m a z
    using that js h1 h2 by (auto dest: spec)
  moreover have "\<exists>ms. kp_log (kc_part s') = kp_log (kc_part s) @ ms" using h1 h2 by (metis append.assoc)
  ultimately show ?case using entry h1 h2 by (meson le_trans)
qed

text \<open>Every message that the group has committed past was handled, and in that handling it was settled or
  left behind; a call that commits its own message has settled it.\<close>

lemma committed_is_handled:
  assumes "consumer_run handle sts s = (js, s')" and "kp_committed (kc_part s) = kp_pos (kc_part s)"
    and "kp_pos (kc_part s) \<le> length (kp_log (kc_part s))"
    and "kp_committed (kc_part s) \<le> off" and "off < kp_committed (kc_part s')"
  shows "\<exists>a z. (off, kp_log (kc_part s') ! off, a, z) \<in> set js \<and>
    (settled off (kp_log (kc_part s') ! off) a z \<or> left off (kp_log (kc_part s') ! off) a)"
  using run_handles [OF assms(1)] assms(2-5) outcome by (metis order_refl)

lemma own_commit_is_settled:
  assumes "consumer_run handle sts s = (js, s')" and "kp_committed (kc_part s) = kp_pos (kc_part s)"
    and "kp_pos (kc_part s) \<le> length (kp_log (kc_part s))"
    and "(off, m, a, z) \<in> set js" and "kp_committed (kc_part z) \<noteq> kp_committed (kc_part a)"
  shows "kp_committed (kc_part z) = Suc off \<and> settled off m a z"
  using run_handles [OF assms(1)] assms(2-5) commits [of off m a] by (metis order_refl)

end

end
