(* ===== verification/Intake_Consumer.thy ===== *)
theory Intake_Consumer
  imports Kafka
begin

text \<open>
  The stage-5 intake consumer: \<open>messaging/kafka_intake_message.go\<close> (the wire format) and
  \<open>messaging/kafka_intake_consumer.go\<close> (decode, process with the worker's processor, give the
  tickets back on a terminal error, commit).
\<close>

section \<open>The wire format\<close>

text \<open>The value of a message is JSON text: the text \<open>json.Marshal\<close> makes of an intake message is
  represented by the message, any text that \<open>json.Unmarshal\<close> refuses by \<open>NotIntake\<close>.\<close>

datatype intake_bytes = IntakeJSON intake_message | NotIntake string

definition encodeIntakeMessage :: "intake_message \<Rightarrow> intake_bytes" where
  "encodeIntakeMessage m = IntakeJSON m"

definition DecodeIntakeMessage :: "intake_bytes \<Rightarrow> err + intake_message" where
  "DecodeIntakeMessage b = (case b of
     NotIntake _ \<Rightarrow> Inl (Wrap ''intake message: unmarshal'' (Plain ''json''))
   | IntakeJSON m \<Rightarrow>
      if im_OrderID m = uuid_Nil then Inl (Plain ''intake message: zero order_id after decode'') else Inr m)"

definition isTerminalProcessError :: "err \<Rightarrow> bool" where
  "isTerminalProcessError e \<longleftrightarrow>
     (if IsMalformedOrderInput e then True
      else errors_Is e ErrSoldOut \<or> errors_Is e ErrTicketTypeSoldOut \<or> errors_Is e ErrUserAlreadyBought)"

definition intakeToQueued :: "nat \<Rightarrow> nat \<Rightarrow> intake_message \<Rightarrow> queue_message" where
  "intakeToQueued partition_no off im =
     \<lparr>qm_MessageID = ''p'' @ strconv_Itoa (int partition_no) @ ''/o'' @ strconv_Itoa (int off),
      qm_OrderID = im_OrderID im, qm_UserID = im_UserID im, qm_EventID = im_EventID im,
      qm_Quantity = im_Quantity im, qm_ReservedUntil = time_Unix (im_ReservedUntil im),
      qm_TicketTypeID = im_TicketTypeID im, qm_AmountCents = im_AmountCents im, qm_Currency = im_Currency im\<rparr>"

section \<open>Handling\<close>

definition compensateLeakedInventory :: "ext \<Rightarrow> intake_message \<Rightarrow> world \<Rightarrow> world" where
  "compensateLeakedInventory X im w =
    (case RevertInventory (im_TicketTypeID im) (im_Quantity im) (''order:'' @ uuid_String X (im_OrderID im)) w of
       (Inl _, w1) \<Rightarrow> metric ''intake_revert_failure'' w1
     | (Inr _, w1) \<Rightarrow> w1)"

definition intake_handleMessage :: "ext \<Rightarrow> nat \<Rightarrow> nat \<Rightarrow> intake_bytes \<Rightarrow> intake_bytes consumer \<Rightarrow> intake_bytes consumer" where
  "intake_handleMessage X partition_no off b s = (case DecodeIntakeMessage b of
     Inl e \<Rightarrow> commitOrLog off s
   | Inr im \<Rightarrow> (case in_world (worker_handler X (intakeToQueued partition_no off im)) s of
        (Inr _, s1) \<Rightarrow> commitOrLog off s1
      | (Inl e, s1) \<Rightarrow>
          if isTerminalProcessError e
          then commitOrLog off (s1\<lparr>kc_world := compensateLeakedInventory X im (kc_world s1)\<rparr>)
          else s1))"

definition IntakeConsumer_Start :: "ext \<Rightarrow> nat \<Rightarrow> nat \<Rightarrow> intake_bytes consumer \<Rightarrow> unit option \<times> intake_bytes consumer" where
  "IntakeConsumer_Start X partition_no fuel = consume fuel (intake_handleMessage X partition_no)"

section \<open>What one message does\<close>

lemma compensateLeaked_frame:
  "w_pg (compensateLeakedInventory X im w) = w_pg w" "w_now (compensateLeakedInventory X im w) = w_now w"
  "reverted (w_rd (compensateLeakedInventory X im w)) (''order:'' @ uuid_String X (im_OrderID im)) \<or>
   w_metrics (compensateLeakedInventory X im w) = w_metrics w @ [''intake_revert_failure'']"
proof -
  obtain r w1 where rv: "RevertInventory (im_TicketTypeID im) (im_Quantity im) (''order:'' @ uuid_String X (im_OrderID im)) w = (r, w1)"
    by (metis surj_pair)
  note f = RevertInventory_frame [OF rv] and o = RevertInventory_outcome [OF rv]
  have m: "w_metrics w1 = w_metrics w"
    using rv by (auto simp: RevertInventory_def split: prod.splits sum.splits dest!: redis_call_frame)
  have ok: "r = Inr () \<Longrightarrow> reverted (w_rd w1) (''order:'' @ uuid_String X (im_OrderID im))"
    using o by (auto simp: gave_def split: if_splits)
  show "w_pg (compensateLeakedInventory X im w) = w_pg w" "w_now (compensateLeakedInventory X im w) = w_now w"
    "reverted (w_rd (compensateLeakedInventory X im w)) (''order:'' @ uuid_String X (im_OrderID im)) \<or>
     w_metrics (compensateLeakedInventory X im w) = w_metrics w @ [''intake_revert_failure'']"
    using rv f m ok by (cases r; simp add: compensateLeakedInventory_def)+
qed

text \<open>The metrics only grow, so those of one call can be told from the earlier ones.\<close>

definition counted :: "string \<Rightarrow> world \<Rightarrow> world \<Rightarrow> bool" where
  "counted m w w' \<longleftrightarrow> m \<in> set (drop (length (w_metrics w)) (w_metrics w'))"

definition more_metrics :: "world \<Rightarrow> world \<Rightarrow> bool" where
  "more_metrics w w' \<longleftrightarrow> (\<exists>ms. w_metrics w' = w_metrics w @ ms)"

lemma more_metrics_trans: "more_metrics w v \<Longrightarrow> more_metrics v u \<Longrightarrow> more_metrics w u"
  by (auto simp: more_metrics_def)

lemma counted_later:
  assumes "more_metrics w v" and "counted m v u"
  shows "counted m w u"
proof -
  have "length (w_metrics w) \<le> length (w_metrics v)" using assms(1) by (auto simp: more_metrics_def)
  then have "set (drop (length (w_metrics v)) (w_metrics u)) \<subseteq> set (drop (length (w_metrics w)) (w_metrics u))"
    by (rule set_drop_subset_set_drop)
  with assms(2) show ?thesis by (auto simp: counted_def)
qed

lemma uow_metrics:
  assumes run: "uow_Do body w = (r, w')" and body: "\<And>v x u. body v = (x, u) \<Longrightarrow> w_metrics u = w_metrics v"
  shows "more_metrics w w'"
proof -
  obtain f w1 where i1: "io w = (f, w1)" by (metis surj_pair)
  obtain x w2 where b: "body w1 = (x, w2)" by (metis surj_pair)
  obtain g w3 where i3: "io w2 = (g, w3)" by (metis surj_pair)
  from io_pair [OF i1] body [OF b] io_pair [OF i3] run i1 b i3 show ?thesis
    by (auto simp: uow_Do_def db_tx_def more_metrics_def split: prod.splits sum.splits fault.splits if_splits dest!: io_pair)
qed

lemma process_tx_metrics: "process_tx msg o' w = (r, w') \<Longrightarrow> w_metrics w' = w_metrics w"
  by (auto simp: process_tx_def ticketTypeRepo_DecrementTicket_def orderRepo_Create_def Let_def
      split: prod.splits sum.splits if_splits dest!: sql_exec_frame)

lemma worker_handler_metrics:
  assumes "worker_handler X msg w = (r, w')"
  shows "more_metrics w w'"
proof -
  obtain r1 w1 where p: "Process X msg w = (r1, w1)" by (metis surj_pair)
  have "more_metrics w w1"
    using p by (auto simp: Process_def more_metrics_def [of w w] split: sum.splits prod.splits
        dest!: NewOrderLifecycleEvent_frame uow_metrics [OF _ process_tx_metrics] intro: more_metrics_trans)
      (auto simp: more_metrics_def)
  with assms p show ?thesis by (auto simp: Process_metered_def more_metrics_def)
qed

text \<open>What is owed to a message before its offset is committed, said of the consumer before and after the
  call: the message is undecodable (it is skipped), its order is in the database, its tickets were
  given back, or this call counted that it could not give them back.\<close>

definition intake_settled :: "ext \<Rightarrow> nat \<Rightarrow> intake_bytes \<Rightarrow> intake_bytes consumer \<Rightarrow> intake_bytes consumer \<Rightarrow> bool" where
  "intake_settled X off b s s' \<longleftrightarrow> (case DecodeIntakeMessage b of Inl _ \<Rightarrow> True | Inr im \<Rightarrow>
     lookup or_id (im_OrderID im) (pg_orders (w_pg (kc_world s'))) \<noteq> None \<or>
     reverted (w_rd (kc_world s')) (''order:'' @ uuid_String X (im_OrderID im)) \<or>
     counted ''intake_revert_failure'' (kc_world s) (kc_world s'))"

text \<open>The one reason to leave a message behind: an error of the processor that is not terminal.\<close>

definition intake_left :: "ext \<Rightarrow> nat \<Rightarrow> nat \<Rightarrow> intake_bytes \<Rightarrow> intake_bytes consumer \<Rightarrow> bool" where
  "intake_left X k off b s \<longleftrightarrow> (case DecodeIntakeMessage b of Inl _ \<Rightarrow> False | Inr im \<Rightarrow>
     (case worker_handler X (intakeToQueued k off im) (kc_world s) of (Inl e, _) \<Rightarrow> \<not> isTerminalProcessError e | (Inr _, _) \<Rightarrow> False))"

lemma commitOrLog_metrics: "w_metrics (kc_world (commitOrLog off s)) = w_metrics (kc_world s)"
  by (auto simp: commitOrLog_def CommitMessages_def in_world_def split: prod.splits fault.splits dest!: io_pair)

lemma intake_settled_commit [simp]: "intake_settled X off b s (commitOrLog off' s') = intake_settled X off b s s'"
  by (cases "DecodeIntakeMessage b") (simp_all add: intake_settled_def counted_def commitOrLog_outcome commitOrLog_metrics)

lemma intake_handle_cases:
  obtains (skipped) e where "DecodeIntakeMessage b = Inl e" "intake_handleMessage X k off b s = commitOrLog off s"
  | (booked) im w o' where "DecodeIntakeMessage b = Inr im" "worker_handler X (intakeToQueued k off im) (kc_world s) = (Inr (), w)"
      "msg_order X (w_now (kc_world s)) (intakeToQueued k off im) = Inr o'"
      "booked (im_TicketTypeID im) (im_Quantity im) o' (w_pg (kc_world s)) (w_pg w)"
      "intake_handleMessage X k off b s = commitOrLog off (s\<lparr>kc_world := w\<rparr>)"
  | (compensated) im w e where "DecodeIntakeMessage b = Inr im"
      "worker_handler X (intakeToQueued k off im) (kc_world s) = (Inl e, w)" "isTerminalProcessError e"
      "intake_handleMessage X k off b s = commitOrLog off (s\<lparr>kc_world := compensateLeakedInventory X im w\<rparr>)"
  | (left) im w e where "DecodeIntakeMessage b = Inr im"
      "worker_handler X (intakeToQueued k off im) (kc_world s) = (Inl e, w)" "\<not> isTerminalProcessError e"
      "intake_handleMessage X k off b s = s\<lparr>kc_world := w\<rparr>"
proof (cases "DecodeIntakeMessage b")
  case (Inl e)
  then show ?thesis by (intro skipped) (simp_all add: intake_handleMessage_def)
next
  case (Inr im)
  obtain r w where h: "worker_handler X (intakeToQueued k off im) (kc_world s) = (r, w)" by (metis surj_pair)
  then have w: "in_world (worker_handler X (intakeToQueued k off im)) s = (r, s\<lparr>kc_world := w\<rparr>)" by (simp add: in_world_def)
  show ?thesis
  proof (cases r)
    case (Inl e)
    with Inr h w show ?thesis
      by (cases "isTerminalProcessError e") (auto simp: intake_handleMessage_def intro: compensated left)
  next
    case ok: (Inr u)
    with worker_handler_outcome [of X "intakeToQueued k off im" "kc_world s" "Inr ()" w] h
    show ?thesis using Inr w ok by (auto simp: intake_handleMessage_def intakeToQueued_def intro: booked)
  qed
qed

lemma intake_settles:
  "kp_committed (kc_part (intake_handleMessage X k off b s)) = kp_committed (kc_part s) \<and> intake_left X k off b s \<or>
   kp_committed (kc_part (intake_handleMessage X k off b s)) \<in> {kp_committed (kc_part s), Suc off} \<and>
     intake_settled X off b s (intake_handleMessage X k off b s)"
proof (cases rule: intake_handle_cases [of b X k off s])
  case (skipped e)
  then show ?thesis using commitOrLog_outcome(3) [of off s] by (auto simp: intake_settled_def)
next
  case (booked im w o')
  have "lookup or_id (im_OrderID im) (pg_orders (w_pg w)) \<noteq> None"
    using booked_row(1) [OF booked(4)] msg_order_Inr [OF booked(3)] by (simp add: intakeToQueued_def)
  then have "intake_settled X off b s (s\<lparr>kc_world := w\<rparr>)" by (simp add: intake_settled_def booked(1))
  with booked show ?thesis using commitOrLog_outcome(3) [of off "s\<lparr>kc_world := w\<rparr>"] by auto
next
  case (compensated im w e)
  let ?w = "compensateLeakedInventory X im w"
  have "counted ''intake_revert_failure'' w ?w" if "w_metrics ?w = w_metrics w @ [''intake_revert_failure'']"
    using that by (simp add: counted_def)
  then have "intake_settled X off b s (s\<lparr>kc_world := ?w\<rparr>)"
    using compensateLeaked_frame(3) [of X im w] counted_later [OF worker_handler_metrics [OF compensated(2)]]
    by (auto simp: intake_settled_def compensated(1))
  with compensated show ?thesis
    using commitOrLog_outcome(3) [of off "s\<lparr>kc_world := ?w\<rparr>"] by auto
next
  case (left im w e)
  then show ?thesis by (simp add: intake_left_def)
qed

interpretation intake: partition_handler "intake_handleMessage X k" "intake_settled X" "intake_left X k" for X k
proof
  fix off b and s :: "intake_bytes consumer"
  show "kp_log (kc_part (intake_handleMessage X k off b s)) = kp_log (kc_part s)"
    "kp_pos (kc_part (intake_handleMessage X k off b s)) = kp_pos (kc_part s)"
    by (cases rule: intake_handle_cases [of b X k off s]; simp add: commitOrLog_outcome)+
  show "kp_committed (kc_part (intake_handleMessage X k off b s)) = kp_committed (kc_part s) \<or>
     kp_committed (kc_part (intake_handleMessage X k off b s)) = Suc off \<and>
       intake_settled X off b s (intake_handleMessage X k off b s)"
    and "intake_settled X off b s (intake_handleMessage X k off b s) \<or> intake_left X k off b s"
    using intake_settles [of X k off b s] by auto
qed

text \<open>Handling a message keeps the schema and the books.\<close>

lemma intake_keeps_books:
  assumes "db_ok (w_pg (kc_world s))"
  shows "db_ok (w_pg (kc_world (intake_handleMessage X k off b s)))"
  using assms
  by (cases rule: intake_handle_cases [of b X k off s])
    (auto simp: commitOrLog_outcome compensateLeaked_frame dest: worker_handler_db_ok)

section \<open>Properties\<close>


definition demo_intake :: intake_message where
  "demo_intake = \<lparr>im_OrderID = 9, im_UserID = 7, im_EventID = 3, im_TicketTypeID = 5, im_Quantity = 2,
     im_ReservedUntil = 1000, im_AmountCents = 500, im_Currency = ''usd''\<rparr>"

definition demo_intake_consumer :: "intake_bytes consumer" where
  "demo_intake_consumer = \<lparr>kc_world = demo_world,
     kc_part = \<lparr>kp_log = [IntakeJSON demo_intake, IntakeJSON (demo_intake\<lparr>im_OrderID := 10, im_UserID := 8\<rparr>)],
       kp_pos = 0, kp_committed = 0\<rparr>, kc_retries = Map.empty, kc_dlq = []\<rparr>"

lemma demo_intake_books:
  assumes "i \<noteq> uuid_Nil" and "v = demo_world \<or> v = metric m demo_world"
  shows "\<exists>w2. worker_handler plain_ext (intakeToQueued 0 off (demo_intake\<lparr>im_OrderID := i\<rparr>)) v = (Inr (), w2) \<and>
    w_faults w2 = []"
  using assms
  by (elim disjE) (simp_all add: Process_metered_def Process_def NewReservation_def intakeToQueued_def demo_intake_def demo_world_def
      empty_world_def time_Unix_def isValidCurrencyCode_def NormalizeCurrency_def strings_ToLower_def
      is_ascii_def ascii_lower_def uow_Do_def db_tx_def process_tx_def ticketTypeRepo_DecrementTicket_def sql_exec_Works
      sql_decrement_type_def demo_type_def empty_pg_def orderRepo_Create_def sql_insert_order_def order_violation_def
      orderRowFromDomain_def NewOrderLifecycleEvent_def isOrderLifecycleType_def uuid_NewV7_def processing_outcome_def Let_def metric_def)


text \<open>An intake message that fails once is lost. After a transient error the consumer leaves the message
  uncommitted "for redelivery", but the reader goes on to the next one; when that succeeds its commit
  covers the failed offset, a restart begins behind it, and the customer's order never reaches the
  database although the service has accepted it.\<close>

theorem intake_transient_failure_loses_order:
  assumes b: "DecodeIntakeMessage b = Inr im" "DecodeIntakeMessage b' = Inr im'" "im_OrderID im' \<noteq> im_OrderID im"
    and fails: "worker_handler X (intakeToQueued k off im) (kc_world s) = (Inl e, w1)" "\<not> isTerminalProcessError e"
      "w_pg w1 = w_pg (kc_world s)" "w_rd w1 = w_rd (kc_world s)"
    and next_ok: "worker_handler X (intakeToQueued k (Suc off) im') w1 = (Inr (), w2)" "w_faults w2 = []"
    and absent: "lookup or_id (im_OrderID im) (pg_orders (w_pg (kc_world s))) = None"
    and s2: "s2 = reassign (intake_handleMessage X k (Suc off) b' (intake_handleMessage X k off b s))"
  shows "kp_pos (kc_part s2) = Suc (Suc off) \<and> lookup or_id (im_OrderID im) (pg_orders (w_pg (kc_world s2))) = None \<and>
    w_rd (kc_world s2) = w_rd (kc_world s)"
proof -
  have 1: "intake_handleMessage X k off b s = s\<lparr>kc_world := w1\<rparr>"
    using b fails by (simp add: intake_handleMessage_def in_world_def)
  have 2: "intake_handleMessage X k (Suc off) b' (s\<lparr>kc_world := w1\<rparr>) = commitOrLog (Suc off) (s\<lparr>kc_world := w2\<rparr>)"
    using b next_ok by (simp add: intake_handleMessage_def in_world_def)
  have c: "kp_committed (kc_part (intake_handleMessage X k (Suc off) b' (intake_handleMessage X k off b s))) = Suc (Suc off)"
    unfolding 1 2 using next_ok(2) by (simp add: commitOrLog_Works)
  obtain o' where o': "msg_order X (w_now w1) (intakeToQueued k (Suc off) im') = Inr o'"
    and bk: "booked (qm_TicketTypeID (intakeToQueued k (Suc off) im')) (qm_Quantity (intakeToQueued k (Suc off) im')) o' (w_pg w1) (w_pg w2)"
    and rd: "w_rd w2 = w_rd w1"
    using worker_handler_outcome [OF next_ok(1)] by auto
  have "id_of o' = im_OrderID im'" using msg_order_Inr [OF o'] by (simp add: intakeToQueued_def)
  then have "lookup or_id (im_OrderID im) (pg_orders (w_pg w2)) = None"
    using booked_row(3) [OF bk] absent fails(3) b(3) by (simp add: lookup_append)
  with c rd fails(4) show ?thesis unfolding s2 1 2 by (simp add: reassign_def commitOrLog_outcome)
qed

lemma demo_intake_fails:
  "worker_handler plain_ext (intakeToQueued 0 0 demo_intake) (demo_world\<lparr>w_faults := [Lost]\<rparr>) =
     (Inl (Wrap ''begin tx'' (Sentinel DbUnavailable)), metric ''db_error'' demo_world)"
  by (simp add: Process_metered_def Process_def NewReservation_def intakeToQueued_def demo_intake_def demo_world_def
      empty_world_def time_Unix_def isValidCurrencyCode_def NormalizeCurrency_def strings_ToLower_def
      is_ascii_def ascii_lower_def uow_Do_def db_tx_def io_def processing_outcome_def metric_def)

lemma intake_transient_failure_loses_order_witness:
  "\<exists>s2. s2 = reassign (intake_handleMessage plain_ext 0 1 (IntakeJSON (demo_intake\<lparr>im_OrderID := 10\<rparr>))
      (intake_handleMessage plain_ext 0 0 (IntakeJSON demo_intake)
        (demo_intake_consumer\<lparr>kc_world := demo_world\<lparr>w_faults := [Lost]\<rparr>\<rparr>))) \<and>
    kp_pos (kc_part s2) = 2 \<and> lookup or_id 9 (pg_orders (w_pg (kc_world s2))) = None"
proof -
  let ?s = "demo_intake_consumer\<lparr>kc_world := demo_world\<lparr>w_faults := [Lost]\<rparr>\<rparr>"
  obtain w2 where w2: "worker_handler plain_ext (intakeToQueued 0 (Suc 0) (demo_intake\<lparr>im_OrderID := 10\<rparr>)) (metric ''db_error'' demo_world) =
      (Inr (), w2)" "w_faults w2 = []"
    using demo_intake_books [of 10 "metric ''db_error'' demo_world"] by auto
  have b: "DecodeIntakeMessage (IntakeJSON demo_intake) = Inr demo_intake"
    "DecodeIntakeMessage (IntakeJSON (demo_intake\<lparr>im_OrderID := 10\<rparr>)) = Inr (demo_intake\<lparr>im_OrderID := 10\<rparr>)"
    by (simp_all add: DecodeIntakeMessage_def demo_intake_def)
  have "kp_pos (kc_part s2) = Suc (Suc 0) \<and> lookup or_id (im_OrderID demo_intake) (pg_orders (w_pg (kc_world s2))) = None \<and>
      w_rd (kc_world s2) = w_rd (kc_world ?s)"
    if "s2 = reassign (intake_handleMessage plain_ext 0 (Suc 0) (IntakeJSON (demo_intake\<lparr>im_OrderID := 10\<rparr>))
      (intake_handleMessage plain_ext 0 0 (IntakeJSON demo_intake) ?s))" for s2
    by (rule intake_transient_failure_loses_order [OF b _ _ _ _ _ w2 _ that])
      (simp_all add: demo_intake_fails, simp_all add: demo_intake_def isTerminalProcessError_def IsMalformedOrderInput_def
        demo_world_def empty_world_def empty_pg_def)
  then show ?thesis by (simp add: demo_intake_def)
qed

text \<open>What the service publishes is what the consumer books. The message of an accepted stage-5
  booking decodes to itself and, while the reservation runs, is turned into the order that the
  customer was shown, with its end rounded down to the second.\<close>

theorem intake_roundtrip:
  assumes run: "BookTicket5 X window ttl user tt qty w = (Inr o', w')"
  shows "\<exists>m. w_intake w' = w_intake w @ [m] \<and> DecodeIntakeMessage (encodeIntakeMessage m) = Inr m \<and>
    (0 < now \<and> now < time_Unix (Unix_of (reservedUntil o')) \<longrightarrow>
      msg_order X now (intakeToQueued k off m) =
        Inr (o'\<lparr>createdAt := now, reservedUntil := time_Unix (Unix_of (reservedUntil o'))\<rparr>))"
  using run
proof (cases rule: BookTicket5_cases)
  case (published oid us d)
  let ?m = "\<lparr>im_OrderID = oid, im_UserID = user, im_EventID = dr_EventID d,
         im_TicketTypeID = tt, im_Quantity = qty, im_ReservedUntil = Unix_of (w_now w + window),
         im_AmountCents = dr_AmountCents d, im_Currency = dr_Currency d\<rparr>"
  note N = published(2) [symmetric]
  have m: "DecodeIntakeMessage (encodeIntakeMessage ?m) = Inr ?m"
    using N by (simp add: DecodeIntakeMessage_def encodeIntakeMessage_def NewReservation_def split: if_splits)
  have u: "reservedUntil o' = w_now w + window" using N by (auto simp: NewReservation_def Let_def split: if_splits)
  have "msg_order X now (intakeToQueued k off ?m) =
        Inr (o'\<lparr>createdAt := now, reservedUntil := time_Unix (Unix_of (reservedUntil o'))\<rparr>)"
    if "0 < now \<and> now < time_Unix (Unix_of (reservedUntil o'))"
    using N that u by (auto simp: msg_order_def intakeToQueued_def NewReservation_def Let_def split: if_splits)
  with m published(5) show ?thesis by blast
qed auto


lemma intake_roundtrip_witness:
  "\<exists>o' w' m. BookTicket5 plain_ext (900 * second) 100 7 5 3 (demo_world\<lparr>w_uuids := [Some 9], w_rd := demo_redis\<rparr>) = (Inr o', w') \<and>
    w_intake w' = [m] \<and> DecodeIntakeMessage (encodeIntakeMessage m) = Inr m"
proof -
  let ?w = "demo_world\<lparr>w_uuids := [Some 9], w_rd := demo_redis\<rparr>"
  let ?d = "\<lparr>dr_Accepted = True, dr_EventID = 3, dr_AmountCents = 750, dr_Currency = ''usd''\<rparr>"
  have w: "w_now ?w = 0" "w_faults ?w = []" "w_intake ?w = []" by (simp_all add: demo_world_def empty_world_def)
  obtain w2 where gate: "DeductInventoryNoStream plain_ext 5 3 (?w\<lparr>w_uuids := []\<rparr>) = (Inr ?d, w2)" "w_faults w2 = []" "w_now w2 = 0"
    using demo_quote w by (force simp: DeductInventoryNoStream_def redis_call_Works)
  have "\<exists>o' w'. BookTicket5 plain_ext (900 * second) 100 7 5 3 ?w = (Inr o', w')"
    using gate w
    by (simp add: BookTicket5_def uuid_NewV7_def deductWithMetadataRepair_def with_repair_def Let_def PublishIntake_def
        NewReservation_def isValidCurrencyCode_def NormalizeCurrency_def strings_ToLower_def is_ascii_def ascii_lower_def)
  then obtain o' w' where run: "BookTicket5 plain_ext (900 * second) 100 7 5 3 ?w = (Inr o', w')" by blast
  from intake_roundtrip [OF run, of 1 0 0] w(3) run show ?thesis by fastforce
qed

end
