(* ===== verification/Saga_Consumer.thy ===== *)
theory Saga_Consumer
  imports Kafka
begin

text \<open>
  The consumer of the \<open>order.failed\<close> topic, \<open>messaging/saga_consumer.go\<close>: it calls the compensator,
  counts the failures of an offset in Redis, and dead-letters a message whose attempts exceed the
  limit.
\<close>

section \<open>Retry counters and dead letters\<close>

abbreviation sagaMaxRetries :: int where "sagaMaxRetries \<equiv> 3"

abbreviation sagaRetryKeyTTL :: duration where "sagaRetryKeyTTL \<equiv> 86400 * second"

definition retry_count :: "nat \<Rightarrow> 'm consumer \<Rightarrow> int" where
  "retry_count off s = (case kc_retries s off of None \<Rightarrow> 0
     | Some (n, expires) \<Rightarrow> if expires > rd_now (w_rd (kc_world s)) then n else 0)"

text \<open>\<open>MULTI; INCR key; EXPIRE key 24h; EXEC\<close>.\<close>

definition bump_retry :: "nat \<Rightarrow> 'm consumer \<Rightarrow> 'm consumer" where
  "bump_retry off s = s\<lparr>kc_retries := (kc_retries s)(off \<mapsto>
     (retry_count off s + 1, rd_now (w_rd (kc_world s)) + sagaRetryKeyTTL))\<rparr>"

definition incrRetry :: "nat \<Rightarrow> 'm consumer \<Rightarrow> (err + int) \<times> 'm consumer" where
  "incrRetry off s = (case in_world io s of
     (Works, s1) \<Rightarrow> (Inr (retry_count off s1 + 1), bump_retry off s1)
   | (Lost, s1) \<Rightarrow> (Inl (Wrap ''saga retry incr'' (Sentinel RedisUnavailable)), s1)
   | (Unacked, s1) \<Rightarrow> (Inl (Wrap ''saga retry incr'' (Sentinel RedisUnavailable)), bump_retry off s1))"

definition clearRetry :: "nat \<Rightarrow> 'm consumer \<Rightarrow> (err + unit) \<times> 'm consumer" where
  "clearRetry off s = (case in_world io s of
     (Works, s1) \<Rightarrow> (Inr (), s1\<lparr>kc_retries := (kc_retries s1)(off := None)\<rparr>)
   | (Lost, s1) \<Rightarrow> (Inl (Sentinel RedisUnavailable), s1)
   | (Unacked, s1) \<Rightarrow> (Inl (Sentinel RedisUnavailable), s1\<lparr>kc_retries := (kc_retries s1)(off := None)\<rparr>))"

definition writeDLQ :: "nat \<Rightarrow> 'm \<Rightarrow> err \<Rightarrow> 'm consumer \<Rightarrow> bool \<times> 'm consumer" where
  "writeDLQ off m cause s = (case in_world io s of
     (Works, s1) \<Rightarrow> (True, s1\<lparr>kc_dlq := kc_dlq s1 @ [(off, m, cause)]\<rparr>)
   | (Lost, s1) \<Rightarrow> (False, s1)
   | (Unacked, s1) \<Rightarrow> (False, s1\<lparr>kc_dlq := kc_dlq s1 @ [(off, m, cause)]\<rparr>))"

definition count_metric :: "string \<Rightarrow> 'm consumer \<Rightarrow> 'm consumer" where
  "count_metric m s = s\<lparr>kc_world := metric m (kc_world s)\<rparr>"

definition saga_handle :: "ext \<Rightarrow> nat \<Rightarrow> payload \<Rightarrow> payload consumer \<Rightarrow> payload consumer" where
  "saga_handle X off p s = (case in_world (HandleOrderFailed X p) s of
     (Inr _, s1) \<Rightarrow> commitOrLog off (snd (clearRetry off s1))
   | (Inl e, s1) \<Rightarrow> (case incrRetry off s1 of
        (Inl _, s2) \<Rightarrow> count_metric ''kafka_consumer_retry_transient'' s2
      | (Inr n, s2) \<Rightarrow>
          if n \<le> sagaMaxRetries then s2
          else case writeDLQ off p e s2 of
            (False, s3) \<Rightarrow> s3
          | (True, s3) \<Rightarrow>
              commitOrLog off (snd (clearRetry off (count_metric ''dlq_max_retries'' (count_metric ''saga_poison'' s3))))))"

definition SagaConsumer_Start :: "ext \<Rightarrow> nat \<Rightarrow> payload consumer \<Rightarrow> unit option \<times> payload consumer" where
  "SagaConsumer_Start X fuel = consume fuel (saga_handle X)"

lemma retry_count_world [simp]:
  "w_rd w = w_rd (kc_world s) \<Longrightarrow> retry_count off (s\<lparr>kc_world := w\<rparr>) = retry_count off s"
  by (cases "kc_retries s off") (auto simp: retry_count_def)

lemma retry_count_bump [simp]: "retry_count off (bump_retry off s) = retry_count off s + 1"
  by (simp add: bump_retry_def) (simp add: retry_count_def)

lemma in_world_io_Works: "w_faults (kc_world s) = [] \<Longrightarrow> in_world io s = (Works, s)"
  by (simp add: in_world_def)

lemma bump_frame [simp]: "kc_dlq (bump_retry off s) = kc_dlq s" "kc_part (bump_retry off s) = kc_part s"
  "kc_world (bump_retry off s) = kc_world s"
  by (simp_all add: bump_retry_def)

section \<open>What one message does\<close>

lemma incrRetry_frame:
  "incrRetry off s = (r, s') \<Longrightarrow> kc_part s' = kc_part s \<and> kc_dlq s' = kc_dlq s \<and> w_pg (kc_world s') = w_pg (kc_world s)"
  by (auto simp: incrRetry_def in_world_result bump_retry_def split: prod.splits fault.splits dest!: io_pair)

lemma clearRetry_frame:
  "kc_part (snd (clearRetry off s)) = kc_part s" "kc_dlq (snd (clearRetry off s)) = kc_dlq s"
  "w_pg (kc_world (snd (clearRetry off s))) = w_pg (kc_world s)"
  by (auto simp: clearRetry_def in_world_result split: prod.splits fault.splits dest!: io_pair)

lemma writeDLQ_frame:
  "writeDLQ off m e s = (b, s') \<Longrightarrow> kc_part s' = kc_part s \<and> w_pg (kc_world s') = w_pg (kc_world s) \<and>
     (kc_dlq s' = kc_dlq s \<or> kc_dlq s' = kc_dlq s @ [(off, m, e)]) \<and> (b \<longrightarrow> kc_dlq s' = kc_dlq s @ [(off, m, e)])"
  by (auto simp: writeDLQ_def in_world_result split: prod.splits fault.splits dest!: io_pair)

lemma count_metric_frame [simp]:
  "kc_part (count_metric m s) = kc_part s" "kc_dlq (count_metric m s) = kc_dlq s" "kc_retries (count_metric m s) = kc_retries s"
  "w_pg (kc_world (count_metric m s)) = w_pg (kc_world s)" "w_faults (kc_world (count_metric m s)) = w_faults (kc_world s)"
  by (simp_all add: count_metric_def)

lemma handled_is_compensated:
  assumes run: "HandleOrderFailed X (OrderFailedJSON ev) w = (Inr (), w')"
  shows "is_compensated (w_pg w') (ofe_OrderID ev)"
proof -
  let ?cid = "compensationID_of X (ofe_OrderID ev)" and ?i = "ofe_OrderID ev"
  obtain ru w1 where tx: "uow_Do (compensate_tx X ev ?cid) w = (ru, w1)" by (metis surj_pair)
  with run obtain already tt where ru: "ru = Inr (already, tt)"
    by (cases ru) (auto simp: HandleOrderFailed_def Let_def)
  have body: "is_compensated (w_pg v') ?i" if b: "compensate_tx X ev ?cid v = (Inr (already, tt), v')" for v v'
  proof (cases already)
    case True
    with compensate_tx_outcome [OF b] show ?thesis by (auto simp: is_compensated_def)
  next
    case False
    then have "compensated tt (ofe_Quantity ev) ?i ?cid (w_pg v) (w_pg v')" using compensate_tx_Inr [OF b] by simp
    then show ?thesis using moved_row record_completion_frame
      by (fastforce simp: compensated_def is_compensated_def)
  qed
  obtain u u' where "compensate_tx X ev ?cid u = (Inr (already, tt), u')" "w_pg w1 = w_pg u'"
    using uow.committed [OF tx [unfolded ru]] by blast
  then have c1: "is_compensated (w_pg w1) ?i" using body by simp
  obtain rq w2 where q: "sagaRepo_WasRedisReverted ?cid w1 = (rq, w2)" by (metis surj_pair)
  then have fq: "w_pg w2 = w_pg w1"
    by (auto simp: sagaRepo_WasRedisReverted_def split: prod.splits sum.splits option.splits dest!: sql_query_frame)
  have "(\<exists>v a. w_pg v = w_pg w1 \<and> revert_and_mark a tt (ofe_Quantity ev) ?cid v = (Inr (), w')) \<or> w_pg w' = w_pg w1"
    using run tx ru q fq
    by (simp add: HandleOrderFailed_def Let_def split: sum.splits if_splits) (metis metric_frame(1))+
  then have "pg_orders (w_pg w') = pg_orders (w_pg w1)"
    using revert_and_mark_outcome mark_reverted_frame by metis
  with c1 show ?thesis by (simp add: is_compensated_def)
qed

text \<open>What is owed to a message before its offset is committed, said of the consumer before and after the
  call: its order is \<open>compensated\<close> in the database, or this call wrote it to the dead-letter topic.\<close>

definition saga_settled :: "nat \<Rightarrow> payload \<Rightarrow> payload consumer \<Rightarrow> payload consumer \<Rightarrow> bool" where
  "saga_settled off p s s' \<longleftrightarrow> list_ex (\<lambda>(off', p', e). off' = off \<and> p' = p) (drop (length (kc_dlq s)) (kc_dlq s')) \<or>
     (case p of Malformed _ \<Rightarrow> False | OrderFailedJSON ev \<Rightarrow> is_compensated (w_pg (kc_world s')) (ofe_OrderID ev))"

text \<open>The one reason to leave a message behind: the compensator failed on it.\<close>

definition saga_left :: "ext \<Rightarrow> nat \<Rightarrow> payload \<Rightarrow> payload consumer \<Rightarrow> bool" where
  "saga_left X off p s \<longleftrightarrow> \<not> is_ok (fst (HandleOrderFailed X p (kc_world s)))"

lemma saga_handle_cases:
  obtains (compensated) w where "HandleOrderFailed X p (kc_world s) = (Inr (), w)"
      "saga_handle X off p s = commitOrLog off (snd (clearRetry off (s\<lparr>kc_world := w\<rparr>)))"
  | (left) w e s' where "HandleOrderFailed X p (kc_world s) = (Inl e, w)" "saga_handle X off p s = s'"
      "kc_part s' = kc_part s" "w_pg (kc_world s') = w_pg w"
  | (dead) w e s' where "HandleOrderFailed X p (kc_world s) = (Inl e, w)" "kc_part s' = kc_part s" "w_pg (kc_world s') = w_pg w"
      "kc_dlq s' = kc_dlq s @ [(off, p, e)]" "saga_handle X off p s = commitOrLog off s'"
proof -
  obtain r w where h: "HandleOrderFailed X p (kc_world s) = (r, w)" by (metis surj_pair)
  then have iw: "in_world (HandleOrderFailed X p) s = (r, s\<lparr>kc_world := w\<rparr>)" by (simp add: in_world_def)
  show thesis
  proof (cases r)
    case (Inr u)
    with h iw show ?thesis by (intro compensated) (auto simp: saga_handle_def)
  next
    case (Inl e)
    obtain n s2 where i: "incrRetry off (s\<lparr>kc_world := w\<rparr>) = (n, s2)" by (metis surj_pair)
    note fi = incrRetry_frame [OF i]
    obtain b s3 where d: "writeDLQ off p e s2 = (b, s3)" by (metis surj_pair)
    note fd = writeDLQ_frame [OF d]
    show ?thesis
    proof (cases "\<exists>k. n = Inr k \<and> \<not> k \<le> sagaMaxRetries \<and> b")
      case True
      with Inl h iw i d fi fd show ?thesis
        by (intro dead [of e w "snd (clearRetry off (count_metric ''dlq_max_retries'' (count_metric ''saga_poison'' s3)))"])
          (auto simp: saga_handle_def clearRetry_frame)
    next
      case False
      with Inl h iw i d fi fd show ?thesis
        by (intro left [of e w "saga_handle X off p s"]) (auto simp: saga_handle_def split: sum.splits if_splits)
    qed
  qed
qed

lemma saga_settles:
  "kp_committed (kc_part (saga_handle X off p s)) = kp_committed (kc_part s) \<and> saga_left X off p s \<or>
   kp_committed (kc_part (saga_handle X off p s)) \<in> {kp_committed (kc_part s), Suc off} \<and>
     saga_settled off p s (saga_handle X off p s)"
proof (cases rule: saga_handle_cases [of X p s off])
  case (compensated w)
  let ?s = "snd (clearRetry off (s\<lparr>kc_world := w\<rparr>))"
  obtain ev where p: "p = OrderFailedJSON ev"
    using compensated(1) by (cases p) (auto simp: HandleOrderFailed_def)
  have "saga_settled off p s (commitOrLog off ?s)"
    using handled_is_compensated compensated(1) p by (auto simp: saga_settled_def commitOrLog_outcome clearRetry_frame)
  with compensated(2) commitOrLog_outcome(3) [of off ?s] show ?thesis by (auto simp: clearRetry_frame)
next
  case (dead w e s')
  then have "saga_settled off p s (commitOrLog off s')" by (simp add: saga_settled_def commitOrLog_outcome)
  with dead commitOrLog_outcome(3) [of off s'] show ?thesis by auto
next
  case (left w e s')
  then show ?thesis by (simp add: saga_left_def)
qed

interpretation saga: partition_handler "saga_handle X" saga_settled "saga_left X" for X
proof
  fix off p and s :: "payload consumer"
  show "kp_log (kc_part (saga_handle X off p s)) = kp_log (kc_part s)"
    "kp_pos (kc_part (saga_handle X off p s)) = kp_pos (kc_part s)"
    by (cases rule: saga_handle_cases [of X p s off]; simp add: commitOrLog_outcome clearRetry_frame)+
  show "kp_committed (kc_part (saga_handle X off p s)) = kp_committed (kc_part s) \<or>
     kp_committed (kc_part (saga_handle X off p s)) = Suc off \<and> saga_settled off p s (saga_handle X off p s)"
    and "saga_settled off p s (saga_handle X off p s) \<or> saga_left X off p s"
    using saga_settles [of X off p s] by auto
qed

text \<open>A message that speaks of its order, or cannot be decoded, keeps the schema and the books.\<close>

lemma saga_keeps_books:
  assumes wf: "db_ok (w_pg (kc_world s))"
    and p: "case p of Malformed _ \<Rightarrow> True | OrderFailedJSON ev \<Rightarrow> faithful (w_pg (kc_world s)) ev"
  shows "db_ok (w_pg (kc_world (saga_handle X off p s)))"
proof -
  have keep: "db_ok (w_pg w')" if h: "HandleOrderFailed X p (kc_world s) = (r, w')" for r w'
  proof (cases p)
    case (Malformed t)
    with h wf show ?thesis by (auto simp: HandleOrderFailed_def)
  next
    case (OrderFailedJSON ev)
    with p have f: "faithful (w_pg (kc_world s)) ev" by simp
    then have nn: "ofe_TicketTypeID ev \<noteq> uuid_Nil" by (auto simp: faithful_def speaks_of_def split: option.splits)
    from h [unfolded OrderFailedJSON] nn show ?thesis
    proof (rule HandleOrderFailed_outcome)
      fix q assume q: "q = w_pg (kc_world s) \<or> compensated (ofe_TicketTypeID ev) (ofe_Quantity ev) (ofe_OrderID ev)
          (compensationID_of X (ofe_OrderID ev)) (w_pg (kc_world s)) q"
        and w': "w_pg w' = q \<or> (\<exists>n. sql_mark_reverted (compensationID_of X (ofe_OrderID ev)) q = Inr (n, w_pg w'))"
      from q have "db_ok q" using compensated_keeps [OF _ refl f wf] wf by blast
      with w' mark_reverted_frame show ?thesis by metis
    qed
  qed
  show ?thesis
    by (cases rule: saga_handle_cases [of X p s off]) (auto simp: commitOrLog_outcome clearRetry_frame dest: keep)
qed

section \<open>Properties\<close>


definition demo_saga_consumer :: "payload list \<Rightarrow> payload consumer" where
  "demo_saga_consumer ps = \<lparr>kc_world = demo_saga_world, kc_part = \<lparr>kp_log = ps, kp_pos = 0, kp_committed = 0\<rparr>,
     kc_retries = Map.empty, kc_dlq = []\<rparr>"


text \<open>The counter of an offset whose handling fails.\<close>

lemma poison_step:
  assumes nf: "w_faults (kc_world s) = []"
  shows "saga_handle X off (Malformed t) s =
    (let s1 = s\<lparr>kc_world := record_outcome ''unmarshal_error'' (kc_world s)\<rparr>; n = retry_count off s + 1 in
     if n \<le> sagaMaxRetries then bump_retry off s1
     else commitOrLog off (snd (clearRetry off (count_metric ''dlq_max_retries'' (count_metric ''saga_poison''
       ((bump_retry off s1)\<lparr>kc_dlq := kc_dlq s @ [(off, Malformed t, Wrap ''compensator.HandleOrderFailed unmarshal'' (Plain ''json''))]\<rparr>))))))"
proof -
  have h: "in_world (HandleOrderFailed X (Malformed t)) s = (Inl (Wrap ''compensator.HandleOrderFailed unmarshal'' (Plain ''json'')),
      s\<lparr>kc_world := record_outcome ''unmarshal_error'' (kc_world s)\<rparr>)"
    by (simp add: in_world_def HandleOrderFailed_def)
  show ?thesis using nf by (simp add: saga_handle_def h incrRetry_def writeDLQ_def in_world_io_Works Let_def)
qed

lemma poison_counts:
  assumes nf: "w_faults (kc_world s) = []" and n: "retry_count off s + 1 \<le> sagaMaxRetries"
    and s': "s' = saga_handle X off (Malformed t) s"
  shows "w_faults (kc_world s') = [] \<and> retry_count off s' = retry_count off s + 1 \<and> kc_dlq s' = kc_dlq s \<and>
    kp_committed (kc_part s') = kp_committed (kc_part s)"
proof -
  have "s' = bump_retry off (s\<lparr>kc_world := record_outcome ''unmarshal_error'' (kc_world s)\<rparr>)"
    using n nf by (simp add: s' poison_step Let_def)
  with nf show ?thesis by simp
qed

lemma retry_count_part [simp]: "retry_count off (s\<lparr>kc_part := p\<rparr>) = retry_count off s"
  by (cases "kc_retries s off") (auto simp: retry_count_def)

text \<open>A poison message at the committed offset: one poll leaves it, the restart reads it again, and its
  counter survives a wait of less than a day.\<close>

definition at_poison :: "nat \<Rightarrow> string \<Rightarrow> payload consumer \<Rightarrow> bool" where
  "at_poison off t s \<longleftrightarrow> w_faults (kc_world s) = [] \<and> kp_pos (kc_part s) = off \<and> kp_committed (kc_part s) = off \<and>
     off < length (kp_log (kc_part s)) \<and> kp_log (kc_part s) ! off = Malformed t"

lemma poison_poll:
  assumes "at_poison off t s"
  shows "consumer_step (saga_handle X) Poll s =
    ([(off, Malformed t, s\<lparr>kc_part := (kc_part s)\<lparr>kp_pos := Suc off\<rparr>\<rparr>,
        saga_handle X off (Malformed t) (s\<lparr>kc_part := (kc_part s)\<lparr>kp_pos := Suc off\<rparr>\<rparr>))],
     saga_handle X off (Malformed t) (s\<lparr>kc_part := (kc_part s)\<lparr>kp_pos := Suc off\<rparr>\<rparr>))"
  using assms by (simp add: at_poison_def FetchMessage_def in_world_def Let_def)

lemma poison_redelivered:
  assumes at: "at_poison off t s" and n: "retry_count off s + 1 \<le> sagaMaxRetries" and d: "d < 86400 * second"
    and run: "consumer_run (saga_handle X) ([Poll, Crash, Elsewhere (time_passes d)] @ sts) s = (js, s')"
  shows "\<exists>s1 js1 js2. consumer_run (saga_handle X) sts s1 = (js2, s') \<and> js = js1 @ js2 \<and> at_poison off t s1 \<and>
    retry_count off s1 = retry_count off s + 1 \<and> kc_dlq s1 = kc_dlq s"
proof -
  let ?s1 = "s\<lparr>kc_part := (kc_part s)\<lparr>kp_pos := Suc off\<rparr>\<rparr>"
  let ?h = "saga_handle X off (Malformed t) ?s1"
  define s2 where "s2 = (let u = reassign ?h in u\<lparr>kc_world := time_passes d (kc_world u)\<rparr>)"
  have h: "?h = bump_retry off (?s1\<lparr>kc_world := record_outcome ''unmarshal_error'' (kc_world s)\<rparr>)"
    using at n by (subst poison_step) (simp_all add: at_poison_def Let_def)
  have "retry_count off s2 = retry_count off s + 1"
    using d by (simp add: s2_def h Let_def reassign_def bump_retry_def time_passes_def)
      (simp add: retry_count_def metric_def)
  moreover have "at_poison off t s2" "kc_dlq s2 = kc_dlq s"
    using at by (simp_all add: s2_def h Let_def reassign_def bump_retry_def time_passes_def at_poison_def metric_def)
  moreover have "\<exists>js1 js2. consumer_run (saga_handle X) sts s2 = (js2, s') \<and> js = js1 @ js2"
    using run poison_poll [OF at, of X]
    by (auto simp: s2_def Let_def apfst_def map_prod_def split: prod.splits)
  ultimately show ?thesis by blast
qed



text \<open>A failed compensation below the retry limit is not committed, but the next message's commit covers
  it: after a restart the group never reads it again, although the code calls this "retry later"; only
  the watchdog can still drive its order.\<close>

lemma saga_retry_is_skipped:
  assumes fails: "HandleOrderFailed X p (kc_world s) = (Inl e, w1)" "w_faults w1 = []"
      "retry_count off (s\<lparr>kc_world := w1\<rparr>) + 1 \<le> sagaMaxRetries"
    and next_ok: "HandleOrderFailed X p' w1 = (Inr (), w2)" "w_faults w2 = []"
    and s2: "s2 = saga_handle X (Suc off) p' (saga_handle X off p s)"
  shows "kp_committed (kc_part (saga_handle X off p s)) = kp_committed (kc_part s) \<and>
    off < kp_pos (kc_part (reassign s2)) \<and> kc_dlq s2 = kc_dlq s"
proof -
  have 1: "saga_handle X off p s = bump_retry off (s\<lparr>kc_world := w1\<rparr>)"
    using fails by (simp add: saga_handle_def in_world_def incrRetry_def Let_def)
  have 2: "saga_handle X (Suc off) p' (bump_retry off (s\<lparr>kc_world := w1\<rparr>)) = commitOrLog (Suc off) (snd (clearRetry (Suc off) ((bump_retry off (s\<lparr>kc_world := w1\<rparr>))\<lparr>kc_world := w2\<rparr>)))"
    using next_ok by (simp add: saga_handle_def in_world_def bump_retry_def)
  have "kp_committed (kc_part s2) = Suc (Suc off)"
    using next_ok(2) by (simp add: s2 1 2 clearRetry_def in_world_def commitOrLog_Works)
  then show ?thesis
    using 1 2 s2
    by (simp add: reassign_def bump_retry_def commitOrLog_outcome clearRetry_frame)
qed

end
