(* ===== verification/Outbox.thy ===== *)
theory Outbox
  imports Saga
begin

text \<open>
  The transactional outbox: a transaction that fails an order also inserts its \<open>order.failed\<close> event,
  and the relay (\<open>application/outbox/relay.go\<close>) publishes the pending events under a leader lock
  (\<open>messaging/kafka_publisher.go\<close>) and marks them processed.
\<close>

section \<open>Emitting\<close>

text \<open>What a transaction that fails an order does to the database: the transition, and one pending event.\<close>

definition emitted :: "mark_op \<Rightarrow> uuid \<Rightarrow> order_failed_event \<Rightarrow> pg \<Rightarrow> pg \<Rightarrow> bool" where
  "emitted m i ev p p' \<longleftrightarrow> (\<exists>p1 e. moved m i p p1 \<and> sql_insert_outbox e p1 = Inr (1, p') \<and>
     ob_payload e = OrderFailedJSON ev \<and> ob_processedAt e = None)"

definition build_outbox :: "payload \<Rightarrow> world \<Rightarrow> (err + outbox_event) \<times> world" where
  "build_outbox p w = (case uuid_NewV7 w of (u, w1) \<Rightarrow> (NewOrderFailedOutbox (w_now w1) u p, w1))"

lemma outboxRepo_Create_outcome:
  assumes "outboxRepo_Create e w = (r, w')"
  shows "w_rd w' = w_rd w \<and> w_now w' = w_now w \<and> w_bus w' = w_bus w \<and> w_intake w' = w_intake w \<and> w_failed w' = w_failed w \<and>
    (\<forall>c. r = Inr c \<longrightarrow> sql_insert_outbox (e\<lparr>ob_processedAt := None\<rparr>) (w_pg w) = Inr (1, w_pg w'))"
proof -
  obtain re w1 where x: "sql_exec (sql_insert_outbox (e\<lparr>ob_processedAt := None\<rparr>)) w = (re, w1)" by (metis surj_pair)
  have one: "sql_insert_outbox a p = Inr (n, p') \<Longrightarrow> n = 1" for a p n p' by (auto simp: sql_insert_outbox_def split: if_splits)
  have "re = Inr n \<Longrightarrow> sql_insert_outbox (e\<lparr>ob_processedAt := None\<rparr>) (w_pg w) = Inr (1, w_pg w1)" for n
    using sql_exec_Inr [of "sql_insert_outbox (e\<lparr>ob_processedAt := None\<rparr>)" w n w1] x one by fastforce
  with assms x sql_exec_frame [OF x] show ?thesis by (auto simp: outboxRepo_Create_def split: sum.splits)
qed

lemma build_outbox_outcome:
  "build_outbox p w = (r, w') \<Longrightarrow> w_pg w' = w_pg w \<and> w_rd w' = w_rd w \<and> w_now w' = w_now w \<and> w_bus w' = w_bus w \<and>
     w_intake w' = w_intake w \<and> w_failed w' = w_failed w \<and> w_faults w' = w_faults w \<and>
     (\<forall>e. r = Inr e \<longrightarrow> ob_payload e = p \<and> ob_processedAt e = None \<and> ob_createdAt e = w_now w)"
  by (auto simp: build_outbox_def NewOrderFailedOutbox_def split: prod.splits option.splits dest!: uuid_NewV7_frame)

section \<open>Events that speak of their orders\<close>

definition typed :: "pg \<Rightarrow> bool" where
  "typed p \<longleftrightarrow> list_all (\<lambda>r. case or_tt r of None \<Rightarrow> False | Some tt \<Rightarrow> tt \<noteq> uuid_Nil) (pg_orders p)"

definition event_ok :: "pg \<Rightarrow> outbox_event \<Rightarrow> bool" where
  "event_ok p e \<longleftrightarrow> (case ob_payload e of Malformed _ \<Rightarrow> True | OrderFailedJSON ev \<Rightarrow> faithful p ev)"

definition events_ok :: "world \<Rightarrow> bool" where
  "events_ok w \<longleftrightarrow> list_all (event_ok (w_pg w)) (pg_outbox (w_pg w) @ w_failed w)"

text \<open>The database and the events: what every component keeps.\<close>

definition sys_ok :: "world \<Rightarrow> bool" where
  "sys_ok w \<longleftrightarrow> db_ok (w_pg w) \<and> typed (w_pg w) \<and> events_ok w"

lemma sys_ok_clock:
  assumes "sys_ok w" and "w_pg v = (w_pg w)\<lparr>pg_now := t\<rparr>" and "w_failed v = w_failed w"
  shows "sys_ok v"
proof -
  have "event_ok (w_pg v) = event_ok (w_pg w)"
    by (auto simp: fun_eq_iff event_ok_def faithful_def assms(2) split: payload.splits)
  with assms show ?thesis
    by (simp add: sys_ok_def typed_def events_ok_def db_ok_def pg_wf_def ledger_ok_def)
qed

lemma event_of_row:
  assumes "typed p" and "lookup or_id i (pg_orders p) = Some r"
  shows "speaks_of (NewOrderFailedEventFromOrder now (order_toDomain r) reason) r" "or_id r = i"
proof -
  have "r \<in> set (pg_orders p)" and i: "or_id r = i" using lookup_in_set [OF assms(2)] by auto
  then obtain tt where "or_tt r = Some tt" "tt \<noteq> uuid_Nil" using assms(1) by (auto simp: typed_def list_all_iff split: option.splits)
  then show "speaks_of (NewOrderFailedEventFromOrder now (order_toDomain r) reason) r"
    by (simp add: speaks_of_def NewOrderFailedEventFromOrder_def order_toDomain_def ReconstructOrder_def)
  show "or_id r = i" by (rule i)
qed

lemma typed_keys: "(\<forall>r' \<in> set (pg_orders p'). \<exists>r \<in> set (pg_orders p). or_tt r' = or_tt r) \<Longrightarrow> typed p \<Longrightarrow> typed p'"
  by (fastforce simp: typed_def list_all_iff)

lemma moved_typed:
  assumes mv: "moved m i p p'" and t: "typed p"
  shows "typed p'"
proof (rule typed_keys [OF _ t], rule ballI)
  fix r' assume r': "r' \<in> set (pg_orders p')"
  obtain r where r: "lookup or_id i (pg_orders p) = Some r" and p': "pg_orders p' = update_where (\<lambda>x. or_id x = i)
      (\<lambda>_. r\<lparr>or_status := mark_target m, or_updated := pg_now p\<rparr>) (pg_orders p)"
    using mv by (auto simp: moved_def)
  from r' show "\<exists>r \<in> set (pg_orders p). or_tt r' = or_tt r"
    using lookup_in_set [OF r] by (auto simp: p' update_where_def)
qed

lemma event_ok_mono:
  "(\<And>ev. faithful p ev \<Longrightarrow> faithful p' ev) \<Longrightarrow> event_ok p e \<Longrightarrow> event_ok p' e"
  by (simp add: event_ok_def split: payload.splits)

lemma insert_outbox_frame:
  "sql_insert_outbox e p = Inr (n, p') \<Longrightarrow> pg_orders p' = pg_orders p \<and> pg_types p' = pg_types p \<and> pg_history p' = pg_history p \<and>
     pg_outbox p' = pg_outbox p @ [e] \<and> pg_saga p' = pg_saga p \<and> pg_now p' = pg_now p \<and> (db_ok p \<longrightarrow> db_ok p')"
  using pg_wf_insert_outbox [of e p n p'] by (auto simp: sql_insert_outbox_def db_ok_def ledger_ok_def split: if_splits)

text \<open>Failing an order with its event keeps the system invariant.\<close>

lemma emitted_sys_ok:
  assumes em: "emitted m i ev (w_pg w) p'" and m: "m \<noteq> MarkCompensated" and ok: "sys_ok w" and f: "faithful (w_pg w) ev"
    and w': "w_pg w' = p'" "w_failed w' = w_failed w"
  shows "sys_ok w'"
proof -
  obtain p1 e where mv: "moved m i (w_pg w) p1" and ins: "sql_insert_outbox e p1 = Inr (1, p')" and e: "ob_payload e = OrderFailedJSON ev"
    using em by (auto simp: emitted_def)
  note fi = insert_outbox_frame [OF ins]
  have mono: "event_ok (w_pg w) x \<Longrightarrow> event_ok p' x" for x
    using fi by (elim event_ok_mono [rotated]) (auto simp: faithful_def dest: moved_faithful [OF mv, unfolded faithful_def])
  have "db_ok p'" using moved_db_ok [OF mv _ m] ok fi by (simp add: sys_ok_def)
  moreover have "typed p'" using moved_typed [OF mv] ok fi by (simp add: sys_ok_def typed_def)
  moreover have "event_ok p' e" using mono [of e] f e by (simp add: event_ok_def)
  ultimately show ?thesis using ok mono fi moved_frame [OF mv] w'
    by (auto simp: sys_ok_def events_ok_def list_all_iff)
qed

section \<open>The publisher and the relay\<close>

definition PublishOutboxEvent :: "outbox_event \<Rightarrow> world \<Rightarrow> (err + unit) \<times> world" where
  "PublishOutboxEvent e w =
    (if ob_createdAt e = 0 then (Inl (Plain ''kafkaPublisher: refusing to publish outbox event with zero CreatedAt''), w)
     else case io w of
       (Works, w1) \<Rightarrow> (Inr (), w1\<lparr>w_failed := w_failed w1 @ [e]\<rparr>)
     | (Lost, w1) \<Rightarrow> (Inl (Sentinel BrokerUnavailable), w1)
     | (Unacked, w1) \<Rightarrow> (Inl (Sentinel BrokerUnavailable), w1\<lparr>w_failed := w_failed w1 @ [e]\<rparr>))"

fun relay_events :: "outbox_event list \<Rightarrow> world \<Rightarrow> (err + unit) \<times> world" where
  "relay_events [] w = (Inr (), w)"
| "relay_events (e # es) w = (case ctx_Err w of
     (True, w1) \<Rightarrow> (Inl (Sentinel ContextCanceled), w1)
   | (False, w1) \<Rightarrow> (case PublishOutboxEvent e w1 of
        (Inl _, w2) \<Rightarrow> relay_events es w2
      | (Inr _, w2) \<Rightarrow> relay_events es (snd (outboxRepo_MarkProcessed (ob_id e) w2))))"

definition relay_batchSize :: "int \<Rightarrow> int" where
  "relay_batchSize n = (if n \<le> 0 then 100 else n)"

definition relay_processBatch :: "int \<Rightarrow> world \<Rightarrow> (err + unit) \<times> world" where
  "relay_processBatch batchSize w = (case outboxRepo_ListPending batchSize w of
     (Inl e, w1) \<Rightarrow> (Inl (Wrap ''outbox relay list pending'' e), w1)
   | (Inr events, w1) \<Rightarrow> relay_events events w1)"

text \<open>The ticker loop, one element of the list per tick: whether another session holds the lock then. The
  context ends with the list; \<open>conn\<close> says that this process holds the lock, \<open>wasLeader\<close> that it has
  held it at some tick.\<close>

fun relay_run :: "int \<Rightarrow> bool list \<Rightarrow> bool \<Rightarrow> bool \<Rightarrow> world \<Rightarrow> bool \<times> world" where
  "relay_run batchSize [] wasLeader conn w =
    (if wasLeader then (case pgAdvisoryLock_Unlock conn w of (_, conn', w1) \<Rightarrow> (conn', w1)) else (conn, w))"
| "relay_run batchSize (other # ticks) wasLeader conn w = (case pgAdvisoryLock_TryLock other conn w of
     (Inl _, conn', w1) \<Rightarrow> relay_run batchSize ticks wasLeader conn' w1
   | (Inr acquired, conn', w1) \<Rightarrow>
       if \<not> acquired then relay_run batchSize ticks wasLeader conn' w1
       else relay_run batchSize ticks True conn' (snd (relay_processBatch batchSize w1)))"

section \<open>At least once\<close>

text \<open>Every processed event has been published.\<close>

definition published_ok :: "world \<Rightarrow> bool" where
  "published_ok w \<longleftrightarrow> list_all (\<lambda>e. ob_processedAt e = None \<or>
     list_ex (\<lambda>m. ob_id m = ob_id e) (w_failed w)) (pg_outbox (w_pg w))"

lemma MarkProcessed_outcome:
  assumes "outboxRepo_MarkProcessed i w = (r, w')"
  shows "w_rd w' = w_rd w \<and> w_now w' = w_now w \<and> w_bus w' = w_bus w \<and> w_intake w' = w_intake w \<and> w_failed w' = w_failed w \<and>
    (w_pg w' = w_pg w \<or> w_pg w' = (w_pg w)\<lparr>pg_outbox := update_where (\<lambda>e. ob_id e = i)
       (\<lambda>e. e\<lparr>ob_processedAt := Some (pg_now (w_pg w))\<rparr>) (pg_outbox (w_pg w))\<rparr>)"
proof -
  obtain re w1 where x: "sql_exec (sql_mark_processed i) w = (re, w1)" by (metis surj_pair)
  have "w_pg w1 = w_pg w \<or> (\<exists>n. sql_mark_processed i (w_pg w) = Inr (n, w_pg w1))"
    using x by (rule sql_exec_cases) auto
  with assms x sql_exec_frame [OF x] show ?thesis
    by (auto simp: outboxRepo_MarkProcessed_def sql_mark_processed_def split: sum.splits)
qed

lemma PublishOutboxEvent_outcome:
  assumes "PublishOutboxEvent e w = (r, w')"
  shows "w_pg w' = w_pg w \<and> w_rd w' = w_rd w \<and> w_now w' = w_now w \<and> w_bus w' = w_bus w \<and> w_intake w' = w_intake w \<and>
    (w_failed w' = w_failed w \<or> w_failed w' = w_failed w @ [e]) \<and> (r = Inr () \<longrightarrow> w_failed w' = w_failed w @ [e])"
  using assms by (auto simp: PublishOutboxEvent_def split: if_splits prod.splits fault.splits dest!: io_pair)

lemma listed_events:
  assumes "outboxRepo_ListPending n w = (Inr es, w')"
  shows "es = take (nat n) (sort_key ob_id (filter (\<lambda>e. ob_processedAt e = None) (pg_outbox (w_pg w)))) \<and>
    set es \<subseteq> {e \<in> set (pg_outbox (w_pg w)). ob_processedAt e = None}"
proof -
  have "es = take (nat n) (sort_key ob_id (filter (\<lambda>e. ob_processedAt e = None) (pg_outbox (w_pg w))))"
    using assms by (auto simp: outboxRepo_ListPending_def split: prod.splits sum.splits dest!: sql_query_result)
  then show ?thesis by (auto dest: in_set_takeD)
qed

text \<open>A relay step keeps every invariant that publishing a pending event and marking a published one
  keep.\<close>

locale relay_invariant =
  fixes I :: "world \<Rightarrow> bool" and P :: "world \<Rightarrow> outbox_event \<Rightarrow> bool"
  assumes same: "w_pg w' = w_pg w \<Longrightarrow> w_failed w' = w_failed w \<Longrightarrow> I w \<Longrightarrow> I w'"
    and same_P: "w_pg w' = w_pg w \<Longrightarrow> P w e \<Longrightarrow> P w' e"
    and published: "I w \<Longrightarrow> P w e \<Longrightarrow> w_pg w' = w_pg w \<Longrightarrow> w_failed w' = w_failed w @ [e] \<Longrightarrow> I w'"
    and marked: "I w \<Longrightarrow> e \<in> set (w_failed w) \<Longrightarrow> w_failed w' = w_failed w \<Longrightarrow>
      w_pg w' = (w_pg w)\<lparr>pg_outbox := update_where (\<lambda>x. ob_id x = ob_id e)
       (\<lambda>x. x\<lparr>ob_processedAt := Some (pg_now (w_pg w))\<rparr>) (pg_outbox (w_pg w))\<rparr> \<Longrightarrow> I w'"
    and marked_P: "P w x \<Longrightarrow>
      w_pg w' = (w_pg w)\<lparr>pg_outbox := update_where (\<lambda>x. ob_id x = i)
       (\<lambda>x. x\<lparr>ob_processedAt := Some (pg_now (w_pg w))\<rparr>) (pg_outbox (w_pg w))\<rparr> \<Longrightarrow> P w' x"
    and listed: "I w \<Longrightarrow> e \<in> set (pg_outbox (w_pg w)) \<Longrightarrow> P w e"
begin

lemma relay_events_keeps:
  assumes "relay_events es w = (r, w')" and "I w" and "list_all (P w) es"
  shows "I w'"
  using assms
proof (induction es arbitrary: w)
  case Nil
  then show ?case by simp
next
  case (Cons e es)
  obtain b w1 where c: "ctx_Err w = (b, w1)" by (metis surj_pair)
  note fc = ctx_Err_frame [OF c]
  have I1: "I w1" and P1: "P w1 e" "list_all (P w1) es"
    using fc same [of w1 w] same_P [of w1 w] Cons.prems by (auto simp: list_all_iff)
  show ?case
  proof (cases b)
    case True
    with Cons.prems c I1 show ?thesis by simp
  next
    case False
    obtain x w2 where p: "PublishOutboxEvent e w1 = (x, w2)" by (metis surj_pair)
    note fp = PublishOutboxEvent_outcome [OF p]
    have I2: "I w2" and P2: "list_all (P w2) es"
      using fp published [OF I1 P1(1), of w2] same [of w2 w1] I1 same_P [of w2 w1] P1 by (auto simp: list_all_iff)
    show ?thesis
    proof (cases x)
      case (Inl y)
      with Cons False c p I2 P2 show ?thesis by simp
    next
      case (Inr y)
      then have mem: "e \<in> set (w_failed w2)" using fp by simp
      obtain z w3 where m: "outboxRepo_MarkProcessed (ob_id e) w2 = (z, w3)" by (metis surj_pair)
      note fm = MarkProcessed_outcome [OF m]
      have "I w3" using fm marked [OF I2 mem, of w3] same [of w3 w2] I2 by auto
      moreover have "list_all (P w3) es"
        using fm P2 same_P [of w3 w2] marked_P [of w2 _ w3 "ob_id e"] by (auto simp: list_all_iff)
      ultimately show ?thesis using Cons.IH [of w3] Cons.prems(1) Inr False c p m by simp
    qed
  qed
qed

lemma processBatch_keeps:
  assumes run: "relay_processBatch n w = (r, w')" and I: "I w"
  shows "I w'"
proof -
  obtain x w1 where l: "outboxRepo_ListPending n w = (x, w1)" by (metis surj_pair)
  have fr: "w_pg w1 = w_pg w \<and> w_failed w1 = w_failed w"
    using l by (auto simp: outboxRepo_ListPending_def split: prod.splits sum.splits dest!: sql_query_frame)
  have mem: "x = Inr es \<Longrightarrow> set es \<subseteq> set (pg_outbox (w_pg w))" for es
    using listed_events [of n w es w1] l by auto
  have I1: "I w1" using same [of w1 w] fr I by simp
  show ?thesis
  proof (cases x)
    case (Inl e)
    with run l I1 show ?thesis by (simp add: relay_processBatch_def)
  next
    case (Inr es)
    have "list_all (P w1) es" using mem [OF Inr] listed [OF I1] fr by (auto simp: list_all_iff)
    with run l Inr I1 relay_events_keeps show ?thesis by (auto simp: relay_processBatch_def)
  qed
qed

lemma relay_run_keeps: "relay_run n ticks wasLeader conn w = (c, w') \<Longrightarrow> I w \<Longrightarrow> I w'"
proof (induction ticks arbitrary: wasLeader conn w)
  case Nil
  then show ?case
    by (auto simp: pgAdvisoryLock_Unlock_def split: if_splits prod.splits dest!: sql_query_frame elim!: same [rotated 2])
next
  case (Cons other ticks)
  obtain x c1 w1 where t: "pgAdvisoryLock_TryLock other conn w = (x, c1, w1)" by (metis prod_cases3)
  have "w_pg w1 = w_pg w \<and> w_failed w1 = w_failed w"
    using t by (auto simp: pgAdvisoryLock_TryLock_def split: if_splits prod.splits fault.splits sum.splits
        dest!: io_pair sql_query_frame)
  then have I1: "I w1" using same [of w1 w] Cons.prems(2) by simp
  obtain y w2 where b: "relay_processBatch n w1 = (y, w2)" by (metis surj_pair)
  have I2: "I w2" by (rule processBatch_keeps [OF b I1])
  show ?case
  proof (cases x)
    case (Inl e)
    with Cons I1 t show ?thesis by simp
  next
    case (Inr a)
    with Cons I1 I2 t b show ?thesis by (cases a) simp_all
  qed
qed

end

text \<open>Marking a row of the outbox moves nothing else.\<close>

lemma marked_sys_ok:
  assumes ok: "sys_ok w" and f: "w_failed w' = w_failed w"
    and pg: "w_pg w' = (w_pg w)\<lparr>pg_outbox := update_where (\<lambda>x. ob_id x = i)
       (\<lambda>x. x\<lparr>ob_processedAt := Some (pg_now (w_pg w))\<rparr>) (pg_outbox (w_pg w))\<rparr>"
  shows "sys_ok w'"
proof -
  have "map ob_id (pg_outbox (w_pg w')) = map ob_id (pg_outbox (w_pg w))"
    unfolding pg by simp (rule keys_update_where, simp)
  then have "db_ok (w_pg w')" using ok by (simp add: pg sys_ok_def db_ok_def pg_wf_def ledger_ok_def)
  moreover have "event_ok (w_pg w') e = event_ok (w_pg w) e" for e
    by (cases "ob_payload e") (simp_all add: event_ok_def faithful_def pg)
  moreover have "event_ok p (e\<lparr>ob_processedAt := t\<rparr>) = event_ok p e" for p e t by (simp add: event_ok_def)
  ultimately show ?thesis using ok f
    by (auto simp: sys_ok_def typed_def events_ok_def list_all_iff pg update_where_def)
qed

interpretation relay_sys: relay_invariant sys_ok "\<lambda>w e. event_ok (w_pg w) e"
proof
  fix w w' :: world and e x :: outbox_event and i
  let ?mark = "\<lambda>i. (w_pg w)\<lparr>pg_outbox := update_where (\<lambda>x. ob_id x = i)
       (\<lambda>x. x\<lparr>ob_processedAt := Some (pg_now (w_pg w))\<rparr>) (pg_outbox (w_pg w))\<rparr>"
  show "sys_ok w'" if "w_pg w' = w_pg w" "w_failed w' = w_failed w" "sys_ok w"
    using that by (simp add: sys_ok_def events_ok_def)
  show "event_ok (w_pg w') e" if "w_pg w' = w_pg w" "event_ok (w_pg w) e" using that by simp
  show "sys_ok w'" if "sys_ok w" "event_ok (w_pg w) e" "w_pg w' = w_pg w" "w_failed w' = w_failed w @ [e]"
    using that by (simp add: sys_ok_def events_ok_def)
  show "sys_ok w'" if "sys_ok w" "e \<in> set (w_failed w)" "w_failed w' = w_failed w" "w_pg w' = ?mark (ob_id e)"
    using that by (intro marked_sys_ok [of w w'])
  show "event_ok (w_pg w') x" if "event_ok (w_pg w) x" "w_pg w' = ?mark i"
    using that by (cases "ob_payload x") (simp_all add: event_ok_def faithful_def)
  show "event_ok (w_pg w) e" if "sys_ok w" "e \<in> set (pg_outbox (w_pg w))"
    using that by (simp add: sys_ok_def events_ok_def list_all_iff)
qed

interpretation relay_published: relay_invariant published_ok "\<lambda>_ _. True"
proof
  fix w w' :: world and e :: outbox_event
  show "published_ok w'" if "w_pg w' = w_pg w" "w_failed w' = w_failed w" "published_ok w"
    using that by (simp add: published_ok_def)
  show "published_ok w'" if "published_ok w" "w_pg w' = w_pg w" "w_failed w' = w_failed w @ [e]"
    using that by (auto simp: published_ok_def list_all_iff)
  show "published_ok w'" if "published_ok w" "e \<in> set (w_failed w)" "w_failed w' = w_failed w"
    "w_pg w' = (w_pg w)\<lparr>pg_outbox := update_where (\<lambda>x. ob_id x = ob_id e)
       (\<lambda>x. x\<lparr>ob_processedAt := Some (pg_now (w_pg w))\<rparr>) (pg_outbox (w_pg w))\<rparr>"
    using that by (auto simp: published_ok_def list_all_iff list_ex_iff update_where_def)
qed simp_all

text \<open>C10: the outbox delivers at least once. Over any number of ticks, with any other instance holding the
  lock in between and whatever calls fail, an event is marked processed only if it is in the
  topic, and every event in the outbox or in the topic speaks of its stored order.\<close>

theorem outbox_at_least_once:
  assumes "relay_run n ticks wasLeader conn w = (c, w')" and "sys_ok w" and "published_ok w"
  shows "sys_ok w' \<and> published_ok w'"
  using relay_sys.relay_run_keeps [OF assms(1,2)] relay_published.relay_run_keeps [OF assms(1,3)] by simp

definition demo_outbox_world :: world where
  "demo_outbox_world = demo_saga_world\<lparr>w_pg := (w_pg demo_saga_world)\<lparr>pg_outbox :=
     [\<lparr>ob_id = 1, ob_eventType = ''order.failed'', ob_payload = OrderFailedJSON demo_failed_event,
       ob_status = ''PENDING'', ob_createdAt = 60, ob_processedAt = None\<rparr>]\<rparr>\<rparr>"

lemma demo_outbox_ok: "sys_ok demo_outbox_world" "published_ok demo_outbox_world"
proof -
  have "db_ok (w_pg demo_outbox_world)"
    using demo_saga_world_ok by (simp add: demo_outbox_world_def db_ok_def pg_wf_def ledger_ok_def)
  then show "sys_ok demo_outbox_world"
    by (simp add: sys_ok_def demo_outbox_world_def demo_saga_world_def typed_def events_ok_def event_ok_def faithful_def
        speaks_of_def demo_failed_event_def demo_expired_def empty_world_def)
  show "published_ok demo_outbox_world" by (simp add: published_ok_def demo_outbox_world_def)
qed

lemma outbox_at_least_once_witness:
  "published_ok (snd (relay_run 10 [True, False, False] False False (demo_outbox_world\<lparr>w_faults := [Works, Works, Lost]\<rparr>)))"
proof -
  let ?w = "demo_outbox_world\<lparr>w_faults := [Works, Works, Lost]\<rparr>"
  have "sys_ok ?w" "published_ok ?w"
    using demo_outbox_ok by (simp_all add: sys_ok_def events_ok_def published_ok_def)
  with outbox_at_least_once [of 10 "[True, False, False]" False False ?w] show ?thesis by (metis prod.collapse)
qed

text \<open>With every call working, a batch publishes the listed events in order and marks each of them.\<close>

lemma relay_events_works:
  assumes "w_faults w = []" and "list_all (\<lambda>e. ob_createdAt e \<noteq> 0) es"
  shows "\<exists>w'. relay_events es w = (Inr (), w') \<and> w_faults w' = [] \<and> w_failed w' = w_failed w @ es \<and>
    map ob_id (pg_outbox (w_pg w')) = map ob_id (pg_outbox (w_pg w)) \<and>
    list_all (\<lambda>x. ob_id x \<in> ob_id ` set es \<longrightarrow> ob_processedAt x \<noteq> None) (pg_outbox (w_pg w')) \<and>
    (\<forall>x \<in> set (pg_outbox (w_pg w')). x \<in> set (pg_outbox (w_pg w)) \<or> ob_processedAt x \<noteq> None) \<and>
    w_rd w' = w_rd w \<and> (\<exists>obs. w_pg w' = (w_pg w)\<lparr>pg_outbox := obs\<rparr>)"
  using assms
proof (induction es arbitrary: w)
  case Nil
  then show ?case by (auto simp: list_all_iff intro: exI [of _ "pg_outbox (w_pg w)"])
next
  case (Cons e es)
  let ?p = "(w_pg w)\<lparr>pg_outbox := update_where (\<lambda>x. ob_id x = ob_id e)
       (\<lambda>x. x\<lparr>ob_processedAt := Some (pg_now (w_pg w))\<rparr>) (pg_outbox (w_pg w))\<rparr>"
  let ?v = "w\<lparr>w_failed := w_failed w @ [e], w_pg := ?p\<rparr>"
  have step: "relay_events (e # es) w = relay_events es ?v"
    using Cons.prems by (simp add: ctx_Err_def PublishOutboxEvent_def outboxRepo_MarkProcessed_def sql_exec_Works sql_mark_processed_def)
  obtain w' where w': "relay_events es ?v = (Inr (), w')" "w_faults w' = []" "w_failed w' = w_failed ?v @ es"
    "map ob_id (pg_outbox (w_pg w')) = map ob_id (pg_outbox ?p)"
    "list_all (\<lambda>x. ob_id x \<in> ob_id ` set es \<longrightarrow> ob_processedAt x \<noteq> None) (pg_outbox (w_pg w'))"
    "\<forall>x \<in> set (pg_outbox (w_pg w')). x \<in> set (pg_outbox ?p) \<or> ob_processedAt x \<noteq> None"
    "w_rd w' = w_rd w" "\<exists>obs. w_pg w' = (w_pg w)\<lparr>pg_outbox := obs\<rparr>"
    using Cons.IH [of ?v] Cons.prems by auto
  have ids: "map ob_id (pg_outbox ?p) = map ob_id (pg_outbox (w_pg w))" by simp (rule keys_update_where, simp)
  have p: "x \<in> set (pg_outbox (w_pg w)) \<or> ob_processedAt x \<noteq> None" "ob_id x = ob_id e \<Longrightarrow> ob_processedAt x \<noteq> None"
    if "x \<in> set (pg_outbox ?p)" for x
    using that by (auto simp: update_where_def)
  have "ob_processedAt x \<noteq> None" if x: "x \<in> set (pg_outbox (w_pg w'))" "ob_id x \<in> ob_id ` set (e # es)" for x
  proof (cases "ob_id x \<in> ob_id ` set es")
    case True
    with x w'(5) show ?thesis by (auto simp: list_all_iff)
  next
    case False
    then have "ob_id x = ob_id e" using x(2) by simp
    with x(1) w'(6) p(2) show ?thesis by blast
  qed
  moreover have "x \<in> set (pg_outbox (w_pg w)) \<or> ob_processedAt x \<noteq> None" if "x \<in> set (pg_outbox (w_pg w'))" for x
    using that w'(6) p(1) by blast
  ultimately show ?case using step w'(1-4,7,8) ids unfolding list_all_iff by simp
qed

text \<open>Nothing pending is left behind. With every call working and the lock held, one batch publishes the
  first \<open>batchSize\<close> pending events in the order of their ids and marks each of them processed.\<close>

theorem relay_batch_drains:
  assumes nf: "w_faults w = []" and stamped: "list_all (\<lambda>e. ob_createdAt e \<noteq> 0) (pg_outbox (w_pg w))"
    and es: "es = take (nat n) (sort_key ob_id (filter (\<lambda>e. ob_processedAt e = None) (pg_outbox (w_pg w))))"
  shows "\<exists>w'. relay_processBatch n w = (Inr (), w') \<and> w_failed w' = w_failed w @ es \<and>
    list_all (\<lambda>x. ob_id x \<in> ob_id ` set es \<longrightarrow> ob_processedAt x \<noteq> None) (pg_outbox (w_pg w'))"
proof -
  have l: "outboxRepo_ListPending n w = (Inr es, w)" using nf es by (simp add: outboxRepo_ListPending_def sql_query_Works)
  have "list_all (\<lambda>e. ob_createdAt e \<noteq> 0) es" using listed_events [OF l] stamped by (auto simp: list_all_iff)
  from relay_events_works [OF nf this] l show ?thesis by (auto simp: relay_processBatch_def)
qed

lemma relay_batch_drains_witness:
  "\<exists>w'. relay_processBatch 10 demo_outbox_world = (Inr (), w') \<and> map ob_id (w_failed w') = [1]"
proof -
  have "w_faults demo_outbox_world = []" "w_failed demo_outbox_world = []"
    by (simp_all add: demo_outbox_world_def demo_saga_world_def empty_world_def)
  then show ?thesis using relay_batch_drains [of demo_outbox_world _ 10] by (auto simp: demo_outbox_world_def)
qed

section \<open>An order failed together with its event\<close>

definition failed_with_event :: "order_status \<Rightarrow> order_row \<Rightarrow> pg \<Rightarrow> bool" where
  "failed_with_event s r p \<longleftrightarrow>
     (\<exists>u. lookup or_id (or_id r) (pg_orders p) = Some (r\<lparr>or_status := s, or_updated := u\<rparr>)) \<and>
     (\<exists>e \<in> set (pg_outbox p). ob_processedAt e = None \<and>
        (case ob_payload e of Malformed _ \<Rightarrow> False | OrderFailedJSON ev \<Rightarrow> speaks_of ev r))"

lemma emitted_lookup:
  assumes "emitted m i ev p p'" and "lookup or_id i (pg_orders p) = Some r"
  shows "mark_guard m (pg_now p) r"
    and "lookup or_id j (pg_orders p') = (if j = i then Some (r\<lparr>or_status := mark_target m, or_updated := pg_now p\<rparr>)
           else lookup or_id j (pg_orders p))"
    and "\<exists>e. pg_outbox p' = pg_outbox p @ [e] \<and> ob_payload e = OrderFailedJSON ev \<and> ob_processedAt e = None"
    and "pg_types p' = pg_types p \<and> pg_now p' = pg_now p"
proof -
  obtain p1 e where mv: "moved m i p p1" and ins: "sql_insert_outbox e p1 = Inr (1, p')"
    and e: "ob_payload e = OrderFailedJSON ev" "ob_processedAt e = None"
    using assms(1) by (auto simp: emitted_def)
  have g: "mark_guard m (pg_now p) r" and p1: "pg_orders p1 = update_where (\<lambda>x. or_id x = i)
      (\<lambda>_. r\<lparr>or_status := mark_target m, or_updated := pg_now p\<rparr>) (pg_orders p)"
    using mv assms(2) by (auto simp: moved_def)
  note fr = moved_frame [OF mv] insert_outbox_frame [OF ins]
  show "mark_guard m (pg_now p) r" by (rule g)
  have i: "or_id r = i" using lookup_in_set [OF assms(2)] by simp
  have "lookup or_id j (pg_orders p1) = (if j = i then Some (r\<lparr>or_status := mark_target m, or_updated := pg_now p\<rparr>)
      else lookup or_id j (pg_orders p))"
    unfolding p1 using i assms(2) by (subst lookup_update_where) (auto split: option.splits dest: lookup_in_set intro!: option.map_ident_strong)
  then show "lookup or_id j (pg_orders p') = (if j = i then Some (r\<lparr>or_status := mark_target m, or_updated := pg_now p\<rparr>)
           else lookup or_id j (pg_orders p))" using fr by simp
  show "\<exists>e. pg_outbox p' = pg_outbox p @ [e] \<and> ob_payload e = OrderFailedJSON ev \<and> ob_processedAt e = None"
    using fr e by auto
  show "pg_types p' = pg_types p \<and> pg_now p' = pg_now p" using fr by simp
qed

lemma emitted_fails_with_event:
  assumes "emitted m i ev p p'" and "lookup or_id i (pg_orders p) = Some r" and "speaks_of ev r"
  shows "failed_with_event (mark_target m) r p'"
proof -
  have i: "or_id r = i" using lookup_in_set [OF assms(2)] by simp
  from emitted_lookup(3) [OF assms(1,2)] obtain e where
    "pg_outbox p' = pg_outbox p @ [e]" "ob_payload e = OrderFailedJSON ev" "ob_processedAt e = None" by blast
  with assms(3) emitted_lookup(2) [OF assms(1,2), of i] i show ?thesis by (auto simp: failed_with_event_def)
qed

lemma emitted_keeps_failed:
  assumes "emitted m i ev p p'" and "lookup or_id i (pg_orders p) = Some r" and "failed_with_event s q p" and "or_id q \<noteq> i"
  shows "failed_with_event s q p'"
  using emitted_lookup(2) [OF assms(1,2), of "or_id q"] emitted_lookup(3) [OF assms(1,2)] assms(3,4)
  by (auto simp: failed_with_event_def)

end
