(* ===== verification/Expiry.thy ===== *)
theory Expiry
  imports Outbox
begin

text \<open>
  What happens to a reservation whose time is over: the sweeper that expires it and emits its event
  (\<open>application/expiry/sweeper.go\<close>, \<open>config.go\<close>), and the stage-5 variant, which compensates it at
  once (\<open>stage5_sweeper.go\<close>, \<open>postgres/stage5_compensator.go\<close>).
\<close>

record expiry_config =
  ec_SweepInterval :: duration
  ec_ExpiryGracePeriod :: duration
  ec_MaxAge :: duration
  ec_BatchSize :: int

definition expiry_Validate :: "expiry_config \<Rightarrow> err + unit" where
  "expiry_Validate c =
    (if ec_SweepInterval c \<le> 0 then Inl (Wrap ''SweepInterval must be > 0'' (Plain ''invalid expiry config''))
     else if ec_ExpiryGracePeriod c < 0 then Inl (Wrap ''ExpiryGracePeriod must be >= 0'' (Plain ''invalid expiry config''))
     else if ec_MaxAge c \<le> 0 then Inl (Wrap ''MaxAge must be > 0'' (Plain ''invalid expiry config''))
     else if ec_BatchSize c \<le> 0 then Inl (Wrap ''BatchSize must be > 0'' (Plain ''invalid expiry config''))
     else Inr ())"

section \<open>The sweeper\<close>

definition expire_tx :: "uuid \<Rightarrow> outbox_event \<Rightarrow> world \<Rightarrow> (err + unit) \<times> world" where
  "expire_tx i ob w = (case orderRepo_MarkExpired i w of
     (Inl e, w1) \<Rightarrow> (Inl e, w1)
   | (Inr _, w1) \<Rightarrow> (case outboxRepo_Create ob w1 of
        (Inl e, w2) \<Rightarrow> (Inl (Join [Sentinel ErrOutboxCreateFailed, e]), w2)
      | (Inr _, w2) \<Rightarrow> (Inr (), w2)))"

definition Sweeper_resolve :: "ext \<Rightarrow> expiry_config \<Rightarrow> uuid \<times> duration \<Rightarrow> world \<Rightarrow> world" where
  "Sweeper_resolve X cfg s w = (case s of (i, age) \<Rightarrow> (case orderRepo_GetByID i w of
     (Inl e, w1) \<Rightarrow> metric ''expiry_getbyid_error'' w1
   | (Inr o', w1) \<Rightarrow>
      if status o' \<noteq> AwaitingPayment then metric ''expiry_already_terminal'' w1
      else let overAged = age > ec_MaxAge cfg;
               ev = NewOrderFailedEventFromOrder (w_now w1) o'
                 (''reservation_expired_after: '' @ time_RFC3339 X (reservedUntil o'))
        in case build_outbox (OrderFailedJSON ev) w1 of
          (Inl e, w2) \<Rightarrow> metric ''expiry_marshal_error'' w2
        | (Inr ob, w2) \<Rightarrow> (case uow_Do (expire_tx (id_of o') ob) w2 of
             (Inr _, w3) \<Rightarrow>
               (if overAged then metric ''expiry_max_age_exceeded'' (metric ''expiry_expired_overaged'' w3)
                else metric ''expiry_expired'' w3)
           | (Inl e, w3) \<Rightarrow>
               (if errors_Is e ErrInvalidTransition then metric ''expiry_already_terminal'' w3
                else if errors_Is e ErrOutboxCreateFailed then metric ''expiry_outbox_error'' w3
                else metric ''expiry_transition_error'' w3))))"

definition Sweeper_Sweep :: "ext \<Rightarrow> expiry_config \<Rightarrow> world \<Rightarrow> (err + unit) \<times> world" where
  "Sweeper_Sweep X cfg w =
    (case orderRepo_FindExpiredReservations (ec_ExpiryGracePeriod cfg) (ec_BatchSize cfg) w of
       (Inl e, w1) \<Rightarrow> (Inl (Wrap ''expiry sweeper Sweep: find expired'' e), metric ''find_expired_error'' w1)
     | (Inr expired, w1) \<Rightarrow>
        (case for_each (\<lambda>s v. case ctx_Err v of
             (True, v1) \<Rightarrow> (Inl (Sentinel ContextCanceled), v1)
           | (False, v1) \<Rightarrow> (Inr (), Sweeper_resolve X cfg s v1)) expired w1 of
           (Inl e, w2) \<Rightarrow> (Inl e, w2)
         | (Inr _, w2) \<Rightarrow> (case orderRepo_CountOverdueAfterCutoff (ec_ExpiryGracePeriod cfg) w2 of
              (Inl e, w3) \<Rightarrow> (Inl (Wrap ''expiry sweeper Sweep: count overdue'' e), metric ''find_expired_error'' w3)
            | (Inr _, w3) \<Rightarrow> (Inr (), w3))))"

section \<open>Stage 5\<close>

text \<open>The Redis revert happens inside the transaction, before the database statements: a transaction that
  fails afterwards leaves the revert behind, and the next sweep finds it done.\<close>

definition sql_restore_type :: "uuid \<Rightarrow> int \<Rightarrow> pg \<Rightarrow> err + nat \<times> pg" where
  "sql_restore_type tt q p =
    (if list_ex (\<lambda>t. tr_id t = tt \<and> tr_available t + q < 0) (pg_types p) then Inl (Sentinel PgCheckViolation)
     else Inr (count_where (\<lambda>t. tr_id t = tt) (pg_types p),
       p\<lparr>pg_types := update_where (\<lambda>t. tr_id t = tt)
          (\<lambda>t. t\<lparr>tr_available := tr_available t + q, tr_version := tr_version t + 1\<rparr>) (pg_types p)\<rparr>))"

definition sql_compensate_unpaid :: "uuid \<Rightarrow> pg \<Rightarrow> err + nat \<times> pg" where
  "sql_compensate_unpaid i p =
    Inr (count_where (\<lambda>x. or_id x = i \<and> or_status x = AwaitingPayment) (pg_orders p),
      p\<lparr>pg_orders := update_where (\<lambda>x. or_id x = i \<and> or_status x = AwaitingPayment)
         (\<lambda>x. x\<lparr>or_status := Compensated\<rparr>) (pg_orders p)\<rparr>)"

definition stage5_tx :: "ext \<Rightarrow> uuid \<Rightarrow> world \<Rightarrow> (err + unit) \<times> world" where
  "stage5_tx X i w = (case sql_query (\<lambda>p. lookup or_id i (pg_orders p)) w of
     (Inl e, w1) \<Rightarrow> (Inl (Wrap ''lock order'' e), w1)
   | (Inr None, w1) \<Rightarrow> (Inl (Sentinel ErrCompensateNotEligible), w1)
   | (Inr (Some r), w1) \<Rightarrow>
      if or_status r \<noteq> AwaitingPayment then (Inl (Sentinel ErrCompensateNotEligible), w1)
      else case or_tt r of
        None \<Rightarrow> (Inl (Sentinel ErrCompensateNotEligible), w1)
      | Some tt \<Rightarrow> (case RevertInventory tt (or_qty r) (''order:'' @ uuid_String X i) w1 of
           (Inl e, w2) \<Rightarrow> (Inl (Wrap ''redis revert'' e), w2)
         | (Inr _, w2) \<Rightarrow> (case sql_exec (sql_restore_type tt (or_qty r)) w2 of
              (Inl e, w3) \<Rightarrow> (Inl (Wrap ''revert pg inventory'' e), w3)
            | (Inr n, w3) \<Rightarrow>
                if n = 0 then (Inl (Plain ''revert pg inventory: no event_ticket_types row''), w3)
                else (case sql_exec (sql_compensate_unpaid i) w3 of
                   (Inl e, w4) \<Rightarrow> (Inl (Wrap ''mark compensated'' e), w4)
                 | (Inr n2, w4) \<Rightarrow>
                     if n2 = 0 then (Inl (Plain ''mark compensated: row not in awaiting_payment''), w4)
                     else (Inr (), w4)))))"

definition stage5_Compensate :: "ext \<Rightarrow> uuid \<Rightarrow> world \<Rightarrow> (err + unit) \<times> world" where
  "stage5_Compensate X i = db_tx ''begin'' ''compensate commit'' (\<lambda>w. w) (stage5_tx X i)"

fun stage5_sweep_loop :: "ext \<Rightarrow> (uuid \<times> duration) list \<Rightarrow> world \<Rightarrow> world" where
  "stage5_sweep_loop X [] w = w"
| "stage5_sweep_loop X (s # ss) w = (case ctx_Err w of
     (True, w1) \<Rightarrow> w1
   | (False, w1) \<Rightarrow> stage5_sweep_loop X ss (snd (stage5_Compensate X (fst s) w1)))"

definition Stage5Sweeper_Sweep :: "ext \<Rightarrow> expiry_config \<Rightarrow> world \<Rightarrow> world" where
  "Stage5Sweeper_Sweep X cfg w =
    (case orderRepo_FindExpiredReservations (ec_ExpiryGracePeriod cfg) (ec_BatchSize cfg) w of
       (Inl e, w1) \<Rightarrow> w1
     | (Inr expired, w1) \<Rightarrow> stage5_sweep_loop X expired w1)"

section \<open>What the sweeper does to one reservation\<close>

lemma expire_tx_outcome:
  assumes "expire_tx i ob w = (r, w')" and "ob_processedAt ob = None" and "ob_payload ob = OrderFailedJSON ev"
  shows "w_rd w' = w_rd w \<and> w_now w' = w_now w \<and> w_failed w' = w_failed w \<and> w_intake w' = w_intake w \<and> w_bus w' = w_bus w \<and>
    (r = Inr () \<longrightarrow> emitted MarkExpired i ev (w_pg w) (w_pg w'))"
proof -
  obtain r1 w1 where m: "orderRepo_MarkExpired i w = (r1, w1)" by (metis surj_pair)
  obtain r2 w2 where c: "outboxRepo_Create ob w1 = (r2, w2)" by (metis surj_pair)
  note f1 = orderRepo_mark_outcome [of MarkExpired, simplified, OF m] and f2 = outboxRepo_Create_outcome [OF c]
  have "ob\<lparr>ob_processedAt := None\<rparr> = ob" using assms(2) by simp
  with assms m c f1 f2 show ?thesis
    by (cases r1; cases r2) (auto simp: expire_tx_def emitted_def)
qed

text \<open>Whatever fails, the order and its event move together: the database is as it was, or the order is
  \<open>expired\<close> and its event is pending.\<close>

lemma Sweeper_resolve_outcome:
  assumes w': "w' = Sweeper_resolve X cfg (i, age) w"
  shows "w_rd w' = w_rd w \<and> w_now w' = w_now w \<and> w_failed w' = w_failed w \<and>
    (w_pg w' = w_pg w \<or> (\<exists>r now reason. lookup or_id i (pg_orders (w_pg w)) = Some r \<and>
       emitted MarkExpired i (NewOrderFailedEventFromOrder now (order_toDomain r) reason) (w_pg w) (w_pg w')))"
proof -
  obtain r1 w1 where g: "orderRepo_GetByID i w = (r1, w1)" by (metis surj_pair)
  note f1 = GetByID_frame [OF g]
  show ?thesis
  proof (cases "\<exists>o'. r1 = Inr o' \<and> status o' = AwaitingPayment")
    case False
    with w' g f1 show ?thesis by (cases r1) (auto simp: Sweeper_resolve_def)
  next
    case True
    then obtain o' where o': "r1 = Inr o'" "status o' = AwaitingPayment" by blast
    obtain r where r: "lookup or_id i (pg_orders (w_pg w)) = Some r" "o' = order_toDomain r"
      using GetByID_result g o' by blast
    have ido: "id_of o' = i" using r lookup_in_set [OF r(1)] by (simp add: order_toDomain_def ReconstructOrder_def)
    define ev where "ev = NewOrderFailedEventFromOrder (w_now w1) o' (''reservation_expired_after: '' @ time_RFC3339 X (reservedUntil o'))"
    obtain b w2 where b: "build_outbox (OrderFailedJSON ev) w1 = (b, w2)" by (metis surj_pair)
    note f2 = build_outbox_outcome [OF b]
    show ?thesis
    proof (cases b)
      case (Inl e)
      with w' g o' b f1 f2 show ?thesis by (simp add: Sweeper_resolve_def Let_def ev_def)
    next
      case (Inr ob)
      obtain x w3 where tx: "uow_Do (expire_tx i ob) w2 = (x, w3)" by (metis surj_pair)
      have T: "expire_tx i ob v = (y, v') \<Longrightarrow> w_rd v' = w_rd v \<and> w_now v' = w_now v \<and> w_failed v' = w_failed v \<and>
          (y = Inr () \<longrightarrow> emitted MarkExpired i ev (w_pg v) (w_pg v'))" for v y v'
        using expire_tx_outcome [of i ob v y v' ev] f2 Inr by simp
      have "w_pg w3 = w_pg w2 \<or> emitted MarkExpired i ev (w_pg w2) (w_pg w3)"
        using uow.atomic [OF tx] T by (metis old.unit.exhaust)
      moreover have "(w_rd w3, w_now w3, w_failed w3) = (w_rd w2, w_now w2, w_failed w2)"
        by (rule uow_Do_projection [OF tx]) (use T in \<open>auto simp: frame\<close>)
      moreover have "w_pg w' = w_pg w3 \<and> w_rd w' = w_rd w3 \<and> w_now w' = w_now w3 \<and> w_failed w' = w_failed w3"
        using w' g o' b Inr ido tx by (auto simp: Sweeper_resolve_def Let_def ev_def split: sum.splits)
      ultimately show ?thesis using f1 f2 r unfolding ev_def by auto
    qed
  qed
qed

text \<open>What a sweep may have done to a world so far.\<close>

definition swept :: "duration \<Rightarrow> world \<Rightarrow> world \<Rightarrow> bool" where
  "swept grace w v \<longleftrightarrow> sys_ok v \<and> w_rd v = w_rd w \<and> pg_types (w_pg v) = pg_types (w_pg w) \<and>
    (\<forall>r \<in> set (pg_orders (w_pg w)). lookup or_id (or_id r) (pg_orders (w_pg v)) = Some r \<or>
       overdue_row grace (pg_now (w_pg w)) r \<and> failed_with_event Expired r (w_pg v))"

lemma order_lookup: "db_ok p \<Longrightarrow> r \<in> set (pg_orders p) \<Longrightarrow> lookup or_id (or_id r) (pg_orders p) = Some r"
  by (rule lookup_of_set) (simp_all add: db_ok_def pg_wf_def orders_wf_def)

lemma swept_same:
  "swept g w v \<Longrightarrow> w_pg v' = w_pg v \<Longrightarrow> w_rd v' = w_rd v \<Longrightarrow> w_failed v' = w_failed v \<Longrightarrow> swept g w v'"
  by (simp add: swept_def sys_ok_def events_ok_def)

lemma swept_emitted:
  assumes I: "swept g w v" and db: "db_ok (w_pg w)"
    and r0: "r0 \<in> set (pg_orders (w_pg w))" "or_id r0 = i" "overdue_row g (pg_now (w_pg w)) r0"
    and r: "lookup or_id i (pg_orders (w_pg v)) = Some r"
    and em: "emitted MarkExpired i (NewOrderFailedEventFromOrder now (order_toDomain r) reason) (w_pg v) (w_pg v')"
    and fr: "w_rd v' = w_rd v" "w_failed v' = w_failed v"
  shows "swept g w v'"
proof -
  have t: "typed (w_pg v)" and k: "sys_ok v" using I by (simp_all add: swept_def sys_ok_def)
  have "or_status r = AwaitingPayment"
    using emitted_lookup(1) [OF em r] by (cases "or_status r") (auto simp: mark_guard_def edge_simps)
  then have "\<not> failed_with_event Expired r0 (w_pg v)" using r r0 by (auto simp: failed_with_event_def)
  then have rr: "r = r0" using I r r0 by (auto simp: swept_def)
  note sp = event_of_row(1) [OF t r, of now reason]
  have "faithful (w_pg v) (NewOrderFailedEventFromOrder now (order_toDomain r) reason)"
    using sp r event_of_row(2) [OF t r] by (simp add: faithful_def speaks_of_def)
  then have sys: "sys_ok v'" using emitted_sys_ok [OF em _ k] fr by simp
  have "lookup or_id (or_id q) (pg_orders (w_pg v')) = Some q \<or>
      overdue_row g (pg_now (w_pg w)) q \<and> failed_with_event Expired q (w_pg v')"
    if q: "q \<in> set (pg_orders (w_pg w))" for q
  proof (cases "or_id q = i")
    case True
    then have "q = r0" using order_lookup [OF db q] order_lookup [OF db r0(1)] r0(2) by simp
    then show ?thesis using emitted_fails_with_event [OF em r sp] r0 rr by simp
  next
    case False
    then show ?thesis
      using I q emitted_lookup(2) [OF em r, of "or_id q"] emitted_keeps_failed [OF em r _ False] by (auto simp: swept_def)
  qed
  then show ?thesis using sys fr I emitted_lookup(4) [OF em r] by (simp add: swept_def)
qed

lemma swept_resolve:
  assumes "swept g w v" and "db_ok (w_pg w)" and "v' = Sweeper_resolve X cfg (i, age) v"
    and "\<exists>r \<in> set (pg_orders (w_pg w)). or_id r = i \<and> overdue_row g (pg_now (w_pg w)) r"
  shows "swept g w v'"
  using Sweeper_resolve_outcome [OF assms(3)] assms swept_same [of g w v v'] swept_emitted [of g w v _ i] by metis

lemma found_overdue:
  assumes "orderRepo_FindExpiredReservations g n w = (Inr expired, w1)" and "(i, age) \<in> set expired"
  shows "\<exists>r \<in> set (pg_orders (w_pg w)). or_id r = i \<and> overdue_row g (pg_now (w_pg w)) r"
proof -
  have "i \<in> or_id ` {r \<in> set (pg_orders (w_pg w)). overdue_row g (pg_now (w_pg w)) r}"
    using assms by (auto simp: orderRepo_FindExpiredReservations_def split: prod.splits sum.splits
        dest!: sql_query_result in_set_takeD)
  then show ?thesis by blast
qed

lemma Sweeper_Sweep_swept:
  assumes run: "Sweeper_Sweep X cfg w = (res, w')" and ok: "sys_ok w"
  shows "swept (ec_ExpiryGracePeriod cfg) w w'"
proof -
  let ?g = "ec_ExpiryGracePeriod cfg"
  have db: "db_ok (w_pg w)" using ok by (simp add: sys_ok_def)
  obtain x w1 where f: "orderRepo_FindExpiredReservations ?g (ec_BatchSize cfg) w = (x, w1)" by (metis surj_pair)
  have fr1: "w_pg w1 = w_pg w \<and> w_rd w1 = w_rd w \<and> w_failed w1 = w_failed w"
    using f by (auto simp: orderRepo_FindExpiredReservations_def split: prod.splits sum.splits dest!: sql_query_frame)
  have "swept ?g w w" using ok order_lookup [OF db] by (simp add: swept_def)
  then have I1: "swept ?g w w1" using swept_same fr1 by blast
  show "swept ?g w w'"
  proof (cases x)
    case (Inl e)
    with run f have "w' = metric ''find_expired_error'' w1" by (simp add: Sweeper_Sweep_def)
    then show ?thesis using swept_same [OF I1] by simp
  next
    case (Inr expired)
    let ?body = "\<lambda>s v. case ctx_Err v of (True, v1) \<Rightarrow> (Inl (Sentinel ContextCanceled), v1)
           | (False, v1) \<Rightarrow> (Inr (), Sweeper_resolve X cfg s v1)"
    obtain y w2 where l: "for_each ?body expired w1 = (y, w2)"
      by (cases "for_each ?body expired w1")
    have I2: "swept ?g w w2"
    proof (rule for_each_invariant [where I = "swept ?g w", OF l I1])
      fix s v r v'
      assume s: "s \<in> set expired" and Iv: "swept ?g w v" and b: "?body s v = (r, v')"
      obtain c v1 where c: "ctx_Err v = (c, v1)" by (metis surj_pair)
      have v1: "swept ?g w v1" using swept_same [OF Iv] ctx_Err_frame [OF c] by simp
      obtain i age where ia: "s = (i, age)" by (cases s)
      have "v' = v1 \<or> v' = Sweeper_resolve X cfg (i, age) v1" using b c ia by (cases c) auto
      then show "swept ?g w v'"
        using v1 swept_resolve [OF v1 db _ found_overdue [OF f [unfolded Inr] s [unfolded ia]], of v'] by (elim disjE) simp_all
    qed
    obtain z w3 where n: "orderRepo_CountOverdueAfterCutoff ?g w2 = (z, w3)" by (metis surj_pair)
    have fr3: "w_pg w3 = w_pg w2 \<and> w_rd w3 = w_rd w2 \<and> w_failed w3 = w_failed w2"
      using n by (auto simp: orderRepo_CountOverdueAfterCutoff_def split: prod.splits sum.splits dest!: sql_query_frame)
    have tail: "w' = (case y of Inl e \<Rightarrow> w2 | Inr _ \<Rightarrow> (case z of Inl e \<Rightarrow> metric ''find_expired_error'' w3 | Inr _ \<Rightarrow> w3))"
      using run unfolding Sweeper_Sweep_def f Inr prod.case sum.case l n by (auto split: sum.splits)
    then have "w' = w2 \<or> w' = w3 \<or> w' = metric ''find_expired_error'' w3" by (cases y; cases z) simp_all
    with fr3 have "w_pg w' = w_pg w2 \<and> w_rd w' = w_rd w2 \<and> w_failed w' = w_failed w2" by auto
    then show ?thesis using swept_same [OF I2] by simp
  qed
qed

text \<open>C11: a sweep expires overdue reservations and nothing else. Whatever calls fail, every order is as
  before or was awaiting payment past its deadline and the grace period, and is now \<open>expired\<close> with its
  \<open>order.failed\<close> event pending; Redis and the stock in the database are untouched.\<close>

theorem sweep_expires_only_overdue:
  assumes run: "Sweeper_Sweep X cfg w = (res, w')" and ok: "sys_ok w"
  shows "sys_ok w' \<and> w_rd w' = w_rd w \<and> pg_types (w_pg w') = pg_types (w_pg w) \<and>
    (\<forall>r \<in> set (pg_orders (w_pg w)). lookup or_id (or_id r) (pg_orders (w_pg w')) = Some r \<or>
       overdue_row (ec_ExpiryGracePeriod cfg) (pg_now (w_pg w)) r \<and> failed_with_event Expired r (w_pg w'))"
  using Sweeper_Sweep_swept [OF run ok] by (simp add: swept_def)

definition demo_unpaid_world :: world where
  "demo_unpaid_world = demo_saga_world\<lparr>w_uuids := [Some 21], w_pg := (w_pg demo_saga_world)\<lparr>
     pg_orders := [demo_expired\<lparr>or_status := AwaitingPayment\<rparr>]\<rparr>\<rparr>"

lemma demo_unpaid_ok: "sys_ok demo_unpaid_world"
  by (simp add: demo_unpaid_world_def demo_saga_world_def demo_expired_def demo_type_def empty_world_def empty_pg_def db_ok_def pg_wf_def
      orders_wf_def order_violation_def user_event_clash_def intent_clash_def ledger_ok_def held_of_def held_def type_row_ok_def
      sys_ok_def typed_def events_ok_def)

lemma sweep_expires_only_overdue_witness:
  "(let w' = snd (Sweeper_Sweep plain_ext \<lparr>ec_SweepInterval = 1, ec_ExpiryGracePeriod = 5, ec_MaxAge = 60, ec_BatchSize = 10\<rparr>
       demo_unpaid_world)
    in sys_ok w' \<and> map or_status (pg_orders (w_pg w')) = [Expired] \<and> length (pg_outbox (w_pg w')) = 1)"
proof -
  let ?c = "\<lparr>ec_SweepInterval = 1, ec_ExpiryGracePeriod = 5, ec_MaxAge = 60, ec_BatchSize = 10\<rparr>"
  have "sys_ok (snd (Sweeper_Sweep plain_ext ?c demo_unpaid_world))"
    using sweep_expires_only_overdue [of plain_ext ?c demo_unpaid_world] demo_unpaid_ok by (metis prod.collapse)
  moreover have "map or_status (pg_orders (w_pg (snd (Sweeper_Sweep plain_ext ?c demo_unpaid_world)))) = [Expired] \<and>
     length (pg_outbox (w_pg (snd (Sweeper_Sweep plain_ext ?c demo_unpaid_world)))) = 1"
    by code_simp
  ultimately show ?thesis by (simp add: Let_def)
qed

section \<open>The stage-5 compensation\<close>

lemma db_tx_id_cases:
  assumes "db_tx b c (\<lambda>w. w) body w = (r, w')"
  shows "(w_pg w' = w_pg w \<and> w_rd w' = w_rd w) \<or>
    (\<exists>w1 x w2. w_pg w1 = w_pg w \<and> w_rd w1 = w_rd w \<and> body w1 = (x, w2) \<and> w_rd w' = w_rd w2 \<and>
       (w_pg w' = w_pg w \<or> x = Inr () \<and> w_pg w' = w_pg w2))"
proof -
  obtain f w1 where i: "io w = (f, w1)" by (metis surj_pair)
  obtain x w2 where b: "body w1 = (x, w2)" by (metis surj_pair)
  obtain g w3 where j: "io w2 = (g, w3)" by (metis surj_pair)
  note fi = io_pair [OF i] io_pair [OF j]
  show ?thesis
  proof (cases f)
    case Works
    have "w_rd w' = w_rd w2 \<and> (w_pg w' = w_pg w \<or> x = Inr () \<and> w_pg w' = w_pg w2)"
      using assms i Works b j fi by (cases x; cases g) (auto simp: db_tx_def)
    with fi b show ?thesis by blast
  qed (use assms i fi in \<open>auto simp: db_tx_def\<close>)
qed

text \<open>What a committed compensation does to the database: it has no entry in the history.\<close>

definition stage5_paid_back :: "uuid \<Rightarrow> int \<Rightarrow> uuid \<Rightarrow> pg \<Rightarrow> pg" where
  "stage5_paid_back tt q i p = p\<lparr>pg_types := update_where (\<lambda>t. tr_id t = tt)
       (\<lambda>t. t\<lparr>tr_available := tr_available t + q, tr_version := tr_version t + 1\<rparr>) (pg_types p),
     pg_orders := update_where (\<lambda>x. or_id x = i \<and> or_status x = AwaitingPayment)
       (\<lambda>x. x\<lparr>or_status := Compensated\<rparr>) (pg_orders p)\<rparr>"

lemma sql_restore_type_effect:
  assumes "sql_restore_type tt q p = Inr (n, p')"
  shows "(n \<noteq> 0 \<longrightarrow> tt \<in> tr_id ` set (pg_types p)) \<and> p' = p\<lparr>pg_types := update_where (\<lambda>t. tr_id t = tt)
       (\<lambda>t. t\<lparr>tr_available := tr_available t + q, tr_version := tr_version t + 1\<rparr>) (pg_types p)\<rparr>"
proof -
  have n: "n = count_where (\<lambda>t. tr_id t = tt) (pg_types p)" using assms by (auto simp: sql_restore_type_def split: if_splits)
  have "n \<noteq> 0 \<longrightarrow> tt \<in> tr_id ` set (pg_types p)" unfolding n count_where_0_iff by auto
  with assms show ?thesis by (auto simp: sql_restore_type_def split: if_splits)
qed

lemma sql_compensate_unpaid_effect:
  "sql_compensate_unpaid i p = Inr (n, p') \<Longrightarrow>
     p' = p\<lparr>pg_orders := update_where (\<lambda>x. or_id x = i \<and> or_status x = AwaitingPayment)
        (\<lambda>x. x\<lparr>or_status := Compensated\<rparr>) (pg_orders p)\<rparr>"
  by (auto simp: sql_compensate_unpaid_def)

lemma stage5_tx_outcome:
  assumes run: "stage5_tx X i w = (res, w')" and r: "lookup or_id i (pg_orders (w_pg w)) = Some r" "or_tt r = Some tt"
  shows "(w_rd w' = w_rd w \<or> or_status r = AwaitingPayment \<and> gave tt (or_qty r) (compensationID_of X i) (w_rd w) (w_rd w')) \<and>
    (res = Inr () \<longrightarrow> or_status r = AwaitingPayment \<and> reverted (w_rd w') (compensationID_of X i) \<and>
       tt \<in> tr_id ` set (pg_types (w_pg w)) \<and> w_pg w' = stage5_paid_back tt (or_qty r) i (w_pg w))"
proof -
  let ?cid = "compensationID_of X i"
  obtain q w1 where q: "sql_query (\<lambda>p. lookup or_id i (pg_orders p)) w = (q, w1)" by (metis surj_pair)
  note fq = sql_query_frame [OF q]
  show ?thesis
  proof (cases "q = Inr (Some r) \<and> or_status r = AwaitingPayment")
    case False
    have "q = Inr x \<Longrightarrow> x = Some r" for x using sql_query_result q r by fastforce
    with run q fq False r(2) show ?thesis by (cases q) (auto simp: stage5_tx_def)
  next
    case True
    obtain x w2 where rv: "RevertInventory tt (or_qty r) ?cid w1 = (x, w2)" by (metis surj_pair)
    note f2 = RevertInventory_frame [OF rv]
    have rd: "w_rd w2 = w_rd w \<or> gave tt (or_qty r) ?cid (w_rd w) (w_rd w2)" "x = Inr () \<Longrightarrow> reverted (w_rd w2) ?cid"
      using RevertInventory_outcome [OF rv] fq by (auto simp: gave_def split: if_splits)
    obtain y w3 where e1: "sql_exec (sql_restore_type tt (or_qty r)) w2 = (y, w3)" by (metis surj_pair)
    obtain z w4 where e2: "sql_exec (sql_compensate_unpaid i) w3 = (z, w4)" by (metis surj_pair)
    note fr = sql_exec_frame [OF e1] sql_exec_frame [OF e2]
    have run': "stage5_tx X i w = (case x of Inl e \<Rightarrow> (Inl (Wrap ''redis revert'' e), w2) | Inr _ \<Rightarrow>
        (case y of Inl e \<Rightarrow> (Inl (Wrap ''revert pg inventory'' e), w3)
         | Inr n \<Rightarrow> if n = 0 then (Inl (Plain ''revert pg inventory: no event_ticket_types row''), w3)
           else (case z of Inl e \<Rightarrow> (Inl (Wrap ''mark compensated'' e), w4)
             | Inr n2 \<Rightarrow> if n2 = 0 then (Inl (Plain ''mark compensated: row not in awaiting_payment''), w4)
                 else (Inr (), w4))))"
      using q True r(2) rv e1 e2 by (simp add: stage5_tx_def compensationID_of_def split: sum.splits)
    have "w' \<in> {w2, w3, w4}" using run run' by (auto split: sum.splits if_splits)
    then have rd': "w_rd w' = w_rd w2" using fr by auto
    have pg: "or_status r = AwaitingPayment \<and> reverted (w_rd w') ?cid \<and>
       tt \<in> tr_id ` set (pg_types (w_pg w)) \<and> w_pg w' = stage5_paid_back tt (or_qty r) i (w_pg w)" if res: "res = Inr ()"
    proof -
      obtain u n n2 where ok: "x = Inr u" "y = Inr n" "n \<noteq> 0" "z = Inr n2" "w' = w4"
        using run run' res by (auto split: sum.splits if_splits)
      have s1: "sql_restore_type tt (or_qty r) (w_pg w) = Inr (n, w_pg w3)"
        using sql_exec_Inr [OF e1 [unfolded ok(2)]] f2 fq by simp
      have s2: "sql_compensate_unpaid i (w_pg w3) = Inr (n2, w_pg w4)" by (rule sql_exec_Inr [OF e2 [unfolded ok(4)]])
      have "tt \<in> tr_id ` set (pg_types (w_pg w)) \<and> w_pg w' = stage5_paid_back tt (or_qty r) i (w_pg w)"
        using sql_restore_type_effect [OF s1] sql_compensate_unpaid_effect [OF s2] ok(3,5) by (simp add: stage5_paid_back_def)
      with True rd rd' ok show ?thesis by simp
    qed
    with rd rd' True show ?thesis by auto
  qed
qed

lemma stage5_paid_back_db_ok:
  assumes wf: "db_ok p" and r: "lookup or_id i (pg_orders p) = Some r" "or_tt r = Some tt" "or_status r = AwaitingPayment"
  shows "db_ok (stage5_paid_back tt (or_qty r) i p)"
    and "lookup or_id i (pg_orders (stage5_paid_back tt (or_qty r) i p)) = Some (r\<lparr>or_status := Compensated\<rparr>)"
    and "available_of tt (stage5_paid_back tt (or_qty r) i p) = map_option (\<lambda>n. n + or_qty r) (available_of tt p)"
proof -
  let ?p = "stage5_paid_back tt (or_qty r) i p" and ?r' = "r\<lparr>or_status := Compensated\<rparr>"
  have ri: "r \<in> set (pg_orders p)" "or_id r = i" using lookup_in_set [OF r(1)] by auto
  have dist: "distinct (map tr_id (pg_types p))" and dO: "distinct (map or_id (pg_orders p))" and ow: "orders_wf (pg_orders p)"
    using wf by (auto simp: db_ok_def pg_wf_def orders_wf_def)
  have "x = r" if "x \<in> set (pg_orders p)" "or_id x = i" for x using lookup_of_set [OF dO that(1)] that(2) r(1) by simp
  then have orders: "pg_orders ?p = update_where (\<lambda>x. or_id x = i) (\<lambda>_. ?r') (pg_orders p)"
    using r(3) by (auto simp: stage5_paid_back_def update_where_def)
  have same_updated: "r\<lparr>or_status := Compensated, or_updated := or_updated r\<rparr> = ?r'" by (cases r) simp
  have q0: "0 < or_qty r" using wf r(1) lookup_qty by (auto simp: db_ok_def ledger_ok_def)
  show "lookup or_id i (pg_orders ?p) = Some ?r'"
    unfolding orders using ri r(1) by (subst lookup_update_where) auto
  show "available_of tt ?p = map_option (\<lambda>n. n + or_qty r) (available_of tt p)"
    by (simp add: available_of_def stage5_paid_back_def lookup_update_where option.map_comp comp_def)
      (cases "lookup tr_id tt (pg_types p)"; auto dest: lookup_in_set)
  have "held u ?r' - held u r = (if u = tt then - or_qty r else 0)" for u using r by (auto simp: held_def)
  then have held: "held_of u (pg_orders ?p) = held_of u (pg_orders p) + (if u = tt then - or_qty r else 0)" for u
    using held_of_update [OF dO r(1), where r' = ?r' and tt = u] orders by simp
  have types: "tr_available x' + held_of (tr_id x') (pg_orders ?p) = tr_total x' \<and> type_row_ok x'"
    if x': "x' \<in> set (pg_types ?p)" for x'
  proof -
    obtain x where x: "x \<in> set (pg_types p)"
      and xx: "x' = (if tr_id x = tt then x\<lparr>tr_available := tr_available x + or_qty r, tr_version := tr_version x + 1\<rparr> else x)"
      using x' by (auto simp: stage5_paid_back_def update_where_def)
    have "tr_available x + held_of (tr_id x) (pg_orders p) = tr_total x" "type_row_ok x"
      using wf x by (auto simp: db_ok_def pg_wf_def ledger_ok_def list_all_iff)
    moreover have "tr_id x = tt \<Longrightarrow> tr_available x + or_qty r \<le> tr_total x"
      using room_for [OF wf ri(1) r(2), of x] lookup_of_set [OF dist x] r(3) by simp
    ultimately show ?thesis using xx q0 by (auto simp: held type_row_ok_def)
  qed
  have ids: "map tr_id (pg_types ?p) = map tr_id (pg_types p)"
    by (simp add: stage5_paid_back_def keys_update_where)
  have "orders_wf (pg_orders ?p)"
    unfolding orders by (rule orders_wf_update [OF ow r(1)])
      (use leave_unviolated [OF ow ri(1), where s = Compensated and u = "or_updated r"] ri r(3) in \<open>simp_all add: same_updated\<close>)
  moreover have "list_all (\<lambda>r. 0 < or_qty r) (pg_orders ?p)"
    using wf by (auto simp: orders update_where_def db_ok_def ledger_ok_def list_all_iff q0)
  ultimately show "db_ok ?p"
    using wf types ids by (auto simp: db_ok_def pg_wf_def ledger_ok_def list_all_iff) (simp_all add: stage5_paid_back_def)
qed

text \<open>How far the stage-5 compensation of one order has come in the database.\<close>

definition stage5_progress :: "order_row \<Rightarrow> uuid \<Rightarrow> pg \<Rightarrow> pg \<Rightarrow> bool" where
  "stage5_progress r tt p0 p \<longleftrightarrow> db_ok p \<and>
     (lookup or_id (or_id r) (pg_orders p) = Some r \<and> available_of tt p = available_of tt p0 \<or>
      or_status r = AwaitingPayment \<and> lookup or_id (or_id r) (pg_orders p) = Some (r\<lparr>or_status := Compensated\<rparr>) \<and>
      available_of tt p = map_option (\<lambda>n. n + or_qty r) (available_of tt p0))"

lemma stage5_progress_later: "stage5_progress r tt p0 p \<Longrightarrow> stage5_progress r tt p0 (p\<lparr>pg_now := t\<rparr>)"
  by (auto simp: stage5_progress_def db_ok_def ledger_ok_def available_of_def pg_wf_clock)

lemma stage5_step:
  assumes pr: "stage5_progress r tt p0 (w_pg v)" and tt: "or_tt r = Some tt" and run: "stage5_Compensate X (or_id r) v = (res, v')"
  shows "stage5_progress r tt p0 (w_pg v') \<and>
    (w_rd v' = w_rd v \<or> or_status r = AwaitingPayment \<and> gave tt (or_qty r) (compensationID_of X (or_id r)) (w_rd v) (w_rd v')) \<and>
    (w_pg v' = w_pg v \<or> reverted (w_rd v') (compensationID_of X (or_id r)))"
proof -
  let ?i = "or_id r" and ?cid = "compensationID_of X (or_id r)"
  obtain r' where r': "lookup or_id ?i (pg_orders (w_pg v)) = Some r'" "or_tt r' = Some tt" "or_qty r' = or_qty r"
    "or_status r' = AwaitingPayment \<longrightarrow> r' = r \<and> available_of tt (w_pg v) = available_of tt p0"
    using pr tt by (auto simp: stage5_progress_def)
  from db_tx_id_cases [OF run [unfolded stage5_Compensate_def]]
  show ?thesis
  proof
    assume "w_pg v' = w_pg v \<and> w_rd v' = w_rd v"
    with pr show ?thesis by simp
  next
    assume "\<exists>w1 x w2. w_pg w1 = w_pg v \<and> w_rd w1 = w_rd v \<and> stage5_tx X ?i w1 = (x, w2) \<and> w_rd v' = w_rd w2 \<and>
       (w_pg v' = w_pg v \<or> x = Inr () \<and> w_pg v' = w_pg w2)"
    then obtain w1 x w2 where tx: "w_pg w1 = w_pg v" "w_rd w1 = w_rd v" "stage5_tx X ?i w1 = (x, w2)" "w_rd v' = w_rd w2"
      and pg: "w_pg v' = w_pg v \<or> x = Inr () \<and> w_pg v' = w_pg w2" by blast
    note out = stage5_tx_outcome [OF tx(3), unfolded tx(1,2), OF r'(1,2), unfolded r'(3)]
    have rd: "w_rd v' = w_rd v \<or> or_status r = AwaitingPayment \<and> gave tt (or_qty r) ?cid (w_rd v) (w_rd v')"
      using out tx(4) r'(4) by auto
    from pg show ?thesis
    proof
      assume "w_pg v' = w_pg v"
      with pr rd show ?thesis by simp
    next
      assume c: "x = Inr () \<and> w_pg v' = w_pg w2"
      then have st: "or_status r' = AwaitingPayment" and pg': "w_pg v' = stage5_paid_back tt (or_qty r') ?i (w_pg v)"
        and rv: "reverted (w_rd v') ?cid" using out tx(4) r'(3) by auto
      have "db_ok (w_pg v)" using pr by (simp add: stage5_progress_def)
      from stage5_paid_back_db_ok [OF this r'(1,2) st] pg' r'(4) st have "stage5_progress r tt p0 (w_pg v')"
        by (auto simp: stage5_progress_def)
      with rv rd show ?thesis by simp
    qed
  qed
qed

text \<open>The tries of the sweeper to compensate one order, each with the time that passes before it; the result
  holds the times at which a try gave the tickets back in Redis.\<close>

fun stage5_tries :: "ext \<Rightarrow> uuid \<Rightarrow> nat list \<Rightarrow> world \<Rightarrow> time list \<times> world" where
  "stage5_tries X i [] w = ([], w)"
| "stage5_tries X i (d # ds) w =
    (let w1 = time_passes (int d) w; w2 = snd (stage5_Compensate X i w1) in
     apfst (append (if gives_back (compensationID_of X i) (w_rd w1) (w_rd w2) then [rd_now (w_rd w1)] else []))
       (stage5_tries X i ds w2))"

lemma stage5_tries_outcome:
  assumes "stage5_progress r tt p0 (w_pg w)" and tt: "or_tt r = Some tt" and "stage5_tries X (or_id r) ds w = (es, w')"
  shows "stage5_progress r tt p0 (w_pg w') \<and>
    revert_history X tt (or_qty r) (compensationID_of X (or_id r)) (w_rd w) es (w_rd w') \<and>
    (or_status r \<noteq> AwaitingPayment \<longrightarrow> es = []) \<and>
    (pg_orders (w_pg w') = pg_orders (w_pg w) \<or> es \<noteq> [] \<or> reverted (w_rd w) (compensationID_of X (or_id r)))"
  using assms(1,3)
proof (induction ds arbitrary: w es)
  case Nil
  then show ?case by (simp add: history_refl)
next
  case (Cons d ds)
  let ?cid = "compensationID_of X (or_id r)" and ?w1 = "time_passes (int d) w"
  obtain res w2 where run: "stage5_Compensate X (or_id r) ?w1 = (res, w2)" by (metis surj_pair)
  define e1 where "e1 = (if gives_back ?cid (w_rd ?w1) (w_rd w2) then [rd_now (w_rd ?w1)] else [])"
  obtain es2 where es: "stage5_tries X (or_id r) ds w2 = (es2, w')" "es = e1 @ es2"
    using Cons.prems(2) run by (cases "stage5_tries X (or_id r) ds w2") (auto simp: Let_def e1_def)
  have pr1: "stage5_progress r tt p0 (w_pg ?w1)" using stage5_progress_later [OF Cons.prems(1)] by (simp add: time_passes_def)
  have pr: "stage5_progress r tt p0 (w_pg w2)"
    and rd0: "w_rd w2 = w_rd ?w1 \<or> or_status r = AwaitingPayment \<and> gave tt (or_qty r) ?cid (w_rd ?w1) (w_rd w2)"
    and db: "w_pg w2 = w_pg ?w1 \<or> reverted (w_rd w2) ?cid"
    using stage5_step [OF pr1 tt run] by simp_all
  then have rd: "w_rd w2 = redis_wait d (w_rd w) \<or> gave tt (or_qty r) ?cid (redis_wait d (w_rd w)) (w_rd w2)"
    by (auto simp: redis_wait_passes)
  have h1: "revert_history X tt (or_qty r) ?cid (w_rd w) e1 (w_rd w2)"
    unfolding e1_def redis_wait_passes by (rule history_step [OF rd])
  note IH = Cons.IH [OF pr es(1)]
  have early: "reverted (w_rd w) ?cid" if "e1 = []" "reverted (w_rd w2) ?cid"
    using history_unmarked [OF h1 [unfolded that(1)]] history_apart(3) [OF h1] that(2) until_le(2)
    by (simp add: reverted_now)
  have "e1 = []" if "or_status r \<noteq> AwaitingPayment" using rd0 that by (simp add: e1_def gives_back_def)
  moreover have "pg_orders (w_pg w') = pg_orders (w_pg w) \<or> es \<noteq> [] \<or> reverted (w_rd w) ?cid"
    using IH db early es(2) by (auto simp: time_passes_def)
  ultimately show ?case using IH history_trans [OF h1, of es2 "w_rd w'"] es(2) by auto
qed



end
