(* ===== verification/Payment.thy ===== *)
theory Payment
  imports Expiry
begin

text \<open>
  Paying for a reservation: \<open>application/payment/service.go\<close> (the payment intent of \<open>/pay\<close>),
  \<open>webhook_service.go\<close> (the provider's verdict), \<open>webhook_dto.go\<close>, \<open>domain/payment.go\<close>,
  \<open>infrastructure/payment/mock_gateway.go\<close> and the HTTP handler of the webhook
  (\<open>api/webhook/handler.go\<close>, \<open>verifier.go\<close>). A gateway is a parameter with a state of its own; what the
  service relies on is the locale \<open>payment_gateway\<close>, which the mock gateway satisfies.
\<close>

section \<open>Payment intents\<close>

text \<open>A Go \<open>map[string]string\<close>: \<open>None\<close> is the nil map, whose lookups find nothing.\<close>

type_synonym metadata = "(string \<rightharpoonup> string) option"

definition metadata_get :: "metadata \<Rightarrow> string \<Rightarrow> string option" where
  "metadata_get m k = (case m of None \<Rightarrow> None | Some f \<Rightarrow> f k)"

record payment_intent =
  pi_ID :: string
  pi_ClientSecret :: string
  pi_AmountCents :: int
  pi_Currency :: string
  pi_Metadata :: metadata

type_synonym 'g gateway =
  "uuid \<Rightarrow> int \<Rightarrow> string \<Rightarrow> metadata \<Rightarrow> 'g \<times> world \<Rightarrow> (err + payment_intent) \<times> 'g \<times> world"

definition CreatePaymentIntent :: "ext \<Rightarrow> 'g gateway \<Rightarrow> uuid \<Rightarrow> 'g \<times> world \<Rightarrow> (err + payment_intent) \<times> 'g \<times> world" where
  "CreatePaymentIntent X gateway i s = (case s of (g, w) \<Rightarrow>
     if i = uuid_Nil then (Inl (Wrap ''CreatePaymentIntent'' (Sentinel ErrInvalidOrderID)), g, w)
     else case orderRepo_GetByID i w of
       (Inl e, w1) \<Rightarrow>
         (if errors_Is e ErrOrderNotFound then (Inl e, g, w1)
          else (Inl (Wrap ''CreatePaymentIntent get order'' e), g, w1))
     | (Inr o', w1) \<Rightarrow>
         if status o' \<noteq> AwaitingPayment
         then (Inl (Wrap ''CreatePaymentIntent status'' (Sentinel ErrOrderNotAwaitingPayment)), g, w1)
         else if \<not> reservedUntil o' > w_now w1 then (Inl (Sentinel ErrReservationExpired), g, w1)
         else if \<not> HasPriceSnapshot o'
         then (Inl (Wrap ''CreatePaymentIntent: missing price snapshot'' (Sentinel ErrOrderMissingPriceSnapshot)), g, w1)
         else case gateway i (amountCents o') (currency o') (Some [''order_id'' \<mapsto> uuid_String X i]) (g, w1) of
           (Inl e, g2, w2) \<Rightarrow> (Inl (Wrap ''CreatePaymentIntent gateway'' e), g2, w2)
         | (Inr intent, g2, w2) \<Rightarrow> (case orderRepo_SetPaymentIntentID i (pi_ID intent) w2 of
              (Inl e, w3) \<Rightarrow>
                (if errors_Is e ErrOrderNotFound \<or> errors_Is e ErrReservationExpired \<or> errors_Is e ErrInvalidTransition
                 then (Inl e, g2, w3)
                 else (Inl (Wrap ''CreatePaymentIntent persist'' e), g2, w3))
            | (Inr _, w3) \<Rightarrow> (Inr intent, g2, w3)))"

section \<open>The mock gateway\<close>

text \<open>Its state is the cache of intents. \<open>latency\<close> is the drawn waiting time of a first call; the random
  tail of the client secret comes from the source of uuids, whose failure is a panic.\<close>

type_synonym intent_cache = "uuid \<rightharpoonup> payment_intent"

definition MockGateway_CreatePaymentIntent :: "ext \<Rightarrow> duration \<Rightarrow> intent_cache gateway" where
  "MockGateway_CreatePaymentIntent X latency i amount cur md s = (case s of (cache, w) \<Rightarrow> (case ctx_Err w of
     (True, w1) \<Rightarrow> (Inl (Sentinel ContextCanceled), cache, w1)
   | (False, w1) \<Rightarrow> (case cache i of
        Some intent \<Rightarrow>
          if pi_AmountCents intent \<noteq> amount \<or> pi_Currency intent \<noteq> cur
          then (Inl (Plain ''CreatePaymentIntent: cached intent has different amount/currency''), cache, w1)
          else if \<not> Option.is_none md
          then let intent' = intent\<lparr>pi_Metadata := md\<rparr> in (Inr intent', cache(i \<mapsto> intent'), w1)
          else (Inr intent, cache, w1)
      | None \<Rightarrow> (case sleepCtx latency w1 of
           (False, w2) \<Rightarrow> (Inl (Sentinel ContextCanceled), cache, w2)
         | (True, w2) \<Rightarrow> (case uuid_NewV7 w2 of
              (None, w3) \<Rightarrow> (Inl (Plain ''panic: uuid''), cache, w3)
            | (Some u, w3) \<Rightarrow>
                let intent = \<lparr>pi_ID = ''pi_'' @ uuid_String X i,
                      pi_ClientSecret = ''pi_'' @ uuid_String X i @ ''_secret_'' @ uuid_String X u,
                      pi_AmountCents = amount, pi_Currency = cur, pi_Metadata = md\<rparr>
                in (Inr intent, cache(i \<mapsto> intent), w3))))))"

datatype charge_status = ChargeStatusUnknown | ChargeStatusCharged | ChargeStatusDeclined | ChargeStatusNotFound

definition MockGateway_GetStatus :: "string \<Rightarrow> world \<Rightarrow> (err + charge_status) \<times> world" where
  "MockGateway_GetStatus intent w = (case ctx_Err w of
     (True, w1) \<Rightarrow> (Inl (Sentinel ContextCanceled), w1)
   | (False, w1) \<Rightarrow> (Inr ChargeStatusNotFound, w1))"

section \<open>The webhook service\<close>

record pi_last_error =
  le_Code :: string
  le_Message :: string

record pi_object =
  po_ID :: string
  po_Status :: string
  po_AmountCents :: int
  po_Currency :: string
  po_Metadata :: metadata
  po_LastPaymentError :: "pi_last_error option"

record envelope_data =
  ed_Object :: pi_object

record envelope =
  env_ID :: string
  env_Type :: string
  env_Created :: int
  env_LiveMode :: bool
  env_Data :: envelope_data

definition isTerminalForWebhook :: "order_status \<Rightarrow> bool" where
  "isTerminalForWebhook s \<longleftrightarrow> s \<in> {Paid, PaymentFailed, Compensated, Expired}"

definition isFailureTerminalAfterPay :: "order_status \<Rightarrow> bool" where
  "isFailureTerminalAfterPay s \<longleftrightarrow> s \<in> {Expired, PaymentFailed, Compensated}"

definition formatLastError :: "pi_last_error \<Rightarrow> string" where
  "formatLastError e = (if le_Code e \<noteq> '''' \<and> le_Message e \<noteq> '''' then le_Code e @ '': '' @ le_Message e
     else if le_Code e \<noteq> '''' then le_Code e else le_Message e)"

abbreviation webhook_metric :: "string \<Rightarrow> world \<Rightarrow> world" where
  "webhook_metric s \<equiv> metric (''webhook_'' @ s)"

text \<open>The order and whether it was found by the metadata.\<close>

definition resolveOrderID :: "ext \<Rightarrow> pi_object \<Rightarrow> world \<Rightarrow> (err + uuid \<times> bool) \<times> world" where
  "resolveOrderID X obj w =
    (let by_intent = (case orderRepo_FindByPaymentIntentID (po_ID obj) w of
         (Inl e, w1) \<Rightarrow>
           (if errors_Is e ErrOrderNotFound
            then (Inl (Sentinel ErrWebhookUnknownIntent), webhook_metric ''unknown_intent_not_found'' w1)
            else (Inl (Wrap ''webhook resolveOrderID: FindByPaymentIntentID'' e), w1))
       | (Inr o', w1) \<Rightarrow> (Inr (id_of o', False), w1))
     in case metadata_get (po_Metadata obj) ''order_id'' of
       None \<Rightarrow> by_intent
     | Some raw \<Rightarrow> (case uuid_Parse X raw of
          None \<Rightarrow> by_intent
        | Some u \<Rightarrow> if u \<noteq> uuid_Nil then (Inr (u, True), w) else by_intent))"

text \<open>Failing an order and writing its event, inside a transaction; the two functions wrap the errors of
  building and of storing the event.\<close>

definition fail_in_tx ::
    "(err \<Rightarrow> err) \<Rightarrow> (err \<Rightarrow> err) \<Rightarrow> (uuid \<Rightarrow> world \<Rightarrow> (err + unit) \<times> world) \<Rightarrow> order \<Rightarrow> string \<Rightarrow> world \<Rightarrow> (err + unit) \<times> world" where
  "fail_in_tx build_err create_err mark o' reason w = (case mark (id_of o') w of
     (Inl e, w1) \<Rightarrow> (Inl e, w1)
   | (Inr _, w1) \<Rightarrow> (case build_outbox (OrderFailedJSON (NewOrderFailedEventFromOrder (w_now w1) o' reason)) w1 of
        (Inl e, w2) \<Rightarrow> (Inl (build_err e), w2)
      | (Inr ob, w2) \<Rightarrow> (case outboxRepo_Create ob w2 of
           (Inl e, w3) \<Rightarrow> (Inl (create_err e), w3)
         | (Inr _, w3) \<Rightarrow> (Inr (), w3))))"

text \<open>After a failed transaction: another delivery or the sweeper may have settled the order meanwhile.\<close>

definition webhook_race :: "bool \<Rightarrow> err \<Rightarrow> uuid \<Rightarrow> world \<Rightarrow> (err + unit) \<times> world" where
  "webhook_race count_duplicate e i w = (case orderRepo_GetByID i w of
     (Inl ge, w1) \<Rightarrow> (Inl ge, w1)
   | (Inr cur, w1) \<Rightarrow>
       if isTerminalForWebhook (status cur)
       then (Inr (), if count_duplicate then webhook_metric (''duplicate_'' @ status_string (status cur)) w1 else w1)
       else (Inl e, webhook_metric ''received_persist_failed'' w1))"

definition handleLateSuccess :: "order \<Rightarrow> string \<Rightarrow> string \<Rightarrow> world \<Rightarrow> (err + unit) \<times> world" where
  "handleLateSuccess o' intent detectedAt w =
    (case uow_Do (fail_in_tx (\<lambda>e. e) (\<lambda>e. e) orderRepo_MarkExpired o'
        (''late_success_after_expiry: intent_id='' @ intent @ '' detected_at='' @ detectedAt))
        (webhook_metric (''late_success_'' @ detectedAt) w) of
       (Inr _, w1) \<Rightarrow> (Inr (), w1)
     | (Inl e, w1) \<Rightarrow>
         if errors_Is e ErrInvalidTransition then webhook_race False e (id_of o') w1
         else (Inl e, webhook_metric ''received_persist_failed'' w1))"

definition pay_tx :: "order \<Rightarrow> string \<Rightarrow> world \<Rightarrow> (err + unit) \<times> world" where
  "pay_tx o' intent w =
    (case (if paymentIntentID o' = '''' then orderRepo_SetPaymentIntentID (id_of o') intent w else (Inr (), w)) of
       (Inl e, w1) \<Rightarrow> (Inl e, w1)
     | (Inr _, w1) \<Rightarrow> orderRepo_MarkPaid (id_of o') w1)"

definition handleSuccess :: "order \<Rightarrow> string \<Rightarrow> world \<Rightarrow> (err + unit) \<times> world" where
  "handleSuccess o' intent w =
    (if \<not> reservedUntil o' > w_now w then handleLateSuccess o' intent ''service_check'' w
     else case uow_Do (pay_tx o' intent) w of
       (Inr _, w1) \<Rightarrow> (Inr (), webhook_metric ''received_succeeded'' w1)
     | (Inl e, w1) \<Rightarrow>
         if errors_Is e ErrReservationExpired then handleLateSuccess o' intent ''sql_predicate'' w1
         else if errors_Is e ErrInvalidTransition then webhook_race True e (id_of o') w1
         else (Inl e, webhook_metric ''received_persist_failed'' w1))"

definition webhook_handleFailure :: "order \<Rightarrow> string \<Rightarrow> world \<Rightarrow> (err + unit) \<times> world" where
  "webhook_handleFailure o' reason w =
    (case uow_Do (fail_in_tx (\<lambda>e. e) (\<lambda>e. e) orderRepo_MarkPaymentFailed o' (''payment_failed: '' @ reason)) w of
       (Inr _, w1) \<Rightarrow> (Inr (), webhook_metric ''received_failed'' w1)
     | (Inl e, w1) \<Rightarrow>
         if errors_Is e ErrInvalidTransition then webhook_race True e (id_of o') w1
         else (Inl e, webhook_metric ''received_persist_failed'' w1))"

text \<open>Steps 4 and 5 of \<open>HandleWebhook\<close>: what is done for the resolved order.\<close>

definition webhook_dispatch :: "envelope \<Rightarrow> order \<Rightarrow> world \<Rightarrow> (err + unit) \<times> world" where
  "webhook_dispatch env o' w =
    (let obj = ed_Object (env_Data env) in
     if isTerminalForWebhook (status o')
     then (if env_Type env = ''payment_intent.succeeded'' \<and> isFailureTerminalAfterPay (status o')
           then handleLateSuccess o' (po_ID obj) ''post_terminal'' w
           else (Inr (), webhook_metric (''duplicate_'' @ status_string (status o')) w))
     else if status o' \<noteq> AwaitingPayment
     then (Inl (Sentinel ErrWebhookUnexpectedStatus), webhook_metric ''received_unexpected_status'' w)
     else if env_Type env = ''payment_intent.succeeded'' then handleSuccess o' (po_ID obj) w
     else if env_Type env = ''payment_intent.payment_failed''
     then webhook_handleFailure o' (case po_LastPaymentError obj of None \<Rightarrow> ''unknown'' | Some le \<Rightarrow> formatLastError le) w
     else (Inr (), webhook_metric ''received_unsupported'' (webhook_metric (''unsupported_type_'' @ env_Type env) w)))"

definition HandleWebhook :: "ext \<Rightarrow> bool \<Rightarrow> envelope \<Rightarrow> world \<Rightarrow> (err + unit) \<times> world" where
  "HandleWebhook X expectedLiveMode env w =
    (if env_LiveMode env \<noteq> expectedLiveMode then (Inr (), webhook_metric ''unknown_intent_cross_env_livemode'' w)
     else let obj = ed_Object (env_Data env) in
       case resolveOrderID X obj w of
         (Inl e, w1) \<Rightarrow> (Inl e, w1)
       | (Inr (i, by_metadata), w1) \<Rightarrow> (case orderRepo_GetByID i w1 of
            (Inl e, w2) \<Rightarrow> (Inl e, w2)
          | (Inr o', w2) \<Rightarrow>
              if by_metadata \<and> paymentIntentID o' \<noteq> '''' \<and> paymentIntentID o' \<noteq> po_ID obj
              then (Inl (Sentinel ErrWebhookIntentMismatch), webhook_metric ''intent_mismatch'' w2)
              else webhook_dispatch env o' w2))"

section \<open>The HTTP handler of the webhook\<close>

text \<open>stripe-go's \<open>ValidatePayloadWithTolerance\<close> is a parameter of body, header, secret and tolerance; its
  errors are the four that the code names, or another.\<close>

datatype stripe_webhook_err = ErrNotSigned | ErrInvalidHeader | ErrTooOld | ErrNoValidSignature | StripeOther string

definition mapStripeWebhookError :: "stripe_webhook_err \<Rightarrow> err" where
  "mapStripeWebhookError e = (case e of
     ErrNotSigned \<Rightarrow> Join [Sentinel ErrSignatureMissing, Plain ''stripe'']
   | ErrInvalidHeader \<Rightarrow> Join [Sentinel ErrSignatureMalformed, Plain ''stripe'']
   | ErrTooOld \<Rightarrow> Join [Sentinel ErrSignatureSkewExceeded, Plain ''stripe'']
   | ErrNoValidSignature \<Rightarrow> Join [Sentinel ErrSignatureMismatch, Plain ''stripe'']
   | StripeOther m \<Rightarrow> Wrap ''unmapped stripe-go webhook error'' (Plain m))"

type_synonym validator = "string \<Rightarrow> string \<Rightarrow> string \<Rightarrow> duration \<Rightarrow> stripe_webhook_err option"

definition VerifySignature :: "validator \<Rightarrow> string \<Rightarrow> string \<Rightarrow> string \<Rightarrow> duration \<Rightarrow> err option" where
  "VerifySignature validate secret body header tolerance =
    (if header = '''' then Some (Sentinel ErrSignatureMissing)
     else if secret = '''' then Some (Wrap ''VerifySignature: empty secret'' (Sentinel ErrConfigError))
     else map_option mapStripeWebhookError (validate body header secret tolerance))"

definition ClassifySignatureError :: "err option \<Rightarrow> string" where
  "ClassifySignatureError e' = (case e' of None \<Rightarrow> '''' | Some e \<Rightarrow>
     if errors_Is e ErrSignatureMissing then ''missing''
     else if errors_Is e ErrSignatureMalformed then ''malformed''
     else if errors_Is e ErrSignatureSkewExceeded then ''skew_exceeded''
     else if errors_Is e ErrSignatureMismatch then ''mismatch''
     else if errors_Is e ErrConfigError then ''config_error''
     else ''config_error'')"

definition mapServiceError :: "err \<Rightarrow> nat" where
  "mapServiceError e =
    (if errors_Is e ErrWebhookUnknownIntent then 500
     else if errors_Is e ErrWebhookIntentMismatch then 500
     else if errors_Is e ErrWebhookUnexpectedStatus then 409
     else 500)"

text \<open>The request: its body as read (\<open>None\<close> when reading failed) and the signature header. The answer is
  the HTTP status. \<open>parse\<close> is \<open>json.Unmarshal\<close> into an envelope.\<close>

definition HandlePayment ::
    "ext \<Rightarrow> validator \<Rightarrow> (string \<Rightarrow> envelope option) \<Rightarrow> string \<Rightarrow> duration \<Rightarrow> bool \<Rightarrow>
     string option \<Rightarrow> string \<Rightarrow> world \<Rightarrow> nat \<times> world" where
  "HandlePayment X validate parse secret tolerance expectedLiveMode body header w = (case body of
     None \<Rightarrow> (400, webhook_metric ''body_malformed'' w)
   | Some raw \<Rightarrow>
      if length raw > 65536 then (413, webhook_metric ''body_malformed'' w)
      else case VerifySignature validate secret raw header tolerance of
        Some e \<Rightarrow>
          (let reason = ClassifySignatureError (Some e) in
           (if reason = ''config_error'' then 500 else 401, webhook_metric (''signature_invalid_'' @ reason) w))
      | None \<Rightarrow> (case parse raw of
          None \<Rightarrow> (400, webhook_metric ''body_malformed'' w)
        | Some env \<Rightarrow> (case HandleWebhook X expectedLiveMode env w of
             (Inl e, w1) \<Rightarrow> (mapServiceError e, w1)
           | (Inr _, w1) \<Rightarrow> (200, w1))))"

section \<open>What the steps do to the database\<close>

definition intent_set :: "uuid \<Rightarrow> string \<Rightarrow> pg \<Rightarrow> pg \<Rightarrow> bool" where
  "intent_set i s p p' \<longleftrightarrow> (\<exists>r. lookup or_id i (pg_orders p) = Some r \<and> payable_row (pg_now p) r \<and>
     (or_intent r = None \<or> or_intent r = Some s) \<and> \<not> order_violation (r\<lparr>or_intent := Some s\<rparr>) (pg_orders p) \<and>
     p' = p\<lparr>pg_orders := update_where (\<lambda>x. or_id x = i) (\<lambda>_. r\<lparr>or_intent := Some s\<rparr>) (pg_orders p)\<rparr>)"

lemma SetPaymentIntentID_outcome:
  assumes run: "orderRepo_SetPaymentIntentID i s w = (res, w')"
  shows "(res = Inr () \<longrightarrow> intent_set i s (w_pg w) (w_pg w')) \<and> (w_pg w' = w_pg w \<or> intent_set i s (w_pg w) (w_pg w')) \<and>
    w_rd w' = w_rd w \<and> w_now w' = w_now w \<and> w_intake w' = w_intake w \<and> w_failed w' = w_failed w \<and> w_bus w' = w_bus w"
proof -
  obtain re w1 where e: "sql_exec (sql_set_intent i s) w = (re, w1)" by (metis surj_pair)
  have st: "sql_set_intent i s p = Inr (n, p') \<Longrightarrow> n = 0 \<and> p' = p \<or> n = 1 \<and> intent_set i s p p'" for p n p'
    by (auto simp: sql_set_intent_def intent_set_def Let_def split: option.splits if_splits)
  have ok: "re = Inr n \<Longrightarrow> n = 0 \<and> w_pg w1 = w_pg w \<or> n = 1 \<and> intent_set i s (w_pg w) (w_pg w1)" for n
    using st sql_exec_Inr e by blast
  have any: "w_pg w1 = w_pg w \<or> intent_set i s (w_pg w) (w_pg w1)"
    using e by (rule sql_exec_cases) (use st in auto)
  show ?thesis using run e ok any sql_exec_frame [OF e]
    by (auto simp: orderRepo_SetPaymentIntentID_def split: sum.splits prod.splits if_splits dest!: classify_frame)
qed

lemma intent_set_row:
  assumes "intent_set i s p p'"
  shows "\<exists>r. lookup or_id i (pg_orders p) = Some r \<and> payable_row (pg_now p) r \<and> (or_intent r = None \<or> or_intent r = Some s) \<and>
    lookup or_id i (pg_orders p') = Some (r\<lparr>or_intent := Some s\<rparr>) \<and>
    (\<forall>j. j \<noteq> i \<longrightarrow> lookup or_id j (pg_orders p') = lookup or_id j (pg_orders p))"
proof -
  obtain r where r: "lookup or_id i (pg_orders p) = Some r" "payable_row (pg_now p) r" "or_intent r = None \<or> or_intent r = Some s"
    and p': "pg_orders p' = update_where (\<lambda>x. or_id x = i) (\<lambda>_. r\<lparr>or_intent := Some s\<rparr>) (pg_orders p)"
    using assms by (auto simp: intent_set_def)
  have "or_id r = i" using lookup_in_set [OF r(1)] by simp
  with r p' show ?thesis
    by (auto simp: lookup_update_where dest: lookup_in_set intro!: option.map_ident_strong)
qed

lemma intent_set_frame:
  "intent_set i s p p' \<Longrightarrow> pg_types p' = pg_types p \<and> pg_outbox p' = pg_outbox p \<and> pg_history p' = pg_history p \<and>
     pg_events p' = pg_events p \<and> pg_saga p' = pg_saga p \<and> pg_now p' = pg_now p"
  by (auto simp: intent_set_def)

lemma intent_set_db_ok:
  assumes st: "intent_set i s p p'" and wf: "db_ok p"
  shows "db_ok p'"
proof -
  obtain r where r: "lookup or_id i (pg_orders p) = Some r" and nv: "\<not> order_violation (r\<lparr>or_intent := Some s\<rparr>) (pg_orders p)"
    and p': "p' = p\<lparr>pg_orders := update_where (\<lambda>x. or_id x = i) (\<lambda>_. r\<lparr>or_intent := Some s\<rparr>) (pg_orders p)\<rparr>"
    using st by (auto simp: intent_set_def)
  let ?r' = "r\<lparr>or_intent := Some s\<rparr>"
  have ow: "orders_wf (pg_orders p)" and dO: "distinct (map or_id (pg_orders p))" using wf by (auto simp: db_ok_def pg_wf_def orders_wf_def)
  have "orders_wf (pg_orders p')" unfolding p' by (simp, rule orders_wf_update [OF ow r]) (use nv in simp_all)
  moreover have "held_of u (pg_orders p') = held_of u (pg_orders p)" for u
    using held_of_update [OF dO r, where r' = ?r' and tt = u] by (simp add: p' held_def)
  moreover have "list_all (\<lambda>r. 0 < or_qty r) (pg_orders p')"
    unfolding p' using wf r by (auto simp: db_ok_def ledger_ok_def intro!: qty_update dest: lookup_qty)
  ultimately show ?thesis using wf by (simp add: db_ok_def pg_wf_def ledger_ok_def p')
qed

lemma intent_set_typed:
  assumes st: "intent_set i s p p'" and t: "typed p"
  shows "typed p'"
proof (rule typed_keys [OF _ t], rule ballI)
  fix r' assume r': "r' \<in> set (pg_orders p')"
  obtain r where r: "lookup or_id i (pg_orders p) = Some r"
    and p': "pg_orders p' = update_where (\<lambda>x. or_id x = i) (\<lambda>_. r\<lparr>or_intent := Some s\<rparr>) (pg_orders p)"
    using st by (auto simp: intent_set_def)
  from r' show "\<exists>r \<in> set (pg_orders p). or_tt r' = or_tt r"
    using lookup_in_set [OF r] by (auto simp: p' update_where_def)
qed

lemma intent_set_sys_ok:
  assumes st: "intent_set i s (w_pg w) p'" and ok: "sys_ok w" and w': "w_pg w' = p'" "w_failed w' = w_failed w"
  shows "sys_ok w'"
proof -
  note fr = intent_set_frame [OF st]
  obtain r where r: "lookup or_id i (pg_orders (w_pg w)) = Some r" "lookup or_id i (pg_orders p') = Some (r\<lparr>or_intent := Some s\<rparr>)"
    "\<And>j. j \<noteq> i \<Longrightarrow> lookup or_id j (pg_orders p') = lookup or_id j (pg_orders (w_pg w))"
    using intent_set_row [OF st] by blast
  have "event_ok (w_pg w) x \<Longrightarrow> event_ok p' x" for x
  proof (erule event_ok_mono [rotated])
    fix ev assume "faithful (w_pg w) ev"
    with r show "faithful p' ev"
      by (cases "ofe_OrderID ev = i") (auto simp: faithful_def speaks_of_def)
  qed
  moreover have "typed p'" by (rule intent_set_typed [OF st]) (use ok in \<open>simp add: sys_ok_def\<close>)
  moreover have "db_ok p'" by (rule intent_set_db_ok [OF st]) (use ok in \<open>simp add: sys_ok_def\<close>)
  ultimately show ?thesis using ok fr w' by (auto simp: sys_ok_def events_ok_def list_all_iff)
qed

text \<open>The transaction that fails an order: whatever fails, all of it or nothing.\<close>

lemma fail_in_tx_outcome:
  assumes run: "fail_in_tx fb fc (orderRepo_mark m) o' reason w = (res, w')"
  shows "w_rd w' = w_rd w \<and> w_now w' = w_now w \<and> w_failed w' = w_failed w \<and>
    (res = Inr () \<longrightarrow> emitted m (id_of o') (NewOrderFailedEventFromOrder (w_now w) o' reason) (w_pg w) (w_pg w'))"
proof -
  obtain r1 w1 where mk: "orderRepo_mark m (id_of o') w = (r1, w1)" by (metis surj_pair)
  let ?ev = "NewOrderFailedEventFromOrder (w_now w1) o' reason"
  obtain r2 w2 where b: "build_outbox (OrderFailedJSON ?ev) w1 = (r2, w2)" by (metis surj_pair)
  note f1 = orderRepo_mark_outcome [OF mk] and f2 = build_outbox_outcome [OF b]
  show ?thesis
  proof (cases "\<exists>ob. r1 = Inr () \<and> r2 = Inr ob")
    case False
    with run mk b f1 f2 show ?thesis by (cases r1; cases r2) (auto simp: fail_in_tx_def)
  next
    case True
    then obtain ob where ob: "r1 = Inr ()" "r2 = Inr ob" by blast
    obtain r3 w3 where c: "outboxRepo_Create ob w2 = (r3, w3)" by (metis surj_pair)
    have "ob\<lparr>ob_processedAt := None\<rparr> = ob" using f2 ob by simp
    with run mk b c f1 f2 outboxRepo_Create_outcome [OF c] ob show ?thesis
      by (cases r3) (auto simp: fail_in_tx_def emitted_def)
  qed
qed

lemma failing_uow_outcome:
  assumes run: "uow_Do (fail_in_tx fb fc (orderRepo_mark m) (order_toDomain r) reason) w = (res, w')"
    and r: "lookup or_id i (pg_orders (w_pg w)) = Some r" and t: "typed (w_pg w)"
  shows "w_rd w' = w_rd w \<and> w_now w' = w_now w \<and> w_failed w' = w_failed w \<and>
    (w_pg w' = w_pg w \<or> (\<exists>ev. emitted m i ev (w_pg w) (w_pg w') \<and> speaks_of ev r))"
proof -
  have ido: "id_of (order_toDomain r) = i" using lookup_in_set [OF r] by (simp add: order_toDomain_def ReconstructOrder_def)
  have sp: "speaks_of (NewOrderFailedEventFromOrder now (order_toDomain r) reason) r" for now by (rule event_of_row(1) [OF t r])
  have "(w_rd w', w_now w', w_failed w') = (w_rd w, w_now w, w_failed w)"
    by (rule uow_Do_projection [OF run]) (use fail_in_tx_outcome in \<open>auto simp: frame\<close>)
  moreover have "w_pg w' = w_pg w \<or> (\<exists>ev. emitted m i ev (w_pg w) (w_pg w') \<and> speaks_of ev r)"
  proof (rule disjE [OF uow.atomic [OF run]])
    assume "\<exists>w1 a w2. w_pg w1 = w_pg w \<and> fail_in_tx fb fc (orderRepo_mark m) (order_toDomain r) reason w1 = (Inr a, w2) \<and> w_pg w' = w_pg w2"
    then obtain w1 w2 where b: "w_pg w1 = w_pg w" "fail_in_tx fb fc (orderRepo_mark m) (order_toDomain r) reason w1 = (Inr (), w2)" "w_pg w' = w_pg w2"
      by (metis old.unit.exhaust)
    from fail_in_tx_outcome [OF b(2)] b(1,3) ido sp show ?thesis by auto
  qed simp
  ultimately show ?thesis by simp
qed

lemma mark_fun: "orderRepo_mark MarkExpired = orderRepo_MarkExpired" "orderRepo_mark MarkPaymentFailed = orderRepo_MarkPaymentFailed"
  "orderRepo_mark MarkFailed = orderRepo_MarkFailed"
  by (simp_all add: fun_eq_iff)

lemma webhook_race_frame:
  "webhook_race c e i w = (res, w') \<Longrightarrow> w_pg w' = w_pg w \<and> w_rd w' = w_rd w \<and> w_now w' = w_now w \<and> w_failed w' = w_failed w"
  by (auto simp: webhook_race_def split: prod.splits sum.splits if_splits dest!: GetByID_frame)

text \<open>What a delivery may do to the database, where \<open>r\<close> is the order it names: pay it, or fail it together
  with its event; only an order that awaits payment.\<close>

definition failed_by :: "mark_op \<Rightarrow> order_row \<Rightarrow> pg \<Rightarrow> pg \<Rightarrow> bool" where
  "failed_by m r p p' \<longleftrightarrow> (\<exists>ev. emitted m (or_id r) ev p p' \<and> speaks_of ev r)"

definition paid_by :: "string \<Rightarrow> order_row \<Rightarrow> pg \<Rightarrow> pg \<Rightarrow> bool" where
  "paid_by intent r p p' \<longleftrightarrow> (\<exists>p1. (p1 = p \<and> or_intent r = Some intent \<or> intent_set (or_id r) intent p p1) \<and> moved MarkPaid (or_id r) p1 p')"

lemma handleLateSuccess_outcome:
  assumes run: "handleLateSuccess (order_toDomain r) s d w = (res, w')"
    and r: "lookup or_id (or_id r) (pg_orders (w_pg w)) = Some r" and t: "typed (w_pg w)"
  shows "w_rd w' = w_rd w \<and> w_now w' = w_now w \<and> w_failed w' = w_failed w \<and>
    (w_pg w' = w_pg w \<or> failed_by MarkExpired r (w_pg w) (w_pg w'))"
proof -
  let ?reason = "''late_success_after_expiry: intent_id='' @ s @ '' detected_at='' @ d" and ?w = "webhook_metric (''late_success_'' @ d) w"
  obtain x w1 where u: "uow_Do (fail_in_tx (\<lambda>e. e) (\<lambda>e. e) (orderRepo_mark MarkExpired) (order_toDomain r) ?reason) ?w = (x, w1)"
    by (metis surj_pair)
  have o1: "w_rd w1 = w_rd w \<and> w_now w1 = w_now w \<and> w_failed w1 = w_failed w \<and>
    (w_pg w1 = w_pg w \<or> failed_by MarkExpired r (w_pg w) (w_pg w1))"
    using failing_uow_outcome [OF u, of "or_id r"] r t by (auto simp: failed_by_def)
  have "w_pg w' = w_pg w1 \<and> w_rd w' = w_rd w1 \<and> w_now w' = w_now w1 \<and> w_failed w' = w_failed w1"
    using run u by (cases x) (auto simp: handleLateSuccess_def mark_fun split: if_splits dest!: webhook_race_frame)
  with o1 show ?thesis by auto
qed

lemma webhook_handleFailure_outcome:
  assumes run: "webhook_handleFailure (order_toDomain r) reason w = (res, w')"
    and r: "lookup or_id (or_id r) (pg_orders (w_pg w)) = Some r" and t: "typed (w_pg w)"
  shows "w_rd w' = w_rd w \<and> w_now w' = w_now w \<and> w_failed w' = w_failed w \<and>
    (w_pg w' = w_pg w \<or> failed_by MarkPaymentFailed r (w_pg w) (w_pg w'))"
proof -
  obtain x w1 where u: "uow_Do (fail_in_tx (\<lambda>e. e) (\<lambda>e. e) (orderRepo_mark MarkPaymentFailed) (order_toDomain r) (''payment_failed: '' @ reason)) w = (x, w1)"
    by (metis surj_pair)
  have o1: "w_rd w1 = w_rd w \<and> w_now w1 = w_now w \<and> w_failed w1 = w_failed w \<and>
    (w_pg w1 = w_pg w \<or> failed_by MarkPaymentFailed r (w_pg w) (w_pg w1))"
    using failing_uow_outcome [OF u r t] by (auto simp: failed_by_def)
  have "w_pg w' = w_pg w1 \<and> w_rd w' = w_rd w1 \<and> w_now w' = w_now w1 \<and> w_failed w' = w_failed w1"
    using run u by (cases x) (auto simp: webhook_handleFailure_def mark_fun split: if_splits dest!: webhook_race_frame)
  with o1 show ?thesis by auto
qed

lemma pay_tx_outcome:
  assumes run: "pay_tx (order_toDomain r) s w = (res, w')" and i: "paymentIntentID (order_toDomain r) \<noteq> '''' \<longrightarrow> or_intent r = Some s"
  shows "w_rd w' = w_rd w \<and> w_now w' = w_now w \<and> w_failed w' = w_failed w \<and>
    (res = Inr () \<longrightarrow> paid_by s r (w_pg w) (w_pg w'))"
proof -
  have ido: "id_of (order_toDomain r) = or_id r" by (simp add: order_toDomain_def ReconstructOrder_def)
  let ?a = "if paymentIntentID (order_toDomain r) = '''' then orderRepo_SetPaymentIntentID (or_id r) s w else (Inr (), w)"
  obtain x w1 where a: "?a = (x, w1)" by (metis surj_pair)
  have f1: "w_rd w1 = w_rd w \<and> w_now w1 = w_now w \<and> w_failed w1 = w_failed w \<and>
    (x = Inr () \<longrightarrow> w_pg w1 = w_pg w \<and> or_intent r = Some s \<or> intent_set (or_id r) s (w_pg w) (w_pg w1))"
    using a i SetPaymentIntentID_outcome [of "or_id r" s w x w1] by (auto split: if_splits)
  have tx: "(case x of Inl e \<Rightarrow> (Inl e, w1) | Inr _ \<Rightarrow> orderRepo_MarkPaid (or_id r) w1) = (res, w')"
    using run unfolding pay_tx_def ido a prod.case .
  show ?thesis
  proof (cases x)
    case (Inl e)
    with tx f1 show ?thesis by auto
  next
    case (Inr u)
    with tx have "orderRepo_MarkPaid (or_id r) w1 = (res, w')" by simp
    from orderRepo_MarkPaid_outcome [OF this] f1 Inr show ?thesis by (auto simp: paid_by_def)
  qed
qed

lemma handleSuccess_outcome:
  assumes run: "handleSuccess (order_toDomain r) s w = (res, w')"
    and r: "lookup or_id (or_id r) (pg_orders (w_pg w)) = Some r" and t: "typed (w_pg w)"
    and i: "paymentIntentID (order_toDomain r) \<noteq> '''' \<longrightarrow> or_intent r = Some s"
  shows "w_rd w' = w_rd w \<and> w_now w' = w_now w \<and> w_failed w' = w_failed w \<and>
    (w_pg w' = w_pg w \<or> failed_by MarkExpired r (w_pg w) (w_pg w') \<or> paid_by s r (w_pg w) (w_pg w'))"
proof (cases "reservedUntil (order_toDomain r) > w_now w")
  case False
  with run handleLateSuccess_outcome [OF _ r t] show ?thesis by (auto simp: handleSuccess_def)
next
  case True
  obtain x w1 where u: "uow_Do (pay_tx (order_toDomain r) s) w = (x, w1)" by (metis surj_pair)
  have "(w_rd w1, w_now w1, w_failed w1) = (w_rd w, w_now w, w_failed w)"
    by (rule uow_Do_projection [OF u]) (use pay_tx_outcome [OF _ i] in \<open>auto simp: frame\<close>)
  moreover have pg: "w_pg w1 = w_pg w \<or> paid_by s r (w_pg w) (w_pg w1)"
    using uow.atomic [OF u] pay_tx_outcome [OF _ i] by (metis old.unit.exhaust)
  ultimately have f1: "w_rd w1 = w_rd w" "w_now w1 = w_now w" "w_failed w1 = w_failed w" by auto
  show ?thesis
  proof (cases x)
    case (Inr v)
    with run True u f1 pg show ?thesis by (auto simp: handleSuccess_def)
  next
    case (Inl e)
    show ?thesis
    proof (cases "errors_Is e ErrReservationExpired")
      case False
      with run True u Inl f1 pg show ?thesis
        by (auto simp: handleSuccess_def split: if_splits dest!: webhook_race_frame)
    next
      case late: True
      with run True u Inl have l: "handleLateSuccess (order_toDomain r) s ''sql_predicate'' w1 = (res, w')" by (simp add: handleSuccess_def)
      have "w_pg w1 = w_pg w" using db_tx_error [OF u [unfolded uow_Do_def Inl]] late by auto
      with handleLateSuccess_outcome [OF l] r t f1 show ?thesis by auto
    qed
  qed
qed

text \<open>The order an event names: by its metadata, or by the intent the order carries.\<close>

definition names :: "ext \<Rightarrow> pi_object \<Rightarrow> order_row \<Rightarrow> bool" where
  "names X obj r \<longleftrightarrow> or_intent r = Some (po_ID obj) \<or>
     (\<exists>raw. metadata_get (po_Metadata obj) ''order_id'' = Some raw \<and> uuid_Parse X raw = Some (or_id r))"

lemma resolveOrderID_outcome:
  assumes run: "resolveOrderID X obj w = (res, w')"
  shows "w_pg w' = w_pg w \<and> w_rd w' = w_rd w \<and> w_now w' = w_now w \<and> w_failed w' = w_failed w \<and>
    (\<forall>i. res = Inr (i, True) \<longrightarrow> (\<exists>raw. metadata_get (po_Metadata obj) ''order_id'' = Some raw \<and> uuid_Parse X raw = Some i)) \<and>
    (\<forall>i. res = Inr (i, False) \<longrightarrow> (\<exists>r \<in> set (pg_orders (w_pg w)). or_intent r = Some (po_ID obj) \<and> or_id r = i))"
proof -
  obtain x w1 where f: "orderRepo_FindByPaymentIntentID (po_ID obj) w = (x, w1)" by (metis surj_pair)
  have fr: "w_pg w1 = w_pg w \<and> w_rd w1 = w_rd w \<and> w_now w1 = w_now w \<and> w_failed w1 = w_failed w"
    using f by (auto simp: orderRepo_FindByPaymentIntentID_def split: if_splits prod.splits sum.splits option.splits dest!: sql_query_frame)
  have row: "\<exists>r \<in> set (pg_orders (w_pg w)). or_intent r = Some (po_ID obj) \<and> or_id r = id_of o'" if "x = Inr o'" for o'
  proof -
    have "\<exists>r. lookup or_intent (Some (po_ID obj)) (pg_orders (w_pg w)) = Some r \<and> o' = order_toDomain r"
      using f that by (auto simp: orderRepo_FindByPaymentIntentID_def split: if_splits prod.splits sum.splits option.splits dest!: sql_query_result) metis
    then obtain r where "lookup or_intent (Some (po_ID obj)) (pg_orders (w_pg w)) = Some r" "o' = order_toDomain r" by blast
    with lookup_in_set [OF this(1)] show ?thesis by (auto simp: order_toDomain_def ReconstructOrder_def)
  qed
  from run f fr row show ?thesis
    by (auto simp: resolveOrderID_def Let_def split: option.splits sum.splits if_splits)
qed

text \<open>What one delivery does to the database.\<close>

definition webhook_effect :: "ext \<Rightarrow> envelope \<Rightarrow> order_row \<Rightarrow> pg \<Rightarrow> pg \<Rightarrow> bool" where
  "webhook_effect X env r p p' \<longleftrightarrow> lookup or_id (or_id r) (pg_orders p) = Some r \<and> names X (ed_Object (env_Data env)) r \<and>
     (env_Type env = ''payment_intent.succeeded'' \<and>
        (paid_by (po_ID (ed_Object (env_Data env))) r p p' \<or> failed_by MarkExpired r p p') \<or>
      env_Type env = ''payment_intent.payment_failed'' \<and> failed_by MarkPaymentFailed r p p')"

lemma webhook_dispatch_outcome:
  assumes run: "webhook_dispatch env (order_toDomain r) w = (res, w')" and nm: "names X (ed_Object (env_Data env)) r"
    and r: "lookup or_id (or_id r) (pg_orders (w_pg w)) = Some r" and t: "typed (w_pg w)"
    and i: "paymentIntentID (order_toDomain r) \<noteq> '''' \<longrightarrow> or_intent r = Some (po_ID (ed_Object (env_Data env)))"
  shows "w_rd w' = w_rd w \<and> w_now w' = w_now w \<and> w_failed w' = w_failed w \<and>
    (w_pg w' = w_pg w \<or> webhook_effect X env r (w_pg w) (w_pg w'))"
proof -
  let ?obj = "ed_Object (env_Data env)" and ?o = "order_toDomain r"
  from run consider
      (late) "env_Type env = ''payment_intent.succeeded''" "handleLateSuccess ?o (po_ID ?obj) ''post_terminal'' w = (res, w')"
    | (succeeded) "env_Type env = ''payment_intent.succeeded''" "handleSuccess ?o (po_ID ?obj) w = (res, w')"
    | (failed) why where "env_Type env = ''payment_intent.payment_failed''" "webhook_handleFailure ?o why w = (res, w')"
    | (nothing) "w_pg w' = w_pg w" "w_rd w' = w_rd w" "w_now w' = w_now w" "w_failed w' = w_failed w"
    unfolding webhook_dispatch_def Let_def by (auto split: if_splits)
  then show ?thesis
  proof cases
    case late
    from handleLateSuccess_outcome [OF late(2) r t] late(1) r nm show ?thesis by (auto simp: webhook_effect_def)
  next
    case succeeded
    from handleSuccess_outcome [OF succeeded(2) r t i] succeeded(1) r nm show ?thesis by (auto simp: webhook_effect_def)
  next
    case failed
    from webhook_handleFailure_outcome [OF failed(2) r t] failed(1) r nm show ?thesis by (auto simp: webhook_effect_def)
  qed simp
qed

text \<open>The order that \<open>HandleWebhook\<close> resolves is named by the event, and past the consistency check it
  carries no other intent.\<close>

lemma resolved_row:
  assumes rs: "resolveOrderID X obj w = (Inr (i, b), w1)" and g: "orderRepo_GetByID i w1 = (Inr o', w2)"
    and db: "db_ok (w_pg w)" and c: "\<not> (b \<and> paymentIntentID o' \<noteq> '''' \<and> paymentIntentID o' \<noteq> po_ID obj)"
  obtains r where "lookup or_id (or_id r) (pg_orders (w_pg w)) = Some r" "o' = order_toDomain r" "names X obj r"
    "paymentIntentID o' \<noteq> '''' \<longrightarrow> or_intent r = Some (po_ID obj)"
proof -
  note f1 = resolveOrderID_outcome [OF rs]
  obtain r where r: "lookup or_id i (pg_orders (w_pg w)) = Some r" and o': "o' = order_toDomain r"
    using GetByID_result [OF g] f1 by auto
  have i: "or_id r = i" using lookup_in_set [OF r] by simp
  have byi: "or_intent r = Some (po_ID obj)" if nb: "\<not> b"
  proof -
    obtain q where "q \<in> set (pg_orders (w_pg w))" "or_intent q = Some (po_ID obj)" "or_id q = i" using f1 nb by auto
    then show ?thesis using order_lookup [OF db, of q] r by simp
  qed
  have "names X obj r" using f1 i byi by (cases b) (auto simp: names_def)
  moreover have "paymentIntentID o' = (case or_intent r of None \<Rightarrow> '''' | Some s \<Rightarrow> s)"
    unfolding o' by (simp add: order_toDomain_def ReconstructOrder_def)
  then have "paymentIntentID o' \<noteq> '''' \<longrightarrow> or_intent r = Some (po_ID obj)" using c byi by (cases b) (auto split: option.splits)
  ultimately show ?thesis using that [of r] r i o' by simp
qed

lemma HandleWebhook_outcome:
  assumes run: "HandleWebhook X live env w = (res, w')" and ok: "sys_ok w"
  shows "w_rd w' = w_rd w \<and> w_now w' = w_now w \<and> w_failed w' = w_failed w \<and>
    (w_pg w' = w_pg w \<or> env_LiveMode env = live \<and> (\<exists>r. webhook_effect X env r (w_pg w) (w_pg w')))"
proof (cases "env_LiveMode env = live")
  case False
  with run show ?thesis by (auto simp: HandleWebhook_def)
next
  case live: True
  let ?obj = "ed_Object (env_Data env)"
  obtain x w1 where rs: "resolveOrderID X ?obj w = (x, w1)" by (metis surj_pair)
  note f1 = resolveOrderID_outcome [OF rs]
  show ?thesis
  proof (cases x)
    case (Inl e)
    with run live rs f1 show ?thesis by (auto simp: HandleWebhook_def)
  next
    case (Inr ib)
    obtain i b where ib: "ib = (i, b)" by (metis surj_pair)
    obtain y w2 where g: "orderRepo_GetByID i w1 = (y, w2)" by (metis surj_pair)
    have fr: "w_pg w2 = w_pg w" "w_rd w2 = w_rd w" "w_now w2 = w_now w" "w_failed w2 = w_failed w" using f1 GetByID_frame [OF g] by auto
    show ?thesis
    proof (cases "\<exists>o'. y = Inr o' \<and> \<not> (b \<and> paymentIntentID o' \<noteq> '''' \<and> paymentIntentID o' \<noteq> po_ID ?obj)")
      case False
      with run live rs Inr ib g fr show ?thesis by (cases y) (auto simp: HandleWebhook_def)
    next
      case True
      then obtain o' where o': "y = Inr o'" "\<not> (b \<and> paymentIntentID o' \<noteq> '''' \<and> paymentIntentID o' \<noteq> po_ID ?obj)" by blast
      have db: "db_ok (w_pg w)" and t: "typed (w_pg w2)" using ok fr by (simp_all add: sys_ok_def)
      from resolved_row [OF rs [unfolded Inr ib] g [unfolded o'(1)] db o'(2)] obtain r where
        r: "lookup or_id (or_id r) (pg_orders (w_pg w)) = Some r" "o' = order_toDomain r" "names X ?obj r"
           "paymentIntentID o' \<noteq> '''' \<longrightarrow> or_intent r = Some (po_ID ?obj)" .
      have "webhook_dispatch env o' w2 = (res, w')"
        using run o'(2) live rs Inr ib g o'(1) unfolding HandleWebhook_def by (simp add: Let_def split: if_splits)
      from webhook_dispatch_outcome [OF this [unfolded r(2)] r(3) _ t] r fr live show ?thesis by auto
    qed
  qed
qed

lemma moved_sys_ok:
  assumes mv: "moved m i (w_pg w) p'" and m: "m \<noteq> MarkCompensated" and ok: "sys_ok w" and w': "w_pg w' = p'" "w_failed w' = w_failed w"
  shows "sys_ok w'"
proof -
  have "event_ok (w_pg w) x \<Longrightarrow> event_ok p' x" for x by (erule event_ok_mono [rotated]) (rule moved_faithful [OF mv])
  moreover have "db_ok p'" "typed p'" using moved_db_ok [OF mv _ m] moved_typed [OF mv] ok by (simp_all add: sys_ok_def)
  ultimately show ?thesis using ok moved_frame [OF mv] w' by (auto simp: sys_ok_def events_ok_def list_all_iff)
qed

lemma paid_by_row:
  assumes pd: "paid_by s r p p'" and r: "lookup or_id (or_id r) (pg_orders p) = Some r"
  shows "payable_row (pg_now p) r" "\<exists>u. lookup or_id (or_id r) (pg_orders p') = Some (r\<lparr>or_status := Paid, or_intent := Some s, or_updated := u\<rparr>)"
    "j \<noteq> or_id r \<Longrightarrow> lookup or_id j (pg_orders p') = lookup or_id j (pg_orders p)"
    "pg_types p' = pg_types p \<and> pg_outbox p' = pg_outbox p"
proof -
  obtain p1 where a: "p1 = p \<and> or_intent r = Some s \<or> intent_set (or_id r) s p p1" and mv: "moved MarkPaid (or_id r) p1 p'"
    using pd by (auto simp: paid_by_def)
  have one: "lookup or_id (or_id r) (pg_orders p1) = Some (r\<lparr>or_intent := Some s\<rparr>)" "pg_now p1 = pg_now p"
    "pg_types p1 = pg_types p" "pg_outbox p1 = pg_outbox p" "\<And>j. j \<noteq> or_id r \<Longrightarrow> lookup or_id j (pg_orders p1) = lookup or_id j (pg_orders p)"
    using a r intent_set_row [of "or_id r" s p p1] intent_set_frame [of "or_id r" s p p1] by (cases r; auto)+
  from moved_row [OF mv] one(1)
  have "lookup or_id (or_id r) (pg_orders p') = Some (r\<lparr>or_intent := Some s, or_status := Paid, or_updated := pg_now p1\<rparr>)"
    and g: "mark_guard MarkPaid (pg_now p1) (r\<lparr>or_intent := Some s\<rparr>)"
    and others: "\<And>j. j \<noteq> or_id r \<Longrightarrow> lookup or_id j (pg_orders p') = lookup or_id j (pg_orders p1)" by auto
  then have "lookup or_id (or_id r) (pg_orders p') = Some (r\<lparr>or_status := Paid, or_intent := Some s, or_updated := pg_now p1\<rparr>)" by simp
  then show "\<exists>u. lookup or_id (or_id r) (pg_orders p') = Some (r\<lparr>or_status := Paid, or_intent := Some s, or_updated := u\<rparr>)" by blast
  show "payable_row (pg_now p) r" using g one(2) by (simp add: mark_guard_def payable_row_def)
  show "j \<noteq> or_id r \<Longrightarrow> lookup or_id j (pg_orders p') = lookup or_id j (pg_orders p)" using others one(5) by simp
  show "pg_types p' = pg_types p \<and> pg_outbox p' = pg_outbox p" using moved_frame [OF mv] one(3,4) by simp
qed

lemma paid_by_sys_ok:
  assumes pd: "paid_by s r (w_pg w) (w_pg w')" and ok: "sys_ok w" and f: "w_failed w' = w_failed w"
  shows "sys_ok w'"
proof -
  obtain p1 where a: "p1 = w_pg w \<and> or_intent r = Some s \<or> intent_set (or_id r) s (w_pg w) p1" and mv: "moved MarkPaid (or_id r) p1 (w_pg w')"
    using pd by (auto simp: paid_by_def)
  have "sys_ok (w\<lparr>w_pg := p1\<rparr>)"
    using a ok intent_set_sys_ok [of "or_id r" s w p1 "w\<lparr>w_pg := p1\<rparr>"] by auto
  then show ?thesis using moved_sys_ok [of MarkPaid "or_id r" "w\<lparr>w_pg := p1\<rparr>" "w_pg w'" w'] mv f by simp
qed

lemma failed_by_row:
  assumes "failed_by m r p p'" and "lookup or_id (or_id r) (pg_orders p) = Some r"
  shows "mark_guard m (pg_now p) r" "failed_with_event (mark_target m) r p'" "pg_types p' = pg_types p"
    "j \<noteq> or_id r \<Longrightarrow> lookup or_id j (pg_orders p') = lookup or_id j (pg_orders p)"
proof -
  obtain ev where em: "emitted m (or_id r) ev p p'" and sp: "speaks_of ev r" using assms(1) by (auto simp: failed_by_def)
  note e = emitted_lookup [OF em assms(2)]
  show "mark_guard m (pg_now p) r" "failed_with_event (mark_target m) r p'" "pg_types p' = pg_types p"
    "j \<noteq> or_id r \<Longrightarrow> lookup or_id j (pg_orders p') = lookup or_id j (pg_orders p)"
    using e emitted_fails_with_event [OF em assms(2) sp] by simp_all
qed

lemma failed_by_sys_ok:
  assumes "failed_by m r (w_pg w) (w_pg w')" and "m \<noteq> MarkCompensated" and "sys_ok w" and "w_failed w' = w_failed w"
    and "lookup or_id (or_id r) (pg_orders (w_pg w)) = Some r"
  shows "sys_ok w'"
  using assms emitted_sys_ok [of m "or_id r" _ w "w_pg w'" w'] by (auto simp: failed_by_def faithful_def speaks_of_def)

text \<open>C15: a payment event settles only the order it names, once. Whatever calls fail, a delivery changes
  nothing, or the order it names was awaiting payment and, on \<open>succeeded\<close>, is paid within its
  reservation under that intent or expired with its event pending, and on \<open>payment_failed\<close> has
  failed with its event pending. Redis, the stock and every other order stay.\<close>

theorem webhook_settles_order:
  assumes run: "HandleWebhook X live env w = (res, w')" and ok: "sys_ok w"
    and obj: "obj = ed_Object (env_Data env)" and p: "p = w_pg w" and p': "p' = w_pg w'"
  shows "sys_ok w' \<and> w_rd w' = w_rd w \<and> pg_types p' = pg_types p \<and>
    (p' = p \<or> env_LiveMode env = live \<and> (\<exists>r. lookup or_id (or_id r) (pg_orders p) = Some r \<and>
       or_status r = AwaitingPayment \<and> names X obj r \<and>
       (\<forall>j. j \<noteq> or_id r \<longrightarrow> lookup or_id j (pg_orders p') = lookup or_id j (pg_orders p)) \<and>
       (env_Type env = ''payment_intent.succeeded'' \<and>
          (payable_row (pg_now p) r \<and> pg_outbox p' = pg_outbox p \<and>
             (\<exists>u. lookup or_id (or_id r) (pg_orders p') =
                Some (r\<lparr>or_status := Paid, or_intent := Some (po_ID obj), or_updated := u\<rparr>)) \<or>
           failed_with_event Expired r p') \<or>
        env_Type env = ''payment_intent.payment_failed'' \<and> failed_with_event PaymentFailed r p')))"
proof -
  note out = HandleWebhook_outcome [OF run ok]
  show ?thesis
  proof (cases "p' = p")
    case True
    with out ok p p' show ?thesis by (simp add: sys_ok_def events_ok_def)
  next
    case False
    then obtain r where live: "env_LiveMode env = live" and eff: "webhook_effect X env r p p'" using out p p' by auto
    have r: "lookup or_id (or_id r) (pg_orders p) = Some r" and nm: "names X obj r" using eff obj by (simp_all add: webhook_effect_def)
    have fr: "w_rd w' = w_rd w" "w_failed w' = w_failed w" using out by auto
    consider (paid) "env_Type env = ''payment_intent.succeeded''" "paid_by (po_ID obj) r p p'"
      | (late) "env_Type env = ''payment_intent.succeeded''" "failed_by MarkExpired r p p'"
      | (failed) "env_Type env = ''payment_intent.payment_failed''" "failed_by MarkPaymentFailed r p p'"
      using eff obj by (auto simp: webhook_effect_def)
    then show ?thesis
    proof cases
      case paid
      note row = paid_by_row [OF paid(2) r]
      have "or_status r = AwaitingPayment" using row(1) by (simp add: payable_row_def)
      with paid row live r nm fr paid_by_sys_ok [OF _ ok fr(2)] p p' show ?thesis by blast
    next
      case late
      note row = failed_by_row [OF late(2) r]
      have "or_status r = AwaitingPayment" using row(1) by (cases "or_status r") (auto simp: mark_guard_def edge_simps)
      with late row live r nm fr failed_by_sys_ok [OF _ _ ok fr(2), of MarkExpired r] p p' show ?thesis by auto
    next
      case failed
      note row = failed_by_row [OF failed(2) r]
      have "or_status r = AwaitingPayment" using row(1) by (cases "or_status r") (auto simp: mark_guard_def edge_simps)
      with failed row live r nm fr failed_by_sys_ok [OF _ _ ok fr(2), of MarkPaymentFailed r] p p' show ?thesis by auto
    qed
  qed
qed

definition demo_unpaid :: order_row where
  "demo_unpaid = demo_expired\<lparr>or_status := AwaitingPayment, or_reserved := Some 150\<rparr>"

text \<open>At time 100 order 9 awaits payment until 150.\<close>

definition demo_pay_world :: world where
  "demo_pay_world = demo_unpaid_world\<lparr>w_now := 100, w_pg := (w_pg demo_unpaid_world)\<lparr>pg_orders := [demo_unpaid]\<rparr>\<rparr>"

lemma demo_pay_ok: "sys_ok demo_pay_world"
  by (simp add: demo_pay_world_def demo_unpaid_def demo_unpaid_world_def demo_saga_world_def demo_expired_def demo_type_def empty_world_def
      empty_pg_def db_ok_def pg_wf_def orders_wf_def order_violation_def user_event_clash_def intent_clash_def ledger_ok_def held_of_def
      held_def type_row_ok_def sys_ok_def typed_def events_ok_def)

lemma demo_pay_row: "lookup or_id 9 (pg_orders (w_pg demo_pay_world)) = Some demo_unpaid" "pg_orders (w_pg demo_pay_world) = [demo_unpaid]"
  "w_faults demo_pay_world = []" "pg_now (w_pg demo_pay_world) = 100" "w_now demo_pay_world = 100"
  by (simp_all add: demo_pay_world_def demo_unpaid_def demo_unpaid_world_def demo_saga_world_def demo_expired_def empty_world_def)

definition demo_event :: "string \<Rightarrow> envelope" where
  "demo_event kind = \<lparr>env_ID = ''evt_1'', env_Type = kind, env_Created = 0, env_LiveMode = False,
     env_Data = \<lparr>ed_Object = \<lparr>po_ID = ''pi_9'', po_Status = '''', po_AmountCents = 500, po_Currency = ''usd'',
       po_Metadata = Some [''order_id'' \<mapsto> uuid_String plain_ext 9], po_LastPaymentError = None\<rparr>\<rparr>\<rparr>"

lemma webhook_settles_order_witness:
  "sys_ok (snd (HandleWebhook plain_ext False (demo_event ''payment_intent.payment_failed'') demo_pay_world))"
  using webhook_settles_order [OF _ demo_pay_ok refl refl refl, of plain_ext False "demo_event ''payment_intent.payment_failed''"]
  by (metis prod.collapse)

text \<open>With every call working.\<close>

lemma set_intent_works:
  assumes "w_faults w = []" and "lookup or_id i (pg_orders (w_pg w)) = Some r" and "payable_row (pg_now (w_pg w)) r"
    and "or_intent r = None \<or> or_intent r = Some s" and "\<not> order_violation (r\<lparr>or_intent := Some s\<rparr>) (pg_orders (w_pg w))"
  shows "\<exists>p. orderRepo_SetPaymentIntentID i s w = (Inr (), w\<lparr>w_pg := p\<rparr>)"
  using assms by (auto simp: orderRepo_SetPaymentIntentID_def sql_exec_Works sql_set_intent_def Let_def)

lemma mark_paid_works:
  assumes nf: "w_faults w = []" and wf: "db_ok (w_pg w)" and r: "lookup or_id i (pg_orders (w_pg w)) = Some r"
    and p: "payable_row (pg_now (w_pg w)) r"
  shows "\<exists>p. orderRepo_MarkPaid i w = (Inr (), w\<lparr>w_pg := p\<rparr>)"
proof -
  have "\<not> order_violation (r\<lparr>or_status := Paid, or_updated := pg_now (w_pg w)\<rparr>) (pg_orders (w_pg w))"
    by (rule leave_unviolated) (use wf lookup_in_set [OF r] p in \<open>auto simp: db_ok_def pg_wf_def payable_row_def\<close>)
  then show ?thesis using nf r p by (simp add: orderRepo_MarkPaid_def sql_exec_Works sql_transition_def Let_def) blast
qed

lemma no_other_intent:
  assumes "orders_wf rs" and "r \<in> set rs" and "\<forall>q \<in> set rs. or_intent q = Some s \<longrightarrow> or_id q = or_id r"
  shows "\<not> order_violation (r\<lparr>or_intent := Some s\<rparr>) rs"
  using assms by (auto simp: orders_wf_def order_violation_def list_all_iff list_ex_iff user_event_clash_def intent_clash_def)

lemma pay_tx_works:
  assumes nf: "w_faults w = []" and wf: "db_ok (w_pg w)" and r: "lookup or_id (or_id r) (pg_orders (w_pg w)) = Some r"
    and p: "payable_row (pg_now (w_pg w)) r" and i: "or_intent r = None \<or> or_intent r = Some s"
    and u: "\<forall>q \<in> set (pg_orders (w_pg w)). or_intent q = Some s \<longrightarrow> or_id q = or_id r"
  obtains p' where "pay_tx (order_toDomain r) s w = (Inr (), w\<lparr>w_pg := p'\<rparr>)"
proof -
  have ido: "id_of (order_toDomain r) = or_id r" by (simp add: order_toDomain_def ReconstructOrder_def)
  have nv: "\<not> order_violation (r\<lparr>or_intent := Some s\<rparr>) (pg_orders (w_pg w))"
    by (rule no_other_intent) (use wf lookup_in_set [OF r] u in \<open>auto simp: db_ok_def pg_wf_def\<close>)
  obtain p1 where a: "(if paymentIntentID (order_toDomain r) = '''' then orderRepo_SetPaymentIntentID (or_id r) s w else (Inr (), w)) =
      (Inr (), w\<lparr>w_pg := p1\<rparr>)" and c: "p1 = w_pg w \<or> intent_set (or_id r) s (w_pg w) p1"
  proof (cases "paymentIntentID (order_toDomain r) = ''''")
    case True
    from set_intent_works [OF nf r p i nv] obtain q where q: "orderRepo_SetPaymentIntentID (or_id r) s w = (Inr (), w\<lparr>w_pg := q\<rparr>)" by blast
    with True SetPaymentIntentID_outcome [OF q] that [of q] show ?thesis by auto
  next
    case False
    with that [of "w_pg w"] show ?thesis by simp
  qed
  let ?w1 = "w\<lparr>w_pg := p1\<rparr>"
  have "\<exists>r1. lookup or_id (or_id r) (pg_orders p1) = Some r1 \<and> payable_row (pg_now p1) r1"
  proof (rule disjE [OF c])
    assume "p1 = w_pg w"
    with r p show ?thesis by simp
  next
    assume st: "intent_set (or_id r) s (w_pg w) p1"
    then have "lookup or_id (or_id r) (pg_orders p1) = Some (r\<lparr>or_intent := Some s\<rparr>)" using intent_set_row [OF st] r by auto
    moreover have "payable_row (pg_now p1) (r\<lparr>or_intent := Some s\<rparr>)" using p intent_set_frame [OF st] by (simp add: payable_row_def)
    ultimately show ?thesis by blast
  qed
  then obtain r1 where "lookup or_id (or_id r) (pg_orders (w_pg ?w1)) = Some r1" "payable_row (pg_now (w_pg ?w1)) r1" by auto
  moreover have "db_ok (w_pg ?w1)" using c wf intent_set_db_ok by auto
  ultimately obtain p2 where "orderRepo_MarkPaid (or_id r) ?w1 = (Inr (), ?w1\<lparr>w_pg := p2\<rparr>)"
    using mark_paid_works [of ?w1] nf by auto
  with a have "pay_tx (order_toDomain r) s w = (Inr (), w\<lparr>w_pg := p2\<rparr>)" unfolding pay_tx_def ido by simp
  then show thesis by (rule that)
qed

text \<open>C32: a payment is not lost. With every call working, a \<open>succeeded\<close> event whose metadata names an order
  within its reservation pays that order, also when \<open>/pay\<close> had failed to store the intent; the provider's
  redelivery is answered with success and changes nothing.\<close>

theorem webhook_pays_live_order:
  assumes nf: "w_faults w = []" and ok: "sys_ok w" and env: "env_LiveMode env = live" "env_Type env = ''payment_intent.succeeded''"
    and obj: "obj = ed_Object (env_Data env)" "metadata_get (po_Metadata obj) ''order_id'' = Some raw" "uuid_Parse X raw = Some i" "i \<noteq> uuid_Nil"
    and r: "lookup or_id i (pg_orders (w_pg w)) = Some r" "payable_row (pg_now (w_pg w)) r" "reserved_key r > w_now w"
    and int: "or_intent r = None \<or> or_intent r = Some (po_ID obj)"
    and u: "\<forall>q \<in> set (pg_orders (w_pg w)). or_intent q = Some (po_ID obj) \<longrightarrow> or_id q = i"
  shows "\<exists>w' w''. HandleWebhook X live env w = (Inr (), w') \<and>
    (\<exists>t. lookup or_id i (pg_orders (w_pg w')) = Some (r\<lparr>or_status := Paid, or_intent := Some (po_ID obj), or_updated := t\<rparr>)) \<and>
    HandleWebhook X live env w' = (Inr (), w'') \<and> w_pg w'' = w_pg w'"
proof -
  have i: "or_id r = i" using lookup_in_set [OF r(1)] by simp
  have wf: "db_ok (w_pg w)" using ok by (simp add: sys_ok_def)
  have dom: "status (order_toDomain q) = or_status q" "reservedUntil (order_toDomain q) = reserved_key q"
    "paymentIntentID (order_toDomain q) = (case or_intent q of None \<Rightarrow> '''' | Some s \<Rightarrow> s)" for q
    by (simp_all add: order_toDomain_def ReconstructOrder_def split: option.splits)
  have st: "or_status r = AwaitingPayment" using r(2) by (simp add: payable_row_def)
  have rs: "resolveOrderID X obj v = (Inr (i, True), v)" for v using obj by (simp add: resolveOrderID_def Let_def)
  have get: "orderRepo_GetByID i v = (Inr (order_toDomain q), v)"
    if "w_faults v = []" "lookup or_id i (pg_orders (w_pg v)) = Some q" for v q
    using that by (simp add: orderRepo_GetByID_def sql_query_Works)
  obtain p' where tx: "pay_tx (order_toDomain r) (po_ID obj) w = (Inr (), w\<lparr>w_pg := p'\<rparr>)"
    using pay_tx_works [OF nf wf _ r(2) int] r(1) i u by metis
  have pd: "paid_by (po_ID obj) r (w_pg w) p'"
    using pay_tx_outcome [OF tx] int dom by (auto split: option.splits)
  obtain t where row: "lookup or_id i (pg_orders p') = Some (r\<lparr>or_status := Paid, or_intent := Some (po_ID obj), or_updated := t\<rparr>)"
    using paid_by_row(2) [OF pd] r(1) i by auto
  let ?w = "webhook_metric ''received_succeeded'' (w\<lparr>w_pg := p'\<rparr>)"
  have "uow_Do (pay_tx (order_toDomain r) (po_ID obj)) w = (Inr (), w\<lparr>w_pg := p'\<rparr>)" using nf tx by (simp add: uow_Do_Works)
  then have "webhook_dispatch env (order_toDomain r) w = (Inr (), ?w)"
    using env obj(1) st r(3) by (simp add: webhook_dispatch_def handleSuccess_def dom isTerminalForWebhook_def)
  then have one: "HandleWebhook X live env w = (Inr (), ?w)"
    using env obj(1) rs get [OF nf r(1)] int by (auto simp: HandleWebhook_def Let_def dom)
  have "webhook_dispatch env (order_toDomain (r\<lparr>or_status := Paid, or_intent := Some (po_ID obj), or_updated := t\<rparr>)) ?w =
      (Inr (), webhook_metric (''duplicate_'' @ status_string Paid) ?w)"
    by (simp add: webhook_dispatch_def dom isTerminalForWebhook_def isFailureTerminalAfterPay_def)
  then have "HandleWebhook X live env ?w = (Inr (), webhook_metric (''duplicate_'' @ status_string Paid) ?w)"
    using env obj(1) rs get [of ?w, OF _ _] nf row by (simp add: HandleWebhook_def Let_def dom)
  with one row show ?thesis by auto
qed

lemma webhook_pays_live_order_witness:
  "\<exists>w' w''. HandleWebhook plain_ext False (demo_event ''payment_intent.succeeded'') demo_pay_world = (Inr (), w') \<and>
     map or_status (pg_orders (w_pg w')) = [Paid] \<and> HandleWebhook plain_ext False (demo_event ''payment_intent.succeeded'') w' = (Inr (), w'')"
proof -
  let ?e = "demo_event ''payment_intent.succeeded''"
  obtain w' w'' t where w: "HandleWebhook plain_ext False ?e demo_pay_world = (Inr (), w')"
    "lookup or_id 9 (pg_orders (w_pg w')) = Some (demo_unpaid\<lparr>or_status := Paid, or_intent := Some ''pi_9'', or_updated := t\<rparr>)"
    "HandleWebhook plain_ext False ?e w' = (Inr (), w'')"
    using webhook_pays_live_order [OF demo_pay_row(3) demo_pay_ok, of ?e False "ed_Object (env_Data ?e)" "uuid_String plain_ext 9" plain_ext 9 demo_unpaid]
      plain_ext_laws(1)
    by (auto simp: demo_event_def metadata_get_def demo_pay_row demo_unpaid_def demo_expired_def payable_row_def uuid_codec_def)
  have "map or_status (pg_orders (w_pg (snd (HandleWebhook plain_ext False ?e demo_pay_world)))) = [Paid]" by code_simp
  with w show ?thesis by auto
qed

text \<open>C33: A webhook request that is too long, unsigned, wrongly signed or not an event changes neither the database nor
  Redis and publishes nothing and is not answered with 200; only a request whose signature the verifier accepts for the
  configured, non-empty secret reaches the service, and it is answered with 200 exactly when the service succeeds.\<close>

theorem unsigned_webhook_changes_nothing:
  assumes "HandlePayment X validate parse secret tolerance live body header w = (code, w')"
  shows "(\<exists>raw env. body = Some raw \<and> length raw \<le> 65536 \<and> header \<noteq> '''' \<and> secret \<noteq> '''' \<and>
      validate raw header secret tolerance = None \<and> parse raw = Some env \<and>
      (code = 200 \<longleftrightarrow> (\<exists>w1. HandleWebhook X live env w = (Inr (), w1))) \<and> w' = snd (HandleWebhook X live env w)) \<or>
    (code \<in> {400, 401, 413, 500} \<and> w_pg w' = w_pg w \<and> w_rd w' = w_rd w \<and> w_failed w' = w_failed w)"
proof -
  have "mapServiceError e \<noteq> 200" for e by (simp add: mapServiceError_def)
  then show ?thesis using assms
    by (auto simp: HandlePayment_def VerifySignature_def Let_def split: option.splits if_splits sum.splits prod.splits)
qed

lemma unsigned_webhook_changes_nothing_witness:
  "w_pg (snd (HandlePayment plain_ext (\<lambda>_ _ _ _. Some ErrNoValidSignature) (\<lambda>_. Some (demo_event ''payment_intent.succeeded''))
     ''whsec'' 300 False (Some ''{}'') ''t=1,v1=00'' demo_pay_world)) = w_pg demo_pay_world \<and>
   fst (HandlePayment plain_ext (\<lambda>_ _ _ _. Some ErrNoValidSignature) (\<lambda>_. Some (demo_event ''payment_intent.succeeded''))
     ''whsec'' 300 False (Some ''{}'') ''t=1,v1=00'' demo_pay_world) = 401"
  using unsigned_webhook_changes_nothing [where X = plain_ext and validate = "\<lambda>_ _ _ _. Some ErrNoValidSignature" and
      parse = "\<lambda>_. Some (demo_event ''payment_intent.succeeded'')" and secret = "''whsec''" and tolerance = 300 and live = False and
      body = "Some ''{}''" and header = "''t=1,v1=00''" and w = demo_pay_world, OF surjective_pairing]
  by (auto simp: HandlePayment_def VerifySignature_def ClassifySignatureError_def mapStripeWebhookError_def errors_Is_def)

end
