(* ===== verification/Payment_Gateway.thy ===== *)
theory Payment_Gateway
  imports Payment
begin

text \<open>
  \<open>/pay\<close> against its gateway (\<open>application/payment/service.go\<close>, \<open>infrastructure/payment/mock_gateway.go\<close>):
  the contract of \<open>PaymentIntentCreator\<close> as the locale \<open>payment_gateway\<close>, what any sequence of calls keeps of the
  database under it, and the mock gateway as its interpretation.
\<close>

section \<open>What /pay relies on\<close>

text \<open>The contract of \<open>PaymentIntentCreator\<close>: a gateway leaves the database alone (time may pass), answers with
  the requested amount and currency (as \<open>norm\<close> writes it), and issues one intent per order. \<open>issued\<close> reads the
  gateway's state.\<close>

locale payment_gateway =
  fixes norm :: "string \<Rightarrow> string" and create :: "'g gateway" and issued :: "'g \<Rightarrow> uuid \<Rightarrow> string option"
  assumes leaves_rest: "create i a c md (g, w) = (r, g', w') \<Longrightarrow>
      w_pg w' = (w_pg w)\<lparr>pg_now := pg_now (w_pg w')\<rparr> \<and> w_failed w' = w_failed w"
    and issued_kept: "create i a c md (g, w) = (r, g', w') \<Longrightarrow> issued g j = Some s \<Longrightarrow> issued g' j = Some s"
    and answered: "create i a c md (g, w) = (Inr intent, g', w') \<Longrightarrow>
      issued g' i = Some (pi_ID intent) \<and> pi_AmountCents intent = a \<and> pi_Currency intent = norm c"
begin

text \<open>Every stored intent is the one the gateway issued for the order.\<close>

definition intents_match :: "'g \<Rightarrow> pg \<Rightarrow> bool" where
  "intents_match g p \<longleftrightarrow> (\<forall>r \<in> set (pg_orders p). or_intent r \<noteq> None \<longrightarrow> or_intent r = issued g (or_id r))"

text \<open>What an answered call leaves behind.\<close>

definition asked :: "uuid \<Rightarrow> payment_intent \<Rightarrow> pg \<Rightarrow> bool" where
  "asked i intent p \<longleftrightarrow> (\<exists>r. lookup or_id i (pg_orders p) = Some r \<and> or_intent r = Some (pi_ID intent) \<and>
     or_amount r = Some (pi_AmountCents intent) \<and> map_option norm (or_cur r) = Some (pi_Currency intent))"

lemma asked_kept:
  assumes "asked i intent p" and "pg_orders p' = pg_orders p \<or> intent_set j s p p'"
  shows "asked i intent p'"
proof -
  obtain r where r: "lookup or_id i (pg_orders p) = Some r" "or_intent r = Some (pi_ID intent)"
    "or_amount r = Some (pi_AmountCents intent)" "map_option norm (or_cur r) = Some (pi_Currency intent)"
    using assms(1) by (auto simp: asked_def)
  have "lookup or_id i (pg_orders p') = Some r"
    using assms(2)
  proof
    assume st: "intent_set j s p p'"
    from intent_set_row [OF st] r show ?thesis by (cases "j = i"; cases r) auto
  qed (use r in simp)
  with r show ?thesis by (auto simp: asked_def)
qed

lemma pay_outcome:
  assumes run: "CreatePaymentIntent X create i (g, w) = (res, g', w')" and ok: "sys_ok w" and im: "intents_match g (w_pg w)"
  shows "sys_ok w' \<and> intents_match g' (w_pg w') \<and>
    (pg_orders (w_pg w') = pg_orders (w_pg w) \<or> (\<exists>s p. pg_orders p = pg_orders (w_pg w) \<and> intent_set i s p (w_pg w'))) \<and>
    (\<forall>intent. res = Inr intent \<longrightarrow> asked i intent (w_pg w'))"
proof -
  obtain x w1 where get: "orderRepo_GetByID i w = (x, w1)" by (metis surj_pair)
  note f1 = GetByID_frame [OF get]
  have same: "sys_ok v \<and> intents_match h (w_pg v) \<and> pg_orders (w_pg v) = pg_orders (w_pg w)"
    if "w_pg v = (w_pg w)\<lparr>pg_now := t\<rparr>" "w_failed v = w_failed w" "\<And>j s. issued g j = Some s \<Longrightarrow> issued h j = Some s" for v h t
    using sys_ok_clock [OF ok that(1,2)] im that by (auto simp: intents_match_def)
  have w1: "w_pg w1 = (w_pg w)\<lparr>pg_now := pg_now (w_pg w)\<rparr>" "w_failed w1 = w_failed w" using f1 by simp_all
  let ?go = "\<lambda>o'. i \<noteq> uuid_Nil \<and> status o' = AwaitingPayment \<and> reservedUntil o' > w_now w1 \<and> HasPriceSnapshot o'"
  show ?thesis
  proof (cases "\<exists>o'. x = Inr o' \<and> ?go o'")
    case False
    then have "g' = g \<and> (w' = w \<or> w' = w1) \<and> (\<exists>e. res = Inl e)"
      using run get by (cases x) (auto simp: CreatePaymentIntent_def split: if_splits)
    with same [OF w1, of g] same [of w "pg_now (w_pg w)" g] show ?thesis by auto
  next
    case True
    then obtain o' where o': "x = Inr o'" "?go o'" by blast
    obtain r where r: "lookup or_id i (pg_orders (w_pg w)) = Some r" "o' = order_toDomain r" using GetByID_result [OF get [unfolded o'(1)]] by blast
    have snap: "or_amount r = Some (amountCents o')" "or_cur r = Some (currency o')"
      using o'(2) r(2) by (auto simp: HasPriceSnapshot_def order_toDomain_def ReconstructOrder_def split: option.splits)
    let ?md = "Some [''order_id'' \<mapsto> uuid_String X i]"
    obtain y g2 w2 where gw: "create i (amountCents o') (currency o') ?md (g, w1) = (y, g2, w2)" by (metis surj_pair)
    have w2: "w_pg w2 = (w_pg w)\<lparr>pg_now := pg_now (w_pg w2)\<rparr>" "w_failed w2 = w_failed w"
      using leaves_rest [OF gw] f1 by auto
    note s2 = same [OF w2 issued_kept [OF gw]]
    show ?thesis
    proof (cases y)
      case (Inl e)
      with run get o' gw s2 show ?thesis by (auto simp: CreatePaymentIntent_def)
    next
      case (Inr intent)
      obtain z w3 where st: "orderRepo_SetPaymentIntentID i (pi_ID intent) w2 = (z, w3)" by (metis surj_pair)
      note f3 = SetPaymentIntentID_outcome [OF st] and ans = answered [OF gw [unfolded Inr]]
      have res: "g' = g2 \<and> w' = w3 \<and> (\<forall>it. res = Inr it \<longrightarrow> z = Inr () \<and> it = intent)"
        using run get o' gw Inr st by (cases z) (auto simp: CreatePaymentIntent_def split: if_splits)
      show ?thesis
      proof (cases "intent_set i (pi_ID intent) (w_pg w2) (w_pg w3)")
        case False
        then have "w_pg w3 = w_pg w2" "z \<noteq> Inr ()" using f3 by auto
        with same [of w3 "pg_now (w_pg w2)" g2] w2 f3 issued_kept [OF gw] res show ?thesis by auto
      next
        case True
        have ok3: "sys_ok w3" by (rule intent_set_sys_ok [OF True]) (use s2 f3 in simp_all)
        have orders: "pg_orders (w_pg w2) = pg_orders (w_pg w)" using s2 by simp
        have row: "lookup or_id i (pg_orders (w_pg w3)) = Some (r\<lparr>or_intent := Some (pi_ID intent)\<rparr>)"
          using intent_set_row [OF True] r orders by auto
        have im3: "intents_match g2 (w_pg w3)"
          using True s2 ans lookup_in_set [OF r(1)] r(1) orders by (auto simp: intents_match_def intent_set_def update_where_def)
        have "asked i intent (w_pg w3)"
          using row ans snap by (simp add: asked_def)
        with ok3 im3 True orders res show ?thesis by auto
      qed
    qed
  qed
qed

end

fun pay_all :: "ext \<Rightarrow> 'g gateway \<Rightarrow> uuid list \<Rightarrow> 'g \<times> world \<Rightarrow> (uuid \<times> (err + payment_intent)) list \<times> 'g \<times> world" where
  "pay_all X create [] s = ([], s)"
| "pay_all X create (i # is) s = (case CreatePaymentIntent X create i s of (res, s1) \<Rightarrow>
     (case pay_all X create is s1 of (answers, s2) \<Rightarrow> ((i, res) # answers, s2)))"

context payment_gateway
begin

lemma pay_all_keeps_asked:
  assumes "pay_all X create is (g, w) = (answers, g', w')" and "sys_ok w" and "intents_match g (w_pg w)" and "asked i intent (w_pg w)"
  shows "asked i intent (w_pg w')"
  using assms
proof (induction "is" arbitrary: g w answers)
  case Nil
  then show ?case by simp
next
  case (Cons j js)
  obtain res g1 w1 where one: "CreatePaymentIntent X create j (g, w) = (res, g1, w1)" by (metis surj_pair)
  obtain as s2 where rest: "pay_all X create js (g1, w1) = (as, s2)" by (metis surj_pair)
  note out = pay_outcome [OF one Cons.prems(2,3)]
  have "asked i intent p" if "pg_orders p = pg_orders (w_pg w)" for p using Cons.prems(4) that by (simp add: asked_def)
  then have "asked i intent (w_pg w1)" using out asked_kept [of i intent _ "w_pg w1" j] by metis
  with Cons.IH [of g1 w1 as] Cons.prems(1) one rest out show ?case by simp
qed

lemma pay_all_outcome:
  assumes "pay_all X create is (g, w) = (answers, g', w')" and "sys_ok w" and "intents_match g (w_pg w)"
  shows "sys_ok w' \<and> intents_match g' (w_pg w') \<and> (\<forall>(i, res) \<in> set answers. \<forall>intent. res = Inr intent \<longrightarrow> asked i intent (w_pg w'))"
  using assms
proof (induction "is" arbitrary: g w answers)
  case Nil
  then show ?case by simp
next
  case (Cons j js)
  obtain res g1 w1 where one: "CreatePaymentIntent X create j (g, w) = (res, g1, w1)" by (metis surj_pair)
  obtain as s2 where rest: "pay_all X create js (g1, w1) = (as, s2)" by (metis surj_pair)
  note out = pay_outcome [OF one Cons.prems(2,3)]
  from Cons.prems(1) one rest have answers: "answers = (j, res) # as" and s2: "s2 = (g', w')" by simp_all
  note ih = Cons.IH [OF rest [unfolded s2]]
  note first = pay_all_keeps_asked [OF rest [unfolded s2]]
  from ih first out show ?case unfolding answers by simp
qed

end

section \<open>The mock gateway keeps the contract\<close>

definition mock_issued :: "ext \<Rightarrow> intent_cache \<Rightarrow> uuid \<Rightarrow> string option" where
  "mock_issued X cache i = map_option pi_ID (cache i)"

interpretation mock: payment_gateway "\<lambda>c. c" "MockGateway_CreatePaymentIntent X latency" "mock_issued X" for X latency
proof
  fix i a c md g w r g' w' j s intent
  assume run: "MockGateway_CreatePaymentIntent X latency i a c md (g, w) = (r, g', w')"
  show "w_pg w' = (w_pg w)\<lparr>pg_now := pg_now (w_pg w')\<rparr> \<and> w_failed w' = w_failed w"
  proof -
    obtain b w1 where c: "ctx_Err w = (b, w1)" by (metis surj_pair)
    obtain b2 w2 where sl: "sleepCtx latency w1 = (b2, w2)" by (metis surj_pair)
    obtain u w3 where uu: "uuid_NewV7 w2 = (u, w3)" by (metis surj_pair)
    have "w' = w1 \<or> w' = w2 \<or> w' = w3" using run c sl uu
      by (auto simp: MockGateway_CreatePaymentIntent_def Let_def split: option.splits if_splits bool.splits)
    moreover have "w_pg w2 = (w_pg w1)\<lparr>pg_now := pg_now (w_pg w2)\<rparr> \<and> w_failed w2 = w_failed w1"
      using sl by (auto simp: sleepCtx_def time_passes_def split: prod.splits if_splits dest!: io_pair)
    ultimately show ?thesis using ctx_Err_frame [OF c] uuid_NewV7_frame [OF uu] by auto
  qed
  show "mock_issued X g' j = Some s" if "mock_issued X g j = Some s"
    using run that by (auto simp: MockGateway_CreatePaymentIntent_def mock_issued_def Let_def
        split: prod.splits option.splits if_splits bool.splits)
next
  fix i a c md g w g' w' intent
  assume run: "MockGateway_CreatePaymentIntent X latency i a c md (g, w) = (Inr intent, g', w')"
  show "mock_issued X g' i = Some (pi_ID intent) \<and> pi_AmountCents intent = a \<and> pi_Currency intent = c"
    using run by (auto simp: MockGateway_CreatePaymentIntent_def mock_issued_def Let_def
        split: prod.splits option.splits if_splits bool.splits)
qed

text \<open>C16: However often \<open>/pay\<close> is called, for any orders and whatever calls fail, an answered intent is the one stored with
  its order, for exactly the amount and currency of the order's price snapshot; repeated calls for an order answer
  the same intent, and the database never names an intent that the gateway does not know.\<close>

theorem pay_asks_once_and_exactly:
  assumes "pay_all X (MockGateway_CreatePaymentIntent X latency) is (cache, w) = (answers, cache', w')"
    and "sys_ok w"
    and "\<forall>r \<in> set (pg_orders (w_pg w)). or_intent r \<noteq> None \<longrightarrow> or_intent r = map_option pi_ID (cache (or_id r))"
  shows "sys_ok w' \<and>
    (\<forall>r \<in> set (pg_orders (w_pg w')). or_intent r \<noteq> None \<longrightarrow> or_intent r = map_option pi_ID (cache' (or_id r))) \<and>
    (\<forall>i intent. (i, Inr intent) \<in> set answers \<longrightarrow> (\<exists>r. lookup or_id i (pg_orders (w_pg w')) = Some r \<and>
        or_intent r = Some (pi_ID intent) \<and> or_amount r = Some (pi_AmountCents intent) \<and> or_cur r = Some (pi_Currency intent))) \<and>
    (\<forall>i a b. (i, Inr a) \<in> set answers \<longrightarrow> (i, Inr b) \<in> set answers \<longrightarrow> pi_ID a = pi_ID b)"
proof -
  have "mock.intents_match X cache (w_pg w)" using assms(3) by (simp add: mock.intents_match_def mock_issued_def)
  from mock.pay_all_outcome [OF assms(1,2) this]
  have out: "sys_ok w'" "mock.intents_match X cache' (w_pg w')"
    and ans: "\<And>i intent. (i, Inr intent) \<in> set answers \<Longrightarrow> mock.asked i intent (w_pg w')" by auto
  have stored: "\<forall>i intent. (i, Inr intent) \<in> set answers \<longrightarrow> (\<exists>r. lookup or_id i (pg_orders (w_pg w')) = Some r \<and>
        or_intent r = Some (pi_ID intent) \<and> or_amount r = Some (pi_AmountCents intent) \<and> or_cur r = Some (pi_Currency intent))"
    using ans by (simp add: mock.asked_def)
  have same: "pi_ID a = pi_ID b" if "(i, Inr a) \<in> set answers" "(i, Inr b) \<in> set answers" for i a b
  proof -
    from stored that obtain r q where "lookup or_id i (pg_orders (w_pg w')) = Some r" "or_intent r = Some (pi_ID a)"
      "lookup or_id i (pg_orders (w_pg w')) = Some q" "or_intent q = Some (pi_ID b)" by blast
    then show ?thesis by simp
  qed
  have "\<forall>r \<in> set (pg_orders (w_pg w')). or_intent r \<noteq> None \<longrightarrow> or_intent r = map_option pi_ID (cache' (or_id r))"
    using out(2) by (simp add: mock.intents_match_def mock_issued_def)
  with out(1) stored same show ?thesis by blast
qed

text \<open>The hypotheses hold for one awaiting order paid twice; the second answer comes from the cache.\<close>

definition demo_fresh_world :: world where
  "demo_fresh_world = demo_pay_world\<lparr>w_uuids := [Some 4]\<rparr>"

definition demo_pay_run where
  "demo_pay_run = pay_all plain_ext (MockGateway_CreatePaymentIntent plain_ext 5) [9, 9] (Map.empty, demo_fresh_world)"

lemma demo_pay_run_answers:
  "map (\<lambda>(i, r). (i, map_sum (\<lambda>e. e) pi_ID r)) (fst demo_pay_run) = [(9, Inr ''pi_9''), (9, Inr ''pi_9'')]"
  by code_simp

lemma pay_asks_once_and_exactly_witness:
  "sys_ok (snd (snd demo_pay_run)) \<and>
   (\<exists>intent. (9, Inr intent) \<in> set (fst demo_pay_run) \<and>
     (\<exists>r. lookup or_id 9 (pg_orders (w_pg (snd (snd demo_pay_run)))) = Some r \<and> or_intent r = Some (pi_ID intent)))"
proof -
  obtain answers cache' w' where run: "demo_pay_run = (answers, cache', w')" by (metis surj_pair)
  have ok: "sys_ok demo_fresh_world" using demo_pay_ok by (simp add: demo_fresh_world_def sys_ok_def events_ok_def)
  have none: "\<forall>r \<in> set (pg_orders (w_pg demo_fresh_world)). or_intent r \<noteq> None \<longrightarrow> or_intent r = map_option pi_ID (Map.empty (or_id r))"
    by (simp add: demo_fresh_world_def demo_pay_row demo_unpaid_def demo_expired_def)
  from pay_asks_once_and_exactly [OF run [unfolded demo_pay_run_def] ok none]
  have out: "sys_ok w'" "\<And>i intent. (i, Inr intent) \<in> set answers \<Longrightarrow> \<exists>r. lookup or_id i (pg_orders (w_pg w')) = Some r \<and>
      or_intent r = Some (pi_ID intent)" by blast+
  have "\<exists>intent. (9, Inr intent) \<in> set answers"
    using demo_pay_run_answers by (cases answers) (auto simp: run map_sum_def split: sum.splits prod.splits)
  with out show ?thesis by (auto simp: run)
qed

end
