(* ===== verification/Recon.thy ===== *)
theory Recon
  imports Payment_Gateway
begin

text \<open>
  The reconciler (\<open>application/recon/reconciler.go\<close>, \<open>config.go\<close>): the sweep that resolves orders stuck in
  \<open>charging\<close> by asking the gateway for the state of their payment intent. What it relies on,
  \<open>domain.PaymentStatusReader\<close>, is the locale \<open>payment_status_reader\<close>.
\<close>

section \<open>Configuration\<close>

record recon_config =
  rc_SweepInterval :: duration
  rc_ChargingThreshold :: duration
  rc_GatewayTimeout :: duration
  rc_MaxChargingAge :: duration
  rc_BatchSize :: int

definition recon_Validate :: "recon_config \<Rightarrow> err + unit" where
  "recon_Validate c =
    (let bad = (\<lambda>m. Inl (Wrap m (Plain ''invalid recon config''))) in
     if rc_SweepInterval c \<le> 0 then bad ''SweepInterval must be > 0''
     else if rc_ChargingThreshold c \<le> 0 then bad ''ChargingThreshold must be > 0''
     else if rc_GatewayTimeout c \<le> 0 then bad ''GatewayTimeout must be > 0''
     else if rc_MaxChargingAge c \<le> rc_ChargingThreshold c then bad ''MaxChargingAge must be > ChargingThreshold''
     else if rc_BatchSize c \<le> 0 then bad ''BatchSize must be > 0''
     else Inr ())"

section \<open>The sweep\<close>

text \<open>\<open>PaymentStatusReader.GetStatus\<close> under a context that ends after the given time.\<close>

type_synonym status_reader = "duration \<Rightarrow> string \<Rightarrow> world \<Rightarrow> (err + charge_status) \<times> world"

definition recon_handleMarkErr :: "err \<Rightarrow> world \<Rightarrow> world" where
  "recon_handleMarkErr e w =
    (if errors_Is e ErrInvalidTransition then metric ''recon_resolved_transition_lost'' w
     else metric ''recon_mark_errors'' w)"

definition recon_failOrder :: "uuid \<Rightarrow> string \<Rightarrow> world \<Rightarrow> (err + unit) \<times> world" where
  "recon_failOrder i reason w = (case orderRepo_GetByID i w of
     (Inl e, w1) \<Rightarrow> (Inl (Wrap ''recon failOrder GetByID'' e), w1)
   | (Inr o', w1) \<Rightarrow>
       uow_Do (fail_in_tx (Wrap ''construct outbox event'') (Wrap ''outbox create order.failed'') orderRepo_MarkFailed o' reason) w1)"

definition recon_failed :: "uuid \<Rightarrow> string \<Rightarrow> string \<Rightarrow> world \<Rightarrow> world" where
  "recon_failed i reason outcome w = (case recon_failOrder i reason w of
     (Inl e, w1) \<Rightarrow> recon_handleMarkErr e w1
   | (Inr _, w1) \<Rightarrow> metric (''recon_resolved_'' @ outcome) w1)"

definition Recon_resolve :: "ext \<Rightarrow> status_reader \<Rightarrow> recon_config \<Rightarrow> uuid \<times> duration \<times> string \<Rightarrow> world \<Rightarrow> world" where
  "Recon_resolve X reader cfg s w = (case s of (i, age, intent) \<Rightarrow>
     if age > rc_MaxChargingAge cfg then recon_failed i ''recon: max_age_exceeded'' ''max_age_exceeded'' w
     else if strings_IsBlank X intent then metric ''recon_null_intent_id_skipped'' w
     else case reader (rc_GatewayTimeout cfg) intent w of
       (Inl e, w1) \<Rightarrow> metric ''recon_gateway_errors'' w1
     | (Inr ChargeStatusCharged, w1) \<Rightarrow> (case orderRepo_MarkConfirmed i w1 of
          (Inl e, w2) \<Rightarrow> recon_handleMarkErr e w2
        | (Inr _, w2) \<Rightarrow> metric ''recon_resolved_charged'' w2)
     | (Inr ChargeStatusDeclined, w1) \<Rightarrow> recon_failed i ''recon: gateway returned declined'' ''declined'' w1
     | (Inr ChargeStatusNotFound, w1) \<Rightarrow> recon_failed i ''recon: gateway has no charge record'' ''not_found'' w1
     | (Inr ChargeStatusUnknown, w1) \<Rightarrow> metric ''recon_resolved_unknown'' w1)"

definition Recon_Sweep :: "ext \<Rightarrow> status_reader \<Rightarrow> recon_config \<Rightarrow> world \<Rightarrow> (err + unit) \<times> world" where
  "Recon_Sweep X reader cfg w =
    (case orderRepo_FindStuckCharging (rc_ChargingThreshold cfg) (rc_BatchSize cfg) w of
       (Inl e, w1) \<Rightarrow> (Inl (Wrap ''recon Sweep: find stuck'' e), metric ''recon_find_stuck_errors'' w1)
     | (Inr stuck, w1) \<Rightarrow> for_each (\<lambda>s v. case ctx_Err v of
            (True, v1) \<Rightarrow> (Inl (Sentinel ContextCanceled), v1)
          | (False, v1) \<Rightarrow> (Inr (), Recon_resolve X reader cfg s v1)) stuck
          (metric (''recon_stuck_charging_'' @ show_nat (length stuck)) w1))"

section \<open>What a resolution does to the database\<close>

lemma recon_failed_outcome:
  assumes w': "w' = recon_failed i reason outcome w" and t: "typed (w_pg w)"
  shows "w_rd w' = w_rd w \<and> w_failed w' = w_failed w \<and>
    (w_pg w' = w_pg w \<or> (\<exists>r. lookup or_id i (pg_orders (w_pg w)) = Some r \<and> failed_by MarkFailed r (w_pg w) (w_pg w')))"
proof -
  obtain x w1 where g: "orderRepo_GetByID i w = (x, w1)" by (metis surj_pair)
  note f1 = GetByID_frame [OF g]
  show ?thesis
  proof (cases x)
    case (Inl e)
    with w' g f1 show ?thesis by (simp add: recon_failed_def recon_failOrder_def recon_handleMarkErr_def)
  next
    case (Inr o')
    then obtain r where r: "lookup or_id i (pg_orders (w_pg w)) = Some r" "o' = order_toDomain r" using GetByID_result g by blast
    have i: "or_id r = i" using lookup_in_set [OF r(1)] by simp
    obtain y w2 where u: "uow_Do (fail_in_tx (Wrap ''construct outbox event'') (Wrap ''outbox create order.failed'')
        (orderRepo_mark MarkFailed) (order_toDomain r) reason) w1 = (y, w2)" by (metis surj_pair)
    have o2: "w_rd w2 = w_rd w \<and> w_failed w2 = w_failed w \<and> (w_pg w2 = w_pg w \<or> failed_by MarkFailed r (w_pg w) (w_pg w2))"
      using failing_uow_outcome [OF u, of i] r t f1 i by (auto simp: failed_by_def)
    have "w_pg w' = w_pg w2 \<and> w_rd w' = w_rd w2 \<and> w_failed w' = w_failed w2"
      using w' g Inr u r by (cases y) (auto simp: recon_failed_def recon_failOrder_def recon_handleMarkErr_def mark_fun)
    with o2 r show ?thesis by auto
  qed
qed

section \<open>The contract of the status reader\<close>

text \<open>Asking the gateway changes nothing but the clocks, and an answer is the truth or \<open>unknown\<close>.\<close>

locale payment_status_reader =
  fixes reader :: status_reader and verdict :: "string \<Rightarrow> charge_status"
  assumes leaves: "reader d s w = (r, w') \<Longrightarrow> w_pg w' = (w_pg w)\<lparr>pg_now := pg_now (w_pg w')\<rparr> \<and>
      w_rd w' = (w_rd w)\<lparr>rd_now := rd_now (w_rd w')\<rparr> \<and> w_failed w' = w_failed w"
    and truthful: "reader d s w = (Inr st, w') \<Longrightarrow> st = verdict s \<or> st = ChargeStatusUnknown"

text \<open>What the sweep started at \<open>w\<close> may have done to an order.\<close>

definition stuck_charging :: "duration \<Rightarrow> time \<Rightarrow> order_row \<Rightarrow> bool" where
  "stuck_charging threshold now r \<longleftrightarrow> or_status r = Charging \<and> or_updated r < now - threshold"

definition intent_of :: "order_row \<Rightarrow> string" where
  "intent_of r = (case or_intent r of Some s \<Rightarrow> s | None \<Rightarrow> '''')"

definition confirmed_row :: "order_row \<Rightarrow> pg \<Rightarrow> bool" where
  "confirmed_row r p \<longleftrightarrow> (\<exists>t. lookup or_id (or_id r) (pg_orders p) = Some (r\<lparr>or_status := Confirmed, or_updated := t\<rparr>))"

definition recon_settled :: "(string \<Rightarrow> charge_status) \<Rightarrow> recon_config \<Rightarrow> time \<Rightarrow> order_row \<Rightarrow> pg \<Rightarrow> bool" where
  "recon_settled verdict cfg now r p \<longleftrightarrow> stuck_charging (rc_ChargingThreshold cfg) now r \<and>
     (confirmed_row r p \<and> verdict (intent_of r) = ChargeStatusCharged \<or>
      failed_with_event Failed r p \<and>
        (now - or_updated r > rc_MaxChargingAge cfg \<or> verdict (intent_of r) \<in> {ChargeStatusDeclined, ChargeStatusNotFound}))"

definition reconned :: "(string \<Rightarrow> charge_status) \<Rightarrow> recon_config \<Rightarrow> world \<Rightarrow> world \<Rightarrow> bool" where
  "reconned verdict cfg w v \<longleftrightarrow> sys_ok v \<and> w_rd v = (w_rd w)\<lparr>rd_now := rd_now (w_rd v)\<rparr> \<and> pg_types (w_pg v) = pg_types (w_pg w) \<and>
    (\<forall>r \<in> set (pg_orders (w_pg w)). lookup or_id (or_id r) (pg_orders (w_pg v)) = Some r \<or>
       recon_settled verdict cfg (pg_now (w_pg w)) r (w_pg v))"

lemma recon_settled_clock: "recon_settled vd cfg now r (p\<lparr>pg_now := t\<rparr>) = recon_settled vd cfg now r p"
  by (simp add: recon_settled_def confirmed_row_def failed_with_event_def)

lemma reconned_clock:
  assumes "reconned vd cfg w v" and "w_pg v' = (w_pg v)\<lparr>pg_now := pg_now (w_pg v')\<rparr>"
    and "w_rd v' = (w_rd v)\<lparr>rd_now := rd_now (w_rd v')\<rparr>" and "w_failed v' = w_failed v"
  shows "reconned vd cfg w v'"
proof -
  obtain t u where v': "w_pg v' = (w_pg v)\<lparr>pg_now := t\<rparr>" "w_rd v' = (w_rd v)\<lparr>rd_now := u\<rparr>" using assms(2,3) by blast
  have "w_rd v = (w_rd w)\<lparr>rd_now := rd_now (w_rd v)\<rparr>" using assms(1) by (simp add: reconned_def)
  then have "w_rd v' = (w_rd w)\<lparr>rd_now := u\<rparr>" using v'(2) by (metis redis.surjective redis.update_convs(9))
  moreover have "sys_ok v'" using sys_ok_clock [OF _ v'(1) assms(4)] assms(1) by (simp add: reconned_def)
  ultimately show ?thesis using assms(1) by (simp add: reconned_def v' recon_settled_clock)
qed

lemma reconned_same:
  "reconned vd cfg w v \<Longrightarrow> w_pg v' = w_pg v \<Longrightarrow> w_rd v' = w_rd v \<Longrightarrow> w_failed v' = w_failed v \<Longrightarrow> reconned vd cfg w v'"
  by (rule reconned_clock) simp_all

text \<open>A row the sweep has not settled is the row it found.\<close>

lemma reconned_unsettled:
  assumes "reconned vd cfg w v" and "r0 \<in> set (pg_orders (w_pg w))" "or_id r0 = i"
    and "lookup or_id i (pg_orders (w_pg v)) = Some r" and "or_status r \<in> {Pending, Charging}"
  shows "r = r0"
proof -
  have "\<not> recon_settled vd cfg (pg_now (w_pg w)) r0 (w_pg v)"
    using assms(3-5) by (auto simp: recon_settled_def confirmed_row_def failed_with_event_def)
  with assms show ?thesis by (auto simp: reconned_def)
qed

lemma reconned_failed:
  assumes I: "reconned vd cfg w v" and db: "db_ok (w_pg w)"
    and r0: "r0 \<in> set (pg_orders (w_pg w))" "or_id r0 = i" "stuck_charging (rc_ChargingThreshold cfg) (pg_now (w_pg w)) r0"
    and cause: "pg_now (w_pg w) - or_updated r0 > rc_MaxChargingAge cfg \<or> vd (intent_of r0) \<in> {ChargeStatusDeclined, ChargeStatusNotFound}"
    and r: "lookup or_id i (pg_orders (w_pg v)) = Some r" and fb: "failed_by MarkFailed r (w_pg v) (w_pg v')"
    and fr: "w_rd v' = w_rd v" "w_failed v' = w_failed v"
  shows "reconned vd cfg w v'"
proof -
  have k: "sys_ok v" using I by (simp add: reconned_def)
  have ri: "or_id r = i" using lookup_in_set [OF r] by simp
  obtain ev where em: "emitted MarkFailed i ev (w_pg v) (w_pg v')" and sp: "speaks_of ev r" using fb ri by (auto simp: failed_by_def)
  have "or_status r \<in> {Pending, Charging}"
    using emitted_lookup(1) [OF em r] by (cases "or_status r") (auto simp: mark_guard_def edge_simps)
  then have rr: "r = r0" by (rule reconned_unsettled [OF I r0(1,2) r])
  have "faithful (w_pg v) ev" using sp r ri by (simp add: faithful_def speaks_of_def)
  then have sys: "sys_ok v'" using emitted_sys_ok [OF em _ k] fr by simp
  have "lookup or_id (or_id q) (pg_orders (w_pg v')) = Some q \<or> recon_settled vd cfg (pg_now (w_pg w)) q (w_pg v')"
    if q: "q \<in> set (pg_orders (w_pg w))" for q
  proof (cases "or_id q = i")
    case True
    then have "q = r0" using order_lookup [OF db q] order_lookup [OF db r0(1)] r0(2) by simp
    then show ?thesis using emitted_fails_with_event [OF em r sp] r0 rr cause by (simp add: recon_settled_def)
  next
    case False
    then show ?thesis
      using I q emitted_lookup(2) [OF em r, of "or_id q"] emitted_keeps_failed [OF em r _ False]
      by (auto simp: reconned_def recon_settled_def confirmed_row_def)
  qed
  then show ?thesis using sys fr I emitted_lookup(4) [OF em r] by (simp add: reconned_def)
qed

lemma reconned_confirmed:
  assumes I: "reconned vd cfg w v" and db: "db_ok (w_pg w)"
    and r0: "r0 \<in> set (pg_orders (w_pg w))" "or_id r0 = i" "stuck_charging (rc_ChargingThreshold cfg) (pg_now (w_pg w)) r0"
    and cause: "vd (intent_of r0) = ChargeStatusCharged"
    and mv: "moved MarkConfirmed i (w_pg v) (w_pg v')" and fr: "w_rd v' = w_rd v" "w_failed v' = w_failed v"
  shows "reconned vd cfg w v'"
proof -
  have k: "sys_ok v" using I by (simp add: reconned_def)
  obtain r where r: "lookup or_id i (pg_orders (w_pg v)) = Some r" "mark_guard MarkConfirmed (pg_now (w_pg v)) r"
    "lookup or_id i (pg_orders (w_pg v')) = Some (r\<lparr>or_status := Confirmed, or_updated := pg_now (w_pg v)\<rparr>)"
    "\<And>j. j \<noteq> i \<Longrightarrow> lookup or_id j (pg_orders (w_pg v')) = lookup or_id j (pg_orders (w_pg v))"
    using moved_row [OF mv] by auto
  have "or_status r \<in> {Pending, Charging}" using r(2) by (cases "or_status r") (auto simp: mark_guard_def edge_simps)
  then have rr: "r = r0" by (rule reconned_unsettled [OF I r0(1,2) r(1)])
  have sys: "sys_ok v'" by (rule moved_sys_ok [OF mv _ k]) (use fr in simp_all)
  have "lookup or_id (or_id q) (pg_orders (w_pg v')) = Some q \<or> recon_settled vd cfg (pg_now (w_pg w)) q (w_pg v')"
    if q: "q \<in> set (pg_orders (w_pg w))" for q
  proof (cases "or_id q = i")
    case True
    then have "q = r0" using order_lookup [OF db q] order_lookup [OF db r0(1)] r0(2) by simp
    then show ?thesis using r(3) r0 rr cause by (auto simp: recon_settled_def confirmed_row_def)
  next
    case False
    then show ?thesis using I q r(4) moved_frame [OF mv]
      by (auto simp: reconned_def recon_settled_def confirmed_row_def failed_with_event_def)
  qed
  then show ?thesis using sys fr I moved_frame [OF mv] by (simp add: reconned_def)
qed

lemma found_stuck:
  assumes "orderRepo_FindStuckCharging threshold n w = (Inr stuck, w1)" and "(i, age, intent) \<in> set stuck"
  shows "\<exists>r \<in> set (pg_orders (w_pg w)). or_id r = i \<and> stuck_charging threshold (pg_now (w_pg w)) r \<and>
    age = pg_now (w_pg w) - or_updated r \<and> intent = intent_of r"
  using assms by (auto simp: orderRepo_FindStuckCharging_def sql_find_stuck_def stuck_charging_def intent_of_def
      split: prod.splits sum.splits dest!: sql_query_result in_set_takeD) blast

context payment_status_reader
begin

lemma resolve_reconned:
  assumes I: "reconned verdict cfg w v" and db: "db_ok (w_pg w)" and v': "v' = Recon_resolve X reader cfg (i, age, intent) v"
    and r0: "r0 \<in> set (pg_orders (w_pg w))" "or_id r0 = i" "stuck_charging (rc_ChargingThreshold cfg) (pg_now (w_pg w)) r0"
    and age: "age = pg_now (w_pg w) - or_updated r0" "intent = intent_of r0"
  shows "reconned verdict cfg w v'"
proof -
  have fail: "reconned verdict cfg w (recon_failed i reason outcome u)"
    if "reconned verdict cfg w u" "age > rc_MaxChargingAge cfg \<or> verdict intent \<in> {ChargeStatusDeclined, ChargeStatusNotFound}"
    for u reason outcome
    using recon_failed_outcome [OF refl, of u i reason outcome] that reconned_same [OF that(1)]
      reconned_failed [OF that(1) db r0] age by (auto simp: reconned_def sys_ok_def)
  show ?thesis
  proof (cases "age > rc_MaxChargingAge cfg \<or> strings_IsBlank X intent")
    case True
    with v' fail [OF I] reconned_same [OF I] show ?thesis by (auto simp: Recon_resolve_def)
  next
    case False
    obtain x v1 where g: "reader (rc_GatewayTimeout cfg) intent v = (x, v1)" by (metis surj_pair)
    have I1: "reconned verdict cfg w v1" by (rule reconned_clock [OF I]) (use leaves [OF g] in simp_all)
    have tr: "st = verdict intent \<or> st = ChargeStatusUnknown" if "x = Inr st" for st using truthful g that by blast
    show ?thesis
    proof (cases "x = Inr ChargeStatusCharged")
      case True
      obtain y v2 where m: "orderRepo_mark MarkConfirmed i v1 = (y, v2)" by (metis surj_pair)
      have "reconned verdict cfg w v2"
        using orderRepo_mark_outcome [OF m] reconned_same [OF I1] reconned_confirmed [OF I1 db r0] age tr [OF True] by auto
      then show ?thesis using v' False g True m reconned_same [of verdict cfg w v2]
        by (auto simp: Recon_resolve_def recon_handleMarkErr_def split: sum.splits)
    next
      case other: False
      show ?thesis
        using v' False g other tr fail [OF I1] reconned_same [OF I1]
        by (cases x) (auto simp: Recon_resolve_def split: charge_status.splits)
    qed
  qed
qed

lemma sweep_reconned:
  assumes run: "Recon_Sweep X reader cfg w = (res, w')" and ok: "sys_ok w"
  shows "reconned verdict cfg w w'"
proof -
  have db: "db_ok (w_pg w)" using ok by (simp add: sys_ok_def)
  obtain x w1 where f: "orderRepo_FindStuckCharging (rc_ChargingThreshold cfg) (rc_BatchSize cfg) w = (x, w1)" by (metis surj_pair)
  have fr1: "w_pg w1 = w_pg w \<and> w_rd w1 = w_rd w \<and> w_failed w1 = w_failed w"
    using f by (auto simp: orderRepo_FindStuckCharging_def split: prod.splits sum.splits dest!: sql_query_frame)
  have "reconned verdict cfg w w" using ok order_lookup [OF db] by (simp add: reconned_def)
  then have I1: "reconned verdict cfg w w1" using reconned_same fr1 by blast
  show ?thesis
  proof (cases x)
    case (Inl e)
    with run f have "w' = metric ''recon_find_stuck_errors'' w1" by (simp add: Recon_Sweep_def)
    then show ?thesis using reconned_same [OF I1] by simp
  next
    case (Inr stuck)
    let ?body = "\<lambda>s v. case ctx_Err v of (True, v1) \<Rightarrow> (Inl (Sentinel ContextCanceled), v1)
           | (False, v1) \<Rightarrow> (Inr (), Recon_resolve X reader cfg s v1)"
    have l: "for_each ?body stuck (metric (''recon_stuck_charging_'' @ show_nat (length stuck)) w1) = (res, w')"
      using run unfolding Recon_Sweep_def f Inr prod.case sum.case .
    show ?thesis
    proof (rule for_each_invariant [where I = "reconned verdict cfg w", OF l])
      show "reconned verdict cfg w (metric (''recon_stuck_charging_'' @ show_nat (length stuck)) w1)" using reconned_same [OF I1] by simp
    next
      fix s v r v'
      assume s: "s \<in> set stuck" and Iv: "reconned verdict cfg w v" and b: "?body s v = (r, v')"
      obtain c v1 where c: "ctx_Err v = (c, v1)" by (metis surj_pair)
      have v1: "reconned verdict cfg w v1" using reconned_same [OF Iv] ctx_Err_frame [OF c] by simp
      obtain i age intent where ia: "s = (i, age, intent)" by (cases s)
      have "v' = v1 \<or> v' = Recon_resolve X reader cfg (i, age, intent) v1" using b c ia by (cases c) auto
      then show "reconned verdict cfg w v'"
        using v1 found_stuck [OF f [unfolded Inr] s [unfolded ia]] resolve_reconned [OF v1 db] by auto
    qed
  qed
qed

end

section \<open>The mock gateway as a reader\<close>

interpretation mock_status: payment_status_reader "\<lambda>_. MockGateway_GetStatus" "\<lambda>_. ChargeStatusNotFound"
proof
  fix s w r w' st
  show "w_pg w' = (w_pg w)\<lparr>pg_now := pg_now (w_pg w')\<rparr> \<and> w_rd w' = (w_rd w)\<lparr>rd_now := rd_now (w_rd w')\<rparr> \<and> w_failed w' = w_failed w"
    if "MockGateway_GetStatus s w = (r, w')"
    using that by (auto simp: MockGateway_GetStatus_def split: prod.splits bool.splits dest!: ctx_Err_frame)
  show "st = ChargeStatusNotFound \<or> st = ChargeStatusUnknown" if "MockGateway_GetStatus s w = (Inr st, w')"
    using that by (auto simp: MockGateway_GetStatus_def split: prod.splits bool.splits)
qed

text \<open>C17: the reconciler settles orders by the gateway's verdict. Whatever calls fail, a sweep keeps the books, Redis and
  the stock in the database; every order is as before, or was in \<open>charging\<close> for longer than the threshold and is
  now confirmed because its intent was charged, or failed together with its pending \<open>order.failed\<close> event
  because its intent was declined or is unknown to the gateway, or because it was older than the age bound.\<close>

theorem recon_settles_by_verdict:
  assumes "payment_status_reader reader verdict" and "Recon_Sweep X reader cfg w = (res, w')" and "sys_ok w"
  shows "sys_ok w' \<and> w_rd w' = (w_rd w)\<lparr>rd_now := rd_now (w_rd w')\<rparr> \<and> pg_types (w_pg w') = pg_types (w_pg w) \<and>
    (\<forall>r \<in> set (pg_orders (w_pg w)). lookup or_id (or_id r) (pg_orders (w_pg w')) = Some r \<or>
       stuck_charging (rc_ChargingThreshold cfg) (pg_now (w_pg w)) r \<and>
       (confirmed_row r (w_pg w') \<and> verdict (intent_of r) = ChargeStatusCharged \<or>
        failed_with_event Failed r (w_pg w') \<and>
          (pg_now (w_pg w) - or_updated r > rc_MaxChargingAge cfg \<or>
           verdict (intent_of r) \<in> {ChargeStatusDeclined, ChargeStatusNotFound})))"
  using payment_status_reader.sweep_reconned [OF assms] by (simp add: reconned_def recon_settled_def)

text \<open>A sweep against the mock gateway, which knows no charge: the stuck order fails with its event.\<close>

definition demo_charging_world :: world where
  "demo_charging_world = demo_unpaid_world\<lparr>w_pg := (w_pg demo_unpaid_world)\<lparr>
     pg_orders := [demo_expired\<lparr>or_status := Charging, or_intent := Some ''pi_9''\<rparr>]\<rparr>\<rparr>"

definition demo_recon_config :: recon_config where
  "demo_recon_config = \<lparr>rc_SweepInterval = 1, rc_ChargingThreshold = 5, rc_GatewayTimeout = 1, rc_MaxChargingAge = 1000, rc_BatchSize = 10\<rparr>"

lemma demo_charging_ok: "sys_ok demo_charging_world"
  by (simp add: demo_charging_world_def demo_unpaid_world_def demo_saga_world_def demo_expired_def demo_type_def empty_world_def empty_pg_def
      db_ok_def pg_wf_def orders_wf_def order_violation_def user_event_clash_def intent_clash_def ledger_ok_def held_of_def held_def
      type_row_ok_def sys_ok_def typed_def events_ok_def)

lemma recon_settles_by_verdict_witness:
  "(let w' = snd (Recon_Sweep plain_ext (\<lambda>_. MockGateway_GetStatus) demo_recon_config demo_charging_world)
    in sys_ok w' \<and> map or_status (pg_orders (w_pg w')) = [Failed] \<and> length (pg_outbox (w_pg w')) = 1)"
proof -
  let ?r = "Recon_Sweep plain_ext (\<lambda>_. MockGateway_GetStatus) demo_recon_config demo_charging_world"
  have "sys_ok (snd ?r)"
    using recon_settles_by_verdict [OF mock_status.payment_status_reader_axioms _ demo_charging_ok, of plain_ext demo_recon_config]
    by (metis prod.collapse)
  moreover have "map or_status (pg_orders (w_pg (snd ?r))) = [Failed] \<and> length (pg_outbox (w_pg (snd ?r))) = 1" by code_simp
  ultimately show ?thesis by (simp add: Let_def)
qed

end
