(* ===== verification/Stripe_Redact.thy ===== *)
theory Stripe_Redact
  imports Payment
begin

text \<open>
  The redaction of the Stripe SDK's log lines (\<open>infrastructure/payment/stripe_gateway.go\<close>): before a line is
  logged, the values of the sensitive fields are masked in the \<open>key=value\<close> and in the JSON form. The
  loops scan by index, as the code does; the theorem says that no value is left behind.
\<close>

section \<open>The scanning loops\<close>

text \<open>\<open>strings.Index\<close>: the first position at which \<open>p\<close> occurs in \<open>s\<close>.\<close>

fun strings_Index :: "string \<Rightarrow> string \<Rightarrow> nat option" where
  "strings_Index [] p = (if p = [] then Some 0 else None)"
| "strings_Index (c # cs) p = (if take (length p) (c # cs) = p then Some 0 else map_option Suc (strings_Index cs p))"

lemma strings_Index_Some:
  "strings_Index s p = Some i \<Longrightarrow> \<exists>a b. s = a @ p @ b \<and> length a = i \<and> (\<forall>u v. s = u @ p @ v \<longrightarrow> i \<le> length u)"
proof (induction s arbitrary: i)
  case Nil
  then show ?case by (auto split: if_splits)
next
  case (Cons c cs)
  show ?case
  proof (cases "take (length p) (c # cs) = p")
    case True
    then have "c # cs = [] @ p @ drop (length p) (c # cs)" by (metis append_Nil append_take_drop_id)
    with Cons.prems True show ?thesis by (metis list.size(3) option.inject strings_Index.simps(2) zero_le)
  next
    case False
    with Cons.prems obtain j where j: "strings_Index cs p = Some j" "i = Suc j" by auto
    obtain a b where ab: "cs = a @ p @ b" "length a = j" "\<forall>u v. cs = u @ p @ v \<longrightarrow> j \<le> length u" using Cons.IH [OF j(1)] by blast
    have "i \<le> length u" if "c # cs = u @ p @ v" for u v
      using that False ab(3) j(2) by (cases u) auto
    with ab j(2) show ?thesis by (intro exI [of _ "c # a"] exI [of _ b]) simp
  qed
qed

lemma strings_Index_None: "strings_Index s p = None \<Longrightarrow> s \<noteq> u @ p @ v"
proof (induction s arbitrary: u)
  case Nil
  then show ?case by (auto split: if_splits)
next
  case (Cons c cs)
  then show ?case by (cases u) (auto split: if_splits)
qed

text \<open>A scan goes on behind the mask, and what is left gets shorter.\<close>

lemma mask_shorter:
  assumes "strings_Index (drop n s) p = Some i" and "p \<noteq> []" and "i + n + length p \<le> e"
  shows "length (take (i + n + length p) s @ r @ drop e s) - (i + n + length p + length r) < length s - n"
proof -
  obtain a b where "drop n s = a @ p @ b" "length a = i" using strings_Index_Some [OF assms(1)] by blast
  then have len: "length s - n = i + length p + length b" by (metis length_append length_drop add.assoc)
  obtain k where "length p = Suc k" using assms(2) by (cases p) simp_all
  with len assms(3) show ?thesis by simp
qed

abbreviation replacement :: string where
  "replacement \<equiv> ''<redacted>''"

definition kv_stop :: "char \<Rightarrow> bool" where
  "kv_stop c \<longleftrightarrow> c = CHR '' '' \<or> c = CHR 0x09 \<or> c = CHR 0x0A \<or> c = CHR '','' \<or> c = CHR 0x22 \<or> c = CHR ''&''"

function kv_end :: "string \<Rightarrow> nat \<Rightarrow> nat" where
  "kv_end s e = (if e < length s \<and> \<not> kv_stop (s ! e) then kv_end s (e + 1) else e)"
  by pat_completeness auto
termination by (relation "measure (\<lambda>(s, e). length s - e)") auto

declare kv_end.simps [simp del]

lemma kv_end_ge: "e \<le> kv_end s e"
  by (induction s e rule: kv_end.induct) (subst kv_end.simps, auto)

definition kv_prefix :: "string \<Rightarrow> string" where
  "kv_prefix key = key @ ''=''"

function redactKeyValue_loop :: "string \<Rightarrow> string \<Rightarrow> nat \<Rightarrow> string" where
  "redactKeyValue_loop key s scanFrom = (case strings_Index (drop scanFrom s) (kv_prefix key) of
     None \<Rightarrow> s
   | Some i \<Rightarrow>
      let idx = i + scanFrom;
          valueStart = idx + length (kv_prefix key);
          valueEnd = kv_end s valueStart
      in redactKeyValue_loop key (take valueStart s @ replacement @ drop valueEnd s) (valueStart + length replacement))"
  by pat_completeness auto
termination
proof (relation "measure (\<lambda>(key, s, n). length s - n)")
  fix key s n i idx vs ve
  assume "strings_Index (drop n s) (kv_prefix key) = Some i" "idx = i + n" "vs = idx + length (kv_prefix key)" "ve = kv_end s vs"
  then show "((key, take vs s @ replacement @ drop ve s, vs + length replacement), (key, s, n)) \<in> measure (\<lambda>(key, s, n). length s - n)"
    using mask_shorter [of n s "kv_prefix key" i ve replacement] kv_end_ge [of vs s] by (simp del: length_append add: kv_prefix_def)
qed simp

declare redactKeyValue_loop.simps [simp del]

definition redactKeyValue :: "string \<Rightarrow> string \<Rightarrow> string" where
  "redactKeyValue s key = redactKeyValue_loop key s 0"

text \<open>The JSON forms \<open>"key":"\<close> and \<open>"key": "\<close>; an escaped character of the value is skipped.\<close>

definition json_prefix :: "string \<Rightarrow> bool \<Rightarrow> string" where
  "json_prefix key spaced = [CHR 0x22] @ key @ [CHR 0x22, CHR '':''] @ (if spaced then [CHR '' ''] else []) @ [CHR 0x22]"

function json_end :: "string \<Rightarrow> nat \<Rightarrow> nat" where
  "json_end s e = (if e < length s \<and> s ! e \<noteq> CHR 0x22
     then (if s ! e = CHR 0x5C \<and> e + 1 < length s then json_end s (e + 2) else json_end s (e + 1))
     else e)"
  by pat_completeness auto
termination by (relation "measure (\<lambda>(s, e). length s - e)") auto

declare json_end.simps [simp del]

lemma json_end_ge: "e \<le> json_end s e"
  by (induction s e rule: json_end.induct) (subst json_end.simps, auto)

function redactJSON_loop :: "string \<Rightarrow> bool \<Rightarrow> string \<Rightarrow> nat \<Rightarrow> string" where
  "redactJSON_loop key spaced s scanFrom = (case strings_Index (drop scanFrom s) (json_prefix key spaced) of
     None \<Rightarrow> s
   | Some i \<Rightarrow>
      let idx = i + scanFrom;
          valueStart = idx + length (json_prefix key spaced);
          valueEnd = json_end s valueStart
      in if valueEnd \<ge> length s then take valueStart s @ replacement
         else redactJSON_loop key spaced (take valueStart s @ replacement @ drop valueEnd s) (valueStart + length replacement))"
  by pat_completeness auto
termination
proof (relation "measure (\<lambda>(key, b, s, n). length s - n)")
  fix key sp s n i idx vs ve
  assume "strings_Index (drop n s) (json_prefix key sp) = Some i" "idx = i + n" "vs = idx + length (json_prefix key sp)" "ve = json_end s vs"
  then show "((key, sp, take vs s @ replacement @ drop ve s, vs + length replacement), (key, sp, s, n)) \<in> measure (\<lambda>(key, b, s, n). length s - n)"
    using mask_shorter [of n s "json_prefix key sp" i ve replacement] json_end_ge [of vs s] by (simp del: length_append add: json_prefix_def)
qed simp

declare redactJSON_loop.simps [simp del]

definition redactJSONField :: "string \<Rightarrow> string \<Rightarrow> string" where
  "redactJSONField s key = redactJSON_loop key True (redactJSON_loop key False s 0) 0"

definition sensitiveFields :: "string list" where
  "sensitiveFields = [''client_secret'', ''card.number'', ''card.cvc'', ''card.exp_month'', ''card.exp_year'']"

definition redact :: "string \<Rightarrow> string" where
  "redact s = foldl (\<lambda>s sub. redactJSONField (redactKeyValue s sub) sub) s sensitiveFields"

section \<open>A mask hides and keeps hidden\<close>

text \<open>Every occurrence of \<open>P\<close> that starts before position \<open>n\<close> is followed by the mask.\<close>

definition masked_upto :: "string \<Rightarrow> nat \<Rightarrow> string \<Rightarrow> bool" where
  "masked_upto P n s \<longleftrightarrow> (\<forall>u v. s = u @ P @ v \<longrightarrow> length u < n \<longrightarrow> (\<exists>x. v = replacement @ x))"

abbreviation masked :: "string \<Rightarrow> string \<Rightarrow> bool" where
  "masked P s \<equiv> masked_upto P (Suc (length s)) s"

text \<open>A marker can neither overlap the mask nor end inside it.\<close>

definition marker :: "string \<Rightarrow> bool" where
  "marker P \<longleftrightarrow> P \<noteq> [] \<and> last P \<notin> set replacement \<and> hd replacement \<notin> set P \<and> last replacement \<notin> set P"

lemma kv_marker: "key \<in> set sensitiveFields \<Longrightarrow> marker (kv_prefix key)"
  by (auto simp: sensitiveFields_def marker_def kv_prefix_def)

lemma json_marker: "key \<in> set sensitiveFields \<Longrightarrow> marker (json_prefix key spaced)"
  by (auto simp: sensitiveFields_def marker_def json_prefix_def)

lemma masked_all: "masked P s \<longleftrightarrow> (\<forall>u v. s = u @ P @ v \<longrightarrow> (\<exists>x. v = replacement @ x))"
  by (auto simp: masked_upto_def)

lemma append_split: "a @ b = c @ d \<Longrightarrow> length a \<le> length c \<Longrightarrow> \<exists>t. c = a @ t \<and> b = t @ d"
  by (auto simp: append_eq_append_conv2)

text \<open>Where an occurrence of a marker lies in a string that has a mask: before it or behind it.\<close>

lemma occurrence_beside:
  assumes eq: "h @ R @ c = u @ P @ v" and P: "P \<noteq> []" "last P \<notin> set R" "hd R \<notin> set P" "last R \<notin> set P" and R: "R \<noteq> []"
  shows "(\<exists>t. h = u @ P @ t \<and> v = t @ R @ c) \<or> (\<exists>t. u = h @ R @ t \<and> c = t @ P @ v)"
proof -
  let ?s = "h @ R @ c"
  have at: "P ! j = ?s ! (length u + j)" if "j < length P" for j
    using that unfolding eq by (simp add: nth_append)
  have inP: "?s ! k \<in> set P" if "length u \<le> k" "k < length u + length P" for k
    using at [of "k - length u"] that nth_mem [of "k - length u" P] by simp
  consider (before) "length (u @ P) \<le> length h" | (behind) "length (h @ R) \<le> length u"
    | (overlap) "length h < length (u @ P)" "length u < length (h @ R)" by linarith
  then show ?thesis
  proof cases
    case before
    from append_split [OF _ this, of v "R @ c"] eq show ?thesis by auto
  next
    case behind
    from append_split [OF _ this, of c "P @ v"] eq show ?thesis by auto
  next
    case overlap
    have lR: "0 < length R" and lP: "0 < length P" using R P(1) by simp_all
    have first: "?s ! length h = hd R" and final: "?s ! (length h + (length R - 1)) = last R"
      using R by (simp_all add: nth_append hd_conv_nth last_conv_nth)
    have a: "length h < length u" using inP [of "length h"] first overlap P(3) by (cases "length u \<le> length h") auto
    have b: "length u + length P < length h + length R"
    proof (rule ccontr)
      assume "\<not> ?thesis"
      with a lR overlap have "length u \<le> length h + (length R - 1)" "length h + (length R - 1) < length u + length P" by simp_all
      from inP [OF this] final P(4) show False by simp
    qed
    let ?k = "length u + (length P - 1)"
    have k: "length h \<le> ?k" "?k < length h + length R" using a b lP by linarith+
    have "last P = P ! (length P - 1)" using P(1) by (rule last_conv_nth)
    also have "\<dots> = ?s ! ?k" by (rule at) (use lP in simp)
    also have "\<dots> = R ! (?k - length h)" using k by (simp add: nth_append less_diff_conv2)
    also have "\<dots> \<in> set R" using k by (intro nth_mem) linarith
    finally show ?thesis using P(2) by simp
  qed
qed

text \<open>Masking what follows the head \<open>h\<close>, which ends with a marker.\<close>

lemma mask_step:
  assumes P: "marker P" and Q: "marker Q" and h: "h = a @ Q"
    and head: "\<And>t. h = u @ P @ t \<Longrightarrow> t = [] \<or> (\<exists>x. t @ b = replacement @ x)"
    and eq: "h @ replacement @ c = u @ P @ v"
  shows "(\<exists>x. v = replacement @ x) \<or> (\<exists>t. u = h @ replacement @ t \<and> c = t @ P @ v)"
proof -
  have R: "replacement \<noteq> []" by simp
  define R where "R = replacement"
  have lR: "last Q \<notin> set R" "Q \<noteq> []" using Q by (auto simp: marker_def R_def)
  from occurrence_beside [OF eq _ _ _ _ R] P
  consider (before) t where "h = u @ P @ t" "v = t @ R @ c" | (behind) "\<exists>t. u = h @ R @ t \<and> c = t @ P @ v"
    by (auto simp: marker_def R_def)
  then show ?thesis
  proof cases
    case before
    from head [OF before(1)] consider "t = []" | x where "t \<noteq> []" "t @ b = R @ x" by (auto simp: R_def)
    then show ?thesis
    proof cases
      case 1
      with before(2) show ?thesis by (auto simp: R_def)
    next
      case 2
      have "length R \<le> length t"
      proof (rule ccontr)
        assume "\<not> ?thesis"
        with append_split [OF 2(2)] obtain y where "R = t @ y" by auto
        then have "last t \<in> set R" using 2(1) by simp
        moreover have "last t = last Q" using before(1) h 2(1) lR(2) by (metis last_appendR append_is_Nil_conv)
        ultimately show False using lR(1) by simp
      qed
      with append_split [OF 2(2) [symmetric]] obtain z where "t = R @ z" by auto
      with before(2) show ?thesis by (auto simp: R_def)
    qed
  qed (auto simp: R_def)
qed

text \<open>A mask keeps every marker masked that was.\<close>

lemma mask_keeps:
  assumes P: "marker P" and Q: "marker Q" and s: "s = a @ Q @ b @ c" and m: "masked P s"
  shows "masked P ((a @ Q) @ replacement @ c)"
  unfolding masked_all
proof (intro allI impI)
  fix u v assume eq: "(a @ Q) @ replacement @ c = u @ P @ v"
  have "(\<exists>x. v = replacement @ x) \<or> (\<exists>t. u = (a @ Q) @ replacement @ t \<and> c = t @ P @ v)"
  proof (rule mask_step [OF P Q refl _ eq])
    fix t assume "a @ Q = u @ P @ t"
    then have "s = u @ P @ t @ b @ c" using s by simp
    then show "t = [] \<or> (\<exists>x. t @ b @ c = replacement @ x)" using m unfolding masked_all by blast
  qed
  then show "\<exists>x. v = replacement @ x"
  proof
    assume "\<exists>t. u = (a @ Q) @ replacement @ t \<and> c = t @ P @ v"
    then obtain t where "c = t @ P @ v" by blast
    with s have "s = (a @ Q @ b @ t) @ P @ v" by simp
    with m show ?thesis unfolding masked_all by blast
  qed
qed

text \<open>The scan: up to the new scan position everything is masked.\<close>

lemma mask_extends:
  assumes Q: "marker Q" and s: "s = d @ a @ Q @ b @ c" and m: "masked_upto Q (length d) s"
    and first: "\<forall>u v. a @ Q @ b @ c = u @ Q @ v \<longrightarrow> length a \<le> length u"
  shows "masked_upto Q (length (d @ a @ Q @ replacement)) ((d @ a @ Q) @ replacement @ c)"
  unfolding masked_upto_def
proof (intro allI impI)
  fix u v assume eq: "(d @ a @ Q) @ replacement @ c = u @ Q @ v" and lu: "length u < length (d @ a @ Q @ replacement)"
  have "(\<exists>x. v = replacement @ x) \<or> (\<exists>t. u = (d @ a @ Q) @ replacement @ t \<and> c = t @ Q @ v)"
  proof (rule mask_step [OF Q Q _ _ eq, of "d @ a"])
    show "d @ a @ Q = (d @ a) @ Q" by simp
    fix t assume t: "d @ a @ Q = u @ Q @ t"
    then have su: "s = u @ Q @ t @ b @ c" using s by simp
    show "t = [] \<or> (\<exists>x. t @ b @ c = replacement @ x)"
    proof (cases "length u < length d")
      case True
      with m su show ?thesis unfolding masked_upto_def by blast
    next
      case False
      with append_split [OF t] obtain w where "u = d @ w" "a @ Q = w @ Q @ t" by auto
      then have "length a \<le> length w" using first by (metis append.assoc)
      with \<open>a @ Q = w @ Q @ t\<close> show ?thesis by (metis add_le_cancel_right append_self_conv length_append le_add1 le_antisym length_0_conv add.assoc add_cancel_left_right add_left_cancel)
    qed
  qed
  with lu show "\<exists>x. v = replacement @ x" by auto
qed

section \<open>The loops mask everything\<close>

lemma masked_upto_end: "masked_upto P n s \<Longrightarrow> length s \<le> n \<Longrightarrow> P \<noteq> [] \<Longrightarrow> masked P s"
proof -
  assume m: "masked_upto P n s" and n: "length s \<le> n" "P \<noteq> []"
  have "length u < n" if "s = u @ P @ v" for u v using n that by (cases P) auto
  with m show ?thesis unfolding masked_upto_def by blast
qed

text \<open>What one round of a scan finds.\<close>

lemma scan_round:
  assumes "strings_Index (drop n s) Q = Some i" and "n \<le> length s" and "i + n + length Q \<le> e"
  shows "\<exists>d a b c. s = d @ a @ Q @ b @ c \<and> length d = n \<and> length a = i \<and> c = drop e s \<and>
    take (i + n + length Q) s = d @ a @ Q \<and> (\<forall>u v. a @ Q @ b @ c = u @ Q @ v \<longrightarrow> length a \<le> length u)"
proof -
  obtain a r where ar: "drop n s = a @ Q @ r" "length a = i" and first: "\<forall>u v. drop n s = u @ Q @ v \<longrightarrow> i \<le> length u"
    using strings_Index_Some [OF assms(1)] by blast
  let ?d = "take n s" and ?k = "e - (i + n + length Q)"
  have s: "s = ?d @ a @ Q @ r" by (metis append_take_drop_id ar(1))
  have len: "length ?d = n" using assms(2) by simp
  define h where "h = ?d @ a @ Q"
  have h: "s = h @ r" "length h = i + n + length Q" using s len ar(2) by (simp_all add: h_def)
  have "drop e s = drop ?k r" using assms(3) by (simp add: h)
  moreover have "take (i + n + length Q) s = ?d @ a @ Q" unfolding h_def [symmetric] using h by simp
  ultimately show ?thesis
    using s len ar first by (intro exI [of _ ?d] exI [of _ a] exI [of _ "take ?k r"] exI [of _ "drop ?k r"]) auto
qed

lemma kv_loop_Some:
  "strings_Index (drop n s) (kv_prefix key) = Some i \<Longrightarrow> redactKeyValue_loop key s n =
    redactKeyValue_loop key (take (i + n + length (kv_prefix key)) s @ replacement @ drop (kv_end s (i + n + length (kv_prefix key))) s)
      (i + n + length (kv_prefix key) + length replacement)"
  by (subst redactKeyValue_loop.simps) (simp add: Let_def)

lemma kv_loop_masks:
  assumes "marker (kv_prefix key)" and "n \<le> length s" and "masked_upto (kv_prefix key) n s"
  shows "masked (kv_prefix key) (redactKeyValue_loop key s n)"
  using assms
proof (induction key s n rule: redactKeyValue_loop.induct)
  case (1 key s n)
  let ?Q = "kv_prefix key"
  show ?case
  proof (cases "strings_Index (drop n s) ?Q")
    case None
    have "length u < n" if "s = u @ ?Q @ v" for u v
      using strings_Index_None [OF None, of "drop n u" v] that by (cases "length u < n") auto
    with 1(4) have "masked ?Q s" unfolding masked_upto_def by blast
    moreover have "redactKeyValue_loop key s n = s" using None by (subst redactKeyValue_loop.simps) simp
    ultimately show ?thesis by simp
  next
    case (Some i)
    let ?vs = "i + n + length ?Q"
    obtain d a b c where f: "s = d @ a @ ?Q @ b @ c" "length d = n" "c = drop (kv_end s ?vs) s" "take ?vs s = d @ a @ ?Q" "length a = i"
      "\<forall>u v. a @ ?Q @ b @ c = u @ ?Q @ v \<longrightarrow> length a \<le> length u"
      using scan_round [OF Some 1(3) kv_end_ge [of ?vs s]] by blast
    let ?s = "take ?vs s @ replacement @ drop (kv_end s ?vs) s"
    have s': "?s = (d @ a @ ?Q) @ replacement @ c" using f(3,4) by simp
    have n': "length (d @ a @ ?Q @ replacement) = ?vs + length replacement" using f(2,5) by simp
    have "masked_upto ?Q (?vs + length replacement) ?s"
      using mask_extends [OF 1(2) f(1) _ f(6)] 1(4) f(2) unfolding s' n' by blast
    moreover have "?vs + length replacement \<le> length ?s" unfolding s' using f(2,5) by simp
    ultimately have "masked ?Q (redactKeyValue_loop key ?s (?vs + length replacement))"
      by (intro 1(1) [OF Some refl refl refl] 1(2))
    then show ?thesis unfolding kv_loop_Some [OF Some, symmetric] .
  qed
qed

lemma kv_loop_keeps:
  assumes "marker P" and "marker (kv_prefix key)" and "n \<le> length s" and "masked P s"
  shows "masked P (redactKeyValue_loop key s n)"
  using assms
proof (induction key s n rule: redactKeyValue_loop.induct)
  case (1 key s n)
  let ?Q = "kv_prefix key"
  show ?case
  proof (cases "strings_Index (drop n s) ?Q")
    case None
    then have "redactKeyValue_loop key s n = s" by (subst redactKeyValue_loop.simps) simp
    with 1(5) show ?thesis by simp
  next
    case (Some i)
    let ?vs = "i + n + length ?Q"
    obtain d a b c where f: "s = d @ a @ ?Q @ b @ c" "length d = n" "c = drop (kv_end s ?vs) s" "take ?vs s = d @ a @ ?Q" "length a = i"
      using scan_round [OF Some 1(4) kv_end_ge [of ?vs s]] by blast
    let ?s = "take ?vs s @ replacement @ drop (kv_end s ?vs) s"
    have s': "?s = ((d @ a) @ ?Q) @ replacement @ c" using f(3,4) by simp
    have "masked P ?s" unfolding s' by (rule mask_keeps [OF 1(2,3) _ 1(5)]) (use f(1) in simp)
    moreover have "?vs + length replacement \<le> length ?s" unfolding s' using f(2,5) by simp
    ultimately have "masked P (redactKeyValue_loop key ?s (?vs + length replacement))"
      by (intro 1(1) [OF Some refl refl refl] 1(2,3))
    then show ?thesis unfolding kv_loop_Some [OF Some, symmetric] .
  qed
qed

lemma json_loop_Some:
  assumes "strings_Index (drop n s) (json_prefix key sp) = Some i" and "vs = i + n + length (json_prefix key sp)"
  shows "redactJSON_loop key sp s n = (if length s \<le> json_end s vs then take vs s @ replacement
    else redactJSON_loop key sp (take vs s @ replacement @ drop (json_end s vs) s) (vs + length replacement))"
  by (subst redactJSON_loop.simps) (simp add: assms Let_def)

lemma json_loop_masks:
  assumes "marker (json_prefix key sp)" and "n \<le> length s" and "masked_upto (json_prefix key sp) n s"
  shows "masked (json_prefix key sp) (redactJSON_loop key sp s n)"
  using assms
proof (induction key sp s n rule: redactJSON_loop.induct)
  case (1 key sp s n)
  let ?Q = "json_prefix key sp"
  show ?case
  proof (cases "strings_Index (drop n s) ?Q")
    case None
    have "length u < n" if "s = u @ ?Q @ v" for u v
      using strings_Index_None [OF None, of "drop n u" v] that by (cases "length u < n") auto
    with 1(4) have "masked ?Q s" unfolding masked_upto_def by blast
    moreover have "redactJSON_loop key sp s n = s" using None by (subst redactJSON_loop.simps) simp
    ultimately show ?thesis by simp
  next
    case (Some i)
    let ?vs = "i + n + length ?Q"
    obtain d a b c where f: "s = d @ a @ ?Q @ b @ c" "length d = n" "c = drop (json_end s ?vs) s" "take ?vs s = d @ a @ ?Q" "length a = i"
      "\<forall>u v. a @ ?Q @ b @ c = u @ ?Q @ v \<longrightarrow> length a \<le> length u"
      using scan_round [OF Some 1(3) json_end_ge [of ?vs s]] by blast
    let ?s = "take ?vs s @ replacement @ drop (json_end s ?vs) s"
    have s': "?s = (d @ a @ ?Q) @ replacement @ c" using f(3,4) by simp
    have n': "length (d @ a @ ?Q @ replacement) = ?vs + length replacement" using f(2,5) by simp
    have m: "masked_upto ?Q (?vs + length replacement) ?s"
      using mask_extends [OF 1(2) f(1) _ f(6)] 1(4) f(2) unfolding s' n' by blast
    show ?thesis
    proof (cases "length s \<le> json_end s ?vs")
      case True
      then have c: "c = []" using f(3) by simp
      have "masked ?Q ?s" by (rule masked_upto_end [OF m]) (use s' f(2,5) c 1(2) in \<open>simp_all add: marker_def\<close>)
      then show ?thesis unfolding json_loop_Some [OF Some refl] using True c f(3) by simp
    next
      case False
      have "?vs + length replacement \<le> length ?s" unfolding s' using f(2,5) by simp
      with m have "masked ?Q (redactJSON_loop key sp ?s (?vs + length replacement))"
        by (intro 1(1) [OF Some refl refl refl] 1(2)) (use False in simp_all)
      then show ?thesis unfolding json_loop_Some [OF Some refl] if_not_P [OF False] .
    qed
  qed
qed

lemma json_loop_keeps:
  assumes "marker P" and "marker (json_prefix key sp)" and "n \<le> length s" and "masked P s"
  shows "masked P (redactJSON_loop key sp s n)"
  using assms
proof (induction key sp s n rule: redactJSON_loop.induct)
  case (1 key sp s n)
  let ?Q = "json_prefix key sp"
  show ?case
  proof (cases "strings_Index (drop n s) ?Q")
    case None
    then have "redactJSON_loop key sp s n = s" by (subst redactJSON_loop.simps) simp
    with 1(5) show ?thesis by simp
  next
    case (Some i)
    let ?vs = "i + n + length ?Q"
    obtain d a b c where f: "s = d @ a @ ?Q @ b @ c" "length d = n" "c = drop (json_end s ?vs) s" "take ?vs s = d @ a @ ?Q" "length a = i"
      using scan_round [OF Some 1(4) json_end_ge [of ?vs s]] by blast
    let ?s = "take ?vs s @ replacement @ drop (json_end s ?vs) s"
    have s': "?s = ((d @ a) @ ?Q) @ replacement @ c" using f(3,4) by simp
    have m: "masked P ?s" unfolding s' by (rule mask_keeps [OF 1(2,3) _ 1(5)]) (use f(1) in simp)
    show ?thesis
    proof (cases "length s \<le> json_end s ?vs")
      case True
      then have "?s = take ?vs s @ replacement" by simp
      with m show ?thesis unfolding json_loop_Some [OF Some refl] if_P [OF True] by metis
    next
      case False
      have "?vs + length replacement \<le> length ?s" unfolding s' using f(2,5) by simp
      with m have "masked P (redactJSON_loop key sp ?s (?vs + length replacement))"
        by (intro 1(1) [OF Some refl refl refl] 1(2,3)) (use False in simp_all)
      then show ?thesis unfolding json_loop_Some [OF Some refl] if_not_P [OF False] .
    qed
  qed
qed

lemma redactKeyValue_keeps: "marker P \<Longrightarrow> key \<in> set sensitiveFields \<Longrightarrow> masked P s \<Longrightarrow> masked P (redactKeyValue s key)"
  unfolding redactKeyValue_def by (rule kv_loop_keeps) (simp_all add: kv_marker)

lemma redactJSONField_keeps: "marker P \<Longrightarrow> key \<in> set sensitiveFields \<Longrightarrow> masked P s \<Longrightarrow> masked P (redactJSONField s key)"
  unfolding redactJSONField_def by (intro json_loop_keeps json_marker) simp_all

lemma field_masked:
  assumes key: "key \<in> set sensitiveFields" and s': "s' = redactJSONField (redactKeyValue s key) key"
  shows "masked (kv_prefix key) s' \<and> masked (json_prefix key False) s' \<and> masked (json_prefix key True) s'"
proof -
  have "masked (kv_prefix key) (redactKeyValue s key)"
    unfolding redactKeyValue_def by (rule kv_loop_masks [OF kv_marker [OF key]]) (simp_all add: masked_upto_def)
  then have a: "masked (kv_prefix key) s'" unfolding s' by (rule redactJSONField_keeps [OF kv_marker [OF key] key])
  let ?t = "redactJSON_loop key False (redactKeyValue s key) 0"
  have "masked (json_prefix key False) ?t" by (rule json_loop_masks [OF json_marker [OF key]]) (simp_all add: masked_upto_def)
  then have b: "masked (json_prefix key False) s'"
    unfolding s' redactJSONField_def using json_loop_keeps [OF json_marker [OF key] json_marker [OF key] le0] by blast
  have c: "masked (json_prefix key True) s'"
    unfolding s' redactJSONField_def by (rule json_loop_masks [OF json_marker [OF key]]) (simp_all add: masked_upto_def)
  from a b c show ?thesis by blast
qed

lemma fields_masked:
  assumes "set ks \<subseteq> set sensitiveFields"
  shows "(\<forall>P. marker P \<longrightarrow> masked P s \<longrightarrow> masked P (foldl (\<lambda>s k. redactJSONField (redactKeyValue s k) k) s ks)) \<and>
    (\<forall>k \<in> set ks. \<forall>P \<in> {kv_prefix k, json_prefix k False, json_prefix k True}.
       masked P (foldl (\<lambda>s k. redactJSONField (redactKeyValue s k) k) s ks))"
  using assms
proof (induction ks rule: rev_induct)
  case Nil
  then show ?case by simp
next
  case (snoc k ks)
  define t where "t = foldl (\<lambda>s k. redactJSONField (redactKeyValue s k) k) s ks"
  have k: "k \<in> set sensitiveFields" using snoc.prems by simp
  have keeps: "masked P (redactJSONField (redactKeyValue t k) k)" if "marker P" "masked P t" for P
    using that by (intro redactJSONField_keeps redactKeyValue_keeps k)
  note ih = snoc.IH [folded t_def]
  have old: "masked P (redactJSONField (redactKeyValue t k) k)"
    if "j \<in> set ks" "P \<in> {kv_prefix j, json_prefix j False, json_prefix j True}" for j P
  proof (rule keeps)
    show "marker P" using that snoc.prems kv_marker [of j] json_marker [of j] by auto
    show "masked P t" using ih snoc.prems that by auto
  qed
  have new: "masked P (redactJSONField (redactKeyValue t k) k)" if "P \<in> {kv_prefix k, json_prefix k False, json_prefix k True}" for P
    using field_masked [OF k refl, of t] that by blast
  have all: "masked P (redactJSONField (redactKeyValue t k) k)" if "marker P" "masked P s" for P
    using keeps [OF that(1)] ih snoc.prems that by simp
  show ?case unfolding foldl_append foldl.simps t_def [symmetric] using old new all by (simp only: set_append) auto
qed

section \<open>What the redaction should do\<close>

text \<open>The three ways a field is written. \<open>after_value\<close> is what is left of a text that starts with a value:
  a plain value ends before a blank, a comma, a quote or \<open>&\<close>, a quoted one before its closing quote,
  where a backslash protects the next character.\<close>

datatype form = Key_Value | Quoted bool

fun form_prefix :: "form \<Rightarrow> string \<Rightarrow> string" where
  "form_prefix Key_Value key = key @ ''=''"
| "form_prefix (Quoted spaced) key = [CHR 0x22] @ key @ [CHR 0x22, CHR '':''] @ (if spaced then [CHR '' ''] else []) @ [CHR 0x22]"

fun after_quoted :: "string \<Rightarrow> string" where
  "after_quoted [] = []"
| "after_quoted [c] = (if c = CHR 0x22 then [c] else [])"
| "after_quoted (c # d # cs) = (if c = CHR 0x22 then c # d # cs
     else if c = CHR 0x5C then after_quoted cs else after_quoted (d # cs))"

fun after_value :: "form \<Rightarrow> string \<Rightarrow> string" where
  "after_value Key_Value s = dropWhile (\<lambda>c. \<not> kv_stop c) s"
| "after_value (Quoted spaced) s = after_quoted s"

lemma after_quoted_shorter: "length (after_quoted s) \<le> length s"
  by (induction s rule: after_quoted.induct) auto

lemma after_value_shorter: "length (after_value f s) \<le> length s"
  using after_quoted_shorter by (cases f) (simp_all add: length_dropWhile_le)

text \<open>The reference: copy the line; behind the name of the field write the mask and leave the value out.\<close>

function mask_values :: "form \<Rightarrow> string \<Rightarrow> string \<Rightarrow> string" where
  "mask_values f key [] = []"
| "mask_values f key (c # cs) =
    (if take (length (form_prefix f key)) (c # cs) = form_prefix f key
     then form_prefix f key @ ''<redacted>'' @ mask_values f key (after_value f (drop (length (form_prefix f key)) (c # cs)))
     else c # mask_values f key cs)"
  by pat_completeness auto
termination
proof (relation "measure (\<lambda>(f, key, s). length s)")
  fix f key c cs
  assume "take (length (form_prefix f key)) (c # cs) = form_prefix f key"
  have "form_prefix f key \<noteq> []" by (cases f) simp_all
  then have "0 < length (form_prefix f key)" by simp
  then have "length (drop (length (form_prefix f key)) (c # cs)) < length (c # cs)" by simp
  then show "((f, key, after_value f (drop (length (form_prefix f key)) (c # cs))), (f, key, c # cs)) \<in> measure (\<lambda>(f, key, s). length s)"
    using after_value_shorter [of f "drop (length (form_prefix f key)) (c # cs)"] by simp
qed simp_all

lemma mask_values_step:
  "mask_values f key s = (case strings_Index s (form_prefix f key) of None \<Rightarrow> s
   | Some i \<Rightarrow> take (i + length (form_prefix f key)) s @ replacement @
       mask_values f key (after_value f (drop (i + length (form_prefix f key)) s)))"
proof (induction s)
  case Nil
  have "form_prefix f key \<noteq> []" by (cases f) simp_all
  then show ?case by simp
next
  case (Cons c cs)
  show ?case
  proof (cases "take (length (form_prefix f key)) (c # cs) = form_prefix f key")
    case True
    then show ?thesis by (simp del: take_Cons drop_Cons)
  next
    case False
    with Cons.IH show ?thesis by (auto split: option.splits)
  qed
qed

lemma kv_end_rest: "e \<le> length s \<Longrightarrow> drop (kv_end s e) s = dropWhile (\<lambda>c. \<not> kv_stop c) (drop e s) \<and> kv_end s e \<le> length s"
proof (induction s e rule: kv_end.induct)
  case (1 s e)
  show ?case
  proof (cases "e < length s \<and> \<not> kv_stop (s ! e)")
    case True
    with 1(1) [OF True] show ?thesis by (subst (1 2) kv_end.simps) (simp add: Cons_nth_drop_Suc [symmetric])
  next
    case False
    then have "e = length s \<or> e < length s \<and> kv_stop (s ! e)" using 1(2) by auto
    with False show ?thesis by (subst (1 2) kv_end.simps) (auto simp: Cons_nth_drop_Suc [symmetric])
  qed
qed

lemma after_quoted_quote: "after_quoted (CHR 0x22 # cs) = CHR 0x22 # cs"
  by (cases cs) simp_all

lemma after_quoted_other: "c \<noteq> CHR 0x22 \<Longrightarrow> c \<noteq> CHR 0x5C \<or> cs = [] \<Longrightarrow> after_quoted (c # cs) = after_quoted cs"
  by (cases cs) auto

lemma json_end_rest: "e \<le> length s \<Longrightarrow> drop (json_end s e) s = after_quoted (drop e s) \<and> json_end s e \<le> length s"
proof (induction s e rule: json_end.induct)
  case (1 s e)
  consider (stop) "e = length s \<or> e < length s \<and> s ! e = CHR 0x22"
    | (escape) "e + 1 < length s" "s ! e = CHR 0x5C"
    | (plain) "e < length s" "s ! e \<noteq> CHR 0x22" "s ! e \<noteq> CHR 0x5C \<or> \<not> e + 1 < length s"
    using 1(3) by force
  then show ?case
  proof cases
    case stop
    then show ?thesis by (subst (1 2) json_end.simps) (auto simp: Cons_nth_drop_Suc [symmetric] after_quoted_quote)
  next
    case escape
    with 1(1) have "drop (json_end s (e + 2)) s = after_quoted (drop (e + 2) s) \<and> json_end s (e + 2) \<le> length s" by simp
    moreover have "drop e s = s ! e # s ! (e + 1) # drop (e + 2) s"
      using escape(1) Cons_nth_drop_Suc [of e s] Cons_nth_drop_Suc [of "e + 1" s] by simp
    ultimately show ?thesis using escape by (subst (1 2) json_end.simps) simp
  next
    case plain
    with 1(2) have "drop (json_end s (e + 1)) s = after_quoted (drop (e + 1) s) \<and> json_end s (e + 1) \<le> length s" by auto
    moreover have "drop e s = s ! e # drop (e + 1) s" using plain by (simp add: Cons_nth_drop_Suc)
    moreover have "after_quoted (s ! e # drop (e + 1) s) = after_quoted (drop (e + 1) s)"
      using plain by (intro after_quoted_other) auto
    ultimately show ?thesis using plain by (subst (1 2) json_end.simps) auto
  qed
qed

text \<open>Each loop, started anywhere, does what the reference does with the rest of the line.\<close>

lemma kv_loop_values:
  "n \<le> length s \<Longrightarrow> redactKeyValue_loop key s n = take n s @ mask_values Key_Value key (drop n s)"
proof (induction key s n rule: redactKeyValue_loop.induct)
  case (1 key s n)
  show ?case
  proof (cases "strings_Index (drop n s) (kv_prefix key)")
    case None
    then show ?thesis by (subst redactKeyValue_loop.simps, subst mask_values_step) (simp add: kv_prefix_def)
  next
    case (Some i)
    let ?vs = "i + n + length (kv_prefix key)"
    let ?s = "take ?vs s @ replacement @ drop (kv_end s ?vs) s"
    obtain a b where ab: "drop n s = a @ kv_prefix key @ b" "length a = i" using strings_Index_Some [OF Some] by blast
    then have vs: "?vs \<le> length s" using 1(2) by (metis add.assoc add.commute append_assoc le_add1 le_diff_conv2 length_append length_drop)
    have len: "length (take ?vs s @ replacement) = ?vs + length replacement" using vs by simp
    have loop: "redactKeyValue_loop key s n = redactKeyValue_loop key ?s (?vs + length replacement)"
      using Some by (subst redactKeyValue_loop.simps) (simp add: Let_def)
    also have "\<dots> = take (?vs + length replacement) ?s @ mask_values Key_Value key (drop (?vs + length replacement) ?s)"
      by (rule 1(1) [OF Some refl refl refl]) (use len in simp)
    also have "\<dots> = (take ?vs s @ replacement) @ mask_values Key_Value key (drop (kv_end s ?vs) s)"
      using len by (simp add: append_assoc [symmetric] del: append_assoc)
    also have "\<dots> = take n s @ mask_values Key_Value key (drop n s)"
      using Some kv_end_rest [OF vs]
      by (subst (2) mask_values_step) (simp add: kv_prefix_def take_add [symmetric] add.commute add.left_commute)
    finally show ?thesis .
  qed
qed

lemma json_loop_values:
  "n \<le> length s \<Longrightarrow> redactJSON_loop key sp s n = take n s @ mask_values (Quoted sp) key (drop n s)"
proof (induction key sp s n rule: redactJSON_loop.induct)
  case (1 key sp s n)
  have P: "json_prefix key sp = form_prefix (Quoted sp) key" by (simp add: json_prefix_def)
  show ?case
  proof (cases "strings_Index (drop n s) (json_prefix key sp)")
    case None
    then show ?thesis by (subst redactJSON_loop.simps, subst mask_values_step) (simp add: P)
  next
    case (Some i)
    let ?vs = "i + n + length (json_prefix key sp)"
    let ?s = "take ?vs s @ replacement @ drop (json_end s ?vs) s"
    obtain a b where ab: "drop n s = a @ json_prefix key sp @ b" "length a = i" using strings_Index_Some [OF Some] by blast
    then have vs: "?vs \<le> length s" using 1(2) by (metis add.assoc add.commute append_assoc le_add1 le_diff_conv2 length_append length_drop)
    have len: "length (take ?vs s @ replacement) = ?vs + length replacement" using vs by simp
    have rest: "(take ?vs s @ replacement) @ mask_values (Quoted sp) key (drop (json_end s ?vs) s) =
        take n s @ mask_values (Quoted sp) key (drop n s)"
      using Some json_end_rest [OF vs] unfolding P
      by (subst (2) mask_values_step) (simp add: take_add [symmetric] add.commute add.left_commute)
    show ?thesis
    proof (cases "length s \<le> json_end s ?vs")
      case True
      then have "redactJSON_loop key sp s n = take ?vs s @ replacement"
        using Some by (subst redactJSON_loop.simps) (simp add: Let_def)
      with rest True show ?thesis by simp
    next
      case False
      then have "redactJSON_loop key sp s n = redactJSON_loop key sp ?s (?vs + length replacement)"
        using Some by (subst redactJSON_loop.simps) (simp add: Let_def)
      also have "\<dots> = take (?vs + length replacement) ?s @ mask_values (Quoted sp) key (drop (?vs + length replacement) ?s)"
        by (rule 1(1) [OF Some refl refl refl]) (use False len in simp_all)
      also have "\<dots> = (take ?vs s @ replacement) @ mask_values (Quoted sp) key (drop (json_end s ?vs) s)"
        using len by (simp add: append_assoc [symmetric] del: append_assoc)
      finally show ?thesis using rest by simp
    qed
  qed
qed

section \<open>Properties\<close>

text \<open>C18: no sensitive value reaches the log. The redaction of a line is the line with the values left out: for
  each sensitive field, and for each of the forms \<open>key=\<close>, \<open>"key":"\<close> and \<open>"key": "\<close> in turn, every
  value, from the end of the field's name to the end of the value, is replaced by the mask, and
  everything else is copied. After all of them, every occurrence of such a name that is left in the
  line, wherever it stands and whatever the line held, is followed by the mask.\<close>

theorem redact_leaves_no_secret:
  "redact s = foldl (\<lambda>s key. mask_values (Quoted True) key (mask_values (Quoted False) key (mask_values Key_Value key s)))
      s sensitiveFields \<and>
   (\<forall>key \<in> set sensitiveFields. \<forall>f u v. redact s = u @ form_prefix f key @ v \<longrightarrow> (\<exists>rest. v = ''<redacted>'' @ rest))"
proof -
  have "(\<lambda>s key. mask_values (Quoted True) key (mask_values (Quoted False) key (mask_values Key_Value key s))) =
      (\<lambda>s key. redactJSONField (redactKeyValue s key) key)"
    by (simp add: fun_eq_iff redactJSONField_def redactKeyValue_def kv_loop_values json_loop_values)
  moreover have "\<exists>rest. v = replacement @ rest"
    if key: "key \<in> set sensitiveFields" and at: "redact s = u @ form_prefix f key @ v" for key f u v
  proof -
    have "form_prefix f key \<in> {kv_prefix key, json_prefix key False, json_prefix key True}"
      by (cases f) (auto simp: kv_prefix_def json_prefix_def)
    then have "masked (form_prefix f key) (redact s)"
      using fields_masked [of sensitiveFields s] key unfolding redact_def by blast
    with at show ?thesis unfolding masked_all by blast
  qed
  ultimately show ?thesis by (auto simp: redact_def)
qed

lemma redact_leaves_no_secret_witness:
  "redact ''POST client_secret=sk_1&a=2'' = ''POST client_secret=<redacted>&a=2'' \<and>
   (\<exists>rest. ''<redacted>&a=2'' = ''<redacted>'' @ rest)"
proof -
  have r: "redact ''POST client_secret=sk_1&a=2'' = ''POST client_secret=<redacted>&a=2''" by code_simp
  then have "redact ''POST client_secret=sk_1&a=2'' = ''POST '' @ form_prefix Key_Value ''client_secret'' @ ''<redacted>&a=2''" by simp
  moreover have "''client_secret'' \<in> set sensitiveFields" by (simp add: sensitiveFields_def)
  ultimately show ?thesis using redact_leaves_no_secret [of "''POST client_secret=sk_1&a=2''"] r by blast
qed

end
