(* ===== verification/Stripe_Gateway.thy ===== *)
theory Stripe_Gateway
  imports Recon Stripe_Redact
begin

text \<open>
  The Stripe adapter (\<open>infrastructure/payment/stripe_gateway.go\<close>): configuration, the two calls, the
  translation of the SDK's errors and statuses. The SDK is a parameter; \<open>stripe_create_documented\<close> and
  \<open>stripe_retrieve_documented\<close> name what its documentation promises, and under it the adapter meets the
  contracts \<open>payment_gateway\<close> and \<open>payment_status_reader\<close> its clients rely on.
\<close>

section \<open>Configuration\<close>

record stripe_config =
  sc_APIKey :: string
  sc_Timeout :: duration
  sc_MaxNetworkRetries :: int
  sc_BaseURL :: string

text \<open>The configuration that \<open>NewStripeGateway\<close> builds the client with; \<open>dflt\<close> is the SDK's
  \<open>DefaultMaxNetworkRetries\<close>.\<close>

definition NewStripeGateway :: "int \<Rightarrow> stripe_config \<Rightarrow> err + stripe_config" where
  "NewStripeGateway dflt cfg =
    (if sc_APIKey cfg = '''' then Inl (Plain ''stripe: APIKey is required (set STRIPE_API_KEY)'')
     else let t1 = (if sc_Timeout cfg \<le> 0 then 30 * second else sc_Timeout cfg);
              t2 = (if t1 > 5 * 60 * second then 5 * 60 * second else t1);
              r1 = (if sc_MaxNetworkRetries cfg < 0 then dflt else sc_MaxNetworkRetries cfg);
              r2 = (if r1 > 10 then 10 else r1)
       in Inr (cfg\<lparr>sc_Timeout := t2, sc_MaxNetworkRetries := r2\<rparr>))"

section \<open>Errors\<close>

text \<open>An SDK call fails with a \<open>stripe.Error\<close>, or with anything else (the transport, the context).\<close>

datatype stripe_error_type =
    ErrorTypeCard | ErrorTypeIdempotency | ErrorTypeInvalidRequest | ErrorTypeTemporarySessionExpired
  | ErrorTypeAPI | ErrorTypeOther string

record stripe_error =
  se_Type :: stripe_error_type
  se_HTTPStatusCode :: int
  se_Code :: string
  se_RequestID :: string

datatype sdk_failure = StripeError stripe_error | TransportError err

definition mapStripeError :: "sdk_failure \<Rightarrow> err" where
  "mapStripeError f = (case f of
     TransportError e \<Rightarrow> Wrap ''stripe: transport'' (Join [e, Sentinel ErrPaymentTransient])
   | StripeError s \<Rightarrow>
      (let serr = Plain (se_Code s) in case se_Type s of
         ErrorTypeCard \<Rightarrow> Wrap ''stripe card error'' (Join [serr, Sentinel ErrPaymentDeclined])
       | ErrorTypeIdempotency \<Rightarrow> Wrap ''stripe idempotency violation'' (Join [serr, Sentinel ErrPaymentInvalid])
       | ErrorTypeInvalidRequest \<Rightarrow> Wrap ''stripe bad request'' (Join [serr, Sentinel ErrPaymentInvalid])
       | ErrorTypeTemporarySessionExpired \<Rightarrow>
           Wrap ''stripe temporary session expired'' (Join [serr, Sentinel ErrPaymentTransient])
       | ErrorTypeAPI \<Rightarrow>
          (if se_HTTPStatusCode s = 0
           then Wrap ''stripe error with no HTTP status'' (Join [serr, Sentinel ErrPaymentTransient])
           else if se_HTTPStatusCode s = 401 \<or> se_HTTPStatusCode s = 403
           then Wrap ''stripe auth/permission error'' (Join [serr, Sentinel ErrPaymentMisconfigured])
           else if se_HTTPStatusCode s = 429
           then Wrap ''stripe rate-limited'' (Join [serr, Sentinel ErrPaymentTransient])
           else Wrap ''stripe api error'' (Join [serr, Sentinel ErrPaymentTransient]))
       | ErrorTypeOther t \<Rightarrow> Wrap ''stripe unclassified error'' (Join [serr, Sentinel ErrPaymentTransient])))"

definition classifyOutcome :: "err option \<Rightarrow> string" where
  "classifyOutcome e' = (case e' of
     None \<Rightarrow> ''success''
   | Some e \<Rightarrow>
      if errors_Is e ErrPaymentDeclined then ''declined''
      else if errors_Is e ErrPaymentMisconfigured then ''misconfigured''
      else if errors_Is e ErrPaymentInvalid then ''invalid''
      else if errors_Is e ErrPaymentTransient then ''transient''
      else ''transient'')"

section \<open>The calls\<close>

datatype stripe_status =
    PIRequiresPaymentMethod | PIRequiresConfirmation | PIRequiresAction | PIProcessing | PIRequiresCapture
  | PICanceled | PISucceeded | PIUnknownStatus string

record stripe_intent =
  si_ID :: string
  si_ClientSecret :: string
  si_Amount :: int
  si_Currency :: string
  si_Metadata :: metadata
  si_Status :: stripe_status

definition mapStripeStatusToCharge :: "stripe_status \<Rightarrow> charge_status" where
  "mapStripeStatusToCharge s = (case s of
     PISucceeded \<Rightarrow> ChargeStatusCharged
   | PICanceled \<Rightarrow> ChargeStatusDeclined
   | PIRequiresPaymentMethod \<Rightarrow> ChargeStatusNotFound
   | PIRequiresConfirmation \<Rightarrow> ChargeStatusNotFound
   | PIRequiresAction \<Rightarrow> ChargeStatusUnknown
   | PIProcessing \<Rightarrow> ChargeStatusUnknown
   | PIRequiresCapture \<Rightarrow> ChargeStatusUnknown
   | PIUnknownStatus t \<Rightarrow> ChargeStatusUnknown)"

text \<open>\<open>V1PaymentIntents.Create\<close> with its idempotency key, and \<open>Retrieve\<close> under a context with a timeout.\<close>

type_synonym 'g sdk_create =
  "string \<Rightarrow> int \<Rightarrow> string \<Rightarrow> metadata \<Rightarrow> 'g \<times> world \<Rightarrow> (sdk_failure + stripe_intent) \<times> 'g \<times> world"

type_synonym sdk_retrieve = "duration \<Rightarrow> string \<Rightarrow> world \<Rightarrow> (sdk_failure + stripe_intent) \<times> world"

definition StripeGateway_CreatePaymentIntent :: "ext \<Rightarrow> 'g sdk_create \<Rightarrow> 'g gateway" where
  "StripeGateway_CreatePaymentIntent X create i amount cur md s =
    (case create (uuid_String X i) amount (strings_ToLower X cur) md s of
       (Inl f, g, w) \<Rightarrow>
         (let e = mapStripeError f in (Inl e, g, metric (''stripe_create_payment_intent_'' @ classifyOutcome (Some e)) w))
     | (Inr p, g, w) \<Rightarrow>
         (Inr \<lparr>pi_ID = si_ID p, pi_ClientSecret = si_ClientSecret p, pi_AmountCents = si_Amount p,
               pi_Currency = si_Currency p, pi_Metadata = si_Metadata p\<rparr>, g,
          metric ''stripe_create_payment_intent_success'' w))"

definition StripeGateway_GetStatus :: "sdk_retrieve \<Rightarrow> status_reader" where
  "StripeGateway_GetStatus retrieve timeout intent w =
    (if intent = '''' then
       (Inl (Wrap ''stripe: empty payment intent ID'' (Sentinel ErrPaymentInvalid)), metric ''stripe_get_status_invalid'' w)
     else case retrieve timeout intent w of
       (Inl f, w1) \<Rightarrow>
         (let e = mapStripeError f in (Inl e, metric (''stripe_get_status_'' @ classifyOutcome (Some e)) w1))
     | (Inr p, w1) \<Rightarrow> (Inr (mapStripeStatusToCharge (si_Status p)), metric ''stripe_get_status_success'' w1))"

section \<open>What holds of them\<close>

text \<open>Whatever the configuration, the client waits and retries within bounds.\<close>

lemma NewStripeGateway_bounds:
  assumes "NewStripeGateway dflt cfg = Inr c" and "0 \<le> dflt"
  shows "0 < sc_Timeout c \<and> sc_Timeout c \<le> 300 * second \<and> 0 \<le> sc_MaxNetworkRetries c \<and> sc_MaxNetworkRetries c \<le> 10 \<and>
    sc_APIKey c = sc_APIKey cfg \<and> sc_APIKey c \<noteq> ''''"
  using assms by (auto simp: NewStripeGateway_def Let_def split: if_splits)

text \<open>An error of the API carries exactly one of the four sentinels, and the metric names it.\<close>

definition payment_sentinel :: "string \<Rightarrow> sentinel" where
  "payment_sentinel outcome = (if outcome = ''declined'' then ErrPaymentDeclined
     else if outcome = ''misconfigured'' then ErrPaymentMisconfigured
     else if outcome = ''invalid'' then ErrPaymentInvalid else ErrPaymentTransient)"

lemma stripe_error_classified:
  assumes "e = mapStripeError (StripeError s)"
  shows "(\<forall>t \<in> {ErrPaymentDeclined, ErrPaymentMisconfigured, ErrPaymentInvalid, ErrPaymentTransient}.
    errors_Is e t \<longleftrightarrow> t = payment_sentinel (classifyOutcome (Some e)))"
  by (cases "se_Type s")
    (simp_all add: assms mapStripeError_def classifyOutcome_def payment_sentinel_def Let_def)

text \<open>The documented behaviour of the SDK: a call changes nothing of this system; the idempotency key makes
  repeated creations return one intent, which has the requested amount and currency.\<close>

definition stripe_create_documented :: "('g \<Rightarrow> string \<Rightarrow> string option) \<Rightarrow> 'g sdk_create \<Rightarrow> bool" where
  "stripe_create_documented issued create \<longleftrightarrow> (\<forall>key a c md g w r g' w'. create key a c md (g, w) = (r, g', w') \<longrightarrow>
     w_pg w' = (w_pg w)\<lparr>pg_now := pg_now (w_pg w')\<rparr> \<and> w_failed w' = w_failed w \<and>
     (\<forall>k s. issued g k = Some s \<longrightarrow> issued g' k = Some s) \<and>
     (\<forall>p. r = Inr p \<longrightarrow> issued g' key = Some (si_ID p) \<and> si_Amount p = a \<and> si_Currency p = c))"

text \<open>A retrieved intent is in its final status or still on its way.\<close>

definition stripe_retrieve_documented :: "(string \<Rightarrow> stripe_status) \<Rightarrow> sdk_retrieve \<Rightarrow> bool" where
  "stripe_retrieve_documented final retrieve \<longleftrightarrow> (\<forall>d s w r w'. retrieve d s w = (r, w') \<longrightarrow>
     w_pg w' = (w_pg w)\<lparr>pg_now := pg_now (w_pg w')\<rparr> \<and> w_rd w' = (w_rd w)\<lparr>rd_now := rd_now (w_rd w')\<rparr> \<and>
     w_failed w' = w_failed w \<and>
     (\<forall>p. r = Inr p \<longrightarrow> si_Status p = final s \<or> si_Status p \<in> {PIRequiresAction, PIProcessing, PIRequiresCapture}))"

lemma stripe_is_payment_gateway:
  assumes doc: "stripe_create_documented issued create"
  shows "payment_gateway (strings_ToLower X) (StripeGateway_CreatePaymentIntent X create) (\<lambda>g i. issued g (uuid_String X i))"
proof
  fix i a c md g w r g' w' j s
  assume run: "StripeGateway_CreatePaymentIntent X create i a c md (g, w) = (r, g', w')"
  obtain x g1 w1 where call: "create (uuid_String X i) a (strings_ToLower X c) md (g, w) = (x, g1, w1)" by (metis surj_pair)
  note d = doc [unfolded stripe_create_documented_def, rule_format, OF call]
  have g: "g' = g1" "w_pg w' = w_pg w1" "w_failed w' = w_failed w1"
    using run call by (auto simp: StripeGateway_CreatePaymentIntent_def Let_def split: sum.splits)
  then show "w_pg w' = (w_pg w)\<lparr>pg_now := pg_now (w_pg w')\<rparr> \<and> w_failed w' = w_failed w" using d by simp
  show "issued g' (uuid_String X j) = Some s" if "issued g (uuid_String X j) = Some s" using d g that by simp
next
  fix i a c md g w intent g' w'
  assume run: "StripeGateway_CreatePaymentIntent X create i a c md (g, w) = (Inr intent, g', w')"
  obtain x g1 w1 where call: "create (uuid_String X i) a (strings_ToLower X c) md (g, w) = (x, g1, w1)" by (metis surj_pair)
  show "issued g' (uuid_String X i) = Some (pi_ID intent) \<and> pi_AmountCents intent = a \<and> pi_Currency intent = strings_ToLower X c"
    using run call doc [unfolded stripe_create_documented_def, rule_format, OF call]
    by (auto simp: StripeGateway_CreatePaymentIntent_def Let_def split: sum.splits)
qed

lemma stripe_is_status_reader:
  assumes doc: "stripe_retrieve_documented final retrieve"
  shows "payment_status_reader (StripeGateway_GetStatus retrieve) (\<lambda>s. mapStripeStatusToCharge (final s))"
proof
  fix d s w r w' st
  assume run: "StripeGateway_GetStatus retrieve d s w = (r, w')"
  obtain x w1 where call: "retrieve d s w = (x, w1)" by (metis surj_pair)
  note dc = doc [unfolded stripe_retrieve_documented_def, rule_format, OF call]
  show "w_pg w' = (w_pg w)\<lparr>pg_now := pg_now (w_pg w')\<rparr> \<and> w_rd w' = (w_rd w)\<lparr>rd_now := rd_now (w_rd w')\<rparr> \<and> w_failed w' = w_failed w"
    using run call dc by (auto simp: StripeGateway_GetStatus_def Let_def split: if_splits sum.splits)
next
  fix d s w st w'
  assume run: "StripeGateway_GetStatus retrieve d s w = (Inr st, w')"
  obtain x w1 where call: "retrieve d s w = (x, w1)" by (metis surj_pair)
  show "st = mapStripeStatusToCharge (final s) \<or> st = ChargeStatusUnknown"
    using run call doc [unfolded stripe_retrieve_documented_def, rule_format, OF call] by (auto simp: StripeGateway_GetStatus_def Let_def mapStripeStatusToCharge_def split: if_splits sum.splits)
qed

section \<open>The adapter implements the ports\<close>


text \<open>An SDK with the documented behaviour: it remembers the keys it was given.\<close>

definition demo_create :: "(string \<rightharpoonup> stripe_intent) sdk_create" where
  "demo_create key a c md s = (case s of (g, w) \<Rightarrow> (case g key of
     Some p \<Rightarrow> (if si_Amount p = a \<and> si_Currency p = c then (Inr p, g, w)
        else (Inl (StripeError \<lparr>se_Type = ErrorTypeIdempotency, se_HTTPStatusCode = 400, se_Code = '''', se_RequestID = ''req_1''\<rparr>), g, w))
   | None \<Rightarrow>
      (let p = \<lparr>si_ID = ''pi_'' @ key, si_ClientSecret = ''cs'', si_Amount = a, si_Currency = c, si_Metadata = md,
                si_Status = PIRequiresPaymentMethod\<rparr>
       in (Inr p, g(key \<mapsto> p), w))))"

definition demo_retrieve :: sdk_retrieve where
  "demo_retrieve timeout s w = (Inr \<lparr>si_ID = s, si_ClientSecret = ''cs'', si_Amount = 500, si_Currency = ''usd'', si_Metadata = None,
     si_Status = PISucceeded\<rparr>, w)"

lemma demo_sdk_documented:
  "stripe_create_documented (\<lambda>g key. map_option si_ID (g key)) demo_create"
  "stripe_retrieve_documented (\<lambda>_. PISucceeded) demo_retrieve"
  by (auto simp: stripe_create_documented_def stripe_retrieve_documented_def demo_create_def demo_retrieve_def Let_def
      split: option.splits if_splits)


end
