(* ===== verification/Drift.thy ===== *)
theory Drift
  imports Worker
begin

text \<open>
  The inventory drift detector (\<open>application/recon/inventory_drift.go\<close>, \<open>inventory_drift_config.go\<close>): a
  sweep that compares the Redis counters with the ticket types in the database, reports what
  differs and, when configured, refreshes lost metadata.
\<close>

record drift_config =
  dc_SweepInterval :: duration
  dc_AbsoluteTolerance :: int
  dc_AutoRehydrate :: bool
  dc_MaxConsecutiveFailures :: int

definition drift_Validate :: "drift_config \<Rightarrow> err + unit" where
  "drift_Validate c =
    (if dc_SweepInterval c \<le> 0 then Inl (Wrap ''SweepInterval must be > 0'' (Plain ''invalid inventory drift config''))
     else if dc_AbsoluteTolerance c < 0 then Inl (Wrap ''AbsoluteTolerance must be >= 0'' (Plain ''invalid inventory drift config''))
     else if dc_MaxConsecutiveFailures c \<le> 0
     then Inl (Wrap ''MaxConsecutiveFailures must be > 0'' (Plain ''invalid inventory drift config''))
     else Inr ())"

text \<open>The outcomes in the order of the \<open>iota\<close> constants: the worst of several is their maximum.\<close>

datatype check_outcome = CheckClean | CheckDrifted | CheckSkipped

primrec outcome_rank :: "check_outcome \<Rightarrow> nat" where
  "outcome_rank CheckClean = 0"
| "outcome_rank CheckDrifted = 1"
| "outcome_rank CheckSkipped = 2"

lemma outcome_rank_inj: "outcome_rank a = outcome_rank b \<longleftrightarrow> a = b"
  by (cases a; cases b) simp_all

instantiation check_outcome :: linorder
begin

definition less_eq_check_outcome :: "check_outcome \<Rightarrow> check_outcome \<Rightarrow> bool" where
  "a \<le> b \<longleftrightarrow> outcome_rank a \<le> outcome_rank b"

definition less_check_outcome :: "check_outcome \<Rightarrow> check_outcome \<Rightarrow> bool" where
  "a < b \<longleftrightarrow> outcome_rank a < outcome_rank b"

instance
  by standard (auto simp: less_eq_check_outcome_def less_check_outcome_def outcome_rank_inj)

end

section \<open>The sweep\<close>

definition autoRehydrate :: "ext \<Rightarrow> duration \<Rightarrow> ticket_type \<Rightarrow> world \<Rightarrow> world" where
  "autoRehydrate X ttl t w = (case SetTicketTypeMetadata X ttl t w of
     (Inl e, w1) \<Rightarrow> metric ''auto_rehydrate_errors'' w1
   | (Inr _, w1) \<Rightarrow> metric ''auto_rehydrated'' w1)"

definition checkTicketType :: "ext \<Rightarrow> duration \<Rightarrow> drift_config \<Rightarrow> ticket_type \<Rightarrow> world \<Rightarrow> check_outcome \<times> world" where
  "checkTicketType X ttl cfg t w = (case GetInventory (tt_id t) w of
     (Inl e, w1) \<Rightarrow>
       (if errors_Is e ContextCanceled \<or> errors_Is e ContextDeadlineExceeded then (CheckClean, w1)
        else (CheckSkipped, metric ''drift_cache_read_errors'' w1))
   | (Inr (cacheQty, found), w1) \<Rightarrow>
      (let dbQty = tt_availableTickets t; drift = wrap64 (dbQty - cacheQty) in
       if \<not> found \<and> dbQty > 0
       then (CheckDrifted, if dc_AutoRehydrate cfg then autoRehydrate X ttl t (metric ''drift_cache_missing'' w1)
                           else metric ''drift_cache_missing'' w1)
       else if drift < 0 then (CheckDrifted, metric ''drift_cache_high'' w1)
       else if drift > dc_AbsoluteTolerance cfg then (CheckDrifted, metric ''drift_cache_low_excess'' w1)
       else (CheckClean, w1)))"

fun check_types :: "ext \<Rightarrow> duration \<Rightarrow> drift_config \<Rightarrow> ticket_type list \<Rightarrow> check_outcome \<Rightarrow> world \<Rightarrow> check_outcome \<times> world" where
  "check_types X ttl cfg [] worst w = (worst, w)"
| "check_types X ttl cfg (t # ts) worst w = (case checkTicketType X ttl cfg t w of
     (c, w1) \<Rightarrow> check_types X ttl cfg ts (if c > worst then c else worst) w1)"

definition checkOne :: "ext \<Rightarrow> duration \<Rightarrow> drift_config \<Rightarrow> event \<Rightarrow> world \<Rightarrow> check_outcome \<times> world" where
  "checkOne X ttl cfg e w = (case ticketTypeRepo_ListByEventID X (ev_id e) w of
     (Inl _, w1) \<Rightarrow> (CheckSkipped, metric ''drift_cache_read_errors'' w1)
   | (Inr ts, w1) \<Rightarrow> check_types X ttl cfg ts CheckClean w1)"

abbreviation drift_gauge :: "nat \<Rightarrow> string" where
  "drift_gauge n \<equiv> ''drifted_events_'' @ show_nat n"

fun check_events :: "ext \<Rightarrow> duration \<Rightarrow> drift_config \<Rightarrow> event list \<Rightarrow> nat \<Rightarrow> nat \<Rightarrow> world \<Rightarrow> (err + nat \<times> nat) \<times> world" where
  "check_events X ttl cfg [] drifted skipped w = (Inr (drifted, skipped), w)"
| "check_events X ttl cfg (e # es) drifted skipped w = (case ctx_Err w of
     (True, w1) \<Rightarrow> (Inl (Sentinel ContextCanceled), w1)
   | (False, w1) \<Rightarrow> (case checkOne X ttl cfg e w1 of
        (c, w2) \<Rightarrow> check_events X ttl cfg es
          (if c = CheckDrifted then drifted + 1 else drifted) (if c = CheckSkipped then skipped + 1 else skipped) w2))"

definition Drift_Sweep :: "ext \<Rightarrow> duration \<Rightarrow> drift_config \<Rightarrow> world \<Rightarrow> (err + unit) \<times> world" where
  "Drift_Sweep X ttl cfg w = (case eventRepo_ListAvailable w of
     (Inl e, w1) \<Rightarrow> (Inl (Wrap ''driftDetector Sweep: list events'' e), metric ''drift_list_events_errors'' (metric (drift_gauge 0) w1))
   | (Inr events, w1) \<Rightarrow>
      if events = [] then (Inr (), metric (drift_gauge 0) w1)
      else case check_events X ttl cfg events 0 0 w1 of
        (Inl e, w2) \<Rightarrow> (Inl e, w2)
      | (Inr (drifted, skipped), w2) \<Rightarrow> (Inr (), metric (drift_gauge drifted) w2))"

section \<open>The detector only looks\<close>

text \<open>Whatever fails, a sweep leaves the database and the counters as they are: only metadata may be written.\<close>

definition looked :: "world \<Rightarrow> world \<Rightarrow> bool" where
  "looked w v \<longleftrightarrow> w_pg v = w_pg w \<and> rd_qty (w_rd v) = rd_qty (w_rd w) \<and> rd_now (w_rd v) = rd_now (w_rd w) \<and>
     rd_reverted (w_rd v) = rd_reverted (w_rd w) \<and> rd_stream (w_rd v) = rd_stream (w_rd w)"

lemma looked_refl: "looked w w"
  by (simp add: looked_def)

lemma looked_trans: "looked u v \<Longrightarrow> looked v w \<Longrightarrow> looked u w"
  by (simp add: looked_def)

lemma looked_metric [simp]: "looked w (metric m v) = looked w v"
  by (simp add: looked_def)

lemma autoRehydrate_looked: "looked w (autoRehydrate X ttl t w)"
proof -
  let ?c = "\<lambda>r. ((), redis_EXPIRE_meta (tt_id t) ttl (redis_HSET (tt_id t) (ticketTypeMetaValues X t) r))"
  obtain x w1 where c: "redis_call ?c w = (x, w1)" by (metis surj_pair)
  have "looked w w1" using c
    by (auto simp: redis_call_def looked_def redis_EXPIRE_meta_def redis_HSET_def split: prod.splits fault.splits option.splits dest!: io_pair)
  then show ?thesis using c by (cases x) (simp_all add: autoRehydrate_def SetTicketTypeMetadata_def)
qed

lemma GetInventory_looked: "GetInventory i w = (r, w') \<Longrightarrow> looked w w'"
  by (auto simp: GetInventory_def redis_call_def looked_def split: prod.splits fault.splits sum.splits option.splits dest!: io_pair)

lemma checkTicketType_looked:
  assumes "checkTicketType X ttl cfg t w = (c, w')"
  shows "looked w w'"
proof -
  obtain x w1 where g: "GetInventory (tt_id t) w = (x, w1)" by (metis surj_pair)
  have "looked w1 w'" using assms g autoRehydrate_looked [of "metric ''drift_cache_missing'' w1" X ttl t]
    by (auto simp: checkTicketType_def Let_def looked_refl looked_def split: sum.splits prod.splits if_splits)
  then show ?thesis using looked_trans GetInventory_looked [OF g] by blast
qed

lemma check_types_looked: "check_types X ttl cfg ts worst w = (c, w') \<Longrightarrow> looked w w'"
proof (induction ts arbitrary: worst w)
  case Nil
  then show ?case by (simp add: looked_refl)
next
  case (Cons t ts)
  obtain d w1 where "checkTicketType X ttl cfg t w = (d, w1)" by (metis surj_pair)
  with Cons checkTicketType_looked looked_trans show ?case by fastforce
qed

lemma checkOne_looked:
  assumes "checkOne X ttl cfg e w = (c, w')"
  shows "looked w w'"
proof -
  obtain x w1 where l: "ticketTypeRepo_ListByEventID X (ev_id e) w = (x, w1)" by (metis surj_pair)
  have "looked w w1" using l
    by (auto simp: ticketTypeRepo_ListByEventID_def looked_def split: prod.splits sum.splits dest!: sql_query_frame)
  with assms l check_types_looked looked_trans show ?thesis by (cases x) (auto simp: checkOne_def)
qed

lemma check_events_looked: "check_events X ttl cfg es d s w = (r, w') \<Longrightarrow> looked w w'"
proof (induction es arbitrary: d s w)
  case Nil
  then show ?case by (simp add: looked_refl)
next
  case (Cons e es)
  obtain b w1 where c: "ctx_Err w = (b, w1)" by (metis surj_pair)
  have l1: "looked w w1" using ctx_Err_frame [OF c] by (simp add: looked_def)
  obtain k w2 where o: "checkOne X ttl cfg e w1 = (k, w2)" by (metis surj_pair)
  show ?case
  proof (cases b)
    case True
    with Cons.prems c l1 show ?thesis by simp
  next
    case False
    with Cons.prems c o have "looked w2 w'" using Cons.IH by simp
    with l1 checkOne_looked [OF o] looked_trans show ?thesis by blast
  qed
qed

lemma Drift_Sweep_looked:
  assumes "Drift_Sweep X ttl cfg w = (r, w')"
  shows "looked w w'"
proof -
  obtain x w1 where l: "eventRepo_ListAvailable w = (x, w1)" by (metis surj_pair)
  have l1: "looked w w1" using l
    by (auto simp: eventRepo_ListAvailable_def looked_def split: prod.splits sum.splits dest!: sql_query_frame)
  show ?thesis
  proof (cases x)
    case (Inl e)
    with assms l l1 show ?thesis by (auto simp: Drift_Sweep_def)
  next
    case (Inr es)
    obtain y w2 where c: "check_events X ttl cfg es 0 0 w1 = (y, w2)" by (metis surj_pair)
    have "looked w w2" using looked_trans [OF l1 check_events_looked [OF c]] .
    with assms l l1 Inr c show ?thesis by (cases y) (auto simp: Drift_Sweep_def split: if_splits)
  qed
qed

section \<open>The gauge counts the drifted events\<close>

definition drifted :: "drift_config \<Rightarrow> redis \<Rightarrow> ticket_type_row \<Rightarrow> bool" where
  "drifted cfg rd r \<longleftrightarrow> (case redis_get_qty (tr_id r) rd of
     None \<Rightarrow> tr_available r > 0
   | Some (v, _) \<Rightarrow> v > tr_available r \<or> tr_available r - v > dc_AbsoluteTolerance cfg)"

definition drifted_event :: "drift_config \<Rightarrow> pg \<Rightarrow> redis \<Rightarrow> event \<Rightarrow> bool" where
  "drifted_event cfg p rd e \<longleftrightarrow> (\<exists>r \<in> set (pg_types p). tr_event r = ev_id e \<and> drifted cfg rd r)"

definition comparable :: "redis \<Rightarrow> ticket_type_row \<Rightarrow> bool" where
  "comparable rd r \<longleftrightarrow> 0 \<le> tr_available r \<and> in_int64 (tr_available r - stock rd (tr_id r))"

lemma drifted_looked:
  "looked w v \<Longrightarrow> drifted cfg (w_rd v) r = drifted cfg (w_rd w) r \<and> comparable (w_rd v) r = comparable (w_rd w) r"
proof -
  assume "looked w v"
  then have "redis_get_qty (tr_id r) (w_rd v) = redis_get_qty (tr_id r) (w_rd w)"
    by (auto simp: looked_def redis_get_qty_def split: option.splits)
  then show ?thesis by (simp add: drifted_def comparable_def stock_def)
qed

lemma autoRehydrate_faults: "w_faults w = [] \<Longrightarrow> w_faults (autoRehydrate X ttl t w) = []"
  by (simp add: autoRehydrate_def SetTicketTypeMetadata_def redis_call_Works)

lemma GetInventory_Works: "w_faults w = [] \<Longrightarrow> GetInventory i w =
    (case redis_get_qty i (w_rd w) of None \<Rightarrow> (Inr (0, False), w) | Some (v, _) \<Rightarrow> (Inr (v, True), w))"
  by (auto simp: GetInventory_def redis_call_Works split: option.splits)

lemma checkTicketType_exact:
  assumes "w_faults w = []" and "dc_AbsoluteTolerance cfg \<ge> 0" and "comparable (w_rd w) r"
  shows "\<exists>w'. checkTicketType X ttl cfg (ticket_type_toDomain X r) w =
      (if drifted cfg (w_rd w) r then CheckDrifted else CheckClean, w') \<and> w_faults w' = []"
proof -
  have t: "tt_id (ticket_type_toDomain X r) = tr_id r" "tt_availableTickets (ticket_type_toDomain X r) = tr_available r"
    by (simp_all add: ticket_type_toDomain_def ReconstructTicketType_def)
  show ?thesis
  proof (cases "redis_get_qty (tr_id r) (w_rd w)")
    case None
    then have "wrap64 (tr_available r) = tr_available r" using assms(3) by (simp add: comparable_def stock_def wrap64_id)
    with None assms show ?thesis
      by (auto simp: checkTicketType_def GetInventory_Works t drifted_def comparable_def Let_def autoRehydrate_faults)
  next
    case (Some vt)
    obtain v ttl' where vt: "vt = (v, ttl')" by (cases vt)
    with Some have "wrap64 (tr_available r - v) = tr_available r - v" using assms(3) by (simp add: comparable_def stock_def wrap64_id)
    with Some vt assms show ?thesis by (auto simp: checkTicketType_def GetInventory_Works t drifted_def Let_def)
  qed
qed

lemma check_types_exact:
  assumes "w_faults w = []" and "dc_AbsoluteTolerance cfg \<ge> 0" and "\<forall>r \<in> set rs. comparable (w_rd w) r" and "worst \<noteq> CheckSkipped"
  shows "\<exists>w'. check_types X ttl cfg (map (ticket_type_toDomain X) rs) worst w =
      (if worst = CheckDrifted \<or> (\<exists>r \<in> set rs. drifted cfg (w_rd w) r) then CheckDrifted else CheckClean, w') \<and> w_faults w' = []"
  using assms
proof (induction rs arbitrary: worst w)
  case Nil
  then show ?case by (cases worst) auto
next
  case (Cons r rs)
  let ?c = "if drifted cfg (w_rd w) r then CheckDrifted else CheckClean"
  obtain w1 where one: "checkTicketType X ttl cfg (ticket_type_toDomain X r) w = (?c, w1)" and f1: "w_faults w1 = []"
    using checkTicketType_exact [of w cfg r X ttl] Cons.prems by auto
  note l1 = drifted_looked [OF checkTicketType_looked [OF one], of cfg]
  let ?worst = "if ?c > worst then ?c else worst"
  have worst: "?worst \<noteq> CheckSkipped" "?worst = CheckDrifted \<longleftrightarrow> worst = CheckDrifted \<or> drifted cfg (w_rd w) r"
    using Cons.prems(4) by (cases worst; simp add: less_check_outcome_def)+
  have "\<exists>w'. check_types X ttl cfg (map (ticket_type_toDomain X) rs) ?worst w1 =
      (if ?worst = CheckDrifted \<or> (\<exists>r \<in> set rs. drifted cfg (w_rd w1) r) then CheckDrifted else CheckClean, w') \<and> w_faults w' = []"
    by (rule Cons.IH [OF f1 Cons.prems(2) _ worst(1)]) (use Cons.prems(3) l1 in auto)
  then show ?case using one worst(2) l1 by simp
qed

lemma checkOne_exact:
  assumes "w_faults w = []" and "dc_AbsoluteTolerance cfg \<ge> 0" and "\<forall>r \<in> set (pg_types (w_pg w)). comparable (w_rd w) r"
  shows "\<exists>w'. checkOne X ttl cfg e w = (if drifted_event cfg (w_pg w) (w_rd w) e
      then CheckDrifted else CheckClean, w') \<and> w_faults w' = []"
proof -
  let ?rs = "sort_key tr_id (filter (\<lambda>r. tr_event r = ev_id e) (pg_types (w_pg w)))"
  have "\<exists>w'. check_types X ttl cfg (map (ticket_type_toDomain X) ?rs) CheckClean w =
      (if CheckClean = CheckDrifted \<or> (\<exists>r \<in> set ?rs. drifted cfg (w_rd w) r) then CheckDrifted else CheckClean, w') \<and> w_faults w' = []"
    by (rule check_types_exact) (use assms in auto)
  then show ?thesis using assms(1) by (simp add: checkOne_def ticketTypeRepo_ListByEventID_def sql_query_Works drifted_event_def Bex_def conj_ac)
qed

lemma check_events_exact:
  assumes "w_faults w = []" and "dc_AbsoluteTolerance cfg \<ge> 0" and "\<forall>r \<in> set (pg_types (w_pg w)). comparable (w_rd w) r"
  shows "\<exists>w'. check_events X ttl cfg es d s w =
      (Inr (d + length (filter (drifted_event cfg (w_pg w) (w_rd w)) es), s), w')"
  using assms
proof (induction es arbitrary: d s w)
  case Nil
  then show ?case by simp
next
  case (Cons e es)
  let ?d = "drifted_event cfg (w_pg w) (w_rd w) e"
  obtain w1 where one: "checkOne X ttl cfg e w = (if ?d then CheckDrifted else CheckClean, w1)" and f1: "w_faults w1 = []"
    using checkOne_exact [of w cfg X ttl e] Cons.prems by auto
  note lk = checkOne_looked [OF one]
  have same: "w_pg w1 = w_pg w" using lk by (simp add: looked_def)
  have d1: "drifted_event cfg (w_pg w) (w_rd w1) = drifted_event cfg (w_pg w) (w_rd w)"
    using drifted_looked [OF lk] by (simp add: drifted_event_def fun_eq_iff)
  have "\<forall>r \<in> set (pg_types (w_pg w1)). comparable (w_rd w1) r" using Cons.prems(3) drifted_looked [OF lk] same by auto
  note ih = Cons.IH [OF f1 Cons.prems(2) this, of "if ?d then d + 1 else d" s, unfolded same d1]
  have "ctx_Err w = (False, w)" using Cons.prems(1) by (simp add: ctx_Err_def)
  with one have step: "check_events X ttl cfg (e # es) d s w = check_events X ttl cfg es (if ?d then d + 1 else d) s w1" by auto
  show ?case unfolding step using ih by (cases ?d) simp_all
qed

text \<open>The comparison in the words of the type's comment, where no counter stands at an explicit 0.\<close>

lemma drifted_documented:
  assumes "dc_AbsoluteTolerance cfg \<ge> 0" and "0 \<le> tr_available r"
    and "tr_available r > 0 \<Longrightarrow> stock rd (tr_id r) = 0 \<Longrightarrow> redis_get_qty (tr_id r) rd = None"
  shows "drifted cfg rd r \<longleftrightarrow> (let db = tr_available r; cache = stock rd (tr_id r) in
    cache = 0 \<and> db > 0 \<or> cache > db \<or> db - cache > dc_AbsoluteTolerance cfg)"
  using assms by (cases "redis_get_qty (tr_id r) rd") (auto simp: drifted_def stock_def Let_def)


text \<open>Ten tickets are left, the counter says three, the tolerance is two.\<close>

definition demo_drift_world :: world where
  "demo_drift_world = empty_world\<lparr>
     w_pg := empty_pg\<lparr>pg_events := [\<lparr>ev_id = 2, ev_name = ''gig'', ev_totalTickets = 10, ev_availableTickets = 10, ev_version = 0\<rparr>],
       pg_types := [\<lparr>tr_id = 5, tr_event = 2, tr_name = ''std'', tr_price = 100, tr_cur = ''usd'', tr_total = 10, tr_available = 10,
         tr_starts = None, tr_ends = None, tr_limit = None, tr_area = None, tr_version = 0\<rparr>]\<rparr>,
     w_rd := empty_redis\<lparr>rd_qty := [5 \<mapsto> (3, None)]\<rparr>\<rparr>"

definition demo_drift_config :: drift_config where
  "demo_drift_config = \<lparr>dc_SweepInterval = 1, dc_AbsoluteTolerance = 2, dc_AutoRehydrate = True, dc_MaxConsecutiveFailures = 5\<rparr>"


text \<open>A counter of 0 that an early request left behind (\<open>early_request_blocks_rehydration\<close>) is not missing for the
  detector: with no more tickets than the tolerance the ticket type is reported clean although nothing of it can be
  booked.\<close>

lemma zero_counter_goes_unnoticed:
  assumes "w_faults w = []" and "redis_get_qty (tt_id t) (w_rd w) = Some (0, ttl')"
    and "0 < tt_availableTickets t" and "tt_availableTickets t \<le> dc_AbsoluteTolerance cfg" and "tt_availableTickets t < 2 ^ 63"
  shows "checkTicketType X ttl cfg t w = (CheckClean, w)"
proof -
  have "wrap64 (tt_availableTickets t) = tt_availableTickets t" using assms(3,5) by (simp add: wrap64_id in_int64_def)
  with assms show ?thesis by (simp add: checkTicketType_def GetInventory_Works)
qed

text \<open>A failed read of one ticket type hides the drift of another from the gauge: the event counts as skipped.\<close>

lemma skipped_read_hides_drift:
  assumes "checkTicketType X ttl cfg t w = (CheckDrifted, w1)" and "checkTicketType X ttl cfg u w1 = (CheckSkipped, w2)"
  shows "check_types X ttl cfg [t, u] CheckClean w = (CheckSkipped, w2)"
  using assms by (simp add: less_check_outcome_def)

end
