(* ===== verification/Event_Service.thy ===== *)
theory Event_Service
  imports Outbox
begin

text \<open>
  Creating an event (\<open>application/event/service.go\<close>): the event and its default ticket type in one
  transaction, then the Redis runtime of the ticket type, and the compensation that deletes both rows
  when Redis fails.
\<close>

definition compensateDanglingEvent :: "uuid \<Rightarrow> uuid \<Rightarrow> world \<Rightarrow> (err + unit) \<times> world" where
  "compensateDanglingEvent ev tt = uow_Do (\<lambda>w. case ticketTypeRepo_Delete tt w of
     (Inl e, w1) \<Rightarrow> (Inl (Wrap ''delete ticket_type'' e), w1)
   | (Inr _, w1) \<Rightarrow> (case eventRepo_Delete ev w1 of
        (Inl e, w2) \<Rightarrow> (Inl (Wrap ''delete event'' e), w2)
      | (Inr _, w2) \<Rightarrow> (Inr (), w2)))"

definition create_event_tx :: "ext \<Rightarrow> event \<Rightarrow> ticket_type \<Rightarrow> world \<Rightarrow> (err + event \<times> ticket_type) \<times> world" where
  "create_event_tx X ev tt w = (case eventRepo_Create ev w of
     (Inl e, w1) \<Rightarrow> (Inl e, w1)
   | (Inr createdEvent, w1) \<Rightarrow> (case ticketTypeRepo_Create X tt w1 of
        (Inl e, w2) \<Rightarrow> (Inl e, w2)
      | (Inr createdTT, w2) \<Rightarrow> (Inr (createdEvent, createdTT), w2)))"

text \<open>\<open>ttl\<close> is the lifetime of the runtime keys, an option of the inventory repository. An invalid name or total
  draws no id.\<close>

definition CreateEvent :: "ext \<Rightarrow> duration \<Rightarrow> string \<Rightarrow> int \<Rightarrow> int \<Rightarrow> string \<Rightarrow> world \<Rightarrow> (err + event \<times> ticket_type list) \<times> world" where
  "CreateEvent X ttl name totalTickets priceCents cur w = (case uuid_NewV7 w of (u, w1) \<Rightarrow>
     (case NewEvent X u name totalTickets of
        Inl e \<Rightarrow> (Inl e, if errors_Is e ErrInvalidEventName \<or> errors_Is e ErrInvalidTotalTickets then w else w1)
      | Inr ev \<Rightarrow> (case uuid_NewV7 w1 of
          (None, w2) \<Rightarrow> (Inl (Wrap ''generate ticket_type id'' (Plain ''uuid'')), w2)
        | (Some ttID, w2) \<Rightarrow>
           (case NewTicketType X ttID (ev_id ev) ''Default'' priceCents cur totalTickets None None None '''' of
             Inl e \<Rightarrow> (Inl e, w2)
           | Inr tt \<Rightarrow> (case uow_Do (create_event_tx X ev tt) w2 of
               (Inl e, w3) \<Rightarrow> (Inl (Wrap ''service.CreateEvent uow'' e), w3)
             | (Inr (createdEvent, createdTT), w3) \<Rightarrow> (case SetTicketTypeRuntime X ttl createdTT w3 of
                  (Inl e, w4) \<Rightarrow> (case compensateDanglingEvent (ev_id createdEvent) (tt_id createdTT) w4 of
                     (Inl ce, w5) \<Rightarrow> (Inl (Wrap ''service.CreateEvent: redis SetTicketTypeRuntime + compensation both failed'' (Join [e, ce])), w5)
                   | (Inr _, w5) \<Rightarrow> (Inl (Wrap ''service.CreateEvent redis SetTicketTypeRuntime'' e), w5))
                | (Inr _, w4) \<Rightarrow> (Inr (createdEvent, [createdTT]), w4)))))))"

section \<open>The two rows move together\<close>

text \<open>The database with the event and its ticket type added.\<close>

definition event_added :: "event \<Rightarrow> ticket_type_row \<Rightarrow> pg \<Rightarrow> pg \<Rightarrow> bool" where
  "event_added ev row p p' \<longleftrightarrow> p' = p\<lparr>pg_events := pg_events p @ [ev], pg_types := pg_types p @ [row]\<rparr> \<and>
     lookup ev_id (ev_id ev) (pg_events p) = None \<and> lookup tr_id (tr_id row) (pg_types p) = None"

lemma lookup_None_ex: "lookup f k xs = None \<longleftrightarrow> k \<notin> f ` set xs"
  by (induction xs) auto

lemma sql_exec_both:
  "sql_exec stmt w = (r, w') \<Longrightarrow> w_rd w' = w_rd w \<and> w_now w' = w_now w \<and> w_failed w' = w_failed w \<and>
    (\<forall>n. r = Inr n \<longrightarrow> stmt (w_pg w) = Inr (n, w_pg w'))"
  using sql_exec_frame sql_exec_Inr by blast

lemma create_event_tx_outcome:
  assumes run: "create_event_tx X ev tt w = (res, w')"
  shows "w_rd w' = w_rd w \<and> w_now w' = w_now w \<and> w_failed w' = w_failed w \<and>
    (\<forall>e t. res = Inr (e, t) \<longrightarrow> e = ev \<and> t = ticket_type_toDomain X (ticketTypeRowFromDomain tt) \<and>
       event_added ev (ticketTypeRowFromDomain tt) (w_pg w) (w_pg w'))"
proof -
  obtain a w1 where c: "eventRepo_Create ev w = (a, w1)" by (metis surj_pair)
  obtain b w2 where d: "ticketTypeRepo_Create X tt w1 = (b, w2)" by (metis surj_pair)
  have row_id: "tr_id (ticketTypeRowFromDomain tt) = tt_id tt" by (simp add: ticketTypeRowFromDomain_def)
  have fa: "w_rd w1 = w_rd w \<and> w_now w1 = w_now w \<and> w_failed w1 = w_failed w \<and>
     (\<forall>e. a = Inr e \<longrightarrow> e = ev \<and> lookup ev_id (ev_id ev) (pg_events (w_pg w)) = None \<and>
        w_pg w1 = (w_pg w)\<lparr>pg_events := pg_events (w_pg w) @ [ev]\<rparr>)"
    using c by (auto simp: eventRepo_Create_def split: prod.splits sum.splits if_splits dest!: sql_exec_both)
  have fb: "w_rd w2 = w_rd w1 \<and> w_now w2 = w_now w1 \<and> w_failed w2 = w_failed w1 \<and>
     (\<forall>t. b = Inr t \<longrightarrow> t = ticket_type_toDomain X (ticketTypeRowFromDomain tt) \<and>
        lookup tr_id (tt_id tt) (pg_types (w_pg w1)) = None \<and>
        w_pg w2 = (w_pg w1)\<lparr>pg_types := pg_types (w_pg w1) @ [ticketTypeRowFromDomain tt]\<rparr>)"
    using d by (auto simp: ticketTypeRepo_Create_def sql_insert_type_def Let_def lookup_None_ex list_ex_iff row_id
        split: prod.splits sum.splits if_splits dest!: sql_exec_both)
  show ?thesis
  proof (cases "\<exists>e t. a = Inr e \<and> b = Inr t")
    case True
    with run c d fa fb show ?thesis by (auto simp: create_event_tx_def event_added_def row_id)
  next
    case False
    with run c d fa fb show ?thesis by (cases a; cases b) (auto simp: create_event_tx_def)
  qed
qed

lemma compensate_outcome:
  assumes run: "compensateDanglingEvent i t w = (res, w')"
  shows "w_rd w' = w_rd w \<and> w_now w' = w_now w \<and> w_failed w' = w_failed w \<and>
    (w_pg w' = w_pg w \<or> w_pg w' = (w_pg w)\<lparr>pg_events := filter (\<lambda>r. ev_id r \<noteq> i) (pg_events (w_pg w)),
       pg_types := filter (\<lambda>r. tr_id r \<noteq> t) (pg_types (w_pg w))\<rparr>)"
proof -
  let ?body = "\<lambda>w. case ticketTypeRepo_Delete t w of
     (Inl e, w1) \<Rightarrow> (Inl (Wrap ''delete ticket_type'' e), w1)
   | (Inr _, w1) \<Rightarrow> (case eventRepo_Delete i w1 of
        (Inl e, w2) \<Rightarrow> (Inl (Wrap ''delete event'' e), w2)
      | (Inr _, w2) \<Rightarrow> (Inr (), w2))"
  have B: "w_rd v' = w_rd v \<and> w_now v' = w_now v \<and> w_failed v' = w_failed v \<and> (x = Inr () \<longrightarrow>
      w_pg v' = (w_pg v)\<lparr>pg_events := filter (\<lambda>r. ev_id r \<noteq> i) (pg_events (w_pg v)), pg_types := filter (\<lambda>r. tr_id r \<noteq> t) (pg_types (w_pg v))\<rparr>)"
    if b: "?body v = (x, v')" for v x v'
  proof -
    obtain a w1 where c: "ticketTypeRepo_Delete t v = (a, w1)" by (metis surj_pair)
    obtain b w2 where d: "eventRepo_Delete i w1 = (b, w2)" by (metis surj_pair)
    have fa: "w_rd w1 = w_rd v \<and> w_now w1 = w_now v \<and> w_failed w1 = w_failed v \<and>
        (a = Inr () \<longrightarrow> w_pg w1 = (w_pg v)\<lparr>pg_types := filter (\<lambda>r. tr_id r \<noteq> t) (pg_types (w_pg v))\<rparr>)"
      using c by (auto simp: ticketTypeRepo_Delete_def split: prod.splits sum.splits dest!: sql_exec_both)
    have fb: "w_rd w2 = w_rd w1 \<and> w_now w2 = w_now w1 \<and> w_failed w2 = w_failed w1 \<and>
        (b = Inr () \<longrightarrow> w_pg w2 = (w_pg w1)\<lparr>pg_events := filter (\<lambda>r. ev_id r \<noteq> i) (pg_events (w_pg w1))\<rparr>)"
      using d by (auto simp: eventRepo_Delete_def split: prod.splits sum.splits dest!: sql_exec_both)
    show ?thesis using b c d fa fb by (cases a; cases b) auto
  qed
  have "(w_rd w', w_now w', w_failed w') = (w_rd w, w_now w, w_failed w)"
    by (rule uow_Do_projection [OF run [unfolded compensateDanglingEvent_def]]) (use B in \<open>auto simp: frame\<close>)
  moreover have "w_pg w' = w_pg w \<or> w_pg w' = (w_pg w)\<lparr>pg_events := filter (\<lambda>r. ev_id r \<noteq> i) (pg_events (w_pg w)),
       pg_types := filter (\<lambda>r. tr_id r \<noteq> t) (pg_types (w_pg w))\<rparr>"
  proof (rule disjE [OF uow.atomic [OF run [unfolded compensateDanglingEvent_def]]])
    assume "\<exists>w1 a w2. w_pg w1 = w_pg w \<and> ?body w1 = (Inr a, w2) \<and> w_pg w' = w_pg w2"
    then obtain w1 w2 where b: "w_pg w1 = w_pg w" "?body w1 = (Inr (), w2)" "w_pg w' = w_pg w2" by auto
    from B [OF b(2)] b(1,3) show ?thesis by simp
  qed simp
  ultimately show ?thesis by simp
qed

lemma filter_fresh: "k \<notin> f ` set xs \<Longrightarrow> filter (\<lambda>x. f x \<noteq> k) xs = xs"
  by (induction xs) auto

lemma event_added_removed:
  "event_added ev row p p' \<Longrightarrow> p'\<lparr>pg_events := filter (\<lambda>r. ev_id r \<noteq> ev_id ev) (pg_events p'), pg_types := filter (\<lambda>r. tr_id r \<noteq> tr_id row) (pg_types p')\<rparr> = p"
  by (simp add: event_added_def lookup_None_ex filter_fresh)

text \<open>A ticket type whose id no order has yet keeps the books.\<close>

lemma event_added_sys_ok:
  assumes ad: "event_added ev row (w_pg w) (w_pg w')" and ok: "sys_ok w" and f: "w_failed w' = w_failed w"
    and row: "type_row_ok row" "tr_available row = tr_total row" and fresh: "\<forall>r \<in> set (pg_orders (w_pg w)). or_tt r \<noteq> Some (tr_id row)"
  shows "sys_ok w'"
proof -
  have w': "w_pg w' = (w_pg w)\<lparr>pg_events := pg_events (w_pg w) @ [ev], pg_types := pg_types (w_pg w) @ [row]\<rparr>"
    and new: "ev_id ev \<notin> ev_id ` set (pg_events (w_pg w))" "tr_id row \<notin> tr_id ` set (pg_types (w_pg w))"
    using ad by (auto simp: event_added_def lookup_None_ex)
  have "held_of (tr_id row) rs = 0" if "\<forall>r \<in> set rs. or_tt r \<noteq> Some (tr_id row)" for rs
    using that by (induction rs) (auto simp: held_of_def held_def)
  with fresh have "held_of (tr_id row) (pg_orders (w_pg w)) = 0" by blast
  moreover have "event_ok (w_pg w') = event_ok (w_pg w)"
    by (auto simp: fun_eq_iff event_ok_def faithful_def w' split: payload.splits)
  ultimately show ?thesis using ok row new f
    by (simp add: sys_ok_def db_ok_def pg_wf_def ledger_ok_def typed_def events_ok_def w')
qed

lemma SetTicketTypeRuntime_outcome:
  assumes "SetTicketTypeRuntime X ttl t w = (res, w')"
  shows "w_pg w' = w_pg w \<and> w_failed w' = w_failed w \<and> (res = Inr () \<longrightarrow> stock (w_rd w') (tt_id t) = tt_availableTickets t) \<and>
    (\<forall>i. i \<noteq> tt_id t \<longrightarrow> stock (w_rd w') i = stock (w_rd w) i)"
proof -
  let ?c = "\<lambda>r. ((), redis_SET_qty (tt_id t) (tt_availableTickets t) ttl
         (redis_EXPIRE_meta (tt_id t) ttl (redis_HSET (tt_id t) (ticketTypeMetaValues X t) r)))"
  obtain x w1 where c: "redis_call ?c w = (x, w1)" by (metis surj_pair)
  have q: "rd_qty (redis_EXPIRE_meta i ttl (redis_HSET i v r)) = rd_qty r" "rd_now (redis_EXPIRE_meta i ttl (redis_HSET i v r)) = rd_now r" for i v r
    by (auto simp: redis_EXPIRE_meta_def redis_HSET_def split: option.splits)
  have set: "redis_get_qty i (redis_SET_qty j n ttl r) = (if i = j then Some (n, if ttl > 0 then Some (rd_now r + ttl) else None) else redis_get_qty i r)"
    for i j n r by (auto simp: redis_get_qty_def redis_SET_qty_def alive_def split: option.splits)
  have other: "redis_get_qty i (redis_EXPIRE_meta j ttl (redis_HSET j v r)) = redis_get_qty i r" for i j v r
    by (auto simp: redis_get_qty_def q split: option.splits)
  have s: "stock (snd (?c r)) (tt_id t) = tt_availableTickets t" "i \<noteq> tt_id t \<Longrightarrow> stock (snd (?c r)) i = stock r i" for r i
    by (simp_all add: stock_def set other)
  have f: "w_pg w1 = w_pg w \<and> w_failed w1 = w_failed w \<and> w_rd w1 \<in> {w_rd w, snd (?c (w_rd w))} \<and> (x \<in> range Inr \<longrightarrow> w_rd w1 = snd (?c (w_rd w)))"
    using c by (auto simp: redis_call_def split: prod.splits fault.splits dest!: io_pair)
  have "w' = w1" "res = Inr () \<Longrightarrow> x \<in> range Inr" using assms c by (auto simp: SetTicketTypeRuntime_def split: sum.splits)
  with f s show ?thesis by auto
qed

text \<open>Whatever fails, the database is as it was, or has the event and its ticket type; an answer with an event
  means that the counter offers its tickets.\<close>

lemma CreateEvent_outcome:
  assumes run: "CreateEvent X ttl name totalTickets priceCents cur w = (res, w')"
  shows "w_failed w' = w_failed w \<and>
    (w_pg w' = w_pg w \<or> (\<exists>ev row. event_added ev row (w_pg w) (w_pg w') \<and> tr_event row = ev_id ev \<and> Some (tr_id row) \<in> set (w_uuids w) \<and>
       0 < totalTickets \<and> ev_totalTickets ev = totalTickets \<and> tr_total row = totalTickets \<and> tr_available row = totalTickets \<and> tr_price row = priceCents)) \<and>
    (\<forall>ev tts. res = Inr (ev, tts) \<longrightarrow> (\<exists>t row. tts = [t] \<and> event_added ev row (w_pg w) (w_pg w') \<and>
       t = ticket_type_toDomain X row \<and> tr_event row = ev_id ev \<and> stock (w_rd w') (tr_id row) = totalTickets)) \<and>
    (\<exists>tt. \<forall>i. i \<noteq> tt \<longrightarrow> stock (w_rd w') i = stock (w_rd w) i)"
proof -
  obtain u w1 where u: "uuid_NewV7 w = (u, w1)" by (metis surj_pair)
  note f1 = uuid_NewV7_frame [OF u]
  obtain u2 w2 where u2: "uuid_NewV7 w1 = (u2, w2)" by (metis surj_pair)
  note f2 = uuid_NewV7_frame [OF u2]
  have same: ?thesis if "w_pg w' = w_pg w" "w_rd w' = w_rd w" "w_failed w' = w_failed w" "\<exists>e. res = Inl e"
    using that by auto
  show ?thesis
  proof (cases "\<exists>ev ttID tt. NewEvent X u name totalTickets = Inr ev \<and> u2 = Some ttID \<and>
      NewTicketType X ttID (ev_id ev) ''Default'' priceCents cur totalTickets None None None '''' = Inr tt")
    case False
    then have "w' \<in> {w, w1, w2} \<and> (\<exists>e. res = Inl e)"
      using run u u2 by (auto simp: CreateEvent_def split: sum.splits option.splits if_splits)
    with f1 f2 show ?thesis by (intro same) auto
  next
    case True
    then obtain ev ttID tt where ev: "NewEvent X u name totalTickets = Inr ev" and tid: "u2 = Some ttID"
      and tt: "NewTicketType X ttID (ev_id ev) ''Default'' priceCents cur totalTickets None None None '''' = Inr tt" by blast
    let ?row = "ticketTypeRowFromDomain tt"
    have tot: "0 < totalTickets" "ev_totalTickets ev = totalTickets" using ev by (auto simp: NewEvent_def split: if_splits option.splits)
    have row: "tr_id ?row = ttID" "tr_event ?row = ev_id ev" "tr_total ?row = totalTickets" "tr_available ?row = totalTickets" "tr_price ?row = priceCents"
      using NewTicketType_Inr [OF tt] by (simp_all add: ticketTypeRowFromDomain_def)
    have mem: "Some (tr_id ?row) \<in> set (w_uuids w)" unfolding row(1) using u u2 tid by (auto simp: uuid_NewV7_def split: list.splits)
    obtain x w3 where tx: "uow_Do (create_event_tx X ev tt) w2 = (x, w3)" by (metis surj_pair)
    have "(w_rd w3, w_now w3, w_failed w3) = (w_rd w2, w_now w2, w_failed w2)"
      by (rule uow_Do_projection [OF tx]) (use create_event_tx_outcome in \<open>auto simp: frame\<close>)
    then have f3: "w_rd w3 = w_rd w" "w_failed w3 = w_failed w" using f1 f2 by simp_all
    have B: "fst et = ev \<and> snd et = ticket_type_toDomain X ?row \<and> event_added ev ?row (w_pg w) (w_pg v2)"
      if "create_event_tx X ev tt v1 = (Inr et, v2)" "w_pg v1 = w_pg w2" for v1 et v2
      using create_event_tx_outcome [OF that(1)] that(2) f1 f2 by (cases et) simp
    have pg3: "w_pg w3 = w_pg w \<or> event_added ev ?row (w_pg w) (w_pg w3)"
      using uow.atomic [OF tx] B f1 f2 by auto
    show ?thesis
    proof (cases x)
      case (Inl e)
      then have "w' = w3" "\<exists>e. res = Inl e" using run u u2 ev tid tt tx by (auto simp: CreateEvent_def)
      then show ?thesis using pg3 f3 row tot mem by auto
    next
      case (Inr et)
      have et: "et = (ev, ticket_type_toDomain X ?row)" and ad3: "event_added ev ?row (w_pg w) (w_pg w3)"
        using uow.committed [OF tx [unfolded Inr]] B by (cases et; fastforce)+
      let ?t = "ticket_type_toDomain X ?row"
      have t: "tt_id ?t = ttID" "tt_availableTickets ?t = totalTickets"
        using row by (simp_all add: ticket_type_toDomain_def ReconstructTicketType_def)
      obtain y w4 where rt: "SetTicketTypeRuntime X ttl ?t w3 = (y, w4)" by (metis surj_pair)
      note f4 = SetTicketTypeRuntime_outcome [OF rt, unfolded t]
      show ?thesis
      proof (cases y)
        case (Inr z)
        then have "w' = w4" "res = Inr (ev, [?t])" using run u u2 ev tid tt tx \<open>x = Inr et\<close> et rt by (auto simp: CreateEvent_def)
        then show ?thesis using f4 ad3 f3 row tot mem Inr by auto
      next
        case (Inl e)
        obtain z w5 where cp: "compensateDanglingEvent (ev_id ev) ttID w4 = (z, w5)" by (metis surj_pair)
        note f5 = compensate_outcome [OF cp]
        have w': "w' = w5" "\<exists>e. res = Inl e"
          using run u u2 ev tid tt tx \<open>x = Inr et\<close> et rt Inl cp t by (auto simp: CreateEvent_def split: sum.splits)
        have restored: "w_pg w5 = w_pg w \<or> event_added ev ?row (w_pg w) (w_pg w5)"
          using f5 f4 ad3 event_added_removed [OF ad3] row(1) by auto
        have st: "\<forall>i. i \<noteq> ttID \<longrightarrow> stock (w_rd w') i = stock (w_rd w) i" using w' f5 f4 f3 by simp
        have "w_failed w5 = w_failed w" using f5 f4 f3 by simp
        with restored st w' row tot mem show ?thesis by auto
      qed
    qed
  qed
qed

text \<open>C23: an event exists with its ticket type or not at all. Whatever calls fail, the books are kept and creating an event
  leaves the database as it was, or adds exactly the event and its default ticket type with all tickets
  available; it answers with an event only when both rows are stored and the Redis counter offers all its
  tickets, and it changes no other counter.\<close>

theorem create_event_all_or_nothing:
  assumes run: "CreateEvent X ttl name totalTickets priceCents cur w = (res, w')" and ok: "sys_ok w"
    and fresh: "\<forall>u r. Some u \<in> set (w_uuids w) \<longrightarrow> r \<in> set (pg_orders (w_pg w)) \<longrightarrow> or_tt r \<noteq> Some u"
  shows "sys_ok w' \<and>
    (w_pg w' = w_pg w \<or> (\<exists>ev row. event_added ev row (w_pg w) (w_pg w') \<and> tr_event row = ev_id ev \<and>
       ev_totalTickets ev = totalTickets \<and> tr_total row = totalTickets \<and> tr_available row = totalTickets \<and> tr_price row = priceCents)) \<and>
    (\<forall>ev tts. res = Inr (ev, tts) \<longrightarrow> (\<exists>t row. tts = [t] \<and> event_added ev row (w_pg w) (w_pg w') \<and>
       t = ticket_type_toDomain X row \<and> tr_event row = ev_id ev \<and> stock (w_rd w') (tr_id row) = totalTickets)) \<and>
    (\<exists>tt. \<forall>i. i \<noteq> tt \<longrightarrow> stock (w_rd w') i = stock (w_rd w) i)"
proof -
  note out = CreateEvent_outcome [OF run]
  have "sys_ok w'"
  proof (cases "w_pg w' = w_pg w")
    case True
    with out ok show ?thesis by (simp add: sys_ok_def events_ok_def)
  next
    case False
    with out obtain ev row where ad: "event_added ev row (w_pg w) (w_pg w')" and row: "Some (tr_id row) \<in> set (w_uuids w)"
      "0 < totalTickets" "tr_total row = totalTickets" "tr_available row = totalTickets" by blast
    show ?thesis by (rule event_added_sys_ok [OF ad ok]) (use out row fresh in \<open>auto simp: type_row_ok_def\<close>)
  qed
  with out show ?thesis by blast
qed

text \<open>With Redis failing, the rows are gone again.\<close>

definition demo_create_world :: world where
  "demo_create_world = empty_world\<lparr>w_uuids := [Some 3, Some 4], w_faults := [Works, Works, Works, Works, Lost]\<rparr>"

lemma create_event_all_or_nothing_witness:
  "let w' = snd (CreateEvent plain_ext 60 ''gig'' 10 100 ''usd'' demo_create_world)
   in sys_ok w' \<and> pg_types (w_pg w') = [] \<and> pg_events (w_pg w') = []"
proof -
  let ?r = "CreateEvent plain_ext 60 ''gig'' 10 100 ''usd'' demo_create_world"
  have "sys_ok demo_create_world"
    by (simp add: demo_create_world_def empty_world_def empty_pg_def sys_ok_def db_ok_def pg_wf_def orders_wf_def ledger_ok_def typed_def events_ok_def)
  moreover have "pg_orders (w_pg demo_create_world) = []" by (simp add: demo_create_world_def empty_world_def empty_pg_def)
  ultimately have "sys_ok (snd ?r)"
    using create_event_all_or_nothing [of plain_ext 60 "''gig''" 10 100 "''usd''" demo_create_world] by (metis empty_iff list.set(1) prod.collapse)
  moreover have "pg_types (w_pg (snd ?r)) = [] \<and> pg_events (w_pg (snd ?r)) = [] \<and> w_faults (snd ?r) = []" by code_simp
  ultimately show ?thesis by (simp add: Let_def)
qed

end
