(* ===== verification/Api_Booking.thy ===== *)
theory Api_Booking
  imports Payment_Gateway Event_Service
begin

text \<open>
  The HTTP API of bookings (\<open>api/booking/handler.go\<close>, \<open>errors.go\<close>, \<open>api/dto\<close>). A handler gets what gin
  read from the request and returns status and body; the services are arguments, as in
  \<open>NewBookingHandler\<close>. \<open>json\<close> and query decoding are done by gin: a request arrives decoded, or as \<open>None\<close>
  when it does not decode; the \<open>binding\<close> tags are checked here. Bodies are the response structs before
  \<open>json.Marshal\<close>. Log lines are left out.
\<close>

section \<open>Requests\<close>

record booking_request =
  br_UserID :: int
  br_TicketTypeID :: uuid
  br_Quantity :: int

record create_event_request =
  ce_Name :: string
  ce_TotalTickets :: int
  ce_PriceCents :: int
  ce_Currency :: string

text \<open>The validator's \<open>required\<close> refuses the zero value; \<open>len\<close> of a string counts its characters, here the
  bytes that do not continue a UTF-8 sequence (decoded JSON strings are valid UTF-8).\<close>

definition rune_count :: "string \<Rightarrow> nat" where
  "rune_count s = length (filter (\<lambda>c. \<not> (128 \<le> (of_char c :: nat) \<and> (of_char c :: nat) < 192)) s)"

definition bind_BookingRequest :: "booking_request option \<Rightarrow> booking_request option" where
  "bind_BookingRequest req = (case req of None \<Rightarrow> None
     | Some r \<Rightarrow> if br_UserID r \<noteq> 0 \<and> br_UserID r \<ge> 1 \<and> br_TicketTypeID r \<noteq> uuid_Nil \<and>
         br_Quantity r \<noteq> 0 \<and> br_Quantity r \<ge> 1 \<and> br_Quantity r \<le> 10 then Some r else None)"

definition bind_CreateEventRequest :: "create_event_request option \<Rightarrow> create_event_request option" where
  "bind_CreateEventRequest req = (case req of None \<Rightarrow> None
     | Some r \<Rightarrow> if ce_Name r \<noteq> '''' \<and> ce_TotalTickets r \<noteq> 0 \<and> ce_TotalTickets r \<ge> 1 \<and>
         ce_PriceCents r \<noteq> 0 \<and> ce_PriceCents r \<ge> 1 \<and> ce_Currency r \<noteq> '''' \<and> rune_count (ce_Currency r) = 3
       then Some r else None)"

record list_bookings_params =
  lb_Page :: int
  lb_Size :: int
  lb_Status :: "string option"

definition StatusFilter :: "list_bookings_params \<Rightarrow> order_status option" where
  "StatusFilter q = (case lb_Status q of None \<Rightarrow> None
     | Some s \<Rightarrow> if IsValid s then status_of_string s else None)"

section \<open>Responses\<close>

record order_response =
  re_ID :: uuid
  re_EventID :: uuid
  re_TicketTypeID :: "uuid option"
  re_UserID :: int
  re_Quantity :: int
  re_Status :: string
  re_CreatedAt :: time
  re_ReservedUntil :: "time option"
  re_AmountCents :: int
  re_Currency :: string

record ticket_type_response =
  te_ID :: uuid
  te_EventID :: uuid
  te_Name :: string
  te_PriceCents :: int
  te_Currency :: string
  te_TotalTickets :: int
  te_AvailableTickets :: int
  te_SaleStartsAt :: "time option"
  te_SaleEndsAt :: "time option"
  te_PerUserLimit :: "int option"
  te_AreaLabel :: string

record event_response =
  ee_ID :: uuid
  ee_Name :: string
  ee_TotalTickets :: int
  ee_AvailableTickets :: int
  ee_Version :: int
  ee_TicketTypes :: "ticket_type_response list"

record list_bookings_response =
  le_Data :: "order_response list"
  le_Total :: int
  le_Page :: int
  le_Size :: int

record booking_accepted =
  ba_OrderID :: uuid
  ba_Status :: string
  ba_Message :: string
  ba_ReservedUntil :: time
  ba_ExpiresInSeconds :: int
  ba_Self :: string
  ba_Pay :: string

record payment_intent_response =
  pe_OrderID :: uuid
  pe_PaymentIntentID :: string
  pe_ClientSecret :: string
  pe_AmountCents :: int
  pe_Currency :: string

record stage_order_response =
  so_OrderID :: uuid
  so_Status :: string
  so_AmountCents :: int
  so_Currency :: string
  so_PaymentIntentID :: string
  so_ReservedUntil :: time

text \<open>The event a comparison server answers, with its one ticket type.\<close>

record stage_event_response =
  sv_ID :: uuid
  sv_Name :: string
  sv_TotalTickets :: int
  sv_TypeID :: uuid
  sv_TypeName :: string
  sv_PriceCents :: int
  sv_Currency :: string
  sv_TypeTotal :: int
  sv_TypeAvailable :: int

datatype body =
    ErrorResponse string
  | BookingAcceptedBody booking_accepted
  | OrderBody order_response
  | ListBookingsBody list_bookings_response
  | EventBody event_response
  | PaymentIntentBody payment_intent_response
  | StageOrderBody stage_order_response
  | StageEventBody stage_event_response
  | ViewEventBody string
  | StatusBody string
  | NoBody

record response =
  rs_Status :: int
  rs_Body :: body
  rs_Replayed :: bool

abbreviation answer :: "int \<Rightarrow> body \<Rightarrow> response" where
  "answer st b \<equiv> \<lparr>rs_Status = st, rs_Body = b, rs_Replayed = False\<rparr>"

definition OrderResponseFromDomain :: "order \<Rightarrow> order_response" where
  "OrderResponseFromDomain o' =
     \<lparr>re_ID = id_of o', re_EventID = eventID o',
      re_TicketTypeID = (if HasPriceSnapshot o' \<and> ticketTypeID o' \<noteq> uuid_Nil then Some (ticketTypeID o') else None),
      re_UserID = userID o', re_Quantity = quantity o', re_Status = status_string (status o'),
      re_CreatedAt = createdAt o',
      re_ReservedUntil = (if reservedUntil o' \<noteq> 0 then Some (reservedUntil o') else None),
      re_AmountCents = (if HasPriceSnapshot o' then amountCents o' else 0),
      re_Currency = (if HasPriceSnapshot o' then currency o' else '''')\<rparr>"

definition TicketTypeResponseFromDomain :: "ticket_type \<Rightarrow> ticket_type_response" where
  "TicketTypeResponseFromDomain t =
     \<lparr>te_ID = tt_id t, te_EventID = tt_eventID t, te_Name = tt_name t, te_PriceCents = tt_priceCents t,
      te_Currency = tt_currency t, te_TotalTickets = tt_totalTickets t, te_AvailableTickets = tt_availableTickets t,
      te_SaleStartsAt = tt_saleStartsAt t, te_SaleEndsAt = tt_saleEndsAt t,
      te_PerUserLimit = tt_perUserLimit t, te_AreaLabel = tt_areaLabel t\<rparr>"

definition EventResponseFromDomain :: "event \<Rightarrow> ticket_type list \<Rightarrow> event_response" where
  "EventResponseFromDomain e tts =
     \<lparr>ee_ID = ev_id e, ee_Name = ev_name e, ee_TotalTickets = ev_totalTickets e,
      ee_AvailableTickets = ev_availableTickets e, ee_Version = ev_version e,
      ee_TicketTypes = map TicketTypeResponseFromDomain tts\<rparr>"

definition ListBookingsResponseFromDomain :: "order list \<Rightarrow> int \<Rightarrow> int \<Rightarrow> int \<Rightarrow> list_bookings_response" where
  "ListBookingsResponseFromDomain orders count page sz =
     \<lparr>le_Data = map OrderResponseFromDomain orders, le_Total = count, le_Page = page, le_Size = sz\<rparr>"

section \<open>Errors\<close>

definition mapError :: "err option \<Rightarrow> int \<times> string" where
  "mapError eo = (case eo of None \<Rightarrow> (200, '''')
   | Some e \<Rightarrow>
     if errors_Is e ErrSoldOut \<or> errors_Is e ErrTicketTypeSoldOut then (409, ''sold out'')
     else if errors_Is e ErrUserAlreadyBought then (409, ''user already bought ticket'')
     else if errors_Is e ErrEventNotFound \<or> errors_Is e ErrOrderNotFound \<or> errors_Is e ErrTicketTypeNotFound
     then (404, ''resource not found'')
     else if errors_Is e ErrInvalidOrderID then (400, ''invalid order id'')
     else if errors_Is e ErrInvalidUserID \<or> errors_Is e ErrInvalidQuantity \<or> errors_Is e ErrInvalidReservedUntil \<or>
       errors_Is e ErrInvalidAmountCents \<or> errors_Is e ErrInvalidCurrency then (400, ''invalid request parameters'')
     else if errors_Is e ErrInvalidEventName \<or> errors_Is e ErrInvalidTotalTickets \<or> errors_Is e ErrInvalidTicketTypeID \<or>
       errors_Is e ErrInvalidTicketTypeEventID \<or> errors_Is e ErrInvalidTicketTypeName \<or>
       errors_Is e ErrInvalidTicketTypePrice \<or> errors_Is e ErrInvalidTicketTypeCurrency \<or>
       errors_Is e ErrInvalidTicketTypeTotal \<or> errors_Is e ErrInvalidTicketTypeAvailable \<or>
       errors_Is e ErrInvalidTicketTypeSaleWindow \<or> errors_Is e ErrInvalidTicketTypePerUser
     then (400, ''invalid event parameters'')
     else if errors_Is e ErrTicketTypeNameTaken then (409, ''ticket type name already exists for this event'')
     else if errors_Is e ErrOrderNotAwaitingPayment then (409, ''order is not awaiting payment'')
     else if errors_Is e ErrReservationExpired then (409, ''reservation expired'')
     else if errors_Is e ErrInvalidTransition then (409, ''order state changed; refetch'')
     else if errors_Is e ErrOrderMissingPriceSnapshot then (409, ''order price data unavailable; contact support'')
     else if errors_Is e ContextCanceled then (503, ''request canceled'')
     else if errors_Is e ContextDeadlineExceeded then (504, ''request timed out'')
     else (500, ''internal server error''))"

abbreviation error_answer :: "int \<times> string \<Rightarrow> response" where
  "error_answer p \<equiv> answer (fst p) (ErrorResponse (snd p))"

section \<open>Handlers\<close>

definition HandleListBookings ::
    "(int \<Rightarrow> int \<Rightarrow> order_status option \<Rightarrow> 's \<Rightarrow> (err + order list \<times> nat) \<times> 's) \<Rightarrow> list_bookings_params option \<Rightarrow> 's \<Rightarrow> response \<times> 's" where
  "HandleListBookings history params s = (case params of
     None \<Rightarrow> (answer 400 (ErrorResponse ''invalid query parameters''), s)
   | Some q \<Rightarrow>
      (let page = (if lb_Page q < 1 then 1 else lb_Page q);
           sz = (if lb_Size q < 1 then 10 else lb_Size q);
           sz' = (if sz > 100 then 100 else sz)
       in case history page sz' (StatusFilter q) s of
         (Inl e, s1) \<Rightarrow> (error_answer (mapError (Some e)), s1)
       | (Inr (orders, count), s1) \<Rightarrow>
           (answer 200 (ListBookingsBody (ListBookingsResponseFromDomain orders (int count) page sz')), s1)))"

text \<open>\<open>int(time.Until(t).Seconds())\<close>: whole seconds, cut towards zero, and not below 0. The float64 of \<open>Seconds\<close>
  holds the nanoseconds of windows up to 48 days exactly enough for the cut.\<close>

definition expires_in :: "time \<Rightarrow> time \<Rightarrow> int" where
  "expires_in now until = (if until - now < 0 then 0 else (until - now) div second)"

definition HandleBook ::
    "ext \<Rightarrow> (int \<Rightarrow> uuid \<Rightarrow> int \<Rightarrow> world \<Rightarrow> (err + order) \<times> world) \<Rightarrow> booking_request option \<Rightarrow> world \<Rightarrow> response \<times> world" where
  "HandleBook X bookTicket body w = (case bind_BookingRequest body of
     None \<Rightarrow> (answer 400 (ErrorResponse ''invalid request body''), w)
   | Some req \<Rightarrow> (case bookTicket (br_UserID req) (br_TicketTypeID req) (br_Quantity req) w of
        (Inl e, w1) \<Rightarrow> (error_answer (mapError (Some e)), w1)
      | (Inr o', w1) \<Rightarrow> (answer 202 (BookingAcceptedBody
          \<lparr>ba_OrderID = id_of o', ba_Status = ''reserved'',
           ba_Message = ''reservation accepted; complete payment before reserved_until'',
           ba_ReservedUntil = reservedUntil o', ba_ExpiresInSeconds = expires_in (w_now w1) (reservedUntil o'),
           ba_Self = ''/api/v1/orders/'' @ uuid_String X (id_of o'),
           ba_Pay = ''/api/v1/orders/'' @ uuid_String X (id_of o') @ ''/pay''\<rparr>), w1)))"

definition HandleGetOrder ::
    "ext \<Rightarrow> (uuid \<Rightarrow> 's \<Rightarrow> (err + order) \<times> 's) \<Rightarrow> string \<Rightarrow> 's \<Rightarrow> response \<times> 's" where
  "HandleGetOrder X getOrder rawID s = (case uuid_Parse X rawID of
     None \<Rightarrow> (answer 400 (ErrorResponse ''invalid order id''), s)
   | Some i \<Rightarrow> (case getOrder i s of
        (Inl e, s1) \<Rightarrow> (if errors_Is e ErrOrderNotFound then answer 404 (ErrorResponse ''order not found'')
           else error_answer (mapError (Some e)), s1)
      | (Inr o', s1) \<Rightarrow> (answer 200 (OrderBody (OrderResponseFromDomain o')), s1)))"

definition HandleCreateEvent ::
    "(string \<Rightarrow> int \<Rightarrow> int \<Rightarrow> string \<Rightarrow> 's \<Rightarrow> (err + event \<times> ticket_type list) \<times> 's) \<Rightarrow> create_event_request option \<Rightarrow> 's \<Rightarrow> response \<times> 's" where
  "HandleCreateEvent createEvent body s = (case bind_CreateEventRequest body of
     None \<Rightarrow> (answer 400 (ErrorResponse ''invalid request body''), s)
   | Some req \<Rightarrow> (case createEvent (ce_Name req) (ce_TotalTickets req) (ce_PriceCents req) (ce_Currency req) s of
        (Inl e, s1) \<Rightarrow> (error_answer (mapError (Some e)), s1)
      | (Inr (e, tts), s1) \<Rightarrow> (answer 201 (EventBody (EventResponseFromDomain e tts)), s1)))"

definition HandleViewEvent :: "string \<Rightarrow> world \<Rightarrow> response \<times> world" where
  "HandleViewEvent rawID w = (answer 200 (ViewEventBody rawID), metric ''page_views_event_detail'' w)"

definition HandleCreatePaymentIntent ::
    "ext \<Rightarrow> (uuid \<Rightarrow> 's \<Rightarrow> (err + payment_intent) \<times> 's) \<Rightarrow> string \<Rightarrow> 's \<Rightarrow> response \<times> 's" where
  "HandleCreatePaymentIntent X createIntent rawID s = (case uuid_Parse X rawID of
     None \<Rightarrow> (answer 400 (ErrorResponse ''invalid order id''), s)
   | Some i \<Rightarrow> (case createIntent i s of
        (Inl e, s1) \<Rightarrow> (error_answer (mapError (Some e)), s1)
      | (Inr intent, s1) \<Rightarrow> (answer 200 (PaymentIntentBody
          \<lparr>pe_OrderID = i, pe_PaymentIntentID = pi_ID intent, pe_ClientSecret = pi_ClientSecret intent,
           pe_AmountCents = pi_AmountCents intent, pe_Currency = pi_Currency intent\<rparr>), s1)))"

section \<open>What the booking endpoint answers\<close>

lemma bind_BookingRequest_Some: "bind_BookingRequest body = Some req \<Longrightarrow> body = Some req \<and> br_UserID req \<ge> 1 \<and>
    br_TicketTypeID req \<noteq> uuid_Nil \<and> 1 \<le> br_Quantity req \<and> br_Quantity req \<le> 10"
  by (auto simp: bind_BookingRequest_def split: option.splits if_splits)

lemma mapError_status: "fst (mapError (Some e)) \<in> {400, 404, 409, 500, 503, 504}"
  by (simp add: mapError_def)

lemma HandleBook_cases:
  assumes run: "HandleBook X book body w = (rs, w')"
  obtains (bad) "bind_BookingRequest body = None" "rs = answer 400 (ErrorResponse ''invalid request body'')" "w' = w"
  | (refused) req e where "bind_BookingRequest body = Some req" "book (br_UserID req) (br_TicketTypeID req) (br_Quantity req) w = (Inl e, w')"
      "rs = error_answer (mapError (Some e))"
  | (accepted) req o' ba where "bind_BookingRequest body = Some req" "book (br_UserID req) (br_TicketTypeID req) (br_Quantity req) w = (Inr o', w')"
      "rs = answer 202 (BookingAcceptedBody ba)" "ba_OrderID ba = id_of o'" "ba_ReservedUntil ba = reservedUntil o'"
      "ba_ExpiresInSeconds ba = expires_in (w_now w') (reservedUntil o')"
  using run by (auto simp: HandleBook_def split: option.splits prod.splits sum.splits)

lemma HandleBook_202:
  assumes run: "HandleBook X (BookTicket X window ttl) body w = (rs, w')" and ok: "rs_Status rs = 202"
  shows "\<exists>req ba. body = Some req \<and> rs_Body rs = BookingAcceptedBody ba \<and>
    took (br_TicketTypeID req) (br_Quantity req) (w_rd w) (w_rd w') \<and> w_pg w' = w_pg w \<and> ba_ReservedUntil ba = w_now w + window"
  using run
proof (cases rule: HandleBook_cases)
  case (refused req e)
  with mapError_status [of e] ok show ?thesis by auto
next
  case (accepted req o' ba)
  with BookTicket_outcome [OF accepted(2)] bind_BookingRequest_Some [OF accepted(1)] show ?thesis by auto
qed (use ok in simp)



end
