(* ===== verification/Server_System.thy ===== *)
theory Server_System
  imports Saga_Consumer Intake_Consumer Payment_Gateway Recon Drift Event_Service Api_Booking
begin

text \<open>
  The server as a whole: its handlers, workers and sweepers over one database, one Redis and one set of topics.
  A step of \<open>server_step\<close> is one whole call of one component, with any pattern of failing calls; a run is any
  sequence of steps, so the components interleave in any order. \<open>follows w v\<close> says what can have happened between
  two worlds of a run: every component keeps it, so every run does.
\<close>

section \<open>What time may do to the system\<close>

text \<open>A later row of the same order: only status, intent and the time of the last change differ, the status along
  the edges of the state machine, and a stored intent stays.\<close>

definition status_step :: "order_status \<Rightarrow> order_status \<Rightarrow> bool" where
  "status_step s s' \<longleftrightarrow> (\<exists>m. edge s m s')"

definition later_row :: "order_row \<Rightarrow> order_row \<Rightarrow> bool" where
  "later_row r r' \<longleftrightarrow> r' = r\<lparr>or_status := or_status r', or_intent := or_intent r', or_updated := or_updated r'\<rparr> \<and>
     status_step\<^sup>*\<^sup>* (or_status r) (or_status r') \<and> (or_intent r \<noteq> None \<longrightarrow> or_intent r' = or_intent r)"

text \<open>The row of a reservation, in whatever status its order is by now; a paid one knows the intent that paid it.\<close>

definition reservation_row :: "order_row \<Rightarrow> bool" where
  "reservation_row r \<longleftrightarrow> valid_reservation ((order_toDomain r)\<lparr>status := AwaitingPayment, paymentIntentID := ''''\<rparr>) \<and>
     (or_status r = Paid \<longrightarrow> or_intent r \<noteq> None)"

abbreviation reservations :: "pg \<Rightarrow> bool" where
  "reservations p \<equiv> list_all reservation_row (pg_orders p)"

text \<open>A later row of the same ticket type: only the number of available tickets differs.\<close>

definition later_type :: "ticket_type_row \<Rightarrow> ticket_type_row \<Rightarrow> bool" where
  "later_type t t' \<longleftrightarrow> t' = t\<lparr>tr_available := tr_available t'\<rparr>"

text \<open>Every row is still there, as a later row.\<close>

definition kept_rows :: "('r \<Rightarrow> 'k) \<Rightarrow> ('r \<Rightarrow> 'r \<Rightarrow> bool) \<Rightarrow> 'r list \<Rightarrow> 'r list \<Rightarrow> bool" where
  "kept_rows key later xs ys \<longleftrightarrow> (\<forall>i r. lookup key i xs = Some r \<longrightarrow> (\<exists>r'. lookup key i ys = Some r' \<and> later r r'))"

definition rows_follow :: "pg \<Rightarrow> pg \<Rightarrow> bool" where
  "rows_follow p p' \<longleftrightarrow> kept_rows or_id later_row (pg_orders p) (pg_orders p') \<and> kept_rows tr_id later_type (pg_types p) (pg_types p') \<and>
     (reservations p \<longrightarrow> reservations p')"

definition follows :: "world \<Rightarrow> world \<Rightarrow> bool" where
  "follows w v \<longleftrightarrow> (sys_ok w \<longrightarrow> sys_ok v \<and> rows_follow (w_pg w) (w_pg v) \<and> (published_ok w \<longrightarrow> published_ok v)) \<and>
     (\<exists>es. w_failed v = w_failed w @ es)"

lemma later_row_refl [simp]: "later_row r r"
  by (simp add: later_row_def)

lemma later_row_trans:
  assumes "later_row r s" and "later_row s t"
  shows "later_row r t"
proof -
  have "t = r\<lparr>or_status := or_status t, or_intent := or_intent t, or_updated := or_updated t\<rparr>"
    using assms by (cases r; cases s; cases t) (simp add: later_row_def)
  then show ?thesis using assms unfolding later_row_def by (metis rtranclp_trans)
qed

lemma later_type_refl [simp]: "later_type t t"
  by (simp add: later_type_def)

lemma later_type_trans: "later_type s t \<Longrightarrow> later_type t u \<Longrightarrow> later_type s u"
  by (cases s; cases t; cases u) (simp add: later_type_def)

lemma kept_rows_refl: "(\<And>r. later r r) \<Longrightarrow> kept_rows key later xs xs"
  by (simp add: kept_rows_def)

lemma kept_rows_trans:
  assumes "\<And>a b c. later a b \<Longrightarrow> later b c \<Longrightarrow> later a c" and "kept_rows key later xs ys" and "kept_rows key later ys zs"
  shows "kept_rows key later xs zs"
  using assms unfolding kept_rows_def by meson

lemma rows_follow_refl [simp]: "rows_follow p p"
  by (simp add: rows_follow_def kept_rows_refl)

lemma rows_follow_trans: "rows_follow p q \<Longrightarrow> rows_follow q r \<Longrightarrow> rows_follow p r"
  unfolding rows_follow_def using kept_rows_trans [where later = later_row] kept_rows_trans [where later = later_type] later_row_trans later_type_trans
  by blast

lemma follows_refl [simp]: "follows w w"
  by (simp add: follows_def)

lemma follows_trans: "follows u v \<Longrightarrow> follows v w \<Longrightarrow> follows u w"
  unfolding follows_def using rows_follow_trans by (auto simp: append_assoc)

section \<open>What each change of the database keeps\<close>

text \<open>Nothing but the clock, the metrics, the bus or Redis has changed.\<close>

lemma follows_clock:
  assumes "w_pg v = (w_pg w)\<lparr>pg_now := t\<rparr>" and "w_failed v = w_failed w"
  shows "follows w v"
  using sys_ok_clock [OF _ assms] assms by (simp add: follows_def published_ok_def rows_follow_def kept_rows_refl)

lemma follows_same: "w_pg v = w_pg w \<Longrightarrow> w_failed v = w_failed w \<Longrightarrow> follows w v"
  by (rule follows_clock [where t = "pg_now (w_pg w)"]) simp_all

text \<open>One order has moved.\<close>

lemma kept_rows_one:
  assumes "lookup key i xs = Some r" and "lookup key i ys = Some r'" and "later r r'" and "\<And>r. later r r"
    and "\<And>j. j \<noteq> i \<Longrightarrow> lookup key j ys = lookup key j xs"
  shows "kept_rows key later xs ys"
  unfolding kept_rows_def
proof (intro allI impI)
  fix j x assume "lookup key j xs = Some x"
  then show "\<exists>x'. lookup key j ys = Some x' \<and> later x x'" using assms by (cases "j = i") auto
qed

lemma reservation_later:
  "later_row r r' \<Longrightarrow> reservation_row r \<Longrightarrow> or_status r' = Paid \<longrightarrow> or_intent r' \<noteq> None \<Longrightarrow> reservation_row r'"
  by (cases r; cases r') (auto simp: later_row_def reservation_row_def order_toDomain_def ReconstructOrder_def valid_reservation_def)

lemma reservations_update:
  assumes "reservations p" and "lookup or_id i (pg_orders p) = Some r" and "later_row r r'"
    and "or_status r' = Paid \<longrightarrow> or_status r = Paid \<or> or_intent r' \<noteq> None" and "pg_orders p' = update_where (\<lambda>x. or_id x = i) (\<lambda>_. r') (pg_orders p)"
  shows "reservations p'"
proof -
  have "reservation_row r" using assms(1) lookup_in_set [OF assms(2)] by (auto simp: list_all_iff)
  moreover from this have "or_status r' = Paid \<longrightarrow> or_intent r' \<noteq> None"
    using assms(3,4) by (cases "or_intent r") (auto simp: reservation_row_def later_row_def)
  ultimately have "reservation_row r'" using assms(3) by (blast intro: reservation_later)
  with assms(1,5) show ?thesis by (auto simp: list_all_iff update_where_def)
qed

lemma moved_rows_follow:
  assumes mv: "moved m i p p'" and paid: "m = MarkPaid \<Longrightarrow> \<exists>r. lookup or_id i (pg_orders p) = Some r \<and> or_intent r \<noteq> None"
  shows "rows_follow p p'"
proof -
  obtain r where r: "lookup or_id i (pg_orders p) = Some r" "mark_guard m (pg_now p) r"
    and p': "pg_orders p' = update_where (\<lambda>x. or_id x = i) (\<lambda>_. r\<lparr>or_status := mark_target m, or_updated := pg_now p\<rparr>) (pg_orders p)"
    using mv by (auto simp: moved_def)
  let ?r' = "r\<lparr>or_status := mark_target m, or_updated := pg_now p\<rparr>"
  have "status_step (or_status r) (mark_target m)" using r(2) by (auto simp: mark_guard_def status_step_def)
  then have l: "later_row r ?r'" by (simp add: later_row_def)
  have "kept_rows or_id later_row (pg_orders p) (pg_orders p')"
    using moved_row [OF mv] r(1) l by (auto intro!: kept_rows_one)
  moreover have "mark_target m = Paid \<Longrightarrow> m = MarkPaid" by (cases m) simp_all
  then have "reservations p \<Longrightarrow> reservations p'"
    by (intro reservations_update [OF _ r(1) l _ p']) (use paid r(1) in auto)
  ultimately show ?thesis using moved_frame [OF mv] by (simp add: rows_follow_def kept_rows_refl)
qed

lemma published_ok_frame:
  "published_ok w \<Longrightarrow> pg_outbox (w_pg v) = pg_outbox (w_pg w) @ es \<Longrightarrow> list_all (\<lambda>e. ob_processedAt e = None) es \<Longrightarrow>
    w_failed v = w_failed w @ fs \<Longrightarrow> published_ok v"
  by (auto simp: published_ok_def list_all_iff list_ex_iff)

lemma follows_moved:
  assumes mv: "moved m i (w_pg w) (w_pg v)" and m: "m \<noteq> MarkCompensated" and f: "w_failed v = w_failed w"
    and paid: "m = MarkPaid \<Longrightarrow> \<exists>r. lookup or_id i (pg_orders (w_pg w)) = Some r \<and> or_intent r \<noteq> None"
  shows "follows w v"
  using moved_sys_ok [OF mv m _ refl f] moved_rows_follow [OF mv paid] moved_frame [OF mv] f published_ok_frame [of w v "[]" "[]"]
  by (auto simp: follows_def)

lemma follows_emitted:
  assumes em: "emitted m i ev (w_pg w) (w_pg v)" and m: "m \<noteq> MarkCompensated" "m \<noteq> MarkPaid" and f: "w_failed v = w_failed w"
    and fa: "sys_ok w \<Longrightarrow> faithful (w_pg w) ev"
  shows "follows w v"
proof -
  obtain p1 e where mv: "moved m i (w_pg w) p1" and ins: "sql_insert_outbox e p1 = Inr (1, w_pg v)" and e: "ob_processedAt e = None"
    using em by (auto simp: emitted_def)
  note fi = insert_outbox_frame [OF ins]
  have "rows_follow p1 (w_pg v)" using fi by (simp add: rows_follow_def kept_rows_refl)
  with moved_rows_follow [OF mv] m(2) have "rows_follow (w_pg w) (w_pg v)" by (blast intro: rows_follow_trans)
  moreover have "published_ok w \<Longrightarrow> published_ok v"
    using published_ok_frame [of w v "[e]" "[]"] fi moved_frame [OF mv] e f by simp
  moreover have "sys_ok w \<Longrightarrow> sys_ok v" using emitted_sys_ok [OF em m(1) _ _ refl f] fa by blast
  ultimately show ?thesis using f by (simp add: follows_def)
qed

lemma follows_failed_by:
  assumes "failed_by m r (w_pg w) (w_pg v)" and "m \<noteq> MarkCompensated" "m \<noteq> MarkPaid" and "w_failed v = w_failed w"
    and "lookup or_id (or_id r) (pg_orders (w_pg w)) = Some r"
  shows "follows w v"
  using assms follows_emitted [of m "or_id r" _ w v] by (auto simp: failed_by_def faithful_def speaks_of_def)

lemma follows_intent_set:
  assumes st: "intent_set i s (w_pg w) (w_pg v)" and f: "w_failed v = w_failed w"
  shows "follows w v"
proof -
  obtain r where r: "lookup or_id i (pg_orders (w_pg w)) = Some r" "or_intent r = None \<or> or_intent r = Some s"
    and p': "pg_orders (w_pg v) = update_where (\<lambda>x. or_id x = i) (\<lambda>_. r\<lparr>or_intent := Some s\<rparr>) (pg_orders (w_pg w))"
    using st by (auto simp: intent_set_def)
  have l: "later_row r (r\<lparr>or_intent := Some s\<rparr>)" using r(2) by (auto simp: later_row_def)
  have "kept_rows or_id later_row (pg_orders (w_pg w)) (pg_orders (w_pg v))"
    using intent_set_row [OF st] r(1) l by (auto intro!: kept_rows_one)
  moreover have "reservations (w_pg w) \<Longrightarrow> reservations (w_pg v)" by (rule reservations_update [OF _ r(1) l _ p']) simp_all
  ultimately show ?thesis
    using intent_set_frame [OF st] intent_set_sys_ok [OF st _ refl f] published_ok_frame [of w v "[]" "[]"] f
    by (simp add: follows_def rows_follow_def kept_rows_refl)
qed

lemma follows_paid_by:
  assumes pd: "paid_by s r (w_pg w) (w_pg v)" and f: "w_failed v = w_failed w" and r: "lookup or_id (or_id r) (pg_orders (w_pg w)) = Some r"
  shows "follows w v"
proof -
  obtain p1 where a: "p1 = w_pg w \<and> or_intent r = Some s \<or> intent_set (or_id r) s (w_pg w) p1" and mv: "moved MarkPaid (or_id r) p1 (w_pg v)"
    using pd by (auto simp: paid_by_def)
  have intent: "\<exists>r'. lookup or_id (or_id r) (pg_orders p1) = Some r' \<and> or_intent r' \<noteq> None" using a r intent_set_row by fastforce
  have "follows w (w\<lparr>w_pg := p1\<rparr>)" using a follows_intent_set [of "or_id r" s w "w\<lparr>w_pg := p1\<rparr>"] follows_refl [of w] by auto
  moreover have "follows (w\<lparr>w_pg := p1\<rparr>) v" by (rule follows_moved [of MarkPaid "or_id r"]) (use mv f intent in simp_all)
  ultimately show ?thesis by (rule follows_trans)
qed

text \<open>A new order, with its tickets taken.\<close>

lemma kept_rows_snoc: "(\<And>r. later r r) \<Longrightarrow> lookup key (key x) xs = None \<Longrightarrow> kept_rows key later xs (xs @ [x])"
  by (auto simp: kept_rows_def lookup_append)

lemma kept_rows_update:
  assumes "\<And>t. key (f t) = key t" and "\<And>t. later t (f t)" and "\<And>t. later t t"
  shows "kept_rows key later xs (update_where P f xs)"
  unfolding kept_rows_def
proof (intro allI impI)
  fix i r assume "lookup key i xs = Some r"
  then show "\<exists>r'. lookup key i (update_where P f xs) = Some r' \<and> later r r'"
    using assms by (induction xs) auto
qed

lemma event_ok_lookup:
  assumes "event_ok p e" and "\<And>i r. lookup or_id i (pg_orders p) = Some r \<Longrightarrow> \<exists>r'. lookup or_id i (pg_orders q) = Some r' \<and> later_row r r'"
  shows "event_ok q e"
proof -
  have "speaks_of ev r' = speaks_of ev r" if "later_row r r'" for ev r r'
    using that by (cases r; cases r') (simp add: later_row_def speaks_of_def)
  then have "faithful q ev" if "faithful p ev" for ev
    using that assms(2) [of "ofe_OrderID ev"] by (auto simp: faithful_def split: option.splits)
  with assms(1) show ?thesis by (elim event_ok_mono [rotated])
qed

lemma events_follow:
  assumes "events_ok w" and "kept_rows or_id later_row (pg_orders (w_pg w)) (pg_orders (w_pg v))"
    and "pg_outbox (w_pg v) = pg_outbox (w_pg w)" and "w_failed v = w_failed w"
  shows "events_ok v"
  using assms event_ok_lookup [of "w_pg w" _ "w_pg v"] by (auto simp: events_ok_def list_all_iff kept_rows_def)

lemma booked_rows_follow:
  assumes bk: "booked tt q o' p p'" and v: "valid_reservation o'"
  shows "rows_follow p p'"
proof -
  note row = booked_row [OF bk]
  obtain n p1 where d: "sql_decrement_type tt q p = Inr (n, p1)" and types: "pg_types p' = pg_types p1"
    using bk by (auto simp: booked_def sql_insert_order_def split: if_splits)
  have "kept_rows or_id later_row (pg_orders p) (pg_orders p')"
    unfolding row(3) by (rule kept_rows_snoc) (use row(2) in simp_all)
  moreover have "kept_rows tr_id later_type (pg_types p) (pg_types p')"
    unfolding types decrement_types [OF d, THEN conjunct2, THEN conjunct2] by (rule kept_rows_update) (simp_all add: later_type_def)
  moreover have "reservation_row (orderRowFromDomain u o')" for u
    using v order_row_roundtrip [of o' u] by (simp add: reservation_row_def valid_reservation_def)
  ultimately show ?thesis by (simp add: rows_follow_def row(3))
qed

lemma booked_outbox: "booked tt q o' p p' \<Longrightarrow> pg_outbox p' = pg_outbox p"
  by (auto simp: booked_def sql_decrement_type_def sql_insert_order_def Let_def split: if_splits)

lemma follows_booked:
  assumes bk: "booked tt q o' (w_pg w) (w_pg v)" and v: "valid_reservation o'" and o': "tt = ticketTypeID o'" "q = quantity o'"
    and f: "w_failed v = w_failed w"
  shows "follows w v"
proof -
  note row = booked_row [OF bk] and rf = booked_rows_follow [OF bk v]
  note out = booked_outbox [OF bk]
  have nn: "tt \<noteq> uuid_Nil" "0 < q" "status o' \<noteq> Compensated" using v o' by (auto simp: valid_reservation_def)
  have "sys_ok v" if ok: "sys_ok w"
  proof -
    have "db_ok (w_pg v)" by (rule booked_db_ok [OF bk _ o'(1) nn(1) o'(2) nn(2,3)]) (use ok in \<open>simp add: sys_ok_def\<close>)
    moreover have "typed (w_pg v)" using ok nn o' by (simp add: sys_ok_def typed_def row(3) orderRowFromDomain_def)
    moreover have "events_ok v" by (rule events_follow [OF _ _ out f]) (use ok rf in \<open>simp_all add: sys_ok_def rows_follow_def\<close>)
    ultimately show ?thesis by (simp add: sys_ok_def)
  qed
  with rf out f published_ok_frame [of w v "[]" "[]"] show ?thesis by (simp add: follows_def)
qed

text \<open>An order compensated, with its tickets given back.\<close>

lemma increment_rows_follow:
  assumes "sql_increment_type tt q p = Inr (k, p1)"
  shows "rows_follow p p1" "pg_orders p1 = pg_orders p" "pg_outbox p1 = pg_outbox p"
proof -
  note it = increment_types [OF assms]
  have "kept_rows tr_id later_type (pg_types p) (pg_types p1)"
    unfolding it [THEN conjunct2, THEN conjunct2, THEN conjunct2] by (rule kept_rows_update) (simp_all add: later_type_def)
  with it show "rows_follow p p1" "pg_orders p1 = pg_orders p" by (simp_all add: rows_follow_def kept_rows_refl)
  show "pg_outbox p1 = pg_outbox p" using assms by (auto simp: sql_increment_type_def Let_def split: if_splits)
qed

lemma compensated_rows_follow:
  assumes c: "compensated tt q i cid p p'"
  shows "rows_follow p p'" "pg_outbox p' = pg_outbox p" "typed p \<Longrightarrow> typed p'"
proof -
  obtain p1 p2 n where inc: "p1 = p \<or> (\<exists>k. sql_increment_type tt q p = Inr (k, p1))"
    and mv: "moved MarkCompensated i p1 p2" and rc: "sql_record_completion cid i p2 = Inr (n, p')"
    using c by (auto simp: compensated_def split: if_splits)
  have one: "pg_orders p1 = pg_orders p" "pg_outbox p1 = pg_outbox p" and f1: "rows_follow p p1"
    using inc increment_rows_follow by auto
  note f1
  moreover have "rows_follow p1 p2" by (rule moved_rows_follow [OF mv]) simp
  moreover have "rows_follow p2 p'" using record_completion_frame [OF rc] by (simp add: rows_follow_def kept_rows_refl)
  ultimately show "rows_follow p p'" by (blast intro: rows_follow_trans)
  show "pg_outbox p' = pg_outbox p" using one moved_frame [OF mv] record_completion_frame [OF rc] by simp
  show "typed p \<Longrightarrow> typed p'" using one moved_typed [OF mv] record_completion_frame [OF rc] by (simp add: typed_def)
qed

lemma follows_compensated:
  assumes c: "compensated (ofe_TicketTypeID ev) (ofe_Quantity ev) (ofe_OrderID ev) cid (w_pg w) (w_pg v)" and f: "w_failed v = w_failed w"
    and fa: "sys_ok w \<Longrightarrow> faithful (w_pg w) ev"
  shows "follows w v"
proof -
  note cf = compensated_rows_follow [OF c]
  have "sys_ok v" if ok: "sys_ok w"
  proof -
    have "db_ok (w_pg v)" using compensated_keeps [OF c refl fa [OF ok]] ok by (simp add: sys_ok_def)
    moreover have "events_ok v" by (rule events_follow [OF _ _ cf(2) f]) (use ok cf(1) in \<open>simp_all add: sys_ok_def rows_follow_def\<close>)
    ultimately show ?thesis using cf(3) ok by (simp add: sys_ok_def)
  qed
  with cf f published_ok_frame [of w v "[]" "[]"] show ?thesis by (simp add: follows_def)
qed

lemma follows_mark_reverted:
  assumes "sql_mark_reverted cid (w_pg w) = Inr (n, w_pg v)" and f: "w_failed v = w_failed w"
  shows "follows w v"
proof -
  note fr = mark_reverted_frame [OF assms(1)]
  have "events_ok v" if "events_ok w" by (rule events_follow [OF that _ _ f]) (use fr in \<open>simp_all add: kept_rows_refl\<close>)
  with fr f published_ok_frame [of w v "[]" "[]"] show ?thesis
    by (auto simp: follows_def sys_ok_def typed_def rows_follow_def kept_rows_refl)
qed

text \<open>A new event with its ticket type.\<close>

lemma follows_event_added:
  assumes ad: "event_added ev row (w_pg w) (w_pg v)" and f: "w_failed v = w_failed w"
    and row: "type_row_ok row" "tr_available row = tr_total row" and fresh: "\<forall>r \<in> set (pg_orders (w_pg w)). or_tt r \<noteq> Some (tr_id row)"
  shows "follows w v"
proof -
  have v: "pg_orders (w_pg v) = pg_orders (w_pg w)" "pg_outbox (w_pg v) = pg_outbox (w_pg w)" "pg_types (w_pg v) = pg_types (w_pg w) @ [row]"
    and new: "lookup tr_id (tr_id row) (pg_types (w_pg w)) = None"
    using ad by (auto simp: event_added_def)
  have "rows_follow (w_pg w) (w_pg v)"
    using v new by (simp add: rows_follow_def kept_rows_refl kept_rows_snoc)
  with event_added_sys_ok [OF ad _ f row fresh] v f published_ok_frame [of w v "[]" "[]"] show ?thesis by (simp add: follows_def)
qed

section \<open>Calls that leave database and topic alone\<close>

definition apart :: "(world \<Rightarrow> 'a \<times> world) \<Rightarrow> bool" where
  "apart f \<longleftrightarrow> (\<forall>w. w_pg (snd (f w)) = w_pg w \<and> w_failed (snd (f w)) = w_failed w)"

lemma apartD: "apart f \<Longrightarrow> f w = (r, v) \<Longrightarrow> w_pg v = w_pg w \<and> w_failed v = w_failed w"
  unfolding apart_def by (metis snd_conv)

lemma apart_follows: "apart f \<Longrightarrow> f w = (r, v) \<Longrightarrow> follows w v"
  by (rule follows_same) (metis apart_def snd_conv)+

lemma apart_redis_call: "apart (redis_call c)"
  unfolding apart_def using redis_call_frame by (metis prod.collapse)

lemma apart_sql_query: "apart (sql_query q)"
  unfolding apart_def using sql_query_frame by (metis prod.collapse)

lemma apart_bind: "apart f \<Longrightarrow> (\<And>a. apart (g a)) \<Longrightarrow> apart (\<lambda>w. case f w of (a, w1) \<Rightarrow> g a w1)"
  by (simp add: apart_def case_prod_beta)

lemma apart_pair: "(\<And>w. w_pg (h w) = w_pg w \<and> w_failed (h w) = w_failed w) \<Longrightarrow> apart (\<lambda>w. (a w, h w))"
  by (simp add: apart_def)

lemma apart_return: "apart (Pair a)" "apart (\<lambda>w. (a, metric m w))" "apart (\<lambda>w. (a, metric m (metric n w)))"
  by (simp_all add: apart_def)

lemma apart_sum: "(\<And>e. apart (f e)) \<Longrightarrow> (\<And>a. apart (g a)) \<Longrightarrow> apart (\<lambda>w. case x of Inl e \<Rightarrow> f e w | Inr a \<Rightarrow> g a w)"
  by (cases x) simp_all

lemma apart_option: "apart f \<Longrightarrow> (\<And>a. apart (g a)) \<Longrightarrow> apart (\<lambda>w. case x of None \<Rightarrow> f w | Some a \<Rightarrow> g a w)"
  by (cases x) simp_all

lemma apart_if: "apart f \<Longrightarrow> apart g \<Longrightarrow> apart (\<lambda>w. if b then f w else g w)"
  by (cases b) simp_all

lemma apart_prod: "(\<And>a b. apart (f a b)) \<Longrightarrow> apart (\<lambda>w. case p of (a, b) \<Rightarrow> f a b w)"
  by (cases p) simp_all

lemma apart_bool: "apart f \<Longrightarrow> apart g \<Longrightarrow> apart (\<lambda>w. case b of True \<Rightarrow> f w | False \<Rightarrow> g w)"
  by (cases b) simp_all

lemma apart_for_each: "(\<And>x. apart (body x)) \<Longrightarrow> apart (for_each body xs)"
proof (induction xs)
  case (Cons x xs)
  show ?case unfolding for_each.simps [abs_def] by (intro apart_bind apart_sum apart_return Cons)
qed (simp add: apart_def)

lemmas apart_steps = apart_redis_call apart_sql_query apart_return apart_bind apart_sum apart_option apart_if apart_bool apart_for_each apart_prod

lemma apart_io: "apart io"
  by (simp add: apart_def frame)

lemma apart_ctx_Err: "apart ctx_Err"
  unfolding ctx_Err_def by (intro apart_steps apart_io)

lemma apart_uuid: "apart uuid_NewV7"
  unfolding apart_def using uuid_NewV7_frame by (metis prod.collapse)

lemma apart_SetMetadata: "apart (SetMetadata_of X ttl tt)"
  unfolding SetMetadata_of_def ticketTypeRepo_GetByID_def SetTicketTypeMetadata_def by (intro apart_steps)

lemma apart_BookTicket: "apart (BookTicket X window ttl user tt qty)"
proof -
  have d: "apart (DeductInventory X i tt user qty t)" for i t unfolding DeductInventory_def by (intro apart_steps)
  have g: "apart (with_repair q m n (DeductInventory X i tt user qty t) (SetMetadata_of X ttl tt))" for q m n i t
    unfolding with_repair_def by (intro apart_steps d apart_SetMetadata)
  show ?thesis
    unfolding apart_def
  proof (intro allI)
    fix w
    obtain u w1 where u: "uuid_NewV7 w = (u, w1)" by (metis surj_pair)
    obtain x w2 where x: "with_repair (\<lambda>e. e = Sentinel ErrTicketTypeRuntimeMetadataMissing) ''redis inventory error'' ''redis inventory error''
        (DeductInventory X (the u) tt user qty (w_now w1 + window)) (SetMetadata_of X ttl tt) w1 = (x, w2)" by (metis surj_pair)
    have "w_pg w1 = w_pg w \<and> w_failed w1 = w_failed w" using uuid_NewV7_frame [OF u] by simp
    moreover have "w_pg w2 = w_pg w1 \<and> w_failed w2 = w_failed w1" by (rule apartD [OF g x])
    ultimately show "w_pg (snd (BookTicket X window ttl user tt qty w)) = w_pg w \<and> w_failed (snd (BookTicket X window ttl user tt qty w)) = w_failed w"
      using u x by (cases u; cases x) (auto simp: BookTicket_def Let_def)
  qed
qed

lemma apart_HandleBook: "(\<And>u t q. apart (book u t q)) \<Longrightarrow> apart (HandleBook X book body)"
  unfolding HandleBook_def by (intro apart_steps apart_pair) simp_all

lemma apart_checkTicketType: "apart (checkTicketType X ttl cfg t)"
proof -
  have g: "apart (GetInventory i)" for i unfolding GetInventory_def by (intro apart_steps)
  have m: "apart (SetTicketTypeMetadata X ttl t)" unfolding SetTicketTypeMetadata_def by (intro apart_steps)
  have a: "w_pg (autoRehydrate X ttl t w) = w_pg w \<and> w_failed (autoRehydrate X ttl t w) = w_failed w" for w
  proof -
    obtain r v where "SetTicketTypeMetadata X ttl t w = (r, v)" by (metis surj_pair)
    with apartD [OF m this] show ?thesis by (cases r) (simp_all add: autoRehydrate_def)
  qed
  show ?thesis unfolding checkTicketType_def Let_def
    by (intro apart_steps apart_pair g) (simp_all add: a)
qed

lemma apart_Drift_Sweep: "apart (Drift_Sweep X ttl cfg)"
proof -
  have ts: "apart (check_types X ttl cfg ts worst)" for ts worst
  proof (induction ts arbitrary: worst)
    case (Cons t ts)
    show ?case unfolding check_types.simps [abs_def] by (intro apart_bind apart_checkTicketType Cons)
  qed (simp add: apart_def)
  have one: "apart (checkOne X ttl cfg e)" for e
    unfolding checkOne_def ticketTypeRepo_ListByEventID_def by (intro apart_steps ts)
  have es: "apart (check_events X ttl cfg es d s)" for es d s
  proof (induction es arbitrary: d s)
    case (Cons e es)
    show ?case unfolding check_events.simps [abs_def] by (intro apart_steps apart_ctx_Err one Cons)
  qed (simp add: apart_def)
  show ?thesis unfolding Drift_Sweep_def eventRepo_ListAvailable_def by (intro apart_steps es)
qed

lemma apart_RehydrateInventory: "apart (RehydrateInventory X ttl other)"
proof -
  have t: "apart (rehydrate_type X ttl t)" for t unfolding rehydrate_type_def by (intro apart_steps)
  have e: "apart (rehydrate_event X ttl e)" for e
    unfolding rehydrate_event_def ticketTypeRepo_ListByEventID_def by (intro apart_steps t)
  define body where "body = (\<lambda>w. case eventRepo_ListAvailable w of
       (Inl e, w2) \<Rightarrow> (Inl (Wrap ''inventoryRehydrate list events'' e), w2) | (Inr es, w2) \<Rightarrow> for_each (rehydrate_event X ttl) es w2)"
  have loop: "apart body"
    unfolding body_def eventRepo_ListAvailable_def by (intro apart_steps e)
  show ?thesis unfolding apart_def
  proof (intro allI)
    fix w
    obtain r c w1 where l: "pgAdvisoryLock_TryLock other False w = (r, c, w1)" by (metis prod_cases3)
    obtain x w2 where b: "body w1 = (x, w2)" by (cases "body w1")
    obtain y d w3 where u: "pgAdvisoryLock_Unlock c w2 = (y, d, w3)" by (metis prod_cases3)
    have "w_pg w1 = w_pg w \<and> w_failed w1 = w_failed w" using l
      by (auto simp: pgAdvisoryLock_TryLock_def split: if_splits prod.splits fault.splits sum.splits dest!: io_pair sql_query_frame)
    moreover have "w_pg w2 = w_pg w1 \<and> w_failed w2 = w_failed w1" by (rule apartD [OF loop b])
    moreover have "w_pg w3 = w_pg w2 \<and> w_failed w3 = w_failed w2" using u
      by (auto simp: pgAdvisoryLock_Unlock_def split: if_splits prod.splits dest!: sql_query_frame)
    ultimately show "w_pg (snd (RehydrateInventory X ttl other w)) = w_pg w \<and> w_failed (snd (RehydrateInventory X ttl other w)) = w_failed w"
      using l b u by (cases r) (auto simp: RehydrateInventory_def body_def split: bool.splits)
  qed
qed

section \<open>The components follow\<close>

text \<open>The worker.\<close>

lemma Process_failed: "Process X msg w = (r, w') \<Longrightarrow> w_failed w' = w_failed w"
proof -
  assume run: "Process X msg w = (r, w')"
  have D: "ticketTypeRepo_DecrementTicket tt q v = (x, v') \<Longrightarrow> w_failed v' = w_failed v" for tt q v x v'
    by (auto simp: ticketTypeRepo_DecrementTicket_def split: prod.splits sum.splits if_splits dest!: sql_exec_frame)
  have C: "orderRepo_Create o' v = (x, v') \<Longrightarrow> w_failed v' = w_failed v" for o' v x v'
    by (auto simp: orderRepo_Create_def Let_def split: prod.splits sum.splits if_splits dest!: sql_exec_frame)
  have T: "process_tx msg o' v = (x, v') \<Longrightarrow> w_failed v' = w_failed v" for o' v x v'
    by (auto simp: process_tx_def split: prod.splits sum.splits dest!: D C)
  have U: "uow_Do (process_tx msg o') v = (x, v') \<Longrightarrow> w_failed v' = w_failed v" for o' v x v'
    by (erule uow_Do_projection [where f = w_failed]) (auto simp: frame dest: T)
  from run show ?thesis
    by (auto simp: Process_def split: sum.splits prod.splits dest!: U NewOrderLifecycleEvent_frame)
qed

lemma worker_handler_follows:
  assumes run: "worker_handler X msg w = (r, w')"
  shows "follows w w'"
proof -
  obtain w1 where p: "Process X msg w = (r, w1)" by (rule Process_metered_eq [OF run])
  have f: "w_failed w' = w_failed w" using Process_failed [OF p] run p by (auto simp: Process_metered_def)
  from worker_handler_outcome [OF run] consider "w_pg w' = w_pg w" | o' where "msg_order X (w_now w) msg = Inr o'"
      "booked (qm_TicketTypeID msg) (qm_Quantity msg) o' (w_pg w) (w_pg w')" by blast
  then show ?thesis
  proof cases
    case 1
    with f show ?thesis by (intro follows_same)
  next
    case 2
    with msg_order_Inr [OF 2(1)] f show ?thesis by (intro follows_booked [OF 2(2)]) auto
  qed
qed

lemma sleepCtx_follows: "sleepCtx d w = (b, w') \<Longrightarrow> follows w w'"
  by (drule sleepCtx_frame) (auto intro: follows_clock)

lemma apart_RevertInventory: "apart (RevertInventory tt n c)"
  unfolding apart_def using RevertInventory_frame by (metis prod.collapse)

lemma apart_moveToDLQ: "apart (moveToDLQ m e)"
  unfolding apart_def
proof (intro allI)
  fix w :: world
  let ?c = "\<lambda>r. ((), r\<lparr>rd_dlq := rd_dlq r @ [\<lparr>dl_original = xm_ID m, dl_error = e, dl_failedAt = w_now w, dl_values = xm_Values m\<rparr>]\<rparr>)"
  obtain x v where c: "redis_call ?c w = (x, v)" by (cases "redis_call ?c w")
  with redis_call_frame [OF c] show "w_pg (snd (moveToDLQ m e w)) = w_pg w \<and> w_failed (snd (moveToDLQ m e w)) = w_failed w"
    by (auto simp: moveToDLQ_def split: sum.splits)
qed

lemma ackOrLog_follows: "follows w (ackOrLog mid w)"
proof -
  obtain x v where c: "redis_call (\<lambda>r. ((), redis_XACK mid r)) w = (x, v)" by (cases "redis_call (\<lambda>r. ((), redis_XACK mid r)) w")
  with redis_call_frame [OF c] show ?thesis by (intro follows_same) (auto simp: ackOrLog_def split: sum.splits)
qed

lemma apart_handleFailure: "apart (handleFailure om m e)"
  unfolding handleFailure_def by (intro apart_steps apart_pair apart_RevertInventory apart_moveToDLQ)

lemma apart_handleParseFailure: "apart (handleParseFailure X m e)"
  unfolding handleParseFailure_def by (intro apart_steps apart_pair apart_RevertInventory apart_moveToDLQ)

lemma metric_follows: "follows w (metric m w)"
  by (rule follows_same) simp_all

lemma handle_message_follows:
  assumes run: "handle_message X cfg policy (worker_handler X) m w = (b, w')"
  shows "follows w w'"
proof -
  have acked: "follows w v \<Longrightarrow> follows w (ackOrLog i v)" "follows w v \<Longrightarrow> follows w (ackOrLog i (metric n v))" for v i n
    by (blast intro: follows_trans ackOrLog_follows metric_follows)+
  show ?thesis
  proof (cases "parseMessage X m")
    case (Inl e)
    obtain x v where v: "handleParseFailure X m e w = (x, v)" by (cases "handleParseFailure X m e w")
    from run Inl v acked apart_follows [OF apart_handleParseFailure v] show ?thesis
      by (auto simp: handle_message_def split: option.splits)
  next
    case (Inr om)
    obtain o1 b1 w1 where p: "processWithRetry cfg policy (worker_handler X) om w = ((o1, b1), w1)" by (metis surj_pair)
    have f1: "follows w w1"
      by (rule retry_invariant [where I = "follows w", OF p [unfolded processWithRetry_def]])
        (auto intro: follows_trans worker_handler_follows sleepCtx_follows)
    have f2: "follows w w2" if "handleFailure om m e w1 = (x, w2)" for e x w2
      by (rule follows_trans [OF f1 apart_follows [OF apart_handleFailure that]])
    from run Inr p acked f1 f2 show ?thesis
      by (auto simp: handle_message_def split: option.splits if_splits prod.splits bool.splits)
  qed
qed

text \<open>The compensator, by an event of the topic, and the watchdog.\<close>

lemma HandleOrderFailed_follows:
  assumes run: "HandleOrderFailed X (OrderFailedJSON ev) w = (r, w')" and fa: "sys_ok w \<Longrightarrow> faithful (w_pg w) ev"
    and nn: "ofe_TicketTypeID ev \<noteq> uuid_Nil"
  shows "follows w w'"
proof -
  let ?cid = "compensationID_of X (ofe_OrderID ev)"
  from HandleOrderFailed_outcome [OF run nn] obtain p where
    p: "p = w_pg w \<or> compensated (ofe_TicketTypeID ev) (ofe_Quantity ev) (ofe_OrderID ev) ?cid (w_pg w) p"
    and p': "w_pg w' = p \<or> (\<exists>n. sql_mark_reverted ?cid p = Inr (n, w_pg w'))" and f: "w_failed w' = w_failed w" by metis
  let ?v = "w\<lparr>w_pg := p\<rparr>"
  have "follows w ?v"
    using p follows_same [of ?v w] follows_compensated [of ev ?cid w ?v] fa by auto
  moreover have "follows ?v w'"
    using p' follows_same [of w' ?v] follows_mark_reverted [of ?cid ?v _ w'] f by auto
  ultimately show ?thesis by (rule follows_trans)
qed

lemma deliver_follows:
  assumes run: "HandleOrderFailed X (ob_payload e) w = (r, w')" and e: "e \<in> set (w_failed w)" and ok: "sys_ok w"
  shows "follows w w'"
proof (cases "ob_payload e")
  case (Malformed t)
  with run show ?thesis by (intro follows_same) (auto simp: HandleOrderFailed_def)
next
  case (OrderFailedJSON ev)
  have "event_ok (w_pg w) e" using ok e by (simp add: sys_ok_def events_ok_def list_all_iff)
  then have f: "faithful (w_pg w) ev" using OrderFailedJSON by (simp add: event_ok_def)
  then have "ofe_TicketTypeID ev \<noteq> uuid_Nil" by (auto simp: faithful_def speaks_of_def split: option.splits)
  with HandleOrderFailed_follows [OF run [unfolded OrderFailedJSON]] f show ?thesis by blast
qed

lemma follows_step: "follows w v \<Longrightarrow> w_pg u = w_pg v \<Longrightarrow> w_failed u = w_failed v \<Longrightarrow> follows w u"
  by (blast intro: follows_trans follows_same)

lemma GetByID_follows: "orderRepo_GetByID i w = (r, v) \<Longrightarrow> follows w v"
  by (drule GetByID_frame) (auto intro: follows_same)

lemma Watchdog_resolve_follows:
  assumes ok: "sys_ok w"
  shows "follows w (Watchdog_resolve X cfg s w)"
proof -
  obtain i age where s: "s = (i, age)" by (cases s)
  obtain x w1 where g: "orderRepo_GetByID i w = (x, w1)" by (metis surj_pair)
  note f1 = GetByID_frame [OF g]
  show ?thesis
  proof (cases "\<exists>o'. x = Inr o' \<and> status o' \<noteq> Compensated \<and> \<not> age > sc_MaxFailedAge cfg")
    case False
    with s g f1 show ?thesis by (cases x) (auto simp: Watchdog_resolve_def intro!: follows_same)
  next
    case True
    then obtain o' where o': "x = Inr o'" "status o' \<noteq> Compensated" "\<not> age > sc_MaxFailedAge cfg" by blast
    obtain r where r: "lookup or_id i (pg_orders (w_pg w)) = Some r" "o' = order_toDomain r" using GetByID_result g o' by blast
    let ?ev = "NewOrderFailedEventFromOrder (w_now w1) (order_toDomain r) ''saga_watchdog: re-driven from stuck Failed state''"
    have sp: "speaks_of ?ev r" "or_id r = i" using event_of_row [of "w_pg w" i r] ok r(1) by (auto simp: sys_ok_def)
    then have fa: "faithful (w_pg w1) ?ev" "ofe_TicketTypeID ?ev \<noteq> uuid_Nil" using r f1 by (auto simp: faithful_def speaks_of_def)
    obtain y w2 where h: "HandleOrderFailed X (OrderFailedJSON ?ev) w1 = (y, w2)" by (metis surj_pair)
    have "follows w w2" by (rule follows_trans [OF GetByID_follows [OF g] HandleOrderFailed_follows [OF h fa]])
    then show ?thesis using s g o' r h by (cases y) (auto simp: Watchdog_resolve_def elim: follows_step)
  qed
qed

text \<open>A sweep: the context is checked before each element.\<close>

lemma follows_sys_ok: "follows w v \<Longrightarrow> sys_ok w \<Longrightarrow> sys_ok v"
  by (simp add: follows_def)

lemma sweep_follows:
  assumes run: "for_each (\<lambda>s v. case ctx_Err v of (True, v1) \<Rightarrow> (Inl (Sentinel ContextCanceled), v1) | (False, v1) \<Rightarrow> (Inr (), resolve s v1)) xs w = (r, w')"
    and ok: "sys_ok w" and one: "\<And>s v. sys_ok v \<Longrightarrow> follows v (resolve s v)"
  shows "follows w w'"
proof (rule for_each_invariant [where I = "follows w", OF run])
  fix s v r v'
  assume I: "follows w v" and b: "(case ctx_Err v of (True, v1) \<Rightarrow> (Inl (Sentinel ContextCanceled), v1) | (False, v1) \<Rightarrow> (Inr (), resolve s v1)) = (r, v')"
  obtain c v1 where c: "ctx_Err v = (c, v1)" by (metis surj_pair)
  have f1: "follows w v1" by (rule follows_trans [OF I apart_follows [OF apart_ctx_Err c]])
  have "follows w (resolve s v1)" by (rule follows_trans [OF f1 one [OF follows_sys_ok [OF f1 ok]]])
  with b c f1 show "follows w v'" by (cases c) auto
qed simp

lemma Watchdog_follows:
  assumes run: "Watchdog_Sweep X cfg w = (r, w')" and ok: "sys_ok w"
  shows "follows w w'"
proof -
  obtain x w1 where f: "orderRepo_FindStuckFailed (sc_StuckThreshold cfg) (sc_BatchSize cfg) w = (x, w1)" by (metis surj_pair)
  have "follows w w1" using f by (intro follows_same)
      (auto simp: orderRepo_FindStuckFailed_def split: prod.splits sum.splits dest!: sql_query_frame)
  with run f show ?thesis
    by (cases x) (auto simp: Watchdog_Sweep_def elim: follows_step intro: follows_trans sweep_follows [OF _ follows_sys_ok [OF _ ok] Watchdog_resolve_follows])
qed

text \<open>The expiry sweeper.\<close>

lemma Sweeper_resolve_follows:
  assumes ok: "sys_ok w"
  shows "follows w (Sweeper_resolve X cfg s w)"
proof -
  obtain i age where s: "s = (i, age)" by (cases s)
  note out = Sweeper_resolve_outcome [OF refl, of X cfg i age w]
  then consider "w_pg (Sweeper_resolve X cfg (i, age) w) = w_pg w" | r now reason where "lookup or_id i (pg_orders (w_pg w)) = Some r"
      "emitted MarkExpired i (NewOrderFailedEventFromOrder now (order_toDomain r) reason) (w_pg w) (w_pg (Sweeper_resolve X cfg (i, age) w))" by blast
  then show ?thesis
  proof cases
    case 1
    with out s show ?thesis by (intro follows_same) auto
  next
    case 2
    have "speaks_of (NewOrderFailedEventFromOrder now (order_toDomain r) reason) r" "or_id r = i"
      using event_of_row [of "w_pg w" i r] ok 2(1) by (auto simp: sys_ok_def)
    with 2(1) have "faithful (w_pg w) (NewOrderFailedEventFromOrder now (order_toDomain r) reason)" by (auto simp: faithful_def speaks_of_def)
    with out show ?thesis unfolding s by (intro follows_emitted [OF 2(2)]) auto
  qed
qed

lemma Sweeper_follows:
  assumes run: "Sweeper_Sweep X cfg w = (r, w')" and ok: "sys_ok w"
  shows "follows w w'"
proof -
  obtain x w1 where f: "orderRepo_FindExpiredReservations (ec_ExpiryGracePeriod cfg) (ec_BatchSize cfg) w = (x, w1)" by (metis surj_pair)
  have f1: "follows w w1" using f by (intro follows_same)
      (auto simp: orderRepo_FindExpiredReservations_def split: prod.splits sum.splits dest!: sql_query_frame)
  show ?thesis
  proof (cases x)
    case (Inl e)
    with run f f1 show ?thesis by (auto simp: Sweeper_Sweep_def elim: follows_step)
  next
    case (Inr expired)
    let ?body = "\<lambda>s v. case ctx_Err v of (True, v1) \<Rightarrow> (Inl (Sentinel ContextCanceled), v1)
           | (False, v1) \<Rightarrow> (Inr (), Sweeper_resolve X cfg s v1)"
    obtain y w2 where l: "for_each ?body expired w1 = (y, w2)" by (cases "for_each ?body expired w1")
    have f2: "follows w w2" by (rule follows_trans [OF f1 sweep_follows [OF l follows_sys_ok [OF f1 ok] Sweeper_resolve_follows]])
    obtain z w3 where n: "orderRepo_CountOverdueAfterCutoff (ec_ExpiryGracePeriod cfg) w2 = (z, w3)" by (metis surj_pair)
    have f3: "follows w w3" using n by (intro follows_step [OF f2])
        (auto simp: orderRepo_CountOverdueAfterCutoff_def split: prod.splits sum.splits dest!: sql_query_frame)
    have "w' = (case y of Inl e \<Rightarrow> w2 | Inr _ \<Rightarrow> (case z of Inl e \<Rightarrow> metric ''find_expired_error'' w3 | Inr _ \<Rightarrow> w3))"
      using run unfolding Sweeper_Sweep_def f Inr prod.case sum.case l n by (auto split: sum.splits)
    then have "w' = w2 \<or> w' = w3 \<or> w' = metric ''find_expired_error'' w3" by (cases y; cases z) simp_all
    with f2 f3 show ?thesis by (auto elim: follows_step)
  qed
qed

text \<open>The reconciler, with any reader that keeps its contract.\<close>

lemma recon_failed_follows:
  assumes ok: "sys_ok w"
  shows "follows w (recon_failed i reason outcome w)"
proof -
  have out: "w_failed (recon_failed i reason outcome w) = w_failed w" and
    "w_pg (recon_failed i reason outcome w) = w_pg w \<or> (\<exists>r. lookup or_id i (pg_orders (w_pg w)) = Some r \<and> failed_by MarkFailed r (w_pg w) (w_pg (recon_failed i reason outcome w)))"
    using recon_failed_outcome [OF refl, of w i reason outcome] ok by (auto simp: sys_ok_def)
  then consider "w_pg (recon_failed i reason outcome w) = w_pg w" | r where "lookup or_id i (pg_orders (w_pg w)) = Some r"
      "failed_by MarkFailed r (w_pg w) (w_pg (recon_failed i reason outcome w))" by blast
  then show ?thesis
  proof cases
    case 1
    with out show ?thesis by (intro follows_same)
  next
    case 2
    with lookup_in_set [OF 2(1)] out show ?thesis by (intro follows_failed_by [OF 2(2)]) auto
  qed
qed

context payment_status_reader
begin

lemma Recon_resolve_follows:
  assumes ok: "sys_ok w"
  shows "follows w (Recon_resolve X reader cfg s w)"
proof -
  obtain i age intent where s: "s = (i, age, intent)" by (cases s)
  obtain x w1 where g: "reader (rc_GatewayTimeout cfg) intent w = (x, w1)" by (metis surj_pair)
  have f1: "follows w w1" using leaves [OF g] by (blast intro: follows_clock)
  have m: "follows w w2" if "orderRepo_mark MarkConfirmed i w1 = (y, w2)" for y w2
  proof -
    from orderRepo_mark_outcome [OF that] have "w_failed w2 = w_failed w1 \<and> (w_pg w2 = w_pg w1 \<or> moved MarkConfirmed i (w_pg w1) (w_pg w2))" by auto
    then have "follows w1 w2" by (auto intro: follows_same follows_moved)
    with f1 show ?thesis by (rule follows_trans)
  qed
  have fail: "follows w (recon_failed i reason outcome w1)" "follows w (recon_failed i reason outcome w)" for reason outcome
    using recon_failed_follows follows_trans [OF f1 recon_failed_follows [OF follows_sys_ok [OF f1 ok]]] ok by auto
  obtain y w2 where mk: "orderRepo_mark MarkConfirmed i w1 = (y, w2)" by (metis surj_pair)
  have settled: "follows w (case y of Inl e \<Rightarrow> recon_handleMarkErr e w2 | Inr _ \<Rightarrow> metric ''recon_resolved_charged'' w2)"
    by (rule follows_step [OF m [OF mk]]) (simp_all add: recon_handleMarkErr_def split: sum.splits)
  show ?thesis
  proof (cases x)
    case (Inl e)
    with g s f1 fail show ?thesis by (auto simp: Recon_resolve_def elim: follows_step intro: metric_follows)
  next
    case (Inr st)
    with g s f1 fail mk settled show ?thesis by (cases st) (auto simp: Recon_resolve_def elim: follows_step intro: metric_follows)
  qed
qed

lemma Recon_follows:
  assumes run: "Recon_Sweep X reader cfg w = (r, w')" and ok: "sys_ok w"
  shows "follows w w'"
proof -
  obtain x w1 where f: "orderRepo_FindStuckCharging (rc_ChargingThreshold cfg) (rc_BatchSize cfg) w = (x, w1)" by (metis surj_pair)
  have f1: "follows w w1" using f by (intro follows_same)
      (auto simp: orderRepo_FindStuckCharging_def split: prod.splits sum.splits dest!: sql_query_frame)
  have f2: "follows w (metric m w1)" for m by (rule follows_trans [OF f1 metric_follows])
  show ?thesis
  proof (cases x)
    case (Inl e)
    with run f f2 show ?thesis by (auto simp: Recon_Sweep_def)
  next
    case (Inr stuck)
    have "for_each (\<lambda>s v. case ctx_Err v of (True, v1) \<Rightarrow> (Inl (Sentinel ContextCanceled), v1)
           | (False, v1) \<Rightarrow> (Inr (), Recon_resolve X reader cfg s v1)) stuck (metric (''recon_stuck_charging_'' @ show_nat (length stuck)) w1) = (r, w')"
      using run unfolding Recon_Sweep_def f Inr prod.case sum.case .
    from sweep_follows [OF this follows_sys_ok [OF f2 ok] Recon_resolve_follows] f2 show ?thesis by (blast intro: follows_trans)
  qed
qed

end

text \<open>The webhook, the payment endpoint and the event service.\<close>

lemma HandleWebhook_follows:
  assumes run: "HandleWebhook X live env w = (r, w')" and ok: "sys_ok w"
  shows "follows w w'"
proof -
  note out = HandleWebhook_outcome [OF run ok]
  show ?thesis
  proof (cases "w_pg w' = w_pg w")
    case True
    with out show ?thesis by (intro follows_same) auto
  next
    case False
    with out obtain o' where e: "webhook_effect X env o' (w_pg w) (w_pg w')" by auto
    with out show ?thesis
      by (auto simp: webhook_effect_def intro: follows_paid_by follows_failed_by [of MarkExpired] follows_failed_by [of MarkPaymentFailed])
  qed
qed

lemma HandlePayment_follows:
  assumes run: "HandlePayment X validate parse secret tolerance live body header w = (r, w')" and ok: "sys_ok w"
  shows "follows w w'"
  using run HandleWebhook_follows [OF _ ok, of X live]
  by (auto simp: HandlePayment_def Let_def intro!: follows_same split: option.splits if_splits prod.splits sum.splits)

lemma SetPaymentIntentID_follows:
  assumes "orderRepo_SetPaymentIntentID i s w = (r, w')"
  shows "follows w w'"
  using SetPaymentIntentID_outcome [OF assms] by (auto intro: follows_same follows_intent_set)

context payment_gateway
begin

lemma CreatePaymentIntent_follows:
  assumes run: "CreatePaymentIntent X create i (g, w) = (r, g', w')"
  shows "follows w w'"
proof -
  obtain x w1 where get: "orderRepo_GetByID i w = (x, w1)" by (metis surj_pair)
  have f1: "follows w w1" by (rule GetByID_follows [OF get])
  show ?thesis
  proof (cases x)
    case (Inl e)
    with run get f1 show ?thesis by (auto simp: CreatePaymentIntent_def split: if_splits)
  next
    case (Inr o')
    obtain y g2 w2 where gw: "create i (amountCents o') (currency o') (Some [''order_id'' \<mapsto> uuid_String X i]) (g, w1) = (y, g2, w2)" by (metis surj_pair)
    have "follows w1 w2" using leaves_rest [OF gw] by (blast intro: follows_clock)
    with f1 have f2: "follows w w2" by (rule follows_trans)
    have f3: "follows w w3" if "orderRepo_SetPaymentIntentID i s w2 = (z, w3)" for s z w3
      by (rule follows_trans [OF f2 SetPaymentIntentID_follows [OF that]])
    show ?thesis using run get Inr gw f1 f2 f3
      by (cases y) (auto simp: CreatePaymentIntent_def split: if_splits sum.splits prod.splits)
  qed
qed

end

lemma CreateEvent_follows:
  assumes run: "CreateEvent X ttl name totalTickets priceCents cur w = (r, w')"
    and fresh: "\<forall>u r. Some u \<in> set (w_uuids w) \<longrightarrow> r \<in> set (pg_orders (w_pg w)) \<longrightarrow> or_tt r \<noteq> Some u"
  shows "follows w w'"
proof -
  note out = CreateEvent_outcome [OF run]
  show ?thesis
  proof (cases "w_pg w' = w_pg w")
    case True
    with out show ?thesis by (intro follows_same) auto
  next
    case False
    with out obtain ev row where ad: "event_added ev row (w_pg w) (w_pg w')" and row: "Some (tr_id row) \<in> set (w_uuids w)"
      "0 < totalTickets" "tr_total row = totalTickets" "tr_available row = totalTickets" by blast
    show ?thesis by (rule follows_event_added [OF ad]) (use out row fresh in \<open>auto simp: type_row_ok_def\<close>)
  qed
qed

text \<open>The relay.\<close>

interpretation relay_follows: relay_invariant "follows w0" "\<lambda>w e. sys_ok w0 \<longrightarrow> event_ok (w_pg w) e" for w0
proof
  fix w w' :: world and e x :: outbox_event and i
  let ?mark = "\<lambda>i. (w_pg w)\<lparr>pg_outbox := update_where (\<lambda>x. ob_id x = i)
       (\<lambda>x. x\<lparr>ob_processedAt := Some (pg_now (w_pg w))\<rparr>) (pg_outbox (w_pg w))\<rparr>"
  show "follows w0 w'" if "w_pg w' = w_pg w" "w_failed w' = w_failed w" "follows w0 w" using that by (blast intro: follows_step)
  show "sys_ok w0 \<longrightarrow> event_ok (w_pg w') e" if "w_pg w' = w_pg w" "sys_ok w0 \<longrightarrow> event_ok (w_pg w) e" using that by simp
  show "follows w0 w'" if "follows w0 w" "sys_ok w0 \<longrightarrow> event_ok (w_pg w) e" "w_pg w' = w_pg w" "w_failed w' = w_failed w @ [e]"
    using that relay_sys.published relay_published.published by (auto simp: follows_def)
  show "follows w0 w'" if "follows w0 w" "e \<in> set (w_failed w)" "w_failed w' = w_failed w" "w_pg w' = ?mark (ob_id e)"
    using that relay_sys.marked relay_published.marked by (auto simp: follows_def rows_follow_def)
  show "sys_ok w0 \<longrightarrow> event_ok (w_pg w') x" if "sys_ok w0 \<longrightarrow> event_ok (w_pg w) x" "w_pg w' = ?mark i"
    using that relay_sys.marked_P [of w x w' i] by blast
  show "sys_ok w0 \<longrightarrow> event_ok (w_pg w) e" if "follows w0 w" "e \<in> set (pg_outbox (w_pg w))"
    using that relay_sys.listed [of w e] by (auto simp: follows_def)
qed

section \<open>The running server\<close>

text \<open>One step is one whole call of one component: a booking, payment or webhook request, one stream message, one life of
  the relay, one delivery of a failed-order event, one sweep, one new event. In between anything outside the process may
  change: the clocks, Redis (evictions, a flush), the pattern of failing calls, the ids to come. An event is created
  with ids that no order knows.\<close>

inductive server_step :: "ext \<Rightarrow> 'g gateway \<Rightarrow> status_reader \<Rightarrow> 'g \<times> world \<Rightarrow> 'g \<times> world \<Rightarrow> bool" for X create reader where
  environment: "w_pg w' = (w_pg w)\<lparr>pg_now := t\<rparr> \<Longrightarrow> w_failed w' = w_failed w \<Longrightarrow> server_step X create reader (g, w) (g, w')"
| book: "HandleBook X (BookTicket X window ttl) body w = (resp, w') \<Longrightarrow> server_step X create reader (g, w) (g, w')"
| pay: "CreatePaymentIntent X create i (g, w) = (intent, g', w') \<Longrightarrow> server_step X create reader (g, w) (g', w')"
| webhook: "HandlePayment X validate parse secret tolerance live body header w = (code, w') \<Longrightarrow> server_step X create reader (g, w) (g, w')"
| worker: "handle_message X cfg policy (worker_handler X) m w = (acked, w') \<Longrightarrow> server_step X create reader (g, w) (g, w')"
| relay: "relay_run n ticks wasLeader conn w = (c, w') \<Longrightarrow> server_step X create reader (g, w) (g, w')"
| compensate: "e \<in> set (w_failed w) \<Longrightarrow> HandleOrderFailed X (ob_payload e) w = (res, w') \<Longrightarrow> server_step X create reader (g, w) (g, w')"
| watch: "Watchdog_Sweep X sc w = (res, w') \<Longrightarrow> server_step X create reader (g, w) (g, w')"
| expire: "Sweeper_Sweep X ec w = (res, w') \<Longrightarrow> server_step X create reader (g, w) (g, w')"
| reconcile: "Recon_Sweep X reader rc w = (res, w') \<Longrightarrow> server_step X create reader (g, w) (g, w')"
| drift: "Drift_Sweep X ttl dc w = (res, w') \<Longrightarrow> server_step X create reader (g, w) (g, w')"
| rehydrate: "RehydrateInventory X ttl other w = (res, w') \<Longrightarrow> server_step X create reader (g, w) (g, w')"
| create_event: "CreateEvent X ttl name totalTickets priceCents cur w = (res, w') \<Longrightarrow>
    \<forall>u r. Some u \<in> set (w_uuids w) \<longrightarrow> r \<in> set (pg_orders (w_pg w)) \<longrightarrow> or_tt r \<noteq> Some u \<Longrightarrow> server_step X create reader (g, w) (g, w')"

abbreviation server_run :: "ext \<Rightarrow> 'g gateway \<Rightarrow> status_reader \<Rightarrow> 'g \<times> world \<Rightarrow> 'g \<times> world \<Rightarrow> bool" where
  "server_run X create reader \<equiv> (server_step X create reader)\<^sup>*\<^sup>*"

text \<open>The contracts of the two gateway ports are all that the components assume together.\<close>

locale server_ports = payment_gateway norm create issued + payment_status_reader reader verdict
  for norm :: "string \<Rightarrow> string" and create :: "'g gateway" and issued :: "'g \<Rightarrow> uuid \<Rightarrow> string option"
    and reader :: status_reader and verdict :: "string \<Rightarrow> charge_status"
begin

lemma step_follows:
  assumes "server_step X create reader (g, w) (g', w')" and ok: "sys_ok w"
  shows "follows w w'"
  using assms(1)
proof (cases rule: server_step.cases)
  case environment
  then show ?thesis by (auto intro: follows_clock)
next
  case book
  then show ?thesis by (auto intro: apart_follows [OF apart_HandleBook [OF apart_BookTicket]])
next
  case pay
  then show ?thesis by (auto intro: CreatePaymentIntent_follows)
next
  case webhook
  with ok show ?thesis by (auto intro: HandlePayment_follows)
next
  case worker
  then show ?thesis by (auto intro: handle_message_follows)
next
  case relay
  with ok show ?thesis by (auto intro: relay_follows.relay_run_keeps)
next
  case compensate
  with ok show ?thesis by (auto intro: deliver_follows)
next
  case watch
  with ok show ?thesis by (auto intro: Watchdog_follows)
next
  case expire
  with ok show ?thesis by (auto intro: Sweeper_follows)
next
  case reconcile
  with ok show ?thesis by (auto intro: Recon_follows)
next
  case drift
  then show ?thesis by (auto intro: apart_follows [OF apart_Drift_Sweep])
next
  case rehydrate
  then show ?thesis by (auto intro: apart_follows [OF apart_RehydrateInventory])
next
  case create_event
  then show ?thesis by (auto intro: CreateEvent_follows)
qed

lemma run_follows: "server_run X create reader (g, w) (g', w') \<Longrightarrow> sys_ok w \<Longrightarrow> follows w w'"
proof (induction rule: rtranclp_induct2)
  case (step g1 w1 g2 w2)
  then have "follows w w1" by blast
  moreover from this have "follows w1 w2" using step by (blast intro: step_follows follows_sys_ok)
  ultimately show ?case by (rule follows_trans)
qed simp

end

interpretation mock_server: server_ports "\<lambda>c. c" "MockGateway_CreatePaymentIntent X latency" "mock_issued X"
    "\<lambda>_. MockGateway_GetStatus" "\<lambda>_. ChargeStatusNotFound" for X latency
  by unfold_locales

section \<open>The promises of the server\<close>

text \<open>C1: Whatever the clients ask, in whatever order the components act and whatever calls fail, a server keeps its
  promises. No order is lost: it is still there with its event, buyer, quantity and price, its status has moved along the
  edges of the state machine only, and an intent once stored stays. No ticket type is lost, and its available tickets
  and the ones that live orders hold add up to its total, neither being negative. Every outbox event and every message
  of the failed-order topic speaks of its stored order, and an event marked processed was published.\<close>

theorem server_keeps_promises:
  assumes "payment_gateway norm create issued" and "payment_status_reader reader verdict"
    and run: "server_run X create reader (g, w) (g', w')" and ok: "sys_ok w" and pub: "published_ok w"
  shows "(\<forall>i r. lookup or_id i (pg_orders (w_pg w)) = Some r \<longrightarrow> (\<exists>r'. lookup or_id i (pg_orders (w_pg w')) = Some r' \<and> later_row r r')) \<and>
    (\<forall>tt t. lookup tr_id tt (pg_types (w_pg w)) = Some t \<longrightarrow> (\<exists>t'. lookup tr_id tt (pg_types (w_pg w')) = Some t' \<and>
       later_type t t' \<and> 0 \<le> tr_available t' \<and> 0 \<le> held_of tt (pg_orders (w_pg w')) \<and>
       tr_available t' + held_of tt (pg_orders (w_pg w')) = tr_total t)) \<and>
    events_ok w' \<and> published_ok w'"
proof -
  have "follows w w'" by (rule server_ports.run_follows [OF server_ports.intro [OF assms(1,2)] run ok])
  then have rows: "rows_follow (w_pg w) (w_pg w')" and sys: "sys_ok w'" and p: "published_ok w'" using ok pub by (simp_all add: follows_def)
  have books: "0 \<le> tr_available t' \<and> 0 \<le> held_of tt (pg_orders (w_pg w')) \<and> tr_available t' + held_of tt (pg_orders (w_pg w')) = tr_total t"
    if "lookup tr_id tt (pg_types (w_pg w')) = Some t'" and l: "later_type t t'" for tt t t'
  proof -
    have "tr_total t' = tr_total t" using l by (cases t; cases t') (simp add: later_type_def)
    with lookup_in_set [OF that(1)] sys held_nonneg [of "pg_orders (w_pg w')" tt] show ?thesis
      by (auto simp: sys_ok_def db_ok_def ledger_ok_def pg_wf_def list_all_iff type_row_ok_def)
  qed
  show ?thesis
  proof (intro conjI allI impI)
    fix tt t assume "lookup tr_id tt (pg_types (w_pg w)) = Some t"
    then obtain t' where "lookup tr_id tt (pg_types (w_pg w')) = Some t'" "later_type t t'"
      using rows unfolding rows_follow_def kept_rows_def by blast
    then show "\<exists>t'. lookup tr_id tt (pg_types (w_pg w')) = Some t' \<and> later_type t t' \<and> 0 \<le> tr_available t' \<and>
        0 \<le> held_of tt (pg_orders (w_pg w')) \<and> tr_available t' + held_of tt (pg_orders (w_pg w')) = tr_total t"
      using books by blast
  qed (use rows sys p in \<open>auto simp: rows_follow_def kept_rows_def sys_ok_def\<close>)
qed

text \<open>A run: the relay publishes the event of an expired order, the compensator takes it from the topic and gives the
  tickets back.\<close>

lemma server_keeps_promises_witness:
  "\<exists>w'. server_run plain_ext (MockGateway_CreatePaymentIntent plain_ext 1) (\<lambda>_. MockGateway_GetStatus) (Map.empty, demo_outbox_world) (Map.empty, w') \<and>
     published_ok w' \<and> map or_status (pg_orders (w_pg w')) = [Compensated] \<and> map tr_available (pg_types (w_pg w')) = [10] \<and>
     (\<exists>r'. lookup or_id 9 (pg_orders (w_pg w')) = Some r' \<and> later_row demo_expired r')"
proof -
  let ?S = "server_step plain_ext (MockGateway_CreatePaymentIntent plain_ext 1) (\<lambda>_. MockGateway_GetStatus)"
  let ?e = "hd (pg_outbox (w_pg demo_outbox_world))"
  define w1 where "w1 = snd (relay_run 10 [True] False True demo_outbox_world)"
  define w2 where "w2 = snd (HandleOrderFailed plain_ext (ob_payload ?e) w1)"
  have "?S (Map.empty, demo_outbox_world) (Map.empty, w1)"
    unfolding w1_def by (rule server_step.relay [OF prod.collapse [symmetric]])
  moreover have "w_failed w1 = [?e]" unfolding w1_def by code_simp
  then have "?S (Map.empty, w1) (Map.empty, w2)"
    unfolding w2_def by (intro server_step.compensate [OF _ prod.collapse [symmetric]]) simp
  ultimately have run: "?S\<^sup>*\<^sup>* (Map.empty, demo_outbox_world) (Map.empty, w2)" by simp
  have r: "lookup or_id 9 (pg_orders (w_pg demo_outbox_world)) = Some demo_expired"
    by (simp add: demo_outbox_world_def demo_saga_row)
  have "map or_status (pg_orders (w_pg w2)) = [Compensated]" "map tr_available (pg_types (w_pg w2)) = [10]"
    unfolding w2_def w1_def by code_simp+
  moreover note server_keeps_promises [OF mock.payment_gateway_axioms mock_status.payment_status_reader_axioms run demo_outbox_ok]
  ultimately show ?thesis using run r by (intro exI [of _ w2]) simp
qed

text \<open>C2: Every order a server stores is well-typed. From a database whose orders are, in every state that any run
  reaches each stored order belongs to a user, an event and a ticket type, has a positive quantity, a positive price in
  a currency code and a reservation that ended after it was made, and a paid one has the intent that paid it: whatever
  the status, the row can be read back as a priced reservation.\<close>

theorem server_orders_are_typed:
  assumes "payment_gateway norm create issued" and "payment_status_reader reader verdict"
    and run: "server_run X create reader (g, w) (g', w')" and ok: "sys_ok w"
    and typed: "list_all reservation_row (pg_orders (w_pg w))"
  shows "list_all reservation_row (pg_orders (w_pg w')) \<and> list_all (\<lambda>r. HasPriceSnapshot (order_toDomain r)) (pg_orders (w_pg w'))"
proof -
  have "follows w w'" by (rule server_ports.run_follows [OF server_ports.intro [OF assms(1,2)] run ok])
  then have "list_all reservation_row (pg_orders (w_pg w'))" using ok typed by (simp add: follows_def rows_follow_def)
  moreover have "HasPriceSnapshot (order_toDomain r)" if "reservation_row r" for r
    using that by (auto simp: reservation_row_def valid_reservation_def HasPriceSnapshot_def isValidCurrencyCode_def)
  ultimately show ?thesis by (auto simp: list_all_iff)
qed

lemma server_orders_are_typed_witness:
  "\<exists>w'. server_run plain_ext (MockGateway_CreatePaymentIntent plain_ext 1) (\<lambda>_. MockGateway_GetStatus) (Map.empty, demo_pay_world) (Map.empty, w') \<and>
     map or_status (pg_orders (w_pg w')) = [Paid] \<and> map or_intent (pg_orders (w_pg w')) = [Some ''pi_9''] \<and>
     list_all reservation_row (pg_orders (w_pg w'))"
proof -
  let ?S = "server_step plain_ext (MockGateway_CreatePaymentIntent plain_ext 1) (\<lambda>_. MockGateway_GetStatus)"
  let ?call = "HandlePayment plain_ext (\<lambda>_ _ _ _. None) (\<lambda>_. Some (demo_event ''payment_intent.succeeded'')) ''whsec'' 300 False (Some ''{}'') ''t=1,v1=00''"
  define w1 where "w1 = snd (?call demo_pay_world)"
  have run: "?S\<^sup>*\<^sup>* (Map.empty, demo_pay_world) (Map.empty, w1)"
    unfolding w1_def by (rule r_into_rtranclp, rule server_step.webhook [OF prod.collapse [symmetric]])
  have typed: "list_all reservation_row (pg_orders (w_pg demo_pay_world))"
    by code_simp
  have w1: "w1 = snd (HandleWebhook plain_ext False (demo_event ''payment_intent.succeeded'') demo_pay_world)"
    unfolding w1_def by (simp add: HandlePayment_def VerifySignature_def split: prod.splits sum.splits)
  have "map or_status (pg_orders (w_pg w1)) = [Paid]" "map or_intent (pg_orders (w_pg w1)) = [Some ''pi_9'']"
    unfolding w1 by code_simp+
  moreover note server_orders_are_typed [OF mock.payment_gateway_axioms mock_status.payment_status_reader_axioms run demo_pay_ok typed]
  ultimately show ?thesis using run by (intro exI [of _ w1]) simp
qed

end
