(* ===== verification/Idempotency.thy ===== *)
theory Idempotency
  imports Api_Booking
begin

text \<open>
  The idempotency contract of \<open>POST /book\<close>: the middleware (\<open>api/middleware/idempotency.go\<close>), the body limit
  before it (\<open>body_size.go\<close>), its Redis repository (\<open>cache/idempotency.go\<close>) and the repository's metrics
  (\<open>instrumented_idempotency.go\<close>). The middleware knows the repository only through the contract in the
  locale \<open>idempotency_store\<close>, which is interpreted on the instrumented Redis repository below.
\<close>

section \<open>The middleware\<close>

record idempotency_result =
  ir_StatusCode :: int
  ir_Body :: body

lemma idempotency_result_eta [simp]:
  fixes v :: idempotency_result
  shows "\<lparr>ir_StatusCode = ir_StatusCode v, ir_Body = ir_Body v\<rparr> = v"
  by simp

text \<open>What reading the request body gives: its bytes, the error of a limited reader, or another error.\<close>

datatype body_read = BodyRead string | BodyTooLarge | BodyFailed

record http_request =
  rq_Key :: string
  rq_Body :: body_read

definition IsValidIdempotencyKey :: "string \<Rightarrow> bool" where
  "IsValidIdempotencyKey key \<longleftrightarrow> length key \<le> 128 \<and> list_all (\<lambda>c. 32 \<le> (of_char c :: nat) \<and> (of_char c :: nat) \<le> 126) key"

text \<open>\<open>sum256\<close> is \<open>sha256.Sum256\<close>; the fingerprint is its hex text, most significant byte first.\<close>

definition hex_digit :: "nat \<Rightarrow> char" where
  "hex_digit d = (if d < 10 then char_of (48 + d) else char_of (87 + d))"

definition Fingerprint :: "(string \<Rightarrow> 256 word) \<Rightarrow> string \<Rightarrow> string" where
  "Fingerprint sum256 raw = map (\<lambda>i. hex_digit (unat (drop_bit (252 - 4 * i) (sum256 raw)) mod 16)) [0..<64]"

lemma Fingerprint_nonempty: "Fingerprint sum256 raw \<noteq> ''''"
  by (simp add: Fingerprint_def)

definition shouldCacheStatus :: "int \<Rightarrow> bool" where
  "shouldCacheStatus st \<longleftrightarrow> st \<ge> 200 \<and> st < 300"

definition replayCached :: "idempotency_result \<Rightarrow> response" where
  "replayCached cached = \<lparr>rs_Status = ir_StatusCode cached, rs_Body = ir_Body cached, rs_Replayed = True\<rparr>"

text \<open>The repository is the pair \<open>get\<close>, \<open>put\<close>; \<open>sha\<close> is \<open>Fingerprint\<close>, \<open>count\<close> the replay
  counter, \<open>handler\<close> the handler behind the middleware, on a state the middleware does not look into.\<close>

definition Idempotency ::
    "(string \<Rightarrow> 's \<Rightarrow> (err + (idempotency_result \<times> string) option) \<times> 's) \<Rightarrow>
     (string \<Rightarrow> idempotency_result \<Rightarrow> string \<Rightarrow> 's \<Rightarrow> (err + unit) \<times> 's) \<Rightarrow>
     (string \<Rightarrow> string) \<Rightarrow> (string \<Rightarrow> 's \<Rightarrow> 's) \<Rightarrow> (body_read \<Rightarrow> 's \<Rightarrow> response \<times> 's) \<Rightarrow>
     http_request \<Rightarrow> 's \<Rightarrow> response \<times> 's" where
  "Idempotency get put sha count handler rq s =
    (if rq_Key rq = '''' then handler (rq_Body rq) s
     else if \<not> IsValidIdempotencyKey (rq_Key rq)
     then (answer 400 (ErrorResponse ''Idempotency-Key must be ASCII-printable and at most 128 characters''), s)
     else case rq_Body rq of
       BodyTooLarge \<Rightarrow> (answer 413 (ErrorResponse ''request body exceeds size limit''), s)
     | BodyFailed \<Rightarrow> (answer 400 (ErrorResponse ''invalid request body''), s)
     | BodyRead raw \<Rightarrow> (case get (rq_Key rq) s of
          (Inr (Some (cached, cachedFP)), s1) \<Rightarrow>
            if cachedFP = '''' then (replayCached cached, snd (put (rq_Key rq) cached (sha raw) (count ''legacy_match'' s1)))
            else if cachedFP = sha raw then (replayCached cached, count ''match'' s1)
            else (answer 409 (ErrorResponse ''Idempotency-Key reused with a different request body''), count ''mismatch'' s1)
        | (Inl e, s1) \<Rightarrow> handler (BodyRead raw) s1
        | (Inr None, s1) \<Rightarrow> (case handler (BodyRead raw) s1 of (r, s2) \<Rightarrow>
            if \<not> shouldCacheStatus (rs_Status r) then (r, s2)
            else (r, snd (put (rq_Key rq) \<lparr>ir_StatusCode = rs_Status r, ir_Body = rs_Body r\<rparr> (sha raw) s2)))))"

text \<open>The limit in front of it. A request has a declared length (\<open>-1\<close> when unknown) and the bytes that arrive;
  \<open>MaxBytesReader\<close> fails when more than the limit is read. No handler of the API records a gin error, so
  the check after \<open>c.Next()\<close> finds none.\<close>

record raw_request =
  rw_Key :: string
  rw_ContentLength :: int
  rw_Bytes :: string
  rw_Broken :: bool

definition MaxBytesReader :: "nat \<Rightarrow> raw_request \<Rightarrow> body_read" where
  "MaxBytesReader limit rq = (if length (rw_Bytes rq) > limit then BodyTooLarge
     else if rw_Broken rq then BodyFailed else BodyRead (rw_Bytes rq))"

definition BodySize :: "nat \<Rightarrow> (http_request \<Rightarrow> 's \<Rightarrow> response \<times> 's) \<Rightarrow> raw_request \<Rightarrow> 's \<Rightarrow> response \<times> 's" where
  "BodySize limit handler rq s =
    (if rw_ContentLength rq > int limit then (answer 413 (ErrorResponse ''request body exceeds size limit''), s)
     else handler \<lparr>rq_Key = rw_Key rq, rq_Body = MaxBytesReader limit rq\<rparr> s)"

section \<open>The Redis repository\<close>

text \<open>The \<open>idempotency:\<close> keys of the server: a JSON record, or a value that does not decode, with its expiry. The
  record's body is the response text; a response body stands for its JSON text, which encodes
  and decodes to itself.\<close>

record idempotency_record =
  ic_StatusCode :: int
  ic_Body :: body
  ic_Fingerprint :: string

datatype idempotency_value = IdempotencyJSON idempotency_record | NotJSON

type_synonym icache = "string \<rightharpoonup> idempotency_value \<times> time option"
type_synonym api_state = "icache \<times> world"

definition icache_GET :: "string \<Rightarrow> time \<Rightarrow> icache \<Rightarrow> idempotency_value option" where
  "icache_GET key now c = (case c key of None \<Rightarrow> None
     | Some (v, ex) \<Rightarrow> if alive now ex then Some v else None)"

definition icache_SET :: "string \<Rightarrow> idempotency_value \<Rightarrow> duration \<Rightarrow> time \<Rightarrow> icache \<Rightarrow> icache" where
  "icache_SET key v ttl now c = c(key \<mapsto> (v, if ttl > 0 then Some (now + ttl) else None))"

definition idempotency_Get :: "string \<Rightarrow> api_state \<Rightarrow> (err + (idempotency_result \<times> string) option) \<times> api_state" where
  "idempotency_Get key s = (case s of (c, w) \<Rightarrow> (case io w of
     (Works, w1) \<Rightarrow> (case icache_GET key (rd_now (w_rd w1)) c of
        None \<Rightarrow> (Inr None, c, w1)
      | Some NotJSON \<Rightarrow> (Inl (Wrap ''idempotency Get: unmarshal'' (Plain ''json'')), c, w1)
      | Some (IdempotencyJSON rec) \<Rightarrow>
          (Inr (Some (\<lparr>ir_StatusCode = ic_StatusCode rec, ir_Body = ic_Body rec\<rparr>, ic_Fingerprint rec)), c, w1))
   | (_, w1) \<Rightarrow> (Inl (Wrap ''idempotency Get: redis'' (Sentinel RedisUnavailable)), c, w1)))"

definition idempotency_Set :: "duration \<Rightarrow> string \<Rightarrow> idempotency_result \<Rightarrow> string \<Rightarrow> api_state \<Rightarrow> (err + unit) \<times> api_state" where
  "idempotency_Set ttl key res fingerprint s = (case s of (c, w) \<Rightarrow>
     let rec = IdempotencyJSON \<lparr>ic_StatusCode = ir_StatusCode res, ic_Body = ir_Body res, ic_Fingerprint = fingerprint\<rparr>;
         put = (\<lambda>w1. icache_SET key rec ttl (rd_now (w_rd w1)) c)
     in case io w of
       (Works, w1) \<Rightarrow> (Inr (), put w1, w1)
     | (Lost, w1) \<Rightarrow> (Inl (Wrap ''idempotency Set: redis'' (Sentinel RedisUnavailable)), c, w1)
     | (Unacked, w1) \<Rightarrow> (Inl (Wrap ''idempotency Set: redis'' (Sentinel RedisUnavailable)), put w1, w1))"

definition instrumented_Get :: "string \<Rightarrow> api_state \<Rightarrow> (err + (idempotency_result \<times> string) option) \<times> api_state" where
  "instrumented_Get key s = (case idempotency_Get key s of
     (Inl e, c, w) \<Rightarrow> (Inl e, c, metric ''idempotency_cache_get_errors_total'' w)
   | (Inr None, c, w) \<Rightarrow> (Inr None, c, metric ''cache_misses_idempotency'' w)
   | (Inr (Some v), c, w) \<Rightarrow> (Inr (Some v), c, metric ''cache_hits_idempotency'' w))"

text \<open>The route \<open>POST /book\<close>: limit, middleware, handler. \<open>decode\<close> is gin's JSON decoding of the body.\<close>

definition replay_metric :: "string \<Rightarrow> api_state \<Rightarrow> api_state" where
  "replay_metric m s = (fst s, metric (''idempotency_replays_'' @ m) (snd s))"

definition on_world :: "(world \<Rightarrow> 'a \<times> world) \<Rightarrow> api_state \<Rightarrow> 'a \<times> api_state" where
  "on_world f s = (case f (snd s) of (a, w) \<Rightarrow> (a, fst s, w))"

definition book_handler ::
    "ext \<Rightarrow> (string \<Rightarrow> booking_request option) \<Rightarrow> (int \<Rightarrow> uuid \<Rightarrow> int \<Rightarrow> world \<Rightarrow> (err + order) \<times> world) \<Rightarrow>
     body_read \<Rightarrow> api_state \<Rightarrow> response \<times> api_state" where
  "book_handler X decode bookTicket b =
     on_world (HandleBook X bookTicket (case b of BodyRead raw \<Rightarrow> decode raw | _ \<Rightarrow> None))"

definition POST_book ::
    "ext \<Rightarrow> (string \<Rightarrow> 256 word) \<Rightarrow> (string \<Rightarrow> booking_request option) \<Rightarrow> duration \<Rightarrow>
     (int \<Rightarrow> uuid \<Rightarrow> int \<Rightarrow> world \<Rightarrow> (err + order) \<times> world) \<Rightarrow> raw_request \<Rightarrow> api_state \<Rightarrow> response \<times> api_state" where
  "POST_book X sum256 decode ttl bookTicket =
     BodySize 16384 (Idempotency instrumented_Get (idempotency_Set ttl) (Fingerprint sum256) replay_metric (book_handler X decode bookTicket))"

section \<open>The contract of the repository\<close>

text \<open>\<open>entry\<close> is what the store holds under a key. \<open>Get\<close> leaves it alone and answers only what is held; \<open>Set\<close>
  either replaces the one entry or does nothing.\<close>

locale idempotency_store =
  fixes get :: "string \<Rightarrow> 's \<Rightarrow> (err + (idempotency_result \<times> string) option) \<times> 's"
    and put :: "string \<Rightarrow> idempotency_result \<Rightarrow> string \<Rightarrow> 's \<Rightarrow> (err + unit) \<times> 's"
    and entry :: "string \<Rightarrow> 's \<Rightarrow> (idempotency_result \<times> string) option"
    and others :: "'s \<Rightarrow> 'o"
    and sha :: "string \<Rightarrow> string"
    and count :: "string \<Rightarrow> 's \<Rightarrow> 's"
    and handler :: "body_read \<Rightarrow> 's \<Rightarrow> response \<times> 's"
  assumes get_keeps: "get k s = (g, s') \<Longrightarrow> entry j s' = entry j s \<and> others s' = others s"
    and get_held: "get k s = (Inr (Some v), s') \<Longrightarrow> entry k s = Some v"
    and put_one: "put k a f s = (u, s') \<Longrightarrow> (\<forall>j. entry j s' = entry j s \<or> j = k \<and> entry j s' = Some (a, f)) \<and> others s' = others s"
    and count_keeps: "entry j (count m s) = entry j s \<and> others (count m s) = others s"
    and handler_keeps: "handler b s = (r, s') \<Longrightarrow> entry j s' = entry j s \<and> \<not> rs_Replayed r"
    and sha_nonempty: "sha raw \<noteq> ''''"
begin

text \<open>A log of served requests, and when a stored entry is the answer to one of them.\<close>

definition answered :: "(http_request \<times> response) list \<Rightarrow> string \<Rightarrow> idempotency_result \<times> string \<Rightarrow> bool" where
  "answered log k v \<longleftrightarrow> (\<exists>rq r raw. (rq, r) \<in> set log \<and> \<not> rs_Replayed r \<and> rq_Key rq = k \<and> rq_Body rq = BodyRead raw \<and>
     snd v = sha raw \<and> rs_Status r = ir_StatusCode (fst v) \<and> rs_Body r = ir_Body (fst v) \<and> shouldCacheStatus (rs_Status r))"

definition held_true :: "(http_request \<times> response) list \<Rightarrow> 's \<Rightarrow> bool" where
  "held_true log s \<longleftrightarrow> (\<forall>k v. entry k s = Some v \<longrightarrow> answered log k v)"

lemma answered_mono: "answered log k v \<Longrightarrow> answered (log @ later) k v"
  by (auto simp: answered_def)

lemma answered_not_legacy: "answered log k v \<Longrightarrow> snd v \<noteq> ''''"
  unfolding answered_def using sha_nonempty by metis

text \<open>One request: the entries stay true, and a replay repeats an answered request with the same key and
  fingerprint without running the handler.\<close>

lemma serve_one:
  assumes run: "Idempotency get put sha count handler rq s = (r, s')" and held: "held_true log s"
  shows "held_true (log @ [(rq, r)]) s' \<and>
    (rs_Replayed r \<longrightarrow> others s' = others s \<and> (\<exists>raw. rq_Body rq = BodyRead raw \<and>
       answered log (rq_Key rq) (\<lparr>ir_StatusCode = rs_Status r, ir_Body = rs_Body r\<rparr>, sha raw)))"
proof -
  have same: "held_true (log @ [(rq, r)]) v" if "\<And>j. entry j v = entry j s" for v
    using held that by (auto simp: held_true_def intro: answered_mono)
  have passed: ?thesis if "handler b u = (r, s')" "\<And>j. entry j u = entry j s" for b u
    using same handler_keeps [OF that(1)] that(2) by auto
  consider "rq_Key rq = ''''" | "rq_Key rq \<noteq> ''''" "\<not> IsValidIdempotencyKey (rq_Key rq) \<or> (\<forall>raw. rq_Body rq \<noteq> BodyRead raw)"
    | raw where "rq_Key rq \<noteq> ''''" "IsValidIdempotencyKey (rq_Key rq)" "rq_Body rq = BodyRead raw"
    by blast
  then show ?thesis
  proof cases
    case 1
    with run show ?thesis by (intro passed [of "rq_Body rq" s]) (auto simp: Idempotency_def)
  next
    case 2
    with run have "s' = s" "\<not> rs_Replayed r"
      by (auto simp: Idempotency_def split: if_splits body_read.splits)
    with same show ?thesis by auto
  next
    case 3
    obtain g s1 where g: "get (rq_Key rq) s = (g, s1)" by (cases "get (rq_Key rq) s")
    note keep = get_keeps [OF g]
    consider (err) e where "g = Inl e" | (miss) "g = Inr None" | (hit) v where "g = Inr (Some v)"
      by (cases g; cases "projr g") auto
    then show ?thesis
    proof cases
      case err
      with run 3 g keep show ?thesis by (intro passed [of "BodyRead raw" s1]) (auto simp: Idempotency_def)
    next
      case miss
      obtain r2 s2 where n: "handler (BodyRead raw) s1 = (r2, s2)" by (cases "handler (BodyRead raw) s1")
      note nk = handler_keeps [OF n]
      have r: "r = r2" using run 3 g miss n by (auto simp: Idempotency_def split: if_splits)
      show ?thesis
      proof (cases "shouldCacheStatus (rs_Status r2)")
        case False
        with run 3 g miss n have "s' = s2" by (auto simp: Idempotency_def)
        with same nk keep r show ?thesis by auto
      next
        case True
        let ?v = "\<lparr>ir_StatusCode = rs_Status r2, ir_Body = rs_Body r2\<rparr>"
        obtain p s3 where p: "put (rq_Key rq) ?v (sha raw) s2 = (p, s3)" by (cases "put (rq_Key rq) ?v (sha raw) s2")
        have s': "s' = s3" using run 3 g miss n True p by (auto simp: Idempotency_def)
        have new: "answered (log @ [(rq, r)]) (rq_Key rq) (?v, sha raw)"
          using r nk 3 True by (auto simp: answered_def)
        have "held_true (log @ [(rq, r)]) s'"
          unfolding held_true_def
        proof (intro allI impI)
          fix k v assume e: "entry k s' = Some v"
          from put_one [OF p] s' have "entry k s' = entry k s2 \<or> k = rq_Key rq \<and> entry k s' = Some (?v, sha raw)" by blast
          then show "answered (log @ [(rq, r)]) k v"
          proof
            assume "entry k s' = entry k s2"
            then have "entry k s = Some v" using e nk keep by simp
            then have "answered log k v" using held unfolding held_true_def by blast
            then show ?thesis by (rule answered_mono)
          next
            assume "k = rq_Key rq \<and> entry k s' = Some (?v, sha raw)"
            then show ?thesis using e new by simp
          qed
        qed
        with nk r show ?thesis by auto
      qed
    next
      case (hit v)
      obtain cached fp where v: "v = (cached, fp)" by (cases v)
      have "entry (rq_Key rq) s = Some v" using g hit get_held by simp
      then have ans: "answered log (rq_Key rq) (cached, fp)" using held v by (simp add: held_true_def)
      then have fp: "fp \<noteq> ''''" using answered_not_legacy [OF ans] by simp
      show ?thesis
      proof (cases "fp = sha raw")
        case True
        then have "r = replayCached cached" "s' = count ''match'' s1"
          using run 3 g hit v fp by (auto simp: Idempotency_def)
        with same count_keeps keep ans True 3 show ?thesis by (auto simp: replayCached_def)
      next
        case False
        then have "\<not> rs_Replayed r" "s' = count ''mismatch'' s1"
          using run 3 g hit v fp by (auto simp: Idempotency_def)
        with same count_keeps keep show ?thesis by auto
      qed
    qed
  qed
qed

end

section \<open>The instrumented Redis repository keeps the contract\<close>

definition held :: "string \<Rightarrow> api_state \<Rightarrow> (idempotency_result \<times> string) option" where
  "held key s = (case fst s key of Some (IdempotencyJSON rec, ex) \<Rightarrow>
       Some (\<lparr>ir_StatusCode = ic_StatusCode rec, ir_Body = ic_Body rec\<rparr>, ic_Fingerprint rec)
     | _ \<Rightarrow> None)"

definition stores :: "api_state \<Rightarrow> pg \<times> redis" where
  "stores s = (w_pg (snd s), w_rd (snd s))"

lemma io_stores: "io w = (f, w') \<Longrightarrow> w_pg w' = w_pg w \<and> w_rd w' = w_rd w"
  by (auto simp: io_def split: list.splits)

lemma idempotency_Get_outcome:
  assumes "idempotency_Get k s = (g, s')"
  shows "fst s' = fst s \<and> stores s' = stores s \<and> (\<forall>v. g = Inr (Some v) \<longrightarrow> held k s = Some v)"
proof -
  obtain c w where s: "s = (c, w)" by (cases s)
  obtain f w1 where f: "io w = (f, w1)" by (cases "io w")
  show ?thesis using assms io_stores [OF f] s f
    by (cases f) (auto simp: idempotency_Get_def stores_def held_def icache_GET_def
        split: option.splits idempotency_value.splits if_splits)
qed

lemma instrumented_Get_outcome:
  assumes "instrumented_Get k s = (g, s')"
  shows "fst s' = fst s \<and> stores s' = stores s \<and> (\<forall>v. g = Inr (Some v) \<longrightarrow> held k s = Some v)"
proof -
  obtain h c w where h: "idempotency_Get k s = (h, c, w)" by (metis surj_pair)
  from idempotency_Get_outcome [OF h] show ?thesis using assms h
    by (auto simp: instrumented_Get_def stores_def metric_def split: sum.splits option.splits)
qed

lemma held_SET:
  "held j (icache_SET k (IdempotencyJSON rec) ttl now c, w) =
    (if j = k then Some (\<lparr>ir_StatusCode = ic_StatusCode rec, ir_Body = ic_Body rec\<rparr>, ic_Fingerprint rec) else held j (c, v))"
  by (simp add: held_def icache_SET_def)

lemma idempotency_Set_outcome:
  assumes "idempotency_Set ttl k a f s = (u, s')"
  shows "(\<forall>j. held j s' = held j s \<or> j = k \<and> held j s' = Some (a, f)) \<and> stores s' = stores s"
proof -
  obtain c w where s: "s = (c, w)" by (cases s)
  obtain q w1 where q: "io w = (q, w1)" by (cases "io w")
  have same: "held j (c, w1) = held j (c, w)" for j by (simp add: held_def)
  show ?thesis using assms io_stores [OF q] s q
    by (cases q) (auto simp: idempotency_Set_def Let_def stores_def held_SET [where v = w] same split: if_splits)
qed

lemma HandleBook_fresh: "\<not> rs_Replayed (fst (HandleBook X bookTicket b w))"
  by (auto simp: HandleBook_def split: option.splits prod.splits sum.splits)

interpretation redis_idem: idempotency_store instrumented_Get "idempotency_Set ttl" held stores "Fingerprint sum256"
    replay_metric "book_handler X decode bookTicket" for ttl sum256 X decode bookTicket
proof
  fix k g s s' j v a f u m b r raw
  show "instrumented_Get k s = (g, s') \<Longrightarrow> held j s' = held j s \<and> stores s' = stores s"
    by (auto simp: held_def dest!: instrumented_Get_outcome)
  show "instrumented_Get k s = (Inr (Some v), s') \<Longrightarrow> held k s = Some v"
    by (auto dest!: instrumented_Get_outcome)
  show "idempotency_Set ttl k a f s = (u, s') \<Longrightarrow> (\<forall>j. held j s' = held j s \<or> j = k \<and> held j s' = Some (a, f)) \<and> stores s' = stores s"
    by (rule idempotency_Set_outcome)
  show "held j (replay_metric m s) = held j s \<and> stores (replay_metric m s) = stores s"
    by (simp add: held_def stores_def replay_metric_def metric_def)
  show "book_handler X decode bookTicket b s = (r, s') \<Longrightarrow> held j s' = held j s \<and> \<not> rs_Replayed r"
    using HandleBook_fresh [of X bookTicket _ "snd s"]
    by (auto simp: book_handler_def on_world_def held_def split: prod.splits) (metis fst_conv)
  show "Fingerprint sum256 raw \<noteq> ''''" by (rule Fingerprint_nonempty)
qed

section \<open>Replays are truthful\<close>

text \<open>What happens to the API: a request, other components at work on the shared stores, or Redis losing an
  idempotency key (expiry is in the entry itself).\<close>

datatype api_step = Serve raw_request | Elsewhere "world \<Rightarrow> world" | Evict string

fun serve_all :: "(raw_request \<Rightarrow> api_state \<Rightarrow> response \<times> api_state) \<Rightarrow> api_step list \<Rightarrow> api_state \<Rightarrow> (raw_request \<times> response) list \<times> api_state" where
  "serve_all api [] s = ([], s)"
| "serve_all api (Serve rq # steps) s = (case api rq s of (r, s1) \<Rightarrow>
     (case serve_all api steps s1 of (log, s2) \<Rightarrow> ((rq, r) # log, s2)))"
| "serve_all api (Elsewhere f # steps) s = serve_all api steps (fst s, f (snd s))"
| "serve_all api (Evict k # steps) s = serve_all api steps ((fst s)(k := None), snd s)"

definition limited :: "raw_request \<times> response \<Rightarrow> http_request \<times> response" where
  "limited e = (\<lparr>rq_Key = rw_Key (fst e), rq_Body = MaxBytesReader 16384 (fst e)\<rparr>, snd e)"

lemma MaxBytesReader_read: "MaxBytesReader n rq = BodyRead raw \<longleftrightarrow> raw = rw_Bytes rq \<and> length (rw_Bytes rq) \<le> n \<and> \<not> rw_Broken rq"
  by (auto simp: MaxBytesReader_def)

abbreviation "book_cache_true sum256 log s \<equiv> redis_idem.held_true sum256 (map limited log) s"

lemma held_evict: "held j (c(k := None), w) = (if j = k then None else held j (c, w))"
  by (simp add: held_def)

lemma held_true_fewer:
  assumes "redis_idem.held_true sum256 log s" and "\<And>k v. held k s' = Some v \<Longrightarrow> held k s = Some v"
  shows "redis_idem.held_true sum256 (log @ later) s'"
  unfolding redis_idem.held_true_def
proof (intro allI impI)
  fix k v assume "held k s' = Some v"
  then have "redis_idem.answered sum256 log k v" using assms unfolding redis_idem.held_true_def by blast
  then show "redis_idem.answered sum256 (log @ later) k v" by (rule redis_idem.answered_mono)
qed

lemma POST_book_one:
  assumes run: "POST_book X sum256 decode ttl bookTicket rq s = (r, s')" and ok: "book_cache_true sum256 log s"
  shows "book_cache_true sum256 (log @ [(rq, r)]) s' \<and> (rs_Replayed r \<longrightarrow> stores s' = stores s \<and>
    redis_idem.answered sum256 (map limited log) (rw_Key rq) (\<lparr>ir_StatusCode = rs_Status r, ir_Body = rs_Body r\<rparr>, Fingerprint sum256 (rw_Bytes rq)))"
proof (cases "rw_ContentLength rq > int 16384")
  case True
  then have "s' = s" "\<not> rs_Replayed r" using run by (auto simp: POST_book_def BodySize_def)
  with held_true_fewer [OF ok, of s] show ?thesis by simp
next
  case False
  then have "Idempotency instrumented_Get (idempotency_Set ttl) (Fingerprint sum256) replay_metric (book_handler X decode bookTicket)
      (fst (limited (rq, r))) s = (r, s')"
    using run by (simp add: POST_book_def BodySize_def limited_def)
  from redis_idem.serve_one [OF this ok] show ?thesis
    by (auto simp: limited_def MaxBytesReader_read)
qed

lemma serve_all_outcome:
  assumes "serve_all (POST_book X sum256 decode ttl bookTicket) steps s = (log, s')" and "book_cache_true sum256 before s"
  shows "book_cache_true sum256 (before @ log) s' \<and> (\<forall>pre rq r post. log = pre @ (rq, r) # post \<longrightarrow> rs_Replayed r \<longrightarrow>
    redis_idem.answered sum256 (map limited (before @ pre)) (rw_Key rq) (\<lparr>ir_StatusCode = rs_Status r, ir_Body = rs_Body r\<rparr>, Fingerprint sum256 (rw_Bytes rq)))"
  using assms
proof (induction steps arbitrary: s before log)
  case Nil
  then show ?case by simp
next
  case (Cons st steps)
  show ?case
  proof (cases st)
    case (Serve rq)
    obtain r s1 where one: "POST_book X sum256 decode ttl bookTicket rq s = (r, s1)" by (metis surj_pair)
    obtain log2 s2 where rest: "serve_all (POST_book X sum256 decode ttl bookTicket) steps s1 = (log2, s2)" by (metis surj_pair)
    have log: "log = (rq, r) # log2" "s' = s2" using Cons.prems(1) Serve one rest by auto
    note here = POST_book_one [OF one Cons.prems(2)]
    from here have "book_cache_true sum256 (before @ [(rq, r)]) s1" by blast
    from Cons.IH [OF rest [folded log(2)] this] here show ?thesis
      by (auto simp: log append_eq_Cons_conv Cons_eq_append_conv)
  next
    case (Elsewhere f)
    have "book_cache_true sum256 before (fst s, f (snd s))"
      using held_true_fewer [OF Cons.prems(2), of "(fst s, f (snd s))" "[]"] by (simp add: held_def)
    from Cons.IH [OF _ this] Cons.prems(1) Elsewhere show ?thesis by simp
  next
    case (Evict k)
    have "held j s = Some v" if "held j ((fst s)(k := None), snd s) = Some v" for j v
      using that held_evict [of j "fst s" k "snd s"] by (simp split: if_splits)
    from held_true_fewer [where later = "[]", OF Cons.prems(2) this]
    have "book_cache_true sum256 before ((fst s)(k := None), snd s)" by simp
    from Cons.IH [OF _ this] Cons.prems(1) Evict show ?thesis by simp
  qed
qed

text \<open>C26: every replayed answer of \<open>POST /book\<close> is true. Whatever requests are served, whatever calls fail and
  other components do, whenever keys expire or get lost: an answer marked as replayed repeats the
  status and body of an earlier answer the booking service gave to a request with the same
  key and fingerprint, that answer was a success, and the replay itself touches neither store.\<close>

theorem replays_are_true:
  assumes "serve_all (POST_book X sum256 decode ttl bookTicket) steps (Map.empty, w) = (log, s')"
    and "log = pre @ (rq, r) # post" and "rs_Replayed r"
  shows "\<exists>rq0 r0. (rq0, r0) \<in> set pre \<and> \<not> rs_Replayed r0 \<and> rw_Key rq0 = rw_Key rq \<and>
    Fingerprint sum256 (rw_Bytes rq0) = Fingerprint sum256 (rw_Bytes rq) \<and>
    rs_Status r = rs_Status r0 \<and> rs_Body r = rs_Body r0 \<and> 200 \<le> rs_Status r0 \<and> rs_Status r0 < 300"
proof -
  have "book_cache_true sum256 [] (Map.empty, w)" by (simp add: redis_idem.held_true_def held_def)
  from serve_all_outcome [OF assms(1) this] assms(2,3)
  have "redis_idem.answered sum256 (map limited pre) (rw_Key rq) (\<lparr>ir_StatusCode = rs_Status r, ir_Body = rs_Body r\<rparr>, Fingerprint sum256 (rw_Bytes rq))"
    by auto
  then obtain rq0 r0 where e: "(rq0, r0) \<in> set pre" and "\<not> rs_Replayed r0 \<and> rw_Key rq0 = rw_Key rq \<and>
      Fingerprint sum256 (rw_Bytes rq0) = Fingerprint sum256 (rw_Bytes rq) \<and>
      rs_Status r = rs_Status r0 \<and> rs_Body r = rs_Body r0 \<and> 200 \<le> rs_Status r0 \<and> rs_Status r0 < 300"
    by (auto simp: redis_idem.answered_def limited_def MaxBytesReader_read shouldCacheStatus_def)
  then show ?thesis by blast
qed

section \<open>Without failures\<close>

lemma io_calm: "w_faults w = [] \<Longrightarrow> io w = (Works, w)"
  by (simp add: io_def)

definition calm :: "(world \<Rightarrow> 'a \<times> world) \<Rightarrow> bool" where
  "calm f \<longleftrightarrow> (\<forall>w. w_faults w = [] \<longrightarrow> w_faults (snd (f w)) = [])"

lemma calmD: "calm f \<Longrightarrow> w_faults w = [] \<Longrightarrow> f w = (a, w1) \<Longrightarrow> w_faults w1 = []"
  by (metis calm_def snd_conv)

lemma calm_redis_call: "calm (redis_call c)"
  by (simp add: calm_def redis_call_Works split: prod.splits)

lemma calm_sql_query: "calm (sql_query q)"
  by (simp add: calm_def sql_query_Works)

lemma calm_bind: "calm f \<Longrightarrow> (\<And>a. calm (g a)) \<Longrightarrow> calm (\<lambda>w. case f w of (a, w1) \<Rightarrow> g a w1)"
  by (auto simp: calm_def split: prod.splits)

lemma calm_return: "calm (\<lambda>w. (a, w))"
  by (simp add: calm_def)

lemma calm_sum: "(\<And>e. calm (f e)) \<Longrightarrow> (\<And>a. calm (g a)) \<Longrightarrow> calm (\<lambda>w. case x of Inl e \<Rightarrow> f e w | Inr a \<Rightarrow> g a w)"
  by (cases x) simp_all

lemma calm_option: "calm f \<Longrightarrow> (\<And>a. calm (g a)) \<Longrightarrow> calm (\<lambda>w. case x of None \<Rightarrow> f w | Some a \<Rightarrow> g a w)"
  by (cases x) simp_all

lemma calm_if: "calm f \<Longrightarrow> calm g \<Longrightarrow> calm (\<lambda>w. if b then f w else g w)"
  by (cases b) simp_all

lemmas calm_steps = calm_redis_call calm_sql_query calm_bind calm_return calm_sum calm_option calm_if

lemma calm_SetMetadata: "calm (SetMetadata_of X mttl tt)"
  unfolding SetMetadata_of_def ticketTypeRepo_GetByID_def SetTicketTypeMetadata_def
  by (intro calm_steps)

lemma calm_DeductInventory: "calm (DeductInventory X oid tt user qty until)"
  unfolding DeductInventory_def by (intro calm_steps)

lemma calm_with_repair: "calm d \<Longrightarrow> calm r \<Longrightarrow> calm (with_repair q m m2 d r)"
  unfolding with_repair_def by (intro calm_steps)

lemma calm_BookTicket: "calm (BookTicket X window mttl user tt qty)"
  unfolding calm_def
proof (intro allI impI)
  fix w :: world assume nf: "w_faults w = []"
  obtain u w1 where u: "uuid_NewV7 w = (u, w1)" by (metis surj_pair)
  have f1: "w_faults w1 = []" using u nf by (auto simp: uuid_NewV7_def split: list.splits)
  obtain g w2 where g: "with_repair (\<lambda>e. e = Sentinel ErrTicketTypeRuntimeMetadataMissing) ''redis inventory error'' ''redis inventory error''
      (DeductInventory X (the u) tt user qty (w_now w1 + window)) (SetMetadata_of X mttl tt) w1 = (g, w2)" by (metis surj_pair)
  have f2: "w_faults w2 = []"
    by (rule calmD [OF calm_with_repair [OF calm_DeductInventory calm_SetMetadata] f1 g])
  show "w_faults (snd (BookTicket X window mttl user tt qty w)) = []"
    using u g f1 f2 by (cases u; cases g) (auto simp: BookTicket_def Let_def)
qed

definition readable :: "raw_request \<Rightarrow> bool" where
  "readable rq \<longleftrightarrow> rw_ContentLength rq \<le> 16384 \<and> length (rw_Bytes rq) \<le> 16384 \<and> \<not> rw_Broken rq"

definition remembers :: "string \<Rightarrow> string \<Rightarrow> response \<Rightarrow> api_state \<Rightarrow> bool" where
  "remembers key fp r s \<longleftrightarrow> icache_GET key (rd_now (w_rd (snd s))) (fst s) =
     Some (IdempotencyJSON \<lparr>ic_StatusCode = rs_Status r, ic_Body = rs_Body r, ic_Fingerprint = fp\<rparr>)"

definition conflict :: response where
  "conflict = answer 409 (ErrorResponse ''Idempotency-Key reused with a different request body'')"

lemma metric_keeps: "w_faults (metric m w) = w_faults w" "w_rd (metric m w) = w_rd w" "w_pg (metric m w) = w_pg w"
  by (simp_all add: metric_def)

lemma POST_book_again:
  assumes "remembers key fp r s" and "w_faults (snd s) = []" and "fp \<noteq> ''''"
    and "rw_Key q = key" and "key \<noteq> ''''" and "IsValidIdempotencyKey key" and "readable q"
  shows "\<exists>s'. POST_book X sum256 decode ttl bookTicket q s =
      (if Fingerprint sum256 (rw_Bytes q) = fp then r\<lparr>rs_Replayed := True\<rparr> else conflict, s') \<and>
    remembers key fp r s' \<and> w_faults (snd s') = [] \<and> stores s' = stores s"
proof -
  obtain c w where s: "s = (c, w)" by (cases s)
  have g: "instrumented_Get key s = (Inr (Some (\<lparr>ir_StatusCode = rs_Status r, ir_Body = rs_Body r\<rparr>, fp)), c, metric ''cache_hits_idempotency'' w)"
    using assms(1,2) s by (simp add: instrumented_Get_def idempotency_Get_def io_calm remembers_def)
  have read: "MaxBytesReader 16384 q = BodyRead (rw_Bytes q)" "\<not> rw_ContentLength q > int 16384"
    using assms(7) by (simp_all add: MaxBytesReader_def readable_def)
  from assms s g read show ?thesis
    by (auto simp: POST_book_def BodySize_def Idempotency_def replayCached_def conflict_def replay_metric_def remembers_def
        metric_keeps stores_def)
qed

lemma POST_book_first:
  assumes run: "POST_book X sum256 decode ttl (BookTicket X window mttl) rq s = (r, s1)"
    and key: "rw_Key rq \<noteq> ''''" and new: "icache_GET (rw_Key rq) (rd_now (w_rd (snd s))) (fst s) = None"
    and nf: "w_faults (snd s) = []" and ttl: "ttl > 0" and ok: "200 \<le> rs_Status r" "rs_Status r < 300"
  shows "IsValidIdempotencyKey (rw_Key rq) \<and> remembers (rw_Key rq) (Fingerprint sum256 (rw_Bytes rq)) r s1 \<and> w_faults (snd s1) = [] \<and>
    (\<exists>v w1. stores (fst s1, v) = stores s \<and> HandleBook X (BookTicket X window mttl) (decode (rw_Bytes rq)) v = (r, w1) \<and> stores (fst s1, w1) = stores s1)"
proof -
  obtain c w where s: "s = (c, w)" by (cases s)
  let ?w = "metric ''cache_misses_idempotency'' w"
  have g: "instrumented_Get (rw_Key rq) s = (Inr None, c, ?w)"
    using new nf s by (simp add: instrumented_Get_def idempotency_Get_def io_calm)
  have small: "\<not> rw_ContentLength rq > int 16384" and valid: "IsValidIdempotencyKey (rw_Key rq)"
    and read: "MaxBytesReader 16384 rq = BodyRead (rw_Bytes rq)"
    using run ok key by (auto simp: POST_book_def BodySize_def Idempotency_def MaxBytesReader_def split: if_splits)
  obtain r2 w1 where h: "HandleBook X (BookTicket X window mttl) (decode (rw_Bytes rq)) ?w = (r2, w1)" by (metis surj_pair)
  have calm: "calm (HandleBook X (BookTicket X window mttl) b)" for b
    unfolding HandleBook_def calm_def
    using calm_BookTicket by (auto simp: calm_def split: option.splits prod.splits sum.splits) (metis snd_conv)+
  have f1: "w_faults w1 = []" by (rule calmD [OF calm _ h]) (use nf s in \<open>simp add: metric_keeps\<close>)
  have out: "r = r2 \<and> s1 = snd (idempotency_Set ttl (rw_Key rq) \<lparr>ir_StatusCode = rs_Status r, ir_Body = rs_Body r\<rparr>
      (Fingerprint sum256 (rw_Bytes rq)) (c, w1))"
    using run small valid read key g h ok s
    by (auto simp: POST_book_def BodySize_def Idempotency_def book_handler_def on_world_def shouldCacheStatus_def split: if_splits)
  then have s1: "s1 = (icache_SET (rw_Key rq) (IdempotencyJSON \<lparr>ic_StatusCode = rs_Status r, ic_Body = rs_Body r,
      ic_Fingerprint = Fingerprint sum256 (rw_Bytes rq)\<rparr>) ttl (rd_now (w_rd w1)) c, w1)"
    using f1 by (simp add: idempotency_Set_def io_calm)
  then have "remembers (rw_Key rq) (Fingerprint sum256 (rw_Bytes rq)) r s1"
    using ttl by (simp add: remembers_def icache_GET_def icache_SET_def alive_def)
  moreover have "stores (fst s1, ?w) = stores s" "stores (fst s1, w1) = stores s1" using s s1 by (simp_all add: stores_def metric_keeps)
  ultimately show ?thesis using valid s1 f1 h out by auto
qed

lemma serve_again:
  assumes "serve_all (POST_book X sum256 decode ttl bookTicket) (map Serve rqs) s = (log, s')"
    and "remembers key fp r s" and "w_faults (snd s) = []" and "fp \<noteq> ''''" and "key \<noteq> ''''" and "IsValidIdempotencyKey key"
    and "\<forall>q \<in> set rqs. rw_Key q = key \<and> readable q"
  shows "stores s' = stores s \<and>
    map snd log = map (\<lambda>q. if Fingerprint sum256 (rw_Bytes q) = fp then r\<lparr>rs_Replayed := True\<rparr> else conflict) rqs"
  using assms
proof (induction rqs arbitrary: s log)
  case Nil
  then show ?case by simp
next
  case (Cons q rqs)
  have q: "rw_Key q = key" "readable q" using Cons.prems(7) by simp_all
  obtain s1 where one: "POST_book X sum256 decode ttl bookTicket q s =
      (if Fingerprint sum256 (rw_Bytes q) = fp then r\<lparr>rs_Replayed := True\<rparr> else conflict, s1)"
    and s1: "remembers key fp r s1" "w_faults (snd s1) = []" "stores s1 = stores s"
    using POST_book_again [OF Cons.prems(2-4) q(1) Cons.prems(5,6) q(2), of X sum256 decode ttl bookTicket] by blast
  obtain log2 s2 where rest: "serve_all (POST_book X sum256 decode ttl bookTicket) (map Serve rqs) s1 = (log2, s2)" by (metis surj_pair)
  have "s' = s2" "log = (q, if Fingerprint sum256 (rw_Bytes q) = fp then r\<lparr>rs_Replayed := True\<rparr> else conflict) # log2"
    using Cons.prems(1) one rest by auto
  with Cons.IH [OF _ s1(1,2) Cons.prems(4-6)] rest Cons.prems(7) s1(3) show ?case by auto
qed


text \<open>One request sent three times, once with another body.\<close>

definition demo_post :: "string \<Rightarrow> raw_request" where
  "demo_post b = \<lparr>rw_Key = ''k'', rw_ContentLength = int (length b), rw_Bytes = b, rw_Broken = False\<rparr>"

definition demo_api :: "raw_request \<Rightarrow> api_state \<Rightarrow> response \<times> api_state" where
  "demo_api = POST_book plain_ext (\<lambda>b. of_nat (length b)) (\<lambda>b. Some \<lparr>br_UserID = 7, br_TicketTypeID = 5, br_Quantity = 3\<rparr>) 86400
     (BookTicket plain_ext 900 100)"

definition demo_api_state :: api_state where
  "demo_api_state = (Map.empty, empty_world\<lparr>w_uuids := [Some 9, Some 10], w_rd := demo_redis\<rparr>)"

definition demo_retries :: "(raw_request \<times> response) list \<times> api_state" where
  "demo_retries = serve_all demo_api (map Serve [demo_post ''ab'', demo_post ''abc'']) (snd (demo_api (demo_post ''ab'') demo_api_state))"

lemma demo_DeductInventory:
  "w_faults v = [] \<Longrightarrow> w_rd v = demo_redis \<Longrightarrow> \<exists>v'. DeductInventory plain_ext oid 5 7 3 until v =
    (Inr \<lparr>dr_Accepted = True, dr_EventID = 3, dr_AmountCents = 750, dr_Currency = ''usd''\<rparr>, v') \<and> w_now v' = w_now v"
  using demo_quote by (force simp: DeductInventory_def redis_call_Works deduct_lua_eq)

lemma demo_first: "rs_Status (fst (demo_api (demo_post ''ab'') demo_api_state)) = 202"
proof -
  let ?w = "empty_world\<lparr>w_uuids := [Some 9, Some 10], w_rd := demo_redis\<rparr>"
  have get: "instrumented_Get ''k'' demo_api_state = (Inr None, Map.empty, metric ''cache_misses_idempotency'' ?w)"
    by (simp add: instrumented_Get_def idempotency_Get_def icache_GET_def demo_api_state_def io_calm empty_world_def)
  let ?v = "(metric ''cache_misses_idempotency'' ?w)\<lparr>w_uuids := [Some 10]\<rparr>"
  have v: "w_faults ?v = []" "w_rd ?v = demo_redis" "w_now ?v = 0" by (simp_all add: metric_def empty_world_def)
  from demo_DeductInventory [OF v(1,2)] obtain v' where
    d: "DeductInventory plain_ext 9 5 7 3 900 ?v = (Inr \<lparr>dr_Accepted = True, dr_EventID = 3, dr_AmountCents = 750, dr_Currency = ''usd''\<rparr>, v')"
      "w_now v' = 0" using v(3) by auto
  have u: "uuid_NewV7 (metric ''cache_misses_idempotency'' ?w) = (Some 9, ?v)" by (simp add: uuid_NewV7_def metric_def)
  have cur: "isValidCurrencyCode (NormalizeCurrency plain_ext ''usd'')" by code_simp
  have "\<exists>o'. fst (BookTicket plain_ext 900 100 7 5 3 (metric ''cache_misses_idempotency'' ?w)) = Inr o'"
    using u d v(3) cur by (simp add: BookTicket_def with_repair_def NewReservation_def Let_def)
  then have "rs_Status (fst (HandleBook plain_ext (BookTicket plain_ext 900 100) (Some \<lparr>br_UserID = 7, br_TicketTypeID = 5, br_Quantity = 3\<rparr>)
      (metric ''cache_misses_idempotency'' ?w))) = 202"
    by (auto simp: HandleBook_def bind_BookingRequest_def split: prod.splits)
  moreover have "IsValidIdempotencyKey ''k''" by code_simp
  ultimately show ?thesis using get
    by (auto simp: demo_api_def POST_book_def BodySize_def demo_post_def Idempotency_def MaxBytesReader_def book_handler_def on_world_def
        split: prod.splits)
qed

text \<open>The replay of a booking by a service that accepts one order.\<close>

definition demo_served :: "(raw_request \<times> response) list \<times> api_state" where
  "demo_served = serve_all (POST_book plain_ext (\<lambda>b. of_nat (length b)) (\<lambda>b. Some \<lparr>br_UserID = 7, br_TicketTypeID = 5, br_Quantity = 3\<rparr>) 86400
     (\<lambda>user tt qty w. (Inr demo_order, w))) (map Serve [demo_post ''ab'', demo_post ''ab'']) (Map.empty, empty_world)"

lemma demo_served_answers:
  "map (\<lambda>(q, a). (rs_Status a, rs_Replayed a)) (fst demo_served) = [(202, False), (202, True)]"
  by code_simp

lemma replays_are_true_witness:
  "\<exists>rq0 r0. (rq0, r0) \<in> set (take 1 (fst demo_served)) \<and> \<not> rs_Replayed r0 \<and> rs_Status r0 = 202"
proof -
  obtain log s' where run: "demo_served = (log, s')" by (metis surj_pair)
  obtain q0 a0 q1 a1 where log: "log = [(q0, a0)] @ (q1, a1) # []" "rs_Replayed a1" "rs_Status a1 = 202"
    using demo_served_answers [unfolded run] by (auto simp: map_eq_Cons_conv)
  from replays_are_true [OF run [unfolded demo_served_def] log(1,2)] have "\<not> rs_Replayed a0 \<and> rs_Status a0 = 202"
    using log(3) by auto
  then show ?thesis unfolding run log(1) by auto
qed


end
