(* ===== verification/Stage_Compensation.thy ===== *)
theory Stage_Compensation
  imports Expiry
begin

text \<open>
  The abandon path of the comparison servers \<open>cmd/booking-cli-stage1\<close> to \<open>stage3\<close> (\<open>server.go\<close> each): the
  compensation of one unpaid order, one transaction per stage, and the sweeper that calls it for overdue
  orders. Sweeper and handlers know the compensation by the interface \<open>expiry.Compensator\<close>; its
  contract is the locale \<open>compensator\<close>, interpreted on all four compensators of the program.
\<close>

section \<open>The three compensators\<close>

text \<open>Stage 1 scans \<open>ticket_type_id\<close> into a plain \<open>uuid.UUID\<close>, whose \<open>Scan\<close> turns NULL into the nil id, and looks
  at neither number of affected rows.\<close>

definition stage1_tx :: "uuid \<Rightarrow> world \<Rightarrow> (err + unit) \<times> world" where
  "stage1_tx i w = (case sql_query (\<lambda>p. lookup or_id i (pg_orders p)) w of
     (Inl e, w1) \<Rightarrow> (Inl (Wrap ''lock order'' e), w1)
   | (Inr None, w1) \<Rightarrow> (Inl (Wrap ''lock order'' (Plain ''sql: no rows in result set'')), w1)
   | (Inr (Some r), w1) \<Rightarrow>
      if or_status r \<noteq> AwaitingPayment then (Inl (Sentinel ErrCompensateNotEligible), w1)
      else case sql_exec (sql_restore_type (case or_tt r of None \<Rightarrow> uuid_Nil | Some tt \<Rightarrow> tt) (or_qty r)) w1 of
        (Inl e, w2) \<Rightarrow> (Inl (Wrap ''revert inventory'' e), w2)
      | (Inr _, w2) \<Rightarrow> (case sql_exec (sql_compensate_unpaid i) w2 of
           (Inl e, w3) \<Rightarrow> (Inl (Wrap ''mark compensated'' e), w3)
         | (Inr _, w3) \<Rightarrow> (Inr (), w3)))"

definition stage1_Compensate :: "uuid \<Rightarrow> world \<Rightarrow> (err + unit) \<times> world" where
  "stage1_Compensate i = db_tx ''begin'' ''commit'' (\<lambda>w. w) (stage1_tx i)"

definition stage2_tx :: "ext \<Rightarrow> uuid \<Rightarrow> world \<Rightarrow> (err + unit) \<times> world" where
  "stage2_tx X i w = (case sql_query (\<lambda>p. lookup or_id i (pg_orders p)) w of
     (Inl e, w1) \<Rightarrow> (Inl (Wrap ''lock order'' e), w1)
   | (Inr None, w1) \<Rightarrow> (Inl (Sentinel ErrCompensateNotEligible), w1)
   | (Inr (Some r), w1) \<Rightarrow>
      if or_status r \<noteq> AwaitingPayment then (Inl (Sentinel ErrCompensateNotEligible), w1)
      else case or_tt r of
        None \<Rightarrow> (Inl (Sentinel ErrCompensateNotEligible), w1)
      | Some tt \<Rightarrow> (case RevertInventory tt (or_qty r) (''order:'' @ uuid_String X i) w1 of
           (Inl e, w2) \<Rightarrow> (Inl (Wrap ''redis revert'' e), w2)
         | (Inr _, w2) \<Rightarrow> (case sql_exec (sql_compensate_unpaid i) w2 of
              (Inl e, w3) \<Rightarrow> (Inl (Wrap ''mark compensated'' e), w3)
            | (Inr _, w3) \<Rightarrow> (Inr (), w3))))"

definition stage2_Compensate :: "ext \<Rightarrow> uuid \<Rightarrow> world \<Rightarrow> (err + unit) \<times> world" where
  "stage2_Compensate X i = db_tx ''begin'' ''commit'' (\<lambda>w. w) (stage2_tx X i)"

definition stage3_tx :: "ext \<Rightarrow> uuid \<Rightarrow> world \<Rightarrow> (err + unit) \<times> world" where
  "stage3_tx X i w = (case sql_query (\<lambda>p. lookup or_id i (pg_orders p)) w of
     (Inl e, w1) \<Rightarrow> (Inl (Wrap ''lock order'' e), w1)
   | (Inr None, w1) \<Rightarrow> (Inl (Sentinel ErrCompensateNotEligible), w1)
   | (Inr (Some r), w1) \<Rightarrow>
      if or_status r \<noteq> AwaitingPayment then (Inl (Sentinel ErrCompensateNotEligible), w1)
      else case or_tt r of
        None \<Rightarrow> (Inl (Sentinel ErrCompensateNotEligible), w1)
      | Some tt \<Rightarrow> (case RevertInventory tt (or_qty r) (''order:'' @ uuid_String X i) w1 of
           (Inl e, w2) \<Rightarrow> (Inl (Wrap ''redis revert'' e), w2)
         | (Inr _, w2) \<Rightarrow> (case sql_exec (sql_restore_type tt (or_qty r)) w2 of
              (Inl e, w3) \<Rightarrow> (Inl (Wrap ''revert pg inventory'' e), w3)
            | (Inr n, w3) \<Rightarrow>
                if n = 0 then (Inl (Plain ''revert pg inventory: no event_ticket_types row''), w3)
                else (case sql_exec (sql_compensate_unpaid i) w3 of
                   (Inl e, w4) \<Rightarrow> (Inl (Wrap ''mark compensated'' e), w4)
                 | (Inr _, w4) \<Rightarrow> (Inr (), w4)))))"

definition stage3_Compensate :: "ext \<Rightarrow> uuid \<Rightarrow> world \<Rightarrow> (err + unit) \<times> world" where
  "stage3_Compensate X i = db_tx ''begin'' ''commit'' (\<lambda>w. w) (stage3_tx X i)"

section \<open>The sweeper\<close>

text \<open>\<open>sweepOnce\<close> is the same in the three servers. The query has no \<open>ORDER BY\<close>: a batch is up to 100 of the
  overdue rows, here in table order. The cancellation of the context is looked at before each order; an
  error of a compensation is logged.\<close>

fun sweep_ids :: "(uuid \<Rightarrow> world \<Rightarrow> (err + unit) \<times> world) \<Rightarrow> uuid list \<Rightarrow> world \<Rightarrow> world" where
  "sweep_ids cmp [] w = w"
| "sweep_ids cmp (i # is) w = (case ctx_Err w of
     (True, w1) \<Rightarrow> w1
   | (False, w1) \<Rightarrow> sweep_ids cmp is (snd (cmp i w1)))"

definition sweepOnce :: "duration \<Rightarrow> (uuid \<Rightarrow> world \<Rightarrow> (err + unit) \<times> world) \<Rightarrow> world \<Rightarrow> world" where
  "sweepOnce grace cmp w = (case sql_query (\<lambda>p. map or_id (take 100 (filter (overdue_row grace (pg_now p)) (pg_orders p)))) w of
     (Inl e, w1) \<Rightarrow> w1
   | (Inr orderIDs, w1) \<Rightarrow> sweep_ids cmp orderIDs w1)"

section \<open>The contract of a compensator\<close>

text \<open>The order of a compensation moves from \<open>awaiting_payment\<close> to \<open>compensated\<close> or stays, nothing else of
  the table of orders changes, and success means that it was moved. Redis gets the tickets of an
  unpaid order back, once for its compensation key, or is left alone.\<close>

definition compensates :: "uuid \<Rightarrow> pg \<Rightarrow> pg \<Rightarrow> bool" where
  "compensates i p p' \<longleftrightarrow> (\<exists>r ts. lookup or_id i (pg_orders p) = Some r \<and> or_status r = AwaitingPayment \<and> p' = p\<lparr>pg_types := ts,
     pg_orders := update_where (\<lambda>x. or_id x = i \<and> or_status x = AwaitingPayment) (\<lambda>x. x\<lparr>or_status := Compensated\<rparr>) (pg_orders p)\<rparr>)"

definition redis_given_back :: "ext \<Rightarrow> uuid \<Rightarrow> pg \<Rightarrow> redis \<Rightarrow> redis \<Rightarrow> bool" where
  "redis_given_back X i p r r' \<longleftrightarrow> r' = r \<or> (\<exists>row tt. lookup or_id i (pg_orders p) = Some row \<and> or_status row = AwaitingPayment \<and>
     or_tt row = Some tt \<and> gave tt (or_qty row) (''order:'' @ uuid_String X i) r r')"

definition paid_back_row :: "order_row option \<Rightarrow> order_row option \<Rightarrow> bool" where
  "paid_back_row a b \<longleftrightarrow> (\<exists>r. a = Some r \<and> or_status r = AwaitingPayment \<and> b = Some (r\<lparr>or_status := Compensated\<rparr>))"

lemma paid_back_row_twice: "paid_back_row a b \<Longrightarrow> \<not> paid_back_row b c"
  by (auto simp: paid_back_row_def)

lemma compensates_lookup:
  assumes "compensates i p p'"
  shows "lookup or_id j (pg_orders p') = lookup or_id j (pg_orders p) \<or>
    j = i \<and> paid_back_row (lookup or_id j (pg_orders p)) (lookup or_id j (pg_orders p'))"
proof (cases "lookup or_id j (pg_orders p)")
  case None
  with assms show ?thesis by (auto simp: compensates_def lookup_update_where)
next
  case (Some r)
  with assms lookup_in_set [OF Some] show ?thesis
    by (auto simp: compensates_def lookup_update_where paid_back_row_def split: if_splits)
qed

locale compensator =
  fixes X :: ext and Compensate :: "uuid \<Rightarrow> world \<Rightarrow> (err + unit) \<times> world"
  assumes effect: "Compensate i w = (res, w') \<Longrightarrow> w_failed w' = w_failed w \<and> redis_given_back X i (w_pg w) (w_rd w) (w_rd w') \<and>
      (w_pg w' = w_pg w \<or> compensates i (w_pg w) (w_pg w'))"
    and done_is_done: "Compensate i w = (Inr u, w') \<Longrightarrow> compensates i (w_pg w) (w_pg w')"
begin

text \<open>What a number of compensations has done to an order: nothing, or the one transition.\<close>

definition settled :: "uuid set \<Rightarrow> world \<Rightarrow> world \<Rightarrow> bool" where
  "settled is w v \<longleftrightarrow> (\<forall>j. lookup or_id j (pg_orders (w_pg v)) = lookup or_id j (pg_orders (w_pg w)) \<or>
     j \<in> is \<and> paid_back_row (lookup or_id j (pg_orders (w_pg w))) (lookup or_id j (pg_orders (w_pg v))))"

lemma settled_refl: "w_pg v = w_pg w \<Longrightarrow> settled is w v"
  by (simp add: settled_def)

lemma settled_step:
  assumes st: "settled is w v" and run: "Compensate i v = (res, v')" and i: "i \<in> is"
  shows "settled is w v'"
proof -
  have one: "lookup or_id j (pg_orders (w_pg v')) = lookup or_id j (pg_orders (w_pg v)) \<or>
      j = i \<and> paid_back_row (lookup or_id j (pg_orders (w_pg v))) (lookup or_id j (pg_orders (w_pg v')))" for j
    using effect [OF run] compensates_lookup [of i "w_pg v" "w_pg v'" j] by auto
  show ?thesis unfolding settled_def
  proof
    fix j
    from st [unfolded settled_def, rule_format, of j] one [of j] i
    show "lookup or_id j (pg_orders (w_pg v')) = lookup or_id j (pg_orders (w_pg w)) \<or>
      j \<in> is \<and> paid_back_row (lookup or_id j (pg_orders (w_pg w))) (lookup or_id j (pg_orders (w_pg v')))"
      by (auto dest: paid_back_row_twice)
  qed
qed

lemma sweep_ids_settles: "settled is w v \<Longrightarrow> set ids \<subseteq> is \<Longrightarrow> settled is w (sweep_ids Compensate ids v)"
proof (induction ids arbitrary: v)
  case (Cons i ids)
  obtain b v1 where c: "ctx_Err v = (b, v1)" by (metis surj_pair)
  have v1: "settled is w v1" using Cons.prems(1) c by (auto simp: settled_def ctx_Err_def split: prod.splits dest!: io_pair)
  obtain res v2 where e: "Compensate i v1 = (res, v2)" by (metis surj_pair)
  from Cons.IH [OF settled_step [OF v1 e]] Cons.prems(2) v1 c e show ?case by (cases b) auto
qed simp

lemma sweepOnce_settles:
  "settled (or_id ` {r \<in> set (pg_orders (w_pg w)). overdue_row grace (pg_now (w_pg w)) r}) w (sweepOnce grace Compensate w)"
proof -
  obtain q w1 where q: "sql_query (\<lambda>p. map or_id (take 100 (filter (overdue_row grace (pg_now p)) (pg_orders p)))) w = (q, w1)"
    by (metis surj_pair)
  have w1: "w_pg w1 = w_pg w" using sql_query_frame [OF q] by simp
  show ?thesis
  proof (cases q)
    case (Inr ids)
    have "ids = map or_id (take 100 (filter (overdue_row grace (pg_now (w_pg w))) (pg_orders (w_pg w))))"
      using sql_query_result q Inr by fastforce
    then have "set ids \<subseteq> or_id ` {r \<in> set (pg_orders (w_pg w)). overdue_row grace (pg_now (w_pg w)) r}"
      by (auto dest: in_set_takeD)
    with sweep_ids_settles [OF settled_refl [OF w1]] q Inr show ?thesis by (simp add: sweepOnce_def)
  qed (use q w1 settled_refl in \<open>simp add: sweepOnce_def\<close>)
qed

end

text \<open>A compensator that keeps the books of the database too.\<close>

locale ledger_compensator = compensator +
  assumes books: "Compensate i w = (res, w') \<Longrightarrow> sys_ok w \<Longrightarrow> sys_ok w'"
begin

lemma sweep_ids_books: "sys_ok w \<Longrightarrow> sys_ok (sweep_ids Compensate ids w)"
proof (induction ids arbitrary: w)
  case (Cons i ids)
  obtain b w1 where c: "ctx_Err w = (b, w1)" by (metis surj_pair)
  have w1: "sys_ok w1" using Cons.prems c by (auto simp: sys_ok_def events_ok_def ctx_Err_def split: prod.splits dest!: io_pair)
  obtain res w2 where e: "Compensate i w1 = (res, w2)" by (metis surj_pair)
  from Cons.IH [OF books [OF e w1]] w1 c e show ?case by (cases b) auto
qed simp

lemma sweepOnce_books: "sys_ok w \<Longrightarrow> sys_ok (sweepOnce grace Compensate w)"
proof -
  assume ok: "sys_ok w"
  obtain q w1 where q: "sql_query (\<lambda>p. map or_id (take 100 (filter (overdue_row grace (pg_now p)) (pg_orders p)))) w = (q, w1)"
    by (metis surj_pair)
  have "sys_ok w1" using ok sql_query_frame [OF q] by (simp add: sys_ok_def events_ok_def)
  with sweep_ids_books q show ?thesis by (cases q) (auto simp: sweepOnce_def)
qed

end

section \<open>All compensators of the program keep it\<close>

text \<open>The transaction around a body that, when it returns, has compensated.\<close>

definition compensating :: "ext \<Rightarrow> uuid \<Rightarrow> world \<Rightarrow> err + unit \<Rightarrow> world \<Rightarrow> bool" where
  "compensating X i w res w' \<longleftrightarrow> w_failed w' = w_failed w \<and> redis_given_back X i (w_pg w) (w_rd w) (w_rd w') \<and>
     (is_ok res \<longrightarrow> compensates i (w_pg w) (w_pg w'))"

lemma db_tx_compensates:
  assumes body: "\<And>w res w'. body w = (res, w') \<Longrightarrow> compensating X i w res w'"
    and run: "db_tx b c (\<lambda>w. w) body w = (res, w')"
  shows "w_failed w' = w_failed w \<and> redis_given_back X i (w_pg w) (w_rd w) (w_rd w') \<and> (w_pg w' = w_pg w \<or> compensates i (w_pg w) (w_pg w'))"
    and "res = Inr u \<Longrightarrow> compensates i (w_pg w) (w_pg w')"
proof -
  obtain f w1 where f: "io w = (f, w1)" by (metis surj_pair)
  obtain x w2 where x: "body w1 = (x, w2)" by (metis surj_pair)
  obtain g w3 where g: "io w2 = (g, w3)" by (metis surj_pair)
  note fr = io_pair [OF f] io_pair [OF g] body [OF x, unfolded compensating_def]
  have same: "redis_given_back X i (w_pg w) (w_rd w) (w_rd w)" by (simp add: redis_given_back_def)
  have "(w_failed w' = w_failed w \<and> redis_given_back X i (w_pg w) (w_rd w) (w_rd w') \<and> (w_pg w' = w_pg w \<or> compensates i (w_pg w) (w_pg w'))) \<and>
      (is_ok res \<longrightarrow> compensates i (w_pg w) (w_pg w'))"
  proof (cases "f = Works")
    case False
    then show ?thesis using run f fr same by (cases f) (auto simp: db_tx_def)
  next
    case True
    show ?thesis
    proof (cases x)
      case (Inl e)
      then show ?thesis using run f x g fr True by (auto simp: db_tx_def)
    next
      case (Inr a)
      then show ?thesis using run f x g fr True by (cases g) (auto simp: db_tx_def)
    qed
  qed
  then show "w_failed w' = w_failed w \<and> redis_given_back X i (w_pg w) (w_rd w) (w_rd w') \<and> (w_pg w' = w_pg w \<or> compensates i (w_pg w) (w_pg w'))"
    and "res = Inr u \<Longrightarrow> compensates i (w_pg w) (w_pg w')" by auto
qed

lemma RevertInventory_given_back:
  assumes rv: "RevertInventory tt (or_qty r) (''order:'' @ uuid_String X i) w = (x, w')"
    and r: "lookup or_id i (pg_orders (w_pg w)) = Some r" "or_status r = AwaitingPayment" "or_tt r = Some tt"
  shows "w_failed w' = w_failed w \<and> w_pg w' = w_pg w \<and> redis_given_back X i (w_pg w) (w_rd w) (w_rd w')"
  using RevertInventory_frame [OF rv] RevertInventory_outcome [OF rv] r by (auto simp: redis_given_back_def split: if_splits)

text \<open>A body that gives the tickets back to the database as well.\<close>

definition paying_back :: "uuid \<Rightarrow> world \<Rightarrow> err + unit \<Rightarrow> world \<Rightarrow> bool" where
  "paying_back i w res w' \<longleftrightarrow> (is_ok res \<longrightarrow> typed (w_pg w) \<longrightarrow> (\<exists>r tt. lookup or_id i (pg_orders (w_pg w)) = Some r \<and>
     or_status r = AwaitingPayment \<and> or_tt r = Some tt \<and> w_pg w' = stage5_paid_back tt (or_qty r) i (w_pg w)))"

lemma stage5_paid_back_compensates:
  "lookup or_id i (pg_orders p) = Some r \<Longrightarrow> or_status r = AwaitingPayment \<Longrightarrow> compensates i p (stage5_paid_back tt q i p)"
  unfolding compensates_def stage5_paid_back_def by blast

lemma stage1_body: "stage1_tx i w = (res, w') \<Longrightarrow> compensating X i w res w' \<and> paying_back i w res w'"
proof -
  assume run: "stage1_tx i w = (res, w')"
  obtain q w1 where q: "sql_query (\<lambda>p. lookup or_id i (pg_orders p)) w = (q, w1)" by (metis surj_pair)
  note fq = sql_query_frame [OF q]
  show ?thesis
  proof (cases "\<exists>r. q = Inr (Some r) \<and> or_status r = AwaitingPayment")
    case False
    then have "w' = w1 \<and> \<not> is_ok res" using run q by (auto simp: stage1_tx_def split: sum.splits option.splits if_splits)
    with fq show ?thesis by (simp add: compensating_def redis_given_back_def paying_back_def)
  next
    case True
    then obtain r where r: "q = Inr (Some r)" "or_status r = AwaitingPayment" by blast
    have row: "lookup or_id i (pg_orders (w_pg w)) = Some r" using sql_query_result [OF q [unfolded r(1)]] by simp
    let ?tt = "case or_tt r of None \<Rightarrow> uuid_Nil | Some tt \<Rightarrow> tt"
    obtain y w2 where y: "sql_exec (sql_restore_type ?tt (or_qty r)) w1 = (y, w2)" by (metis surj_pair)
    obtain z w3 where z: "sql_exec (sql_compensate_unpaid i) w2 = (z, w3)" by (metis surj_pair)
    note fr = sql_exec_frame [OF y] sql_exec_frame [OF z] fq
    show ?thesis
    proof (cases "\<exists>n m. y = Inr n \<and> z = Inr m")
      case False
      then have "\<not> is_ok res \<and> w' \<in> {w2, w3}"
        using run q r y z by (auto simp: stage1_tx_def split: sum.splits)
      with fr show ?thesis by (auto simp: compensating_def redis_given_back_def paying_back_def)
    next
      case True
      then obtain n m where nm: "y = Inr n" "z = Inr m" by blast
      then have "w' = w3" using run q r y z by (simp add: stage1_tx_def)
      moreover have pg: "w_pg w3 = stage5_paid_back ?tt (or_qty r) i (w_pg w)"
        using sql_restore_type_effect [OF sql_exec_Inr [OF y [unfolded nm(1)]]] sql_compensate_unpaid_effect [OF sql_exec_Inr [OF z [unfolded nm(2)]]]
          fq by (simp add: stage5_paid_back_def)
      moreover have "compensates i (w_pg w) (w_pg w3)" unfolding pg by (rule stage5_paid_back_compensates [OF row r(2)])
      moreover have "typed (w_pg w) \<Longrightarrow> \<exists>tt. or_tt r = Some tt \<and> ?tt = tt"
        using lookup_in_set [OF row] by (auto simp: typed_def list_all_iff split: option.splits)
      ultimately show ?thesis using fr row r(2) by (auto simp: compensating_def redis_given_back_def paying_back_def)
    qed
  qed
qed

lemma stage2_body: "stage2_tx X i w = (res, w') \<Longrightarrow> compensating X i w res w'"
proof -
  assume run: "stage2_tx X i w = (res, w')"
  obtain q w1 where q: "sql_query (\<lambda>p. lookup or_id i (pg_orders p)) w = (q, w1)" by (metis surj_pair)
  note fq = sql_query_frame [OF q]
  show ?thesis
  proof (cases "\<exists>r tt. q = Inr (Some r) \<and> or_status r = AwaitingPayment \<and> or_tt r = Some tt")
    case False
    then have "w' = w1 \<and> \<not> is_ok res" using run q by (auto simp: stage2_tx_def split: sum.splits option.splits if_splits)
    with fq show ?thesis by (simp add: compensating_def redis_given_back_def)
  next
    case True
    then obtain r tt where r: "q = Inr (Some r)" "or_status r = AwaitingPayment" "or_tt r = Some tt" by blast
    have row: "lookup or_id i (pg_orders (w_pg w)) = Some r" using sql_query_result [OF q [unfolded r(1)]] by simp
    obtain x w2 where x: "RevertInventory tt (or_qty r) (''order:'' @ uuid_String X i) w1 = (x, w2)" by (metis surj_pair)
    have gb: "w_failed w2 = w_failed w \<and> w_pg w2 = w_pg w \<and> redis_given_back X i (w_pg w) (w_rd w) (w_rd w2)"
      using RevertInventory_given_back [OF x] row r fq by simp
    obtain z w3 where z: "sql_exec (sql_compensate_unpaid i) w2 = (z, w3)" by (metis surj_pair)
    note fr = sql_exec_frame [OF z] fq
    have out: "w' \<in> {w2, w3} \<and> (is_ok res \<longrightarrow> w' = w3 \<and> (\<exists>m. z = Inr m))"
      using run q r x z by (auto simp: stage2_tx_def split: sum.splits)
    have "compensates i (w_pg w) (w_pg w3)" if "z = Inr m" for m
      using sql_compensate_unpaid_effect [OF sql_exec_Inr [OF z [unfolded that]]] gb row r(2)
      unfolding compensates_def by (intro exI [of _ r] exI [of _ "pg_types (w_pg w)"]) simp
    with out gb fr show ?thesis by (auto simp: compensating_def)
  qed
qed

lemma stage3_body: "stage3_tx X i w = (res, w') \<Longrightarrow> compensating X i w res w' \<and> paying_back i w res w'"
proof -
  assume run: "stage3_tx X i w = (res, w')"
  obtain q w1 where q: "sql_query (\<lambda>p. lookup or_id i (pg_orders p)) w = (q, w1)" by (metis surj_pair)
  note fq = sql_query_frame [OF q]
  show ?thesis
  proof (cases "\<exists>r tt. q = Inr (Some r) \<and> or_status r = AwaitingPayment \<and> or_tt r = Some tt")
    case False
    then have "w' = w1 \<and> \<not> is_ok res" using run q by (auto simp: stage3_tx_def split: sum.splits option.splits if_splits)
    with fq show ?thesis by (simp add: compensating_def redis_given_back_def paying_back_def)
  next
    case True
    then obtain r tt where r: "q = Inr (Some r)" "or_status r = AwaitingPayment" "or_tt r = Some tt" by blast
    have row: "lookup or_id i (pg_orders (w_pg w)) = Some r" using sql_query_result [OF q [unfolded r(1)]] by simp
    obtain x w2 where x: "RevertInventory tt (or_qty r) (''order:'' @ uuid_String X i) w1 = (x, w2)" by (metis surj_pair)
    have gb: "w_failed w2 = w_failed w \<and> w_pg w2 = w_pg w \<and> redis_given_back X i (w_pg w) (w_rd w) (w_rd w2)"
      using RevertInventory_given_back [OF x] row r fq by simp
    obtain y w3 where y: "sql_exec (sql_restore_type tt (or_qty r)) w2 = (y, w3)" by (metis surj_pair)
    obtain z w4 where z: "sql_exec (sql_compensate_unpaid i) w3 = (z, w4)" by (metis surj_pair)
    note fr = sql_exec_frame [OF y] sql_exec_frame [OF z] fq
    have out: "w' \<in> {w2, w3, w4} \<and> (is_ok res \<longrightarrow> w' = w4 \<and> (\<exists>n m. y = Inr n \<and> z = Inr m))"
      using run q r x y z by (auto simp: stage3_tx_def split: sum.splits if_splits)
    have "w_pg w4 = stage5_paid_back tt (or_qty r) i (w_pg w)" if "y = Inr n" "z = Inr m" for n m
      using sql_restore_type_effect [OF sql_exec_Inr [OF y [unfolded that(1)]]] sql_compensate_unpaid_effect [OF sql_exec_Inr [OF z [unfolded that(2)]]]
        gb by (simp add: stage5_paid_back_def)
    with out gb fr row r stage5_paid_back_compensates [OF row r(2), of tt "or_qty r"] show ?thesis
      by (auto simp: compensating_def paying_back_def)
  qed
qed

text \<open>The stage-5 transaction is the stage-3 one with one more check at the end.\<close>

lemma stage5_as_stage3: "stage5_tx X i w = (res, w') \<Longrightarrow> \<exists>res3. stage3_tx X i w = (res3, w') \<and> (is_ok res \<longrightarrow> is_ok res3)"
  by (auto simp: stage5_tx_def stage3_tx_def split: prod.splits sum.splits option.splits if_splits)

lemma stage5_body: "stage5_tx X i w = (res, w') \<Longrightarrow> compensating X i w res w' \<and> paying_back i w res w'"
  using stage5_as_stage3 stage3_body by (fastforce simp: compensating_def paying_back_def)

lemma stage5_paid_back_sys_ok:
  assumes r: "lookup or_id i (pg_orders (w_pg w)) = Some r" "or_tt r = Some tt" "or_status r = AwaitingPayment"
    and ok: "sys_ok w" and w': "w_pg w' = stage5_paid_back tt (or_qty r) i (w_pg w)" "w_failed w' = w_failed w"
  shows "sys_ok w'"
proof -
  have db: "db_ok (w_pg w')" using stage5_paid_back_db_ok(1) [OF _ r] ok by (simp add: w' sys_ok_def)
  have rows: "lookup or_id j (pg_orders (w_pg w')) = map_option (\<lambda>x. if or_id x = i \<and> or_status x = AwaitingPayment
      then x\<lparr>or_status := Compensated\<rparr> else x) (lookup or_id j (pg_orders (w_pg w)))" for j
    by (simp add: w' stage5_paid_back_def lookup_update_where)
  have "typed (w_pg w')" using ok by (auto simp: sys_ok_def typed_def w' stage5_paid_back_def list_all_iff update_where_def)
  moreover have "faithful (w_pg w) ev \<Longrightarrow> faithful (w_pg w') ev" for ev
    by (auto simp: faithful_def rows speaks_of_def split: option.splits)
  then have "event_ok (w_pg w) e \<Longrightarrow> event_ok (w_pg w') e" for e
    by (auto simp: event_ok_def split: payload.splits)
  ultimately show ?thesis using ok db by (auto simp: sys_ok_def events_ok_def w' stage5_paid_back_def list_all_iff)
qed

lemma db_tx_books:
  assumes body: "\<And>w res w'. body w = (res, w') \<Longrightarrow> compensating X i w res w' \<and> paying_back i w res w'"
    and run: "db_tx b c (\<lambda>w. w) body w = (res, w')" and ok: "sys_ok w"
  shows "sys_ok w'"
proof -
  have fl: "w_failed w' = w_failed w" using db_tx_compensates(1) [OF _ run] body by blast
  from db_tx_id_cases [OF run] show ?thesis
  proof (elim disjE exE conjE)
    fix w1 x w2
    assume b: "w_pg w1 = w_pg w" "body w1 = (x, w2)" "x = Inr ()" "w_pg w' = w_pg w2"
    then obtain r tt where "lookup or_id i (pg_orders (w_pg w)) = Some r" "or_tt r = Some tt" "or_status r = AwaitingPayment"
      "w_pg w' = stage5_paid_back tt (or_qty r) i (w_pg w)"
      using body [OF b(2)] ok by (auto simp: paying_back_def sys_ok_def)
    from stage5_paid_back_sys_ok [OF this(1-3) ok this(4) fl] show ?thesis .
  qed (use ok fl in \<open>simp_all add: sys_ok_def events_ok_def\<close>)
qed

interpretation stage1: ledger_compensator X stage1_Compensate for X
proof
  fix i w res w' u
  show "stage1_Compensate i w = (res, w') \<Longrightarrow> w_failed w' = w_failed w \<and> redis_given_back X i (w_pg w) (w_rd w) (w_rd w') \<and>
      (w_pg w' = w_pg w \<or> compensates i (w_pg w) (w_pg w'))"
    unfolding stage1_Compensate_def by (rule db_tx_compensates(1)) (use stage1_body in blast)+
  show "stage1_Compensate i w = (Inr u, w') \<Longrightarrow> compensates i (w_pg w) (w_pg w')"
    unfolding stage1_Compensate_def by (rule db_tx_compensates(2) [where X = X]) (use stage1_body in blast)+
  show "stage1_Compensate i w = (res, w') \<Longrightarrow> sys_ok w \<Longrightarrow> sys_ok w'"
    unfolding stage1_Compensate_def by (rule db_tx_books [where X = X]) (use stage1_body in blast)+
qed

interpretation stage2: compensator X "stage2_Compensate X" for X
proof
  fix i w res w' u
  show "stage2_Compensate X i w = (res, w') \<Longrightarrow> w_failed w' = w_failed w \<and> redis_given_back X i (w_pg w) (w_rd w) (w_rd w') \<and>
      (w_pg w' = w_pg w \<or> compensates i (w_pg w) (w_pg w'))"
    unfolding stage2_Compensate_def by (rule db_tx_compensates(1)) (use stage2_body in blast)+
  show "stage2_Compensate X i w = (Inr u, w') \<Longrightarrow> compensates i (w_pg w) (w_pg w')"
    unfolding stage2_Compensate_def by (rule db_tx_compensates(2) [where X = X]) (use stage2_body in blast)+
qed

interpretation stage3: ledger_compensator X "stage3_Compensate X" for X
proof
  fix i w res w' u
  show "stage3_Compensate X i w = (res, w') \<Longrightarrow> w_failed w' = w_failed w \<and> redis_given_back X i (w_pg w) (w_rd w) (w_rd w') \<and>
      (w_pg w' = w_pg w \<or> compensates i (w_pg w) (w_pg w'))"
    unfolding stage3_Compensate_def by (rule db_tx_compensates(1)) (use stage3_body in blast)+
  show "stage3_Compensate X i w = (Inr u, w') \<Longrightarrow> compensates i (w_pg w) (w_pg w')"
    unfolding stage3_Compensate_def by (rule db_tx_compensates(2) [where X = X]) (use stage3_body in blast)+
  show "stage3_Compensate X i w = (res, w') \<Longrightarrow> sys_ok w \<Longrightarrow> sys_ok w'"
    unfolding stage3_Compensate_def by (rule db_tx_books [where X = X]) (use stage3_body in blast)+
qed

interpretation stage5: ledger_compensator X "stage5_Compensate X" for X
proof
  fix i w res w' u
  show "stage5_Compensate X i w = (res, w') \<Longrightarrow> w_failed w' = w_failed w \<and> redis_given_back X i (w_pg w) (w_rd w) (w_rd w') \<and>
      (w_pg w' = w_pg w \<or> compensates i (w_pg w) (w_pg w'))"
    unfolding stage5_Compensate_def by (rule db_tx_compensates(1)) (use stage5_body in blast)+
  show "stage5_Compensate X i w = (Inr u, w') \<Longrightarrow> compensates i (w_pg w) (w_pg w')"
    unfolding stage5_Compensate_def by (rule db_tx_compensates(2) [where X = X]) (use stage5_body in blast)+
  show "stage5_Compensate X i w = (res, w') \<Longrightarrow> sys_ok w \<Longrightarrow> sys_ok w'"
    unfolding stage5_Compensate_def by (rule db_tx_books [where X = X]) (use stage5_body in blast)+
qed

text \<open>The comparison servers expire only overdue orders. Whatever calls fail, a sweep of the stage 1, 2 or 3
  server leaves every order as it was or moves it from awaiting payment to compensated, and it moves only
  orders whose reservation ended more than the grace period ago. The sweeps of stages 1 and 3,
  whose bookings take the tickets from the database, keep the schema, the books and the events.\<close>

theorem stage_sweep_expires_only_overdue:
  assumes comp: "C \<in> {stage1_Compensate, stage2_Compensate X, stage3_Compensate X}" and run: "w' = sweepOnce grace C w"
    and r: "lookup or_id i (pg_orders (w_pg w)) = Some r"
  shows "lookup or_id i (pg_orders (w_pg w')) \<in> {Some r, Some (r\<lparr>or_status := Compensated\<rparr>)} \<and>
    (lookup or_id i (pg_orders (w_pg w')) \<noteq> Some r \<longrightarrow> or_status r = AwaitingPayment \<and>
       (\<exists>q \<in> set (pg_orders (w_pg w)). or_id q = i \<and> overdue_row grace (pg_now (w_pg w)) q)) \<and>
    (C \<in> {stage1_Compensate, stage3_Compensate X} \<longrightarrow> sys_ok w \<longrightarrow> sys_ok w')"
proof -
  have settled: "stage1.settled (or_id ` {r \<in> set (pg_orders (w_pg w)). overdue_row grace (pg_now (w_pg w)) r}) w w'"
    using comp unfolding run
    by (auto intro: stage1.sweepOnce_settles stage2.sweepOnce_settles stage3.sweepOnce_settles)
  have "sys_ok w'" if "C \<in> {stage1_Compensate, stage3_Compensate X}" "sys_ok w"
    using that unfolding run by (auto intro: stage1.sweepOnce_books stage3.sweepOnce_books)
  moreover from settled [unfolded stage1.settled_def, rule_format, of i]
  have "lookup or_id i (pg_orders (w_pg w')) = Some r \<or> (\<exists>q \<in> set (pg_orders (w_pg w)). or_id q = i \<and> overdue_row grace (pg_now (w_pg w)) q) \<and>
      or_status r = AwaitingPayment \<and> lookup or_id i (pg_orders (w_pg w')) = Some (r\<lparr>or_status := Compensated\<rparr>)"
    using r by (auto simp: paid_back_row_def)
  ultimately show ?thesis by auto
qed

lemma stage_sweep_expires_only_overdue_witness:
  "map or_status (pg_orders (w_pg (sweepOnce 1 stage1_Compensate demo_unpaid_world))) = [Compensated] \<and>
    (\<exists>q \<in> set (pg_orders (w_pg demo_unpaid_world)). or_id q = 9 \<and> overdue_row 1 (pg_now (w_pg demo_unpaid_world)) q) \<and>
    sys_ok (sweepOnce 1 stage1_Compensate demo_unpaid_world)"
proof -
  let ?w' = "sweepOnce 1 stage1_Compensate demo_unpaid_world" and ?r = "demo_expired\<lparr>or_status := AwaitingPayment\<rparr>"
  have row: "lookup or_id 9 (pg_orders (w_pg demo_unpaid_world)) = Some ?r"
    by (simp add: demo_unpaid_world_def demo_saga_world_def demo_expired_def)
  have st: "map or_status (pg_orders (w_pg ?w')) = [Compensated]" by code_simp
  then have "lookup or_id 9 (pg_orders (w_pg ?w')) \<noteq> Some ?r" by (auto simp: map_eq_Cons_conv demo_expired_def split: if_splits)
  with stage_sweep_expires_only_overdue [OF _ refl row, of stage1_Compensate plain_ext 1] demo_unpaid_ok st show ?thesis by simp
qed

end
