(* ===== verification/Stage_Http.thy ===== *)
theory Stage_Http
  imports Api_Booking Stage_Compensation
begin

text \<open>
  The HTTP layer of the comparison servers: \<open>api/stagehttp\<close> (\<open>errors.go\<close>, \<open>handler.go\<close>) and the event
  handlers of \<open>cmd/booking-cli-stage1\<close> to \<open>stage3\<close>. These servers pay and confirm orders with SQL of
  their own instead of the order repository. A JSON answer built with \<open>gin.H\<close> is the
  body with the same fields; texts that repeat the error of a library are cut after their fixed part.
\<close>

section \<open>Errors\<close>

definition MapBookingError :: "err \<Rightarrow> int \<times> string" where
  "MapBookingError e =
    (if errors_Is e ErrStage5PublishFailed then (503, ''service temporarily unavailable; retry'')
     else if errors_Is e ErrTicketTypeNotFound then (404, ''ticket_type not found'')
     else if errors_Is e ErrOrderNotFound then (404, ''order not found'')
     else if errors_Is e ErrSoldOut then (409, ''sold out'')
     else if errors_Is e ErrUserAlreadyBought then (409, ''user has already booked this event'')
     else if errors_Is e ErrCompensateNotEligible then (409, ''order not in awaiting_payment state'')
     else if errors_Is e ErrInvalidUserID \<or> errors_Is e ErrInvalidQuantity \<or> errors_Is e ErrInvalidOrderTicketTypeID
     then (400, ''invalid request parameters'')
     else (500, ''internal error''))"

definition MapEventError :: "err \<Rightarrow> int \<times> string" where
  "MapEventError e =
    (if errors_Is e ErrInvalidEventName \<or> errors_Is e ErrInvalidTotalTickets \<or> errors_Is e ErrInvalidTicketTypeName \<or>
       errors_Is e ErrInvalidTicketTypePrice \<or> errors_Is e ErrInvalidTicketTypeCurrency
     then (400, ''invalid event parameters'')
     else (500, ''internal error''))"

section \<open>Booking and reading\<close>

definition stage_HandleBook ::
    "ext \<Rightarrow> (int \<Rightarrow> uuid \<Rightarrow> int \<Rightarrow> world \<Rightarrow> (err + order) \<times> world) \<Rightarrow> booking_request option \<Rightarrow> world \<Rightarrow> response \<times> world" where
  "stage_HandleBook X bookTicket body w = (case bind_BookingRequest body of
     None \<Rightarrow> (answer 400 (ErrorResponse ''invalid request: ''), w)
   | Some req \<Rightarrow> (case bookTicket (br_UserID req) (br_TicketTypeID req) (br_Quantity req) w of
        (Inl e, w1) \<Rightarrow> (error_answer (MapBookingError e), w1)
      | (Inr o', w1) \<Rightarrow> (answer 202 (BookingAcceptedBody
          \<lparr>ba_OrderID = id_of o', ba_Status = ''reserved'',
           ba_Message = ''reservation created; complete payment via links.pay before reserved_until'',
           ba_ReservedUntil = reservedUntil o', ba_ExpiresInSeconds = expires_in (w_now w1) (reservedUntil o'),
           ba_Self = ''/api/v1/orders/'' @ uuid_String X (id_of o'),
           ba_Pay = ''/api/v1/orders/'' @ uuid_String X (id_of o') @ ''/pay''\<rparr>), w1)))"

definition stage_HandleGetOrder ::
    "ext \<Rightarrow> (uuid \<Rightarrow> 's \<Rightarrow> (err + order) \<times> 's) \<Rightarrow> string \<Rightarrow> 's \<Rightarrow> response \<times> 's" where
  "stage_HandleGetOrder X getOrder rawID s = (case uuid_Parse X rawID of
     None \<Rightarrow> (answer 400 (ErrorResponse ''invalid order id''), s)
   | Some i \<Rightarrow> (case getOrder i s of
        (Inl e, s1) \<Rightarrow> (error_answer (MapBookingError e), s1)
      | (Inr o', s1) \<Rightarrow> (answer 200 (StageOrderBody
          \<lparr>so_OrderID = id_of o', so_Status = status_string (status o'), so_AmountCents = amountCents o',
           so_Currency = currency o', so_PaymentIntentID = paymentIntentID o', so_ReservedUntil = reservedUntil o'\<rparr>), s1)))"

section \<open>Paying\<close>

text \<open>The two \<open>UPDATE\<close> statements. They name the row by its id, so they touch at most one.\<close>

definition sql_stage_set_intent :: "uuid \<Rightarrow> string \<Rightarrow> pg \<Rightarrow> err + nat \<times> pg" where
  "sql_stage_set_intent i intent p = (case lookup or_id i (pg_orders p) of
     None \<Rightarrow> Inr (0, p)
   | Some r \<Rightarrow>
       if \<not> (or_intent r = None \<and> payable_row (pg_now p) r) then Inr (0, p)
       else let r' = r\<lparr>or_intent := Some intent\<rparr> in
         if order_violation r' (pg_orders p) then Inl (Sentinel PgUniqueViolation)
         else Inr (1, p\<lparr>pg_orders := update_where (\<lambda>x. or_id x = i) (\<lambda>_. r') (pg_orders p)\<rparr>))"

definition sql_stage_mark_paid :: "uuid \<Rightarrow> pg \<Rightarrow> err + nat \<times> pg" where
  "sql_stage_mark_paid i p = (case lookup or_id i (pg_orders p) of
     None \<Rightarrow> Inr (0, p)
   | Some r \<Rightarrow>
       if \<not> (or_intent r \<noteq> None \<and> payable_row (pg_now p) r) then Inr (0, p)
       else Inr (1, p\<lparr>pg_orders := update_where (\<lambda>x. or_id x = i) (\<lambda>_. r\<lparr>or_status := Paid\<rparr>) (pg_orders p)\<rparr>))"

definition intent_answer :: "uuid \<Rightarrow> string \<Rightarrow> int \<Rightarrow> string \<Rightarrow> response" where
  "intent_answer i intent amount cur = answer 200 (PaymentIntentBody
     \<lparr>pe_OrderID = i, pe_PaymentIntentID = intent, pe_ClientSecret = ''stub_secret_'' @ intent,
      pe_AmountCents = amount, pe_Currency = cur\<rparr>)"

definition not_awaiting :: "order_row \<Rightarrow> response" where
  "not_awaiting r = answer 409 (ErrorResponse (''order not in awaiting_payment state: '' @ status_string (or_status r)))"

text \<open>After an update that matched no row: another request was first, or the order has changed meanwhile. A NULL
  in a column that is scanned into a plain value is a scan error.\<close>

definition reread_intent :: "uuid \<Rightarrow> int \<Rightarrow> string \<Rightarrow> world \<Rightarrow> response \<times> world" where
  "reread_intent i amount cur w = (case sql_query (\<lambda>p. lookup or_id i (pg_orders p)) w of
     (Inl e, w1) \<Rightarrow> (answer 500 (ErrorResponse ''re-read order after race''), w1)
   | (Inr None, w1) \<Rightarrow> (answer 404 (ErrorResponse ''order not found''), w1)
   | (Inr (Some r), w1) \<Rightarrow> (case or_reserved r of
        None \<Rightarrow> (answer 500 (ErrorResponse ''re-read order after race''), w1)
      | Some until \<Rightarrow>
          if or_status r \<noteq> AwaitingPayment then (not_awaiting r, w1)
          else if \<not> w_now w1 < until then (answer 409 (ErrorResponse ''reservation expired''), w1)
          else (case or_intent r of
             None \<Rightarrow> (answer 500 (ErrorResponse ''race fallback: unexpected null intent on eligible row''), w1)
           | Some s \<Rightarrow> if s = '''' then (answer 500 (ErrorResponse ''race fallback: unexpected null intent on eligible row''), w1)
               else (intent_answer i s amount cur, w1))))"

definition HandlePayIntent :: "ext \<Rightarrow> string \<Rightarrow> string \<Rightarrow> world \<Rightarrow> response \<times> world" where
  "HandlePayIntent X prefix rawID w = (case uuid_Parse X rawID of
     None \<Rightarrow> (answer 400 (ErrorResponse ''invalid order id''), w)
   | Some i \<Rightarrow> (case sql_query (\<lambda>p. lookup or_id i (pg_orders p)) w of
        (Inl e, w1) \<Rightarrow> (answer 500 (ErrorResponse ''read order''), w1)
      | (Inr None, w1) \<Rightarrow> (answer 404 (ErrorResponse ''order not found''), w1)
      | (Inr (Some r), w1) \<Rightarrow> (case (or_amount r, or_cur r, or_reserved r) of
           (Some amount, Some cur, Some until) \<Rightarrow>
             if or_status r \<noteq> AwaitingPayment then (not_awaiting r, w1)
             else if \<not> w_now w1 < until then (answer 409 (ErrorResponse ''reservation expired''), w1)
             else if or_intent r \<noteq> None \<and> or_intent r \<noteq> Some ''''
             then (intent_answer i (the (or_intent r)) amount cur, w1)
             else (case uuid_NewV7 w1 of
                (None, w2) \<Rightarrow> (answer 500 (ErrorResponse ''mint intent id''), w2)
              | (Some u, w2) \<Rightarrow> (case sql_exec (sql_stage_set_intent i (prefix @ uuid_String X u)) w2 of
                   (Inl e, w3) \<Rightarrow> (answer 500 (ErrorResponse ''persist intent''), w3)
                 | (Inr n, w3) \<Rightarrow> if n = 0 then reread_intent i amount cur w3
                     else (intent_answer i (prefix @ uuid_String X u) amount cur, w3)))
         | _ \<Rightarrow> (answer 500 (ErrorResponse ''read order''), w1))))"

definition quoted_word :: "string \<Rightarrow> string" where
  "quoted_word s = [CHR 0x27] @ s @ [CHR 0x27]"

text \<open>The UTF-8 bytes of the dash in an error text.\<close>

definition em_dash :: string where
  "em_dash = map char_of [226 :: nat, 128, 148]"

definition HandleTestConfirm ::
    "ext \<Rightarrow> (uuid \<Rightarrow> world \<Rightarrow> (err + unit) \<times> world) \<Rightarrow> string \<Rightarrow> string \<Rightarrow> world \<Rightarrow> response \<times> world" where
  "HandleTestConfirm X compensate rawID outcome w = (case uuid_Parse X rawID of
     None \<Rightarrow> (answer 400 (ErrorResponse ''invalid order id''), w)
   | Some i \<Rightarrow>
      if outcome \<noteq> ''succeeded'' \<and> outcome \<noteq> ''failed''
      then (answer 400 (ErrorResponse (''outcome must be '' @ quoted_word ''succeeded'' @ '' or '' @ quoted_word ''failed'')), w)
      else if outcome = ''succeeded''
      then (case sql_exec (sql_stage_mark_paid i) w of
          (Inl e, w1) \<Rightarrow> (answer 500 (ErrorResponse ''mark paid''), w1)
        | (Inr n, w1) \<Rightarrow> if n = 0
            then (answer 409 (ErrorResponse ''order not eligible for paid (already terminal / no /pay / expired)''), w1)
            else (answer 200 (StatusBody ''paid''), w1))
      else (case sql_query (\<lambda>p. lookup or_id i (pg_orders p)) w of
          (Inl e, w1) \<Rightarrow> (answer 500 (ErrorResponse ''read order''), w1)
        | (Inr None, w1) \<Rightarrow> (answer 404 (ErrorResponse ''order not found''), w1)
        | (Inr (Some r), w1) \<Rightarrow>
            if or_intent r = None \<or> or_intent r = Some ''''
            then (answer 409 (ErrorResponse (''order has no payment_intent '' @ em_dash @ '' must call /pay before confirm'')), w1)
            else (case compensate i w1 of
               (Inr _, w2) \<Rightarrow> (answer 200 (StatusBody ''compensated''), w2)
             | (Inl e, w2) \<Rightarrow> (if errors_Is e ErrCompensateNotEligible then error_answer (MapBookingError e)
                 else answer 500 (ErrorResponse ''compensation failed''), w2))))"

section \<open>Creating events\<close>

definition stage_HandleCreateEvent ::
    "(string \<Rightarrow> int \<Rightarrow> int \<Rightarrow> string \<Rightarrow> 's \<Rightarrow> (err + event \<times> ticket_type list) \<times> 's) \<Rightarrow> create_event_request option \<Rightarrow> 's \<Rightarrow> response \<times> 's" where
  "stage_HandleCreateEvent createEvent body s = (case bind_CreateEventRequest body of
     None \<Rightarrow> (answer 400 (ErrorResponse ''invalid request body''), s)
   | Some req \<Rightarrow> (case createEvent (ce_Name req) (ce_TotalTickets req) (ce_PriceCents req) (ce_Currency req) s of
        (Inl e, s1) \<Rightarrow> (error_answer (MapEventError e), s1)
      | (Inr (e, tts), s1) \<Rightarrow> (answer 201 (EventBody (EventResponseFromDomain e tts)), s1)))"

text \<open>The servers of stages 1 to 3 insert the two rows themselves; the currency goes in as the request has it.\<close>

definition stage_event :: "uuid \<Rightarrow> create_event_request \<Rightarrow> event" where
  "stage_event i req = \<lparr>ev_id = i, ev_name = ce_Name req, ev_totalTickets = ce_TotalTickets req,
     ev_availableTickets = ce_TotalTickets req, ev_version = 0\<rparr>"

definition stage_type_row :: "uuid \<Rightarrow> uuid \<Rightarrow> create_event_request \<Rightarrow> ticket_type_row" where
  "stage_type_row tt ev req = \<lparr>tr_id = tt, tr_event = ev, tr_name = ''GA'', tr_price = ce_PriceCents req, tr_cur = ce_Currency req,
     tr_total = ce_TotalTickets req, tr_available = ce_TotalTickets req, tr_starts = None, tr_ends = None, tr_limit = None,
     tr_area = None, tr_version = 0\<rparr>"

definition sql_insert_event :: "event \<Rightarrow> pg \<Rightarrow> err + nat \<times> pg" where
  "sql_insert_event e p =
    (if lookup ev_id (ev_id e) (pg_events p) \<noteq> None then Inl (Sentinel PgUniqueViolation)
     else if ev_availableTickets e < 0 then Inl (Sentinel PgCheckViolation)
     else Inr (1, p\<lparr>pg_events := pg_events p @ [e]\<rparr>))"

definition stage_create_tx :: "event \<Rightarrow> ticket_type_row \<Rightarrow> world \<Rightarrow> (err + unit) \<times> world" where
  "stage_create_tx ev row = db_tx ''begin tx'' ''commit event tx'' (\<lambda>w. w) (\<lambda>w. case sql_exec (sql_insert_event ev) w of
     (Inl e, w1) \<Rightarrow> (Inl (Wrap ''insert event: '' e), w1)
   | (Inr _, w1) \<Rightarrow> (case sql_exec (sql_insert_type row) w1 of
        (Inl e, w2) \<Rightarrow> (Inl (Wrap ''insert ticket_type: '' e), w2)
      | (Inr _, w2) \<Rightarrow> (Inr (), w2)))"

definition stage_tx_message :: "err \<Rightarrow> string" where
  "stage_tx_message e = (case e of Wrap m _ \<Rightarrow> m | _ \<Rightarrow> '''')"

definition stage_event_answer :: "uuid \<Rightarrow> uuid \<Rightarrow> create_event_request \<Rightarrow> response" where
  "stage_event_answer ev tt req = answer 201 (StageEventBody
     \<lparr>sv_ID = ev, sv_Name = ce_Name req, sv_TotalTickets = ce_TotalTickets req, sv_TypeID = tt, sv_TypeName = ''GA'',
      sv_PriceCents = ce_PriceCents req, sv_Currency = ce_Currency req, sv_TypeTotal = ce_TotalTickets req,
      sv_TypeAvailable = ce_TotalTickets req\<rparr>)"

text \<open>\<open>uuid.New\<close> panics without randomness; \<open>gin.Recovery\<close> answers 500 without a body.\<close>

definition stage1_handleCreateEvent :: "create_event_request option \<Rightarrow> world \<Rightarrow> response \<times> world" where
  "stage1_handleCreateEvent body w = (case bind_CreateEventRequest body of
     None \<Rightarrow> (answer 400 (ErrorResponse ''invalid request: ''), w)
   | Some req \<Rightarrow> (case uuid_NewV7 w of
        (None, w1) \<Rightarrow> (answer 500 NoBody, w1)
      | (Some ev, w1) \<Rightarrow> (case uuid_NewV7 w1 of
           (None, w2) \<Rightarrow> (answer 500 (ErrorResponse ''mint ticket_type id''), w2)
         | (Some tt, w2) \<Rightarrow> (case stage_create_tx (stage_event ev req) (stage_type_row tt ev req) w2 of
              (Inl e, w3) \<Rightarrow> (answer 500 (ErrorResponse (stage_tx_message e)), w3)
            | (Inr _, w3) \<Rightarrow> (stage_event_answer ev tt req, w3)))))"

definition stage_compensateDanglingEvent :: "uuid \<Rightarrow> uuid \<Rightarrow> world \<Rightarrow> (err + unit) \<times> world" where
  "stage_compensateDanglingEvent ev tt = db_tx ''begin compensation tx'' ''commit'' (\<lambda>w. w) (\<lambda>w.
     case sql_exec (\<lambda>p. Inr (count_where (\<lambda>r. tr_id r = tt) (pg_types p),
          p\<lparr>pg_types := filter (\<lambda>r. tr_id r \<noteq> tt) (pg_types p)\<rparr>)) w of
       (Inl e, w1) \<Rightarrow> (Inl (Wrap ''delete ticket_type'' e), w1)
     | (Inr _, w1) \<Rightarrow> (case sql_exec (\<lambda>p. Inr (count_where (\<lambda>r. ev_id r = ev) (pg_events p),
            p\<lparr>pg_events := filter (\<lambda>r. ev_id r \<noteq> ev) (pg_events p)\<rparr>)) w1 of
          (Inl e, w2) \<Rightarrow> (Inl (Wrap ''delete event'' e), w2)
        | (Inr _, w2) \<Rightarrow> (Inr (), w2)))"

text \<open>Stages 2 and 3 have this handler word for word; they fill Redis after the commit.\<close>

definition stage2_handleCreateEvent :: "ext \<Rightarrow> duration \<Rightarrow> create_event_request option \<Rightarrow> world \<Rightarrow> response \<times> world" where
  "stage2_handleCreateEvent X ttl body w = (case bind_CreateEventRequest body of
     None \<Rightarrow> (answer 400 (ErrorResponse ''invalid request: ''), w)
   | Some req \<Rightarrow> (case uuid_NewV7 w of
        (None, w1) \<Rightarrow> (answer 500 NoBody, w1)
      | (Some ev, w1) \<Rightarrow> (case uuid_NewV7 w1 of
           (None, w2) \<Rightarrow> (answer 500 (ErrorResponse ''mint ticket_type id''), w2)
         | (Some tt, w2) \<Rightarrow> (case stage_create_tx (stage_event ev req) (stage_type_row tt ev req) w2 of
              (Inl e, w3) \<Rightarrow> (answer 500 (ErrorResponse (stage_tx_message e)), w3)
            | (Inr _, w3) \<Rightarrow> (case SetTicketTypeRuntime X ttl (ReconstructTicketType X tt ev ''GA'' (ce_PriceCents req) (ce_Currency req)
                    (ce_TotalTickets req) (ce_TotalTickets req) None None None '''' 0) w3 of
                 (Inl e, w4) \<Rightarrow> (case stage_compensateDanglingEvent ev tt w4 of
                    (Inl _, w5) \<Rightarrow> (answer 500 (ErrorResponse ''redis hydrate + compensation both failed''), w5)
                  | (Inr _, w5) \<Rightarrow> (answer 500 (ErrorResponse ''redis hydrate failed; event creation rolled back''), w5))
               | (Inr _, w4) \<Rightarrow> (stage_event_answer ev tt req, w4))))))"

section \<open>The copies of the other stages\<close>

text \<open>The programs of the stages cannot import each other, so stages 2 and 3 repeat these functions
  word for word apart from the texts they log.\<close>

definition stage3_handleCreateEvent :: "ext \<Rightarrow> duration \<Rightarrow> create_event_request option \<Rightarrow> world \<Rightarrow> response \<times> world" where
  "stage3_handleCreateEvent = stage2_handleCreateEvent"

definition stage3_compensateDanglingEvent :: "uuid \<Rightarrow> uuid \<Rightarrow> world \<Rightarrow> (err + unit) \<times> world" where
  "stage3_compensateDanglingEvent = stage_compensateDanglingEvent"

definition stage2_sweepOnce :: "duration \<Rightarrow> (uuid \<Rightarrow> world \<Rightarrow> (err + unit) \<times> world) \<Rightarrow> world \<Rightarrow> world" where
  "stage2_sweepOnce = sweepOnce"

definition stage3_sweepOnce :: "duration \<Rightarrow> (uuid \<Rightarrow> world \<Rightarrow> (err + unit) \<times> world) \<Rightarrow> world \<Rightarrow> world" where
  "stage3_sweepOnce = sweepOnce"

section \<open>The life of an order on a comparison server\<close>

text \<open>What one request or sweep may do to a stored order. \<open>now\<close> is the clock of the database.\<close>

inductive stage_step :: "time \<Rightarrow> order_row \<Rightarrow> order_row \<Rightarrow> bool" for now where
  asked: "payable_row now r \<Longrightarrow> or_intent r = None \<Longrightarrow> stage_step now r (r\<lparr>or_intent := Some s\<rparr>)"
| paid: "payable_row now r \<Longrightarrow> or_intent r \<noteq> None \<Longrightarrow> stage_step now r (r\<lparr>or_status := Paid\<rparr>)"
| compensated: "or_status r = AwaitingPayment \<Longrightarrow> stage_step now r (r\<lparr>or_status := Compensated\<rparr>)"

inductive_cases stage_stepE: "stage_step now r r'"

definition stage_life :: "order_row \<Rightarrow> order_row \<Rightarrow> bool" where
  "stage_life = (\<lambda>a b. \<exists>now. stage_step now a b)\<^sup>*\<^sup>*"

lemma stage_life_refl [simp]: "stage_life r r"
  by (simp add: stage_life_def)

lemma stage_life_step: "stage_step now r r' \<Longrightarrow> stage_life r r'"
  unfolding stage_life_def by (rule r_into_rtranclp) blast

lemma stage_life_trans: "stage_life a b \<Longrightarrow> stage_life b c \<Longrightarrow> stage_life a c"
  unfolding stage_life_def by (rule rtranclp_trans)

text \<open>An intent, once stored, stays, a paid order has one, and \<open>paid\<close> and \<open>compensated\<close> are final.\<close>

definition life_kept :: "order_row \<Rightarrow> order_row \<Rightarrow> bool" where
  "life_kept a b \<longleftrightarrow> (or_intent a \<noteq> None \<longrightarrow> or_intent b = or_intent a) \<and> or_amount b = or_amount a \<and> or_cur b = or_cur a \<and>
    (or_status a \<in> {Paid, Compensated} \<longrightarrow> b = a) \<and> (or_status b \<noteq> or_status a \<longrightarrow> or_status a = AwaitingPayment \<and>
      or_status b \<in> {Paid, Compensated} \<and> (or_status b = Paid \<longrightarrow> or_intent b \<noteq> None))"

lemma life_kept_refl: "life_kept a a"
  by (simp add: life_kept_def)

lemma life_kept_trans:
  assumes "life_kept a b" and "life_kept b c"
  shows "life_kept a c"
proof (cases "or_status b \<in> {Paid, Compensated}")
  case True
  with assms(2) have "c = b" by (auto simp: life_kept_def)
  with assms(1) show ?thesis by simp
next
  case False
  then have st: "or_status b = or_status a" using assms(1) by (auto simp: life_kept_def)
  have "or_intent a \<noteq> None \<longrightarrow> or_intent c = or_intent a" using assms by (auto simp: life_kept_def)
  with st False assms show ?thesis unfolding life_kept_def by (metis insertCI)
qed

lemma stage_step_kept: "stage_step now a b \<Longrightarrow> life_kept a b"
  by (erule stage_stepE) (simp_all add: life_kept_def payable_row_def)

lemma stage_life_keeps: "stage_life a b \<Longrightarrow> life_kept a b"
  unfolding stage_life_def
  by (induction rule: rtranclp_induct) (auto intro: life_kept_refl life_kept_trans stage_step_kept)

definition rows_live :: "world \<Rightarrow> world \<Rightarrow> bool" where
  "rows_live w w' \<longleftrightarrow> (\<forall>i. rel_option stage_life (lookup or_id i (pg_orders (w_pg w))) (lookup or_id i (pg_orders (w_pg w'))))"

lemma rows_live_same: "pg_orders (w_pg w') = pg_orders (w_pg w) \<Longrightarrow> rows_live w w'"
  by (auto simp: rows_live_def intro: option.rel_refl)

lemma rows_live_trans:
  assumes "rows_live a b" and "rows_live b c"
  shows "rows_live a c"
proof -
  have "rel_option stage_life x z" if "rel_option stage_life x y" "rel_option stage_life y z" for x y z
    using that by (cases x; cases y; cases z) (auto intro: stage_life_trans)
  with assms show ?thesis unfolding rows_live_def by blast
qed

lemma rows_live_row: "rows_live w w' \<Longrightarrow> lookup or_id i (pg_orders (w_pg w)) = Some r \<Longrightarrow>
    \<exists>r'. lookup or_id i (pg_orders (w_pg w')) = Some r' \<and> stage_life r r'"
  unfolding rows_live_def by (metis option_rel_Some1)

lemma rows_live_update:
  assumes row: "lookup or_id i (pg_orders (w_pg w)) = Some r" and step: "stage_step now r r'" "or_id r' = or_id r"
    and w': "pg_orders (w_pg w') = update_where (\<lambda>x. or_id x = i) (\<lambda>_. r') (pg_orders (w_pg w))"
  shows "rows_live w w' \<and> lookup or_id i (pg_orders (w_pg w')) = Some r'"
proof -
  have i: "or_id r' = i" using lookup_in_set [OF row] step(2) by simp
  have l: "lookup or_id j (pg_orders (w_pg w')) = map_option (\<lambda>x. if or_id x = i then r' else x) (lookup or_id j (pg_orders (w_pg w)))" for j
    unfolding w' by (rule lookup_update_where) (simp add: i)
  have "rel_option stage_life (lookup or_id j (pg_orders (w_pg w))) (lookup or_id j (pg_orders (w_pg w')))" for j
    using row stage_life_step [OF step(1)]
    by (cases "lookup or_id j (pg_orders (w_pg w))"; cases "j = i") (auto simp: l dest: lookup_in_set)
  with row l [of i] lookup_in_set [OF row] show ?thesis by (simp add: rows_live_def)
qed

text \<open>An intent answered to the client is the one stored with its order, for the stored price.\<close>

definition answer_stored :: "response \<Rightarrow> world \<Rightarrow> bool" where
  "answer_stored rs w \<longleftrightarrow> (\<forall>b. rs_Body rs = PaymentIntentBody b \<longrightarrow> (\<exists>r. lookup or_id (pe_OrderID b) (pg_orders (w_pg w)) = Some r \<and>
     or_intent r = Some (pe_PaymentIntentID b) \<and> or_amount r = Some (pe_AmountCents b) \<and> or_cur r = Some (pe_Currency b)))"

lemma answer_stored_live: "answer_stored rs w \<Longrightarrow> rows_live w w' \<Longrightarrow> answer_stored rs w'"
  unfolding answer_stored_def
proof (intro allI impI)
  fix b assume "\<forall>b. rs_Body rs = PaymentIntentBody b \<longrightarrow> (\<exists>r. lookup or_id (pe_OrderID b) (pg_orders (w_pg w)) = Some r \<and>
     or_intent r = Some (pe_PaymentIntentID b) \<and> or_amount r = Some (pe_AmountCents b) \<and> or_cur r = Some (pe_Currency b))"
    and live: "rows_live w w'" and b: "rs_Body rs = PaymentIntentBody b"
  then obtain r where r: "lookup or_id (pe_OrderID b) (pg_orders (w_pg w)) = Some r"
     "or_intent r = Some (pe_PaymentIntentID b)" "or_amount r = Some (pe_AmountCents b)" "or_cur r = Some (pe_Currency b)" by blast
  from rows_live_row [OF live r(1)] obtain r' where "lookup or_id (pe_OrderID b) (pg_orders (w_pg w')) = Some r'" "stage_life r r'" by blast
  with r stage_life_keeps [of r r', unfolded life_kept_def] show "\<exists>r. lookup or_id (pe_OrderID b) (pg_orders (w_pg w')) = Some r \<and>
     or_intent r = Some (pe_PaymentIntentID b) \<and> or_amount r = Some (pe_AmountCents b) \<and> or_cur r = Some (pe_Currency b)" by auto
qed

lemma stage_set_intent_effect:
  assumes "sql_stage_set_intent i s p = Inr (n, p')"
  shows "n = 0 \<and> p' = p \<or> (\<exists>r. lookup or_id i (pg_orders p) = Some r \<and> stage_step (pg_now p) r (r\<lparr>or_intent := Some s\<rparr>) \<and>
    p' = p\<lparr>pg_orders := update_where (\<lambda>x. or_id x = i) (\<lambda>_. r\<lparr>or_intent := Some s\<rparr>) (pg_orders p)\<rparr>)"
  using assms by (auto simp: sql_stage_set_intent_def Let_def split: option.splits if_splits intro: stage_step.asked)

lemma stage_mark_paid_effect:
  assumes "sql_stage_mark_paid i p = Inr (n, p')"
  shows "n = 0 \<and> p' = p \<or> (\<exists>r. lookup or_id i (pg_orders p) = Some r \<and> stage_step (pg_now p) r (r\<lparr>or_status := Paid\<rparr>) \<and>
    p' = p\<lparr>pg_orders := update_where (\<lambda>x. or_id x = i) (\<lambda>_. r\<lparr>or_status := Paid\<rparr>) (pg_orders p)\<rparr>)"
  using assms by (auto simp: sql_stage_mark_paid_def Let_def split: option.splits if_splits intro: stage_step.paid)

lemma set_intent_exec:
  assumes "sql_exec (sql_stage_set_intent i s) w = (res, w')"
  shows "rows_live w w' \<and> (\<forall>n. res = Inr n \<longrightarrow> n = 0 \<and> w_pg w' = w_pg w \<or>
    (\<exists>r. lookup or_id i (pg_orders (w_pg w)) = Some r \<and> lookup or_id i (pg_orders (w_pg w')) = Some (r\<lparr>or_intent := Some s\<rparr>)))"
  using assms
proof (cases rule: sql_exec_cases)
  case (ran n p)
  from stage_set_intent_effect [OF ran(1)] ran(2,3) rows_live_update [of i w _ _ _ w'] show ?thesis
    by (auto intro: rows_live_same)
qed (auto intro: rows_live_same)

lemma mark_paid_exec:
  "sql_exec (sql_stage_mark_paid i) w = (res, w') \<Longrightarrow> rows_live w w'"
proof (erule sql_exec_cases)
  fix n p assume ran: "sql_stage_mark_paid i (w_pg w) = Inr (n, p)" "w_pg w' = p"
  from stage_mark_paid_effect [OF ran(1)] ran(2) rows_live_update [of i w _ _ _ w'] show "rows_live w w'"
    by (auto intro: rows_live_same)
qed (simp add: rows_live_same)

lemma read_row:
  assumes "sql_query (\<lambda>p. lookup or_id i (pg_orders p)) w = (q, w1)"
  shows "w_pg w1 = w_pg w \<and> (\<forall>r. q = Inr (Some r) \<longrightarrow> lookup or_id i (pg_orders (w_pg w)) = Some r)"
  using sql_query_frame [OF assms] sql_query_result assms by fastforce

lemma reread_outcome:
  assumes "reread_intent i amount cur w = (rs, w')"
  shows "w_pg w' = w_pg w \<and> (\<forall>b. rs_Body rs = PaymentIntentBody b \<longrightarrow> pe_OrderID b = i \<and> pe_AmountCents b = amount \<and> pe_Currency b = cur \<and>
    (\<exists>r. lookup or_id i (pg_orders (w_pg w)) = Some r \<and> or_intent r = Some (pe_PaymentIntentID b)))"
proof -
  obtain q w1 where q: "sql_query (\<lambda>p. lookup or_id i (pg_orders p)) w = (q, w1)" by (metis surj_pair)
  from read_row [OF q] assms q show ?thesis
    by (auto simp: reread_intent_def intent_answer_def not_awaiting_def split: sum.splits option.splits if_splits)
qed

lemma HandlePayIntent_lives:
  assumes run: "HandlePayIntent X prefix rawID w = (rs, w')"
  shows "rows_live w w' \<and> answer_stored rs w'"
proof (cases "uuid_Parse X rawID")
  case None
  with run show ?thesis by (auto simp: HandlePayIntent_def answer_stored_def intro: rows_live_same)
next
  case (Some i)
  obtain q w1 where q: "sql_query (\<lambda>p. lookup or_id i (pg_orders p)) w = (q, w1)" by (metis surj_pair)
  note rd = read_row [OF q]
  consider (other) "w' = w1" "\<And>b. rs_Body rs \<noteq> PaymentIntentBody b"
    | (reuse) r s amount cur where "w' = w1" "q = Inr (Some r)" "or_intent r = Some s" "or_amount r = Some amount" "or_cur r = Some cur"
       "rs = intent_answer i s amount cur"
    | (mint) r amount cur where "q = Inr (Some r)" "or_amount r = Some amount" "or_cur r = Some cur"
       "(rs, w') = (case uuid_NewV7 w1 of
                (None, w2) \<Rightarrow> (answer 500 (ErrorResponse ''mint intent id''), w2)
              | (Some u, w2) \<Rightarrow> (case sql_exec (sql_stage_set_intent i (prefix @ uuid_String X u)) w2 of
                   (Inl e, w3) \<Rightarrow> (answer 500 (ErrorResponse ''persist intent''), w3)
                 | (Inr n, w3) \<Rightarrow> if n = 0 then reread_intent i amount cur w3
                     else (intent_answer i (prefix @ uuid_String X u) amount cur, w3)))"
    using run Some q
    by (auto simp: HandlePayIntent_def not_awaiting_def split: sum.splits option.splits if_splits)
  then show ?thesis
  proof cases
    case other
    with rd show ?thesis by (auto simp: answer_stored_def intro: rows_live_same)
  next
    case reuse
    with rd show ?thesis by (auto simp: answer_stored_def intent_answer_def intro: rows_live_same)
  next
    case mint
    obtain u w2 where u: "uuid_NewV7 w1 = (u, w2)" by (metis surj_pair)
    have pg2: "w_pg w2 = w_pg w" using uuid_NewV7_frame [OF u] rd by simp
    show ?thesis
    proof (cases u)
      case None
      with mint u pg2 show ?thesis by (auto simp: answer_stored_def intro: rows_live_same)
    next
      case (Some v)
      let ?s = "prefix @ uuid_String X v"
      obtain y w3 where y: "sql_exec (sql_stage_set_intent i ?s) w2 = (y, w3)" by (metis surj_pair)
      note ex = set_intent_exec [OF y]
      have live: "rows_live w w3" using rows_live_trans [OF rows_live_same [of w2 w]] ex pg2 by simp
      have row: "lookup or_id i (pg_orders (w_pg w2)) = Some r" using rd mint(1) pg2 by simp
      show ?thesis
      proof (cases y)
        case (Inl e)
        with mint u Some y live show ?thesis by (auto simp: answer_stored_def)
      next
        case (Inr n)
        show ?thesis
        proof (cases "n = 0")
          case False
          with mint u Some y Inr have "w' = w3" "rs = intent_answer i ?s amount cur" by auto
          moreover have "lookup or_id i (pg_orders (w_pg w3)) = Some (r\<lparr>or_intent := Some ?s\<rparr>)" using ex Inr False row by auto
          ultimately show ?thesis using live mint(2,3) by (auto simp: answer_stored_def intent_answer_def)
        next
          case True
          with mint u Some y Inr have "reread_intent i amount cur w3 = (rs, w')" by simp
          note re = reread_outcome [OF this]
          have "rows_live w w'" using rows_live_trans [OF live rows_live_same] re by simp
          moreover have "\<exists>r'. lookup or_id i (pg_orders (w_pg w')) = Some r' \<and> or_amount r' = Some amount \<and> or_cur r' = Some cur"
            using rows_live_row [OF calculation, of i r] row pg2 stage_life_keeps [unfolded life_kept_def] mint(2,3) by fastforce
          ultimately show ?thesis using re unfolding answer_stored_def by fastforce
        qed
      qed
    qed
  qed
qed

lemma settled_rows: "stage1.settled is w w' \<Longrightarrow> rows_live w w'"
proof -
  assume st: "stage1.settled is w w'"
  have "rel_option stage_life a b" if "b = a \<or> paid_back_row a b" for a b :: "order_row option"
  proof (cases "b = a")
    case True
    then show ?thesis by (simp add: option.rel_refl)
  next
    case False
    with that show ?thesis using stage_life_step [OF stage_step.compensated] by (auto simp: paid_back_row_def)
  qed
  with st show ?thesis unfolding rows_live_def stage1.settled_def by blast
qed

lemma compensates_rows: "compensates i (w_pg w) (w_pg w') \<Longrightarrow> rows_live w w'"
  by (rule settled_rows [of "{i}"]) (auto simp: stage1.settled_def dest: compensates_lookup)

text \<open>What clients, the sweeper and the clock do to a server.\<close>

datatype stage_request = PayIntent string | Confirm string string | Sweep duration | Pass duration

fun stage_serve ::
    "ext \<Rightarrow> string \<Rightarrow> (uuid \<Rightarrow> world \<Rightarrow> (err + unit) \<times> world) \<Rightarrow> stage_request list \<Rightarrow> world \<Rightarrow> response list \<times> world" where
  "stage_serve X prefix C [] w = ([], w)"
| "stage_serve X prefix C (PayIntent i # rs) w = (case HandlePayIntent X prefix i w of (a, w1) \<Rightarrow>
     (case stage_serve X prefix C rs w1 of (as, w2) \<Rightarrow> (a # as, w2)))"
| "stage_serve X prefix C (Confirm i outcome # rs) w = (case HandleTestConfirm X C i outcome w of (a, w1) \<Rightarrow>
     (case stage_serve X prefix C rs w1 of (as, w2) \<Rightarrow> (a # as, w2)))"
| "stage_serve X prefix C (Sweep grace # rs) w = stage_serve X prefix C rs (sweepOnce grace C w)"
| "stage_serve X prefix C (Pass d # rs) w = stage_serve X prefix C rs (time_passes d w)"

context compensator
begin

lemma HandleTestConfirm_lives:
  assumes run: "HandleTestConfirm Y Compensate rawID outcome w = (rs, w')"
  shows "rows_live w w' \<and> answer_stored rs w'"
proof -
  have same: "rows_live w v" if "w_pg v = w_pg w" for v using that by (simp add: rows_live_same)
  show ?thesis
  proof (cases "uuid_Parse Y rawID")
    case None
    with run same show ?thesis by (auto simp: HandleTestConfirm_def answer_stored_def)
  next
    case (Some i)
    obtain res v where p: "sql_exec (sql_stage_mark_paid i) w = (res, v)" by (metis surj_pair)
    obtain q w1 where q: "sql_query (\<lambda>p. lookup or_id i (pg_orders p)) w = (q, w1)" by (metis surj_pair)
    obtain c w2 where c: "Compensate i w1 = (c, w2)" by (metis surj_pair)
    have "rows_live w1 w2" using effect [OF c] compensates_rows [of i w1 w2] by (auto intro: rows_live_same)
    then have live: "rows_live w w1" "rows_live w w2" "rows_live w v" "rows_live w w"
      using same [of w1] read_row [OF q] mark_paid_exec [OF p] same [of w] by (auto intro: rows_live_trans)
    have "w' \<in> {w, v, w1, w2} \<and> (\<forall>b. rs_Body rs \<noteq> PaymentIntentBody b)"
      using run Some p q c by (auto simp: HandleTestConfirm_def split: if_splits sum.splits option.splits)
    with live show ?thesis by (auto simp: answer_stored_def)
  qed
qed

lemma stage_serve_lives:
  "stage_serve Y prefix Compensate rs w = (as, w') \<Longrightarrow> rows_live w w' \<and> (\<forall>a \<in> set as. answer_stored a w')"
proof (induction rs arbitrary: w as)
  case Nil
  then show ?case by (auto intro: rows_live_same)
next
  case (Cons r rs)
  have step: ?case if "rows_live w v" "stage_serve Y prefix Compensate rs v = (as2, w')" "\<And>a. a \<in> set as \<Longrightarrow> a \<in> set as2 \<or> answer_stored a v" for v as2
    using Cons.IH [OF that(2)] that(1,3) by (auto intro: rows_live_trans answer_stored_live)
  show ?case
  proof (cases r)
    case (PayIntent i)
    obtain a v where a: "HandlePayIntent Y prefix i w = (a, v)" by (metis surj_pair)
    obtain as2 v2 where b: "stage_serve Y prefix Compensate rs v = (as2, v2)" by (metis surj_pair)
    from HandlePayIntent_lives [OF a] show ?thesis using Cons.prems PayIntent a b by (intro step [of v as2]) auto
  next
    case (Confirm i outcome)
    obtain a v where a: "HandleTestConfirm Y Compensate i outcome w = (a, v)" by (metis surj_pair)
    obtain as2 v2 where b: "stage_serve Y prefix Compensate rs v = (as2, v2)" by (metis surj_pair)
    from HandleTestConfirm_lives [OF a] show ?thesis using Cons.prems Confirm a b by (intro step [of v as2]) auto
  next
    case (Sweep grace)
    then show ?thesis using Cons.prems settled_rows [OF sweepOnce_settles] by (intro step [of "sweepOnce grace Compensate w" as]) auto
  next
    case (Pass d)
    have "rows_live w (time_passes d w)" by (rule rows_live_same) (simp add: time_passes_def)
    then show ?thesis using Cons.prems Pass by (intro step [of "time_passes d w" as]) auto
  qed
qed

end

lemma stage_life_starts: "stage_life a b \<Longrightarrow> b = a \<or> or_status a = AwaitingPayment"
  unfolding stage_life_def
  by (erule converse_rtranclpE) (auto elim!: stage_stepE simp: payable_row_def)

text \<open>C28: orders on a comparison server live by the rules, although the server pays and confirms them with SQL of its
  own. Over any sequence of pay and confirm requests, sweeps and waiting, and whatever calls fail: no order
  disappears, a status changes only from awaiting payment to paid or compensated and both are final, an
  order is paid only with a payment intent, a stored intent is never replaced; and every intent
  answered to a client is still the one stored with its order, for its price, so two answers for
  one order name the same intent.\<close>

theorem stage_orders_live_by_the_rules:
  assumes C: "C \<in> {stage1_Compensate, stage2_Compensate X, stage3_Compensate X}"
    and run: "stage_serve X prefix C rs w = (as, w')"
  shows "(\<forall>i r. lookup or_id i (pg_orders (w_pg w)) = Some r \<longrightarrow> (\<exists>r'. lookup or_id i (pg_orders (w_pg w')) = Some r' \<and>
      (r' = r \<or> or_status r = AwaitingPayment) \<and> or_status r' \<in> {or_status r, Paid, Compensated} \<and>
      (or_status r' = Paid \<longrightarrow> or_status r = Paid \<or> or_intent r' \<noteq> None) \<and>
      (or_intent r \<noteq> None \<longrightarrow> or_intent r' = or_intent r))) \<and>
    (\<forall>a b. a \<in> set as \<longrightarrow> rs_Body a = PaymentIntentBody b \<longrightarrow> (\<exists>r'. lookup or_id (pe_OrderID b) (pg_orders (w_pg w')) = Some r' \<and>
      or_intent r' = Some (pe_PaymentIntentID b) \<and> or_amount r' = Some (pe_AmountCents b) \<and> or_cur r' = Some (pe_Currency b)))"
proof -
  have "rows_live w w' \<and> (\<forall>a \<in> set as. answer_stored a w')"
    using C run by (elim insertE) (auto dest: stage1.stage_serve_lives stage2.stage_serve_lives stage3.stage_serve_lives)
  then have live: "rows_live w w'" and stored: "\<forall>a \<in> set as. answer_stored a w'" by auto
  have "\<exists>r'. lookup or_id i (pg_orders (w_pg w')) = Some r' \<and>
      (r' = r \<or> or_status r = AwaitingPayment) \<and> or_status r' \<in> {or_status r, Paid, Compensated} \<and>
      (or_status r' = Paid \<longrightarrow> or_status r = Paid \<or> or_intent r' \<noteq> None) \<and> (or_intent r \<noteq> None \<longrightarrow> or_intent r' = or_intent r)"
    if r: "lookup or_id i (pg_orders (w_pg w)) = Some r" for i r
  proof -
    obtain r' where r': "lookup or_id i (pg_orders (w_pg w')) = Some r'" "stage_life r r'" using rows_live_row [OF live r] by blast
    from stage_life_keeps [OF r'(2)] stage_life_starts [OF r'(2)] r'(1) show ?thesis by (auto simp: life_kept_def)
  qed
  with stored show ?thesis unfolding answer_stored_def by blast
qed

text \<open>An order is asked for payment, confirmed, and swept later.\<close>

definition demo_stage_world :: world where
  "demo_stage_world = demo_unpaid_world\<lparr>w_now := 10, w_pg := (w_pg demo_unpaid_world)\<lparr>pg_now := 10\<rparr>\<rparr>"

lemma demo_stage_run:
  "map rs_Status (fst (stage_serve plain_ext ''pi_'' stage1_Compensate
     [PayIntent ''9'', PayIntent ''9'', Confirm ''9'' ''succeeded'', Pass 100, Sweep 1, Confirm ''9'' ''failed''] demo_stage_world)) =
   [200, 200, 200, 409]"
  by code_simp

lemma stage_orders_live_by_the_rules_witness:
  "\<exists>(b :: payment_intent_response) r'. lookup or_id (pe_OrderID b) (pg_orders (w_pg (snd (stage_serve plain_ext ''pi_'' stage1_Compensate [PayIntent ''9''] demo_stage_world)))) = Some r' \<and>
     or_intent r' = Some (pe_PaymentIntentID b)"
proof -
  obtain as w' where run: "stage_serve plain_ext ''pi_'' stage1_Compensate [PayIntent ''9''] demo_stage_world = (as, w')" by (metis surj_pair)
  have "\<exists>a b. a \<in> set (fst (stage_serve plain_ext ''pi_'' stage1_Compensate [PayIntent ''9''] demo_stage_world)) \<and> rs_Body a = PaymentIntentBody b"
  proof -
    have "list_ex (\<lambda>a. case rs_Body a of PaymentIntentBody b \<Rightarrow> True | _ \<Rightarrow> False)
        (fst (stage_serve plain_ext ''pi_'' stage1_Compensate [PayIntent ''9''] demo_stage_world))" by code_simp
    then obtain a where a: "a \<in> set (fst (stage_serve plain_ext ''pi_'' stage1_Compensate [PayIntent ''9''] demo_stage_world))"
      "case rs_Body a of PaymentIntentBody b \<Rightarrow> True | _ \<Rightarrow> False" unfolding list_ex_iff by blast
    from a(2) have "\<exists>b. rs_Body a = PaymentIntentBody b" by (cases "rs_Body a") simp_all
    with a(1) show ?thesis by blast
  qed
  then obtain a b where a: "a \<in> set as" "rs_Body a = PaymentIntentBody b" using run by auto
  from stage_orders_live_by_the_rules [OF _ run] have "\<forall>a b. a \<in> set as \<longrightarrow> rs_Body a = PaymentIntentBody b \<longrightarrow>
     (\<exists>r'. lookup or_id (pe_OrderID b) (pg_orders (w_pg w')) = Some r' \<and> or_intent r' = Some (pe_PaymentIntentID b) \<and>
       or_amount r' = Some (pe_AmountCents b) \<and> or_cur r' = Some (pe_Currency b))" by simp
  with a have "\<exists>r'. lookup or_id (pe_OrderID b) (pg_orders (w_pg w')) = Some r' \<and> or_intent r' = Some (pe_PaymentIntentID b)" by blast
  then show ?thesis unfolding run snd_conv by blast
qed

section \<open>Events of the comparison servers\<close>

interpretation tx: unit_of_work "db_tx b c rb" w_pg for b c rb
  by (rule db_tx_is_unit_of_work)

lemma stage_create_body:
  assumes "(case sql_exec (sql_insert_event ev) v of
     (Inl e, w1) \<Rightarrow> (Inl (Wrap m1 e), w1)
   | (Inr _, w1) \<Rightarrow> (case sql_exec (sql_insert_type row) w1 of
        (Inl e, w2) \<Rightarrow> (Inl (Wrap m2 e), w2)
      | (Inr _, w2) \<Rightarrow> (Inr (), w2))) = (x, v')"
  shows "w_rd v' = w_rd v \<and> (x = Inr () \<longrightarrow> event_added ev row (w_pg v) (w_pg v'))"
proof -
  obtain a v1 where a: "sql_exec (sql_insert_event ev) v = (a, v1)" by (metis surj_pair)
  obtain c v2 where c: "sql_exec (sql_insert_type row) v1 = (c, v2)" by (metis surj_pair)
  note fr = sql_exec_both [OF a] sql_exec_both [OF c]
  have ins: "w_pg v1 = (w_pg v)\<lparr>pg_events := pg_events (w_pg v) @ [ev]\<rparr> \<and>
      lookup ev_id (ev_id ev) (pg_events (w_pg v)) = None" if "a = Inr n" for n
    using a that by (cases rule: sql_exec_cases) (auto simp: sql_insert_event_def split: if_splits)
  have tys: "w_pg v2 = (w_pg v1)\<lparr>pg_types := pg_types (w_pg v1) @ [row]\<rparr> \<and> lookup tr_id (tr_id row) (pg_types (w_pg v1)) = None" if "c = Inr n" for n
    using c that by (cases rule: sql_exec_cases) (auto simp: sql_insert_type_def lookup_None_ex list_ex_iff split: if_splits)
  show ?thesis
  proof (cases a)
    case (Inl e)
    with assms a fr show ?thesis by auto
  next
    case (Inr n)
    show ?thesis
    proof (cases c)
      case (Inl e)
      with assms a Inr c fr show ?thesis by auto
    next
      case (Inr m)
      with assms a \<open>a = Inr n\<close> c have "v' = v2" by simp
      with ins [OF \<open>a = Inr n\<close>] tys [OF Inr] fr show ?thesis unfolding event_added_def by simp
    qed
  qed
qed

lemma stage_create_tx_outcome:
  assumes run: "stage_create_tx ev row w = (res, w')"
  shows "w_rd w' = w_rd w \<and> (w_pg w' = w_pg w \<or> event_added ev row (w_pg w) (w_pg w')) \<and>
    (is_ok res \<longrightarrow> event_added ev row (w_pg w) (w_pg w'))"
proof -
  note run = run [unfolded stage_create_tx_def]
  have "is_ok res \<longrightarrow> event_added ev row (w_pg w) (w_pg w')"
    using tx.committed run stage_create_body by (cases res) fastforce+
  moreover have "w_rd w' = w_rd w"
    using db_tx_id_cases [OF run] stage_create_body by fastforce
  moreover have "w_pg w' = w_pg w \<or> event_added ev row (w_pg w) (w_pg w')"
    using db_tx_id_cases [OF run] stage_create_body by fastforce
  ultimately show ?thesis by blast
qed

text \<open>Without Redis the event of stage 1 is there with its ticket type or not at all; 201 means that it is.\<close>

theorem stage1_event_all_or_nothing:
  assumes run: "stage1_handleCreateEvent body w = (rs, w')"
  shows "w_rd w' = w_rd w \<and> (w_pg w' = w_pg w \<or> (\<exists>ev tt req. body = Some req \<and> event_added (stage_event ev req) (stage_type_row tt ev req) (w_pg w) (w_pg w'))) \<and>
    (rs_Status rs = 201 \<longrightarrow> w_pg w' \<noteq> w_pg w)"
proof -
  obtain u w1 where u: "uuid_NewV7 w = (u, w1)" by (metis surj_pair)
  obtain v w2 where v: "uuid_NewV7 w1 = (v, w2)" by (metis surj_pair)
  note fu = uuid_NewV7_frame [OF u] uuid_NewV7_frame [OF v]
  have new: "p' \<noteq> p" if "event_added ev row p p'" for ev row p p'
    using that by (auto simp: event_added_def dest: arg_cong [where f = pg_events])
  show ?thesis
  proof (cases "\<exists>req ev tt. bind_CreateEventRequest body = Some req \<and> u = Some ev \<and> v = Some tt")
    case False
    then have "w' \<in> {w, w1, w2} \<and> rs_Status rs \<noteq> 201"
      using run u v by (auto simp: stage1_handleCreateEvent_def split: option.splits)
    with fu show ?thesis by auto
  next
    case True
    then obtain req ev tt where b: "bind_CreateEventRequest body = Some req" "u = Some ev" "v = Some tt" by blast
    then have body: "body = Some req" by (auto simp: bind_CreateEventRequest_def split: option.splits if_splits)
    obtain res w3 where t: "stage_create_tx (stage_event ev req) (stage_type_row tt ev req) w2 = (res, w3)" by (metis surj_pair)
    note out = stage_create_tx_outcome [OF t]
    have "w' = w3 \<and> (rs_Status rs = 201 \<longrightarrow> is_ok res)"
      using run u v b t by (cases res) (auto simp: stage1_handleCreateEvent_def stage_event_answer_def)
    with out fu body new show ?thesis by auto
  qed
qed

text \<open>The servers of stages 1 to 3 do not check the currency, which the application services of all stages do when
  they book: an event with three characters that are no code is created, and none of its tickets can be sold.\<close>

theorem stage_event_currency_unchecked:
  assumes "w_uuids w = [Some ev, Some tt]" and "w_faults w = []" and "pg_events (w_pg w) = []" and "pg_types (w_pg w) = []"
    and "body = \<lparr>ce_Name = ''x'', ce_TotalTickets = 10, ce_PriceCents = 100, ce_Currency = ''12$''\<rparr>"
  shows "rs_Status (fst (stage1_handleCreateEvent (Some body) w)) = 201 \<and>
    map tr_cur (pg_types (w_pg (snd (stage1_handleCreateEvent (Some body) w)))) = [''12$''] \<and>
    (\<forall>now i user e t q until amount. \<not> is_ok (NewReservation plain_ext now i user e t q until amount ''12$''))"
proof -
  have bind: "bind_CreateEventRequest (Some body) = Some body"
    unfolding assms(5) by code_simp
  have cur: "\<not> isValidCurrencyCode (NormalizeCurrency plain_ext ''12$'')" by code_simp
  then have "\<not> is_ok (NewReservation plain_ext now i user e t q until amount ''12$'')" for now i user e t q until amount
    by (simp add: NewReservation_def Let_def)
  moreover have "\<exists>w'. stage_create_tx (stage_event ev body) (stage_type_row tt ev body) (w\<lparr>w_uuids := []\<rparr>) = (Inr (), w') \<and>
      pg_types (w_pg w') = [stage_type_row tt ev body]"
    using assms by (simp add: stage_create_tx_def db_tx_def sql_exec_Works sql_insert_event_def sql_insert_type_def stage_event_def stage_type_row_def)
  ultimately show ?thesis using bind assms
    by (auto simp: stage1_handleCreateEvent_def uuid_NewV7_def stage_event_answer_def stage_type_row_def)
qed

end
