(* ===== verification/Configuration.thy ===== *)
theory Configuration
  imports Recon Drift Saga Expiry Stripe_Gateway Worker
begin

text \<open>
  The configuration of the processes: the records of \<open>infrastructure/config/config.go\<close>, \<open>LoadConfig\<close> with
  its fallback and warnings, \<open>Validate\<close>, and the constructors of \<open>bootstrap\<close> and \<open>api/webhook/module.go\<close> that
  turn a loaded configuration into the settings of the components. cleanenv, which reads the file
  and the environment, is a parameter. An entry of the error list is its message, cut where a value is printed
  or an explanation follows.
\<close>

section \<open>The records\<close>

record app_config =
  app_Name :: string
  app_Version :: string
  app_LogLevel :: string
  app_WorkerID :: string
  app_Env :: string

record server_config =
  sv_Port :: string
  sv_ReadTimeout :: duration
  sv_WriteTimeout :: duration
  sv_EnablePprof :: bool
  sv_EnableTestEndpoints :: bool
  sv_PprofAddr :: string
  sv_PprofReadTimeout :: duration
  sv_PprofWriteTimeout :: duration
  sv_TrustedProxies :: "string list"
  sv_CORSAllowedOrigins :: "string list"

record redis_config =
  rd_Addr :: string
  rd_Password :: string
  rd_DB :: int
  rd_PoolSize :: int
  rd_MinIdleConns :: int
  rd_ReadTimeout :: duration
  rd_WriteTimeout :: duration
  rd_PoolTimeout :: duration
  rd_MaxConsecutiveReadErrors :: int
  rd_InventoryTTL :: duration
  rd_IdempotencyTTL :: duration
  rd_DLQRetention :: duration

record worker_config =
  wk_StreamReadCount :: int
  wk_StreamBlockTimeout :: duration
  wk_MaxRetries :: int
  wk_RetryBaseDelay :: duration
  wk_FailureTimeout :: duration
  wk_PendingBlockTimeout :: duration
  wk_ReadErrorBackoff :: duration
  wk_MetricsAddr :: string

record postgres_config =
  pc_DSN :: string
  pc_MaxOpenConns :: int
  pc_MaxIdleConns :: int
  pc_MaxIdleTime :: duration
  pc_MaxLifetime :: duration
  pc_PingAttempts :: int
  pc_PingInterval :: duration
  pc_PingPerAttempt :: duration

record kafka_config =
  kf_Brokers :: "string list"
  kf_WriteTimeout :: duration
  kf_OutboxBatchSize :: int
  kf_SagaGroupID :: string
  kf_OrderFailedTopic :: string

record stripe_payment_config =
  sp_APIKey :: string
  sp_WebhookSecret :: string
  sp_Timeout :: duration
  sp_MaxNetworkRetries :: int
  sp_AllowTestKey :: bool

record payment_config =
  py_Provider :: string
  py_Stripe :: stripe_payment_config
  py_WebhookSecret :: string
  py_WebhookReplayTolerance :: duration
  py_WebhookExpectedLiveMode :: bool
  py_WebhookLoopbackURL :: string

record admin_stream_config =
  as_JWTSecret :: string
  as_JWTMaxTTL :: duration

text \<open>The settings of the reconciler, the drift detector, the watchdog and the expiry sweeper have the fields of
  the records those components use.\<close>

record config =
  cfg_App :: app_config
  cfg_Server :: server_config
  cfg_Redis :: redis_config
  cfg_Worker :: worker_config
  cfg_Postgres :: postgres_config
  cfg_Kafka :: kafka_config
  cfg_Recon :: recon_config
  cfg_Saga :: saga_config
  cfg_InventoryDrift :: drift_config
  cfg_ReservationWindow :: duration
  cfg_Payment :: payment_config
  cfg_Expiry :: expiry_config
  cfg_AdminStream :: admin_stream_config

section \<open>Validation\<close>

definition normalizedAppEnv :: "ext \<Rightarrow> string \<Rightarrow> string" where
  "normalizedAppEnv X env = (let e = strings_ToLower X (strings_TrimSpace X env) in if e = '''' then ''production'' else e)"

definition isLocalhostAddr :: "ext \<Rightarrow> string \<Rightarrow> bool" where
  "isLocalhostAddr X addr \<longleftrightarrow> strings_TrimSpace X addr = ''localhost:6379''"

definition isLocalhostBrokers :: "ext \<Rightarrow> string list \<Rightarrow> bool" where
  "isLocalhostBrokers X brokers \<longleftrightarrow> length brokers = 1 \<and> strings_TrimSpace X (brokers ! 0) = ''localhost:9092''"

definition strings_HasPrefix :: "string \<Rightarrow> string \<Rightarrow> bool" where
  "strings_HasPrefix s p \<longleftrightarrow> take (length p) s = p"

definition complain :: "bool \<Rightarrow> string \<Rightarrow> string list" where
  "complain b m = (if b then [m] else [])"

abbreviation production :: "ext \<Rightarrow> config \<Rightarrow> bool" where
  "production X c \<equiv> normalizedAppEnv X (app_Env (cfg_App c)) = ''production''"

definition missing_required :: "ext \<Rightarrow> config \<Rightarrow> string list" where
  "missing_required X c =
     complain (strings_IsBlank X (pc_DSN (cfg_Postgres c))) ''postgres.dsn / DATABASE_URL'' @
     complain (strings_IsBlank X (sv_Port (cfg_Server c))) ''server.port / PORT''"

definition missing_production :: "ext \<Rightarrow> config \<Rightarrow> string list" where
  "missing_production X c = (if \<not> production X c then [] else
     complain (isLocalhostAddr X (rd_Addr (cfg_Redis c))) ''redis.addr / REDIS_ADDR'' @
     complain (isLocalhostBrokers X (kf_Brokers (cfg_Kafka c))) ''kafka.brokers / KAFKA_BROKERS'' @
     complain (sv_EnableTestEndpoints (cfg_Server c)) ''server.enable_test_endpoints / ENABLE_TEST_ENDPOINTS'' @
     complain (py_Provider (cfg_Payment c) = ''mock'' \<or> py_Provider (cfg_Payment c) = '''')
       ''payment.provider / PAYMENT_PROVIDER must be'')"

definition missing_provider :: "ext \<Rightarrow> config \<Rightarrow> string list" where
  "missing_provider X c = (let p = cfg_Payment c; s = py_Stripe p; key = sp_APIKey s in
     complain (py_Provider p \<noteq> ''mock'' \<and> py_Provider p \<noteq> ''stripe'' \<and> py_Provider p \<noteq> '''')
       ''payment.provider / PAYMENT_PROVIDER must be'' @
     complain ((py_Provider p = ''mock'' \<or> py_Provider p = '''') \<and> (key \<noteq> '''' \<or> sp_WebhookSecret s \<noteq> ''''))
       ''payment.provider / PAYMENT_PROVIDER is'' @
     (if py_Provider p \<noteq> ''stripe'' then [] else
       (if key = '''' then [''payment.stripe.api_key / STRIPE_API_KEY (required when PAYMENT_PROVIDER=stripe)'']
        else complain (production X c \<and> (strings_HasPrefix key ''sk_test_'' \<or> strings_HasPrefix key ''rk_test_'' \<or>
                 strings_HasPrefix key ''pk_test_'') \<and> \<not> sp_AllowTestKey s)
               ''payment.stripe.api_key / STRIPE_API_KEY is a test key'' @
             complain (production X c \<and> strings_HasPrefix key ''pk_live_'')
               ''payment.stripe.api_key / STRIPE_API_KEY is a publishable key'') @
       complain (sp_WebhookSecret s = '''' \<and> py_WebhookSecret p = '''') ''payment.stripe.webhook_secret / STRIPE_WEBHOOK_SECRET''))"

definition missing_worker :: "config \<Rightarrow> string list" where
  "missing_worker c = (let w = cfg_Worker c in
     complain (wk_MaxRetries w \<le> 0) ''worker.max_retries / WORKER_MAX_RETRIES (must be >= 1)'' @
     complain (wk_RetryBaseDelay w \<le> 0) ''worker.retry_base_delay / WORKER_RETRY_BASE_DELAY (must be > 0)'' @
     complain (wk_StreamReadCount w \<le> 0) ''worker.stream_read_count / WORKER_STREAM_READ_COUNT (must be >= 1)'' @
     complain (wk_StreamBlockTimeout w \<le> 0) ''worker.stream_block_timeout / WORKER_STREAM_BLOCK_TIMEOUT (must be > 0)'' @
     complain (wk_FailureTimeout w \<le> 0) ''worker.failure_timeout / WORKER_FAILURE_TIMEOUT (must be > 0)'' @
     complain (wk_PendingBlockTimeout w \<le> 0) ''worker.pending_block_timeout / WORKER_PENDING_BLOCK_TIMEOUT (must be > 0)'' @
     complain (wk_ReadErrorBackoff w \<le> 0) ''worker.read_error_backoff / WORKER_READ_ERROR_BACKOFF (must be > 0)'' @
     complain (rd_MaxConsecutiveReadErrors (cfg_Redis c) \<le> 0) ''redis.max_consecutive_read_errors / REDIS_MAX_CONSECUTIVE_READ_ERRORS'' @
     complain (rd_DLQRetention (cfg_Redis c) \<le> 0) ''redis.dlq_retention / REDIS_DLQ_RETENTION'')"

definition missing_recon :: "config \<Rightarrow> string list" where
  "missing_recon c = (let r = cfg_Recon c in
     complain (rc_SweepInterval r \<le> 0) ''recon.sweep_interval / RECON_SWEEP_INTERVAL (must be > 0)'' @
     complain (rc_ChargingThreshold r \<le> 0) ''recon.charging_threshold / RECON_CHARGING_THRESHOLD (must be > 0)'' @
     complain (rc_GatewayTimeout r \<le> 0) ''recon.gateway_timeout / RECON_GATEWAY_TIMEOUT (must be > 0)'' @
     complain (rc_MaxChargingAge r \<le> 0) ''recon.max_charging_age / RECON_MAX_CHARGING_AGE (must be > 0)'' @
     complain (rc_BatchSize r \<le> 0) ''recon.batch_size / RECON_BATCH_SIZE'' @
     complain (rc_MaxChargingAge r > 0 \<and> rc_ChargingThreshold r > 0 \<and> rc_MaxChargingAge r \<le> rc_ChargingThreshold r)
       ''recon.max_charging_age'')"

definition missing_saga :: "config \<Rightarrow> string list" where
  "missing_saga c = (let s = cfg_Saga c in
     complain (sc_WatchdogInterval s \<le> 0) ''saga.watchdog_interval / SAGA_WATCHDOG_INTERVAL (must be > 0)'' @
     complain (sc_StuckThreshold s \<le> 0) ''saga.stuck_threshold / SAGA_STUCK_THRESHOLD (must be > 0)'' @
     complain (sc_MaxFailedAge s \<le> 0) ''saga.max_failed_age / SAGA_MAX_FAILED_AGE (must be > 0)'' @
     complain (sc_BatchSize s \<le> 0) ''saga.batch_size / SAGA_BATCH_SIZE'' @
     complain (sc_MaxFailedAge s > 0 \<and> sc_StuckThreshold s > 0 \<and> sc_MaxFailedAge s \<le> sc_StuckThreshold s) ''saga.max_failed_age'')"

definition missing_drift :: "config \<Rightarrow> string list" where
  "missing_drift c = (let d = cfg_InventoryDrift c in
     complain (dc_SweepInterval d \<le> 0) ''inventory_drift.sweep_interval / INVENTORY_DRIFT_SWEEP_INTERVAL (must be > 0)'' @
     complain (dc_AbsoluteTolerance d < 0) ''inventory_drift.absolute_tolerance / INVENTORY_DRIFT_ABSOLUTE_TOLERANCE'')"

definition missing_admin :: "ext \<Rightarrow> config \<Rightarrow> string list" where
  "missing_admin X c = (let a = cfg_AdminStream c in
     complain (production X c \<and> as_JWTSecret a = '''') ''admin_stream.jwt_secret / ADMIN_STREAM_JWT_SECRET (required in production)'' @
     (if as_JWTSecret a = '''' then [] else
       complain (length (as_JWTSecret a) < 32) ''admin_stream.jwt_secret / ADMIN_STREAM_JWT_SECRET must be at least 32 bytes'' @
       complain (as_JWTMaxTTL a \<le> 0) ''admin_stream.jwt_max_ttl / ADMIN_STREAM_JWT_MAX_TTL''))"

definition missing_fields :: "ext \<Rightarrow> config \<Rightarrow> string list" where
  "missing_fields X c = missing_required X c @ missing_production X c @ missing_provider X c @ missing_worker c @
     missing_recon c @ missing_saga c @ missing_drift c @ missing_admin X c"

fun strings_Join :: "string list \<Rightarrow> string \<Rightarrow> string" where
  "strings_Join [] sep = ''''"
| "strings_Join [s] sep = s"
| "strings_Join (s # t # ts) sep = s @ sep @ strings_Join (t # ts) sep"

definition Config_Validate :: "ext \<Rightarrow> config \<Rightarrow> err + unit" where
  "Config_Validate X c = (let missing = missing_fields X c in
     if length missing > 0 then Inl (Plain (''missing required config fields: '' @ strings_Join missing '', '')) else Inr ())"

section \<open>Loading\<close>

definition deprecatedEnvVars :: "string list" where
  "deprecatedEnvVars = [''BOOKING_DEFAULT_TICKET_PRICE_CENTS'', ''BOOKING_DEFAULT_CURRENCY'', ''KAFKA_PAYMENT_GROUP_ID'',
     ''KAFKA_ORDER_CREATED_TOPIC'']"

text \<open>The lines on standard error, each cut after its fixed beginning. Go walks the map of deprecated
  names in no fixed order.\<close>

definition checkDeprecatedEnv :: "(string \<Rightarrow> string) \<Rightarrow> string list" where
  "checkDeprecatedEnv getenv = map (\<lambda>name. ''[config] WARN: env var '' @ name) (filter (\<lambda>name. getenv name \<noteq> '''') deprecatedEnvVars)"

definition with_fallback :: "config \<Rightarrow> config" where
  "with_fallback c = (let p = cfg_Payment c; s = py_Stripe p in
     if sp_WebhookSecret s = '''' \<and> py_WebhookSecret p \<noteq> ''''
     then c\<lparr>cfg_Payment := p\<lparr>py_Stripe := s\<lparr>sp_WebhookSecret := py_WebhookSecret p\<rparr>\<rparr>\<rparr> else c)"

definition secret_warnings :: "config \<Rightarrow> string list" where
  "secret_warnings c = (let p = cfg_Payment c; s = py_Stripe p; s' = py_Stripe (cfg_Payment (with_fallback c)) in
     complain (sp_WebhookSecret s = '''' \<and> py_WebhookSecret p \<noteq> '''')
       ''WARN: STRIPE_WEBHOOK_SECRET is empty; falling back to legacy PAYMENT_WEBHOOK_SECRET.'' @
     complain (sp_WebhookSecret s' \<noteq> '''' \<and> py_WebhookSecret p \<noteq> '''' \<and> sp_WebhookSecret s' \<noteq> py_WebhookSecret p)
       ''WARN: Both STRIPE_WEBHOOK_SECRET and PAYMENT_WEBHOOK_SECRET are set with DIFFERENT values; STRIPE_WEBHOOK_SECRET takes precedence.'')"

definition LoadConfig :: "ext \<Rightarrow> (string \<Rightarrow> string) \<Rightarrow> err + config \<Rightarrow> (err + config) \<times> string list" where
  "LoadConfig X getenv read = (case read of
     Inl e \<Rightarrow> (Inl (Wrap ''config error'' e), [])
   | Inr c \<Rightarrow> (let c1 = with_fallback c in case Config_Validate X c1 of
        Inl e \<Rightarrow> (Inl (Wrap ''config validation'' e), secret_warnings c)
      | Inr _ \<Rightarrow> (Inr c1, secret_warnings c @ checkDeprecatedEnv getenv)))"

section \<open>From the configuration to the components\<close>

definition saga_Validate :: "saga_config \<Rightarrow> err + unit" where
  "saga_Validate c =
    (if sc_WatchdogInterval c \<le> 0 then Inl (Wrap ''WatchdogInterval must be > 0'' (Plain ''invalid saga config''))
     else if sc_StuckThreshold c \<le> 0 then Inl (Wrap ''StuckThreshold must be > 0'' (Plain ''invalid saga config''))
     else if sc_MaxFailedAge c \<le> sc_StuckThreshold c
     then Inl (Wrap ''MaxFailedAge must be > StuckThreshold'' (Plain ''invalid saga config''))
     else if sc_BatchSize c \<le> 0 then Inl (Wrap ''BatchSize must be > 0'' (Plain ''invalid saga config''))
     else Inr ())"

definition NewReconConfig :: "config \<Rightarrow> err + recon_config" where
  "NewReconConfig cfg = (case recon_Validate (cfg_Recon cfg) of Inl e \<Rightarrow> Inl e | Inr _ \<Rightarrow> Inr (cfg_Recon cfg))"

definition NewDriftConfig :: "config \<Rightarrow> err + drift_config" where
  "NewDriftConfig cfg = (case drift_Validate (cfg_InventoryDrift cfg) of Inl e \<Rightarrow> Inl e | Inr _ \<Rightarrow> Inr (cfg_InventoryDrift cfg))"

definition NewSagaConfig :: "config \<Rightarrow> err + saga_config" where
  "NewSagaConfig cfg = (case saga_Validate (cfg_Saga cfg) of Inl e \<Rightarrow> Inl e | Inr _ \<Rightarrow> Inr (cfg_Saga cfg))"

definition NewExpiryConfig :: "config \<Rightarrow> err + expiry_config" where
  "NewExpiryConfig cfg = (case expiry_Validate (cfg_Expiry cfg) of Inl e \<Rightarrow> Inl e | Inr _ \<Rightarrow> Inr (cfg_Expiry cfg))"

datatype gateway = StripeAdapter stripe_config | MockAdapter

definition NewPaymentGateway :: "int \<Rightarrow> config \<Rightarrow> err + gateway" where
  "NewPaymentGateway dflt cfg = (let p = cfg_Payment cfg; s = py_Stripe p in
     if py_Provider p = ''stripe'' then (case NewStripeGateway dflt
            \<lparr>sc_APIKey = sp_APIKey s, sc_Timeout = sp_Timeout s, sc_MaxNetworkRetries = sp_MaxNetworkRetries s, sc_BaseURL = ''''\<rparr> of
          Inl e \<Rightarrow> Inl (Wrap ''bootstrap: stripe adapter init'' e)
        | Inr g \<Rightarrow> Inr (StripeAdapter g))
     else if py_Provider p = ''mock'' \<or> py_Provider p = '''' then Inr MockAdapter
     else Inl (Plain ''bootstrap: unknown PAYMENT_PROVIDER''))"

text \<open>The secret and the tolerance of the webhook handler.\<close>

definition newHandlerFromConfig :: "config \<Rightarrow> err + string \<times> duration" where
  "newHandlerFromConfig cfg = (let p = cfg_Payment cfg in
     if py_WebhookSecret p = ''''
     then Inl (Plain ''webhook: PAYMENT_WEBHOOK_SECRET is empty (refusing to start with a forgeable verifier)'')
     else Inr (py_WebhookSecret p, if py_WebhookReplayTolerance p \<le> 0 then 5 * 60 * second else py_WebhookReplayTolerance p))"

definition queue_config_of :: "config \<Rightarrow> queue_config" where
  "queue_config_of cfg = \<lparr>qc_streamReadCount = nat (wk_StreamReadCount (cfg_Worker cfg)), qc_maxRetries = nat (wk_MaxRetries (cfg_Worker cfg)),
     qc_retryBaseDelay = wk_RetryBaseDelay (cfg_Worker cfg), qc_maxConsecutiveReadErrors = nat (rd_MaxConsecutiveReadErrors (cfg_Redis cfg)),
     qc_readErrorBackoff = wk_ReadErrorBackoff (cfg_Worker cfg)\<rparr>"

text \<open>What the \<open>server\<close> process builds from the payment settings; it does not start when either fails.\<close>

definition payment_parts_built :: "int \<Rightarrow> config \<Rightarrow> bool" where
  "payment_parts_built dflt cfg \<longleftrightarrow> is_ok (NewPaymentGateway dflt cfg) \<and> is_ok (newHandlerFromConfig cfg)"

section \<open>What an accepted configuration guarantees\<close>

lemma complain_Nil [simp]: "complain b m = [] \<longleftrightarrow> \<not> b"
  by (simp add: complain_def)

lemma Config_Validate_ok: "Config_Validate X c = Inr u \<longleftrightarrow> missing_fields X c = []"
  by (simp add: Config_Validate_def Let_def)

lemmas accepted_defs = missing_fields_def missing_required_def missing_production_def missing_provider_def missing_worker_def
  missing_recon_def missing_saga_def missing_drift_def missing_admin_def Let_def

lemma LoadConfig_accepts:
  assumes "LoadConfig X getenv read = (Inr c, warns)"
  obtains c0 where "read = Inr c0" "c = with_fallback c0" "Config_Validate X c = Inr ()"
    "warns = secret_warnings c0 @ checkDeprecatedEnv getenv"
  using assms by (auto simp: LoadConfig_def Let_def split: sum.splits)

text \<open>The fallback fills an empty Stripe secret from the legacy one, so afterwards the legacy one is never set alone.\<close>

lemma fallback_secret:
  "sp_WebhookSecret (py_Stripe (cfg_Payment (with_fallback c))) = '''' \<Longrightarrow> py_WebhookSecret (cfg_Payment (with_fallback c)) = ''''"
  by (auto simp: with_fallback_def Let_def split: if_splits)

lemma accepted_provider:
  assumes "Config_Validate X c = Inr ()"
  shows "py_Provider (cfg_Payment c) = ''stripe'' \<and> sp_APIKey (py_Stripe (cfg_Payment c)) \<noteq> '''' \<or>
    (py_Provider (cfg_Payment c) = ''mock'' \<or> py_Provider (cfg_Payment c) = '''') \<and> sp_APIKey (py_Stripe (cfg_Payment c)) = '''' \<and>
      sp_WebhookSecret (py_Stripe (cfg_Payment c)) = '''' \<and> \<not> production X c"
proof -
  have "missing_provider X c = []" "missing_production X c = []"
    using assms by (simp_all add: Config_Validate_ok missing_fields_def)
  then show ?thesis by (auto simp: missing_provider_def missing_production_def Let_def split: if_splits)
qed

lemma accepted_gateway:
  assumes "Config_Validate X c = Inr ()"
  shows "is_ok (NewPaymentGateway dflt c) \<and> (NewPaymentGateway dflt c = Inr MockAdapter \<longleftrightarrow> py_Provider (cfg_Payment c) \<noteq> ''stripe'')"
  using accepted_provider [OF assms] by (auto simp: NewPaymentGateway_def NewStripeGateway_def Let_def)



section \<open>Concrete configurations\<close>

definition demo_payment :: "string \<Rightarrow> string \<Rightarrow> string \<Rightarrow> string \<Rightarrow> payment_config" where
  "demo_payment provider key stripe_secret legacy = \<lparr>py_Provider = provider,
     py_Stripe = \<lparr>sp_APIKey = key, sp_WebhookSecret = stripe_secret, sp_Timeout = 30 * second, sp_MaxNetworkRetries = 2, sp_AllowTestKey = False\<rparr>,
     py_WebhookSecret = legacy, py_WebhookReplayTolerance = 300 * second, py_WebhookExpectedLiveMode = False, py_WebhookLoopbackURL = ''''\<rparr>"

definition demo_config :: "string \<Rightarrow> payment_config \<Rightarrow> config" where
  "demo_config env pay = \<lparr>
     cfg_App = \<lparr>app_Name = ''b'', app_Version = ''1'', app_LogLevel = ''info'', app_WorkerID = ''w'', app_Env = env\<rparr>,
     cfg_Server = \<lparr>sv_Port = ''8080'', sv_ReadTimeout = 5 * second, sv_WriteTimeout = 10 * second, sv_EnablePprof = False,
       sv_EnableTestEndpoints = False, sv_PprofAddr = '''', sv_PprofReadTimeout = 0, sv_PprofWriteTimeout = 0,
       sv_TrustedProxies = [], sv_CORSAllowedOrigins = []\<rparr>,
     cfg_Redis = \<lparr>rd_Addr = ''redis:6379'', rd_Password = '''', rd_DB = 0, rd_PoolSize = 200, rd_MinIdleConns = 20, rd_ReadTimeout = second,
       rd_WriteTimeout = second, rd_PoolTimeout = second, rd_MaxConsecutiveReadErrors = 30, rd_InventoryTTL = 720 * second,
       rd_IdempotencyTTL = 24 * second, rd_DLQRetention = 720 * second\<rparr>,
     cfg_Worker = \<lparr>wk_StreamReadCount = 10, wk_StreamBlockTimeout = 2 * second, wk_MaxRetries = 3, wk_RetryBaseDelay = second,
       wk_FailureTimeout = 5 * second, wk_PendingBlockTimeout = second, wk_ReadErrorBackoff = second, wk_MetricsAddr = '':9091''\<rparr>,
     cfg_Postgres = \<lparr>pc_DSN = ''postgres://db'', pc_MaxOpenConns = 50, pc_MaxIdleConns = 5, pc_MaxIdleTime = second, pc_MaxLifetime = second,
       pc_PingAttempts = 10, pc_PingInterval = second, pc_PingPerAttempt = second\<rparr>,
     cfg_Kafka = \<lparr>kf_Brokers = [''kafka:9092''], kf_WriteTimeout = 5 * second, kf_OutboxBatchSize = 100, kf_SagaGroupID = ''g'', kf_OrderFailedTopic = ''order.failed''\<rparr>,
     cfg_Recon = \<lparr>rc_SweepInterval = 120 * second, rc_ChargingThreshold = 120 * second, rc_GatewayTimeout = 10 * second,
       rc_MaxChargingAge = 86400 * second, rc_BatchSize = 100\<rparr>,
     cfg_Saga = \<lparr>sc_WatchdogInterval = 60 * second, sc_StuckThreshold = 60 * second, sc_BatchSize = 100, sc_MaxFailedAge = 86400 * second\<rparr>,
     cfg_InventoryDrift = \<lparr>dc_SweepInterval = 60 * second, dc_AbsoluteTolerance = 100, dc_AutoRehydrate = False, dc_MaxConsecutiveFailures = 5\<rparr>,
     cfg_ReservationWindow = 900 * second, cfg_Payment = pay,
     cfg_Expiry = \<lparr>ec_SweepInterval = 30 * second, ec_ExpiryGracePeriod = 2 * second, ec_MaxAge = 86400 * second, ec_BatchSize = 100\<rparr>,
     cfg_AdminStream = \<lparr>as_JWTSecret = replicate 32 (CHR ''s''), as_JWTMaxTTL = 3600 * second\<rparr>\<rparr>"

abbreviation no_env :: "string \<Rightarrow> string" where
  "no_env \<equiv> \<lambda>_. ''''"



text \<open>The environment that the README gives for the demo, a mock gateway with the legacy secret, is refused; a Stripe
  deployment with the new secret alone is accepted but does not start; and with two different
  secrets the warning says the opposite of what the handler does.\<close>

lemma demo_environment_is_refused:
  "\<not> is_ok (fst (LoadConfig plain_ext no_env (Inr (demo_config ''development'' (demo_payment ''mock'' '''' '''' ''demo_secret_local_only'')))))"
  by code_simp

lemma new_secret_alone_does_not_start:
  "(case LoadConfig plain_ext no_env (Inr (demo_config ''production'' (demo_payment ''stripe'' ''sk_live_1'' ''whsec'' ''''))) of
     (Inr c, w) \<Rightarrow> \<not> payment_parts_built 2 c | _ \<Rightarrow> False)"
  by code_simp

lemma legacy_secret_wins:
  "(case LoadConfig plain_ext no_env (Inr (demo_config ''production'' (demo_payment ''stripe'' ''sk_live_1'' ''new'' ''old''))) of
     (Inr c, w) \<Rightarrow> w = [''WARN: Both STRIPE_WEBHOOK_SECRET and PAYMENT_WEBHOOK_SECRET are set with DIFFERENT values; STRIPE_WEBHOOK_SECRET takes precedence.''] \<and>
       newHandlerFromConfig c = Inr (''old'', 300 * second) | _ \<Rightarrow> False)"
  by code_simp

end
