(* ===== verification/Admin_Access.thy ===== *)
theory Admin_Access
  imports Configuration Api_Booking
begin

text \<open>
  Who may call: the JWT middleware of the admin stream (\<open>api/middleware/admin_jwt.go\<close>, its construction in
  \<open>bootstrap/admin_stream.go\<close>), the tokens the CLI mints, and the CORS middleware
  (\<open>api/middleware/cors.go\<close>). golang-jwt is a parameter: \<open>parse\<close> answers the claims of a token whose HS256 signature
  fits the secret and whose \<open>exp\<close> and \<open>nbf\<close> allow the current time, \<open>sign\<close> makes a token.
\<close>

section \<open>The admin middleware\<close>

record admin_claims =
  ac_User :: string
  ac_Scope :: string
  ac_IssuedAt :: "time option"
  ac_ExpiresAt :: "time option"
  ac_NotBefore :: "time option"

record admin_jwt_config =
  aj_Secret :: string
  aj_MaxTTL :: duration

definition AdminJWTScope :: string where
  "AdminJWTScope = ''admin.events''"

definition DefaultAdminJWTMaxTTL :: duration where
  "DefaultAdminJWTMaxTTL = 3600 * second"

text \<open>\<open>c.Next()\<close> with the user, or an answer.\<close>

datatype admission = Admitted string | Refused response

type_synonym jwt_parser = "string \<Rightarrow> time \<Rightarrow> string \<Rightarrow> admin_claims option"

definition AdminJWTMiddleware :: "jwt_parser \<Rightarrow> admin_jwt_config \<Rightarrow> time \<Rightarrow> string \<Rightarrow> admission" where
  "AdminJWTMiddleware parse cfg now token = (let maxTTL = (if aj_MaxTTL cfg = 0 then DefaultAdminJWTMaxTTL else aj_MaxTTL cfg) in
     if length (aj_Secret cfg) < 32
     then Refused (answer 503 (ErrorResponse ''admin endpoint disabled (jwt secret missing or too short)''))
     else if token = '''' then Refused (answer 401 (ErrorResponse ''missing token''))
     else case parse (aj_Secret cfg) now token of
       None \<Rightarrow> Refused (answer 401 (ErrorResponse ''invalid token''))
     | Some claims \<Rightarrow>
         if ac_Scope claims \<noteq> AdminJWTScope then Refused (answer 403 (ErrorResponse ''wrong scope''))
         else case (ac_IssuedAt claims, ac_ExpiresAt claims) of
           (Some iat, Some ex) \<Rightarrow>
             if ex - iat > maxTTL then Refused (answer 401 (ErrorResponse ''ttl exceeds server policy''))
             else if ex - iat < 0 then Refused (answer 401 (ErrorResponse ''negative ttl''))
             else Admitted (ac_User claims)
         | _ \<Rightarrow> Refused (answer 401 (ErrorResponse ''missing required claims'')))"

definition newAdminJWTMiddleware :: "jwt_parser \<Rightarrow> config \<Rightarrow> time \<Rightarrow> string \<Rightarrow> admission" where
  "newAdminJWTMiddleware parse cfg now token =
    (if length (as_JWTSecret (cfg_AdminStream cfg)) = 0
     then Refused (answer 503 (ErrorResponse ''admin endpoint disabled (no JWT secret configured)''))
     else let maxTTL = as_JWTMaxTTL (cfg_AdminStream cfg) in
       AdminJWTMiddleware parse \<lparr>aj_Secret = as_JWTSecret (cfg_AdminStream cfg),
          aj_MaxTTL = (if maxTTL = 0 then DefaultAdminJWTMaxTTL else maxTTL)\<rparr> now token)"

text \<open>\<open>jwt.NewNumericDate\<close> cuts a time to whole seconds.\<close>

definition NewNumericDate :: "time \<Rightarrow> time" where
  "NewNumericDate t = t div second * second"

definition admin_claims_of :: "string \<Rightarrow> duration \<Rightarrow> time \<Rightarrow> admin_claims" where
  "admin_claims_of user ttl now = \<lparr>ac_User = user, ac_Scope = AdminJWTScope, ac_IssuedAt = Some (NewNumericDate now),
     ac_ExpiresAt = Some (NewNumericDate (now + ttl)), ac_NotBefore = Some (NewNumericDate now)\<rparr>"

definition MintAdminJWT :: "(string \<Rightarrow> admin_claims \<Rightarrow> err + string) \<Rightarrow> string \<Rightarrow> string \<Rightarrow> duration \<Rightarrow> time \<Rightarrow> err + string" where
  "MintAdminJWT sign secret user ttl now =
    (if length secret < 32 then Inl (Plain ''admin jwt secret must be at least 32 bytes'')
     else if user = '''' then Inl (Plain ''admin jwt user must not be empty'')
     else case sign secret (admin_claims_of user ttl now) of
       Inl e \<Rightarrow> Inl (Wrap ''sign admin jwt'' e)
     | Inr token \<Rightarrow> Inr token)"

section \<open>Documented behaviour of the token library\<close>

text \<open>A signed token is not empty and is parsed back with its secret from \<open>nbf\<close> until before \<open>exp\<close>.\<close>

definition in_time :: "admin_claims \<Rightarrow> time \<Rightarrow> bool" where
  "in_time c now \<longleftrightarrow> (case ac_ExpiresAt c of None \<Rightarrow> True | Some t \<Rightarrow> now < t) \<and> (case ac_NotBefore c of None \<Rightarrow> True | Some t \<Rightarrow> t \<le> now)"

definition jwt_library :: "(string \<Rightarrow> admin_claims \<Rightarrow> err + string) \<Rightarrow> jwt_parser \<Rightarrow> bool" where
  "jwt_library sign parse \<longleftrightarrow> (\<forall>secret c token. sign secret c = Inr token \<longrightarrow>
     token \<noteq> '''' \<and> (\<forall>now. parse secret now token = (if in_time c now then Some c else None)))"

section \<open>CORS\<close>

text \<open>The headers it adds to the answer, and whether the request goes on (a preflight ends with 204).\<close>

definition CORS :: "ext \<Rightarrow> string list \<Rightarrow> string \<Rightarrow> string \<Rightarrow> (string \<times> string) list \<times> bool" where
  "CORS X allowedOrigins method origin =
    (let allowSet = filter (\<lambda>o'. o' \<noteq> '''') (map (strings_TrimSpace X) allowedOrigins) in
     if allowSet = [] then ([], True)
     else if origin = '''' \<or> origin \<notin> set allowSet then ([(''Vary'', ''Origin'')], True)
     else if method = ''OPTIONS''
     then ([(''Vary'', ''Origin''), (''Access-Control-Allow-Origin'', origin), (''Vary'', ''Access-Control-Request-Method''),
            (''Vary'', ''Access-Control-Request-Headers''), (''Access-Control-Allow-Methods'', ''GET, POST, OPTIONS''),
            (''Access-Control-Allow-Headers'', ''Content-Type, Idempotency-Key, X-Correlation-ID''),
            (''Access-Control-Max-Age'', ''600'')], False)
     else ([(''Vary'', ''Origin''), (''Access-Control-Allow-Origin'', origin)], True))"

section \<open>What they guarantee\<close>

text \<open>Exactly the tokens that pass every check are admitted.\<close>

lemma AdminJWTMiddleware_admits:
  "AdminJWTMiddleware parse cfg now token = Admitted u \<longleftrightarrow> 32 \<le> length (aj_Secret cfg) \<and> token \<noteq> '''' \<and>
    (\<exists>c iat ex. parse (aj_Secret cfg) now token = Some c \<and> ac_User c = u \<and> ac_Scope c = AdminJWTScope \<and>
       ac_IssuedAt c = Some iat \<and> ac_ExpiresAt c = Some ex \<and> 0 \<le> ex - iat \<and>
       ex - iat \<le> (if aj_MaxTTL cfg = 0 then DefaultAdminJWTMaxTTL else aj_MaxTTL cfg))"
  by (auto simp: AdminJWTMiddleware_def Let_def split: option.splits if_splits)

lemma whole_seconds: "ttl mod second = 0 \<Longrightarrow> NewNumericDate (now + ttl) = NewNumericDate now + ttl"
proof -
  assume "ttl mod second = 0"
  then obtain k where k: "ttl = k * second" by (metis dvd_def mod_0_imp_dvd mult.commute)
  have "now + ttl = now + k * 1000000000" by (simp add: k)
  then have "(now + ttl) div second = now div second + k" by (simp only: div_mult_self1) 
  then show ?thesis by (simp add: NewNumericDate_def k algebra_simps)
qed


text \<open>A library that signs one claim set only.\<close>

definition demo_jwt_claims :: admin_claims where
  "demo_jwt_claims = admin_claims_of ''ops'' (600 * second) (1000 * second)"

definition demo_jwt_sign :: "string \<Rightarrow> admin_claims \<Rightarrow> err + string" where
  "demo_jwt_sign secret c = (if c = demo_jwt_claims then Inr (''token-'' @ secret) else Inl (Plain ''unsupported''))"

definition demo_jwt_parse :: jwt_parser where
  "demo_jwt_parse secret now token = (if token = ''token-'' @ secret \<and> in_time demo_jwt_claims now then Some demo_jwt_claims else None)"

lemma demo_jwt_library: "jwt_library demo_jwt_sign demo_jwt_parse"
  by (auto simp: jwt_library_def demo_jwt_sign_def demo_jwt_parse_def split: if_splits)


text \<open>Only listed origins are echoed, never a wildcard, and every answer of an enabled middleware varies by origin.\<close>

lemma CORS_echoes_only_listed:
  assumes "CORS X allowed method origin = (hs, goes_on)" and "(''Access-Control-Allow-Origin'', v) \<in> set hs"
  shows "v = origin \<and> origin \<noteq> '''' \<and> origin \<in> strings_TrimSpace X ` set allowed \<and> (''Vary'', ''Origin'') \<in> set hs"
  using assms by (auto simp: CORS_def Let_def split: if_splits)

end
