(* ===== verification/Admin_Stream.thy ===== *)
theory Admin_Stream
  imports State "HOL-Library.Sublist"
begin

text \<open>
  The live stream of admin events: the bus that buffers events and writes them to a Redis stream
  (\<open>cache/admin_event_bus.go\<close>), the subscriber that reads the stream, and the hub that hands every message to the
  connected clients (\<open>api/sse/subscriber.go\<close>, \<open>hub.go\<close>). Each goroutine is a loop over a
  channel, so each iteration is a step; a run is any list or sequence of steps. Go's \<open>select\<close> picks any
  ready case, so every order is possible.
\<close>

section \<open>The stream in Redis\<close>

text \<open>An entry is numbered; its id text is \<open>redis_StreamID\<close> of the number. \<open>XADD MAXLEN ~ n\<close> may remove old
  entries as long as \<open>n\<close> stay: \<open>trim\<close> is how many Redis would like to remove.\<close>

type_synonym entry = "nat \<times> (string \<rightharpoonup> string)"

record astream =
  st_entries :: "entry list"
  st_next :: nat

definition astream_XADD :: "nat \<Rightarrow> nat \<Rightarrow> (string \<rightharpoonup> string) \<Rightarrow> astream \<Rightarrow> astream" where
  "astream_XADD maxLen trim vals st = (let es = st_entries st @ [(st_next st, vals)] in
     \<lparr>st_entries = drop (min trim (length es - maxLen)) es, st_next = st_next st + 1\<rparr>)"

section \<open>The bus\<close>

record bus_config =
  bc_StreamMaxLen :: nat
  bc_ChannelCapacity :: nat

record admin_bus =
  ab_ch :: "admin_event list"
  ab_depth :: int
  ab_highWater :: int
  ab_published :: nat
  ab_dropped :: nat
  ab_xaddFailures :: nat

definition NewAdminEventBus :: admin_bus where
  "NewAdminEventBus = \<lparr>ab_ch = [], ab_depth = 0, ab_highWater = 0, ab_published = 0, ab_dropped = 0, ab_xaddFailures = 0\<rparr>"

text \<open>A \<open>NewAdminEventBus\<close> parameter of 0 is replaced by its default.\<close>

definition bus_defaults :: "bus_config \<Rightarrow> bus_config" where
  "bus_defaults cfg = \<lparr>bc_StreamMaxLen = (if bc_StreamMaxLen cfg = 0 then 100000 else bc_StreamMaxLen cfg),
     bc_ChannelCapacity = (if bc_ChannelCapacity cfg = 0 then 10000 else bc_ChannelCapacity cfg)\<rparr>"

definition AdminEventBus_Publish :: "bus_config \<Rightarrow> admin_event \<Rightarrow> admin_bus \<Rightarrow> admin_bus" where
  "AdminEventBus_Publish cfg e b =
    (if length (ab_ch b) < bc_ChannelCapacity cfg
     then let d = ab_depth b + 1 in
       b\<lparr>ab_ch := ab_ch b @ [e], ab_depth := d, ab_highWater := (if d \<le> ab_highWater b then ab_highWater b else d),
         ab_published := ab_published b + 1\<rparr>
     else b\<lparr>ab_dropped := ab_dropped b + 1\<rparr>)"

text \<open>The fields of a stream entry; \<open>json\<close> and \<open>nano\<close> are the JSON text of the payload and the RFC 3339 text of a time.\<close>

definition xadd_values :: "ext \<Rightarrow> (admin_payload \<Rightarrow> string) \<Rightarrow> (time \<Rightarrow> string) \<Rightarrow> admin_event \<Rightarrow> string \<rightharpoonup> string" where
  "xadd_values X json nano e = map_of [(''event_id'', uuid_String X (ae_EventID e)), (''event_type'', ae_EventType e),
     (''occurred_at'', nano (ae_OccurredAt e)), (''schema_version'', strconv_Itoa (ae_SchemaVersion e)), (''data'', json (ae_Data e))]"

definition bus_xadd :: "(admin_event \<Rightarrow> string \<rightharpoonup> string) \<Rightarrow> bus_config \<Rightarrow> fault \<Rightarrow> nat \<Rightarrow> admin_event \<Rightarrow> admin_bus \<times> astream \<Rightarrow> admin_bus \<times> astream" where
  "bus_xadd vals cfg f trim e s = (case s of (b, st) \<Rightarrow>
     (if f = Works then b else b\<lparr>ab_xaddFailures := ab_xaddFailures b + 1\<rparr>,
      if f = Lost then st else astream_XADD (bc_StreamMaxLen cfg) trim (vals e) st))"

text \<open>One \<open>case evt := <-b.ch\<close> of the drainer, in \<open>Run\<close> or in \<open>drainOnShutdown\<close>; an empty channel has nothing to receive.\<close>

definition bus_receive :: "(admin_event \<Rightarrow> string \<rightharpoonup> string) \<Rightarrow> bus_config \<Rightarrow> fault \<Rightarrow> nat \<Rightarrow> admin_bus \<times> astream \<Rightarrow> admin_bus \<times> astream" where
  "bus_receive vals cfg f trim s = (case s of (b, st) \<Rightarrow> (case ab_ch b of
     [] \<Rightarrow> s
   | e # es \<Rightarrow> bus_xadd vals cfg f trim e (b\<lparr>ab_ch := es, ab_depth := ab_depth b - 1\<rparr>, st)))"

text \<open>\<open>drainOnShutdown\<close>: the list ends when the deadline does.\<close>

fun drainOnShutdown :: "(admin_event \<Rightarrow> string \<rightharpoonup> string) \<Rightarrow> bus_config \<Rightarrow> (fault \<times> nat) list \<Rightarrow> admin_bus \<times> astream \<Rightarrow> admin_bus \<times> astream" where
  "drainOnShutdown vals cfg [] s = s"
| "drainOnShutdown vals cfg ((f, trim) # fs) s =
    (if ab_ch (fst s) = [] then s else drainOnShutdown vals cfg fs (bus_receive vals cfg f trim s))"

datatype bus_event = Publish admin_event | Receive fault nat

fun bus_run :: "(admin_event \<Rightarrow> string \<rightharpoonup> string) \<Rightarrow> bus_config \<Rightarrow> bus_event list \<Rightarrow> admin_bus \<times> astream \<Rightarrow> admin_bus \<times> astream" where
  "bus_run vals cfg [] s = s"
| "bus_run vals cfg (Publish e # evs) s = bus_run vals cfg evs (AdminEventBus_Publish cfg e (fst s), snd s)"
| "bus_run vals cfg (Receive f trim # evs) s = bus_run vals cfg evs (bus_receive vals cfg f trim s)"

section \<open>The subscriber\<close>

record subscriber_config =
  sb_BackoffBase :: duration
  sb_BackoffMax :: duration
  sb_MaxConsecFailures :: nat

definition subscriber_defaults :: "subscriber_config \<Rightarrow> subscriber_config" where
  "subscriber_defaults cfg = \<lparr>sb_BackoffBase = (if sb_BackoffBase cfg = 0 then 200000000 else sb_BackoffBase cfg),
     sb_BackoffMax = (if sb_BackoffMax cfg = 0 then 5 * second else sb_BackoffMax cfg),
     sb_MaxConsecFailures = (if sb_MaxConsecFailures cfg = 0 then 30 else sb_MaxConsecFailures cfg)\<rparr>"

datatype run_status = Running | Stopped | Escalated

text \<open>\<open>lastID\<close> is \<open>None\<close> for \<open>$\<close>; the broadcasts so far, the waits between failures and how it ended.\<close>

record subscriber =
  ss_lastID :: "nat option"
  ss_consecFails :: nat
  ss_broadcast :: "entry list"
  ss_waits :: "duration list"
  ss_status :: run_status

definition NewSubscriber :: subscriber where
  "NewSubscriber = \<lparr>ss_lastID = None, ss_consecFails = 0, ss_broadcast = [], ss_waits = [], ss_status = Running\<rparr>"

text \<open>\<open>XREAD BLOCK\<close> from an id answers the entries after it, and when there are none the ones that arrive while it
  blocks; from \<open>$\<close> only those. No entries is the idle timeout, \<open>redis.Nil\<close>.\<close>

definition XRead :: "nat option \<Rightarrow> entry list \<Rightarrow> entry list \<Rightarrow> entry list" where
  "XRead lastID present arriving = (case lastID of
     None \<Rightarrow> take 100 arriving
   | Some i \<Rightarrow> (case filter (\<lambda>e. i < fst e) present of [] \<Rightarrow> take 100 arriving | es \<Rightarrow> take 100 es))"

text \<open>The loop over a batch: \<open>n\<close> broadcasts succeed before the hub or the context stops (\<open>None\<close>: all do).\<close>

fun broadcast_each :: "nat option \<Rightarrow> entry list \<Rightarrow> subscriber \<Rightarrow> subscriber" where
  "broadcast_each n [] s = s"
| "broadcast_each (Some 0) (e # es) s = s\<lparr>ss_status := Stopped\<rparr>"
| "broadcast_each n (e # es) s =
    broadcast_each (map_option (\<lambda>k. k - 1) n) es (s\<lparr>ss_broadcast := ss_broadcast s @ [e], ss_lastID := Some (fst e)\<rparr>)"

text \<open>One iteration. Before the call \<open>rd_between\<close> arrived; the call fails, or \<open>rd_arriving\<close> arrives during it.\<close>

record xread_round =
  rd_between :: "entry list"
  rd_arriving :: "entry list"
  rd_fails :: bool
  rd_cancelled :: bool
  rd_hubStops :: "nat option"

definition subscriber_backoff :: "subscriber_config \<Rightarrow> nat \<Rightarrow> duration" where
  "subscriber_backoff cfg n = (let b = sb_BackoffBase cfg * 2 ^ min (n - 1) 5 in if b > sb_BackoffMax cfg then sb_BackoffMax cfg else b)"

definition subscriber_round :: "subscriber_config \<Rightarrow> xread_round \<Rightarrow> entry list \<Rightarrow> subscriber \<Rightarrow> subscriber" where
  "subscriber_round cfg r present s =
    (if rd_cancelled r then s\<lparr>ss_status := Stopped\<rparr>
     else if rd_fails r then
       (let n = ss_consecFails s + 1; s1 = s\<lparr>ss_consecFails := n\<rparr> in
        if n \<ge> sb_MaxConsecFailures cfg then s1\<lparr>ss_status := Escalated\<rparr>
        else s1\<lparr>ss_waits := ss_waits s @ [subscriber_backoff cfg n]\<rparr>)
     else broadcast_each (rd_hubStops r) (XRead (ss_lastID s) (present @ rd_between r) (rd_arriving r)) (s\<lparr>ss_consecFails := 0\<rparr>))"

fun subscriber_Run :: "subscriber_config \<Rightarrow> xread_round list \<Rightarrow> entry list \<Rightarrow> subscriber \<Rightarrow> subscriber" where
  "subscriber_Run cfg [] present s = s"
| "subscriber_Run cfg (r # rs) present s =
    (if ss_status s \<noteq> Running then s
     else subscriber_Run cfg rs (present @ rd_between r @ rd_arriving r) (subscriber_round cfg r present s))"

section \<open>The hub\<close>

text \<open>A client's \<open>Send\<close> channel, and what its handler has received from it.\<close>

record send_chan =
  sc_buf :: "entry list"
  sc_closed :: bool
  sc_received :: "entry list"

type_synonym client = nat

record hub =
  hb_register :: "client list"
  hb_unregister :: "client list"
  hb_broadcast :: "entry list"
  hb_stopped :: bool
  hb_clients :: "client list"
  hb_chan :: "client \<Rightarrow> send_chan"
  hb_activeClients :: int
  hb_broadcastHighWater :: nat
  hb_dropped :: nat

definition NewHub :: hub where
  "NewHub = \<lparr>hb_register = [], hb_unregister = [], hb_broadcast = [], hb_stopped = False, hb_clients = [],
     hb_chan = (\<lambda>_. \<lparr>sc_buf = [], sc_closed = False, sc_received = []\<rparr>), hb_activeClients = 0, hb_broadcastHighWater = 0, hb_dropped = 0\<rparr>"

text \<open>Closing a closed channel and sending on one panic: \<open>None\<close>. A full buffer makes the send not ready.\<close>

definition chan_close :: "send_chan \<Rightarrow> send_chan option" where
  "chan_close ch = (if sc_closed ch then None else Some (ch\<lparr>sc_closed := True\<rparr>))"

definition chan_trySend :: "entry \<Rightarrow> send_chan \<Rightarrow> (bool \<times> send_chan) option" where
  "chan_trySend m ch = (if sc_closed ch then None
     else if length (sc_buf ch) < 100 then Some (True, ch\<lparr>sc_buf := sc_buf ch @ [m]\<rparr>) else Some (False, ch))"

definition hub_close :: "client \<Rightarrow> hub \<Rightarrow> hub option" where
  "hub_close c h = map_option (\<lambda>ch. h\<lparr>hb_chan := (hb_chan h)(c := ch)\<rparr>) (chan_close (hb_chan h c))"

text \<open>The calls of handlers and subscriber, which do not block forever: not ready when the buffer is full.\<close>

definition hub_Register :: "client \<Rightarrow> hub \<Rightarrow> hub option" where
  "hub_Register c h = (if hb_stopped h \<or> length (hb_register h) \<ge> 32 then None else Some (h\<lparr>hb_register := hb_register h @ [c]\<rparr>))"

definition hub_Unregister :: "client \<Rightarrow> hub \<Rightarrow> hub option" where
  "hub_Unregister c h = (if hb_stopped h then Some h
     else if length (hb_unregister h) \<ge> 32 then None else Some (h\<lparr>hb_unregister := hb_unregister h @ [c]\<rparr>))"

definition hub_Broadcast :: "entry \<Rightarrow> hub \<Rightarrow> hub option" where
  "hub_Broadcast m h = (if hb_stopped h \<or> length (hb_broadcast h) \<ge> 256 then None else Some (h\<lparr>hb_broadcast := hb_broadcast h @ [m]\<rparr>))"

text \<open>The cases of the hub's own loop.\<close>

definition hub_register :: "client \<Rightarrow> hub \<Rightarrow> hub" where
  "hub_register c h = h\<lparr>hb_clients := List.insert c (hb_clients h), hb_activeClients := hb_activeClients h + 1\<rparr>"

definition hub_remove :: "client \<Rightarrow> hub \<Rightarrow> hub option" where
  "hub_remove c h = map_option (\<lambda>h1. h1\<lparr>hb_activeClients := hb_activeClients h1 - 1\<rparr>)
     (hub_close c (h\<lparr>hb_clients := filter (\<lambda>d. d \<noteq> c) (hb_clients h)\<rparr>))"

definition hub_unregister :: "client \<Rightarrow> hub \<Rightarrow> hub option" where
  "hub_unregister c h = (if c \<in> set (hb_clients h) then hub_remove c h else Some h)"

fun hub_deliver :: "entry \<Rightarrow> client list \<Rightarrow> hub \<Rightarrow> hub option" where
  "hub_deliver m [] h = Some h"
| "hub_deliver m (c # cs) h = (case chan_trySend m (hb_chan h c) of
     None \<Rightarrow> None
   | Some (True, ch) \<Rightarrow> hub_deliver m cs (h\<lparr>hb_chan := (hb_chan h)(c := ch)\<rparr>)
   | Some (False, _) \<Rightarrow> (case hub_remove c h of
        None \<Rightarrow> None
      | Some h1 \<Rightarrow> hub_deliver m cs (h1\<lparr>hb_dropped := hb_dropped h1 + 1\<rparr>)))"

definition hub_dispatch :: "entry \<Rightarrow> hub \<Rightarrow> hub option" where
  "hub_dispatch m h = (let d = length (hb_broadcast h) + 1 in
     hub_deliver m (hb_clients h) (h\<lparr>hb_broadcastHighWater := max (hb_broadcastHighWater h) d\<rparr>))"

fun hub_closeAll :: "client list \<Rightarrow> hub \<Rightarrow> hub option" where
  "hub_closeAll [] h = Some h"
| "hub_closeAll (c # cs) h = (case hub_close c h of None \<Rightarrow> None | Some h1 \<Rightarrow> hub_closeAll cs h1)"

definition hub_stop :: "hub \<Rightarrow> hub option" where
  "hub_stop h = map_option (\<lambda>h1. h1\<lparr>hb_activeClients := 0, hb_stopped := True\<rparr>) (hub_closeAll (hb_clients h) h)"

text \<open>A handler's receive from its channel.\<close>

definition client_receive :: "client \<Rightarrow> hub \<Rightarrow> hub" where
  "client_receive c h = (case sc_buf (hb_chan h c) of
     [] \<Rightarrow> h
   | m # ms \<Rightarrow> h\<lparr>hb_chan := (hb_chan h)(c := (hb_chan h c)\<lparr>sc_buf := ms, sc_received := sc_received (hb_chan h c) @ [m]\<rparr>)\<rparr>)"

section \<open>What the bus keeps\<close>

text \<open>The numbers of the stored entries are consecutive and end before the next one.\<close>

definition stream_wf :: "astream \<Rightarrow> bool" where
  "stream_wf st \<longleftrightarrow> length (st_entries st) \<le> st_next st \<and> map fst (st_entries st) = [st_next st - length (st_entries st)..<st_next st]"

lemma XADD_wf: "stream_wf st \<Longrightarrow> stream_wf (astream_XADD n trim v st)"
proof -
  assume wf: "stream_wf st"
  let ?es = "st_entries st @ [(st_next st, v)]"
  have len: "length ?es \<le> st_next st + 1" using wf by (simp add: stream_wf_def)
  have "map fst ?es = [st_next st + 1 - length ?es..<st_next st + 1]" using wf by (simp add: stream_wf_def)
  then have "map fst (drop k ?es) = drop k [st_next st + 1 - length ?es..<st_next st + 1]" for k by (simp only: drop_map [symmetric])
  then have "map fst (drop k ?es) = [st_next st + 1 - length (drop k ?es)..<st_next st + 1]" if "k \<le> length ?es" for k
    using that len by (simp add: drop_upt algebra_simps)
  moreover have "min trim (length ?es - n) \<le> length ?es" by simp
  ultimately show ?thesis using len by (simp add: astream_XADD_def stream_wf_def Let_def)
qed

lemma XADD_snoc: "\<exists>k. map snd (st_entries (astream_XADD n trim v st)) = drop k (map snd (st_entries st) @ [v])"
  by (auto simp: astream_XADD_def Let_def drop_map [symmetric] intro!: exI)

fun published_of :: "bus_event list \<Rightarrow> admin_event list" where
  "published_of [] = []"
| "published_of (Publish e # evs) = e # published_of evs"
| "published_of (Receive f t # evs) = published_of evs"

text \<open>The state of the bus after \<open>pubs\<close> were published: \<open>taken\<close> were received by the drainer, \<open>written\<close> of them reached
  the stream.\<close>

definition bus_state :: "(admin_event \<Rightarrow> string \<rightharpoonup> string) \<Rightarrow> bus_config \<Rightarrow> astream \<Rightarrow> admin_event list \<Rightarrow>
    admin_event list \<Rightarrow> admin_event list \<Rightarrow> admin_bus \<times> astream \<Rightarrow> bool" where
  "bus_state vals cfg st0 pubs taken written s \<longleftrightarrow> (case s of (b, st) \<Rightarrow>
     subseq (taken @ ab_ch b) pubs \<and> ab_published b = length taken + length (ab_ch b) \<and> ab_published b + ab_dropped b = length pubs \<and>
     ab_depth b = int (length (ab_ch b)) \<and> ab_depth b \<le> ab_highWater b \<and> ab_highWater b \<le> int (bc_ChannelCapacity cfg) \<and>
     subseq written taken \<and> length taken \<le> length written + ab_xaddFailures b \<and> stream_wf st \<and>
     st_next st = st_next st0 + length written \<and>
     (\<exists>k. map snd (st_entries st) = drop k (map snd (st_entries st0) @ map vals written)))"

lemma AdminEventBus_Publish_state:
  "bus_state vals cfg st0 pubs taken written (b, st) \<Longrightarrow> bus_state vals cfg st0 (pubs @ [e]) taken written (AdminEventBus_Publish cfg e b, st)"
  by (auto simp: bus_state_def AdminEventBus_Publish_def Let_def intro: list_emb_append_mono [of _ "xs @ ys" _ "[e]" "[e]" for xs ys, simplified] subseq_order.order_trans
      split: if_splits)

lemma bus_receive_state:
  assumes "bus_state vals cfg st0 pubs taken written (b, st)"
  shows "\<exists>taken' written'. bus_state vals cfg st0 pubs taken' written' (bus_receive vals cfg f trim (b, st))"
proof (cases "ab_ch b")
  case Nil
  with assms show ?thesis by (auto simp: bus_receive_def)
next
  case (Cons e es)
  let ?b = "b\<lparr>ab_ch := es, ab_depth := ab_depth b - 1\<rparr>"
  note st = assms [unfolded bus_state_def prod.case]
  have taken: "subseq written (taken @ [e])" "subseq (written @ [e]) (taken @ [e])" using st by auto
  show ?thesis
  proof (cases "f = Lost")
    case True
    with st Cons taken have "bus_state vals cfg st0 pubs (taken @ [e]) written (bus_receive vals cfg f trim (b, st))"
      by (simp add: bus_state_def bus_receive_def bus_xadd_def)
    then show ?thesis by blast
  next
    case False
    obtain k where k: "map snd (st_entries st) = drop k (map snd (st_entries st0) @ map vals written)" using st by blast
    obtain j where j: "map snd (st_entries (astream_XADD (bc_StreamMaxLen cfg) trim (vals e) st)) = drop j (map snd (st_entries st) @ [vals e])"
      using XADD_snoc by blast
    have "\<exists>l. map snd (st_entries (astream_XADD (bc_StreamMaxLen cfg) trim (vals e) st)) = drop l (map snd (st_entries st0) @ map vals (written @ [e]))"
    proof (cases "k \<le> length (map snd (st_entries st0) @ map vals written)")
      case True
      then have "map snd (st_entries st) @ [vals e] = drop k (map snd (st_entries st0) @ map vals (written @ [e]))" by (simp add: k)
      with j show ?thesis by (metis drop_drop)
    next
      case False
      then have "map snd (st_entries st) = []" by (simp add: k)
      then have "map snd (st_entries st) @ [vals e] = drop (length (map snd (st_entries st0) @ map vals written)) (map snd (st_entries st0) @ map vals (written @ [e]))"
        by simp
      with j show ?thesis by (metis drop_drop)
    qed
    moreover have "st_next (astream_XADD (bc_StreamMaxLen cfg) trim (vals e) st) = st_next st + 1" by (simp add: astream_XADD_def Let_def)
    ultimately have "bus_state vals cfg st0 pubs (taken @ [e]) (written @ [e]) (bus_receive vals cfg f trim (b, st))"
      using st Cons taken False XADD_wf by (simp add: bus_state_def bus_receive_def bus_xadd_def)
    then show ?thesis by blast
  qed
qed

lemma bus_run_state:
  assumes "bus_state vals cfg st0 pubs taken written s"
  shows "\<exists>taken' written'. bus_state vals cfg st0 (pubs @ published_of evs) taken' written' (bus_run vals cfg evs s)"
  using assms
proof (induction evs arbitrary: s pubs taken written)
  case (Cons ev evs)
  obtain b st where s: "s = (b, st)" by (cases s)
  show ?case
  proof (cases ev)
    case (Publish e)
    from Cons.IH [OF AdminEventBus_Publish_state [OF Cons.prems [unfolded s], of e]] show ?thesis by (simp add: Publish s)
  next
    case (Receive f trim)
    from bus_receive_state [OF Cons.prems [unfolded s], of f trim] show ?thesis using Cons.IH by (fastforce simp: Receive s)
  qed
qed auto

lemma bus_start: "stream_wf st \<Longrightarrow> bus_state vals cfg st [] [] [] (NewAdminEventBus, st)"
  by (auto simp: bus_state_def NewAdminEventBus_def intro: exI [of _ 0])

section \<open>What the subscriber forwards\<close>

abbreviation rounds_entries :: "xread_round list \<Rightarrow> entry list" where
  "rounds_entries rs \<equiv> concat (map (\<lambda>r. rd_between r @ rd_arriving r) rs)"

text \<open>The broadcasts are a gapless part of the log that ends with \<open>lastID\<close>.\<close>

definition forwarded :: "entry list \<Rightarrow> subscriber \<Rightarrow> bool" where
  "forwarded L s \<longleftrightarrow> (case ss_lastID s of None \<Rightarrow> ss_broadcast s = []
     | Some i \<Rightarrow> ss_broadcast s \<noteq> [] \<and> fst (last (ss_broadcast s)) = i \<and> (\<exists>ps qs. L = ps @ ss_broadcast s @ qs))"

lemma forwarded_more: "forwarded L s \<Longrightarrow> forwarded (L @ xs) s"
  by (cases "ss_lastID s") (simp_all add: forwarded_def, metis append.assoc)

lemma forwarded_sublist: "forwarded L s \<Longrightarrow> sublist (ss_broadcast s) L"
  by (auto simp: forwarded_def sublist_def split: option.splits)

definition in_order :: "entry list \<Rightarrow> bool" where
  "in_order es \<longleftrightarrow> sorted_wrt (<) (map fst es)"

lemma in_order_prefix: "in_order (xs @ ys) \<Longrightarrow> in_order xs"
  by (simp add: in_order_def sorted_wrt_append)

lemma after_last:
  assumes "in_order (ps @ bs @ qs)" and "bs \<noteq> []"
  shows "filter (\<lambda>e. fst (last bs) < fst e) (ps @ bs @ qs) = qs"
proof -
  obtain cs b where bs: "bs = cs @ [b]" using assms(2) by (cases bs rule: rev_cases) auto
  have "\<not> fst b < fst e" if "e \<in> set (ps @ cs @ [b])" for e
    using assms(1) that by (force simp: in_order_def bs sorted_wrt_append)
  then have "filter (\<lambda>e. fst b < fst e) (ps @ cs @ [b]) = []" by (simp add: filter_empty_conv)
  moreover have "\<forall>e \<in> set qs. fst b < fst e" using assms(1) by (simp add: in_order_def bs sorted_wrt_append)
  then have "filter (\<lambda>e. fst b < fst e) qs = qs" by simp
  ultimately show ?thesis by (simp add: bs)
qed

text \<open>A batch continues where the last one ended, and some prefix of it is broadcast.\<close>

lemma broadcast_each_prefix:
  "\<exists>k. ss_broadcast (broadcast_each n es s) = ss_broadcast s @ take k es \<and>
     ss_lastID (broadcast_each n es s) = (if take k es = [] then ss_lastID s else Some (fst (last (take k es)))) \<and>
     ss_consecFails (broadcast_each n es s) = ss_consecFails s \<and> ss_waits (broadcast_each n es s) = ss_waits s \<and>
     ss_status (broadcast_each n es s) \<in> {ss_status s, Stopped}"
proof (induction es arbitrary: n s)
  case (Cons e es)
  let ?s1 = "s\<lparr>ss_broadcast := ss_broadcast s @ [e], ss_lastID := Some (fst e)\<rparr>"
  have go: ?case if "broadcast_each n (e # es) s = broadcast_each m es ?s1" for m
    using Cons.IH [of m ?s1] unfolding that by (auto intro!: exI [of _ "Suc k" for k] split: if_splits)
  show ?case
  proof (cases n)
    case None
    show ?thesis by (rule go [of None]) (simp add: None)
  next
    case (Some k)
    show ?thesis
    proof (cases k)
      case 0
      with Some show ?thesis by (auto intro: exI [of _ 0])
    next
      case (Suc j)
      show ?thesis by (rule go [of "Some j"]) (simp add: Some Suc)
    qed
  qed
qed (auto intro: exI [of _ 0])

lemma XRead_continues:
  assumes fw: "forwarded present s" and srt: "in_order (present @ between @ arriving)"
  shows "\<exists>ps qs. present @ between @ arriving = ps @ ss_broadcast s @ XRead (ss_lastID s) (present @ between) arriving @ qs"
proof (cases "ss_lastID s")
  case None
  then have "present @ between @ arriving = (present @ between) @ ss_broadcast s @ XRead (ss_lastID s) (present @ between) arriving @ drop 100 arriving"
    using fw by (simp add: forwarded_def XRead_def)
  then show ?thesis by blast
next
  case (Some i)
  with fw obtain ps qs where p: "present = ps @ ss_broadcast s @ qs" and ne: "ss_broadcast s \<noteq> []" "fst (last (ss_broadcast s)) = i"
    by (auto simp: forwarded_def)
  have "filter (\<lambda>e. i < fst e) (present @ between) = qs @ between"
    using after_last [of ps "ss_broadcast s" "qs @ between"] in_order_prefix [of "ps @ ss_broadcast s @ qs @ between" arriving] srt ne
    by (simp add: p)
  then have "(qs @ between) @ arriving = XRead (ss_lastID s) (present @ between) arriving @
      (if qs @ between = [] then drop 100 arriving else drop 100 (qs @ between) @ arriving)"
    by (cases "qs @ between") (simp_all add: Some XRead_def)
  then have "present @ between @ arriving = ps @ ss_broadcast s @ XRead (ss_lastID s) (present @ between) arriving @
      (if qs @ between = [] then drop 100 arriving else drop 100 (qs @ between) @ arriving)"
    by (simp only: p append.assoc)
  then show ?thesis by blast
qed

lemma subscriber_round_forwards:
  assumes fw: "forwarded present s" and srt: "in_order (present @ rd_between r @ rd_arriving r)"
  shows "forwarded (present @ rd_between r @ rd_arriving r) (subscriber_round cfg r present s)"
proof -
  let ?L = "present @ rd_between r @ rd_arriving r" and ?es = "XRead (ss_lastID s) (present @ rd_between r) (rd_arriving r)"
  have same: "forwarded ?L s'" if "ss_lastID s' = ss_lastID s" "ss_broadcast s' = ss_broadcast s" for s'
    using forwarded_more [OF fw, of "rd_between r @ rd_arriving r"] that unfolding forwarded_def by metis
  have "forwarded ?L (broadcast_each (rd_hubStops r) ?es (s\<lparr>ss_consecFails := 0\<rparr>))"
  proof -
    let ?s = "broadcast_each (rd_hubStops r) ?es (s\<lparr>ss_consecFails := 0\<rparr>)"
    obtain k where k: "ss_broadcast ?s = ss_broadcast s @ take k ?es"
        "ss_lastID ?s = (if take k ?es = [] then ss_lastID s else Some (fst (last (take k ?es))))"
      using broadcast_each_prefix [of "rd_hubStops r" ?es "s\<lparr>ss_consecFails := 0\<rparr>"] by auto
    obtain ps qs where L: "?L = ps @ ss_broadcast s @ ?es @ qs" using XRead_continues [OF fw srt] by blast
    show ?thesis
    proof (cases "take k ?es = []")
      case True
      with k same show ?thesis by simp
    next
      case False
      have "?L = ps @ ss_broadcast ?s @ drop k ?es @ qs" using L k(1) by (metis append.assoc append_take_drop_id)
      with False k show ?thesis by (auto simp: forwarded_def)
    qed
  qed
  with same show ?thesis by (simp add: subscriber_round_def Let_def)
qed

lemma subscriber_Run_forwards:
  assumes "forwarded present s" and "in_order (present @ rounds_entries rs)"
  shows "forwarded (present @ rounds_entries rs) (subscriber_Run cfg rs present s)"
  using assms
proof (induction rs arbitrary: present s)
  case (Cons r rs)
  show ?case
  proof (cases "ss_status s = Running")
    case True
    have "forwarded (present @ rd_between r @ rd_arriving r) (subscriber_round cfg r present s)"
      by (rule subscriber_round_forwards [OF Cons.prems(1)])
        (use Cons.prems(2) in_order_prefix [of "present @ rd_between r @ rd_arriving r" "rounds_entries rs"] in simp)
    from Cons.IH [OF this] Cons.prems(2) True show ?thesis by simp
  next
    case False
    with forwarded_more [OF Cons.prems(1)] show ?thesis by simp
  qed
qed simp

text \<open>While it runs it has seen fewer failures in a row than the limit; it escalates only at the limit.\<close>

definition patient :: "subscriber_config \<Rightarrow> subscriber \<Rightarrow> bool" where
  "patient cfg s \<longleftrightarrow> (ss_status s = Running \<longrightarrow> ss_consecFails s < sb_MaxConsecFailures cfg) \<and>
     (ss_status s = Escalated \<longrightarrow> ss_consecFails s = sb_MaxConsecFailures cfg) \<and>
     (\<forall>d \<in> set (ss_waits s). 0 < d \<and> d \<le> sb_BackoffMax cfg)"

lemma subscriber_round_patient:
  assumes "patient cfg s" and "ss_status s = Running" and "0 < sb_BackoffBase cfg" "0 < sb_BackoffMax cfg"
  shows "patient cfg (subscriber_round cfg r present s)"
proof -
  have "0 < subscriber_backoff cfg n \<and> subscriber_backoff cfg n \<le> sb_BackoffMax cfg" for n
    using assms(3,4) by (simp add: subscriber_backoff_def Let_def)
  with assms broadcast_each_prefix [of "rd_hubStops r" "XRead (ss_lastID s) (present @ rd_between r) (rd_arriving r)" "s\<lparr>ss_consecFails := 0\<rparr>"]
  show ?thesis by (auto simp: patient_def subscriber_round_def Let_def)
qed

lemma subscriber_Run_patient:
  "patient cfg s \<Longrightarrow> 0 < sb_BackoffBase cfg \<Longrightarrow> 0 < sb_BackoffMax cfg \<Longrightarrow> patient cfg (subscriber_Run cfg rs present s)"
  by (induction rs arbitrary: present s) (auto intro: subscriber_round_patient)

text \<open>An event that arrives while no call blocks is lost as long as nothing has been read: \<open>$\<close> is evaluated anew by every call.\<close>

lemma events_before_the_first_batch_are_lost:
  "map fst (ss_broadcast (subscriber_Run (subscriber_defaults \<lparr>sb_BackoffBase = 0, sb_BackoffMax = 0, sb_MaxConsecFailures = 0\<rparr>)
     [\<lparr>rd_between = [], rd_arriving = [], rd_fails = False, rd_cancelled = False, rd_hubStops = None\<rparr>,
      \<lparr>rd_between = [(1, Map.empty)], rd_arriving = [(2, Map.empty)], rd_fails = False, rd_cancelled = False, rd_hubStops = None\<rparr>] [] NewSubscriber)) = [2]"
  by code_simp

section \<open>What the hub keeps\<close>

text \<open>A run of the hub with its callers: which clients connected and left, the broadcasts accepted, those dispatched,
  and how many were dispatched before a client was registered. These are recorded only to state
  what holds; no step looks at them except that a client connects and leaves once.\<close>

record hub_run =
  hr_hub :: hub
  hr_seen :: "client set"
  hr_left :: "client set"
  hr_calls :: "entry list"
  hr_log :: "entry list"
  hr_joined :: "client \<Rightarrow> nat option"

definition hub_start :: hub_run where
  "hub_start = \<lparr>hr_hub = NewHub, hr_seen = {}, hr_left = {}, hr_calls = [], hr_log = [], hr_joined = (\<lambda>_. None)\<rparr>"

inductive hub_step :: "hub_run \<Rightarrow> hub_run \<Rightarrow> bool" where
  connect: "c \<notin> hr_seen r \<Longrightarrow> hub_Register c (hr_hub r) = Some h \<Longrightarrow>
    hub_step r (r\<lparr>hr_hub := h, hr_seen := insert c (hr_seen r)\<rparr>)"
| leave: "c \<in> hr_seen r - hr_left r \<Longrightarrow> hub_Unregister c (hr_hub r) = Some h \<Longrightarrow>
    hub_step r (r\<lparr>hr_hub := h, hr_left := insert c (hr_left r)\<rparr>)"
| broadcast: "hub_Broadcast m (hr_hub r) = Some h \<Longrightarrow> hub_step r (r\<lparr>hr_hub := h, hr_calls := hr_calls r @ [m]\<rparr>)"
| run_register: "\<not> hb_stopped (hr_hub r) \<Longrightarrow> hb_register (hr_hub r) = c # cs \<Longrightarrow>
    hub_step r (r\<lparr>hr_hub := hub_register c ((hr_hub r)\<lparr>hb_register := cs\<rparr>), hr_joined := (hr_joined r)(c \<mapsto> length (hr_log r))\<rparr>)"
| run_unregister: "\<not> hb_stopped (hr_hub r) \<Longrightarrow> hb_unregister (hr_hub r) = c # cs \<Longrightarrow>
    hub_unregister c ((hr_hub r)\<lparr>hb_unregister := cs\<rparr>) = Some h \<Longrightarrow> hub_step r (r\<lparr>hr_hub := h\<rparr>)"
| run_broadcast: "\<not> hb_stopped (hr_hub r) \<Longrightarrow> hb_broadcast (hr_hub r) = m # ms \<Longrightarrow>
    hub_dispatch m ((hr_hub r)\<lparr>hb_broadcast := ms\<rparr>) = Some h \<Longrightarrow> hub_step r (r\<lparr>hr_hub := h, hr_log := hr_log r @ [m]\<rparr>)"
| receive: "hub_step r (r\<lparr>hr_hub := client_receive c (hr_hub r)\<rparr>)"
| stop: "\<not> hb_stopped (hr_hub r) \<Longrightarrow> hub_stop (hr_hub r) = Some h \<Longrightarrow> hub_step r (r\<lparr>hr_hub := h\<rparr>)"

definition hub_reachable :: "hub_run \<Rightarrow> bool" where
  "hub_reachable r \<longleftrightarrow> hub_step\<^sup>*\<^sup>* hub_start r"

abbreviation got :: "send_chan \<Rightarrow> entry list" where
  "got ch \<equiv> sc_received ch @ sc_buf ch"

text \<open>Delivery to a list of open, registered clients: the full ones are dropped, the others get the message.\<close>

definition full :: "send_chan \<Rightarrow> bool" where
  "full ch \<longleftrightarrow> 100 \<le> length (sc_buf ch)"

definition delivered :: "entry \<Rightarrow> send_chan \<Rightarrow> send_chan" where
  "delivered m ch = (if full ch then ch\<lparr>sc_closed := True\<rparr> else ch\<lparr>sc_buf := sc_buf ch @ [m]\<rparr>)"

definition hub_delivered :: "entry \<Rightarrow> client list \<Rightarrow> hub \<Rightarrow> hub" where
  "hub_delivered m cs h = (let gone = filter (\<lambda>c. full (hb_chan h c)) cs in
     h\<lparr>hb_clients := filter (\<lambda>c. c \<notin> set gone) (hb_clients h),
       hb_chan := (\<lambda>c. if c \<in> set cs then delivered m (hb_chan h c) else hb_chan h c),
       hb_activeClients := hb_activeClients h - int (length gone), hb_dropped := hb_dropped h + length gone\<rparr>)"

lemma hub_deliver_eq:
  "distinct cs \<Longrightarrow> \<forall>c \<in> set cs. \<not> sc_closed (hb_chan h c) \<Longrightarrow> hub_deliver m cs h = Some (hub_delivered m cs h)"
proof (induction cs arbitrary: h)
  case Nil
  then show ?case by (simp add: hub_delivered_def)
next
  case (Cons c cs)
  have c: "c \<notin> set cs" "\<not> sc_closed (hb_chan h c)" using Cons.prems by simp_all
  show ?case
  proof (cases "full (hb_chan h c)")
    case False
    let ?h = "h\<lparr>hb_chan := (hb_chan h)(c := (hb_chan h c)\<lparr>sc_buf := sc_buf (hb_chan h c) @ [m]\<rparr>)\<rparr>"
    have "hub_deliver m (c # cs) h = hub_deliver m cs ?h" using c(2) False by (simp add: chan_trySend_def full_def)
    also have "\<dots> = Some (hub_delivered m cs ?h)" using Cons.prems c by (intro Cons.IH) auto
    also have "hub_delivered m cs ?h = hub_delivered m (c # cs) h"
    proof -
      have g: "filter (\<lambda>d. full (hb_chan ?h d)) cs = filter (\<lambda>d. full (hb_chan h d)) (c # cs)"
        using c(1) False by (auto intro!: filter_cong)
      show ?thesis unfolding hub_delivered_def g using c(1) False by (simp add: Let_def delivered_def fun_eq_iff)
    qed
    finally show ?thesis .
  next
    case True
    let ?h = "h\<lparr>hb_clients := filter (\<lambda>d. d \<noteq> c) (hb_clients h), hb_chan := (hb_chan h)(c := (hb_chan h c)\<lparr>sc_closed := True\<rparr>),
        hb_activeClients := hb_activeClients h - 1, hb_dropped := hb_dropped h + 1\<rparr>"
    have "hub_deliver m (c # cs) h = hub_deliver m cs ?h"
      using c(2) True by (simp add: chan_trySend_def full_def hub_remove_def hub_close_def chan_close_def)
    also have "\<dots> = Some (hub_delivered m cs ?h)" using Cons.prems c by (intro Cons.IH) auto
    also have "hub_delivered m cs ?h = hub_delivered m (c # cs) h"
    proof -
      have g: "filter (\<lambda>d. full (hb_chan ?h d)) cs = filter (\<lambda>d. full (hb_chan h d)) cs"
        using c(1) by (auto intro!: filter_cong)
      show ?thesis unfolding hub_delivered_def g using c(1) True
        by (auto simp: Let_def delivered_def fun_eq_iff intro!: filter_cong)
    qed
    finally show ?thesis .
  qed
qed

lemma hub_closeAll_eq:
  "distinct cs \<Longrightarrow> \<forall>c \<in> set cs. \<not> sc_closed (hb_chan h c) \<Longrightarrow>
    hub_closeAll cs h = Some (h\<lparr>hb_chan := (\<lambda>c. if c \<in> set cs then (hb_chan h c)\<lparr>sc_closed := True\<rparr> else hb_chan h c)\<rparr>)"
proof (induction cs arbitrary: h)
  case (Cons c cs)
  let ?h = "h\<lparr>hb_chan := (hb_chan h)(c := (hb_chan h c)\<lparr>sc_closed := True\<rparr>)\<rparr>"
  have "hub_closeAll (c # cs) h = hub_closeAll cs ?h" using Cons.prems by (simp add: hub_close_def chan_close_def)
  also have "\<dots> = Some (?h\<lparr>hb_chan := (\<lambda>d. if d \<in> set cs then (hb_chan ?h d)\<lparr>sc_closed := True\<rparr> else hb_chan ?h d)\<rparr>)"
    using Cons.prems by (intro Cons.IH) auto
  finally show ?case using Cons.prems by (simp add: fun_eq_iff cong: if_cong)
qed simp

text \<open>The invariant.\<close>

definition client_ok :: "hub_run \<Rightarrow> client \<Rightarrow> bool" where
  "client_ok r c \<longleftrightarrow> (let h = hr_hub r; ch = hb_chan h c in length (sc_buf ch) \<le> 100 \<and>
     (case hr_joined r c of
        None \<Rightarrow> got ch = [] \<and> \<not> sc_closed ch \<and> c \<notin> set (hb_clients h)
      | Some n \<Rightarrow> c \<in> hr_seen r \<and> c \<notin> set (hb_register h) \<and> n \<le> length (hr_log r) \<and> (\<exists>k. got ch = take k (drop n (hr_log r))) \<and>
          (c \<in> set (hb_clients h) \<longrightarrow> got ch = drop n (hr_log r)) \<and>
          (sc_closed ch \<longleftrightarrow> c \<notin> set (hb_clients h) \<or> hb_stopped h)))"

definition hub_ok :: "hub_run \<Rightarrow> bool" where
  "hub_ok r \<longleftrightarrow> (let h = hr_hub r in distinct (hb_clients h) \<and> distinct (hb_register h) \<and> set (hb_register h) \<subseteq> hr_seen r \<and>
     hr_calls r = hr_log r @ hb_broadcast h \<and> length (hb_register h) \<le> 32 \<and> length (hb_unregister h) \<le> 32 \<and> length (hb_broadcast h) \<le> 256 \<and>
     hb_broadcastHighWater h \<le> 256 \<and>
     hb_activeClients h = (if hb_stopped h then 0 else int (length (hb_clients h)))) \<and> (\<forall>c. client_ok r c)"

lemma hub_start_ok: "hub_ok hub_start"
  by (simp add: hub_ok_def client_ok_def hub_start_def NewHub_def Let_def)

lemma hub_ok_client: "hub_ok r \<Longrightarrow> client_ok r c"
  by (simp add: hub_ok_def Let_def)

lemma hub_ok_open:
  assumes "hub_ok r" and "\<not> hb_stopped (hr_hub r)" and "c \<in> set (hb_clients (hr_hub r))"
  shows "\<not> sc_closed (hb_chan (hr_hub r) c)"
  using hub_ok_client [OF assms(1), of c] assms(2,3) by (simp add: client_ok_def Let_def split: option.splits)

lemma filter_neq_remove1: "distinct xs \<Longrightarrow> filter (\<lambda>d. d \<noteq> c) xs = remove1 c xs"
  by (induction xs) (auto intro!: filter_True)

lemma length_filter_one: "distinct xs \<Longrightarrow> c \<in> set xs \<Longrightarrow> int (length (filter (\<lambda>d. d \<noteq> c) xs)) = int (length xs) - 1"
  using length_pos_if_in_set [of c xs] by (simp add: filter_neq_remove1 length_remove1 of_nat_diff Suc_leI)

lemma length_filter_gone:
  "int (length (filter (\<lambda>c. \<not> P c) xs)) = int (length xs) - int (length (filter P xs))"
  using sum_length_filter_compl [of P xs] by linarith

lemma client_ok_same:
  assumes "client_ok r c" and "hb_chan (hr_hub r') c = hb_chan (hr_hub r) c" and "c \<in> set (hb_clients (hr_hub r')) \<longleftrightarrow> c \<in> set (hb_clients (hr_hub r))"
    and "hr_joined r' c = hr_joined r c" and "hr_log r' = hr_log r" and "hb_stopped (hr_hub r') = hb_stopped (hr_hub r)"
    and "hr_seen r \<subseteq> hr_seen r'" and "hr_joined r c \<noteq> None \<Longrightarrow> c \<notin> set (hb_register (hr_hub r))  \<Longrightarrow> c \<in> hr_seen r \<Longrightarrow> c \<notin> set (hb_register (hr_hub r'))"
  shows "client_ok r' c"
  using assms by (cases "hr_joined r c") (auto simp: client_ok_def Let_def)

lemma step_connect:
  assumes ok: "hub_ok r" and c: "c \<notin> hr_seen r" and h: "hub_Register c (hr_hub r) = Some h"
  shows "hub_ok (r\<lparr>hr_hub := h, hr_seen := insert c (hr_seen r)\<rparr>)"
proof -
  have h': "h = (hr_hub r)\<lparr>hb_register := hb_register (hr_hub r) @ [c]\<rparr>" "length (hb_register (hr_hub r)) < 32" "\<not> hb_stopped (hr_hub r)"
    using h by (auto simp: hub_Register_def split: if_splits)
  have "client_ok (r\<lparr>hr_hub := h, hr_seen := insert c (hr_seen r)\<rparr>) d" for d
    by (rule client_ok_same [OF hub_ok_client [OF ok, of d]]) (use c in \<open>auto simp: h'\<close>)
  moreover have "c \<notin> set (hb_register (hr_hub r))" using ok c by (auto simp: hub_ok_def Let_def)
  ultimately show ?thesis using ok h'(2,3) by (auto simp: hub_ok_def Let_def h'(1))
qed

lemma step_leave:
  assumes ok: "hub_ok r" and h: "hub_Unregister c (hr_hub r) = Some h"
  shows "hub_ok (r\<lparr>hr_hub := h, hr_left := insert c (hr_left r)\<rparr>)"
proof -
  have h': "h = hr_hub r \<or> h = (hr_hub r)\<lparr>hb_unregister := hb_unregister (hr_hub r) @ [c]\<rparr> \<and> length (hb_unregister (hr_hub r)) < 32"
    using h by (auto simp: hub_Unregister_def split: if_splits)
  have "client_ok (r\<lparr>hr_hub := h, hr_left := insert c (hr_left r)\<rparr>) d" for d
    by (rule client_ok_same [OF hub_ok_client [OF ok, of d]]) (use h' in auto)
  with ok h' show ?thesis by (auto simp: hub_ok_def Let_def)
qed

lemma step_broadcast:
  assumes ok: "hub_ok r" and h: "hub_Broadcast m (hr_hub r) = Some h"
  shows "hub_ok (r\<lparr>hr_hub := h, hr_calls := hr_calls r @ [m]\<rparr>)"
proof -
  have h': "h = (hr_hub r)\<lparr>hb_broadcast := hb_broadcast (hr_hub r) @ [m]\<rparr>" "length (hb_broadcast (hr_hub r)) < 256"
    using h by (auto simp: hub_Broadcast_def split: if_splits)
  have "client_ok (r\<lparr>hr_hub := h, hr_calls := hr_calls r @ [m]\<rparr>) d" for d
    by (rule client_ok_same [OF hub_ok_client [OF ok, of d]]) (auto simp: h')
  with ok h'(2) show ?thesis by (auto simp: hub_ok_def Let_def h'(1))
qed

lemma step_run_register:
  assumes ok: "hub_ok r" and st: "\<not> hb_stopped (hr_hub r)" and q: "hb_register (hr_hub r) = c # cs"
  shows "hub_ok (r\<lparr>hr_hub := hub_register c ((hr_hub r)\<lparr>hb_register := cs\<rparr>), hr_joined := (hr_joined r)(c \<mapsto> length (hr_log r))\<rparr>)"
    (is "hub_ok ?r")
proof -
  have new: "hr_joined r c = None" using hub_ok_client [OF ok, of c] q by (auto simp: client_ok_def Let_def split: option.splits)
  then have c: "got (hb_chan (hr_hub r) c) = []" "\<not> sc_closed (hb_chan (hr_hub r) c)" "c \<notin> set (hb_clients (hr_hub r))"
    using hub_ok_client [OF ok, of c] by (simp_all add: client_ok_def Let_def)
  have seen: "c \<in> hr_seen r" "c \<notin> set cs" using ok q by (auto simp: hub_ok_def Let_def)
  have "client_ok ?r d" for d
  proof (cases "d = c")
    case True
    with c seen st show ?thesis by (simp add: client_ok_def Let_def hub_register_def)
  next
    case False
    show ?thesis
      by (rule client_ok_same [OF hub_ok_client [OF ok, of d]]) (use False q in \<open>auto simp: hub_register_def\<close>)
  qed
  with ok q st c(3) show ?thesis by (auto simp: hub_ok_def Let_def hub_register_def)
qed

lemma hub_remove_eq:
  assumes "\<not> sc_closed (hb_chan h c)"
  shows "hub_remove c h = Some (h\<lparr>hb_clients := filter (\<lambda>d. d \<noteq> c) (hb_clients h),
     hb_chan := (hb_chan h)(c := (hb_chan h c)\<lparr>sc_closed := True\<rparr>), hb_activeClients := hb_activeClients h - 1\<rparr>)"
  using assms by (simp add: hub_remove_def hub_close_def chan_close_def)

lemma step_run_unregister:
  assumes ok: "hub_ok r" and st: "\<not> hb_stopped (hr_hub r)" and q: "hb_unregister (hr_hub r) = c # cs"
    and h: "hub_unregister c ((hr_hub r)\<lparr>hb_unregister := cs\<rparr>) = Some h"
  shows "hub_ok (r\<lparr>hr_hub := h\<rparr>)"
proof (cases "c \<in> set (hb_clients (hr_hub r))")
  case False
  then have h': "h = (hr_hub r)\<lparr>hb_unregister := cs\<rparr>" using h by (simp add: hub_unregister_def)
  have "client_ok (r\<lparr>hr_hub := h\<rparr>) d" for d
    by (rule client_ok_same [OF hub_ok_client [OF ok, of d]]) (auto simp: h')
  with ok q show ?thesis by (auto simp: hub_ok_def Let_def h')
next
  case True
  then have h': "h = (hr_hub r)\<lparr>hb_unregister := cs, hb_clients := filter (\<lambda>d. d \<noteq> c) (hb_clients (hr_hub r)),
     hb_chan := (hb_chan (hr_hub r))(c := (hb_chan (hr_hub r) c)\<lparr>sc_closed := True\<rparr>), hb_activeClients := hb_activeClients (hr_hub r) - 1\<rparr>"
    using h hub_ok_open [OF ok st] by (simp add: hub_unregister_def hub_remove_eq)
  have "client_ok (r\<lparr>hr_hub := h\<rparr>) d" for d
  proof (cases "d = c")
    case True
    with hub_ok_client [OF ok, of c] \<open>c \<in> set (hb_clients (hr_hub r))\<close> st show ?thesis
      by (auto simp: client_ok_def Let_def h' split: option.splits)
  next
    case False
    show ?thesis
      by (rule client_ok_same [OF hub_ok_client [OF ok, of d]]) (use False in \<open>auto simp: h'\<close>)
  qed
  with ok q st True length_filter_one [of "hb_clients (hr_hub r)" c] show ?thesis by (auto simp: hub_ok_def Let_def h')
qed

lemma hub_dispatch_eq:
  assumes ok: "hub_ok r" and st: "\<not> hb_stopped (hr_hub r)"
  shows "hub_dispatch m ((hr_hub r)\<lparr>hb_broadcast := ms\<rparr>) = Some (hub_delivered m (hb_clients (hr_hub r))
     ((hr_hub r)\<lparr>hb_broadcast := ms, hb_broadcastHighWater := max (hb_broadcastHighWater (hr_hub r)) (length ms + 1)\<rparr>))"
proof -
  have "distinct (hb_clients (hr_hub r))" using ok by (simp add: hub_ok_def Let_def)
  with hub_ok_open [OF ok st] show ?thesis unfolding hub_dispatch_def by (simp add: hub_deliver_eq)
qed

lemma take_snoc_take: "k \<le> length xs \<Longrightarrow> take k (xs @ ys) = take k xs"
  by simp

lemma prefix_of_longer: "(\<exists>k. zs = take k (drop n xs)) \<Longrightarrow> \<exists>k. zs = take k (drop n (xs @ ys))"
proof (elim exE)
  fix k assume zs: "zs = take k (drop n xs)"
  show ?thesis
  proof (cases "k \<le> length (drop n xs)")
    case True
    with zs have "zs = take k (drop n (xs @ ys))" by (simp add: drop_append)
    then show ?thesis by blast
  next
    case False
    with zs have "zs = take (length (drop n xs)) (drop n (xs @ ys))" by (simp add: drop_append)
    then show ?thesis by blast
  qed
qed

lemma step_run_broadcast:
  assumes ok: "hub_ok r" and st: "\<not> hb_stopped (hr_hub r)" and q: "hb_broadcast (hr_hub r) = m # ms"
    and h: "hub_dispatch m ((hr_hub r)\<lparr>hb_broadcast := ms\<rparr>) = Some h"
  shows "hub_ok (r\<lparr>hr_hub := h, hr_log := hr_log r @ [m]\<rparr>)" (is "hub_ok ?r")
proof -
  let ?g = "\<lambda>c. full (hb_chan (hr_hub r) c)"
  have h': "h = (hr_hub r)\<lparr>hb_broadcast := ms, hb_broadcastHighWater := max (hb_broadcastHighWater (hr_hub r)) (length ms + 1),
      hb_clients := filter (\<lambda>c. \<not> ?g c) (hb_clients (hr_hub r)),
      hb_chan := (\<lambda>c. if c \<in> set (hb_clients (hr_hub r)) then delivered m (hb_chan (hr_hub r) c) else hb_chan (hr_hub r) c),
      hb_activeClients := hb_activeClients (hr_hub r) - int (length (filter ?g (hb_clients (hr_hub r)))),
      hb_dropped := hb_dropped (hr_hub r) + length (filter ?g (hb_clients (hr_hub r)))\<rparr>"
    using h unfolding hub_dispatch_eq [OF ok st] by (auto simp: hub_delivered_def Let_def cong: filter_cong if_cong)
  have "client_ok ?r d" for d
  proof (cases "d \<in> set (hb_clients (hr_hub r))")
    case False
    with hub_ok_client [OF ok, of d] show ?thesis
      by (auto simp: client_ok_def Let_def h' simp del: drop_append take_append intro!: prefix_of_longer split: option.splits)
  next
    case True
    then obtain n where n: "hr_joined r d = Some n" using hub_ok_client [OF ok, of d] by (auto simp: client_ok_def Let_def split: option.splits)
    have d: "length (sc_buf (hb_chan (hr_hub r) d)) \<le> 100" "d \<in> hr_seen r" "d \<notin> set (hb_register (hr_hub r))" "n \<le> length (hr_log r)"
       "got (hb_chan (hr_hub r) d) = drop n (hr_log r)" "\<not> sc_closed (hb_chan (hr_hub r) d)"
      using hub_ok_client [OF ok, of d] n True st by (auto simp: client_ok_def Let_def)
    show ?thesis
    proof (cases "?g d")
      case True
      have "got (hb_chan (hr_hub r) d) = take (length (hr_log r) - n) (drop n (hr_log r @ [m]))" using d(4,5) by simp
      then have "\<exists>k. got (hb_chan (hr_hub r) d) = take k (drop n (hr_log r @ [m]))" by blast
      with True d n \<open>d \<in> set (hb_clients (hr_hub r))\<close> show ?thesis by (simp add: client_ok_def Let_def h' delivered_def)
    next
      case False
      have g: "sc_received (hb_chan (hr_hub r) d) @ sc_buf (hb_chan (hr_hub r) d) @ [m] = drop n (hr_log r @ [m])"
        using d(4) d(5) [symmetric] by simp
      moreover have "\<exists>k. drop n (hr_log r @ [m]) = take k (drop n (hr_log r @ [m]))" by (rule exI [of _ "length (hr_log r) + 1"]) simp
      ultimately show ?thesis using False d n st \<open>d \<in> set (hb_clients (hr_hub r))\<close>
        by (simp add: client_ok_def Let_def h' delivered_def full_def del: drop_append take_append)
    qed
  qed
  with ok q st length_filter_gone [of ?g "hb_clients (hr_hub r)"] show ?thesis by (auto simp: hub_ok_def Let_def h')
qed

lemma step_receive:
  assumes ok: "hub_ok r"
  shows "hub_ok (r\<lparr>hr_hub := client_receive c (hr_hub r)\<rparr>)"
proof (cases "sc_buf (hb_chan (hr_hub r) c)")
  case Nil
  with ok show ?thesis by (simp add: client_receive_def)
next
  case (Cons m ms)
  have h: "client_receive c (hr_hub r) = (hr_hub r)\<lparr>hb_chan := (hb_chan (hr_hub r))(c := (hb_chan (hr_hub r) c)
      \<lparr>sc_buf := ms, sc_received := sc_received (hb_chan (hr_hub r) c) @ [m]\<rparr>)\<rparr>"
    by (simp add: client_receive_def Cons)
  have "client_ok (r\<lparr>hr_hub := client_receive c (hr_hub r)\<rparr>) d" for d
  proof (cases "d = c")
    case True
    with hub_ok_client [OF ok, of c] Cons show ?thesis by (auto simp: client_ok_def Let_def h split: option.splits)
  next
    case False
    show ?thesis
      by (rule client_ok_same [OF hub_ok_client [OF ok, of d]]) (use False in \<open>auto simp: h\<close>)
  qed
  with ok show ?thesis by (auto simp: hub_ok_def Let_def h)
qed

lemma hub_stop_eq:
  assumes ok: "hub_ok r" and st: "\<not> hb_stopped (hr_hub r)"
  shows "hub_stop (hr_hub r) = Some ((hr_hub r)\<lparr>hb_chan := (\<lambda>c. if c \<in> set (hb_clients (hr_hub r))
     then (hb_chan (hr_hub r) c)\<lparr>sc_closed := True\<rparr> else hb_chan (hr_hub r) c), hb_activeClients := 0, hb_stopped := True\<rparr>)"
proof -
  have "distinct (hb_clients (hr_hub r))" using ok by (simp add: hub_ok_def Let_def)
  with hub_ok_open [OF ok st] show ?thesis by (simp add: hub_stop_def hub_closeAll_eq)
qed

lemma step_stop:
  assumes ok: "hub_ok r" and st: "\<not> hb_stopped (hr_hub r)" and h: "hub_stop (hr_hub r) = Some h"
  shows "hub_ok (r\<lparr>hr_hub := h\<rparr>)"
proof -
  have h': "h = (hr_hub r)\<lparr>hb_chan := (\<lambda>c. if c \<in> set (hb_clients (hr_hub r))
     then (hb_chan (hr_hub r) c)\<lparr>sc_closed := True\<rparr> else hb_chan (hr_hub r) c), hb_activeClients := 0, hb_stopped := True\<rparr>"
    using h by (simp add: hub_stop_eq [OF ok st])
  have "client_ok (r\<lparr>hr_hub := h\<rparr>) d" for d
    using hub_ok_client [OF ok, of d] st by (auto simp: client_ok_def Let_def h' split: option.splits)
  with ok show ?thesis by (auto simp: hub_ok_def Let_def h')
qed

lemma hub_step_ok: "hub_step r r' \<Longrightarrow> hub_ok r \<Longrightarrow> hub_ok r'"
  by (erule hub_step.cases) (auto intro: step_connect step_leave step_broadcast step_run_register step_run_unregister
      step_run_broadcast step_receive step_stop)

lemma hub_reachable_ok: "hub_reachable r \<Longrightarrow> hub_ok r"
  unfolding hub_reachable_def by (induction rule: rtranclp_induct) (auto intro: hub_start_ok hub_step_ok)

text \<open>The hub never panics: whatever is in its channels, each case of its loop works.\<close>

lemma hub_never_panics:
  assumes "hub_reachable r" and "\<not> hb_stopped (hr_hub r)"
  shows "hub_unregister c ((hr_hub r)\<lparr>hb_unregister := cs\<rparr>) \<noteq> None" and "hub_dispatch m ((hr_hub r)\<lparr>hb_broadcast := ms\<rparr>) \<noteq> None"
    and "hub_stop (hr_hub r) \<noteq> None"
proof -
  note ok = hub_reachable_ok [OF assms(1)]
  show "hub_unregister c ((hr_hub r)\<lparr>hb_unregister := cs\<rparr>) \<noteq> None"
    using hub_ok_open [OF ok assms(2)] by (simp add: hub_unregister_def hub_remove_eq)
  show "hub_dispatch m ((hr_hub r)\<lparr>hb_broadcast := ms\<rparr>) \<noteq> None" by (simp add: hub_dispatch_eq [OF ok assms(2)])
  show "hub_stop (hr_hub r) \<noteq> None" by (simp add: hub_stop_eq [OF ok assms(2)])
qed

lemma hub_client_segment:
  assumes "hub_reachable r"
  shows "sublist (got (hb_chan (hr_hub r) c)) (hr_calls r)"
proof -
  note ok = hub_reachable_ok [OF assms]
  have "sublist (got (hb_chan (hr_hub r) c)) (hr_log r)"
    using hub_ok_client [OF ok, of c]
    by (auto simp: client_ok_def Let_def intro: sublist_order.order_trans [OF sublist_take sublist_drop] split: option.splits)
  moreover have "hr_calls r = hr_log r @ hb_broadcast (hr_hub r)" using ok by (simp add: hub_ok_def Let_def)
  ultimately show ?thesis by (simp add: sublist_append_rightI sublist_order.order_trans)
qed

text \<open>C38: the hub serves every client without a gap and without a panic. In every reachable state, in whatever order the
  hub takes its cases: the loop can take each of them (no channel is closed twice or sent on after it was
  closed); what a client received and has buffered is a gapless part of the accepted broadcasts, and up to
  the last dispatched one while the client is registered; a client that is dropped, unregistered or
  stopped has its channel closed; buffers are bounded and the connection count is exact.\<close>

theorem hub_serves_without_gaps:
  assumes r: "hub_reachable r"
  defines "h \<equiv> hr_hub r"
  shows "(\<not> hb_stopped h \<longrightarrow> hub_stop h \<noteq> None \<and> (\<forall>c cs. hub_unregister c (h\<lparr>hb_unregister := cs\<rparr>) \<noteq> None) \<and>
      (\<forall>m ms. hub_dispatch m (h\<lparr>hb_broadcast := ms\<rparr>) \<noteq> None)) \<and>
    hb_activeClients h = (if hb_stopped h then 0 else int (card (set (hb_clients h)))) \<and>
    (\<forall>c. sublist (got (hb_chan h c)) (hr_calls r) \<and> length (sc_buf (hb_chan h c)) \<le> 100 \<and>
       (\<forall>n. hr_joined r c = Some n \<longrightarrow> c \<in> set (hb_clients h) \<longrightarrow> got (hb_chan h c) = drop n (hr_log r)) \<and>
       (hr_joined r c \<noteq> None \<longrightarrow> (c \<notin> set (hb_clients h) \<or> hb_stopped h) = sc_closed (hb_chan h c)))"
proof -
  note ok = hub_reachable_ok [OF r]
  have "hb_activeClients h = (if hb_stopped h then 0 else int (card (set (hb_clients h))))"
    using ok by (simp add: hub_ok_def Let_def h_def distinct_card)
  moreover have "length (sc_buf (hb_chan h c)) \<le> 100 \<and>
       (\<forall>n. hr_joined r c = Some n \<longrightarrow> c \<in> set (hb_clients h) \<longrightarrow> got (hb_chan h c) = drop n (hr_log r)) \<and>
       (hr_joined r c \<noteq> None \<longrightarrow> (c \<notin> set (hb_clients h) \<or> hb_stopped h) = sc_closed (hb_chan h c))" for c
    using hub_ok_client [OF ok, of c] by (auto simp: client_ok_def Let_def h_def split: option.splits)
  ultimately show ?thesis using hub_never_panics [OF r] hub_client_segment [OF r] unfolding h_def by blast
qed

text \<open>A client that connects and leaves at once can stay registered: registration and removal wait in two channels, and the hub
  may take the removal first.\<close>

definition departed_hub :: hub_run where
  "departed_hub = hub_start\<lparr>hr_hub := hub_register 7 NewHub, hr_seen := {7}, hr_left := {7}, hr_joined := (\<lambda>_. None)(7 \<mapsto> 0)\<rparr>"

lemma departed_hub_reachable: "hub_reachable departed_hub"
proof -
  let ?r1 = "hub_start\<lparr>hr_hub := NewHub\<lparr>hb_register := [7]\<rparr>, hr_seen := {7}\<rparr>"
  let ?r2 = "?r1\<lparr>hr_hub := NewHub\<lparr>hb_register := [7], hb_unregister := [7]\<rparr>, hr_left := {7}\<rparr>"
  let ?r3 = "?r2\<lparr>hr_hub := NewHub\<lparr>hb_register := [7]\<rparr>\<rparr>"
  have "hub_step hub_start ?r1"
    using hub_step.connect [of 7 hub_start "NewHub\<lparr>hb_register := [7]\<rparr>"] by (simp add: hub_start_def hub_Register_def NewHub_def)
  moreover have "hub_step ?r1 ?r2"
    using hub_step.leave [of 7 ?r1 "NewHub\<lparr>hb_register := [7], hb_unregister := [7]\<rparr>"] by (simp add: hub_start_def hub_Unregister_def NewHub_def)
  moreover have "hub_step ?r2 ?r3"
    using hub_step.run_unregister [of ?r2 7 "[]" "NewHub\<lparr>hb_register := [7]\<rparr>"] by (simp add: hub_start_def hub_unregister_def NewHub_def)
  moreover have "hub_step ?r3 departed_hub"
    using hub_step.run_register [of ?r3 7 "[]"] by (simp add: hub_start_def hub_register_def NewHub_def departed_hub_def)
  ultimately show ?thesis unfolding hub_reachable_def by (meson converse_rtranclp_into_rtranclp rtranclp.rtrancl_refl)
qed

lemma hub_serves_without_gaps_witness:
  "hb_activeClients (hr_hub departed_hub) = 1 \<and> got (hb_chan (hr_hub departed_hub) 7) = drop 0 (hr_log departed_hub)"
  using hub_serves_without_gaps [OF departed_hub_reachable]
  by (simp add: departed_hub_def hub_start_def hub_register_def NewHub_def)

lemma departed_client_stays:
  "\<exists>r. hub_reachable r \<and> 7 \<in> hr_left r \<and> 7 \<in> set (hb_clients (hr_hub r)) \<and> hb_unregister (hr_hub r) = [] \<and> hb_activeClients (hr_hub r) = 1"
  using departed_hub_reachable by (auto simp: departed_hub_def hub_start_def hub_register_def NewHub_def intro!: exI [of _ departed_hub])

section \<open>From the publisher to the client\<close>


text \<open>One event from the publisher to one client.\<close>

definition demo_admin_event :: admin_event where
  "demo_admin_event = \<lparr>ae_EventID = 1, ae_EventType = ''order.paid'', ae_OccurredAt = 5, ae_SchemaVersion = 1,
     ae_Data = \<lparr>ap_OrderID = 9, ap_UserID = 7, ap_TicketTypeID = 5, ap_Quantity = 1, ap_FromStatus = ''awaiting_payment'', ap_ToStatus = ''paid''\<rparr>\<rparr>"

definition demo_entry_values :: "admin_event \<Rightarrow> string \<rightharpoonup> string" where
  "demo_entry_values = xadd_values plain_ext (\<lambda>_. ''{}'') (\<lambda>_. ''now'')"

definition demo_entry :: entry where
  "demo_entry = (0, demo_entry_values demo_admin_event)"

definition demo_hub_run :: hub_run where
  "demo_hub_run = hub_start\<lparr>hr_hub := (hub_register 7 NewHub)\<lparr>hb_broadcastHighWater := 1,
       hb_chan := (\<lambda>_. \<lparr>sc_buf = [], sc_closed = False, sc_received = []\<rparr>)(7 := \<lparr>sc_buf = [demo_entry], sc_closed = False, sc_received = []\<rparr>)\<rparr>,
     hr_seen := {7}, hr_calls := [demo_entry], hr_log := [demo_entry], hr_joined := (\<lambda>_. None)(7 \<mapsto> 0)\<rparr>"

lemma demo_hub_reachable: "hub_reachable demo_hub_run"
proof -
  let ?r1 = "hub_start\<lparr>hr_hub := NewHub\<lparr>hb_register := [7]\<rparr>, hr_seen := {7}\<rparr>"
  let ?r2 = "?r1\<lparr>hr_hub := hub_register 7 NewHub, hr_joined := (\<lambda>_. None)(7 \<mapsto> 0)\<rparr>"
  let ?r3 = "?r2\<lparr>hr_hub := (hub_register 7 NewHub)\<lparr>hb_broadcast := [demo_entry]\<rparr>, hr_calls := [demo_entry]\<rparr>"
  have "hub_step hub_start ?r1"
    using hub_step.connect [of 7 hub_start "NewHub\<lparr>hb_register := [7]\<rparr>"] by (simp add: hub_start_def hub_Register_def NewHub_def)
  moreover have "hub_step ?r1 ?r2"
    using hub_step.run_register [of ?r1 7 "[]"] by (simp add: hub_start_def hub_register_def NewHub_def)
  moreover have "hub_step ?r2 ?r3"
    using hub_step.broadcast [of demo_entry ?r2 "(hub_register 7 NewHub)\<lparr>hb_broadcast := [demo_entry]\<rparr>"]
    by (simp add: hub_start_def hub_Broadcast_def hub_register_def NewHub_def)
  moreover have "hub_step ?r3 demo_hub_run"
    using hub_step.run_broadcast [of ?r3 demo_entry "[]" "hr_hub demo_hub_run"]
    by (simp add: hub_start_def hub_dispatch_def hub_register_def NewHub_def demo_hub_run_def chan_trySend_def fun_eq_iff)
  ultimately show ?thesis unfolding hub_reachable_def by (meson converse_rtranclp_into_rtranclp rtranclp.rtrancl_refl)
qed


text \<open>The bus accounts for every event: it is waiting, in the stream, counted as dropped, or counted as a failed write; its
  channel never holds more than its capacity.\<close>

theorem bus_accounts_for_every_event:
  assumes wf: "stream_wf st0" and run: "bus_run vals cfg evs (NewAdminEventBus, st0) = (b, st)"
  shows "length (published_of evs) \<le> length (ab_ch b) + (st_next st - st_next st0) + ab_dropped b + ab_xaddFailures b \<and>
    length (ab_ch b) \<le> bc_ChannelCapacity cfg \<and> int (length (ab_ch b)) \<le> ab_highWater b \<and> ab_highWater b \<le> int (bc_ChannelCapacity cfg)"
proof -
  from bus_run_state [OF bus_start [OF wf], of vals cfg evs]
  obtain taken written where "bus_state vals cfg st0 (published_of evs) taken written (b, st)" unfolding run by auto
  then show ?thesis by (auto simp: bus_state_def)
qed

end
