(* ===== verification/Sse_Handler.thy ===== *)
theory Sse_Handler
  imports Admin_Stream Api_Booking
begin

text \<open>
  The SSE endpoint of the admin stream (\<open>api/sse/handler.go\<close>): the frames on the wire, the replay from
  \<open>Last-Event-ID\<close> and the writer loop. An entry of the stream has a number, and its id on the wire is
  \<open>redis_StreamID\<close> of it. \<open>after\<close> is how Redis reads a range start: \<open>None\<close> when it refuses the id, otherwise the
  first number whose id is greater.
\<close>

section \<open>Frames\<close>

definition nl :: string where
  "nl = [char_of (10 :: nat)]"

definition safeEventTypeLabel :: "string \<Rightarrow> string" where
  "safeEventTypeLabel t = (if t \<in> {''order.created'', ''order.paid'', ''order.failed'', ''order.expired'', ''order.compensated'',
     ''saga.triggered'', ''dlq.received'', ''inventory.low'', ''_retry_hint'', ''stream_truncated''} then t else ''unknown'')"

text \<open>The value of a missing field is the empty string.\<close>

definition field_of :: "(string \<rightharpoonup> string) \<Rightarrow> string \<Rightarrow> string" where
  "field_of vals k = (case vals k of None \<Rightarrow> '''' | Some v \<Rightarrow> v)"

definition writeMessage :: "string \<Rightarrow> (string \<rightharpoonup> string) \<Rightarrow> string" where
  "writeMessage i vals = (let eventType = field_of vals ''event_type'' in
     if eventType = ''_retry_hint''
     then (case vals ''retry_ms'' of None \<Rightarrow> '''' | Some ms \<Rightarrow> ''retry: '' @ ms @ nl @ nl)
     else ''id: '' @ i @ nl @ (if eventType \<noteq> '''' then ''event: '' @ eventType @ nl else '''') @
       ''data: '' @ field_of vals ''data'' @ nl @ nl)"

definition frame_of :: "ext \<Rightarrow> entry \<Rightarrow> string" where
  "frame_of X e = writeMessage (redis_StreamID X (fst e)) (snd e)"

text \<open>The hint to all clients at shutdown; \<open>r\<close> is \<open>rand.IntN(max - min + 1)\<close>.\<close>

definition retry_hint :: "int \<Rightarrow> int \<Rightarrow> string \<rightharpoonup> string" where
  "retry_hint minMS r = map_of [(''event_type'', ''_retry_hint''), (''retry_ms'', strconv_Itoa (minMS + r))]"

definition truncated_frame :: string where
  "truncated_frame = writeMessage ''0-0'' (map_of [(''event_type'', ''stream_truncated''),
     (''data'', ''{\"reason\":\"last_event_id_too_old\",\"action\":\"resuming_from_live\"}'')])"

section \<open>Stream ids\<close>

definition max_int64 :: int where
  "max_int64 = 9223372036854775807"

definition splitStreamID :: "string \<Rightarrow> int \<times> int" where
  "splitStreamID s = (let ms = takeWhile (\<lambda>c. c \<noteq> CHR ''-'') s; rest = drop (length ms) s in
     case rest of
       [] \<Rightarrow> (case strconv_ParseInt s of None \<Rightarrow> (max_int64, 0) | Some m \<Rightarrow> (m, 0))
     | _ # sq \<Rightarrow> (case (strconv_ParseInt ms, strconv_ParseInt sq) of (Some m, Some n) \<Rightarrow> (m, n) | _ \<Rightarrow> (max_int64, 0)))"

definition compareStreamIDs :: "string \<Rightarrow> string \<Rightarrow> int" where
  "compareStreamIDs a b = (case (splitStreamID a, splitStreamID b) of ((am, as), (bm, bs)) \<Rightarrow>
     if am \<noteq> bm then (if am < bm then -1 else 1) else if as < bs then -1 else if as > bs then 1 else 0)"

section \<open>The replay\<close>

type_synonym range_start = "string \<Rightarrow> nat option"

definition astream_XRANGE :: "range_start \<Rightarrow> string \<Rightarrow> nat \<Rightarrow> astream \<Rightarrow> entry list option" where
  "astream_XRANGE after lastID count st = map_option (\<lambda>k. take count (filter (\<lambda>e. k \<le> fst e) (st_entries st))) (after lastID)"

text \<open>The error, if any, and what is written. The second look at the stream comes later.\<close>

definition replayHistory ::
    "ext \<Rightarrow> range_start \<Rightarrow> nat \<Rightarrow> string \<Rightarrow> fault \<times> astream \<Rightarrow> fault \<times> astream \<Rightarrow> err option \<times> string" where
  "replayHistory X after maxCount lastID look1 look2 =
    (case (if fst look1 = Works then astream_XRANGE after lastID maxCount (snd look1) else None) of
       None \<Rightarrow> (Some (Wrap ''xrange'' (Sentinel DbUnavailable)), '''')
     | Some [] \<Rightarrow>
         if fst look2 \<noteq> Works then (Some (Wrap ''truncation probe'' (Sentinel DbUnavailable)), '''')
         else (case st_entries (snd look2) of
            [] \<Rightarrow> (None, '''')
          | e # _ \<Rightarrow> (None, if compareStreamIDs lastID (redis_StreamID X (fst e)) < 0 then truncated_frame else ''''))
     | Some msgs \<Rightarrow> (None, concat (map (frame_of X) msgs)))"

section \<open>The endpoint\<close>

text \<open>What the writer loop selects; a heartbeat may fail to be written.\<close>

datatype writer_event = Message "nat \<times> (string \<rightharpoonup> string)" | SendClosed | Heartbeat bool | Disconnected

fun writer_loop :: "ext \<Rightarrow> writer_event list \<Rightarrow> string" where
  "writer_loop X [] = ''''"
| "writer_loop X (Message e # evs) = frame_of X e @ writer_loop X evs"
| "writer_loop X (Heartbeat written # evs) = (if written then '': heartbeat'' @ nl @ nl @ writer_loop X evs else '''')"
| "writer_loop X (SendClosed # evs) = ''''"
| "writer_loop X (Disconnected # evs) = ''''"

datatype sse_answer = SseError int string | SseStatus int | SseStream string

definition HandleStream ::
    "ext \<Rightarrow> range_start \<Rightarrow> nat \<Rightarrow> bool \<Rightarrow> bool \<Rightarrow> bool \<Rightarrow> string \<Rightarrow> fault \<times> astream \<Rightarrow> fault \<times> astream \<Rightarrow> writer_event list \<Rightarrow> sse_answer" where
  "HandleStream X after maxCount shuttingDown isFlusher registered lastID look1 look2 evs =
    (if shuttingDown then SseError 503 ''server shutting down, please retry''
     else if \<not> isFlusher then SseStatus 500
     else if \<not> registered then SseError 503 ''server draining, please retry''
     else SseStream ((if lastID \<noteq> '''' then snd (replayHistory X after maxCount lastID look1 look2) else '''') @ writer_loop X evs))"

section \<open>What a client reads\<close>

text \<open>Redis documents that ids are ordered by their two numbers, as the handler compares them.\<close>

definition stream_order :: "ext \<Rightarrow> range_start \<Rightarrow> bool" where
  "stream_order X after \<longleftrightarrow> (\<forall>s k n. after s = Some k \<longrightarrow> compareStreamIDs s (redis_StreamID X n) < 0 \<longrightarrow> k \<le> n)"


text \<open>A Redis that knows one id.\<close>

definition demo_range_start :: range_start where
  "demo_range_start s = (if s = ''5'' then Some 6 else None)"

lemma demo_stream_order: "stream_order plain_ext demo_range_start"
proof -
  have "list_all (\<lambda>n. \<not> compareStreamIDs ''5'' (redis_StreamID plain_ext n) < 0) [0, 1, 2, 3, 4, 5]" by code_simp
  moreover have "n \<in> set [0, 1, 2, 3, 4, 5]" if "\<not> 6 \<le> n" for n :: nat using that by auto
  ultimately have "6 \<le> n" if "compareStreamIDs ''5'' (redis_StreamID plain_ext n) < 0" for n using that unfolding list_all_iff by blast
  then show ?thesis by (auto simp: stream_order_def demo_range_start_def split: if_splits)
qed

text \<open>The client last saw 5; 6 and 7 were trimmed. It gets 8 and 9 and no notice.\<close>

definition demo_trimmed :: astream where
  "demo_trimmed = \<lparr>st_entries = [(8, Map.empty), (9, Map.empty)], st_next = 10\<rparr>"


text \<open>The client is registered before the replay, so an entry of that moment is written twice, and entries go back in order.\<close>

lemma replay_repeats_live_entries:
  "HandleStream plain_ext demo_range_start 1000 False True True ''5'' (Works, demo_trimmed) (Works, demo_trimmed)
     [Message (8, Map.empty), Message (9, Map.empty), Message (10, Map.empty)] =
   SseStream (concat (map (frame_of plain_ext) [(8, Map.empty), (9, Map.empty), (8, Map.empty), (9, Map.empty), (10, Map.empty)]))"
  by code_simp

end
