(* ===== verification/Event_Inventory.thy ===== *)
theory Event_Inventory
  imports Postgres
begin

text \<open>
  The event-level inventory of \<open>internal/infrastructure/persistence/postgres/repositories.go\<close>: the methods of the event
  repository from the time when an event had one counter of its own. The services now count per ticket type and call
  none of them, but they are part of the port. \<open>Event.Deduct\<close> of the domain is the specification of the decrement.
\<close>

section \<open>The methods\<close>

text \<open>\<open>available_tickets\<close> has a check constraint of its own: not negative.\<close>

definition sql_update_events :: "(event \<Rightarrow> bool) \<Rightarrow> (event \<Rightarrow> event) \<Rightarrow> pg \<Rightarrow> err + nat \<times> pg" where
  "sql_update_events P f p =
    (if list_ex (\<lambda>e. P e \<and> ev_availableTickets (f e) < 0) (pg_events p) then Inl (Sentinel PgCheckViolation)
     else Inr (count_where P (pg_events p), p\<lparr>pg_events := update_where P f (pg_events p)\<rparr>))"

definition eventRepo_GetByIDForUpdate :: "uuid \<Rightarrow> world \<Rightarrow> (err + event) \<times> world" where
  "eventRepo_GetByIDForUpdate i w = (case sql_query (\<lambda>p. lookup ev_id i (pg_events p)) w of
     (Inl e, w1) \<Rightarrow> (Inl (Wrap ''eventRepository.GetByIDForUpdate'' e), w1)
   | (Inr None, w1) \<Rightarrow> (Inl (Sentinel ErrEventNotFound), w1)
   | (Inr (Some e), w1) \<Rightarrow> (Inr e, w1))"

definition eventRepo_Update :: "event \<Rightarrow> world \<Rightarrow> (err + unit) \<times> world" where
  "eventRepo_Update ev w =
    (case sql_exec (sql_update_events (\<lambda>e. ev_id e = ev_id ev) (\<lambda>e. e\<lparr>ev_availableTickets := ev_availableTickets ev\<rparr>)) w of
       (Inl e, w1) \<Rightarrow> (Inl (Wrap ''eventRepository.Update'' e), w1)
     | (Inr _, w1) \<Rightarrow> (Inr (), w1))"

definition eventRepo_DecrementTicket :: "uuid \<Rightarrow> int \<Rightarrow> world \<Rightarrow> (err + unit) \<times> world" where
  "eventRepo_DecrementTicket i q w =
    (case sql_exec (sql_update_events (\<lambda>e. ev_id e = i \<and> ev_availableTickets e \<ge> q)
         (\<lambda>e. e\<lparr>ev_availableTickets := ev_availableTickets e - q\<rparr>)) w of
       (Inl e, w1) \<Rightarrow> (Inl (Wrap ''eventRepository.DecrementTicket exec'' e), w1)
     | (Inr n, w1) \<Rightarrow> (if n = 0 then (Inl (Sentinel ErrSoldOut), w1) else (Inr (), w1)))"

definition eventRepo_IncrementTicket :: "uuid \<Rightarrow> int \<Rightarrow> world \<Rightarrow> (err + unit) \<times> world" where
  "eventRepo_IncrementTicket i q w =
    (case sql_exec (sql_update_events (\<lambda>e. ev_id e = i \<and> ev_availableTickets e + q \<le> ev_totalTickets e)
         (\<lambda>e. e\<lparr>ev_availableTickets := ev_availableTickets e + q\<rparr>)) w of
       (Inl e, w1) \<Rightarrow> (Inl (Wrap ''eventRepository.IncrementTicket exec'' e), w1)
     | (Inr n, w1) \<Rightarrow>
         (if n = 0 then (Inl (Plain ''eventRepository.IncrementTicket: not found or exceeds total tickets''), w1)
          else (Inr (), w1)))"

section \<open>What they do\<close>

text \<open>The rows of a database in which no event has more or fewer tickets than it can have.\<close>

abbreviation events_wf :: "pg \<Rightarrow> bool" where
  "events_wf p \<equiv> list_all event_wf (pg_events p) \<and> distinct (map ev_id (pg_events p))"

lemma sql_update_events_Inr:
  "sql_update_events P f p = Inr (n, p') \<Longrightarrow> n = count_where P (pg_events p) \<and> p' = p\<lparr>pg_events := update_where P f (pg_events p)\<rparr> \<and>
     (\<forall>e \<in> set (pg_events p). P e \<longrightarrow> 0 \<le> ev_availableTickets (f e))"
  by (auto simp: sql_update_events_def list_ex_iff not_less split: if_splits)

lemma update_events_wf:
  assumes "sql_update_events P f p = Inr (n, p')" and "events_wf p" and "\<And>e. ev_id (f e) = ev_id e"
    and "\<And>e. ev_totalTickets (f e) = ev_totalTickets e" and "\<And>e. P e \<Longrightarrow> event_wf e \<Longrightarrow> ev_availableTickets (f e) \<le> ev_totalTickets (f e)"
  shows "events_wf p'"
proof -
  have "pg_events p' = update_where P f (pg_events p)" "\<forall>e \<in> set (pg_events p). P e \<longrightarrow> 0 \<le> ev_availableTickets (f e)"
    using sql_update_events_Inr [OF assms(1)] by simp_all
  moreover have "ev_totalTickets (f e) = ev_totalTickets e \<Longrightarrow> P e \<Longrightarrow> event_wf e \<Longrightarrow> 0 \<le> ev_availableTickets (f e) \<Longrightarrow> event_wf (f e)" for e
    using assms(5) [of e] by (simp add: event_wf_def)
  ultimately have "list_all event_wf (pg_events p')" using assms(2,4) by (auto simp: list_all_iff update_where_def)
  moreover have "map ev_id (pg_events p') = map ev_id (pg_events p)"
    using \<open>pg_events p' = _\<close> assms(3) by (simp add: keys_update_where)
  ultimately show ?thesis using assms(2) by simp
qed

text \<open>The decrement and the increment keep the counter of every event within its bounds, whatever call fails.\<close>

lemma event_counter_bounded:
  assumes "0 \<le> q" and "events_wf (w_pg w)"
  shows "eventRepo_DecrementTicket i q w = (r, w') \<Longrightarrow> events_wf (w_pg w')"
    and "eventRepo_IncrementTicket i q w = (r, w') \<Longrightarrow> events_wf (w_pg w')"
proof -
  have pg: "sql_exec stmt w = (x, w1) \<Longrightarrow> (\<And>n p. stmt (w_pg w) = Inr (n, p) \<Longrightarrow> events_wf p) \<Longrightarrow> events_wf (w_pg w1)" for stmt x w1
    by (erule sql_exec_cases) (use assms in auto)
  have "events_wf p" if "sql_update_events (\<lambda>e. ev_id e = i \<and> ev_availableTickets e \<ge> q) (\<lambda>e. e\<lparr>ev_availableTickets := ev_availableTickets e - q\<rparr>)
      (w_pg w) = Inr (n, p)" for n p
    using update_events_wf [OF that assms(2)] assms(1) by (simp add: event_wf_def)
  then show "eventRepo_DecrementTicket i q w = (r, w') \<Longrightarrow> events_wf (w_pg w')"
    by (auto simp: eventRepo_DecrementTicket_def split: prod.splits sum.splits if_splits dest!: pg)
  have "events_wf p" if "sql_update_events (\<lambda>e. ev_id e = i \<and> ev_availableTickets e + q \<le> ev_totalTickets e)
      (\<lambda>e. e\<lparr>ev_availableTickets := ev_availableTickets e + q\<rparr>) (w_pg w) = Inr (n, p)" for n p
    using update_events_wf [OF that assms(2)] by simp
  then show "eventRepo_IncrementTicket i q w = (r, w') \<Longrightarrow> events_wf (w_pg w')"
    by (auto simp: eventRepo_IncrementTicket_def split: prod.splits sum.splits if_splits dest!: pg)
qed

text \<open>With the call working, the decrement of a stored event succeeds exactly when \<open>Event.Deduct\<close> does on the event
  that \<open>GetByID\<close> reads, and stores the event that it returns; a refused one is sold out and changes nothing.\<close>

lemma decrement_refines_Deduct:
  assumes nf: "w_faults w = []" and d: "distinct (map ev_id (pg_events (w_pg w)))" and q: "0 \<le> q"
    and e: "lookup ev_id i (pg_events (w_pg w)) = Some e" and run: "eventRepo_DecrementTicket i q w = (r, w')"
  shows "case Event_Deduct e q of
      Inl x \<Rightarrow> r = Inl (Sentinel ErrSoldOut) \<and> w' = w
    | Inr e' \<Rightarrow> r = Inr () \<and> lookup ev_id i (pg_events (w_pg w')) = Some e' \<and>
        (\<forall>j. j \<noteq> i \<longrightarrow> lookup ev_id j (pg_events (w_pg w')) = lookup ev_id j (pg_events (w_pg w)))"
proof -
  let ?P = "\<lambda>e. ev_id e = i \<and> ev_availableTickets e \<ge> q" and ?f = "\<lambda>e. e\<lparr>ev_availableTickets := ev_availableTickets e - q\<rparr>"
  let ?es = "pg_events (w_pg w)"
  have "sql_update_events ?P ?f (w_pg w) = Inr (count_where ?P ?es, (w_pg w)\<lparr>pg_events := update_where ?P ?f ?es\<rparr>)"
    by (auto simp: sql_update_events_def list_ex_iff)
  with nf have run': "eventRepo_DecrementTicket i q w = (if count_where ?P ?es = 0 then Inl (Sentinel ErrSoldOut) else Inr (),
      w\<lparr>w_pg := (w_pg w)\<lparr>pg_events := update_where ?P ?f ?es\<rparr>\<rparr>)"
    by (simp add: eventRepo_DecrementTicket_def sql_exec_Works)
  have n: "count_where ?P ?es = (if q \<le> ev_availableTickets e then 1 else 0)" using count_where_key [OF d, of i] e by simp
  show ?thesis
  proof (cases "q \<le> ev_availableTickets e")
    case True
    have "lookup ev_id j (update_where ?P ?f ?es) =
        (if j = i then map_option (\<lambda>r. if q \<le> ev_availableTickets r then ?f r else r) (lookup ev_id i ?es) else lookup ev_id j ?es)" for j
      by (rule lookup_other_key) simp
    with True run run' n e q show ?thesis by (auto simp: Event_Deduct_def)
  next
    case False
    then have "update_where ?P ?f ?es = ?es" using n by (intro update_where_idle) (simp add: count_where_0_iff)
    with False run run' n q show ?thesis by (simp add: Event_Deduct_def)
  qed
qed

text \<open>A decrement that is taken back leaves the event as it was.\<close>

lemma increment_undoes_decrement:
  assumes nf: "w_faults w = []" and wf: "events_wf (w_pg w)" and q: "0 \<le> q"
    and dec: "eventRepo_DecrementTicket i q w = (Inr (), w1)"
  shows "\<exists>w2. eventRepo_IncrementTicket i q w1 = (Inr (), w2) \<and> w_pg w2 = w_pg w"
proof -
  let ?P = "\<lambda>e. ev_id e = i \<and> ev_availableTickets e \<ge> q" and ?f = "\<lambda>e. e\<lparr>ev_availableTickets := ev_availableTickets e - q\<rparr>"
  let ?P' = "\<lambda>e. ev_id e = i \<and> ev_availableTickets e + q \<le> ev_totalTickets e" and ?f' = "\<lambda>e. e\<lparr>ev_availableTickets := ev_availableTickets e + q\<rparr>"
  let ?es = "pg_events (w_pg w)"
  have "sql_update_events ?P ?f (w_pg w) = Inr (count_where ?P ?es, (w_pg w)\<lparr>pg_events := update_where ?P ?f ?es\<rparr>)"
    by (auto simp: sql_update_events_def list_ex_iff)
  then have w1: "w1 = w\<lparr>w_pg := (w_pg w)\<lparr>pg_events := update_where ?P ?f ?es\<rparr>\<rparr>" and n: "count_where ?P ?es \<noteq> 0"
    using dec nf by (auto simp: eventRepo_DecrementTicket_def sql_exec_Works split: if_splits)
  obtain e where e: "e \<in> set ?es" "?P e" using n by (auto simp: count_where_0_iff)
  have one: "x = e" if "x \<in> set (pg_events (w_pg w))" and "ev_id x = i" for x
    using wf e that by (auto simp: distinct_map inj_on_def)
  have undo: "update_where ?P' ?f' (update_where ?P ?f ?es) = ?es"
    unfolding update_where_def map_map
  proof (rule map_idI)
    fix x assume x: "x \<in> set ?es"
    have "ev_availableTickets x \<le> ev_totalTickets x" using wf x by (auto simp: list_all_iff event_wf_def)
    then show "((\<lambda>r. if ?P' r then ?f' r else r) \<circ> (\<lambda>r. if ?P r then ?f r else r)) x = x" using one [OF x] e by auto
  qed
  have "?f e \<in> set (update_where ?P ?f ?es)" "?P' (?f e)"
    using e wf by (auto simp: update_where_def list_all_iff event_wf_def image_iff intro!: bexI [of _ e])
  then have "count_where ?P' (update_where ?P ?f ?es) \<noteq> 0" unfolding count_where_0_iff by blast
  moreover have "\<not> list_ex (\<lambda>x. ?P' x \<and> ev_availableTickets (?f' x) < 0) (update_where ?P ?f ?es)"
    using wf q one e by (fastforce simp: list_ex_iff update_where_def list_all_iff event_wf_def)
  ultimately show ?thesis using nf undo
    by (auto simp: w1 eventRepo_IncrementTicket_def sql_exec_Works sql_update_events_def)
qed

text \<open>A negative quantity is not refused: the decrement of -1 raises the counter, beyond the total if it is full.\<close>

lemma negative_decrement_overfills:
  assumes "lookup ev_id i (pg_events (w_pg w)) = Some e" and "distinct (map ev_id (pg_events (w_pg w)))" and "w_faults w = []"
    and "event_wf e" and "ev_availableTickets e = ev_totalTickets e"
  shows "\<exists>w' e'. eventRepo_DecrementTicket i (-1) w = (Inr (), w') \<and> lookup ev_id i (pg_events (w_pg w')) = Some e' \<and> \<not> event_wf e'"
proof -
  let ?P = "\<lambda>e. ev_id e = i \<and> -1 \<le> ev_availableTickets e" and ?f = "\<lambda>e. e\<lparr>ev_availableTickets := ev_availableTickets e + 1\<rparr>"
  have "lookup ev_id i (update_where ?P ?f (pg_events (w_pg w))) = Some (?f e)"
    using lookup_other_key [of ev_id ?f i i "\<lambda>e. -1 \<le> ev_availableTickets e" "pg_events (w_pg w)"] assms(1,4,5) by (simp add: event_wf_def)
  moreover have "count_where ?P (pg_events (w_pg w)) = 1" using count_where_key [OF assms(2), of i] assms(1,4,5) by (simp add: event_wf_def)
  moreover have "sql_update_events ?P ?f (w_pg w) =
      Inr (count_where ?P (pg_events (w_pg w)), (w_pg w)\<lparr>pg_events := update_where ?P ?f (pg_events (w_pg w))\<rparr>)"
    by (auto simp: sql_update_events_def list_ex_iff)
  ultimately show ?thesis using assms by (auto simp: eventRepo_DecrementTicket_def sql_exec_Works event_wf_def)
qed

end
