(* ===== verification/Sweep_Process.thy ===== *)
theory Sweep_Process
  imports Server_System
begin

text \<open>
  The processes that run the sweeps: \<open>safeSweep\<close> and the loops of the reconciler and the drift detector
  (\<open>cmd/booking-cli/recon.go\<close>), of the saga watchdog (\<open>saga_watchdog.go\<close>) and of the expiry sweeper
  (\<open>expiry_sweeper.go\<close>), and their one-shot modes. A schedule is the list of what the \<open>select\<close> of a loop takes:
  \<open>True\<close> for a tick, which comes one interval later, \<open>False\<close> for the end of the context; a schedule that ends
  without it is a loop that is still waiting.
\<close>

section \<open>One sweep\<close>

text \<open>A sweep returns or panics.\<close>

datatype 'a go_result = Returned 'a | Panicked string

type_synonym sweep = "world \<Rightarrow> (err + unit) go_result \<times> world"

definition returns :: "(world \<Rightarrow> (err + unit) \<times> world) \<Rightarrow> sweep" where
  "returns f w = (case f w of (r, w1) \<Rightarrow> (Returned r, w1))"

definition safeSweep :: "string \<Rightarrow> sweep \<Rightarrow> world \<Rightarrow> (err + unit) \<times> world" where
  "safeSweep sweeper sweep w = (case sweep w of
     (Returned r, w1) \<Rightarrow> (r, w1)
   | (Panicked p, w1) \<Rightarrow> (Inl (Plain (sweeper @ '': panic recovered: '' @ p)), metric (''sweep_goroutine_panics_'' @ sweeper) w1))"

text \<open>\<open>err != nil && ctx.Err() == nil\<close>: an error after the end of the context is none.\<close>

definition real_error :: "(err + unit) \<times> world \<Rightarrow> err option \<times> world" where
  "real_error x = (case x of
     (Inr _, w1) \<Rightarrow> (None, w1)
   | (Inl e, w1) \<Rightarrow> (case ctx_Err w1 of (True, w2) \<Rightarrow> (None, w2) | (False, w2) \<Rightarrow> (Some e, w2)))"

section \<open>The loops\<close>

text \<open>The loop logs the real errors of its sweeps, in order, and nothing else depends on them.\<close>

definition logged :: "string \<Rightarrow> sweep \<Rightarrow> world \<Rightarrow> err list \<times> world" where
  "logged sweeper sweep w = (case real_error (safeSweep sweeper sweep w) of
     (None, w1) \<Rightarrow> ([], w1) | (Some e, w1) \<Rightarrow> ([e], w1))"

fun on_ticks :: "string \<Rightarrow> sweep \<Rightarrow> duration \<Rightarrow> bool list \<Rightarrow> world \<Rightarrow> err list \<times> world" where
  "on_ticks sweeper sweep interval [] w = ([], w)"
| "on_ticks sweeper sweep interval (False # ts) w = ([], w)"
| "on_ticks sweeper sweep interval (True # ts) w = (case logged sweeper sweep (time_passes interval w) of
     (es, w1) \<Rightarrow> (case on_ticks sweeper sweep interval ts w1 of (fs, w2) \<Rightarrow> (es @ fs, w2)))"

definition sweep_loop :: "string \<Rightarrow> sweep \<Rightarrow> duration \<Rightarrow> bool list \<Rightarrow> world \<Rightarrow> err list \<times> world" where
  "sweep_loop sweeper sweep interval ts w = (case logged sweeper sweep w of
     (es, w1) \<Rightarrow> (case on_ticks sweeper sweep interval ts w1 of (fs, w2) \<Rightarrow> (es @ fs, w2)))"

definition runSweepLoop :: "ext \<Rightarrow> status_reader \<Rightarrow> recon_config \<Rightarrow> duration \<Rightarrow> bool list \<Rightarrow> world \<Rightarrow> err list \<times> world" where
  "runSweepLoop X reader cfg = sweep_loop ''recon'' (returns (Recon_Sweep X reader cfg))"

definition runDriftLoop :: "ext \<Rightarrow> duration \<Rightarrow> drift_config \<Rightarrow> duration \<Rightarrow> bool list \<Rightarrow> world \<Rightarrow> err list \<times> world" where
  "runDriftLoop X ttl cfg = sweep_loop ''inventory_drift'' (returns (Drift_Sweep X ttl cfg))"

definition runSagaWatchdogLoop :: "ext \<Rightarrow> saga_config \<Rightarrow> duration \<Rightarrow> bool list \<Rightarrow> world \<Rightarrow> err list \<times> world" where
  "runSagaWatchdogLoop X cfg = sweep_loop ''saga_watchdog'' (returns (Watchdog_Sweep X cfg))"

definition runExpirySweeperLoop :: "ext \<Rightarrow> expiry_config \<Rightarrow> duration \<Rightarrow> bool list \<Rightarrow> world \<Rightarrow> err list \<times> world" where
  "runExpirySweeperLoop X cfg = sweep_loop ''expiry_sweeper'' (returns (Sweeper_Sweep X cfg))"

section \<open>One-shot mode\<close>

text \<open>The result is the exit code of the process.\<close>

definition sweep_once :: "string \<Rightarrow> sweep \<Rightarrow> world \<Rightarrow> nat \<times> world" where
  "sweep_once sweeper sweep w = (case real_error (safeSweep sweeper sweep w) of
     (None, w1) \<Rightarrow> (0, w1) | (Some e, w1) \<Rightarrow> (1, w1))"

definition runSagaWatchdogOnce :: "ext \<Rightarrow> saga_config \<Rightarrow> world \<Rightarrow> nat \<times> world" where
  "runSagaWatchdogOnce X cfg = sweep_once ''once_saga_watchdog'' (returns (Watchdog_Sweep X cfg))"

definition runExpirySweeperOnce :: "ext \<Rightarrow> expiry_config \<Rightarrow> world \<Rightarrow> nat \<times> world" where
  "runExpirySweeperOnce X cfg = sweep_once ''once_expiry_sweeper'' (returns (Sweeper_Sweep X cfg))"

text \<open>Both sweeps of the recon process, one after the other in the order that the scheduler takes
  (\<open>drift_first\<close>); each reports on its channel, and the exit code is 1 if either failed.\<close>

definition runRecOnceBoth :: "ext \<Rightarrow> status_reader \<Rightarrow> recon_config \<Rightarrow> duration \<Rightarrow> drift_config \<Rightarrow> bool \<Rightarrow> world \<Rightarrow> nat \<times> world" where
  "runRecOnceBoth X reader rc ttl dc drift_first w =
    (let recon = sweep_once ''once_recon'' (returns (Recon_Sweep X reader rc));
         drift = sweep_once ''once_drift'' (returns (Drift_Sweep X ttl dc));
         (one, two) = (if drift_first then (drift, recon) else (recon, drift))
     in case one w of (a, w1) \<Rightarrow> (case two w1 of (b, w2) \<Rightarrow> (if a = 1 \<or> b = 1 then 1 else 0, w2)))"

section \<open>What every loop keeps\<close>

text \<open>A sweep may return, fail or panic half-way: what it keeps in each case, and what the passing of time and the
  counters keep, the process keeps, for any schedule.\<close>

locale kept_by_sweep =
  fixes sweep :: sweep and I :: "world \<Rightarrow> bool"
  assumes swept: "sweep w = (r, w') \<Longrightarrow> I w \<Longrightarrow> I w'"
    and rest: "I w \<Longrightarrow> w_pg v = (w_pg w)\<lparr>pg_now := t\<rparr> \<Longrightarrow> w_failed v = w_failed w \<Longrightarrow> I v"
begin

lemma same: "I w \<Longrightarrow> w_pg v = w_pg w \<Longrightarrow> w_failed v = w_failed w \<Longrightarrow> I v"
  by (rule rest [where t = "pg_now (w_pg w)"]) simp_all

lemma safeSweep_keeps: "safeSweep n sweep w = (r, w') \<Longrightarrow> I w \<Longrightarrow> I w'"
  by (auto simp: safeSweep_def split: prod.splits go_result.splits intro: same dest: swept)

lemma real_error_keeps: "real_error (safeSweep n sweep w) = (r, w') \<Longrightarrow> I w \<Longrightarrow> I w'"
  by (auto simp: real_error_def split: prod.splits sum.splits bool.splits intro: same dest!: safeSweep_keeps ctx_Err_frame)

lemma logged_keeps: "logged n sweep w = (es, w') \<Longrightarrow> I w \<Longrightarrow> I w'"
  by (auto simp: logged_def split: prod.splits option.splits dest: real_error_keeps)

lemma once_keeps: "sweep_once n sweep w = (c, w') \<Longrightarrow> I w \<Longrightarrow> I w'"
  by (auto simp: sweep_once_def split: prod.splits option.splits dest: real_error_keeps)

lemma time_keeps: "I w \<Longrightarrow> I (time_passes d w)"
  by (erule rest) (simp_all add: time_passes_def)

lemma on_ticks_keeps: "on_ticks n sweep d ts w = (es, w') \<Longrightarrow> I w \<Longrightarrow> I w'"
proof (induction ts arbitrary: w es w')
  case (Cons t ts)
  show ?case
  proof (cases t)
    case True
    obtain fs w1 where l: "logged n sweep (time_passes d w) = (fs, w1)" by (metis surj_pair)
    obtain gs w2 where k: "on_ticks n sweep d ts w1 = (gs, w2)" by (metis surj_pair)
    have "I w1" by (rule logged_keeps [OF l time_keeps [OF Cons.prems(2)]])
    then have "I w2" by (rule Cons.IH [OF k])
    with Cons.prems(1) True l k show ?thesis by simp
  qed (use Cons.prems in auto)
qed simp

lemma loop_keeps: "sweep_loop n sweep d ts w = (es, w') \<Longrightarrow> I w \<Longrightarrow> I w'"
  by (auto simp: sweep_loop_def split: prod.splits dest!: logged_keeps on_ticks_keeps)

end

section \<open>The processes are runs of the server\<close>

text \<open>Each sweep is a step of the server, and so is the passing of time: whatever the schedule, a process is a run.\<close>

lemma returnsD: "returns f w = (r, w') \<Longrightarrow> \<exists>x. f w = (x, w')"
  by (auto simp: returns_def split: prod.splits)

lemma run_environment:
  assumes "server_run X create reader s (g, w)" and "w_pg v = (w_pg w)\<lparr>pg_now := t\<rparr>" and "w_failed v = w_failed w"
  shows "server_run X create reader s (g, v)"
  using assms by (blast intro: rtranclp.rtrancl_into_rtrancl server_step.environment)

interpretation recon_process: kept_by_sweep "returns (Recon_Sweep X reader cfg)" "\<lambda>v. server_run X create reader s (g, v)"
    for X reader cfg create s g
  by unfold_locales (auto intro: run_environment dest!: returnsD intro: rtranclp.rtrancl_into_rtrancl server_step.reconcile)

interpretation drift_process: kept_by_sweep "returns (Drift_Sweep X ttl cfg)" "\<lambda>v. server_run X create reader s (g, v)"
    for X reader ttl cfg create s g
  by unfold_locales (auto intro: run_environment dest!: returnsD intro: rtranclp.rtrancl_into_rtrancl server_step.drift)

interpretation watchdog_process: kept_by_sweep "returns (Watchdog_Sweep X cfg)" "\<lambda>v. server_run X create reader s (g, v)"
    for X reader cfg create s g
  by unfold_locales (auto intro: run_environment dest!: returnsD intro: rtranclp.rtrancl_into_rtrancl server_step.watch)

interpretation expiry_process: kept_by_sweep "returns (Sweeper_Sweep X cfg)" "\<lambda>v. server_run X create reader s (g, v)"
    for X reader cfg create s g
  by unfold_locales (auto intro: run_environment dest!: returnsD intro: rtranclp.rtrancl_into_rtrancl server_step.expire)

lemma processes_are_runs:
  "runSweepLoop X reader rc d ts w = (es, w') \<Longrightarrow> server_run X create reader (g, w) (g, w')"
  "runDriftLoop X ttl dc d ts w = (es, w') \<Longrightarrow> server_run X create reader (g, w) (g, w')"
  "runSagaWatchdogLoop X sc d ts w = (es, w') \<Longrightarrow> server_run X create reader (g, w) (g, w')"
  "runExpirySweeperLoop X ec d ts w = (es, w') \<Longrightarrow> server_run X create reader (g, w) (g, w')"
  "runSagaWatchdogOnce X sc w = (c, w') \<Longrightarrow> server_run X create reader (g, w) (g, w')"
  "runExpirySweeperOnce X ec w = (c, w') \<Longrightarrow> server_run X create reader (g, w) (g, w')"
  unfolding runSweepLoop_def runDriftLoop_def runSagaWatchdogLoop_def runExpirySweeperLoop_def runSagaWatchdogOnce_def runExpirySweeperOnce_def
  by (blast intro: recon_process.loop_keeps drift_process.loop_keeps watchdog_process.loop_keeps expiry_process.loop_keeps
      watchdog_process.once_keeps expiry_process.once_keeps)+

lemma once_both_is_a_run:
  assumes "runRecOnceBoth X reader rc ttl dc drift_first w = (c, w')"
  shows "server_run X create reader (g, w) (g, w')"
proof -
  let ?R = "sweep_once ''once_recon'' (returns (Recon_Sweep X reader rc))" and ?D = "sweep_once ''once_drift'' (returns (Drift_Sweep X ttl dc))"
  have R: "?R v = (x, v') \<Longrightarrow> server_run X create reader (g, w) (g, v) \<Longrightarrow> server_run X create reader (g, w) (g, v')" for v x v'
    by (rule recon_process.once_keeps)
  have D: "?D v = (x, v') \<Longrightarrow> server_run X create reader (g, w) (g, v) \<Longrightarrow> server_run X create reader (g, w) (g, v')" for v x v'
    by (rule drift_process.once_keeps)
  obtain a w1 where one: "(if drift_first then ?D else ?R) w = (a, w1)" by (metis surj_pair)
  obtain b w2 where two: "(if drift_first then ?R else ?D) w1 = (b, w2)" by (metis surj_pair)
  have "w' = w2" using assms one two by (cases drift_first) (simp_all add: runRecOnceBoth_def)
  with one two show ?thesis by (cases drift_first) (auto intro: R D)
qed

section \<open>A loop works off a backlog\<close>

text \<open>A sweep that takes up to \<open>n\<close> from a backlog of its own: after the boot sweep and \<open>k\<close> ticks \<open>n * (k + 1)\<close> are gone,
  and no error was logged.\<close>

locale draining_sweep =
  fixes sweep :: sweep and good :: "world \<Rightarrow> bool" and backlog :: "world \<Rightarrow> nat" and batch :: nat and interval :: duration
  assumes drains: "good w \<Longrightarrow> \<exists>w'. sweep w = (Returned (Inr ()), w') \<and> good w' \<and> backlog w' \<le> backlog w - batch"
    and waits: "good w \<Longrightarrow> good (time_passes interval w) \<and> backlog (time_passes interval w) = backlog w"
begin

lemma logged_drains: "good w \<Longrightarrow> \<exists>w'. logged n sweep w = ([], w') \<and> good w' \<and> backlog w' \<le> backlog w - batch"
  using drains [of w] by (auto simp: logged_def real_error_def safeSweep_def)

lemma on_ticks_drains:
  "good w \<Longrightarrow> \<exists>w'. on_ticks n sweep interval (replicate k True) w = ([], w') \<and> good w' \<and> backlog w' \<le> backlog w - batch * k"
proof (induction k arbitrary: w)
  case (Suc k)
  note t = waits [OF Suc.prems]
  obtain w1 where w1: "logged n sweep (time_passes interval w) = ([], w1)" "good w1" "backlog w1 \<le> backlog w - batch"
    using logged_drains [of "time_passes interval w" n] t by auto
  from Suc.IH [OF w1(2)] obtain w2 where
    "on_ticks n sweep interval (replicate k True) w1 = ([], w2)" "good w2" "backlog w2 \<le> backlog w1 - batch * k" by blast
  with w1 show ?case by auto
qed simp

lemma loop_drains:
  assumes "good w"
  shows "\<exists>w'. sweep_loop n sweep interval (replicate k True) w = ([], w') \<and> good w' \<and> backlog w' \<le> backlog w - batch * Suc k"
proof -
  obtain w1 where w1: "logged n sweep w = ([], w1)" "good w1" "backlog w1 \<le> backlog w - batch"
    using logged_drains [OF assms, of n] by blast
  from on_ticks_drains [OF w1(2), of n k] w1 show ?thesis by (auto simp: sweep_loop_def)
qed

end

section \<open>The expiry sweeper drains what is overdue\<close>

text \<open>The orders that were to be paid by \<open>D\<close> and still are not.\<close>

definition unpaid_by :: "time \<Rightarrow> pg \<Rightarrow> order_row list" where
  "unpaid_by D p = filter (overdue_row 0 D) (pg_orders p)"

abbreviation unpaid :: "pg \<Rightarrow> order_row list" where
  "unpaid p \<equiv> filter (\<lambda>r. or_status r = AwaitingPayment) (pg_orders p)"

text \<open>Enough ids to come, none of them in the outbox, one for the event of each unpaid order.\<close>

definition ids_suffice :: "world \<Rightarrow> bool" where
  "ids_suffice w \<longleftrightarrow> (\<exists>us. w_uuids w = map Some us \<and> distinct us \<and> set us \<inter> ob_id ` set (pg_outbox (w_pg w)) = {} \<and>
     length (unpaid (w_pg w)) \<le> length us)"

definition only_expires :: "pg \<Rightarrow> pg \<Rightarrow> bool" where
  "only_expires p q \<longleftrightarrow> (\<forall>i r. lookup or_id i (pg_orders p) = Some r \<longrightarrow> lookup or_id i (pg_orders q) = Some r \<or>
     or_status r = AwaitingPayment \<and> (\<exists>u. lookup or_id i (pg_orders q) = Some (r\<lparr>or_status := Expired, or_updated := u\<rparr>)))"

lemma only_expires_refl: "only_expires p p"
  by (simp add: only_expires_def)

lemma only_expires_trans: "only_expires p q \<Longrightarrow> only_expires q t \<Longrightarrow> only_expires p t"
  unfolding only_expires_def by fastforce

text \<open>The events to publish and the orders to come: an expiry turns one of the latter into one of the former. Events made
  at a time that is not Go's zero time can be published.\<close>

abbreviation pending :: "pg \<Rightarrow> outbox_event list" where
  "pending p \<equiv> filter (\<lambda>e. ob_processedAt e = None) (pg_outbox p)"

abbreviation stamped :: "pg \<Rightarrow> bool" where
  "stamped p \<equiv> list_all (\<lambda>e. ob_createdAt e \<noteq> 0) (pg_outbox p)"

definition outbox_grows :: "world \<Rightarrow> world \<Rightarrow> bool" where
  "outbox_grows w v \<longleftrightarrow> w_now v = w_now w \<and> (w_now w \<noteq> 0 \<longrightarrow> stamped (w_pg w) \<longrightarrow> stamped (w_pg v)) \<and>
     length (pending (w_pg v)) + length (unpaid (w_pg v)) \<le> length (pending (w_pg w)) + length (unpaid (w_pg w))"

lemma outbox_grows_refl: "outbox_grows w w"
  by (simp add: outbox_grows_def)

lemma outbox_grows_trans: "outbox_grows w v \<Longrightarrow> outbox_grows v u \<Longrightarrow> outbox_grows w u"
  by (auto simp: outbox_grows_def)

lemma filter_settled:
  assumes "\<not> P r'"
  shows "filter P (update_where (\<lambda>x. or_id x = i) (\<lambda>_. r') rs) = filter (\<lambda>x. or_id x \<noteq> i) (filter P rs)"
  using assms by (induction rs) auto

text \<open>With every call working one reservation is expired and its event stored.\<close>

lemma expire_works:
  assumes nf: "w_faults w = []" and db: "db_ok (w_pg w)" and ids: "ids_suffice w"
    and row: "lookup or_id i (pg_orders (w_pg w)) = Some r" and st: "or_status r = AwaitingPayment"
    and v: "v = Sweeper_resolve X cfg (i, age) w"
  shows "w_faults v = []" and "db_ok (w_pg v)" and "ids_suffice v" and "pg_now (w_pg v) = pg_now (w_pg w)"
    and "pg_orders (w_pg v) = update_where (\<lambda>x. or_id x = i) (\<lambda>_. r\<lparr>or_status := Expired, or_updated := pg_now (w_pg w)\<rparr>) (pg_orders (w_pg w))"
    and "only_expires (w_pg w) (w_pg v)" and "outbox_grows w v"
proof -
  let ?r' = "r\<lparr>or_status := Expired, or_updated := pg_now (w_pg w)\<rparr>"
  have i: "or_id r = i" "r \<in> set (pg_orders (w_pg w))" using lookup_in_set [OF row] by auto
  have wf: "orders_wf (pg_orders (w_pg w))" using db by (simp add: db_ok_def pg_wf_def)
  have nv: "\<not> order_violation ?r' (pg_orders (w_pg w))"
  proof -
    have "\<not> order_violation r (pg_orders (w_pg w))" using wf i(2) by (auto simp: orders_wf_def list_all_iff)
    then show ?thesis using st by (auto simp: order_violation_def list_ex_iff user_event_clash_def intent_clash_def)
  qed
  obtain us where us: "w_uuids w = map Some us" "distinct us" "set us \<inter> ob_id ` set (pg_outbox (w_pg w)) = {}"
    "length (unpaid (w_pg w)) \<le> length us" using ids by (auto simp: ids_suffice_def)
  have "r \<in> set (unpaid (w_pg w))" using i st by simp
  then have "unpaid (w_pg w) \<noteq> []" by (metis empty_iff list.set(1))
  then obtain u us' where u: "us = u # us'" using us(4) by (cases us) auto
  define p1 where "p1 = (w_pg w)\<lparr>pg_orders := update_where (\<lambda>x. or_id x = i) (\<lambda>_. ?r') (pg_orders (w_pg w)),
      pg_history := pg_history (w_pg w) @ [\<lparr>hi_order = i, hi_from = or_status r, hi_to = Expired\<rparr>]\<rparr>"
  have tr: "sql_transition i Expired (\<lambda>_ r. or_status r \<in> set [AwaitingPayment]) (w_pg w) = Inr (1, p1)"
    using row st nv by (simp add: sql_transition_def Let_def p1_def)
  let ?w2 = "w\<lparr>w_uuids := map Some us'\<rparr>"
  define ev where "ev = NewOrderFailedEventFromOrder (w_now w) (order_toDomain r)
      (''reservation_expired_after: '' @ time_RFC3339 X (reservedUntil (order_toDomain r)))"
  define ob where "ob = \<lparr>ob_id = u, ob_eventType = ''order.failed'', ob_payload = OrderFailedJSON ev, ob_status = ''PENDING'',
      ob_createdAt = w_now w, ob_processedAt = None\<rparr>"
  define p2 where "p2 = p1\<lparr>pg_outbox := pg_outbox p1 @ [ob]\<rparr>"
  have ins: "sql_insert_outbox ob p1 = Inr (1, p2)"
    using us(3) u by (auto simp: sql_insert_outbox_def p2_def p1_def ob_def lookup_None_iff)
  have b: "build_outbox (OrderFailedJSON ev) w = (Inr ob, ?w2)"
    using us(1) u by (simp add: build_outbox_def uuid_NewV7_def NewOrderFailedOutbox_def ob_def)
  have ex: "expire_tx i ob ?w2 = (Inr (), ?w2\<lparr>w_pg := p2\<rparr>)"
    using nf tr ins by (simp add: expire_tx_def orderRepo_MarkExpired_def orderRepo_transition_def outboxRepo_Create_def sql_exec_Works ob_def)
  have tx: "uow_Do (expire_tx i ob) ?w2 = (Inr (), ?w2\<lparr>w_pg := p2\<rparr>)"
    using uow_Do_Works [of ?w2 "expire_tx i ob"] ex nf by simp
  have get: "orderRepo_GetByID i w = (Inr (order_toDomain r), w)" using nf row by (simp add: orderRepo_GetByID_def sql_query_Works)
  have "status (order_toDomain r) = AwaitingPayment" "id_of (order_toDomain r) = i"
    using st i by (simp_all add: order_toDomain_def ReconstructOrder_def)
  then have vv: "w_faults v = []" "w_pg v = p2" "w_uuids v = map Some us'" "w_now v = w_now w"
    using v get b [unfolded ev_def] tx nf by (simp_all add: Sweeper_resolve_def Let_def)
  show "w_faults v = []" "pg_now (w_pg v) = pg_now (w_pg w)" using vv by (simp_all add: p2_def p1_def)
  show o2: "pg_orders (w_pg v) = update_where (\<lambda>x. or_id x = i) (\<lambda>_. ?r') (pg_orders (w_pg w))" using vv by (simp add: p2_def p1_def)
  have mv: "moved MarkExpired i (w_pg w) p1" using row st nv by (auto simp: moved_def mark_guard_def edge_simps p1_def)
  have "db_ok p1" by (rule moved_db_ok [OF mv db]) simp
  then show "db_ok (w_pg v)" using vv ins us(3) u
    by (auto simp: db_ok_def ledger_ok_def p2_def p1_def pg_wf_def ob_def)
  have fs: "unpaid p2 = filter (\<lambda>x. or_id x \<noteq> i) (unpaid (w_pg w))"
    using filter_settled [of "\<lambda>r. or_status r = AwaitingPayment" ?r' i "pg_orders (w_pg w)"] by (simp add: p2_def p1_def)
  have "length (filter (\<lambda>x. or_id x \<noteq> i) (unpaid (w_pg w))) < length (unpaid (w_pg w))"
    by (rule length_filter_less [of r]) (use i st in auto)
  then show "ids_suffice v"
    unfolding ids_suffice_def vv fs using us(2,3,4) u by (intro exI [of _ us']) (auto simp: p2_def p1_def ob_def)
  show "outbox_grows w v"
    using \<open>length (filter (\<lambda>x. or_id x \<noteq> i) (unpaid (w_pg w))) < length (unpaid (w_pg w))\<close>
    unfolding outbox_grows_def vv fs by (simp add: p2_def p1_def ob_def)
  show "only_expires (w_pg w) (w_pg v)"
    unfolding only_expires_def
  proof (intro allI impI)
    fix j x assume x: "lookup or_id j (pg_orders (w_pg w)) = Some x"
    show "lookup or_id j (pg_orders (w_pg v)) = Some x \<or>
        or_status x = AwaitingPayment \<and> (\<exists>u. lookup or_id j (pg_orders (w_pg v)) = Some (x\<lparr>or_status := Expired, or_updated := u\<rparr>))"
      using moved_row [OF mv] x row st vv(2) by (cases "j = i") (auto simp: p2_def)
  qed
qed

text \<open>So is every reservation of a batch.\<close>

lemma expire_all_works:
  assumes "w_faults w = []" and "db_ok (w_pg w)" and "ids_suffice w" and "set rs \<subseteq> set (unpaid (w_pg w))" and "distinct (map or_id rs)"
  shows "\<exists>w'. for_each (\<lambda>s v. case ctx_Err v of (True, v1) \<Rightarrow> (Inl (Sentinel ContextCanceled), v1)
           | (False, v1) \<Rightarrow> (Inr (), Sweeper_resolve X cfg s v1)) (map (\<lambda>r. (or_id r, age r)) rs) w = (Inr (), w') \<and>
     w_faults w' = [] \<and> db_ok (w_pg w') \<and> ids_suffice w' \<and> pg_now (w_pg w') = pg_now (w_pg w) \<and> only_expires (w_pg w) (w_pg w') \<and>
     unpaid_by D (w_pg w') = filter (\<lambda>x. or_id x \<notin> or_id ` set rs) (unpaid_by D (w_pg w)) \<and> outbox_grows w w'"
  using assms
proof (induction rs arbitrary: w)
  case Nil
  then show ?case by (simp add: only_expires_refl outbox_grows_refl)
next
  case (Cons r rs)
  have r: "r \<in> set (pg_orders (w_pg w))" "or_status r = AwaitingPayment" using Cons.prems(4) by auto
  have row: "lookup or_id (or_id r) (pg_orders (w_pg w)) = Some r" by (rule order_lookup [OF Cons.prems(2) r(1)])
  define v where "v = Sweeper_resolve X cfg (or_id r, age r) w"
  note ex = expire_works [OF Cons.prems(1-3) row r(2) v_def]
  have "x \<in> set (unpaid (w_pg v))" if x: "x \<in> set rs" for x
  proof -
    have "x \<in> set (unpaid (w_pg w))" using x Cons.prems(4) by auto
    moreover have "or_id x \<noteq> or_id r"
    proof
      assume "or_id x = or_id r"
      then have "or_id r \<in> or_id ` set rs" using x by (metis imageI)
      with Cons.prems(5) show False by simp
    qed
    ultimately show ?thesis unfolding ex(5) by (auto simp: update_where_def image_iff)
  qed
  then obtain w' where w': "for_each (\<lambda>s v. case ctx_Err v of (True, v1) \<Rightarrow> (Inl (Sentinel ContextCanceled), v1)
           | (False, v1) \<Rightarrow> (Inr (), Sweeper_resolve X cfg s v1)) (map (\<lambda>r. (or_id r, age r)) rs) v = (Inr (), w')"
     "w_faults w' = []" "db_ok (w_pg w')" "ids_suffice w'" "pg_now (w_pg w') = pg_now (w_pg v)" "only_expires (w_pg v) (w_pg w')"
     "unpaid_by D (w_pg w') = filter (\<lambda>x. or_id x \<notin> or_id ` set rs) (unpaid_by D (w_pg v))" "outbox_grows v w'"
    using Cons.IH [OF ex(1-3)] Cons.prems(5) by auto
  have "unpaid_by D (w_pg v) = filter (\<lambda>x. or_id x \<noteq> or_id r) (unpaid_by D (w_pg w))"
    unfolding unpaid_by_def ex(5) by (rule filter_settled) (simp add: overdue_row_def)
  with w' ex Cons.prems(1) show ?case
    by (auto simp: ctx_Err_def v_def [symmetric] intro: only_expires_trans outbox_grows_trans intro!: filter_cong)
qed

text \<open>The oldest deadlines come first: a prefix of the sorted list takes from the backlog of an earlier deadline all that
  it can.\<close>

lemma sorted_prefix_takes:
  fixes f :: "'a \<Rightarrow> int"
  assumes "distinct (map k xs)" and "\<And>x. Q x \<longleftrightarrow> P x \<and> f x \<le> D" and "ys = take n (sort_key f (filter P xs))"
  shows "length (filter (\<lambda>x. k x \<notin> k ` set ys) (filter Q xs)) \<le> length (filter Q xs) - n"
proof -
  let ?L = "sort_key f (filter P xs)" and ?B = "filter Q xs"
  have dk: "distinct (map k ?L)" "distinct xs" using assms(1) by (auto simp: distinct_map intro: inj_on_subset)
  have inj: "inj_on k (set xs)" using assms(1) by (simp add: distinct_map)
  have sub: "set ys \<subseteq> set xs" using assms(3) by (auto dest: in_set_takeD)
  have eq: "filter (\<lambda>x. k x \<notin> k ` set ys) ?B = filter (\<lambda>x. x \<notin> set ys) ?B"
    using inj sub by (intro filter_cong) (auto simp: inj_on_def)
  have card: "length (filter (\<lambda>x. x \<notin> set ys) ?B) = card (set ?B - set ys)"
    using dk(2) by (simp add: distinct_card [symmetric] set_diff_eq)
  show ?thesis
  proof (cases "set ?B \<subseteq> set ys")
    case True
    then have "filter (\<lambda>x. x \<notin> set ys) ?B = []" by (auto simp: filter_empty_conv)
    then show ?thesis using eq by simp
  next
    case False
    then obtain b where b: "b \<in> set ?B" "b \<notin> set ys" by blast
    have L: "?L = ys @ drop n ?L" using assms(3) by simp
    have "b \<in> set ?L" using b(1) assms(2) by auto
    then have drop: "b \<in> set (drop n ?L)" using b(2) L by (metis Un_iff set_append)
    have "sorted (map f ?L)" by simp
    then have "f x \<le> f b" if "x \<in> set ys" for x
      using that drop by (subst (asm) L) (auto simp: sorted_append)
    moreover have "P x" if "x \<in> set ys" for x using that assms(3) by (auto dest: in_set_takeD)
    ultimately have "set ys \<subseteq> set ?B" using sub b(1) assms(2) by fastforce
    moreover have "length ys = n" using drop assms(3) by (cases "n \<le> length ?L") auto
    moreover have "distinct ys" using dk assms(3) by (simp add: distinct_map distinct_take)
    moreover have "card (set ?B) = length ?B" using distinct_card [of ?B] dk(2) by simp
    ultimately show ?thesis using eq card by (simp add: card_Diff_subset distinct_card)
  qed
qed

text \<open>One sweep: everything works, the ids suffice, and nothing but unpaid orders of \<open>w0\<close> has changed.\<close>

definition draining :: "expiry_config \<Rightarrow> time \<Rightarrow> pg \<Rightarrow> world \<Rightarrow> bool" where
  "draining cfg D p0 w \<longleftrightarrow> w_faults w = [] \<and> db_ok (w_pg w) \<and> ids_suffice w \<and> D \<le> pg_now (w_pg w) - ec_ExpiryGracePeriod cfg \<and>
     only_expires p0 (w_pg w)"

lemma expiry_sweep_drains:
  assumes g: "draining cfg D p0 w"
  shows "\<exists>w'. Sweeper_Sweep X cfg w = (Inr (), w') \<and> draining cfg D p0 w' \<and>
    length (unpaid_by D (w_pg w')) \<le> length (unpaid_by D (w_pg w)) - nat (ec_BatchSize cfg) \<and> outbox_grows w w'"
proof -
  have nf: "w_faults w = []" and db: "db_ok (w_pg w)" and ids: "ids_suffice w"
    and D: "D \<le> pg_now (w_pg w) - ec_ExpiryGracePeriod cfg" and oe: "only_expires p0 (w_pg w)"
    using g by (simp_all add: draining_def)
  let ?O = "overdue_row (ec_ExpiryGracePeriod cfg) (pg_now (w_pg w))"
  let ?L = "sort_key reserved_key (filter ?O (pg_orders (w_pg w)))"
  define rs where "rs = take (nat (ec_BatchSize cfg)) ?L"
  have find: "orderRepo_FindExpiredReservations (ec_ExpiryGracePeriod cfg) (ec_BatchSize cfg) w =
      (Inr (map (\<lambda>r. (or_id r, pg_now (w_pg w) - reserved_key r)) rs), w)"
    using nf by (simp add: orderRepo_FindExpiredReservations_def sql_query_Works rs_def)
  have dist: "distinct (map or_id (pg_orders (w_pg w)))" using db by (simp add: db_ok_def pg_wf_def orders_wf_def)
  have sub: "set rs \<subseteq> set (unpaid (w_pg w))" by (auto simp: rs_def overdue_row_def dest!: in_set_takeD)
  have "distinct (map or_id ?L)" using dist by (auto simp: distinct_map intro: inj_on_subset)
  then have d: "distinct (map or_id rs)" by (simp add: rs_def distinct_take flip: take_map)
  obtain w' where w': "for_each (\<lambda>s v. case ctx_Err v of (True, v1) \<Rightarrow> (Inl (Sentinel ContextCanceled), v1)
           | (False, v1) \<Rightarrow> (Inr (), Sweeper_resolve X cfg s v1)) (map (\<lambda>r. (or_id r, pg_now (w_pg w) - reserved_key r)) rs) w = (Inr (), w')"
     "w_faults w' = []" "db_ok (w_pg w')" "ids_suffice w'" "pg_now (w_pg w') = pg_now (w_pg w)" "only_expires (w_pg w) (w_pg w')"
     "unpaid_by D (w_pg w') = filter (\<lambda>x. or_id x \<notin> or_id ` set rs) (unpaid_by D (w_pg w))" "outbox_grows w w'"
    using expire_all_works [OF nf db ids sub d, of X cfg "\<lambda>r. pg_now (w_pg w) - reserved_key r" D] by blast
  obtain y where "orderRepo_CountOverdueAfterCutoff (ec_ExpiryGracePeriod cfg) w' = (Inr y, w')"
    using w'(2) by (simp add: orderRepo_CountOverdueAfterCutoff_def sql_query_Works)
  then have "Sweeper_Sweep X cfg w = (Inr (), w')" using find w'(1) by (simp add: Sweeper_Sweep_def)
  moreover have "draining cfg D p0 w'" using w' D oe by (auto simp: draining_def intro: only_expires_trans)
  moreover have "length (filter (\<lambda>x. or_id x \<notin> or_id ` set rs) (unpaid_by D (w_pg w))) \<le>
      length (unpaid_by D (w_pg w)) - nat (ec_BatchSize cfg)"
    unfolding unpaid_by_def
    by (rule sorted_prefix_takes [OF dist _ rs_def]) (use D in \<open>auto simp: overdue_row_def split: option.splits\<close>)
  ultimately show ?thesis using w'(7,8) by auto
qed

interpretation expiry_drain: draining_sweep "returns (Sweeper_Sweep X cfg)" "\<lambda>w. 0 \<le> d \<and> draining cfg D p0 w"
    "\<lambda>w. length (unpaid_by D (w_pg w))" "nat (ec_BatchSize cfg)" d for X cfg D p0 d
proof
  fix w
  show "0 \<le> d \<and> draining cfg D p0 w \<Longrightarrow> \<exists>w'. returns (Sweeper_Sweep X cfg) w = (Returned (Inr ()), w') \<and> (0 \<le> d \<and> draining cfg D p0 w') \<and>
      length (unpaid_by D (w_pg w')) \<le> length (unpaid_by D (w_pg w)) - nat (ec_BatchSize cfg)"
    using expiry_sweep_drains [of cfg D p0 w X] by (auto simp: returns_def)
  show "0 \<le> d \<and> draining cfg D p0 w \<Longrightarrow> (0 \<le> d \<and> draining cfg D p0 (time_passes d w)) \<and>
      length (unpaid_by D (w_pg (time_passes d w))) = length (unpaid_by D (w_pg w))"
    by (auto simp: draining_def time_passes_def ids_suffice_def only_expires_def unpaid_by_def)
qed

text \<open>C31: The expiry sweeper catches up. With every call working, the boot sweep and \<open>k\<close> ticks of the loop expire every order
  that was to be paid by \<open>D\<close> when they are not more than \<open>k + 1\<close> batches, although later deadlines pass meanwhile; no
  sweep reports an error and orders that were not awaiting payment stay as they are.\<close>

theorem expiry_loop_drains:
  assumes nf: "w_faults w = []" and db: "db_ok (w_pg w)" and ids: "ids_suffice w" and d: "0 \<le> d"
    and D: "D \<le> pg_now (w_pg w) - ec_ExpiryGracePeriod cfg" and enough: "length (unpaid_by D (w_pg w)) \<le> nat (ec_BatchSize cfg) * Suc k"
  shows "\<exists>w'. runExpirySweeperLoop X cfg d (replicate k True) w = ([], w') \<and> unpaid_by D (w_pg w') = [] \<and>
    (\<forall>i r. lookup or_id i (pg_orders (w_pg w)) = Some r \<longrightarrow>
       (if overdue_row 0 D r then \<exists>u. lookup or_id i (pg_orders (w_pg w')) = Some (r\<lparr>or_status := Expired, or_updated := u\<rparr>)
        else or_status r = AwaitingPayment \<or> lookup or_id i (pg_orders (w_pg w')) = Some r))"
proof -
  have "draining cfg D (w_pg w) w" using assms by (simp add: draining_def only_expires_refl)
  then obtain w' where w': "runExpirySweeperLoop X cfg d (replicate k True) w = ([], w')" "only_expires (w_pg w) (w_pg w')"
    "length (unpaid_by D (w_pg w')) \<le> length (unpaid_by D (w_pg w)) - nat (ec_BatchSize cfg) * Suc k"
    using expiry_drain.loop_drains [where d = d and cfg = cfg and D = D and ?p0.0 = "w_pg w" and w = w and X = X and n = "''expiry_sweeper''" and k = k] d unfolding runExpirySweeperLoop_def by (auto simp: draining_def)
  have e: "unpaid_by D (w_pg w') = []" using w'(3) enough by simp
  have gone: "lookup or_id i (pg_orders (w_pg w')) \<noteq> Some r" if "overdue_row 0 D r" for i r
    using e that lookup_in_set [of or_id i "pg_orders (w_pg w')" r] by (auto simp: unpaid_by_def filter_empty_conv)
  have "if overdue_row 0 D r then \<exists>u. lookup or_id i (pg_orders (w_pg w')) = Some (r\<lparr>or_status := Expired, or_updated := u\<rparr>)
      else or_status r = AwaitingPayment \<or> lookup or_id i (pg_orders (w_pg w')) = Some r"
    if "lookup or_id i (pg_orders (w_pg w)) = Some r" for i r
    using w'(2) that gone [of r i] unfolding only_expires_def by (cases "overdue_row 0 D r") auto
  with w' e show ?thesis by blast
qed

lemma expiry_loop_drains_witness:
  "\<exists>w'. runExpirySweeperLoop plain_ext \<lparr>ec_SweepInterval = 30, ec_ExpiryGracePeriod = 2, ec_MaxAge = 1000, ec_BatchSize = 1\<rparr> 30 [True] demo_unpaid_world
     = ([], w') \<and> map or_status (pg_orders (w_pg w')) = [Expired] \<and> unpaid_by 50 (w_pg w') = []"
proof -
  let ?cfg = "\<lparr>ec_SweepInterval = 30, ec_ExpiryGracePeriod = 2, ec_MaxAge = 1000, ec_BatchSize = 1\<rparr>"
  have "w_faults demo_unpaid_world = []" "db_ok (w_pg demo_unpaid_world)" using demo_unpaid_ok
    by (simp_all add: sys_ok_def demo_unpaid_world_def demo_saga_world_def empty_world_def)
  moreover have "ids_suffice demo_unpaid_world" unfolding ids_suffice_def
    by (rule exI [of _ "[21]"]) code_simp
  moreover have "length (unpaid_by 50 (w_pg demo_unpaid_world)) \<le> nat (ec_BatchSize ?cfg) * Suc 1" "(50 :: int) \<le> pg_now (w_pg demo_unpaid_world) - ec_ExpiryGracePeriod ?cfg"
    by code_simp+
  moreover have "map or_status (pg_orders (w_pg (snd (runExpirySweeperLoop plain_ext ?cfg 30 [True] demo_unpaid_world)))) = [Expired]" by code_simp
  ultimately show ?thesis using expiry_loop_drains [of demo_unpaid_world 30 50 ?cfg 1 plain_ext] by fastforce
qed

end
