(* ===== verification/Ops_Health.thy ===== *)
theory Ops_Health
  imports State
begin

text \<open>
  The probes of the orchestrator, \<open>internal/infrastructure/api/ops/health.go\<close>: liveness, and readiness with one check per
  dependency. The checks run in goroutines of their own; \<open>sched\<close> is the order in which they take place. \<open>text\<close> is
  \<open>err.Error()\<close>.
\<close>

section \<open>Checks\<close>

record dependency_check =
  dc_name :: string
  dc_ping :: "world \<Rightarrow> err option \<times> world"

record dependency_check_result =
  dr_Name :: string
  dr_OK :: bool
  dr_Error :: string

definition zero_result :: dependency_check_result where
  "zero_result = \<lparr>dr_Name = '''', dr_OK = False, dr_Error = ''''\<rparr>"

definition health_check :: "(err \<Rightarrow> string) \<Rightarrow> string \<Rightarrow> err option \<Rightarrow> dependency_check_result" where
  "health_check text name e = (case e of
     Some x \<Rightarrow> \<lparr>dr_Name = name, dr_OK = False, dr_Error = text x\<rparr>
   | None \<Rightarrow> \<lparr>dr_Name = name, dr_OK = True, dr_Error = ''''\<rparr>)"

text \<open>Each goroutine writes the slot of its check.\<close>

fun run_goroutines :: "(err \<Rightarrow> string) \<Rightarrow> dependency_check list \<Rightarrow> nat list \<Rightarrow> dependency_check_result list \<times> world \<Rightarrow> dependency_check_result list \<times> world" where
  "run_goroutines text checks [] s = s"
| "run_goroutines text checks (i # is) (rs, w) = (case dc_ping (checks ! i) w of
     (e, w1) \<Rightarrow> run_goroutines text checks is (rs[i := health_check text (dc_name (checks ! i)) e], w1))"

definition runChecks :: "(err \<Rightarrow> string) \<Rightarrow> nat list \<Rightarrow> dependency_check list \<Rightarrow> world \<Rightarrow> dependency_check_result list \<times> world" where
  "runChecks text sched checks w = run_goroutines text checks sched (replicate (length checks) zero_result, w)"

text \<open>The ping of one store, and of the brokers one after the other until one answers.\<close>

definition store_ping :: "sentinel \<Rightarrow> world \<Rightarrow> err option \<times> world" where
  "store_ping s w = (case io w of (f, w1) \<Rightarrow> (if f = Works then None else Some (Sentinel s), w1))"

fun dial_brokers :: "string list \<Rightarrow> err list \<Rightarrow> world \<Rightarrow> err option \<times> world" where
  "dial_brokers [] errs w = (Some (Join errs), w)"
| "dial_brokers (addr # brokers) errs w = (case io w of
     (Works, w1) \<Rightarrow> (None, w1)
   | (_, w1) \<Rightarrow> dial_brokers brokers (errs @ [Wrap (''broker '' @ addr) (Sentinel BrokerUnavailable)]) w1)"

definition kafkaBrokerPing :: "string list \<Rightarrow> world \<Rightarrow> err option \<times> world" where
  "kafkaBrokerPing brokers w =
    (if brokers = [] then (Some (Plain ''no kafka brokers configured''), w) else dial_brokers brokers [] w)"

definition NewHealthHandler :: "string list \<Rightarrow> dependency_check list" where
  "NewHealthHandler brokers =
    [\<lparr>dc_name = ''postgres'', dc_ping = store_ping DbUnavailable\<rparr>,
     \<lparr>dc_name = ''redis'', dc_ping = store_ping RedisUnavailable\<rparr>,
     \<lparr>dc_name = ''kafka'', dc_ping = kafkaBrokerPing brokers\<rparr>]"

section \<open>The two probes\<close>

definition Live :: "nat \<times> string" where
  "Live = (200, ''ok'')"

definition statusText :: "bool \<Rightarrow> string" where
  "statusText ok = (if ok then ''ok'' else ''unavailable'')"

text \<open>The log line of a failed probe.\<close>

fun summarizeFailures :: "string \<Rightarrow> dependency_check_result list \<Rightarrow> string" where
  "summarizeFailures b [] = b"
| "summarizeFailures b (r # rs) =
    (if dr_OK r then summarizeFailures b rs
     else summarizeFailures ((if b \<noteq> [] then b @ ''; '' else b) @ dr_Name r @ ''='' @ dr_Error r) rs)"

definition Ready :: "(err \<Rightarrow> string) \<Rightarrow> nat list \<Rightarrow> dependency_check list \<Rightarrow> world \<Rightarrow>
    (nat \<times> string \<times> dependency_check_result list \<times> string option) \<times> world" where
  "Ready text sched checks w = (case runChecks text sched checks w of (results, w1) \<Rightarrow>
     (let overall = list_all dr_OK results
      in ((if overall then 200 else 503, statusText overall, results,
           if overall then None else Some (summarizeFailures '''' results)), w1)))"

section \<open>What a probe says\<close>

text \<open>Every ping looks at the world only.\<close>

definition harmless :: "dependency_check \<Rightarrow> bool" where
  "harmless c \<longleftrightarrow> (\<forall>w e w'. dc_ping c w = (e, w') \<longrightarrow> w_pg w' = w_pg w \<and> w_rd w' = w_rd w \<and> w_failed w' = w_failed w \<and> w_bus w' = w_bus w)"

lemma dial_brokers_frame:
  "dial_brokers bs errs w = (e, w') \<Longrightarrow> w_pg w' = w_pg w \<and> w_rd w' = w_rd w \<and> w_failed w' = w_failed w \<and> w_bus w' = w_bus w"
  by (induction bs errs w rule: dial_brokers.induct) (auto split: prod.splits fault.splits dest!: io_pair)

lemma dial_brokers_None:
  "w_faults w = fs \<Longrightarrow> fst (dial_brokers bs errs w) = None \<longleftrightarrow> (\<exists>i < length bs. i < length fs \<longrightarrow> fs ! i = Works)"
proof (induction bs arbitrary: errs w fs)
  case (Cons addr bs)
  show ?case
  proof (cases fs)
    case Nil
    then show ?thesis using Cons.prems by (auto simp: io_def)
  next
    case (Cons f gs)
    have io: "io w = (f, w\<lparr>w_faults := gs\<rparr>)" using Cons Cons.prems by (simp add: io_def)
    show ?thesis
    proof (cases "f = Works")
      case True
      then show ?thesis using io Cons by auto
    next
      case False
      then have "fst (dial_brokers (addr # bs) errs w) =
          fst (dial_brokers bs (errs @ [Wrap (''broker '' @ addr) (Sentinel BrokerUnavailable)]) (w\<lparr>w_faults := gs\<rparr>))"
        using io by (cases f) auto
      then show ?thesis using Cons.IH [of "w\<lparr>w_faults := gs\<rparr>" gs] False Cons by (auto simp: less_Suc_eq_0_disj)
    qed
  qed
qed simp

text \<open>A broker that answers makes Kafka ready, wherever it is in the list.\<close>

lemma kafka_ready_iff:
  "fst (kafkaBrokerPing bs w) = None \<longleftrightarrow> (\<exists>i < length bs. i < length (w_faults w) \<longrightarrow> w_faults w ! i = Works)"
  using dial_brokers_None [OF refl, of bs "[]" w] by (auto simp: kafkaBrokerPing_def)

lemma production_checks_harmless: "c \<in> set (NewHealthHandler bs) \<Longrightarrow> harmless c"
  by (auto simp: NewHealthHandler_def harmless_def store_ping_def kafkaBrokerPing_def split: prod.splits if_splits
      dest!: io_pair dial_brokers_frame)

text \<open>Whatever the order of the goroutines, the slot of every check that ran holds its name and outcome.\<close>

lemma run_goroutines_results:
  assumes "run_goroutines text checks is (rs, w) = (rs', w')" and "length rs = length checks" and "set is \<subseteq> {..<length checks}"
    and "distinct is"
  shows "length rs' = length checks \<and> (\<forall>i < length checks. if i \<in> set is
      then \<exists>v. rs' ! i = health_check text (dc_name (checks ! i)) (fst (dc_ping (checks ! i) v)) else rs' ! i = rs ! i)"
  using assms
proof (induction "is" arbitrary: rs w)
  case (Cons j js)
  obtain e w1 where p: "dc_ping (checks ! j) w = (e, w1)" by (metis surj_pair)
  let ?rs = "rs[j := health_check text (dc_name (checks ! j)) e]"
  have IH: "length rs' = length checks \<and> (\<forall>i < length checks. if i \<in> set js
      then \<exists>v. rs' ! i = health_check text (dc_name (checks ! i)) (fst (dc_ping (checks ! i) v)) else rs' ! i = ?rs ! i)"
    using Cons.IH [of ?rs w1] Cons.prems p by simp
  have "if i \<in> set (j # js) then \<exists>v. rs' ! i = health_check text (dc_name (checks ! i)) (fst (dc_ping (checks ! i) v))
      else rs' ! i = rs ! i" if i: "i < length checks" for i
  proof (cases "i = j")
    case True
    then have "rs' ! i = health_check text (dc_name (checks ! j)) e" using IH Cons.prems i by auto
    with p True show ?thesis by (auto intro!: exI [of _ w])
  qed (use IH i in \<open>auto split: if_splits\<close>)
  with IH show ?case by blast
qed simp

text \<open>The answer is 200 exactly when every check passed, and the body lists the checks in their order, each with the
  outcome of its own ping; liveness depends on nothing.\<close>

lemma readiness_is_exact:
  assumes run: "Ready text sched checks w = ((code, st, results, line), w')" and sched: "distinct sched" "set sched = {..<length checks}"
  shows "map dr_Name results = map dc_name checks \<and>
    (\<forall>i < length checks. \<exists>v. dr_OK (results ! i) = (fst (dc_ping (checks ! i) v) = None)) \<and>
    (code = 200 \<longleftrightarrow> list_all dr_OK results) \<and> (code = 503 \<longleftrightarrow> \<not> list_all dr_OK results) \<and> (line = None \<longleftrightarrow> code = 200)"
proof -
  have r: "run_goroutines text checks sched (replicate (length checks) zero_result, w) = (results, w')"
    using run by (auto simp: Ready_def runChecks_def Let_def split: prod.splits)
  have rr: "length results = length checks" "\<forall>i < length checks. \<exists>v. results ! i = health_check text (dc_name (checks ! i)) (fst (dc_ping (checks ! i) v))"
    using run_goroutines_results [OF r] sched by auto
  have "dr_Name (health_check text n e) = n" "dr_OK (health_check text n e) = (e = None)" for n e
    by (cases e; simp add: health_check_def)+
  then have "\<forall>i < length checks. dr_Name (results ! i) = dc_name (checks ! i) \<and>
      (\<exists>v. dr_OK (results ! i) = (fst (dc_ping (checks ! i) v) = None))" using rr(2) by metis
  with rr(1) run show ?thesis by (auto simp: Ready_def Let_def intro!: nth_equalityI split: prod.splits if_splits)
qed

lemma readiness_harmless:
  assumes "run_goroutines text checks is (rs, w) = (rs', w')" and "list_all harmless checks" and "set is \<subseteq> {..<length checks}"
  shows "w_pg w' = w_pg w \<and> w_rd w' = w_rd w \<and> w_failed w' = w_failed w \<and> w_bus w' = w_bus w"
  using assms
proof (induction "is" arbitrary: rs w)
  case (Cons j js)
  obtain e w1 where p: "dc_ping (checks ! j) w = (e, w1)" by (metis surj_pair)
  have "harmless (checks ! j)" using Cons.prems by (simp add: list_all_length)
  then have "w_pg w1 = w_pg w \<and> w_rd w1 = w_rd w \<and> w_failed w1 = w_failed w \<and> w_bus w1 = w_bus w"
    using p by (auto simp: harmless_def)
  with Cons.IH [of _ w1] Cons.prems p show ?case by auto
qed simp

text \<open>A probe with the brokers down: the stores are fine, the body names the dependency and each broker.\<close>

lemma readiness_demo:
  "(let ((code, st, rs, line), w') = Ready (\<lambda>_. ''down'') [2, 0, 1] (NewHealthHandler [''a'', ''b'']) (empty_world\<lparr>w_faults := [Lost, Lost]\<rparr>)
    in code = 503 \<and> map dr_OK rs = [True, True, False] \<and> line = Some ''kafka=down'')"
  by code_simp

end
