(* ===== verification/Test_Payment.thy ===== *)
theory Test_Payment
  imports Payment Configuration
begin

text \<open>
  The payment endpoint of the test environment, \<open>internal/infrastructure/api/testapi/payment_confirm.go\<close> and \<open>module.go\<close>:
  it builds the event that the provider would send, signs it with the webhook secret and posts it to the server's own
  webhook. \<open>mac\<close> is the hexadecimal HMAC-SHA256, \<open>marshal\<close> the JSON encoder, \<open>hook\<close> the webhook at the other end.
\<close>

section \<open>The envelope and its signature\<close>

definition buildEnvelope :: "ext \<Rightarrow> string \<Rightarrow> uuid \<Rightarrow> string \<Rightarrow> int \<Rightarrow> string \<Rightarrow> string \<Rightarrow> time \<Rightarrow> envelope" where
  "buildEnvelope X evt orderID intentID amount cur outcome now =
    (let failed = (outcome = ''failed'') in
     \<lparr>env_ID = ''evt_test_'' @ evt,
      env_Type = (if failed then ''payment_intent.payment_failed'' else ''payment_intent.succeeded''),
      env_Created = now, env_LiveMode = False,
      env_Data = \<lparr>ed_Object = \<lparr>po_ID = intentID,
        po_Status = (if failed then ''requires_payment_method'' else ''succeeded''),
        po_AmountCents = amount, po_Currency = cur, po_Metadata = Some [''order_id'' \<mapsto> uuid_String X orderID],
        po_LastPaymentError = (if failed then Some \<lparr>le_Code = ''card_declined'',
          le_Message = ''simulated decline from /test/payment/confirm''\<rparr> else None)\<rparr>\<rparr>\<rparr>)"

definition signEnvelope :: "(string \<Rightarrow> string \<Rightarrow> string) \<Rightarrow> string \<Rightarrow> string \<Rightarrow> time \<Rightarrow> string" where
  "signEnvelope mac secret body now =
    (let tsec = strconv_Itoa now in ''t='' @ tsec @ '',v1='' @ mac secret (tsec @ ''.'' @ body))"

section \<open>The handler\<close>

type_synonym webhook_port = "string \<Rightarrow> string \<Rightarrow> world \<Rightarrow> nat \<times> world"

definition postToWebhook :: "webhook_port \<Rightarrow> string \<Rightarrow> string \<Rightarrow> world \<Rightarrow> (err + nat) \<times> world" where
  "postToWebhook hook body sig w = (case io w of
     (Works, w1) \<Rightarrow> (case hook body sig w1 of (code, w2) \<Rightarrow> (Inr code, w2))
   | (Lost, w1) \<Rightarrow> (Inl (Wrap ''testapi.postToWebhook Do'' (Plain ''http'')), w1)
   | (Unacked, w1) \<Rightarrow> (case hook body sig w1 of (code, w2) \<Rightarrow> (Inl (Wrap ''testapi.postToWebhook Do'' (Plain ''http'')), w2)))"

text \<open>The answer: the status code, and for a forwarded event the one of the webhook.\<close>

definition HandleConfirmPayment ::
    "ext \<Rightarrow> (string \<Rightarrow> string \<Rightarrow> string) \<Rightarrow> (envelope \<Rightarrow> string option) \<Rightarrow> string \<Rightarrow> webhook_port \<Rightarrow>
     string \<Rightarrow> string \<Rightarrow> string \<Rightarrow> world \<Rightarrow> (nat \<times> nat option) \<times> world" where
  "HandleConfirmPayment X mac marshal secret hook evt param outcome w = (case uuid_Parse X param of
     None \<Rightarrow> ((400, None), w)
   | Some orderID \<Rightarrow>
      if outcome \<noteq> ''succeeded'' \<and> outcome \<noteq> ''failed'' then ((400, None), w)
      else (case orderRepo_GetByID orderID w of
        (Inl e, w1) \<Rightarrow> (if errors_Is e ErrOrderNotFound then ((404, None), w1) else ((500, None), w1))
      | (Inr o', w1) \<Rightarrow>
         if paymentIntentID o' = '''' then ((409, None), w1)
         else (case marshal (buildEnvelope X evt orderID (paymentIntentID o') (amountCents o') (currency o') outcome (w_now w1)) of
           None \<Rightarrow> ((500, None), w1)
         | Some body \<Rightarrow> (case postToWebhook hook body (signEnvelope mac secret body (w_now w1)) w1 of
              (Inl e, w2) \<Rightarrow> ((502, None), w2)
            | (Inr code, w2) \<Rightarrow> ((200, Some code), w2)))))"

text \<open>The handler is built at every start, whether its route is mounted or not, and needs the legacy secret.\<close>

definition testapi_newHandlerFromConfig :: "config \<Rightarrow> err + string \<times> string" where
  "testapi_newHandlerFromConfig c =
    (if py_WebhookSecret (cfg_Payment c) = '''' then Inl (Plain ''testapi: PAYMENT_WEBHOOK_SECRET is empty'')
     else let target = py_WebhookLoopbackURL (cfg_Payment c) in
       Inr (py_WebhookSecret (cfg_Payment c),
            if target = '''' then ''http://127.0.0.1:'' @ sv_Port (cfg_Server c) @ ''/webhook/payment'' else target))"

section \<open>What it does\<close>

lemma GetByID_order: "orderRepo_GetByID i w = (Inr o', w') \<Longrightarrow> \<exists>r. lookup or_id i (pg_orders (w_pg w)) = Some r \<and> o' = order_toDomain r"
  by (rule GetByID_result)

text \<open>The endpoint itself changes nothing: a request that is not forwarded leaves the world as it is but for the reads.\<close>

lemma not_forwarded_changes_nothing:
  assumes "HandleConfirmPayment X mac marshal secret hook evt param outcome w = ((code, fwd), w')" and "code \<noteq> 200" and "code \<noteq> 502"
  shows "w_pg w' = w_pg w \<and> w_rd w' = w_rd w \<and> w_failed w' = w_failed w"
  using assms
  by (auto simp: HandleConfirmPayment_def split: option.splits if_splits prod.splits sum.splits dest!: GetByID_frame)

text \<open>A forwarded event goes the way of a real one. When the webhook reads back what the encoder wrote, whatever calls
  fail, the database changes only as the event demands: it settles one order that the event names, by its intent or by
  the id of the request, as a delivery of the provider would.\<close>

lemma confirm_is_a_delivery:
  assumes run: "HandleConfirmPayment X mac marshal secret (\<lambda>body sig. HandlePayment X validate parse key tol live (Some body) sig) evt param outcome w
      = (res, w')" and ok: "sys_ok w" and codec: "\<And>env b. marshal env = Some b \<Longrightarrow> parse b = Some env"
  shows "w_rd w' = w_rd w \<and> w_failed w' = w_failed w \<and> (w_pg w' = w_pg w \<or> \<not> live \<and> (\<exists>i q now r. uuid_Parse X param = Some i \<and>
    lookup or_id i (pg_orders (w_pg w)) = Some q \<and> webhook_effect X (buildEnvelope X evt i (paymentIntentID (order_toDomain q))
      (amountCents (order_toDomain q)) (currency (order_toDomain q)) outcome now) r (w_pg w) (w_pg w')))"
proof -
  let ?hook = "\<lambda>body sig. HandlePayment X validate parse key tol live (Some body) sig"
  have hook: "w_rd v' = w_rd v \<and> w_failed v' = w_failed v \<and> (w_pg v' = w_pg v \<or> \<not> live \<and> (\<exists>r. webhook_effect X env r (w_pg v) (w_pg v')))"
    if "?hook b sig v = (c, v')" "sys_ok v" "marshal env = Some b" "\<not> env_LiveMode env" for b sig v c v' env
    using that(1) codec [OF that(3)] that(4) HandleWebhook_outcome [OF _ that(2), of X live env]
    by (auto simp: HandlePayment_def Let_def split: option.splits if_splits prod.splits sum.splits)
  have post: "w_rd v' = w_rd v \<and> w_failed v' = w_failed v \<and> (w_pg v' = w_pg v \<or> \<not> live \<and> (\<exists>r. webhook_effect X env r (w_pg v) (w_pg v')))"
    if p: "postToWebhook ?hook b sig v = (x, v')" and vk: "sys_ok v" and m: "marshal env = Some b" and lm: "\<not> env_LiveMode env" for b sig v x v' env
  proof -
    obtain f v1 where io: "io v = (f, v1)" by (metis surj_pair)
    note fr = io_pair [OF io]
    have "sys_ok v1" using vk fr by (simp add: sys_ok_def events_ok_def)
    with p io fr hook [OF _ _ m lm, of sig v1] show ?thesis by (cases f) (auto simp: postToWebhook_def split: prod.splits)
  qed
  show ?thesis
  proof (cases "\<exists>i o' w1 body. uuid_Parse X param = Some i \<and> orderRepo_GetByID i w = (Inr o', w1) \<and> (outcome = ''succeeded'' \<or> outcome = ''failed'') \<and>
      paymentIntentID o' \<noteq> '''' \<and> marshal (buildEnvelope X evt i (paymentIntentID o') (amountCents o') (currency o') outcome (w_now w1)) = Some body")
    case False
    then have "w_pg w' = w_pg w \<and> w_rd w' = w_rd w \<and> w_failed w' = w_failed w" using run
      by (auto simp: HandleConfirmPayment_def split: option.splits if_splits prod.splits sum.splits dest!: GetByID_frame)
    then show ?thesis by simp
  next
    case True
    then obtain i o' w1 body where h: "uuid_Parse X param = Some i" "orderRepo_GetByID i w = (Inr o', w1)" "outcome = ''succeeded'' \<or> outcome = ''failed''"
      "paymentIntentID o' \<noteq> ''''"
      and m: "marshal (buildEnvelope X evt i (paymentIntentID o') (amountCents o') (currency o') outcome (w_now w1)) = Some body" by blast
    let ?env = "buildEnvelope X evt i (paymentIntentID o') (amountCents o') (currency o') outcome (w_now w1)"
    obtain q where q: "lookup or_id i (pg_orders (w_pg w)) = Some q" "o' = order_toDomain q" using GetByID_order [OF h(2)] by blast
    note f1 = GetByID_frame [OF h(2)]
    have "sys_ok w1" using ok f1 by (simp add: sys_ok_def events_ok_def)
    moreover obtain x where "postToWebhook ?hook body (signEnvelope mac secret body (w_now w1)) w1 = (x, w')"
      using run h m by (auto simp: HandleConfirmPayment_def split: prod.splits sum.splits)
    moreover have "\<not> env_LiveMode ?env" by (simp add: buildEnvelope_def Let_def)
    ultimately show ?thesis using post [OF _ _ m] h(1) q f1 by metis
  qed
qed

text \<open>The signature names the time that it covers, so a verifier that computes the same code from the header accepts it.\<close>

lemma signature_verifies:
  "\<exists>ts. signEnvelope mac secret body now = ''t='' @ ts @ '',v1='' @ mac secret (ts @ ''.'' @ body) \<and> ts = strconv_Itoa now"
  by (simp add: signEnvelope_def Let_def)

text \<open>The whole flow on one order: the confirmation pays it; an order without an intent is refused.\<close>

lemma confirm_demo:
  "(let hook = (\<lambda>body sig. HandleWebhook plain_ext False (buildEnvelope plain_ext ''1'' 9 ''pi_9'' 500 ''usd'' ''succeeded'' 100));
        world = demo_pay_world\<lparr>w_pg := (w_pg demo_pay_world)\<lparr>pg_orders := [demo_unpaid\<lparr>or_intent := Some ''pi_9''\<rparr>]\<rparr>\<rparr>;
        (res, w') = HandleConfirmPayment plain_ext (\<lambda>_ _. ''00'') (\<lambda>_. Some ''{}'') ''s''
          (\<lambda>body sig w. case hook body sig w of (r, w1) \<Rightarrow> (if is_ok r then 200 else 500, w1)) ''1'' (uuid_String plain_ext 9) ''succeeded'' world
    in res = (200, Some 200) \<and> map or_status (pg_orders (w_pg w')) = [Paid])"
  "fst (HandleConfirmPayment plain_ext (\<lambda>_ _. ''00'') (\<lambda>_. Some ''{}'') ''s'' (\<lambda>_ _ w. (200, w)) ''1'' (uuid_String plain_ext 9) ''succeeded'' demo_pay_world)
     = (409, None)"
  by code_simp+

end
