(* ===== verification/Tracing.thy ===== *)
theory Tracing
  imports Event_Inventory Booking Outbox Api_Booking
begin

text \<open>
  The tracing decorators of the repositories (\<open>infrastructure/persistence/postgres/repositories_tracing.go\<close>), the booking
  service (\<open>application/booking/service_tracing.go\<close>), the booking handlers (\<open>infrastructure/api/booking/handler_tracing.go\<close>)
  and the relay (\<open>application/outbox/relay_tracing.go\<close>). The trace is the list of the spans that ended; \<open>durs\<close> is
  \<open>time.Duration.String\<close>.
\<close>

section \<open>Spans\<close>

record span =
  sp_name :: string
  sp_attrs :: "(string \<times> string) list"
  sp_recorded :: "err option"
  sp_red :: bool

type_synonym 's traced = "span list \<times> 's"

text \<open>Start a span, delegate, record the error, end the span. \<open>late\<close> are the attributes set from the result, \<open>red\<close> says
  whether an error also sets the status of the span.\<close>

definition in_span ::
    "string \<Rightarrow> (string \<times> string) list \<Rightarrow> (err + 'a \<Rightarrow> (string \<times> string) list) \<Rightarrow> bool \<Rightarrow> ('s \<Rightarrow> (err + 'a) \<times> 's) \<Rightarrow> 's traced \<Rightarrow> (err + 'a) \<times> 's traced" where
  "in_span name attrs late red call s = (case s of (sps, w) \<Rightarrow> (case call w of (r, w1) \<Rightarrow>
     (r, sps @ [\<lparr>sp_name = name, sp_attrs = attrs @ late r, sp_recorded = (case r of Inl e \<Rightarrow> Some e | Inr _ \<Rightarrow> None),
        sp_red = (red \<and> \<not> is_ok r)\<rparr>], w1)))"

abbreviation no_late :: "err + 'a \<Rightarrow> (string \<times> string) list" where
  "no_late \<equiv> \<lambda>_. []"

definition count_of :: "string \<Rightarrow> err + 'a list \<Rightarrow> (string \<times> string) list" where
  "count_of key r = (case r of Inl _ \<Rightarrow> [] | Inr xs \<Rightarrow> [(key, show_nat (length xs))])"

text \<open>\<open>len\<close> of the nil slice that comes with an error is 0.\<close>

definition found_of :: "err + 'a list \<Rightarrow> (string \<times> string) list" where
  "found_of r = [(''found'', show_nat (case r of Inl _ \<Rightarrow> 0 | Inr xs \<Rightarrow> length xs))]"

definition status_attr :: "order_status option \<Rightarrow> string" where
  "status_attr st = (case st of None \<Rightarrow> '''' | Some s \<Rightarrow> status_string s)"

section \<open>Events\<close>

definition traced_eventRepo_Create :: "ext \<Rightarrow> event \<Rightarrow> world traced \<Rightarrow> (err + event) \<times> world traced" where
  "traced_eventRepo_Create X e = in_span ''CreateEvent'' [(''event_id'', uuid_String X (ev_id e))] no_late False (eventRepo_Create e)"

definition traced_eventRepo_GetByID :: "ext \<Rightarrow> uuid \<Rightarrow> world traced \<Rightarrow> (err + event) \<times> world traced" where
  "traced_eventRepo_GetByID X i = in_span ''GetByID'' [(''event_id'', uuid_String X i)] no_late False (eventRepo_GetByID i)"

definition traced_eventRepo_GetByIDForUpdate :: "ext \<Rightarrow> uuid \<Rightarrow> world traced \<Rightarrow> (err + event) \<times> world traced" where
  "traced_eventRepo_GetByIDForUpdate X i = in_span ''GetByIDForUpdate'' [(''event_id'', uuid_String X i)] no_late False (eventRepo_GetByIDForUpdate i)"

definition traced_eventRepo_DecrementTicket :: "ext \<Rightarrow> uuid \<Rightarrow> int \<Rightarrow> world traced \<Rightarrow> (err + unit) \<times> world traced" where
  "traced_eventRepo_DecrementTicket X i q = in_span ''DecrementTicket'' [(''event_id'', uuid_String X i), (''quantity'', strconv_Itoa q)] no_late False (eventRepo_DecrementTicket i q)"

definition traced_eventRepo_ListAvailable :: "world traced \<Rightarrow> (err + event list) \<times> world traced" where
  "traced_eventRepo_ListAvailable = in_span ''ListAvailable'' [] (count_of ''count'') False (eventRepo_ListAvailable)"

definition traced_eventRepo_IncrementTicket :: "ext \<Rightarrow> uuid \<Rightarrow> int \<Rightarrow> world traced \<Rightarrow> (err + unit) \<times> world traced" where
  "traced_eventRepo_IncrementTicket X i q = in_span ''IncrementTicket'' [(''event_id'', uuid_String X i), (''quantity'', strconv_Itoa q)] no_late False (eventRepo_IncrementTicket i q)"

definition traced_eventRepo_Update :: "ext \<Rightarrow> event \<Rightarrow> world traced \<Rightarrow> (err + unit) \<times> world traced" where
  "traced_eventRepo_Update X e = in_span ''UpdateEvent'' [(''event_id'', uuid_String X (ev_id e))] no_late False (eventRepo_Update e)"

definition traced_eventRepo_Delete :: "ext \<Rightarrow> uuid \<Rightarrow> world traced \<Rightarrow> (err + unit) \<times> world traced" where
  "traced_eventRepo_Delete X i = in_span ''DeleteEvent'' [(''event_id'', uuid_String X i)] no_late False (eventRepo_Delete i)"

section \<open>Orders\<close>

definition traced_orderRepo_Create :: "ext \<Rightarrow> order \<Rightarrow> world traced \<Rightarrow> (err + order) \<times> world traced" where
  "traced_orderRepo_Create X o' = in_span ''CreateOrder'' [(''user_id'', strconv_Itoa (userID o')), (''event_id'', uuid_String X (eventID o'))] no_late False (orderRepo_Create o')"

definition traced_orderRepo_GetByID :: "ext \<Rightarrow> uuid \<Rightarrow> world traced \<Rightarrow> (err + order) \<times> world traced" where
  "traced_orderRepo_GetByID X i = in_span ''GetOrderByID'' [(''order_id'', uuid_String X i)] no_late False (orderRepo_GetByID i)"

definition traced_orderRepo_ListOrders :: "int \<Rightarrow> int \<Rightarrow> order_status option \<Rightarrow> world traced \<Rightarrow> (err + order list \<times> nat) \<times> world traced" where
  "traced_orderRepo_ListOrders limit offset st = in_span ''ListOrders'' [(''limit'', strconv_Itoa limit), (''offset'', strconv_Itoa offset), (''status'', status_attr st)] no_late False (orderRepo_ListOrders limit offset st)"

definition traced_orderRepo_FindStuckCharging :: "(duration \<Rightarrow> string) \<Rightarrow> duration \<Rightarrow> int \<Rightarrow> world traced \<Rightarrow> (err + (uuid \<times> duration \<times> string) list) \<times> world traced" where
  "traced_orderRepo_FindStuckCharging durs age limit = in_span ''FindStuckCharging'' [(''min_age'', durs age), (''limit'', strconv_Itoa limit)] found_of False (orderRepo_FindStuckCharging age limit)"

definition traced_orderRepo_FindStuckFailed :: "(duration \<Rightarrow> string) \<Rightarrow> duration \<Rightarrow> int \<Rightarrow> world traced \<Rightarrow> (err + (uuid \<times> duration) list) \<times> world traced" where
  "traced_orderRepo_FindStuckFailed durs age limit = in_span ''FindStuckFailed'' [(''min_age'', durs age), (''limit'', strconv_Itoa limit)] found_of False (orderRepo_FindStuckFailed age limit)"

definition traced_orderRepo_FindExpiredReservations :: "(duration \<Rightarrow> string) \<Rightarrow> duration \<Rightarrow> int \<Rightarrow> world traced \<Rightarrow> (err + (uuid \<times> duration) list) \<times> world traced" where
  "traced_orderRepo_FindExpiredReservations durs age limit = in_span ''FindExpiredReservations'' [(''grace_period'', durs age), (''limit'', strconv_Itoa limit)] found_of False (orderRepo_FindExpiredReservations age limit)"

definition traced_orderRepo_CountOverdueAfterCutoff :: "(duration \<Rightarrow> string) \<Rightarrow> duration \<Rightarrow> world traced \<Rightarrow> (err + nat \<times> duration) \<times> world traced" where
  "traced_orderRepo_CountOverdueAfterCutoff durs grace = in_span ''CountOverdueAfterCutoff'' [(''grace_period'', durs grace)] (\<lambda>r. [(''backlog_count'', show_nat (case r of Inl _ \<Rightarrow> 0 | Inr x \<Rightarrow> fst x))]) False (orderRepo_CountOverdueAfterCutoff grace)"

definition traced_orderRepo_MarkCharging :: "ext \<Rightarrow> uuid \<Rightarrow> world traced \<Rightarrow> (err + unit) \<times> world traced" where
  "traced_orderRepo_MarkCharging X i = in_span ''MarkOrderCharging'' [(''order_id'', uuid_String X i)] no_late False (orderRepo_MarkCharging i)"

definition traced_orderRepo_MarkConfirmed :: "ext \<Rightarrow> uuid \<Rightarrow> world traced \<Rightarrow> (err + unit) \<times> world traced" where
  "traced_orderRepo_MarkConfirmed X i = in_span ''MarkOrderConfirmed'' [(''order_id'', uuid_String X i)] no_late False (orderRepo_MarkConfirmed i)"

definition traced_orderRepo_MarkFailed :: "ext \<Rightarrow> uuid \<Rightarrow> world traced \<Rightarrow> (err + unit) \<times> world traced" where
  "traced_orderRepo_MarkFailed X i = in_span ''MarkOrderFailed'' [(''order_id'', uuid_String X i)] no_late False (orderRepo_MarkFailed i)"

definition traced_orderRepo_MarkCompensated :: "ext \<Rightarrow> uuid \<Rightarrow> world traced \<Rightarrow> (err + unit) \<times> world traced" where
  "traced_orderRepo_MarkCompensated X i = in_span ''MarkOrderCompensated'' [(''order_id'', uuid_String X i)] no_late False (orderRepo_MarkCompensated i)"

definition traced_orderRepo_MarkAwaitingPayment :: "ext \<Rightarrow> uuid \<Rightarrow> world traced \<Rightarrow> (err + unit) \<times> world traced" where
  "traced_orderRepo_MarkAwaitingPayment X i = in_span ''MarkOrderAwaitingPayment'' [(''order_id'', uuid_String X i)] no_late False (orderRepo_MarkAwaitingPayment i)"

definition traced_orderRepo_MarkPaid :: "ext \<Rightarrow> uuid \<Rightarrow> world traced \<Rightarrow> (err + unit) \<times> world traced" where
  "traced_orderRepo_MarkPaid X i = in_span ''MarkOrderPaid'' [(''order_id'', uuid_String X i)] no_late False (orderRepo_MarkPaid i)"

definition traced_orderRepo_MarkExpired :: "ext \<Rightarrow> uuid \<Rightarrow> world traced \<Rightarrow> (err + unit) \<times> world traced" where
  "traced_orderRepo_MarkExpired X i = in_span ''MarkOrderExpired'' [(''order_id'', uuid_String X i)] no_late False (orderRepo_MarkExpired i)"

definition traced_orderRepo_MarkPaymentFailed :: "ext \<Rightarrow> uuid \<Rightarrow> world traced \<Rightarrow> (err + unit) \<times> world traced" where
  "traced_orderRepo_MarkPaymentFailed X i = in_span ''MarkOrderPaymentFailed'' [(''order_id'', uuid_String X i)] no_late False (orderRepo_MarkPaymentFailed i)"

definition traced_orderRepo_SetPaymentIntentID :: "ext \<Rightarrow> uuid \<Rightarrow> string \<Rightarrow> world traced \<Rightarrow> (err + unit) \<times> world traced" where
  "traced_orderRepo_SetPaymentIntentID X i intent = in_span ''SetPaymentIntentID'' [(''order_id'', uuid_String X i)] no_late False (orderRepo_SetPaymentIntentID i intent)"

definition traced_orderRepo_FindByPaymentIntentID :: "string \<Rightarrow> world traced \<Rightarrow> (err + order) \<times> world traced" where
  "traced_orderRepo_FindByPaymentIntentID intent = in_span ''FindByPaymentIntentID'' [] no_late False (orderRepo_FindByPaymentIntentID intent)"

section \<open>Ticket types\<close>

definition traced_ticketTypeRepo_Create :: "ext \<Rightarrow> ticket_type \<Rightarrow> world traced \<Rightarrow> (err + ticket_type) \<times> world traced" where
  "traced_ticketTypeRepo_Create X t = in_span ''CreateTicketType'' [(''ticket_type_id'', uuid_String X (tt_id t)), (''event_id'', uuid_String X (tt_eventID t))] no_late False (ticketTypeRepo_Create X t)"

definition traced_ticketTypeRepo_GetByID :: "ext \<Rightarrow> uuid \<Rightarrow> world traced \<Rightarrow> (err + ticket_type) \<times> world traced" where
  "traced_ticketTypeRepo_GetByID X i = in_span ''GetTicketTypeByID'' [(''ticket_type_id'', uuid_String X i)] no_late False (ticketTypeRepo_GetByID X i)"

definition traced_ticketTypeRepo_Delete :: "ext \<Rightarrow> uuid \<Rightarrow> world traced \<Rightarrow> (err + unit) \<times> world traced" where
  "traced_ticketTypeRepo_Delete X i = in_span ''DeleteTicketType'' [(''ticket_type_id'', uuid_String X i)] no_late False (ticketTypeRepo_Delete i)"

definition traced_ticketTypeRepo_ListByEventID :: "ext \<Rightarrow> uuid \<Rightarrow> world traced \<Rightarrow> (err + ticket_type list) \<times> world traced" where
  "traced_ticketTypeRepo_ListByEventID X ev = in_span ''ListTicketTypesByEventID'' [(''event_id'', uuid_String X ev)] (count_of ''count'') False (ticketTypeRepo_ListByEventID X ev)"

definition traced_ticketTypeRepo_DecrementTicket :: "ext \<Rightarrow> uuid \<Rightarrow> int \<Rightarrow> world traced \<Rightarrow> (err + unit) \<times> world traced" where
  "traced_ticketTypeRepo_DecrementTicket X i q = in_span ''DecrementTicketType'' [(''ticket_type_id'', uuid_String X i), (''quantity'', strconv_Itoa q)] no_late False (ticketTypeRepo_DecrementTicket i q)"

definition traced_ticketTypeRepo_IncrementTicket :: "ext \<Rightarrow> uuid \<Rightarrow> int \<Rightarrow> world traced \<Rightarrow> (err + unit) \<times> world traced" where
  "traced_ticketTypeRepo_IncrementTicket X i q = in_span ''IncrementTicketType'' [(''ticket_type_id'', uuid_String X i), (''quantity'', strconv_Itoa q)] no_late False (ticketTypeRepo_IncrementTicket i q)"

definition traced_ticketTypeRepo_SumAvailableByEventID :: "ext \<Rightarrow> uuid \<Rightarrow> world traced \<Rightarrow> (err + int) \<times> world traced" where
  "traced_ticketTypeRepo_SumAvailableByEventID X ev = in_span ''SumAvailableByEventIDTicketType'' [(''event_id'', uuid_String X ev)] (\<lambda>r. case r of Inl _ \<Rightarrow> [] | Inr n \<Rightarrow> [(''sum'', strconv_Itoa n)]) False (ticketTypeRepo_SumAvailableByEventID ev)"

section \<open>Compensations\<close>

definition traced_sagaRepo_RecordCompletion :: "string \<Rightarrow> uuid \<Rightarrow> world traced \<Rightarrow> (err + nat) \<times> world traced" where
  "traced_sagaRepo_RecordCompletion cid i = in_span ''SagaCompRecordCompletion'' [(''compensation_id'', cid)] no_late True (sagaRepo_RecordCompletion cid i)"

definition traced_sagaRepo_WasRedisReverted :: "string \<Rightarrow> world traced \<Rightarrow> (err + bool) \<times> world traced" where
  "traced_sagaRepo_WasRedisReverted cid = in_span ''SagaCompWasRedisReverted'' [(''compensation_id'', cid)] no_late True (sagaRepo_WasRedisReverted cid)"

definition traced_sagaRepo_MarkRedisReverted :: "string \<Rightarrow> world traced \<Rightarrow> (err + unit) \<times> world traced" where
  "traced_sagaRepo_MarkRedisReverted cid = in_span ''SagaCompMarkRedisReverted'' [(''compensation_id'', cid)] no_late True (sagaRepo_MarkRedisReverted cid)"

section \<open>The booking service, the relay and the handlers\<close>

text \<open>The service is a parameter: the decorator wraps whichever implementation the stage provides. The attribute
  \<open>event_id\<close> is given the third argument of \<open>BookTicket\<close>, which is the ticket type.\<close>

definition traced_BookTicket ::
    "ext \<Rightarrow> (int \<Rightarrow> uuid \<Rightarrow> int \<Rightarrow> 's \<Rightarrow> (err + order) \<times> 's) \<Rightarrow> int \<Rightarrow> uuid \<Rightarrow> int \<Rightarrow> 's traced \<Rightarrow> (err + order) \<times> 's traced" where
  "traced_BookTicket X service user tt qty =
    in_span ''BookTicket'' [(''user_id'', strconv_Itoa user), (''event_id'', uuid_String X tt), (''quantity'', strconv_Itoa qty)]
      (\<lambda>r. case r of Inl _ \<Rightarrow> [] | Inr o' \<Rightarrow> [(''order_id'', uuid_String X (id_of o'))]) True (service user tt qty)"

definition traced_GetBookingHistory ::
    "(int \<Rightarrow> int \<Rightarrow> order_status option \<Rightarrow> 's \<Rightarrow> (err + order list \<times> nat) \<times> 's) \<Rightarrow> int \<Rightarrow> int \<Rightarrow> order_status option \<Rightarrow> 's traced \<Rightarrow>
     (err + order list \<times> nat) \<times> 's traced" where
  "traced_GetBookingHistory service page pageSize st =
    in_span ''GetBookingHistory'' [(''page'', strconv_Itoa page), (''page_size'', strconv_Itoa pageSize), (''status'', status_attr st)]
      no_late True (service page pageSize st)"

definition traced_GetOrder ::
    "ext \<Rightarrow> (uuid \<Rightarrow> 's \<Rightarrow> (err + order) \<times> 's) \<Rightarrow> uuid \<Rightarrow> 's traced \<Rightarrow> (err + order) \<times> 's traced" where
  "traced_GetOrder X service i = in_span ''GetOrder'' [(''order_id'', uuid_String X i)] no_late True (service i)"

definition processBatchTraced :: "int \<Rightarrow> world traced \<Rightarrow> (err + unit) \<times> world traced" where
  "processBatchTraced batchSize = in_span ''Relay.processBatch'' [] no_late True (relay_processBatch batchSize)"

definition recordHTTPResult :: "int \<Rightarrow> span \<Rightarrow> span" where
  "recordHTTPResult st sp = sp\<lparr>sp_attrs := sp_attrs sp @ [(''http.status_code'', strconv_Itoa st)], sp_red := sp_red sp \<or> st \<ge> 400\<rparr>"

definition in_http_span :: "string \<Rightarrow> (string \<times> string) list \<Rightarrow> ('s \<Rightarrow> response \<times> 's) \<Rightarrow> 's traced \<Rightarrow> response \<times> 's traced" where
  "in_http_span name attrs call s = (case s of (sps, w) \<Rightarrow> (case call w of (resp, w1) \<Rightarrow>
     (resp, sps @ [recordHTTPResult (rs_Status resp) \<lparr>sp_name = name, sp_attrs = attrs, sp_recorded = None, sp_red = False\<rparr>], w1)))"

definition traced_HandleBook :: "('s \<Rightarrow> response \<times> 's) \<Rightarrow> 's traced \<Rightarrow> response \<times> 's traced" where
  "traced_HandleBook = in_http_span ''HandleBook'' []"

definition traced_HandleGetOrder :: "string \<Rightarrow> ('s \<Rightarrow> response \<times> 's) \<Rightarrow> 's traced \<Rightarrow> response \<times> 's traced" where
  "traced_HandleGetOrder rawID = in_http_span ''HandleGetOrder'' [(''order_id'', rawID)]"

definition traced_HandleListBookings :: "('s \<Rightarrow> response \<times> 's) \<Rightarrow> 's traced \<Rightarrow> response \<times> 's traced" where
  "traced_HandleListBookings = in_http_span ''HandleListBookings'' []"

definition traced_HandleCreateEvent :: "('s \<Rightarrow> response \<times> 's) \<Rightarrow> 's traced \<Rightarrow> response \<times> 's traced" where
  "traced_HandleCreateEvent = in_http_span ''HandleCreateEvent'' []"

definition traced_HandleViewEvent :: "('s \<Rightarrow> response \<times> 's) \<Rightarrow> 's traced \<Rightarrow> response \<times> 's traced" where
  "traced_HandleViewEvent = in_http_span ''HandleViewEvent'' []"

definition traced_HandleCreatePaymentIntent :: "('s \<Rightarrow> response \<times> 's) \<Rightarrow> 's traced \<Rightarrow> response \<times> 's traced" where
  "traced_HandleCreatePaymentIntent = in_http_span ''HandleCreatePaymentIntent'' []"

section \<open>Tracing changes nothing\<close>

definition transparent :: "('s traced \<Rightarrow> 'r \<times> 's traced) \<Rightarrow> ('s \<Rightarrow> 'r \<times> 's) \<Rightarrow> bool" where
  "transparent f g \<longleftrightarrow> (\<forall>sps w. \<exists>sp. f (sps, w) = (fst (g w), sps @ [sp], snd (g w)))"

lemma in_span_transparent: "transparent (in_span name attrs late red call) call"
  by (simp add: transparent_def in_span_def case_prod_beta)

lemma in_http_span_transparent: "transparent (in_http_span name attrs call) call"
  by (simp add: transparent_def in_http_span_def case_prod_beta)

text \<open>Every decorated method answers as the method it wraps and leaves the stores as it does; one span is added.\<close>

lemma event_tracing_transparent:
  "transparent (traced_eventRepo_Create X e) (eventRepo_Create e)"
  "transparent (traced_eventRepo_GetByID X i) (eventRepo_GetByID i)"
  "transparent (traced_eventRepo_GetByIDForUpdate X i) (eventRepo_GetByIDForUpdate i)"
  "transparent (traced_eventRepo_DecrementTicket X i q) (eventRepo_DecrementTicket i q)"
  "transparent traced_eventRepo_ListAvailable eventRepo_ListAvailable"
  "transparent (traced_eventRepo_IncrementTicket X i q) (eventRepo_IncrementTicket i q)"
  "transparent (traced_eventRepo_Update X e) (eventRepo_Update e)"
  "transparent (traced_eventRepo_Delete X i) (eventRepo_Delete i)"
  unfolding traced_eventRepo_Create_def
    traced_eventRepo_GetByID_def
    traced_eventRepo_GetByIDForUpdate_def
    traced_eventRepo_DecrementTicket_def
    traced_eventRepo_ListAvailable_def
    traced_eventRepo_IncrementTicket_def
    traced_eventRepo_Update_def
    traced_eventRepo_Delete_def
  by (rule in_span_transparent)+

lemma order_tracing_transparent:
  "transparent (traced_orderRepo_Create X o') (orderRepo_Create o')"
  "transparent (traced_orderRepo_GetByID X i) (orderRepo_GetByID i)"
  "transparent (traced_orderRepo_ListOrders limit offset st) (orderRepo_ListOrders limit offset st)"
  "transparent (traced_orderRepo_FindStuckCharging durs age limit) (orderRepo_FindStuckCharging age limit)"
  "transparent (traced_orderRepo_FindStuckFailed durs age limit) (orderRepo_FindStuckFailed age limit)"
  "transparent (traced_orderRepo_FindExpiredReservations durs age limit) (orderRepo_FindExpiredReservations age limit)"
  "transparent (traced_orderRepo_CountOverdueAfterCutoff durs grace) (orderRepo_CountOverdueAfterCutoff grace)"
  "transparent (traced_orderRepo_MarkCharging X i) (orderRepo_MarkCharging i)"
  "transparent (traced_orderRepo_MarkConfirmed X i) (orderRepo_MarkConfirmed i)"
  "transparent (traced_orderRepo_MarkFailed X i) (orderRepo_MarkFailed i)"
  "transparent (traced_orderRepo_MarkCompensated X i) (orderRepo_MarkCompensated i)"
  "transparent (traced_orderRepo_MarkAwaitingPayment X i) (orderRepo_MarkAwaitingPayment i)"
  "transparent (traced_orderRepo_MarkPaid X i) (orderRepo_MarkPaid i)"
  "transparent (traced_orderRepo_MarkExpired X i) (orderRepo_MarkExpired i)"
  "transparent (traced_orderRepo_MarkPaymentFailed X i) (orderRepo_MarkPaymentFailed i)"
  "transparent (traced_orderRepo_SetPaymentIntentID X i intent) (orderRepo_SetPaymentIntentID i intent)"
  "transparent (traced_orderRepo_FindByPaymentIntentID intent) (orderRepo_FindByPaymentIntentID intent)"
  unfolding traced_orderRepo_Create_def
    traced_orderRepo_GetByID_def
    traced_orderRepo_ListOrders_def
    traced_orderRepo_FindStuckCharging_def
    traced_orderRepo_FindStuckFailed_def
    traced_orderRepo_FindExpiredReservations_def
    traced_orderRepo_CountOverdueAfterCutoff_def
    traced_orderRepo_MarkCharging_def
    traced_orderRepo_MarkConfirmed_def
    traced_orderRepo_MarkFailed_def
    traced_orderRepo_MarkCompensated_def
    traced_orderRepo_MarkAwaitingPayment_def
    traced_orderRepo_MarkPaid_def
    traced_orderRepo_MarkExpired_def
    traced_orderRepo_MarkPaymentFailed_def
    traced_orderRepo_SetPaymentIntentID_def
    traced_orderRepo_FindByPaymentIntentID_def
  by (rule in_span_transparent)+

lemma ticket_type_tracing_transparent:
  "transparent (traced_ticketTypeRepo_Create X t) (ticketTypeRepo_Create X t)"
  "transparent (traced_ticketTypeRepo_GetByID X i) (ticketTypeRepo_GetByID X i)"
  "transparent (traced_ticketTypeRepo_Delete X i) (ticketTypeRepo_Delete i)"
  "transparent (traced_ticketTypeRepo_ListByEventID X ev) (ticketTypeRepo_ListByEventID X ev)"
  "transparent (traced_ticketTypeRepo_DecrementTicket X i q) (ticketTypeRepo_DecrementTicket i q)"
  "transparent (traced_ticketTypeRepo_IncrementTicket X i q) (ticketTypeRepo_IncrementTicket i q)"
  "transparent (traced_ticketTypeRepo_SumAvailableByEventID X ev) (ticketTypeRepo_SumAvailableByEventID ev)"
  unfolding traced_ticketTypeRepo_Create_def
    traced_ticketTypeRepo_GetByID_def
    traced_ticketTypeRepo_Delete_def
    traced_ticketTypeRepo_ListByEventID_def
    traced_ticketTypeRepo_DecrementTicket_def
    traced_ticketTypeRepo_IncrementTicket_def
    traced_ticketTypeRepo_SumAvailableByEventID_def
  by (rule in_span_transparent)+

lemma saga_tracing_transparent:
  "transparent (traced_sagaRepo_RecordCompletion cid i) (sagaRepo_RecordCompletion cid i)"
  "transparent (traced_sagaRepo_WasRedisReverted cid) (sagaRepo_WasRedisReverted cid)"
  "transparent (traced_sagaRepo_MarkRedisReverted cid) (sagaRepo_MarkRedisReverted cid)"
  unfolding traced_sagaRepo_RecordCompletion_def
    traced_sagaRepo_WasRedisReverted_def
    traced_sagaRepo_MarkRedisReverted_def
  by (rule in_span_transparent)+

lemma service_tracing_transparent:
  "transparent (traced_BookTicket X service user tt qty) (service user tt qty)"
  "transparent (traced_GetBookingHistory history page pageSize st) (history page pageSize st)"
  "transparent (traced_GetOrder X get i) (get i)"
  "transparent (processBatchTraced n) (relay_processBatch n)"
  unfolding traced_BookTicket_def traced_GetBookingHistory_def traced_GetOrder_def processBatchTraced_def
  by (rule in_span_transparent)+

lemma handler_tracing_transparent:
  "transparent (traced_HandleBook call) call" "transparent (traced_HandleGetOrder rawID call) call"
  "transparent (traced_HandleListBookings call) call" "transparent (traced_HandleCreateEvent call) call"
  "transparent (traced_HandleViewEvent call) call" "transparent (traced_HandleCreatePaymentIntent call) call"
  unfolding traced_HandleBook_def traced_HandleGetOrder_def traced_HandleListBookings_def traced_HandleCreateEvent_def
    traced_HandleViewEvent_def traced_HandleCreatePaymentIntent_def
  by (rule in_http_span_transparent)+

text \<open>A loop over decorated steps is the loop over the steps.\<close>

lemma transparent_bind:
  assumes "transparent f g" and "\<And>a. transparent (h a) (k a)"
  shows "\<exists>sp tp. (case f (sps, w) of (a, s1) \<Rightarrow> h a s1) = (case g w of (a, w1) \<Rightarrow> case k a w1 of (b, w2) \<Rightarrow> (b, sps @ [sp, tp], w2))"
proof -
  obtain sp where f: "f (sps, w) = (fst (g w), sps @ [sp], snd (g w))" using assms(1) by (auto simp: transparent_def)
  obtain tp where h: "h (fst (g w)) (sps @ [sp], snd (g w)) = (fst (k (fst (g w)) (snd (g w))), (sps @ [sp]) @ [tp], snd (k (fst (g w)) (snd (g w))))"
    using assms(2) unfolding transparent_def by blast
  show ?thesis by (rule exI [of _ sp], rule exI [of _ tp]) (simp add: f h case_prod_beta)
qed

text \<open>The attributes never show a payment intent: they are the same whatever the intent is. The recorded error is not
  an attribute; its text is that of the repository.\<close>

lemma attributes_hide_intent:
  "map sp_attrs (fst (snd (traced_orderRepo_SetPaymentIntentID X i intent s))) = map sp_attrs (fst (snd (traced_orderRepo_SetPaymentIntentID X i intent' s)))"
  "map sp_attrs (fst (snd (traced_orderRepo_FindByPaymentIntentID intent s))) = map sp_attrs (fst (snd (traced_orderRepo_FindByPaymentIntentID intent' s)))"
  by (simp_all add: traced_orderRepo_SetPaymentIntentID_def traced_orderRepo_FindByPaymentIntentID_def in_span_def case_prod_beta)

text \<open>An answer of 400 or more, and only that, marks the span of a request.\<close>

lemma http_span_red_iff:
  "in_http_span name attrs call (sps, w) = (resp, sps', w') \<Longrightarrow> sp_red (last sps') \<longleftrightarrow> rs_Status resp \<ge> 400"
  by (auto simp: in_http_span_def recordHTTPResult_def split: prod.splits)

end
