(* ===== verification/Dora_Metrics.thy ===== *)
theory Dora_Metrics
  imports Complex_Main "HOL-Library.Multiset" Domain_Errors Go_Runtime
begin

text \<open>
  The delivery report, \<open>internal/dora\<close>: paging through the GitHub API (\<open>client.go\<close>), the pipeline (\<open>service.go\<close>) and
  the five metrics (\<open>metrics.go\<close>). Times are nanoseconds in UTC, where a day is 24 hours; a date that is Go's zero time
  is \<open>None\<close>. The quotients that the code computes in \<open>float64\<close> are exact rationals here. \<open>sort.Slice\<close> is not stable,
  so the order it gives to equal times is a parameter, restricted by what it documents: a sorted permutation.
\<close>

section \<open>Data\<close>

record deployment =
  dp_ID :: int
  dp_SHA :: string
  dp_Environment :: string
  dp_CreatedAt :: int
  dp_State :: string

record release =
  re_TagName :: string
  re_PublishedAt :: "int option"
  re_Draft :: bool

record daily_snapshot =
  ds_Date :: int
  ds_Total :: nat
  ds_Successful :: nat
  ds_Failed :: nat

abbreviation an_hour :: int where "an_hour \<equiv> 3600000000000"
abbreviation a_day :: int where "a_day \<equiv> 86400000000000"

definition is_failure :: "deployment \<Rightarrow> bool" where
  "is_failure d \<longleftrightarrow> dp_State d = ''failure'' \<or> dp_State d = ''error''"

abbreviation is_success :: "deployment \<Rightarrow> bool" where
  "is_success d \<equiv> dp_State d = ''success''"

section \<open>Paging\<close>

text \<open>Pages of 100, newest first; the listing stops at an empty or short page or at the first entry that is too old.
  \<open>fetch\<close> answers a page; the fuel bounds the number of pages asked for.\<close>

fun list_pages :: "(nat \<Rightarrow> err + 'a list) \<Rightarrow> ('a \<Rightarrow> bool) \<Rightarrow> string \<Rightarrow> nat \<Rightarrow> nat \<Rightarrow> 'a list \<Rightarrow> (err + 'a list) option" where
  "list_pages fetch old msg 0 page out = None"
| "list_pages fetch old msg (Suc fuel) page out = (case fetch page of
     Inl e \<Rightarrow> Some (Inl (Wrap msg e))
   | Inr batch \<Rightarrow>
       if batch = [] then Some (Inr out)
       else let fresh = takeWhile (\<lambda>x. \<not> old x) batch in
         if length fresh < length batch \<or> length batch < 100 then Some (Inr (out @ fresh))
         else list_pages fetch old msg fuel (Suc page) (out @ fresh))"

definition ListDeployments :: "(nat \<Rightarrow> err + deployment list) \<Rightarrow> int \<Rightarrow> nat \<Rightarrow> (err + deployment list) option" where
  "ListDeployments fetch since fuel = list_pages fetch (\<lambda>d. dp_CreatedAt d < since) ''list deployments page'' fuel 1 []"

text \<open>The zero time of a release that is not published is before every date.\<close>

definition ListReleases :: "(nat \<Rightarrow> err + release list) \<Rightarrow> int \<Rightarrow> nat \<Rightarrow> (err + release list) option" where
  "ListReleases fetch since fuel = list_pages fetch (\<lambda>r. case re_PublishedAt r of None \<Rightarrow> True | Some t \<Rightarrow> t < since) ''list releases page'' fuel 1 []"

definition splitOwnerRepo :: "string \<Rightarrow> (string \<times> string \<times> bool)" where
  "splitOwnerRepo s = (let owner = takeWhile (\<lambda>c. c \<noteq> CHR ''/'') s in
     if owner = s then ('''', '''', False)
     else let repo = drop (Suc (length owner)) s in (owner, repo, owner \<noteq> '''' \<and> repo \<noteq> ''''))"

section \<open>Versions\<close>

text \<open>\<open>int\<close> is 64 bits wide and the accumulation is not checked.\<close>

fun dora_atoi_loop :: "int \<Rightarrow> string \<Rightarrow> int option" where
  "dora_atoi_loop n [] = Some n"
| "dora_atoi_loop n (c # cs) = (if \<not> is_digit c then None else dora_atoi_loop (wrap64 (n * 10 + (int (of_char c) - 48))) cs)"

definition dora_atoi :: "string \<Rightarrow> int option" where
  "dora_atoi s = (if s = [] then None else dora_atoi_loop 0 s)"

fun split_dots :: "string \<Rightarrow> string \<Rightarrow> string list" where
  "split_dots cur [] = [cur]"
| "split_dots cur (c # cs) = (if c = CHR ''.'' then cur # split_dots [] cs else split_dots (cur @ [c]) cs)"

definition parseSemver :: "string \<Rightarrow> int \<times> int \<times> int \<times> string" where
  "parseSemver s = (case s of
     [] \<Rightarrow> (-1, -1, -1, '''')
   | v # body \<Rightarrow>
      if v \<noteq> CHR ''v'' then (-1, -1, -1, '''')
      else let plain = (\<lambda>c. c \<noteq> CHR ''-'' \<and> c \<noteq> CHR ''+''); rest = takeWhile plain body; pre = dropWhile plain body
        in (case map dora_atoi (split_dots [] rest) of
             [Some maj, Some minor, Some patch] \<Rightarrow> (maj, minor, patch, pre)
           | _ \<Rightarrow> (-1, -1, -1, '''')))"

definition isPatchBumpOver :: "string \<Rightarrow> string \<Rightarrow> bool" where
  "isPatchBumpOver prev cur = (case (parseSemver prev, parseSemver cur) of
     ((pmaj, pmin, ppatch, ppre), (cmaj, cmin, cpatch, cpre)) \<Rightarrow>
       \<not> (pmaj < 0 \<or> cmaj < 0) \<and> cpre = '''' \<and> cmaj = pmaj \<and> cmin = pmin \<and> cpatch = wrap64 (ppatch + 1))"

section \<open>The metrics\<close>

definition truncDay :: "int \<Rightarrow> int" where
  "truncDay t = a_day * (t div a_day)"

definition snapshot_add :: "deployment \<Rightarrow> daily_snapshot \<Rightarrow> daily_snapshot" where
  "snapshot_add d s = s\<lparr>ds_Total := Suc (ds_Total s),
     ds_Successful := (if is_success d then Suc (ds_Successful s) else ds_Successful s),
     ds_Failed := (if is_failure d then Suc (ds_Failed s) else ds_Failed s)\<rparr>"

text \<open>\<open>None\<close> is the panic of \<open>make\<close> on a negative length.\<close>

definition bucketByDay :: "deployment list \<Rightarrow> int \<Rightarrow> int \<Rightarrow> daily_snapshot list option" where
  "bucketByDay deploys since now =
    (let startDay = truncDay since; endDay = truncDay now; days = (endDay - startDay) div a_day + 1
     in if days < 0 then None
        else Some (fold (\<lambda>d out.
            if dp_CreatedAt d < startDay \<or> dp_CreatedAt d > endDay + a_day then out
            else let idx = (truncDay (dp_CreatedAt d) - startDay) div a_day
              in if idx < 0 \<or> idx \<ge> days then out else out[nat idx := snapshot_add d (out ! nat idx)])
          deploys (map (\<lambda>i. \<lparr>ds_Date = startDay + int i * a_day, ds_Total = 0, ds_Successful = 0, ds_Failed = 0\<rparr>) [0..<nat days])))"

definition collectLeadTimes :: "deployment list \<Rightarrow> (string \<rightharpoonup> int option) \<Rightarrow> int list" where
  "collectLeadTimes deploys commits = List.map_filter (\<lambda>d.
     if \<not> is_success d then None
     else (case commits (dp_SHA d) of None \<Rightarrow> None | Some None \<Rightarrow> None
       | Some (Some t) \<Rightarrow> let gap = dp_CreatedAt d - t in if gap \<le> 0 then None else Some gap)) deploys"

fun recoveries :: "deployment list \<Rightarrow> int list" where
  "recoveries [] = []"
| "recoveries (d # ds) = (if \<not> is_failure d then recoveries ds
     else (case find (\<lambda>x. dp_Environment x = dp_Environment d \<and> is_success x) ds of
        None \<Rightarrow> recoveries ds | Some x \<Rightarrow> (dp_CreatedAt x - dp_CreatedAt d) # recoveries ds))"

definition collectRecoveries :: "(deployment list \<Rightarrow> deployment list) \<Rightarrow> deployment list \<Rightarrow> int list" where
  "collectRecoveries srt deploys = recoveries (srt deploys)"

fun failure_signals :: "deployment option \<Rightarrow> deployment list \<Rightarrow> nat" where
  "failure_signals prev [] = 0"
| "failure_signals prev (d # ds) =
    (if is_failure d then 1
     else (case prev of None \<Rightarrow> 0
       | Some p \<Rightarrow> (if is_success d \<and> is_success p \<and> 0 < dp_CreatedAt d - dp_CreatedAt p \<and> dp_CreatedAt d - dp_CreatedAt p < a_day
            then 1 else 0))) + failure_signals (Some d) ds"

definition countFailureSignals :: "(deployment list \<Rightarrow> deployment list) \<Rightarrow> deployment list \<Rightarrow> nat" where
  "countFailureSignals srt deploys = failure_signals None (srt deploys)"

definition released_at :: "release \<Rightarrow> int" where
  "released_at r = (case re_PublishedAt r of Some t \<Rightarrow> t | None \<Rightarrow> - 62135596800000000000)"

fun rework_pairs :: "release list \<Rightarrow> nat" where
  "rework_pairs (prev # cur # rs) =
    (if isPatchBumpOver (re_TagName prev) (re_TagName cur) \<and> 0 < released_at cur - released_at prev \<and>
        released_at cur - released_at prev \<le> 7 * a_day then 1 else 0) + rework_pairs (cur # rs)"
| "rework_pairs rs = 0"

definition countReworkReleases :: "(release list \<Rightarrow> release list) \<Rightarrow> release list \<Rightarrow> nat" where
  "countReworkReleases rsrt releases = (if length releases < 2 then 0 else rework_pairs (rsrt releases))"

definition hours :: "int \<Rightarrow> rat" where
  "hours d = of_int d / of_int an_hour"

definition percentileHours :: "int list \<Rightarrow> nat \<Rightarrow> rat" where
  "percentileHours durations p =
    (if durations = [] then 0
     else let sorted = sort durations; idx = (int (length sorted * p) + 99) div 100 - 1;
              idx = (if idx < 0 then 0 else idx); idx = (if idx \<ge> int (length sorted) then int (length sorted) - 1 else idx)
       in hours (sorted ! nat idx))"

definition median :: "int list \<Rightarrow> rat" where
  "median values =
    (if values = [] then 0
     else let sorted = sort values; mid = length sorted div 2
       in if length sorted mod 2 = 1 then of_int (sorted ! mid) else of_int (sorted ! (mid - 1) + sorted ! mid) / 2)"

definition intsFromDaily :: "daily_snapshot list \<Rightarrow> bool \<Rightarrow> int list" where
  "intsFromDaily daily successOnly = map (\<lambda>d. int (if successOnly then ds_Successful d else ds_Total d)) daily"

record dora_metrics =
  dm_WindowDays :: int
  dm_GeneratedAt :: int
  dm_TotalDeploys :: nat
  dm_SuccessfulDeploys :: nat
  dm_DeploymentFrequencyPerDay :: "rat option"
  dm_LeadTime :: "(rat \<times> rat) option"
  dm_FDRT :: "(rat \<times> rat) option"
  dm_ChangeFailureRate :: "rat option"
  dm_DeploymentReworkRate :: "rat option"
  dm_Daily :: "daily_snapshot list"

definition computeMetrics ::
    "(deployment list \<Rightarrow> deployment list) \<Rightarrow> (release list \<Rightarrow> release list) \<Rightarrow> deployment list \<Rightarrow> release list \<Rightarrow>
     (string \<rightharpoonup> int option) \<Rightarrow> int \<Rightarrow> int \<Rightarrow> dora_metrics option" where
  "computeMetrics srt rsrt deploys releases commits windowDays now =
    (case bucketByDay deploys (now - windowDays * a_day) now of None \<Rightarrow> None
     | Some daily \<Rightarrow>
        let leadtimes = collectLeadTimes deploys commits; recs = collectRecoveries srt deploys; tot = length deploys
        in Some \<lparr>dm_WindowDays = windowDays, dm_GeneratedAt = now, dm_TotalDeploys = tot,
          dm_SuccessfulDeploys = length (filter is_success deploys),
          dm_DeploymentFrequencyPerDay = (if windowDays > 0 then Some (median (intsFromDaily daily True)) else None),
          dm_LeadTime = (if leadtimes = [] then None else Some (percentileHours leadtimes 50, percentileHours leadtimes 90)),
          dm_FDRT = (if recs = [] then None else Some (percentileHours recs 50, percentileHours recs 90)),
          dm_ChangeFailureRate = (if tot = 0 then None else Some (of_nat (countFailureSignals srt deploys) / of_nat tot)),
          dm_DeploymentReworkRate = (if releases = [] then None
             else Some (of_nat (countReworkReleases rsrt releases) / of_nat (length releases))),
          dm_Daily = daily\<rparr>)"

section \<open>The pipeline\<close>

text \<open>The client is a parameter: the listings, the latest status of a deployment, the date of a commit. A status or a
  commit that cannot be read is skipped.\<close>

definition with_states :: "(int \<Rightarrow> err + string) \<Rightarrow> deployment list \<Rightarrow> deployment list" where
  "with_states latest deploys = map (\<lambda>d. case latest (dp_ID d) of Inl _ \<Rightarrow> d | Inr st \<Rightarrow> d\<lparr>dp_State := st\<rparr>) deploys"

definition commits_of :: "(string \<Rightarrow> err + int option) \<Rightarrow> deployment list \<Rightarrow> (string \<rightharpoonup> int option)" where
  "commits_of getCommit deploys = fold (\<lambda>d m. if \<not> is_success d \<or> m (dp_SHA d) \<noteq> None then m
     else (case getCommit (dp_SHA d) of Inl _ \<Rightarrow> m | Inr c \<Rightarrow> m(dp_SHA d \<mapsto> c))) deploys Map.empty"

definition dora_NewService :: "string \<Rightarrow> int \<Rightarrow> err + string \<times> string" where
  "dora_NewService ownerRepo windowDays =
    (if windowDays \<le> 0 then Inl (Plain ''dora: windowDays must be positive'')
     else case splitOwnerRepo ownerRepo of (owner, repo, ok) \<Rightarrow>
       (if \<not> ok then Inl (Plain ''dora: invalid repo, expected owner/repo'') else Inr (owner, repo)))"

definition dora_Compute ::
    "(deployment list \<Rightarrow> deployment list) \<Rightarrow> (release list \<Rightarrow> release list) \<Rightarrow> (int \<Rightarrow> err + deployment list) \<Rightarrow> (int \<Rightarrow> err + string) \<Rightarrow>
     (int \<Rightarrow> err + release list) \<Rightarrow> (string \<Rightarrow> err + int option) \<Rightarrow> int \<Rightarrow> int \<Rightarrow> (err + dora_metrics) option" where
  "dora_Compute srt rsrt listDeploys latest listReleases getCommit windowDays now =
    (let since = now - windowDays * a_day in
     case listDeploys since of Inl e \<Rightarrow> Some (Inl (Wrap ''list deployments'' e))
     | Inr ds \<Rightarrow> (let deploys = with_states latest ds in case listReleases since of Inl e \<Rightarrow> Some (Inl (Wrap ''list releases'' e))
        | Inr releases \<Rightarrow> map_option Inr (computeMetrics srt rsrt deploys releases (commits_of getCommit deploys) windowDays now)))"

section \<open>What the metrics say\<close>

text \<open>What \<open>sort.Slice\<close> documents.\<close>

definition sorts :: "('a list \<Rightarrow> 'a list) \<Rightarrow> ('a \<Rightarrow> int) \<Rightarrow> bool" where
  "sorts srt key \<longleftrightarrow> (\<forall>xs. mset (srt xs) = mset xs \<and> sorted (map key (srt xs)))"

lemma sorts_length: "sorts srt key \<Longrightarrow> length (srt xs) = length xs"
  unfolding sorts_def by (metis size_mset)

lemma failure_signals_bound: "failure_signals prev ds \<le> length ds"
  by (induction ds arbitrary: prev) (auto split: option.splits simp: le_SucI)

lemma rework_pairs_bound: "rework_pairs rs \<le> length rs"
  by (induction rs rule: rework_pairs.induct) (auto intro: le_SucI)

text \<open>The two rates are fractions.\<close>

lemma rates_are_fractions:
  assumes "sorts srt dp_CreatedAt" and "sorts rsrt released_at" and m: "computeMetrics srt rsrt ds rs commits days now = Some m"
  shows "dm_ChangeFailureRate m = Some r \<Longrightarrow> 0 \<le> r \<and> r \<le> 1" and "dm_DeploymentReworkRate m = Some r \<Longrightarrow> 0 \<le> r \<and> r \<le> 1"
proof -
  have f: "countFailureSignals srt ds \<le> length ds"
    using failure_signals_bound [of None "srt ds"] sorts_length [OF assms(1), of ds] by (simp add: countFailureSignals_def)
  have w: "countReworkReleases rsrt rs \<le> length rs"
    using rework_pairs_bound [of "rsrt rs"] sorts_length [OF assms(2), of rs] by (simp add: countReworkReleases_def)
  have q: "0 \<le> (of_nat a / of_nat b :: rat) \<and> (of_nat a / of_nat b :: rat) \<le> 1" if "a \<le> b" for a b :: nat
    using that by (cases "b = 0") (simp_all add: divide_le_eq_1)
  show "dm_ChangeFailureRate m = Some r \<Longrightarrow> 0 \<le> r \<and> r \<le> 1"
    using m q [OF f] by (auto simp: computeMetrics_def Let_def split: option.splits if_splits)
  show "dm_DeploymentReworkRate m = Some r \<Longrightarrow> 0 \<le> r \<and> r \<le> 1"
    using m q [OF w] by (auto simp: computeMetrics_def Let_def split: option.splits if_splits)
qed

text \<open>Two healthy deployments of one day count as a failed change: half of the changes.\<close>

lemma healthy_day_fails:
  assumes "srt = (\<lambda>ds. ds)"
  shows "countFailureSignals srt [\<lparr>dp_ID = 1, dp_SHA = ''a'', dp_Environment = ''production'', dp_CreatedAt = 0, dp_State = ''success''\<rparr>,
    \<lparr>dp_ID = 2, dp_SHA = ''b'', dp_Environment = ''production'', dp_CreatedAt = 8 * an_hour, dp_State = ''success''\<rparr>] = 1"
  by (simp add: countFailureSignals_def assms is_failure_def)

text \<open>A recovery is never negative, and each failure that a later success of its environment follows gives one.\<close>

lemma recoveries_nonneg: "sorted (map dp_CreatedAt ds) \<Longrightarrow> list_all (\<lambda>t. 0 \<le> t) (recoveries ds)"
proof (induction ds rule: recoveries.induct)
  case (2 d ds)
  have "dp_CreatedAt d \<le> dp_CreatedAt x" if "find (\<lambda>x. dp_Environment x = dp_Environment d \<and> is_success x) ds = Some x" for x
    using 2(4) that by (auto simp: find_Some_iff)
  with 2 show ?case by (auto split: option.splits)
qed simp

lemma filter_upt_Suc: "length (filter Q [0..<Suc n]) = (if Q 0 then 1 else 0) + length (filter (\<lambda>i. Q (Suc i)) [0..<n])"
proof -
  have "[0..<Suc n] = 0 # map Suc [0..<n]" by (simp add: map_Suc_upt upt_conv_Cons del: upt_Suc)
  then show ?thesis by (simp only: filter.simps filter_map length_map) (simp add: o_def)
qed

definition recovered :: "deployment list \<Rightarrow> nat \<Rightarrow> bool" where
  "recovered ds i \<longleftrightarrow> is_failure (ds ! i) \<and>
     (\<exists>j < length ds. i < j \<and> dp_Environment (ds ! j) = dp_Environment (ds ! i) \<and> is_success (ds ! j))"

lemma recoveries_count: "length (recoveries ds) = length (filter (recovered ds) [0..<length ds])"
proof (induction ds)
  case (Cons d ds)
  have "recovered (d # ds) (Suc i) = recovered ds i" for i by (auto simp: recovered_def less_Suc_eq_0_disj)
  then have step: "length (filter (recovered (d # ds)) [0..<length (d # ds)]) =
      (if recovered (d # ds) 0 then 1 else 0) + length (filter (recovered ds) [0..<length ds])"
    by (simp only: list.size add_0_right add_Suc_right filter_upt_Suc)
  have "recovered (d # ds) 0 \<longleftrightarrow> is_failure d \<and> find (\<lambda>x. dp_Environment x = dp_Environment d \<and> is_success x) ds \<noteq> None"
  proof -
    let ?P = "\<lambda>x. dp_Environment x = dp_Environment d \<and> is_success x"
    have "(find ?P ds \<noteq> None) = (\<exists>x \<in> set ds. ?P x)" by (simp add: find_None_iff) blast
    also have "\<dots> = (\<exists>j < length ds. ?P (ds ! j))" using list_ex_length [of ?P ds] by (simp only: list_ex_iff)
    also have "\<dots> = (\<exists>j < length (d # ds). 0 < j \<and> ?P ((d # ds) ! j))" by (auto simp: less_Suc_eq_0_disj)
    finally show ?thesis by (simp add: recovered_def)
  qed
  with Cons step show ?case by (auto split: option.splits)
qed simp

text \<open>Nearest rank: at least \<open>p\<close> percent of the durations are at most the percentile, which is one of them.\<close>

lemma percentile_nearest_rank:
  assumes "ds \<noteq> []" and "p \<le> 100"
  shows "\<exists>d \<in> set ds. percentileHours ds p = hours d \<and> length ds * p \<le> 100 * length (filter (\<lambda>x. x \<le> d) ds)"
proof -
  let ?s = "sort ds" and ?n = "length ds"
  define i where "i = (int (?n * p) + 99) div 100 - 1"
  define k where "k = nat (if i < 0 then 0 else i)"
  have "?n * p \<le> ?n * 100" using assms(2) by (rule mult_le_mono2)
  then have "int (?n * p) + 99 \<le> int (?n * 100) + 99" by (simp only: of_nat_le_iff add_le_cancel_right)
  then have "(int (?n * p) + 99) div 100 \<le> (int (?n * 100) + 99) div 100" by (rule zdiv_mono1) simp
  moreover have "(int (?n * 100) + 99) div 100 = int ?n" by simp
  ultimately have i: "i < int ?n" by (simp add: i_def)
  then have k: "k < ?n" using assms by (auto simp: k_def)
  have "percentileHours ds p = hours (?s ! k)"
    using assms(1) i unfolding percentileHours_def Let_def k_def i_def [symmetric] length_sort by (auto simp: not_le)
  moreover have "?s ! k \<in> set ds" using k by (metis length_sort nth_mem set_sort)
  moreover have "Suc k \<le> length (filter (\<lambda>x. x \<le> ?s ! k) ds)"
  proof -
    have "length (filter (\<lambda>x. x \<le> ?s ! k) ds) = length (filter (\<lambda>x. x \<le> ?s ! k) ?s)"
      by (metis mset_filter mset_sort size_mset)
    moreover have "filter (\<lambda>x. x \<le> ?s ! k) (take (Suc k) ?s) = take (Suc k) ?s"
      using k by (auto simp: filter_id_conv in_set_conv_nth intro!: sorted_nth_mono)
    then have "Suc k \<le> length (filter (\<lambda>x. x \<le> ?s ! k) (take (Suc k) ?s @ drop (Suc k) ?s))"
      using k by (simp only: filter_append length_append) simp
    ultimately show ?thesis by (simp only: append_take_drop_id)
  qed
  moreover have "?n * p \<le> 100 * Suc k"
  proof -
    have up: "x \<le> 100 * ((x + 99) div 100)" for x :: int by presburger
    have "int (?n * p) \<le> 100 * (i + 1)" unfolding i_def using up [of "int (?n * p)"] by simp
    also have "100 * (i + 1) \<le> int (100 * Suc k)" by (simp add: k_def)
    finally show ?thesis by (simp only: of_nat_le_iff)
  qed
  ultimately show ?thesis by (intro bexI [of _ "?s ! k"]) auto
qed

text \<open>The buckets are exact: one for each day from the start to the end, each with the deployments of its day.\<close>

lemma truncDay_div: "truncDay t div a_day = t div a_day"
  by (simp add: truncDay_def)

lemma bucket_index:
  "(truncDay t - truncDay s) div a_day = t div a_day - s div a_day"
proof -
  have "truncDay t - truncDay s = (t div a_day - s div a_day) * a_day" by (simp add: truncDay_def algebra_simps)
  then show ?thesis by simp
qed

lemma bucketByDay_exact:
  assumes b: "bucketByDay ds since now = Some out" and le: "since \<le> now" and i: "i < length out"
  shows "length out = nat (now div a_day - since div a_day + 1)" and "ds_Date (out ! i) = truncDay since + int i * a_day"
    and "ds_Total (out ! i) = length (filter (\<lambda>d. dp_CreatedAt d div a_day = since div a_day + int i) ds)"
    and "ds_Successful (out ! i) = length (filter (\<lambda>d. dp_CreatedAt d div a_day = since div a_day + int i \<and> is_success d) ds)"
proof -
  let ?days = "now div a_day - since div a_day + 1"
  let ?on = "\<lambda>d k. dp_CreatedAt d div a_day = since div a_day + int k"
  define add where "add = (\<lambda>d out. if dp_CreatedAt d < truncDay since \<or> dp_CreatedAt d > truncDay now + a_day then out
      else let idx = (truncDay (dp_CreatedAt d) - truncDay since) div a_day
        in if idx < 0 \<or> idx \<ge> ?days then out else out[nat idx := snapshot_add d (out ! nat idx)])"
  have step: "length (add d o') = length o' \<and> (\<forall>k < length o'. add d o' ! k = (if ?on d k then snapshot_add d (o' ! k) else o' ! k))"
    if o': "length o' = nat ?days" for d o'
  proof -
    define t where "t = dp_CreatedAt d"
    define q where "q = t div a_day"
    have idx: "(truncDay t - truncDay since) div a_day = q - since div a_day" by (simp only: bucket_index q_def)
    have in_window: "\<not> (t < truncDay since \<or> t > truncDay now + a_day)" if "since div a_day \<le> q" "q \<le> now div a_day"
      using that unfolding truncDay_def q_def by linarith
    have add: "add d o' = (if since div a_day \<le> q \<and> q \<le> now div a_day
        then o'[nat (q - since div a_day) := snapshot_add d (o' ! nat (q - since div a_day))] else o')"
    proof (cases "since div a_day \<le> q \<and> q \<le> now div a_day")
      case True
      then have "\<not> (q - since div a_day < 0 \<or> q - since div a_day \<ge> ?days)" by linarith
      then show ?thesis using True in_window unfolding add_def Let_def t_def [symmetric] idx by (simp only: if_False if_True conj_absorb simp_thms)
    next
      case False
      then have "q - since div a_day < 0 \<or> q - since div a_day \<ge> ?days" by linarith
      then show ?thesis unfolding add_def Let_def t_def [symmetric] idx if_not_P [OF False] by (simp only: if_True if_cancel)
    qed
    have on: "?on d k \<longleftrightarrow> q = since div a_day + int k" for k by (simp only: q_def t_def)
    have "(if since div a_day \<le> q \<and> q \<le> now div a_day then o'[nat (q - since div a_day) := v] else o') ! k
        = (if q = since div a_day + int k then v else o' ! k)" if "k < length o'" for v k
      using that o' by (auto simp: nth_list_update)
    then show ?thesis unfolding add on by (auto simp: nth_list_update o')
  qed
  have all: "length (fold add ds o') = nat ?days \<and> (\<forall>k < nat ?days. ds_Date (fold add ds o' ! k) = ds_Date (o' ! k) \<and>
      ds_Total (fold add ds o' ! k) = ds_Total (o' ! k) + length (filter (\<lambda>d. ?on d k) ds) \<and>
      ds_Successful (fold add ds o' ! k) = ds_Successful (o' ! k) + length (filter (\<lambda>d. ?on d k \<and> is_success d) ds))"
    if "length o' = nat ?days" for o'
    using that
  proof (induction ds arbitrary: o')
    case (Cons d ds)
    have l: "length (add d o') = nat ?days" using step Cons.prems by simp
    from Cons.IH [OF l] step [OF Cons.prems, of d] Cons.prems show ?case by (auto simp: snapshot_add_def)
  qed simp
  define zeros where "zeros = map (\<lambda>i. \<lparr>ds_Date = truncDay since + int i * a_day, ds_Total = 0, ds_Successful = 0, ds_Failed = 0\<rparr>) [0..<nat ?days]"
  have n: "(truncDay now - truncDay since) div a_day + 1 = ?days" by (simp add: bucket_index)
  have out: "out = fold add ds zeros"
    using b unfolding bucketByDay_def Let_def n by (simp only: add_def zeros_def Let_def option.inject option.distinct split: if_splits)
  have z: "length zeros = nat ?days" by (simp add: zeros_def)
  show "length out = nat ?days" using all [OF z] out by simp
  then have "i < nat ?days" using i by simp
  then show "ds_Date (out ! i) = truncDay since + int i * a_day" "ds_Total (out ! i) = length (filter (\<lambda>d. ?on d i) ds)"
    "ds_Successful (out ! i) = length (filter (\<lambda>d. ?on d i \<and> is_success d) ds)"
    using all [OF z] out by (auto simp: zeros_def)
qed

text \<open>The listing is exact when the entries come newest first: everything that is not too old, in the order of the pages,
  and enough fuel is one page more than the full ones.\<close>

lemma takeWhile_filter_mono:
  assumes "\<And>i j. i < j \<Longrightarrow> j < length xs \<Longrightarrow> old (xs ! i) \<Longrightarrow> old (xs ! j)"
  shows "takeWhile (\<lambda>x. \<not> old x) xs = filter (\<lambda>x. \<not> old x) xs"
  using assms
proof (induction xs)
  case (Cons x xs)
  have IH: "takeWhile (\<lambda>x. \<not> old x) xs = filter (\<lambda>x. \<not> old x) xs"
  proof (rule Cons.IH)
    fix i j assume "i < j" "j < length xs" "old (xs ! i)"
    then show "old (xs ! j)" using Cons.prems [of "Suc i" "Suc j"] by simp
  qed
  have "\<not> old x \<or> list_all old xs" using Cons.prems [of 0 "Suc _"] by (auto simp: list_all_length)
  then show ?case using IH by (auto simp: filter_empty_conv list_all_iff)
qed simp

lemma pages_aged:
  assumes "sorted_wrt (\<lambda>x y. old x \<longrightarrow> old y) (xs @ ys)"
  shows "takeWhile (\<lambda>x. \<not> old x) xs = filter (\<lambda>x. \<not> old x) xs"
    and "x \<in> set xs \<Longrightarrow> old x \<Longrightarrow> filter (\<lambda>x. \<not> old x) ys = []"
proof -
  show "takeWhile (\<lambda>x. \<not> old x) xs = filter (\<lambda>x. \<not> old x) xs"
    by (rule takeWhile_filter_mono, rule sorted_wrt_nth_less [of "\<lambda>x y. old x \<longrightarrow> old y", THEN mp])
      (use assms in \<open>simp_all add: sorted_wrt_append\<close>)
  show "x \<in> set xs \<Longrightarrow> old x \<Longrightarrow> filter (\<lambda>x. \<not> old x) ys = []"
    using assms by (auto simp: sorted_wrt_append filter_empty_conv)
qed

lemma listing_is_exact:
  assumes "\<forall>k < length pages. fetch (page + k) = Inr (pages ! k)" and "fetch (page + length pages) = Inr rest" and "length rest < 100"
    and "list_all (\<lambda>b. length b = 100) pages" and "sorted_wrt (\<lambda>x y. old x \<longrightarrow> old y) (concat pages @ rest)" and "length pages < fuel"
  shows "list_pages fetch old msg fuel page out = Some (Inr (out @ filter (\<lambda>x. \<not> old x) (concat pages @ rest)))"
  using assms
proof (induction pages arbitrary: fuel page out)
  case Nil
  obtain f where f: "fuel = Suc f" using Nil by (cases fuel) auto
  have "takeWhile (\<lambda>x. \<not> old x) rest = filter (\<lambda>x. \<not> old x) rest" using pages_aged(1) [of old rest "[]"] Nil by simp
  then show ?case using Nil f by (auto simp: Let_def)
next
  case (Cons b pages)
  obtain f where f: "fuel = Suc f" using Cons.prems by (cases fuel) auto
  have b: "fetch page = Inr b" "length b = 100" using Cons.prems(1) [rule_format, of 0] Cons.prems(4) by auto
  note aged = pages_aged [of old b "concat pages @ rest"]
  have s: "sorted_wrt (\<lambda>x y. old x \<longrightarrow> old y) (b @ concat pages @ rest)" using Cons.prems(5) by simp
  have t: "takeWhile (\<lambda>x. \<not> old x) b = filter (\<lambda>x. \<not> old x) b" by (rule aged(1) [OF s])
  show ?case
  proof (cases "\<exists>x \<in> set b. old x")
    case True
    then have "filter (\<lambda>x. \<not> old x) (concat pages @ rest) = []" using aged(2) [OF s] by blast
    moreover have "length (filter (\<lambda>x. \<not> old x) b) < length b" using True by (auto intro: length_filter_less)
    ultimately show ?thesis using b f t by (cases "b = []") (simp_all add: Let_def)
  next
    case False
    then have fb: "filter (\<lambda>x. \<not> old x) b = b" by (auto simp: filter_id_conv)
    have "\<forall>k < length pages. fetch (Suc page + k) = Inr (pages ! k)" using Cons.prems(1) by auto
    then have "list_pages fetch old msg f (Suc page) (out @ b) = Some (Inr ((out @ b) @ filter (\<lambda>x. \<not> old x) (concat pages @ rest)))"
      by (rule Cons.IH) (use Cons.prems s f in \<open>simp_all add: sorted_wrt_append\<close>)
    moreover have "b \<noteq> []" using b(2) by auto
    moreover have "takeWhile (\<lambda>x. \<not> old x) b = b" using t fb by (rule trans)
    ultimately show ?thesis using b f fb by (simp add: Let_def del: takeWhile_eq_all_conv)
  qed
qed

text \<open>A draft release has no date and comes first: it ends the listing, and the releases behind it are not counted.\<close>

lemma draft_hides_releases:
  assumes "fetch 1 = Inr (r # rs)" and "re_PublishedAt r = None"
  shows "ListReleases fetch since (Suc fuel) = Some (Inr [])"
  using assms by (simp add: ListReleases_def Let_def)

text \<open>Versions are read back as they are written.\<close>

lemma dora_atoi_loop_digits:
  assumes "list_all is_digit s" and "int (foldl (\<lambda>a c. 10 * a + digit_val c) n s) < 2 ^ 63"
  shows "dora_atoi_loop (int n) s = Some (int (foldl (\<lambda>a c. 10 * a + digit_val c) n s))"
  using assms
proof (induction s arbitrary: n)
  case (Cons c cs)
  have mono: "m \<le> foldl (\<lambda>a c. 10 * a + digit_val c) m xs" for m xs
  proof (induction xs arbitrary: m)
    case (Cons x xs)
    have "m \<le> 10 * m + digit_val x" by simp
    with Cons [of "10 * m + digit_val x"] show ?case by simp
  qed simp
  have c: "int (of_char c) - 48 = int (digit_val c)"
    using Cons.prems(1) by (simp add: is_digit_def digit_val_def of_nat_diff)
  have "int (10 * n + digit_val c) < 2 ^ 63" using mono [of "10 * n + digit_val c" cs] Cons.prems(2) by simp
  then have "wrap64 (int n * 10 + int (digit_val c)) = int (10 * n + digit_val c)" by (simp add: wrap64_def algebra_simps)
  moreover have "dora_atoi_loop (int (10 * n + digit_val c)) cs = Some (int (foldl (\<lambda>a c. 10 * a + digit_val c) (10 * n + digit_val c) cs))"
    by (rule Cons.IH) (use Cons.prems in simp_all)
  ultimately show ?case using Cons.prems(1) c by simp
qed simp

lemma dora_atoi_show_nat: "int n < 2 ^ 63 \<Longrightarrow> dora_atoi (show_nat n) = Some (int n)"
  using dora_atoi_loop_digits [of "show_nat n" 0] show_nat_digits [of n] dec_val_show_nat [of n]
  by (simp add: dora_atoi_def show_nat_nonempty dec_val_def)

lemma split_dots_digits:
  "list_all is_digit s \<Longrightarrow> split_dots cur s = [cur @ s]"
  "list_all is_digit s \<Longrightarrow> split_dots cur (s @ CHR ''.'' # t) = (cur @ s) # split_dots [] t"
  by (induction s arbitrary: cur) (auto simp: is_digit_def)

lemma semver_roundtrip:
  assumes "int a < 2 ^ 63" "int b < 2 ^ 63" "int c < 2 ^ 63" and suffix: "suffix = [] \<or> hd suffix \<in> {CHR ''-'', CHR ''+''}"
  shows "parseSemver (''v'' @ show_nat a @ ''.'' @ show_nat b @ ''.'' @ show_nat c @ suffix) = (int a, int b, int c, suffix)"
proof -
  let ?plain = "\<lambda>c. c \<noteq> CHR ''-'' \<and> c \<noteq> CHR ''+''"
  let ?num = "show_nat a @ ''.'' @ show_nat b @ ''.'' @ show_nat c"
  have d: "list_all is_digit s \<Longrightarrow> \<forall>x \<in> set s. ?plain x" for s by (auto simp: list_all_iff is_digit_def)
  have "\<forall>x \<in> set ?num. ?plain x" using d [OF show_nat_digits] by auto
  then have "takeWhile ?plain (?num @ suffix) = ?num" "dropWhile ?plain (?num @ suffix) = suffix"
    using suffix by (cases suffix; auto simp: takeWhile_append dropWhile_append)+
  moreover have "split_dots [] ?num = [show_nat a, show_nat b, show_nat c]"
    using split_dots_digits show_nat_digits by simp
  ultimately show ?thesis using assms(1-3) by (simp add: parseSemver_def Let_def dora_atoi_show_nat)
qed

lemma patch_bump_demo:
  "isPatchBumpOver ''v1.2.3'' ''v1.2.4''" "\<not> isPatchBumpOver ''v1.2.3'' ''v1.3.4''" "\<not> isPatchBumpOver ''v1.2.3'' ''v1.2.4-rc1''"
  by code_simp+

end
