(* ===== verification/Server_Process.thy ===== *)
theory Server_Process
  imports Sweep_Process Configuration Stage_Compensation
begin

text \<open>
  The server processes: opening the database (\<open>internal/bootstrap/db.go\<close>), the route table, the timeouts, the background
  runners and the shutdown of the main server (\<open>cmd/booking-cli/server.go\<close>), the two background loops and the stop of the stage-5
  server (\<open>cmd/booking-cli-stage5/server.go\<close>), and the stop of the admin stream (\<open>internal/bootstrap/admin_stream.go\<close>). As in \<open>Sweep_Process\<close> a schedule lists what the \<open>select\<close> of a loop takes:
  \<open>True\<close> for a tick, \<open>False\<close> for the end of the context.
\<close>

section \<open>Opening the database\<close>

text \<open>\<open>ping\<close> says for each attempt what \<open>PingContext\<close> answers and how long it takes when nothing stops it. An attempt is
  stopped after \<open>perAttempt\<close>, or earlier when the budget ends. The wait ends after \<open>interval\<close> or with the budget;
  \<open>tie\<close> is the choice of \<open>select\<close> when both happen at once, \<open>opened\<close> the error of \<open>sql.Open\<close>. The result is the time used, or the error.\<close>

fun ping_loop :: "bool \<Rightarrow> (nat \<Rightarrow> err option \<times> duration) \<Rightarrow> duration \<Rightarrow> duration \<Rightarrow> duration \<Rightarrow> nat \<Rightarrow> nat \<Rightarrow> duration \<Rightarrow> err + duration" where
  "ping_loop tie ping interval perAttempt budget 0 attempt elapsed = Inl (Plain ''provideDB: postgres unreachable'')"
| "ping_loop tie ping interval perAttempt budget (Suc left) attempt elapsed =
    (let limit = max 0 (min perAttempt (budget - elapsed));
         (pingErr, elapsed1) = (case ping attempt of (e, spent) \<Rightarrow>
            if spent < limit then (e, elapsed + spent) else (Some (Sentinel ContextDeadlineExceeded), elapsed + limit))
     in case pingErr of
          None \<Rightarrow> Inr elapsed1
        | Some e \<Rightarrow>
            if left = 0 then Inl (Wrap ''provideDB: postgres unreachable'' e)
            else if budget < elapsed1 + interval \<or> budget = elapsed1 + interval \<and> tie
            then Inl (Wrap ''provideDB: context cancelled'' (Sentinel ContextDeadlineExceeded))
            else ping_loop tie ping interval perAttempt budget left (Suc attempt) (elapsed1 + interval))"

definition provideDB :: "err option \<Rightarrow> bool \<Rightarrow> (nat \<Rightarrow> err option \<times> duration) \<Rightarrow> postgres_config \<Rightarrow> err + duration" where
  "provideDB opened tie ping c = (case opened of
     Some e \<Rightarrow> Inl (Wrap ''provideDB: sql.Open'' e)
   | None \<Rightarrow> ping_loop tie ping (pc_PingInterval c) (pc_PingPerAttempt c)
       (wrap64 (pc_PingAttempts c * (pc_PingInterval c + pc_PingPerAttempt c))) (nat (pc_PingAttempts c)) 1 0)"

section \<open>The background loops of stage 5\<close>

datatype loop_end = Waiting | Stopped | Escalated

text \<open>The failures since the last success are counted in 32 bits. The log has an entry for each sweep that is judged: the
  error, or \<open>None\<close> for a success.\<close>

fun drift_watch :: "int \<Rightarrow> (world \<Rightarrow> (err + unit) \<times> world) \<Rightarrow> duration \<Rightarrow> int \<Rightarrow> bool list \<Rightarrow> world \<Rightarrow> loop_end \<times> err option list \<times> world" where
  "drift_watch maxFail sweep interval consec [] w = (Waiting, [], w)"
| "drift_watch maxFail sweep interval consec (False # ts) w = (Stopped, [], w)"
| "drift_watch maxFail sweep interval consec (True # ts) w = (case sweep (time_passes interval w) of
     (Inl e, w1) \<Rightarrow> (case ctx_Err w1 of
        (True, w2) \<Rightarrow> (Stopped, [], w2)
      | (False, w2) \<Rightarrow>
         (let n = (consec + 1 + 2 ^ 31) mod 2 ^ 32 - 2 ^ 31 in
          if n \<ge> maxFail then (Escalated, [Some e], w2)
          else case drift_watch maxFail sweep interval n ts w2 of (x, es, w3) \<Rightarrow> (x, Some e # es, w3)))
   | (Inr _, w1) \<Rightarrow> (case drift_watch maxFail sweep interval 0 ts w1 of (x, es, w2) \<Rightarrow> (x, None # es, w2)))"

definition stage5_runDriftDetector :: "ext \<Rightarrow> duration \<Rightarrow> drift_config \<Rightarrow> bool list \<Rightarrow> world \<Rightarrow> loop_end \<times> err option list \<times> world" where
  "stage5_runDriftDetector X ttl cfg = drift_watch (dc_MaxConsecutiveFailures cfg) (Drift_Sweep X ttl cfg) (dc_SweepInterval cfg) 0"

fun stage5_runExpirySweeper :: "ext \<Rightarrow> expiry_config \<Rightarrow> bool list \<Rightarrow> world \<Rightarrow> loop_end \<times> world" where
  "stage5_runExpirySweeper X cfg [] w = (Waiting, w)"
| "stage5_runExpirySweeper X cfg (False # ts) w = (Stopped, w)"
| "stage5_runExpirySweeper X cfg (True # ts) w =
    stage5_runExpirySweeper X cfg ts (Stage5Sweeper_Sweep X cfg (time_passes (ec_SweepInterval cfg) w))"

section \<open>The main server\<close>

text \<open>A route: method, path, the middleware between the engine and the handler, the handler.\<close>

datatype segment = Lit string | Param string
datatype guard = BodyLimit | IdempotencyKey | AdminToken

record route =
  rt_Method :: string
  rt_Path :: "segment list"
  rt_Guards :: "guard list"
  rt_Handler :: string

abbreviation apiV1 :: "segment list \<Rightarrow> segment list" where
  "apiV1 p \<equiv> Lit ''api'' # Lit ''v1'' # p"

definition health_routes :: "route list" where
  "health_routes =
    [\<lparr>rt_Method = ''GET'', rt_Path = [Lit ''livez''], rt_Guards = [], rt_Handler = ''Live''\<rparr>,
     \<lparr>rt_Method = ''GET'', rt_Path = [Lit ''readyz''], rt_Guards = [], rt_Handler = ''Ready''\<rparr>]"

definition booking_routes :: "route list" where
  "booking_routes =
    [\<lparr>rt_Method = ''POST'', rt_Path = apiV1 [Lit ''book''], rt_Guards = [BodyLimit, IdempotencyKey], rt_Handler = ''HandleBook''\<rparr>,
     \<lparr>rt_Method = ''GET'', rt_Path = apiV1 [Lit ''orders'', Param ''id''], rt_Guards = [BodyLimit], rt_Handler = ''HandleGetOrder''\<rparr>,
     \<lparr>rt_Method = ''POST'', rt_Path = apiV1 [Lit ''orders'', Param ''id'', Lit ''pay''], rt_Guards = [BodyLimit],
       rt_Handler = ''HandleCreatePaymentIntent''\<rparr>,
     \<lparr>rt_Method = ''GET'', rt_Path = apiV1 [Lit ''history''], rt_Guards = [BodyLimit], rt_Handler = ''HandleListBookings''\<rparr>,
     \<lparr>rt_Method = ''POST'', rt_Path = apiV1 [Lit ''events''], rt_Guards = [BodyLimit], rt_Handler = ''HandleCreateEvent''\<rparr>,
     \<lparr>rt_Method = ''GET'', rt_Path = apiV1 [Lit ''events'', Param ''id''], rt_Guards = [BodyLimit], rt_Handler = ''HandleViewEvent''\<rparr>]"

text \<open>\<open>proxies\<close> is the check of gin's \<open>SetTrustedProxies\<close>. \<open>StaticFile\<close> serves GET and HEAD.\<close>

definition buildGinEngine :: "(string list \<Rightarrow> err + unit) \<Rightarrow> config \<Rightarrow> err + route list" where
  "buildGinEngine proxies c = (case proxies (sv_TrustedProxies (cfg_Server c)) of
     Inl e \<Rightarrow> Inl (Wrap ''buildGinEngine: SetTrustedProxies'' e)
   | Inr _ \<Rightarrow> Inr (
      [\<lparr>rt_Method = ''GET'', rt_Path = [Lit ''metrics''], rt_Guards = [], rt_Handler = ''metrics''\<rparr>] @ health_routes @
      [\<lparr>rt_Method = ''POST'', rt_Path = [Lit ''webhook'', Lit ''payment''], rt_Guards = [], rt_Handler = ''HandlePayment''\<rparr>] @
      (if sv_EnableTestEndpoints (cfg_Server c)
       then [\<lparr>rt_Method = ''POST'', rt_Path = [Lit ''test'', Lit ''payment'', Lit ''confirm'', Param ''order_id''], rt_Guards = [],
          rt_Handler = ''HandleConfirmPayment''\<rparr>] else []) @
      booking_routes @
      [\<lparr>rt_Method = ''GET'', rt_Path = apiV1 [Lit ''admin'', Lit ''events'', Lit ''stream''], rt_Guards = [BodyLimit, AdminToken],
         rt_Handler = ''HandleStream''\<rparr>,
       \<lparr>rt_Method = ''GET'', rt_Path = [Lit ''admin'', Lit ''''], rt_Guards = [], rt_Handler = ''events.html''\<rparr>,
       \<lparr>rt_Method = ''HEAD'', rt_Path = [Lit ''admin'', Lit ''''], rt_Guards = [], rt_Handler = ''events.html''\<rparr>]))"

text \<open>gin: a literal segment matches itself, a parameter any segment that is not empty.\<close>

fun path_matches :: "segment list \<Rightarrow> string list \<Rightarrow> bool" where
  "path_matches [] [] = True"
| "path_matches (Lit a # p) (s # ss) = (a = s \<and> path_matches p ss)"
| "path_matches (Param a # p) (s # ss) = (s \<noteq> '''' \<and> path_matches p ss)"
| "path_matches p ss = False"

definition routed :: "route list \<Rightarrow> string \<Rightarrow> string list \<Rightarrow> route list" where
  "routed rs m path = filter (\<lambda>r. rt_Method r = m \<and> path_matches (rt_Path r) path) rs"

record http_server =
  hs_Addr :: string
  hs_ReadTimeout :: duration
  hs_ReadHeaderTimeout :: duration
  hs_WriteTimeout :: duration
  hs_IdleTimeout :: duration
  hs_MaxHeaderBytes :: int

definition buildHTTPServer :: "config \<Rightarrow> http_server" where
  "buildHTTPServer c = \<lparr>hs_Addr = '':'' @ sv_Port (cfg_Server c), hs_ReadTimeout = sv_ReadTimeout (cfg_Server c),
     hs_ReadHeaderTimeout = sv_ReadTimeout (cfg_Server c), hs_WriteTimeout = sv_WriteTimeout (cfg_Server c),
     hs_IdleTimeout = 2 * sv_WriteTimeout (cfg_Server c), hs_MaxHeaderBytes = 2 ^ 20\<rparr>"

text \<open>\<open>net/http\<close>: a write to a connection fails once the write timeout has passed since the header was read; 0 is no limit.\<close>

definition write_fails :: "http_server \<Rightarrow> time \<Rightarrow> time \<Rightarrow> bool" where
  "write_fails srv readAt now \<longleftrightarrow> hs_WriteTimeout srv > 0 \<and> readAt + hs_WriteTimeout srv \<le> now"

text \<open>What the end of a listener or a runner makes of the process: \<open>Some 1\<close> is a shutdown with that exit code.\<close>

definition listener_ended :: "bool \<Rightarrow> err option \<Rightarrow> nat option" where
  "listener_ended server_closed e = (if e \<noteq> None \<and> \<not> server_closed then Some 1 else None)"

definition pprof_ended :: "bool \<Rightarrow> err option \<Rightarrow> nat option" where
  "pprof_ended server_closed e = None"

definition runner_ended :: "err option \<Rightarrow> nat option" where
  "runner_ended e = (case e of None \<Rightarrow> None | Some x \<Rightarrow> if errors_Is x ContextCanceled then None else Some 1)"

text \<open>The shutdown: every step is taken whatever the others answer. The log has the failed steps.\<close>

definition stop_step :: "string \<Rightarrow> ('s \<Rightarrow> err option \<times> 's) option \<Rightarrow> string list \<times> 's \<Rightarrow> string list \<times> 's" where
  "stop_step name step s = (case s of (log, w) \<Rightarrow> (case step of
     None \<Rightarrow> (log, w)
   | Some f \<Rightarrow> (case f w of (None, w1) \<Rightarrow> (log, w1) | (Some _, w1) \<Rightarrow> (log @ [name], w1))))"

definition shutdownAll :: "('s \<Rightarrow> 's) \<Rightarrow> ('s \<Rightarrow> err option \<times> 's) \<Rightarrow> ('s \<Rightarrow> err option \<times> 's) option \<Rightarrow> ('s \<Rightarrow> err option \<times> 's) option \<Rightarrow>
    ('s \<Rightarrow> err option \<times> 's) \<Rightarrow> 's \<Rightarrow> err option \<times> string list \<times> 's" where
  "shutdownAll cancel saga pprof http tracer w =
    (case stop_step ''http'' http (stop_step ''pprof'' pprof (stop_step ''saga'' (Some saga) ([], cancel w))) of
       (log, w1) \<Rightarrow> (case tracer w1 of
          (None, w2) \<Rightarrow> (None, log, w2)
        | (Some e, w2) \<Rightarrow> (Some e, log @ [''tracer''], w2)))"

text \<open>The stop of the admin stream: no new connections, the hints, the end of the context, then a wait for each of the
  goroutines; a wait answers whether its goroutine ended before the deadline.\<close>

fun wait_each :: "(string \<times> ('s \<Rightarrow> bool \<times> 's)) list \<Rightarrow> 's \<Rightarrow> err option \<times> 's" where
  "wait_each [] w = (None, w)"
| "wait_each ((name, ended) # ws) w = (case ended w of
     (True, w1) \<Rightarrow> wait_each ws w1
   | (False, w1) \<Rightarrow> (Some (Plain (name @ '' did not stop within fx deadline'')), w1))"

definition admin_stream_stop :: "('s \<Rightarrow> 's) \<Rightarrow> ('s \<Rightarrow> 's) \<Rightarrow> ('s \<Rightarrow> 's) \<Rightarrow> ('s \<Rightarrow> bool \<times> 's) \<Rightarrow> ('s \<Rightarrow> bool \<times> 's) \<Rightarrow> ('s \<Rightarrow> bool \<times> 's) \<Rightarrow>
    's \<Rightarrow> err option \<times> 's" where
  "admin_stream_stop refuse hints cancel subscriber hub bus w =
    wait_each [(''subscriber'', subscriber), (''hub'', hub), (''bus'', bus)] (cancel (hints (refuse w)))"

text \<open>The stop of the stage-5 server; \<open>ended\<close> says whether the goroutines ended before the deadline. The log has the
  failed steps.\<close>

definition stage5_stop :: "('s \<Rightarrow> 's) \<Rightarrow> ('s \<Rightarrow> 's) \<Rightarrow> ('s \<Rightarrow> err option \<times> 's) \<Rightarrow> ('s \<Rightarrow> 's) \<Rightarrow> ('s \<Rightarrow> bool \<times> 's) \<Rightarrow>
    ('s \<Rightarrow> err option \<times> 's) \<Rightarrow> ('s \<Rightarrow> err option \<times> 's) \<Rightarrow> 's \<Rightarrow> err option \<times> string list \<times> 's" where
  "stage5_stop refuse hints http cancel ended publisher consumer w =
    (case stop_step ''http'' (Some http) ([], hints (refuse w)) of
       (log, w1) \<Rightarrow> (case ended (cancel w1) of
          (b, w2) \<Rightarrow> (case stop_step ''consumer'' (Some consumer) (stop_step ''publisher'' (Some publisher) (log, w2)) of
             (log2, w3) \<Rightarrow> (if b then None else Some (Sentinel ContextDeadlineExceeded), log2, w3))))"

section \<open>What they do\<close>

text \<open>The budget is exact: the wait for the database is never cut, and it succeeds exactly when one of the attempts is
  answered in its time.\<close>

lemma ping_loop_exact:
  assumes "0 \<le> i" "0 \<le> p" "0 < i + p" and "\<forall>k. 0 \<le> snd (ping k)" and "elapsed + int left * (i + p) \<le> budget"
  shows "(is_ok (ping_loop tie ping i p budget left a elapsed) \<longleftrightarrow> (\<exists>k. a \<le> k \<and> k < a + left \<and> fst (ping k) = None \<and> snd (ping k) < p)) \<and>
    (\<forall>t. ping_loop tie ping i p budget left a elapsed = Inr t \<longrightarrow> t \<le> budget) \<and>
    (\<forall>e. ping_loop tie ping i p budget left a elapsed \<noteq> Inl (Wrap ''provideDB: context cancelled'' e))"
  using assms(5)
proof (induction left arbitrary: a elapsed)
  case (Suc n)
  have n: "int (Suc n) * (i + p) = (i + p) + int n * (i + p)" by (simp add: algebra_simps)
  have nn: "0 \<le> int n * (i + p)" using assms(1,2) by simp
  have limit: "max 0 (min p (budget - elapsed)) = p" using Suc.prems [unfolded n] nn assms(1,2) by linarith
  obtain e spent where pe: "ping a = (e, spent)" by (cases "ping a")
  define now where "now = elapsed + (if spent < p then spent else p)"
  have now: "now \<le> elapsed + p" by (simp add: now_def)
  have more: "now + i + int n * (i + p) \<le> budget" using now Suc.prems n by linarith
  have strict: "n \<noteq> 0 \<Longrightarrow> now + i < budget"
  proof -
    assume "n \<noteq> 0"
    then have "0 < int n * (i + p)" using assms(3) by simp
    then show "now + i < budget" using more by linarith
  qed
  have step: "ping_loop tie ping i p budget (Suc n) a elapsed = (case if spent < p then e else Some (Sentinel ContextDeadlineExceeded) of
      None \<Rightarrow> Inr now
    | Some x \<Rightarrow> if n = 0 then Inl (Wrap ''provideDB: postgres unreachable'' x) else ping_loop tie ping i p budget n (Suc a) (now + i))"
    unfolding ping_loop.simps limit Let_def pe using strict by (auto simp: now_def split: option.splits)
  have first: "(\<exists>k. a \<le> k \<and> k < a + Suc n \<and> P k) \<longleftrightarrow> P a \<or> (\<exists>k. Suc a \<le> k \<and> k < Suc a + n \<and> P k)" for P
  proof -
    have "a \<le> k \<and> k < a + Suc n \<longleftrightarrow> k = a \<or> Suc a \<le> k \<and> k < Suc a + n" for k by linarith
    then show ?thesis by metis
  qed
  have nb: "now \<le> budget" using more nn assms(1) by linarith
  show ?case
  proof (cases "e = None \<and> spent < p")
    case True
    then show ?thesis using step nb pe by (auto simp: is_ok_def intro!: exI [of _ a])
  next
    case False
    then obtain x where x: "(if spent < p then e else Some (Sentinel ContextDeadlineExceeded)) = Some x"
      by (cases "if spent < p then e else Some (Sentinel ContextDeadlineExceeded)") (auto split: if_splits)
    have no: "\<not> (fst (ping a) = None \<and> snd (ping a) < p)" using False pe by simp
    have out: "ping_loop tie ping i p budget (Suc n) a elapsed =
        (if n = 0 then Inl (Wrap ''provideDB: postgres unreachable'' x) else ping_loop tie ping i p budget n (Suc a) (now + i))"
      using step by (simp only: x option.case)
    show ?thesis
    proof (cases "n = 0")
      case True
      then show ?thesis unfolding out first using no by (simp add: is_ok_def)
    next
      case False
      then show ?thesis unfolding out first using Suc.IH [OF more] no by auto
    qed
  qed
qed (simp add: is_ok_def)

lemma provideDB_is_patient:
  assumes "0 \<le> pc_PingInterval c" "0 \<le> pc_PingPerAttempt c" "0 < pc_PingInterval c + pc_PingPerAttempt c" "0 < pc_PingAttempts c"
    and "pc_PingAttempts c * (pc_PingInterval c + pc_PingPerAttempt c) < 2 ^ 63" and "\<forall>k. 0 \<le> snd (ping k)"
  shows "is_ok (provideDB None tie ping c) \<longleftrightarrow>
    (\<exists>k. 1 \<le> k \<and> k \<le> nat (pc_PingAttempts c) \<and> fst (ping k) = None \<and> snd (ping k) < pc_PingPerAttempt c)"
    and "provideDB None tie ping c \<noteq> Inl (Wrap ''provideDB: context cancelled'' e)"
proof -
  let ?b = "pc_PingAttempts c * (pc_PingInterval c + pc_PingPerAttempt c)"
  have "0 \<le> ?b" using assms(3,4) by simp
  then have "wrap64 ?b = ?b" using assms(5) by (intro wrap64_id) (simp add: in_int64_def)
  then show "is_ok (provideDB None tie ping c) \<longleftrightarrow>
      (\<exists>k. 1 \<le> k \<and> k \<le> nat (pc_PingAttempts c) \<and> fst (ping k) = None \<and> snd (ping k) < pc_PingPerAttempt c)"
    "provideDB None tie ping c \<noteq> Inl (Wrap ''provideDB: context cancelled'' e)"
    using ping_loop_exact [OF assms(1-3,6), of 0 "nat (pc_PingAttempts c)" ?b tie 1] assms(4)
    by (auto simp: provideDB_def less_Suc_eq_le)
qed

text \<open>The watch of stage 5 ends the process at the first unbroken run of \<open>maxFail\<close> failures, and not before.\<close>

abbreviation streak :: "int \<Rightarrow> err option list \<Rightarrow> int" where
  "streak \<equiv> foldl (\<lambda>n x. if x = None then 0 else n + 1)"

lemma drift_watch_streak:
  assumes "drift_watch m sweep d c ts w = (x, es, w')" and "0 \<le> c" "c < m" "m < 2 ^ 31"
  shows "(x = Escalated \<longleftrightarrow> m \<le> streak c es) \<and> (\<forall>k < length es. streak c (take k es) < m)"
  using assms
proof (induction m sweep d c ts w arbitrary: x es w' rule: drift_watch.induct)
  case (3 m sweep d c ts w)
  have small: "(c + 1 + 2 ^ 31) mod 2 ^ 32 - 2 ^ 31 = c + 1"
  proof -
    have "(c + 1 + 2 ^ 31) mod 2 ^ 32 = c + 1 + 2 ^ 31" 
    proof (rule mod_pos_pos_trivial)
      have "c + 1 < 2147483648" using 3(4,5) 3(6) [simplified] by linarith
      moreover have "0 \<le> c + 1" using 3(4) by linarith
      ultimately show "0 \<le> c + 1 + 2 ^ 31" "c + 1 + 2 ^ 31 < (2 :: int) ^ 32" by simp_all
    qed
    then show ?thesis by linarith
  qed
  have shift: "(\<forall>k < Suc (length zs). streak c (take k (z # zs)) < m) \<longleftrightarrow>
      (\<forall>k < length zs. streak (if z = None then 0 else c + 1) (take k zs) < m) \<and>
      (zs = [] \<or> True)" if "True" for z zs
    using 3(5) by (auto simp: less_Suc_eq_0_disj)
  obtain r w1 where s: "sweep (time_passes d w) = (r, w1)" by (cases "sweep (time_passes d w)")
  show ?case
  proof (cases r)
    case (Inr u)
    obtain y fs w2 where y: "drift_watch m sweep d 0 ts w1 = (y, fs, w2)" by (cases "drift_watch m sweep d 0 ts w1")
    with 3(3) s Inr have "x = y" "es = None # fs" by auto
    with 3(2) [OF s [symmetric] Inr y] 3(4,5,6) shift [where z = None and zs = fs] show ?thesis by auto
  next
    case (Inl e)
    obtain b w2 where b: "ctx_Err w1 = (b, w2)" by (cases "ctx_Err w1")
    show ?thesis
    proof (cases b)
      case True
      with 3(3,5,6) s Inl b show ?thesis by auto
    next
      case False
      show ?thesis
      proof (cases "m \<le> c + 1")
        case True
        with 3(3,5,6) s Inl b \<open>\<not> b\<close> small show ?thesis by (auto simp: Let_def)
      next
        case less: False
        obtain y fs w3 where y: "drift_watch m sweep d (c + 1) ts w2 = (y, fs, w3)" by (cases "drift_watch m sweep d (c + 1) ts w2")
        with 3(3) [unfolded drift_watch.simps Let_def small] s Inl b \<open>\<not> b\<close> less have "x = y" "es = Some e # fs" by auto
        with 3(1) [OF s [symmetric] Inl b [symmetric] _ small [symmetric]] y less 3(4,5,6) \<open>\<not> b\<close> shift [where z = "Some e" and zs = fs] small
        show ?thesis by auto
      qed
    qed
  qed
qed auto

lemma streak_last:
  "streak 0 es \<ge> int m \<longleftrightarrow> m \<le> length es \<and> (\<forall>i < m. es ! (length es - Suc i) \<noteq> None)"
proof (induction es arbitrary: m rule: rev_induct)
  case (snoc x es)
  show ?case
  proof (cases m)
    case (Suc k)
    have "(\<forall>i < Suc k. (es @ [x]) ! (length (es @ [x]) - Suc i) \<noteq> None) \<longleftrightarrow>
        x \<noteq> None \<and> (\<forall>i < k. (es @ [x]) ! (length es - Suc i) \<noteq> None)"
      by (simp only: All_less_Suc2) simp
    moreover have "(es @ [x]) ! (length es - Suc i) = es ! (length es - Suc i)" if "i < k" "k \<le> length es" for i
    proof -
      have "length es - Suc i < length es" using that by linarith
      then show ?thesis by (simp add: nth_append)
    qed
    ultimately show ?thesis using snoc [of k] Suc by (cases x) auto
  qed (use snoc [of 0] in auto)
qed auto

lemma drift_escalates_exactly:
  assumes "drift_Validate cfg = Inr u" and "dc_MaxConsecutiveFailures cfg < 2 ^ 31"
    and run: "stage5_runDriftDetector X ttl cfg ts w = (x, es, w')"
  shows "x = Escalated \<longleftrightarrow> nat (dc_MaxConsecutiveFailures cfg) \<le> length es \<and>
    (\<forall>i < nat (dc_MaxConsecutiveFailures cfg). es ! (length es - Suc i) \<noteq> None)"
proof -
  have "0 < dc_MaxConsecutiveFailures cfg" using assms(1) by (auto simp: drift_Validate_def split: if_splits)
  with drift_watch_streak [OF run [unfolded stage5_runDriftDetector_def]] assms(2) streak_last [of "nat (dc_MaxConsecutiveFailures cfg)" es]
  show ?thesis by auto
qed

text \<open>The expiry loop of stage 5 keeps the books over any schedule and any failing calls, and it never touches an order
  that is not awaiting payment.\<close>

lemma stage5_loop_is_sweep_ids: "stage5_sweep_loop X ss w = sweep_ids (stage5_Compensate X) (map fst ss) w"
  by (induction ss arbitrary: w) (auto split: prod.splits bool.splits)

lemma Stage5Sweeper_books: "sys_ok w \<Longrightarrow> sys_ok (Stage5Sweeper_Sweep X cfg w)"
proof -
  assume ok: "sys_ok w"
  obtain r w1 where f: "orderRepo_FindExpiredReservations (ec_ExpiryGracePeriod cfg) (ec_BatchSize cfg) w = (r, w1)" by (metis surj_pair)
  have "sys_ok w1" using ok f by (auto simp: sys_ok_def events_ok_def orderRepo_FindExpiredReservations_def split: prod.splits sum.splits dest!: sql_query_frame)
  with f show ?thesis
    by (cases r) (auto simp: Stage5Sweeper_Sweep_def stage5_loop_is_sweep_ids intro: stage5.sweep_ids_books)
qed

lemma stage5_expiry_keeps_books: "stage5_runExpirySweeper X cfg ts w = (x, w') \<Longrightarrow> sys_ok w \<Longrightarrow> sys_ok w'"
proof (induction X cfg ts w rule: stage5_runExpirySweeper.induct)
  case (3 X cfg ts w)
  have "sys_ok (time_passes (ec_SweepInterval cfg) w)" by (rule sys_ok_clock [OF 3(3)]) (simp_all add: time_passes_def)
  with 3 Stage5Sweeper_books show ?case by simp
qed auto

text \<open>The route table: no request has two handlers, the payment shortcut exists only with its switch, the stream is
  behind the token, and every other request under \<open>/api/v1\<close> has the body limit.\<close>

lemma path_matches_length: "path_matches p ss \<Longrightarrow> length p = length ss"
  by (induction p ss rule: path_matches.induct) auto

lemma path_matches_simps:
  "path_matches [] ss \<longleftrightarrow> ss = []"
  "path_matches (Lit a # p) ss \<longleftrightarrow> (\<exists>t. ss = a # t \<and> path_matches p t)"
  "path_matches (Param a # p) ss \<longleftrightarrow> (\<exists>s t. ss = s # t \<and> s \<noteq> '''' \<and> path_matches p t)"
  by (cases ss; simp; blast?)+

lemma one_handler:
  assumes "buildGinEngine proxies c = Inr rs"
  shows "length (routed rs m path) \<le> 1"
  using assms
  by (auto simp: buildGinEngine_def health_routes_def booking_routes_def routed_def path_matches_simps split: sum.splits if_splits)

lemma test_route_is_gated:
  assumes "buildGinEngine proxies c = Inr rs" and "\<not> sv_EnableTestEndpoints (cfg_Server c)"
  shows "r \<in> set (routed rs m (''test'' # path)) \<Longrightarrow> False"
  using assms
  by (auto simp: buildGinEngine_def health_routes_def booking_routes_def routed_def path_matches_simps split: sum.splits)

lemma api_is_guarded:
  assumes "buildGinEngine proxies c = Inr rs" and "r \<in> set (routed rs m (''api'' # ''v1'' # path))"
  shows "BodyLimit \<in> set (rt_Guards r) \<and> (rt_Handler r = ''HandleStream'' \<longrightarrow> AdminToken \<in> set (rt_Guards r)) \<and>
    (rt_Handler r = ''HandleBook'' \<longrightarrow> IdempotencyKey \<in> set (rt_Guards r))"
  using assms
  by (auto simp: buildGinEngine_def health_routes_def booking_routes_def routed_def path_matches_simps split: sum.splits if_splits)

text \<open>The write timeout of the server holds for the event stream too: with the settings of the repository every write
  after ten seconds fails, before the first heartbeat.\<close>

lemma stream_is_cut:
  assumes "sv_WriteTimeout (cfg_Server c) = 10 * second" and "HeartbeatInterval = 30 * second" and "readAt \<le> opened"
  shows "write_fails (buildHTTPServer c) readAt (opened + HeartbeatInterval)"
    and "opened + 10 * second \<le> t \<Longrightarrow> write_fails (buildHTTPServer c) readAt t"
  using assms by (simp_all add: write_fails_def buildHTTPServer_def)

text \<open>The shutdown takes every step in its order whatever fails, and answers with the error of the tracer alone.\<close>

lemma shutdown_takes_every_step:
  "shutdownAll cancel saga (Some pprof) (Some http) tracer w =
    (let (e1, w1) = saga (cancel w); (e2, w2) = pprof w1; (e3, w3) = http w2; (e4, w4) = tracer w3
     in (e4, map fst (filter (\<lambda>(n, e). e \<noteq> None) [(''saga'', e1), (''pprof'', e2), (''http'', e3), (''tracer'', e4)]), w4))"
  by (auto simp: shutdownAll_def stop_step_def split: prod.splits option.splits)

text \<open>fx runs the stop hooks in the opposite order of their start. The admin stream starts before the server, so on the main
  server its hints come after the HTTP server has been shut down, when no connection is left to read them; stage 5 sends
  them itself before.\<close>

lemma hints_come_late:
  defines "step \<equiv> \<lambda>n t. (None :: err option, t @ [n])" and "does \<equiv> \<lambda>n t. t @ [n]" and "gone \<equiv> \<lambda>n t. (True, t @ [n])"
  shows "(case shutdownAll (does ''cancel'') (step ''saga'') None (Some (step ''http'')) (step ''tracer'') [] of
      (_, _, t) \<Rightarrow> snd (admin_stream_stop (does ''refuse'') (does ''hints'') (does ''cancel'') (gone ''subscriber'') (gone ''hub'') (gone ''bus'') t))
    = [''cancel'', ''saga'', ''http'', ''tracer'', ''refuse'', ''hints'', ''cancel'', ''subscriber'', ''hub'', ''bus'']"
    and "snd (snd (stage5_stop (does ''refuse'') (does ''hints'') (step ''http'') (does ''cancel'') (gone ''wait'') (step ''publisher'')
      (step ''consumer'') [])) = [''refuse'', ''hints'', ''http'', ''cancel'', ''wait'', ''publisher'', ''consumer'']"
  by (simp_all add: assms shutdownAll_def stop_step_def admin_stream_stop_def stage5_stop_def)

text \<open>Stage 5 closes its Kafka connections whatever happens, and answers with an error only when its goroutines did not end.\<close>

lemma stage5_stop_closes:
  "fst (stage5_stop refuse hints http cancel ended publisher consumer w) = None \<longleftrightarrow> fst (ended (cancel (snd (http (hints (refuse w))))))"
  "snd (snd (stage5_stop refuse hints http cancel ended publisher consumer w)) =
     snd (consumer (snd (publisher (snd (ended (cancel (snd (http (hints (refuse w)))))))))) "
  by (auto simp: stage5_stop_def stop_step_def split: prod.splits option.splits)

end
