(* ===== verification/Life_Cycle.thy ===== *)
theory Life_Cycle
  imports Sweep_Process Saga_Consumer
begin

text \<open>
  The way back of an abandoned reservation through three processes: the expiry sweeper (\<open>application/expiry/sweeper.go\<close>)
  expires the order and writes its event, the relay (\<open>application/outbox/relay.go\<close>) publishes it, and the saga consumer
  (\<open>messaging/saga_consumer.go\<close>) hands it to the compensator (\<open>application/saga/compensator.go\<close>).
\<close>

section \<open>One leg after the other\<close>

lemma overdue_shift: "overdue_row g now r \<longleftrightarrow> overdue_row 0 (now - g) r"
  by (auto simp: overdue_row_def split: option.splits)

text \<open>The sweep: the order is expired, with its event among the pending ones.\<close>

lemma sweep_expires_backlog:
  assumes nf: "w_faults w = []" and ok: "sys_ok w" and ids: "ids_suffice w"
    and row: "lookup or_id i (pg_orders (w_pg w)) = Some r" and due: "overdue_row (ec_ExpiryGracePeriod cfg) (pg_now (w_pg w)) r"
    and batch: "length (unpaid_by (pg_now (w_pg w) - ec_ExpiryGracePeriod cfg) (w_pg w)) \<le> nat (ec_BatchSize cfg)"
  obtains w' where "Sweeper_Sweep X cfg w = (Inr (), w')" "w_faults w' = []" "swept (ec_ExpiryGracePeriod cfg) w w'" "outbox_grows w w'"
    "failed_with_event Expired r (w_pg w')"
proof -
  let ?D = "pg_now (w_pg w) - ec_ExpiryGracePeriod cfg"
  have i: "r \<in> set (pg_orders (w_pg w))" "or_id r = i" using lookup_in_set [OF row] by auto
  have "draining cfg ?D (w_pg w) w" using nf ok ids by (simp add: draining_def sys_ok_def only_expires_refl)
  then obtain w' where w': "Sweeper_Sweep X cfg w = (Inr (), w')" "draining cfg ?D (w_pg w) w'"
    "length (unpaid_by ?D (w_pg w')) \<le> length (unpaid_by ?D (w_pg w)) - nat (ec_BatchSize cfg)" "outbox_grows w w'"
    using expiry_sweep_drains by blast
  have sw: "swept (ec_ExpiryGracePeriod cfg) w w'" by (rule Sweeper_Sweep_swept [OF w'(1) ok])
  have "unpaid_by ?D (w_pg w') = []" using w'(3) batch by simp
  moreover have "overdue_row 0 ?D r" using due by (simp only: overdue_shift [of "ec_ExpiryGracePeriod cfg"])
  ultimately have "lookup or_id i (pg_orders (w_pg w')) \<noteq> Some r"
    using lookup_in_set [of or_id i "pg_orders (w_pg w')" r] unfolding unpaid_by_def filter_empty_conv by blast
  then have "failed_with_event Expired r (w_pg w')" using sw i by (auto simp: swept_def)
  with that w' sw show ?thesis by (auto simp: draining_def)
qed

text \<open>The relay: every pending event goes out when the batch is large enough.\<close>

lemma relay_publishes_pending:
  assumes nf: "w_faults w = []" and st: "stamped (w_pg w)" and n: "length (pending (w_pg w)) \<le> nat n" and ok: "sys_ok w"
  obtains w' obs where "relay_processBatch n w = (Inr (), w')" "w_faults w' = []" "sys_ok w'" "w_rd w' = w_rd w"
    "w_pg w' = (w_pg w)\<lparr>pg_outbox := obs\<rparr>" "set (pending (w_pg w)) \<subseteq> set (w_failed w')"
proof -
  let ?es = "sort_key ob_id (pending (w_pg w))"
  have l: "outboxRepo_ListPending n w = (Inr ?es, w)" using nf n by (simp add: outboxRepo_ListPending_def sql_query_Works)
  have "list_all (\<lambda>e. ob_createdAt e \<noteq> 0) ?es" using st by (auto simp: list_all_iff)
  from relay_events_works [OF nf this] obtain w' obs where w': "relay_events ?es w = (Inr (), w')" "w_faults w' = []"
    "w_failed w' = w_failed w @ ?es" "w_rd w' = w_rd w" "w_pg w' = (w_pg w)\<lparr>pg_outbox := obs\<rparr>" by blast
  have "sys_ok w'"
    using relay_sys.relay_events_keeps [OF w'(1) ok] listed_events [OF l] ok by (auto simp: list_all_iff sys_ok_def events_ok_def)
  with that w' l show ?thesis by (simp add: relay_processBatch_def)
qed

text \<open>The consumer: a message that the compensator accepts is committed.\<close>

lemma saga_handle_works:
  assumes "HandleOrderFailed X p (kc_world s) = (Inr (), w')" and "w_faults w' = []"
  shows "kp_committed (kc_part (saga_handle X off p s)) = Suc off \<and> kc_world (saga_handle X off p s) = w'"
  using assms by (simp add: saga_handle_def in_world_def clearRetry_def commitOrLog_Works)

section \<open>The tickets of an abandoned reservation come back\<close>

text \<open>C3: The tickets of an abandoned reservation come back. With every call working, when the reservation of an unpaid
  order has ended more than the grace period ago, one sweep of the expiry sweeper, one batch of the relay and the handling of the
  message by the saga consumer, each with a batch that takes the backlog, commit the message and leave the order
  compensated, with its tickets available again in the database, and in Redis when the counter exists.\<close>

theorem abandoned_tickets_return:
  assumes nf: "w_faults w = []" and ok: "sys_ok w" and ids: "ids_suffice w" and st: "stamped (w_pg w)" "w_now w \<noteq> 0"
    and row: "lookup or_id i (pg_orders (w_pg w)) = Some r" and due: "overdue_row (ec_ExpiryGracePeriod cfg) (pg_now (w_pg w)) r"
    and tt: "or_tt r = Some tt" "tt \<noteq> uuid_Nil" "lookup tr_id tt (pg_types (w_pg w)) \<noteq> None"
    and batch: "length (unpaid_by (pg_now (w_pg w) - ec_ExpiryGracePeriod cfg) (w_pg w)) \<le> nat (ec_BatchSize cfg)"
    and relay: "length (pending (w_pg w)) + length (unpaid (w_pg w)) \<le> nat n"
  shows "\<exists>w1 w2 e. Sweeper_Sweep X cfg w = (Inr (), w1) \<and> relay_processBatch n w1 = (Inr (), w2) \<and> e \<in> set (w_failed w2) \<and>
    (\<forall>s off. kc_world s = w2 \<longrightarrow> (let s' = saga_handle X off (ob_payload e) s; w' = kc_world s' in
       kp_committed (kc_part s') = Suc off \<and>
       (\<exists>u. lookup or_id i (pg_orders (w_pg w')) = Some (r\<lparr>or_status := Compensated, or_updated := u\<rparr>)) \<and>
       available_of tt (w_pg w') = map_option (\<lambda>k. k + or_qty r) (available_of tt (w_pg w)) \<and>
       stock (w_rd w') tt = stock (w_rd w) tt +
         (if reverted (w_rd w) (compensationID_of X i) \<or> \<not> stocked (w_rd w) tt then 0 else or_qty r)))"
proof -
  from sweep_expires_backlog [OF nf ok ids row due batch, of X] obtain w1 where
    w1: "Sweeper_Sweep X cfg w = (Inr (), w1)" "w_faults w1 = []" "swept (ec_ExpiryGracePeriod cfg) w w1" "outbox_grows w w1"
      "failed_with_event Expired r (w_pg w1)" .
  have "stamped (w_pg w1)" "length (pending (w_pg w1)) \<le> nat n" "sys_ok w1"
    using w1(3,4) st relay by (auto simp: outbox_grows_def swept_def)
  from relay_publishes_pending [OF w1(2) this] obtain w2 obs where
    w2: "relay_processBatch n w1 = (Inr (), w2)" "w_faults w2 = []" "sys_ok w2" "w_rd w2 = w_rd w1"
      "w_pg w2 = (w_pg w1)\<lparr>pg_outbox := obs\<rparr>" "set (pending (w_pg w1)) \<subseteq> set (w_failed w2)" .
  have i: "or_id r = i" using lookup_in_set [OF row] by simp
  obtain u where "lookup or_id i (pg_orders (w_pg w1)) = Some (r\<lparr>or_status := Expired, or_updated := u\<rparr>)"
    using w1(5) i by (auto simp: failed_with_event_def)
  then have row2: "lookup or_id i (pg_orders (w_pg w2)) = Some (r\<lparr>or_status := Expired, or_updated := u\<rparr>)" using w2(5) by simp
  obtain e where pe: "e \<in> set (pending (w_pg w1))" "case ob_payload e of Malformed _ \<Rightarrow> False | OrderFailedJSON ev \<Rightarrow> speaks_of ev r"
    using w1(5) by (auto simp: failed_with_event_def)
  then obtain ev where e: "e \<in> set (pending (w_pg w1))" "ob_payload e = OrderFailedJSON ev" "speaks_of ev r"
    by (cases "ob_payload e") auto
  have types: "pg_types (w_pg w2) = pg_types (w_pg w)" "w_rd w2 = w_rd w" using w1(3) w2(4,5) by (simp_all add: swept_def)
  have db2: "db_ok (w_pg w2)" using w2(3) by (simp add: sys_ok_def)
  have "r\<lparr>or_status := Expired, or_updated := u\<rparr> \<in> set (pg_orders (w_pg w2))" using lookup_in_set [OF row2] by simp
  then have c: "compensable (w_pg w2) (r\<lparr>or_status := Expired, or_updated := u\<rparr>)"
    using compensableI [OF db2] tt types by simp
  have ev: "ofe_TicketTypeID ev = tt" "ofe_OrderID ev = i" "speaks_of ev (r\<lparr>or_status := Expired, or_updated := u\<rparr>)"
    using e(3) tt i by (simp_all add: speaks_of_def)
  from HandleOrderFailed_works [OF w2(2) db2 row2 c ev(3,2), of X] obtain w' u' where
    w': "HandleOrderFailed X (OrderFailedJSON ev) w2 = (Inr (), w')" "w_faults w' = []"
      "lookup or_id i (pg_orders (w_pg w')) = Some (r\<lparr>or_status := Compensated, or_updated := u'\<rparr>)"
      "available_of tt (w_pg w') = map_option (\<lambda>k. k + or_qty r) (available_of tt (w_pg w2))"
      "w_rd w' = snd (revert_lua tt (or_qty r) (compensationID_of X i) (w_rd w2))"
    using ev(1) by auto
  have "available_of tt (w_pg w2) = available_of tt (w_pg w)" using types by (simp add: available_of_def)
  moreover have "stock (w_rd w') tt = stock (w_rd w) tt +
      (if reverted (w_rd w) (compensationID_of X i) \<or> \<not> stocked (w_rd w) tt then 0 else or_qty r)"
    using revert_lua_gave [of tt "or_qty r" "compensationID_of X i" "w_rd w"] w'(5) types(2)
    by (cases "revert_lua tt (or_qty r) (compensationID_of X i) (w_rd w)") (auto simp: gave_def split: if_splits)
  ultimately show ?thesis
    using w1(1) w2(1,6) e(1,2) w' saga_handle_works by (intro exI [of _ w1] exI [of _ w2] exI [of _ e]) (auto simp: Let_def)
qed

text \<open>The reservation of the demonstration world: two tickets, unpaid, past its deadline.\<close>

lemma abandoned_tickets_return_witness:
  "\<exists>w1 w2 e. Sweeper_Sweep plain_ext \<lparr>ec_SweepInterval = 30, ec_ExpiryGracePeriod = 2, ec_MaxAge = 1000, ec_BatchSize = 1\<rparr>
       (demo_unpaid_world\<lparr>w_now := 100\<rparr>) = (Inr (), w1) \<and> relay_processBatch 10 w1 = (Inr (), w2) \<and> e \<in> set (w_failed w2) \<and>
     (let w' = kc_world (saga_handle plain_ext 0 (ob_payload e) \<lparr>kc_world = w2, kc_part = \<lparr>kp_log = [ob_payload e], kp_pos = 1, kp_committed = 0\<rparr>,
         kc_retries = Map.empty, kc_dlq = []\<rparr>)
      in available_of 5 (w_pg w') = Some 10 \<and> stock (w_rd w') 5 = 12)"
proof -
  let ?cfg = "\<lparr>ec_SweepInterval = 30, ec_ExpiryGracePeriod = 2, ec_MaxAge = 1000, ec_BatchSize = 1\<rparr>"
  let ?r = "demo_expired\<lparr>or_status := AwaitingPayment\<rparr>" and ?w = "demo_unpaid_world\<lparr>w_now := 100\<rparr>"
  have a: "w_faults ?w = []" "sys_ok ?w" "ids_suffice ?w" "stamped (w_pg ?w)" "w_now ?w \<noteq> 0"
    using demo_unpaid_ok unfolding ids_suffice_def sys_ok_def events_ok_def
    by (simp_all add: demo_unpaid_world_def demo_saga_world_def empty_world_def empty_pg_def demo_expired_def) (rule exI [of _ "[21]"], simp)
  have b: "lookup or_id 9 (pg_orders (w_pg ?w)) = Some ?r" "or_tt ?r = Some 5" "(5 :: uuid) \<noteq> uuid_Nil" "lookup tr_id 5 (pg_types (w_pg ?w)) \<noteq> None"
    by (simp_all add: demo_unpaid_world_def demo_saga_world_def demo_expired_def demo_type_def)
  have c: "overdue_row (ec_ExpiryGracePeriod ?cfg) (pg_now (w_pg ?w)) ?r"
    "length (unpaid_by (pg_now (w_pg ?w) - ec_ExpiryGracePeriod ?cfg) (w_pg ?w)) \<le> nat (ec_BatchSize ?cfg)"
    "length (pending (w_pg ?w)) + length (unpaid (w_pg ?w)) \<le> nat 10" by code_simp+
  have d: "available_of 5 (w_pg ?w) = Some 8" "stock (w_rd ?w) 5 = 10" "or_qty ?r = 2" "stocked (w_rd ?w) 5"
    "\<not> reverted (w_rd ?w) (compensationID_of plain_ext 9)" by code_simp+
  obtain w1 w2 e where
    r: "Sweeper_Sweep plain_ext ?cfg ?w = (Inr (), w1)" "relay_processBatch 10 w1 = (Inr (), w2)" "e \<in> set (w_failed w2)"
    and h: "\<forall>s off. kc_world s = w2 \<longrightarrow> (let s' = saga_handle plain_ext off (ob_payload e) s; w' = kc_world s' in
       kp_committed (kc_part s') = Suc off \<and>
       (\<exists>u. lookup or_id 9 (pg_orders (w_pg w')) = Some (?r\<lparr>or_status := Compensated, or_updated := u\<rparr>)) \<and>
       available_of 5 (w_pg w') = map_option (\<lambda>k. k + or_qty ?r) (available_of 5 (w_pg ?w)) \<and>
       stock (w_rd w') 5 = stock (w_rd ?w) 5 +
         (if reverted (w_rd ?w) (compensationID_of plain_ext 9) \<or> \<not> stocked (w_rd ?w) 5 then 0 else or_qty ?r))"
    using abandoned_tickets_return [OF a b(1) c(1) b(2-4) c(2,3), of plain_ext] by (elim exE conjE) (rule that)
  let ?s = "\<lparr>kc_world = w2, kc_part = \<lparr>kp_log = [ob_payload e], kp_pos = 1, kp_committed = 0\<rparr>, kc_retries = Map.empty, kc_dlq = []\<rparr>"
  have "kc_world ?s = w2" by simp
  then have "available_of 5 (w_pg (kc_world (saga_handle plain_ext 0 (ob_payload e) ?s))) = Some 10 \<and>
      stock (w_rd (kc_world (saga_handle plain_ext 0 (ob_payload e) ?s))) 5 = 12" using h [unfolded d(1,2,3) Let_def, rule_format, OF \<open>kc_world ?s = w2\<close>, of 0] d(4,5) by simp
  with r show ?thesis unfolding Let_def by blast
qed

end
