(* ===== verification/Spec2Isabelle.thy ===== *)
theory Spec2Isabelle
  imports Intake_Consumer Saga_Consumer Stripe_Gateway Drift Event_Service Server_System Idempotency Stage_Http Admin_Access Sse_Handler Event_Inventory Sweep_Process Ops_Health Test_Payment Tracing Dora_Metrics Server_Process Life_Cycle
begin

text \<open>
  \<^bold>\<open>A ticket booking server.\<close> The repository sells tickets of events. A booking takes its tickets from a counter in Redis,
  becomes an order in PostgreSQL, is paid through a payment provider, and is given back when it is not paid in time or the
  payment fails. Five variants of the server exist (stages 1 to 5); stage 4 is the main one (\<open>cmd/booking-cli\<close>).

  The way of an order, with the file under \<open>src/\<close> and the theory that models it:

  \<^item> \<^bold>\<open>Intake.\<close> \<open>POST /book\<close> (\<open>internal/infrastructure/api/booking\<close>, theory \<open>Api_Booking\<close>) behind the idempotency middleware
    (\<open>api/middleware/idempotency.go\<close>, \<open>cache/idempotency.go\<close>, theory \<open>Idempotency\<close>) calls the booking service
    (\<open>internal/application/booking\<close>, theories \<open>Booking\<close> and \<open>Booking_Sync\<close>), which takes the tickets with a Lua script
    (\<open>internal/infrastructure/cache\<close>, \<open>cache/lua\<close>, theory \<open>Lua_Inventory\<close>). Stage 4 writes a stream entry in the same script,
    stage 5 publishes to a Kafka topic, stages 1 and 2 write the order at once.
  \<^item> \<^bold>\<open>Persistence.\<close> The worker (\<open>cache/redis_queue.go\<close>, \<open>internal/application/worker\<close>, theory \<open>Worker\<close>) or the intake consumer
    (\<open>internal/infrastructure/messaging\<close>, theories \<open>Kafka\<close> and \<open>Intake_Consumer\<close>) stores the order and decrements the ticket type.
    The repositories are \<open>internal/infrastructure/persistence/postgres\<close> (theories \<open>State\<close>, \<open>Postgres\<close>, \<open>Event_Inventory\<close>), the
    aggregates \<open>internal/domain\<close> (theories \<open>Domain_Errors\<close>, \<open>Domain_Order\<close>, \<open>Domain_Catalog\<close>), the accounting of tickets \<open>Ledger\<close>.
  \<^item> \<^bold>\<open>Payment.\<close> \<open>/pay\<close> and the webhook (\<open>internal/application/payment\<close>, \<open>api/webhook\<close>, theories \<open>Payment\<close> and
    \<open>Payment_Gateway\<close>), the Stripe adapter and its redaction (\<open>internal/infrastructure/payment\<close>, theories \<open>Stripe_Gateway\<close>,
    \<open>Stripe_Redact\<close>), the endpoint that plays the provider in tests (\<open>api/testapi\<close>, theory \<open>Test_Payment\<close>).
  \<^item> \<^bold>\<open>Giving back.\<close> A failed or expired order writes an outbox event in its own transaction; the relay publishes it
    (\<open>internal/application/outbox\<close>, theory \<open>Outbox\<close>), the saga consumer receives it (theory \<open>Saga_Consumer\<close>) and the compensator
    gives the tickets back in both stores (\<open>internal/application/saga\<close>, theory \<open>Saga\<close>). The expiry sweepers are theory \<open>Expiry\<close>.
  \<^item> \<^bold>\<open>Repair.\<close> The watchdog (\<open>Saga\<close>), the reconciler of orders stuck in charging (\<open>Recon\<close>) and the drift detector (\<open>Drift\<close>)
    of \<open>internal/application/recon\<close>, and the processes that run all the sweeps (\<open>cmd/booking-cli\<close>, theory \<open>Sweep_Process\<close>).
  \<^item> \<^bold>\<open>Administration.\<close> Creating events (\<open>Event_Service\<close>), the token guard (\<open>Admin_Access\<close>), the live event stream
    (\<open>Admin_Stream\<close>, \<open>Sse_Handler\<close>), configuration (\<open>Configuration\<close>), health probes (\<open>Ops_Health\<close>), the server processes, their
    routes, timeouts and shutdown (\<open>Server_Process\<close>), the tracing decorators (\<open>Tracing\<close>) and the delivery report
    (\<open>internal/dora\<close>, theory \<open>Dora_Metrics\<close>).
  \<^item> \<^bold>\<open>Comparison servers.\<close> \<open>cmd/booking-cli-stage1\<close> to \<open>stage3\<close> and \<open>api/stagehttp\<close>: \<open>Stage_Compensation\<close>, \<open>Stage_Http\<close>.
  \<^item> \<^bold>\<open>The whole.\<close> \<open>Server_System\<close> runs all components over one state, in any order and with any failing calls; \<open>Life_Cycle\<close> follows
    an abandoned reservation through sweeper, relay and consumer.

  \<^bold>\<open>State and effects.\<close> \<open>Prelude\<close> and \<open>Go_Runtime\<close> hold what all theories share: tables as lists of rows, and what the code uses of
  Go (error chains, \<open>strconv\<close>, 64-bit wrap-around, times as nanoseconds). \<open>State\<close> has the records of the database (\<open>pg\<close>, one list
  per table), of Redis (\<open>redis\<close>) and the \<open>world\<close> around them: clocks, topics, the admin bus, metrics. An operation takes the
  world and returns a result and the next world; an error is the left side of a sum and keeps the chain that \<open>errors.Is\<close> walks.
  Each SQL statement and each Lua script is one atomic function, as the stores run it, with the constraints of
  \<open>deploy/postgres/migrations\<close>. Every call that leaves the process consumes one entry of \<open>w_faults\<close>: it works, or the request is
  lost, or its reply is lost although the effect took place. A theorem that says nothing of \<open>w_faults\<close> holds for every pattern of
  failures; the liveness theorems ask for an empty list, where everything works. A context that ends is an entry of the same list.

  \<^bold>\<open>Interfaces.\<close> Where a component relies on another the contract is a locale, interpreted on the code's own definitions:
  \<open>status_machine\<close> (on the methods of \<open>Order\<close> and on the SQL transitions), \<open>unit_of_work\<close>, \<open>inventory_gate\<close> and \<open>deducter\<close> (on the three
  deduct scripts), \<open>partition_handler\<close> (on both Kafka consumers), \<open>relay_invariant\<close>, \<open>compensator\<close> (on the four direct compensators),
  \<open>payment_gateway\<close> and \<open>payment_status_reader\<close> (on the mock gateway, and shown of the Stripe adapter), \<open>idempotency_store\<close>,
  \<open>server_ports\<close>, \<open>kept_by_sweep\<close> and \<open>draining_sweep\<close> (on the sweep processes).

  \<^bold>\<open>What is proved.\<close>

  \<^item> Of the whole server: C1, C2. In any run no order is lost, statuses move along the edges of the state machine, every ticket
    of a ticket type is available or belongs to a live order, published events speak of stored orders, and every stored order
    can be read back as a priced reservation.
  \<^item> Of the way back: C3. An abandoned reservation is expired, its event published and handled, and its tickets are available again,
    through three processes (\<open>Life_Cycle\<close>).
  \<^item> Of the order and its rows: C4 (the life of an order is bounded), C5 (the SQL refines the domain methods).
  \<^item> Of the gate: C6 (conservation), C19 (no overselling), C24 (the scripts agree); of its entries: C22 (round trip).
  \<^item> Of the asynchronous parts: what leaves a queue was handled, C7, C12, C13, C34; what must happen once happens at most once and,
    when calls work, happens, C9, C10, C14, C30, C31; the books stay right, C8.
  \<^item> Of payment: C15, C16, C17, C21, C32, C33; no secret in the logs, C18.
  \<^item> Of the HTTP interfaces: answers say what happened, C25, C29; retries and replays, C26, C27; the comparison servers, C28.
  \<^item> Of sweeps and administration: C11, C20, C23; start-up, C35, C36; the admin stream, C37 to C40.
  \<^item> Lemmas that show a flaw are kept with the component: \<open>redelivery_reverts_live_booking\<close> (\<open>Worker\<close>),
    \<open>early_request_blocks_rehydration\<close> (\<open>Lua_Inventory\<close>), \<open>intake_transient_failure_loses_order\<close> (\<open>Intake_Consumer\<close>), \<open>saga_retry_is_skipped\<close>
    (\<open>Saga_Consumer\<close>), \<open>rebooked_order_is_never_compensated\<close> (\<open>Saga\<close>), \<open>stream_is_cut\<close> (\<open>Server_Process\<close>), \<open>draft_hides_releases\<close>
    (\<open>Dora_Metrics\<close>) and others; the properties above are stated so that they hold in spite of them.

  \<^bold>\<open>Loops.\<close> A loop over a list is structural recursion. Loops that run until the process stops take fuel, one unit per round, and give
  \<open>None\<close> while they are still running: the subscription of the worker and its pending recovery (\<open>Worker\<close>), the consumers
  (\<open>Kafka\<close>). The theorems about them hold for every fuel, so for every prefix of a run; that a
  delivery ends is shown for the handler itself (C34). The processes of \<open>Sweep_Process\<close> and \<open>Server_Process\<close>, the relay and the bus take the list of what
  their \<open>select\<close> saw. The paging of \<open>Dora_Metrics\<close> takes fuel too; one more page than the full ones is enough (\<open>listing_is_exact\<close>).

  \<^bold>\<open>Numbers.\<close> \<open>int64\<close> arithmetic that can overflow is written with \<open>wrap64\<close> (amounts, the stage-1 price, the ping budget, version
  numbers); counters that the schema or Redis bounds are plain integers. The quotients of the delivery report are rationals.

  \<^bold>\<open>Parameters.\<close> Code that is not in the repository is an argument: UUIDs, Unicode case, calendar texts, the number parser of C and the ids of
  Redis streams (\<open>ext\<close>), HMAC and JSON encoders, the Stripe SDK, the JWT library, cleanenv, gin's proxy check, the GitHub API, \<open>sort.Slice\<close>. What is used
  of them is stated as a named hypothesis, and each theorem with one has a witness at a concrete instance.

  \<^bold>\<open>Not modelled.\<close> The fx graphs and listeners, Prometheus collectors and logging (the models keep the counters the code bumps and
  leave log lines out, except where a property is about them), command-line parsing, the stress tool, the Markdown text of the delivery
  report, and the idle tickers of the consumers, which write a gauge only. Isolation levels weaker than the serial order of statements
  are not explored: a transaction runs as one step, which the row locks and the unique indexes of the code are there to give.
\<close>

end
